(* ===== verification/Prelude.thy ===== *)
theory Prelude
  imports Main "HOL-Library.Word" "HOL-Library.List_Lexorder" "HOL-Library.Code_Target_Nat"
begin

text \<open>
  What every component shares: the machine integers of the Rust code as words, byte
  strings, big-endian integers, the outcome type of code that may panic, the interface of
  an ordered map (Rust's \<open>BTreeMap\<close>) with its model as a strictly sorted association
  list, the interface of a fixed-width record codec with \<open>chunks_exact\<close>, and the
  interface of a state machine with an invariant.
\<close>

unbundle bit_operations_syntax

section \<open>Types and automation\<close>

type_synonym u8 = "8 word"
type_synonym u16 = "16 word"
type_synonym u32 = "32 word"
type_synonym u64 = "64 word"

type_synonym bytes = "u8 list"

text \<open>
  \<open>codec_simps\<close> collects the equations that evaluate encoders on a concrete shape,
  \<open>inv_intros\<close> the preservation lemmas of the components' invariants.
\<close>

named_theorems codec_simps
named_theorems inv_intros

text \<open>A call that may panic (index out of range, arithmetic overflow in a checked build).\<close>

datatype 'a run = Panic | Done 'a

fun run_bind :: "'a run \<Rightarrow> ('a \<Rightarrow> 'b run) \<Rightarrow> 'b run" where
  "run_bind Panic f = Panic"
| "run_bind (Done x) f = f x"

text \<open>ASCII literals of the source as bytes: \<open>ascii ''info''\<close> is \<open>b"info"\<close>.\<close>

definition ascii :: "string \<Rightarrow> bytes" where
  "ascii s = map of_char s"

lemma unat_of_char: "unat (of_char c :: u8) = of_char c"
proof -
  have "(of_char c :: nat) mod 256 = of_char c" by simp
  then have "unat (of_nat (of_char c) :: u8) = of_char c"
    by (simp add: unat_of_nat del: of_nat_of_char)
  then show ?thesis by (simp add: of_nat_of_char)
qed

lemma ascii_inject: "ascii s = ascii t \<longleftrightarrow> s = t"
proof -
  have "map (char_of \<circ> unat) (ascii u) = u" for u
    by (induction u) (simp_all add: ascii_def unat_of_char)
  then show ?thesis by metis
qed

text \<open>\<open>usize\<close> values are naturals; the checked operations of the source test the bound.\<close>

definition usize_bound :: nat where
  "usize_bound = 2 ^ 64"

definition checked_usize :: "nat \<Rightarrow> nat option" where
  "checked_usize n = (if n < usize_bound then Some n else None)"

text \<open>The cast \<open>n as u32\<close>.\<close>

definition as_u32 :: "nat \<Rightarrow> nat" where
  "as_u32 n = n mod 2 ^ 32"

lemma as_u32_small [simp]: "n < 2 ^ 32 \<Longrightarrow> as_u32 n = n"
  by (simp add: as_u32_def)

text \<open>\<open>div_ceil\<close> on unsigned integers.\<close>

definition div_ceil :: "nat \<Rightarrow> nat \<Rightarrow> nat" where
  "div_ceil a b = (if a mod b = 0 then a div b else a div b + 1)"

lemma div_ceil_enough: "0 < b \<Longrightarrow> a \<le> b * div_ceil a b"
  by (simp add: div_ceil_def) (metis Suc_eq_plus1 dividend_less_times_div less_imp_le
      mult_Suc_right mult_div_mod_eq add_0_right le_refl)

lemma div_ceil_less: "0 < b \<Longrightarrow> i * b < a \<longleftrightarrow> i < div_ceil a b"
proof -
  assume b: "0 < b"
  have a: "a = b * (a div b) + a mod b" by simp
  have m: "a mod b < b" using b by simp
  show ?thesis
  proof
    assume "i * b < a"
    then have "i \<le> a div b" using b by (simp add: less_eq_div_iff_mult_less_eq)
    moreover have "i \<noteq> a div b \<or> a mod b \<noteq> 0"
      using \<open>i * b < a\<close> a by (metis add.right_neutral less_irrefl mult.commute)
    ultimately show "i < div_ceil a b" by (auto simp: div_ceil_def)
  next
    assume "i < div_ceil a b"
    then have "i < a div b \<or> (i = a div b \<and> 0 < a mod b)"
      by (auto simp: div_ceil_def split: if_splits)
    then show "i * b < a"
    proof
      assume "i < a div b"
      then have "Suc i * b \<le> a" using b less_eq_div_iff_mult_less_eq [of b "Suc i" a] by simp
      then show ?thesis using b by simp
    next
      assume i: "i = a div b \<and> 0 < a mod b"
      then have "i * b + a mod b = a" by simp
      with i show ?thesis by linarith
    qed
  qed
qed

section \<open>Slices\<close>

text \<open>\<open>&xs[a..b]\<close> within bounds.\<close>

definition slice :: "nat \<Rightarrow> nat \<Rightarrow> 'a list \<Rightarrow> 'a list" where
  "slice a b xs = take (b - a) (drop a xs)"

text \<open>Writing \<open>data[start..end].copy_from_slice(..)\<close>.\<close>

definition overwrite :: "nat \<Rightarrow> 'a list \<Rightarrow> 'a list \<Rightarrow> 'a list" where
  "overwrite start new old = take start old @ new @ drop (start + length new) old"

lemma overwrite_length:
  "start + length new \<le> length old \<Longrightarrow> length (overwrite start new old) = length old"
  by (simp add: overwrite_def)

lemma overwrite_nth:
  "start + length new \<le> length old \<Longrightarrow> k < length old \<Longrightarrow>
     overwrite start new old ! k = (if start \<le> k \<and> k < start + length new then new ! (k - start) else old ! k)"
  by (auto simp: overwrite_def nth_append)

section \<open>Big-endian integers\<close>

definition be16 :: "u16 \<Rightarrow> bytes" where
  "be16 w = [ucast (drop_bit 8 w), ucast w]"

definition of_be16 :: "u8 \<Rightarrow> u8 \<Rightarrow> u16" where
  "of_be16 a b = push_bit 8 (ucast a) OR ucast b"

definition be32 :: "u32 \<Rightarrow> bytes" where
  "be32 w = [ucast (drop_bit 24 w), ucast (drop_bit 16 w), ucast (drop_bit 8 w), ucast w]"

definition of_be32 :: "u8 \<Rightarrow> u8 \<Rightarrow> u8 \<Rightarrow> u8 \<Rightarrow> u32" where
  "of_be32 a b c d =
     push_bit 24 (ucast a) OR push_bit 16 (ucast b) OR push_bit 8 (ucast c) OR ucast d"

definition be64 :: "u64 \<Rightarrow> bytes" where
  "be64 w = be32 (ucast (drop_bit 32 w)) @ be32 (ucast w)"

definition of_be64 :: "u32 \<Rightarrow> u32 \<Rightarrow> u64" where
  "of_be64 hi lo = push_bit 32 (ucast hi) OR ucast lo"

lemma length_be [simp]:
  shows "length (be16 w) = 2" and "length (be32 v) = 4" and "length (be64 u) = 8"
  by (simp_all add: be16_def be32_def be64_def)

lemma of_be16_inverse [simp]: "of_be16 (ucast (drop_bit 8 w)) (ucast w) = w"
  unfolding of_be16_def by (rule bit_word_eqI) (auto simp: bit_simps)

lemma of_be32_inverse [simp]:
  "of_be32 (ucast (drop_bit 24 w)) (ucast (drop_bit 16 w)) (ucast (drop_bit 8 w)) (ucast w) = w"
proof (rule bit_word_eqI)
  fix n assume "n < LENGTH(32)"
  then consider "n < 8" | "8 \<le> n" "n < 16" | "16 \<le> n" "n < 24" | "24 \<le> n" "n < 32"
    by fastforce
  then show "bit (of_be32 (ucast (drop_bit 24 w)) (ucast (drop_bit 16 w))
      (ucast (drop_bit 8 w)) (ucast w)) n = bit w n"
    by cases (auto simp: of_be32_def bit_simps)
qed

lemma of_be64_inverse [simp]: "of_be64 (ucast (drop_bit 32 w)) (ucast w) = w"
  unfolding of_be64_def by (rule bit_word_eqI) (auto simp: bit_simps)

lemma u8_bit_high: "8 \<le> n \<Longrightarrow> \<not> bit (b :: u8) n"
  using bit_imp_le_length by fastforce

lemma be16_of_be16: "be16 (of_be16 a b) = [a, b]"
  unfolding be16_def of_be16_def
  by (auto intro!: bit_word_eqI simp: bit_simps u8_bit_high)

lemma be32_of_be32: "be32 (of_be32 a b c d) = [a, b, c, d]"
  unfolding be32_def of_be32_def
  by (auto intro!: bit_word_eqI simp: bit_simps u8_bit_high)

text \<open>Widening an unsigned integer to \<open>i64\<close> keeps its value; narrowing it again returns it.\<close>

lemma signed_take_bit_small: "0 \<le> k \<Longrightarrow> k < 2 ^ 63 \<Longrightarrow> signed_take_bit 63 k = (k :: int)"
  by (rule signed_take_bit_int_eq_self) auto

lemma sint_ucast_i64 [simp]:
  "sint (ucast (a :: u8) :: u64) = uint a"
  "sint (ucast (b :: u16) :: u64) = uint b"
  "sint (ucast (c :: u32) :: u64) = uint c"
  using uint_bounded [of a] uint_bounded [of b] uint_bounded [of c]
  by (simp_all add: signed_ucast_eq signed_take_bit_small)

lemma ucast_ucast_u64 [simp]:
  "ucast (ucast (a :: u8) :: u64) = a"
  "ucast (ucast (b :: u16) :: u64) = b"
  "ucast (ucast (c :: u32) :: u64) = c"
  by (rule bit_word_eqI, auto simp: bit_simps)+

lemma uint_pos: "0 < uint w \<longleftrightarrow> w \<noteq> 0"
  by (simp add: word_neq_0_conv word_less_def)

section \<open>Ordered maps: \<open>BTreeMap\<close>\<close>

text \<open>
  A map interface: what a client of \<open>BTreeMap\<close> or \<open>HashMap\<close> relies on. \<open>fold\<close>-built
  maps look up the last binding of a key, whatever the representation.
\<close>

lemma map_of_rev_distinct: "distinct (map fst kvs) \<Longrightarrow> map_of (rev kvs) = map_of kvs"
proof (induction kvs)
  case (Cons kv kvs)
  then have "map_of kvs (fst kv) = None" by (simp add: map_of_eq_None_iff)
  with Cons show ?case by (cases kv) (auto simp: map_add_def fun_eq_iff split: option.splits)
qed simp

locale key_map =
  fixes empty :: "'m"
    and get :: "'m \<Rightarrow> 'k \<Rightarrow> 'v option"
    and insert :: "'k \<Rightarrow> 'v \<Rightarrow> 'm \<Rightarrow> 'm"
    and wf :: "'m \<Rightarrow> bool"
  assumes get_empty: "get empty k = None"
    and get_insert: "wf m \<Longrightarrow> get (insert k v m) k' = (if k' = k then Some v else get m k')"
    and wf_empty: "wf empty"
    and wf_insert: "wf m \<Longrightarrow> wf (insert k v m)"
begin

lemma wf_fold_insert: "wf m \<Longrightarrow> wf (fold (\<lambda>(k, v). insert k v) kvs m)"
  by (induction kvs arbitrary: m) (auto intro: wf_insert)

lemma get_fold_insert:
  "wf m \<Longrightarrow> get (fold (\<lambda>(k, v). insert k v) kvs m) k =
     (case map_of (rev kvs) k of Some v \<Rightarrow> Some v | None \<Rightarrow> get m k)"
  by (induction kvs arbitrary: m)
    (auto simp: get_insert wf_insert map_add_def split: option.splits)

lemma get_built: "get (fold (\<lambda>(k, v). insert k v) kvs empty) k = map_of (rev kvs) k"
  by (simp add: get_fold_insert wf_empty get_empty split: option.splits)

lemma get_built_distinct:
  "distinct (map fst kvs) \<Longrightarrow> get (fold (\<lambda>(k, v). insert k v) kvs empty) k = map_of kvs k"
  by (simp add: get_built map_of_rev_distinct)

end

locale key_map_remove = key_map empty get insert wf
  for empty :: "'m" and get :: "'m \<Rightarrow> 'k \<Rightarrow> 'v option"
    and insert :: "'k \<Rightarrow> 'v \<Rightarrow> 'm \<Rightarrow> 'm" and wf :: "'m \<Rightarrow> bool" +
  fixes remove :: "'k \<Rightarrow> 'm \<Rightarrow> 'm"
  assumes get_remove: "wf m \<Longrightarrow> get (remove k m) k' = (if k' = k then None else get m k')"
    and wf_remove: "wf m \<Longrightarrow> wf (remove k m)"
begin

lemma get_remove_insert: "wf m \<Longrightarrow> get (remove k (insert k v m)) = (get m)(k := None)"
  by (rule ext) (simp add: get_remove get_insert wf_insert)

end

text \<open>\<open>BTreeMap\<close>: an association list with strictly increasing keys.\<close>

fun bt_insert :: "'k::linorder \<Rightarrow> 'v \<Rightarrow> ('k \<times> 'v) list \<Rightarrow> ('k \<times> 'v) list" where
  "bt_insert k v [] = [(k, v)]"
| "bt_insert k v ((k', v') # m) =
     (if k < k' then (k, v) # (k', v') # m
      else if k = k' then (k, v) # m
      else (k', v') # bt_insert k v m)"

definition bt_wf :: "('k::linorder \<times> 'v) list \<Rightarrow> bool" where
  "bt_wf m = sorted_wrt (<) (map fst m)"

lemma bt_wf_Nil [simp]: "bt_wf []"
  by (simp add: bt_wf_def)

lemma bt_wf_Cons: "bt_wf ((k, v) # m) \<longleftrightarrow> (\<forall>k' \<in> fst ` set m. k < k') \<and> bt_wf m"
  by (auto simp: bt_wf_def)

lemma bt_insert_keys: "fst ` set (bt_insert k v m) = insert k (fst ` set m)"
  by (induction k v m rule: bt_insert.induct) auto

lemma bt_insert_wf [simp, inv_intros]: "bt_wf m \<Longrightarrow> bt_wf (bt_insert k v m)"
  by (induction k v m rule: bt_insert.induct) (auto simp: bt_wf_Cons bt_insert_keys)

lemma map_of_bt_insert [simp]: "map_of (bt_insert k v m) = (map_of m)(k \<mapsto> v)"
  by (induction k v m rule: bt_insert.induct) (auto simp: fun_eq_iff)

text \<open>Inserting a key above all others appends it: what a decoder of sorted input does.\<close>

lemma bt_insert_last: "\<forall>k' \<in> fst ` set m. k' < k \<Longrightarrow> bt_insert k v m = m @ [(k, v)]"
  by (induction k v m rule: bt_insert.induct) auto

lemma bt_wf_snoc: "bt_wf (m @ [(k, v)]) \<longleftrightarrow> bt_wf m \<and> (\<forall>k' \<in> fst ` set m. k' < k)"
  by (auto simp: bt_wf_def sorted_wrt_append)

interpretation bt: key_map "[]" map_of bt_insert bt_wf
  by unfold_locales (auto simp: bt_insert_wf)

text \<open>
  \<open>HashMap\<close>: an association list with distinct keys. The order of the list stands for the
  unspecified iteration order of the table: statements over all states cover every order.
\<close>

fun hm_insert :: "'k \<Rightarrow> 'v \<Rightarrow> ('k \<times> 'v) list \<Rightarrow> ('k \<times> 'v) list" where
  "hm_insert k v [] = [(k, v)]"
| "hm_insert k v ((k', v') # m) =
     (if k = k' then (k, v) # m else (k', v') # hm_insert k v m)"

definition hm_remove :: "'k \<Rightarrow> ('k \<times> 'v) list \<Rightarrow> ('k \<times> 'v) list" where
  "hm_remove k m = filter (\<lambda>(k', v). k' \<noteq> k) m"

definition hm_wf :: "('k \<times> 'v) list \<Rightarrow> bool" where
  "hm_wf m = distinct (map fst m)"

lemma set_hm_insert: "set (hm_insert k v m) \<subseteq> insert (k, v) (set m)"
  by (induction k v m rule: hm_insert.induct) auto

lemma hm_insert_keys [simp]: "fst ` set (hm_insert k v m) = insert k (fst ` set m)"
  by (induction k v m rule: hm_insert.induct) auto

lemma hm_insert_wf [simp, inv_intros]: "hm_wf m \<Longrightarrow> hm_wf (hm_insert k v m)"
  by (induction k v m rule: hm_insert.induct)
    (auto simp: hm_wf_def simp del: set_map simp add: set_map)

lemma map_of_hm_insert [simp]: "map_of (hm_insert k v m) = (map_of m)(k \<mapsto> v)"
  by (induction k v m rule: hm_insert.induct) (auto simp: fun_eq_iff)

lemma length_hm_insert:
  "length (hm_insert k v m) = (if k \<in> fst ` set m then length m else Suc (length m))"
  by (induction k v m rule: hm_insert.induct) auto

lemma hm_remove_keys [simp]: "fst ` set (hm_remove k m) = fst ` set m - {k}"
  by (auto simp: hm_remove_def rev_image_eqI)

lemma hm_remove_wf [simp, inv_intros]: "hm_wf m \<Longrightarrow> hm_wf (hm_remove k m)"
  by (induction m) (auto simp: hm_wf_def hm_remove_def)

lemma map_of_hm_remove [simp]: "map_of (hm_remove k m) = (map_of m)(k := None)"
  by (induction m) (auto simp: hm_remove_def fun_eq_iff)

lemma hm_wf_Nil [simp]: "hm_wf []"
  by (simp add: hm_wf_def)

lemma hm_get_in: "map_of m k = Some v \<Longrightarrow> k \<in> fst ` set m"
  by (force dest: map_of_SomeD)

interpretation hm: key_map_remove "[]" map_of hm_insert hm_wf hm_remove
  by unfold_locales auto

text \<open>
  Filling a \<open>HashMap\<close> from a dictionary whose entries may be skipped: the last entry of a key
  wins, and with distinct keys the table is the dictionary seen through the filter.
\<close>

fun hm_collect :: "('k \<Rightarrow> 'v \<Rightarrow> 'w option) \<Rightarrow> ('k \<times> 'v) list \<Rightarrow> ('k \<times> 'w) list \<Rightarrow> ('k \<times> 'w) list" where
  "hm_collect f [] acc = acc"
| "hm_collect f ((k, v) # d) acc =
     hm_collect f d (case f k v of None \<Rightarrow> acc | Some w \<Rightarrow> hm_insert k w acc)"

lemma hm_collect_wf [simp, inv_intros]: "hm_wf acc \<Longrightarrow> hm_wf (hm_collect f d acc)"
  by (induction f d acc rule: hm_collect.induct) (auto split: option.splits)

lemma map_of_hm_collect:
  "distinct (map fst d) \<Longrightarrow> map_of (hm_collect f d acc) k =
     (case Option.bind (map_of d k) (f k) of None \<Rightarrow> map_of acc k | Some w \<Rightarrow> Some w)"
proof (induction f d acc rule: hm_collect.induct)
  case (2 f a v d acc)
  then have "map_of d a = None" by (simp add: map_of_eq_None_iff)
  with "2" show ?case by (auto split: option.splits)
qed simp

lemma bt_wf_distinct: "bt_wf m \<Longrightarrow> distinct (map fst m)"
  unfolding bt_wf_def by (auto simp: strict_sorted_iff)

section \<open>Runs of fixed-width records\<close>

text \<open>\<open>slice::chunks_exact\<close>: the whole chunks of \<open>n\<close> elements, the rest dropped.\<close>

function chunks_exact :: "nat \<Rightarrow> 'a list \<Rightarrow> 'a list list" where
  "chunks_exact n xs =
     (if n = 0 \<or> length xs < n then [] else take n xs # chunks_exact n (drop n xs))"
  by pat_completeness auto
termination
  by (relation "measure (\<lambda>(n, xs). length xs)") auto

declare chunks_exact.simps [simp del]

lemma chunks_exact_short: "length xs < n \<Longrightarrow> chunks_exact n xs = []"
  by (subst chunks_exact.simps) simp

lemma chunks_exact_append:
  "length xs = n \<Longrightarrow> 0 < n \<Longrightarrow> chunks_exact n (xs @ ys) = xs # chunks_exact n ys"
  by (subst chunks_exact.simps) simp

lemma chunks_exact_lengths: "c \<in> set (chunks_exact n xs) \<Longrightarrow> length c = n"
  by (induction n xs rule: chunks_exact.induct)
    (subst (asm) chunks_exact.simps, auto split: if_splits)

lemma length_chunks_exact: "0 < n \<Longrightarrow> length (chunks_exact n xs) = length xs div n"
  by (induction n xs rule: chunks_exact.induct)
    (subst chunks_exact.simps, auto simp: le_div_geq not_less)

lemma concat_chunks_exact:
  "0 < n \<Longrightarrow> concat (chunks_exact n xs) = take (n * (length xs div n)) xs"
proof (induction n xs rule: chunks_exact.induct)
  case (1 n xs)
  show ?case
  proof (cases "length xs < n")
    case True
    then show ?thesis by (simp add: chunks_exact_short)
  next
    case False
    then have "length xs div n = Suc (length (drop n xs) div n)"
      using "1.prems" by (simp add: le_div_geq)
    with False "1" show ?thesis
      by (subst chunks_exact.simps) (simp add: take_add)
  qed
qed

locale fixed_codec =
  fixes enc :: "'a \<Rightarrow> bytes" and dec :: "bytes \<Rightarrow> 'a" and width :: nat and ok :: "'a \<Rightarrow> bool"
  assumes width_pos: "0 < width"
    and length_enc: "ok x \<Longrightarrow> length (enc x) = width"
    and dec_enc: "ok x \<Longrightarrow> dec (enc x) = x"
    and enc_dec: "length bs = width \<Longrightarrow> enc (dec bs) = bs"
begin

lemma enc_inj: "ok x \<Longrightarrow> ok y \<Longrightarrow> enc x = enc y \<Longrightarrow> x = y"
  by (metis dec_enc)

lemma chunks_enc:
  "list_all ok xs \<Longrightarrow> length r < width \<Longrightarrow>
     map dec (chunks_exact width (concat (map enc xs) @ r)) = xs"
proof (induction xs)
  case Nil
  then show ?case by (simp add: chunks_exact_short)
next
  case (Cons x xs)
  then have "chunks_exact width (enc x @ concat (map enc xs) @ r) =
      enc x # chunks_exact width (concat (map enc xs) @ r)"
    by (intro chunks_exact_append) (auto simp: length_enc width_pos)
  with Cons show ?case by (simp add: dec_enc)
qed

lemma length_encs: "list_all ok xs \<Longrightarrow> length (concat (map enc xs)) = width * length xs"
  by (induction xs) (auto simp: length_enc)

lemma enc_chunks:
  "concat (map enc (map dec (chunks_exact width bs))) = take (width * (length bs div width)) bs"
proof -
  have "map (enc \<circ> dec) (chunks_exact width bs) = chunks_exact width bs"
    by (rule map_idI) (simp add: enc_dec chunks_exact_lengths)
  then show ?thesis
    by (simp add: concat_chunks_exact width_pos)
qed

end

section \<open>Machines with an invariant\<close>

text \<open>
  A component driven by events: \<open>step\<close> handles one, \<open>ok\<close> says which events the caller may
  send in a state. \<open>run_events\<close> stops with \<open>None\<close> at an event the caller must not send.
\<close>

fun run_events :: "('s \<Rightarrow> 'e \<Rightarrow> bool) \<Rightarrow> ('s \<Rightarrow> 'e \<Rightarrow> 's) \<Rightarrow> 's \<Rightarrow> 'e list \<Rightarrow> 's option" where
  "run_events ok step s [] = Some s"
| "run_events ok step s (e # es) =
     (if ok s e then run_events ok step (step s e) es else None)"

locale machine =
  fixes ok :: "'s \<Rightarrow> 'e \<Rightarrow> bool" and step :: "'s \<Rightarrow> 'e \<Rightarrow> 's" and inv :: "'s \<Rightarrow> bool"
  assumes step_inv: "inv s \<Longrightarrow> ok s e \<Longrightarrow> inv (step s e)"
begin

lemma run_inv: "inv s \<Longrightarrow> run_events ok step s es = Some t \<Longrightarrow> inv t"
  by (induction es arbitrary: s) (auto split: if_splits intro: step_inv)

lemma run_append:
  "run_events ok step s (es @ fs) =
     (case run_events ok step s es of None \<Rightarrow> None | Some t \<Rightarrow> run_events ok step t fs)"
  by (induction es arbitrary: s) auto

end

end
