(* ===== verification/Text.thy ===== *)
theory Text
  imports Prelude
begin

text \<open>
  The parts of Rust's standard library on text that the program uses, over byte strings: a
  \<open>str\<close> is a byte string that \<open>from_utf8\<close> accepts. Decimal printing (\<open>to_string\<close>), the
  integer parser \<open>str::parse\<close> with its optional sign, UTF-8 validation, and substring
  tests.
\<close>

section \<open>Decimal numbers\<close>

definition is_ascii_digit :: "u8 \<Rightarrow> bool" where
  "is_ascii_digit b \<longleftrightarrow> 48 \<le> b \<and> b \<le> 57"

definition digit_of :: "nat \<Rightarrow> u8" where
  "digit_of d = word_of_nat (48 + d)"

fun dec_nat :: "nat \<Rightarrow> bytes" where
  "dec_nat n = (if n < 10 then [digit_of n] else dec_nat (n div 10) @ [digit_of (n mod 10)])"

declare dec_nat.simps [simp del]

definition dec_int :: "int \<Rightarrow> bytes" where
  "dec_int n = (if n < 0 then 45 # dec_nat (nat (- n)) else dec_nat (nat n))"

text \<open>The digit loop of the integer parser; \<open>None\<close> at a byte that is no digit.\<close>

fun parse_digits :: "nat \<Rightarrow> bytes \<Rightarrow> nat option" where
  "parse_digits acc [] = Some acc"
| "parse_digits acc (b # bs) =
     (if is_ascii_digit b then parse_digits (acc * 10 + (unat b - 48)) bs else None)"

text \<open>
  \<open>i64::from_str\<close>: one optional \<open>+\<close> or \<open>-\<close>, then at least one digit, and the value must
  fit. \<open>u16::from_str\<close> is the same with \<open>-\<close> refused.
\<close>

fun parse_signed :: "bytes \<Rightarrow> int option" where
  "parse_signed [] = None"
| "parse_signed (c # cs) =
     (if c = 45 then (if cs = [] then None else map_option (\<lambda>n. - int n) (parse_digits 0 cs))
      else if c = 43 then (if cs = [] then None else map_option int (parse_digits 0 cs))
      else map_option int (parse_digits 0 (c # cs)))"

definition parse_i64 :: "bytes \<Rightarrow> u64 option" where
  "parse_i64 s = (case parse_signed s of None \<Rightarrow> None
     | Some n \<Rightarrow> if - (2 ^ 63) \<le> n \<and> n < 2 ^ 63 then Some (word_of_int n) else None)"

fun parse_unsigned :: "bytes \<Rightarrow> nat option" where
  "parse_unsigned [] = None"
| "parse_unsigned (c # cs) =
     (if c = 43 then (if cs = [] then None else parse_digits 0 cs) else parse_digits 0 (c # cs))"

definition parse_u16 :: "bytes \<Rightarrow> nat option" where
  "parse_u16 s = (case parse_unsigned s of None \<Rightarrow> None
     | Some n \<Rightarrow> if n < 2 ^ 16 then Some n else None)"

lemma unat_digit_of [simp]: "d < 10 \<Longrightarrow> unat (digit_of d) = 48 + d"
  by (simp add: digit_of_def unat_of_nat del: of_nat_add)

lemma is_ascii_digit_unat: "is_ascii_digit b \<longleftrightarrow> 48 \<le> unat b \<and> unat b \<le> 57"
  by (simp add: is_ascii_digit_def word_le_nat_alt)

lemma is_ascii_digit_of [simp]: "d < 10 \<Longrightarrow> is_ascii_digit (digit_of d)"
  by (simp add: is_ascii_digit_unat)

lemma dec_nat_ne [simp]: "dec_nat n \<noteq> []"
  by (subst dec_nat.simps) simp

lemma dec_nat_digits: "b \<in> set (dec_nat n) \<Longrightarrow> is_ascii_digit b"
  by (induction n rule: dec_nat.induct) (subst (asm) (2) dec_nat.simps, auto split: if_splits)

lemma dec_nat_hd: "0 < n \<Longrightarrow> hd (dec_nat n) \<noteq> 48"
proof (induction n rule: dec_nat.induct)
  case (1 n)
  show ?case
  proof (cases "n < 10")
    case True
    with "1.prems" have "unat (digit_of n) \<noteq> unat (48 :: u8)" by simp
    with True show ?thesis by (subst dec_nat.simps) (auto simp del: unat_digit_of)
  next
    case False
    with "1" show ?thesis by (subst dec_nat.simps) (simp add: hd_append)
  qed
qed

lemma parse_digits_append:
  "parse_digits acc (xs @ ys) = Option.bind (parse_digits acc xs) (\<lambda>a. parse_digits a ys)"
  by (induction acc xs rule: parse_digits.induct) auto

lemma parse_digits_dec_nat [simp]: "parse_digits 0 (dec_nat n) = Some n"
proof (induction n rule: dec_nat.induct)
  case (1 n)
  then show ?case
    by (subst dec_nat.simps) (auto simp: parse_digits_append)
qed

lemma parse_digits_mono: "parse_digits acc bs = Some n \<Longrightarrow> acc \<le> n"
  by (induction acc bs rule: parse_digits.induct) (auto split: if_splits)

lemma dec_nat_Cons: obtains b bs where "dec_nat n = b # bs" "is_ascii_digit b"
proof (cases "dec_nat n")
  case (Cons b bs)
  then have "is_ascii_digit b" using dec_nat_digits [of b n] by simp
  with Cons that show thesis by blast
qed simp

lemma digit_not_sign: "is_ascii_digit b \<Longrightarrow> b \<noteq> 45 \<and> b \<noteq> 43 \<and> b \<noteq> 101 \<and> b \<noteq> 58"
  by (auto simp: is_ascii_digit_unat)

lemma parse_signed_dec_int: "parse_signed (dec_int n) = Some n"
proof (cases "n < 0")
  case True
  then show ?thesis by (simp add: dec_int_def)
next
  case False
  obtain b bs where b: "dec_nat (nat n) = b # bs" "is_ascii_digit b" by (rule dec_nat_Cons)
  have "parse_digits 0 (b # bs) = Some (nat n)" by (simp flip: b(1))
  with False b show ?thesis
    by (simp add: dec_int_def digit_not_sign del: parse_digits.simps)
qed

lemma parse_i64_dec_int: "parse_i64 (dec_int (sint w)) = Some w"
  using sint_lt [of w] sint_ge [of w] by (simp add: parse_i64_def parse_signed_dec_int)

section \<open>UTF-8\<close>

text \<open>
  \<open>std::str::from_utf8\<close> accepts exactly the well-formed sequences of the Unicode standard:
  no overlong forms, no surrogates, nothing above U+10FFFF.
\<close>

definition utf8_cont :: "u8 \<Rightarrow> bool" where
  "utf8_cont b \<longleftrightarrow> 0x80 \<le> b \<and> b \<le> 0xBF"

definition utf8_second :: "u8 \<Rightarrow> u8 \<Rightarrow> bool" where
  "utf8_second a b \<longleftrightarrow>
     (if a = 0xE0 then 0xA0 \<le> b \<and> b \<le> 0xBF
      else if a = 0xED then 0x80 \<le> b \<and> b \<le> 0x9F
      else if a = 0xF0 then 0x90 \<le> b \<and> b \<le> 0xBF
      else if a = 0xF4 then 0x80 \<le> b \<and> b \<le> 0x8F
      else utf8_cont b)"

text \<open>The length of the sequence a first byte announces, 0 for a byte that starts none.\<close>

definition utf8_width :: "u8 \<Rightarrow> nat" where
  "utf8_width a =
     (if a < 0x80 then 1 else if a < 0xC2 then 0 else if a < 0xE0 then 2
      else if a < 0xF0 then 3 else if a < 0xF5 then 4 else 0)"

fun utf8_valid :: "bytes \<Rightarrow> bool" where
  "utf8_valid [] = True"
| "utf8_valid (a # xs) =
     (if utf8_width a = 1 then utf8_valid xs
      else if utf8_width a = 2 then
        (case xs of b # ys \<Rightarrow> utf8_second a b \<and> utf8_valid ys | _ \<Rightarrow> False)
      else if utf8_width a = 3 then
        (case xs of b # c # ys \<Rightarrow> utf8_second a b \<and> utf8_cont c \<and> utf8_valid ys | _ \<Rightarrow> False)
      else if utf8_width a = 4 then
        (case xs of b # c # d # ys \<Rightarrow>
           utf8_second a b \<and> utf8_cont c \<and> utf8_cont d \<and> utf8_valid ys | _ \<Rightarrow> False)
      else False)"

lemma utf8_valid_ascii: "\<forall>b \<in> set bs. b < 0x80 \<Longrightarrow> utf8_valid bs"
  by (induction bs) (auto simp: utf8_width_def)

lemma utf8_valid_digits: "\<forall>b \<in> set bs. is_ascii_digit b \<or> b = 45 \<Longrightarrow> utf8_valid bs"
  by (rule utf8_valid_ascii)
    (auto simp: is_ascii_digit_def word_less_nat_alt word_le_nat_alt)

section \<open>Searching\<close>

definition starts_with :: "bytes \<Rightarrow> bytes \<Rightarrow> bool" where
  "starts_with s p \<longleftrightarrow> take (length p) s = p"

text \<open>\<open>str::find\<close>: the first position of a substring.\<close>

fun find_sub :: "bytes \<Rightarrow> bytes \<Rightarrow> nat option" where
  "find_sub p [] = (if p = [] then Some 0 else None)"
| "find_sub p (b # bs) =
     (if starts_with (b # bs) p then Some 0 else map_option Suc (find_sub p bs))"

definition contains_sub :: "bytes \<Rightarrow> bytes \<Rightarrow> bool" where
  "contains_sub s p \<longleftrightarrow> find_sub p s \<noteq> None"

text \<open>\<open>str::split\<close> at one byte: always at least one part.\<close>

fun split_byte :: "u8 \<Rightarrow> bytes \<Rightarrow> bytes list" where
  "split_byte c [] = [[]]"
| "split_byte c (b # bs) =
     (if b = c then [] # split_byte c bs
      else (case split_byte c bs of [] \<Rightarrow> [[b]] | p # ps \<Rightarrow> (b # p) # ps))"

text \<open>\<open>str::split_once\<close> at one byte.\<close>

fun split_once :: "u8 \<Rightarrow> bytes \<Rightarrow> (bytes \<times> bytes) option" where
  "split_once c [] = None"
| "split_once c (b # bs) =
     (if b = c then Some ([], bs) else map_option (\<lambda>(x, y). (b # x, y)) (split_once c bs))"

lemma find_sub_some:
  "find_sub p s = Some i \<Longrightarrow> \<exists>a z. s = a @ p @ z \<and> length a = i"
proof (induction p s arbitrary: i rule: find_sub.induct)
  case (1 p)
  then show ?case by (auto split: if_splits)
next
  case (2 p b bs)
  show ?case
  proof (cases "starts_with (b # bs) p")
    case True
    with "2.prems" have "b # bs = [] @ p @ drop (length p) (b # bs) \<and> i = 0"
      by (auto simp: starts_with_def) (metis append_take_drop_id)
    then show ?thesis by (metis length_0_conv)
  next
    case False
    with "2.prems" obtain j where "find_sub p bs = Some j" "i = Suc j" by auto
    with "2.IH" False obtain a z where "bs = a @ p @ z" "length a = j" by blast
    with \<open>i = Suc j\<close> have "b # bs = (b # a) @ p @ z \<and> length (b # a) = i" by simp
    then show ?thesis by blast
  qed
qed

lemma find_sub_exists: "find_sub p (a @ p @ z) \<noteq> None"
proof (induction a)
  case Nil
  show ?case
  proof (cases "p @ z")
    case (Cons b bs)
    have "starts_with (p @ z) p" by (simp add: starts_with_def)
    with Cons show ?thesis by simp
  qed simp
qed (simp add: option.map_disc_iff)

lemma contains_sub_iff: "contains_sub s p \<longleftrightarrow> (\<exists>a z. s = a @ p @ z)"
  unfolding contains_sub_def using find_sub_some find_sub_exists by fast

lemma split_byte_parts: "p \<in> set (split_byte c s) \<Longrightarrow> c \<notin> set p"
  by (induction c s arbitrary: p rule: split_byte.induct) (auto split: if_splits list.splits)

end
