(* ===== verification/Chars.thy ===== *)
theory Chars
  imports Text
begin

text \<open>
  Rust's \<open>str\<close> seen character by character: splitting a UTF-8 byte string into the bytes of its
  characters, the Unicode white space, trimming and words, replacement of single bytes, and slicing,
  which panics off a character boundary.
\<close>

fun chars :: "bytes \<Rightarrow> bytes list" where
  "chars [] = []"
| "chars (b # bs) = (b # take (utf8_width b - 1) bs) # chars (drop (utf8_width b - 1) bs)"

lemma concat_chars [simp]: "concat (chars s) = s"
  by (induction s rule: chars.induct) simp_all

text \<open>\<open>char::is_whitespace\<close>: the characters with the property White_Space.\<close>

definition white_space :: "bytes list" where
  "white_space = map (\<lambda>b. [b]) [9, 10, 11, 12, 13, 32] @ [[0xC2, 0x85], [0xC2, 0xA0], [0xE1, 0x9A, 0x80]]
     @ map (\<lambda>b. [0xE2, 0x80, b]) [0x80, 0x81, 0x82, 0x83, 0x84, 0x85, 0x86, 0x87, 0x88, 0x89, 0x8A, 0xA8, 0xA9, 0xAF]
     @ [[0xE2, 0x81, 0x9F], [0xE3, 0x80, 0x80]]"

definition is_white :: "bytes \<Rightarrow> bool" where
  "is_white c \<longleftrightarrow> c \<in> set white_space"

definition trim_start_by :: "(bytes \<Rightarrow> bool) \<Rightarrow> bytes \<Rightarrow> bytes" where
  "trim_start_by p s = concat (dropWhile p (chars s))"

definition trim_end_by :: "(bytes \<Rightarrow> bool) \<Rightarrow> bytes \<Rightarrow> bytes" where
  "trim_end_by p s = concat (rev (dropWhile p (rev (chars s))))"

definition trim_by :: "(bytes \<Rightarrow> bool) \<Rightarrow> bytes \<Rightarrow> bytes" where
  "trim_by p s = concat (rev (dropWhile p (rev (dropWhile p (chars s)))))"

definition trim :: "bytes \<Rightarrow> bytes" where
  "trim = trim_by is_white"

definition is_char :: "char list \<Rightarrow> bytes \<Rightarrow> bool" where
  "is_char cs c \<longleftrightarrow> c \<in> set (map (\<lambda>x. ascii [x]) cs)"

text \<open>\<open>split_whitespace\<close>: the runs of characters between white space.\<close>

fun words_of :: "bytes list \<Rightarrow> bytes \<Rightarrow> bytes list" where
  "words_of [] w = (if w = [] then [] else [w])"
| "words_of (c # cs) w =
     (if is_white c then (if w = [] then words_of cs [] else w # words_of cs []) else words_of cs (w @ c))"

definition split_whitespace :: "bytes \<Rightarrow> bytes list" where
  "split_whitespace s = words_of (chars s) []"

text \<open>Slices: \<open>&s[..n]\<close> and \<open>&s[n..]\<close>.\<close>

definition char_boundary :: "bytes \<Rightarrow> nat \<Rightarrow> bool" where
  "char_boundary s n \<longleftrightarrow> n = 0 \<or> n = length s \<or> (n < length s \<and> \<not> utf8_cont (s ! n))"

definition str_take :: "nat \<Rightarrow> bytes \<Rightarrow> bytes run" where
  "str_take n s = (if char_boundary s n then Done (take n s) else Panic)"

definition str_drop :: "nat \<Rightarrow> bytes \<Rightarrow> bytes run" where
  "str_drop n s = (if char_boundary s n then Done (drop n s) else Panic)"

text \<open>\<open>s.get(a..b)\<close>.\<close>

definition str_get :: "nat \<Rightarrow> nat \<Rightarrow> bytes \<Rightarrow> bytes option" where
  "str_get a b s = (if a \<le> b \<and> char_boundary s a \<and> char_boundary s b then Some (slice a b s) else None)"

section \<open>ASCII text\<close>

abbreviation is_ascii :: "bytes \<Rightarrow> bool" where
  "is_ascii s \<equiv> \<forall>b \<in> set s. b < 0x80"

lemma utf8_width_ascii [simp]: "b < 0x80 \<Longrightarrow> utf8_width b = 1"
  by (simp add: utf8_width_def)

lemma chars_ascii: "is_ascii s \<Longrightarrow> chars s = map (\<lambda>b. [b]) s"
  by (induction s) simp_all

lemma char_boundary_ascii: "is_ascii s \<Longrightarrow> char_boundary s n \<longleftrightarrow> n \<le> length s"
proof -
  assume a: "is_ascii s"
  then have "\<not> 0x80 \<le> s ! n" if "n < length s" using nth_mem [OF that] by (auto simp: not_le)
  then show ?thesis by (auto simp: char_boundary_def utf8_cont_def)
qed

lemma trim_ascii: "is_ascii s \<Longrightarrow> trim s = rev (dropWhile (\<lambda>b. is_white [b]) (rev (dropWhile (\<lambda>b. is_white [b]) s)))"
proof -
  have c: "concat (map (\<lambda>b. [b]) xs) = xs" for xs :: bytes by (induction xs) simp_all
  assume "is_ascii s"
  then show ?thesis
    by (simp add: trim_def trim_by_def chars_ascii dropWhile_map rev_map comp_def c)
qed

end
