(* ===== verification/Paths.thy ===== *)
theory Paths
  imports Text
begin

text \<open>
  Paths and their confinement (\<open>paths.rs\<close>). A path is the list of its components, which is what
  \<open>std::path\<close> compares, extends and shortens; the host's file system is what the functions ask
  of \<open>std::fs\<close> and \<open>dirs\<close>.
\<close>

section \<open>Paths\<close>

datatype component = RootDir | CurDir | ParentDir | Normal bytes

text \<open>Components are ordered as in \<open>std::path::Component\<close>, names by their bytes; paths
  lexicographically.\<close>

fun component_rank :: "component \<Rightarrow> nat \<times> bytes" where
  "component_rank RootDir = (0, [])"
| "component_rank CurDir = (1, [])"
| "component_rank ParentDir = (2, [])"
| "component_rank (Normal n) = (3, n)"

lemma component_rank_inject: "component_rank a = component_rank b \<longleftrightarrow> a = b"
  by (cases a; cases b) auto

instantiation component :: linorder
begin

definition less_component :: "component \<Rightarrow> component \<Rightarrow> bool" where
  "less_component a b \<longleftrightarrow> fst (component_rank a) < fst (component_rank b)
     \<or> fst (component_rank a) = fst (component_rank b) \<and> snd (component_rank a) < snd (component_rank b)"

definition less_eq_component :: "component \<Rightarrow> component \<Rightarrow> bool" where
  "less_eq_component a b \<longleftrightarrow> a = b \<or> a < (b :: component)"

instance
proof
  fix x y z :: component
  show "x < y \<longleftrightarrow> x \<le> y \<and> \<not> y \<le> x" "x \<le> x"
    by (auto simp: less_component_def less_eq_component_def)
  show "x \<le> y \<Longrightarrow> y \<le> z \<Longrightarrow> x \<le> z" "x \<le> y \<Longrightarrow> y \<le> x \<Longrightarrow> x = y"
    by (auto simp: less_component_def less_eq_component_def)
  show "x \<le> y \<or> y \<le> x"
    by (auto simp: less_component_def less_eq_component_def component_rank_inject [symmetric] prod_eq_iff)
qed

end

type_synonym pathbuf = "component list"

definition slash :: u8 where "slash = 47"

text \<open>
  \<open>Path::components\<close>: repeated slashes, a slash at the end and every \<open>.\<close> but one at the very
  start of a relative path count for nothing.
\<close>

definition segment :: "bytes \<Rightarrow> component" where
  "segment s = (if s = ascii ''.'' then CurDir else if s = ascii ''..'' then ParentDir else Normal s)"

definition path_of :: "bytes \<Rightarrow> pathbuf" where
  "path_of s =
     (let parts = map segment (filter (\<lambda>p. p \<noteq> []) (split_byte slash s)) in
      if s \<noteq> [] \<and> hd s = slash then RootDir # filter (\<lambda>c. c \<noteq> CurDir) parts
      else (case parts of [] \<Rightarrow> [] | c # cs \<Rightarrow> c # filter (\<lambda>c. c \<noteq> CurDir) cs))"

definition is_absolute :: "pathbuf \<Rightarrow> bool" where
  "is_absolute p \<longleftrightarrow> p \<noteq> [] \<and> hd p = RootDir"

definition path_join :: "pathbuf \<Rightarrow> pathbuf \<Rightarrow> pathbuf" where
  "path_join p q = (if is_absolute q \<or> p = [] then q else p @ filter (\<lambda>c. c \<noteq> CurDir) q)"

definition parent :: "pathbuf \<Rightarrow> pathbuf option" where
  "parent p = (if p = [] \<or> last p = RootDir then None else Some (butlast p))"

definition file_name :: "pathbuf \<Rightarrow> bytes option" where
  "file_name p = (if p = [] then None else case last p of Normal n \<Rightarrow> Some n | _ \<Rightarrow> None)"

definition path_starts_with :: "pathbuf \<Rightarrow> pathbuf \<Rightarrow> bool" where
  "path_starts_with p q \<longleftrightarrow> take (length q) p = q"

text \<open>
  \<open>file_stem\<close> and \<open>extension\<close> split the name at its last dot; a name whose only dot is its first
  byte has no extension.
\<close>

fun last_dot :: "bytes \<Rightarrow> nat option" where
  "last_dot [] = None"
| "last_dot (b # bs) = (case last_dot bs of Some n \<Rightarrow> Some (Suc n) | None \<Rightarrow> if b = 46 then Some 0 else None)"

definition split_name :: "bytes \<Rightarrow> bytes \<times> bytes option" where
  "split_name n = (case last_dot n of
       None \<Rightarrow> (n, None)
     | Some i \<Rightarrow> if n = ascii ''..'' \<or> i = 0 then (n, None) else (take i n, Some (drop (Suc i) n)))"

definition file_stem :: "pathbuf \<Rightarrow> bytes option" where
  "file_stem p = map_option (\<lambda>n. fst (split_name n)) (file_name p)"

definition extension :: "pathbuf \<Rightarrow> bytes option" where
  "extension p = Option.bind (file_name p) (\<lambda>n. snd (split_name n))"

section \<open>The host\<close>

text \<open>
  The files with their sizes, the directories, where a path leads once its links are resolved, the
  home directory, the files that the system refuses to unlink, and the environment variables.
\<close>

record host =
  h_files :: "pathbuf \<Rightarrow> u64 option"
  h_dirs :: "pathbuf \<Rightarrow> bool"
  h_real :: "pathbuf \<Rightarrow> pathbuf"
  h_home :: "pathbuf option"
  h_stuck :: "pathbuf \<Rightarrow> bool"
  h_env :: "bytes \<Rightarrow> bytes option"

definition is_file :: "host \<Rightarrow> pathbuf \<Rightarrow> bool" where
  "is_file h p \<longleftrightarrow> h_files h p \<noteq> None"

definition path_exists :: "host \<Rightarrow> pathbuf \<Rightarrow> bool" where
  "path_exists h p \<longleftrightarrow> is_file h p \<or> h_dirs h p"

definition canonicalize :: "host \<Rightarrow> pathbuf \<Rightarrow> pathbuf option" where
  "canonicalize h p = (if path_exists h p then Some (h_real h p) else None)"

definition remove_file :: "pathbuf \<Rightarrow> host \<Rightarrow> host option" where
  "remove_file p h = (if is_file h p \<and> \<not> h_stuck h p then Some (h\<lparr>h_files := (h_files h)(p := None)\<rparr>)
     else None)"

text \<open>\<open>std::fs::metadata(p).map_or(0, |m| m.len())\<close>.\<close>

definition size_or_0 :: "host \<Rightarrow> pathbuf \<Rightarrow> u64" where
  "size_or_0 h p = (case h_files h p of None \<Rightarrow> 0 | Some n \<Rightarrow> n)"

section \<open>Confinement\<close>

definition allowed_roots :: "host \<Rightarrow> pathbuf list" where
  "allowed_roots h = (case h_home h of None \<Rightarrow> [] | Some home \<Rightarrow> [home])
     @ filter (h_dirs h) (map (\<lambda>s. path_of (ascii s)) [''/media'', ''/mnt'', ''/Volumes'', ''/data'', ''/srv''])"

definition under_allowed_root :: "host \<Rightarrow> pathbuf \<Rightarrow> pathbuf list \<Rightarrow> bool" where
  "under_allowed_root h canonical roots \<longleftrightarrow>
     (\<exists>root \<in> set roots. case canonicalize h root of None \<Rightarrow> False | Some rc \<Rightarrow> path_starts_with canonical rc)"

definition is_under_allowed_root :: "host \<Rightarrow> pathbuf \<Rightarrow> bool" where
  "is_under_allowed_root h canonical = under_allowed_root h canonical (allowed_roots h)"

text \<open>The loop that climbs to the nearest existing ancestor.\<close>

function nearest_existing :: "host \<Rightarrow> pathbuf \<Rightarrow> pathbuf option" where
  "nearest_existing h existing =
     (if path_exists h existing then Some existing
      else case parent existing of None \<Rightarrow> None | Some q \<Rightarrow> nearest_existing h q)"
  by pat_completeness auto
termination
  by (relation "measure (\<lambda>(h, p). length p)") (auto simp: parent_def split: if_splits)

declare nearest_existing.simps [simp del]

datatype path_error = IsEmpty | NotAbsolute | HasParentDir | NoExistingAncestor | CannotResolve
  | OutsideRoots | NotFound | NotADirectory

definition confine :: "host \<Rightarrow> pathbuf \<Rightarrow> path_error + pathbuf" where
  "confine h candidate =
     (if candidate = [] then Inl IsEmpty
      else if \<not> is_absolute candidate then Inl NotAbsolute
      else if ParentDir \<in> set candidate then Inl HasParentDir
      else case nearest_existing h candidate of
          None \<Rightarrow> Inl NoExistingAncestor
        | Some existing \<Rightarrow>
            (case canonicalize h existing of
               None \<Rightarrow> Inl CannotResolve
             | Some canonical_existing \<Rightarrow>
                 if \<not> under_allowed_root h canonical_existing (allowed_roots h) then Inl OutsideRoots
                 else Inr candidate))"

definition validate_config_dir :: "host \<Rightarrow> pathbuf \<Rightarrow> path_error + unit" where
  "validate_config_dir h dir =
     (if dir = [] then Inl IsEmpty
      else if ParentDir \<in> set dir then Inl HasParentDir
      else if is_absolute dir then (case confine h dir of Inl e \<Rightarrow> Inl e | Inr _ \<Rightarrow> Inr ())
      else Inr ())"

definition confine_existing_dir :: "host \<Rightarrow> pathbuf \<Rightarrow> path_error + pathbuf" where
  "confine_existing_dir h candidate = (case canonicalize h candidate of
       None \<Rightarrow> Inl NotFound
     | Some canonical \<Rightarrow>
         if \<not> h_dirs h canonical then Inl NotADirectory
         else if \<not> under_allowed_root h canonical (allowed_roots h) then Inl OutsideRoots
         else Inr canonical)"

section \<open>What confinement guarantees\<close>

definition allowed_location :: "host \<Rightarrow> pathbuf \<Rightarrow> bool" where
  "allowed_location h p \<longleftrightarrow> (\<exists>root \<in> set (allowed_roots h). path_exists h root \<and> (\<exists>rest. p = h_real h root @ rest))"

lemma under_allowed_root_iff: "under_allowed_root h p (allowed_roots h) \<longleftrightarrow> allowed_location h p"
proof -
  have "take (length q) p = q \<longleftrightarrow> (\<exists>rest. p = q @ rest)" for q :: pathbuf
    by (metis append_eq_conv_conj append_take_drop_id)
  then show ?thesis
    by (auto simp: under_allowed_root_def allowed_location_def canonicalize_def path_starts_with_def
        split: option.splits if_splits)
qed

text \<open>A path as the standard library reads one: the root is its first component or none.\<close>

definition path_wf :: "pathbuf \<Rightarrow> bool" where
  "path_wf p \<longleftrightarrow> RootDir \<notin> set (tl p)"

lemma segment_not_root [simp]: "segment s \<noteq> RootDir"
  by (simp add: segment_def)

lemma path_of_wf: "path_wf (path_of s)"
  by (auto simp: path_wf_def path_of_def Let_def split: list.splits) (auto simp: map_eq_Cons_conv dest: sym)

lemma path_join_wf: "path_wf p \<Longrightarrow> path_wf q \<Longrightarrow> path_wf (path_join p q)"
  by (cases p; cases q) (auto simp: path_wf_def path_join_def is_absolute_def)

lemma nearest_existing_take:
  assumes "is_absolute p" and "path_wf p" and "n < length p"
  shows "nearest_existing h (take (Suc n) p) = Some q \<longleftrightarrow> (\<exists>k \<le> n. q = take (Suc k) p \<and> path_exists h q
    \<and> (\<forall>m \<le> n. k < m \<longrightarrow> \<not> path_exists h (take (Suc m) p)))"
  using assms(3)
proof (induction n)
  case 0
  have "parent (take (Suc 0) p) = None"
    using assms(1) by (cases p) (auto simp: parent_def is_absolute_def)
  then show ?case by (subst nearest_existing.simps) auto
next
  case (Suc n)
  have t: "take (Suc (Suc n)) p = take (Suc n) p @ [p ! Suc n]"
    using Suc.prems by (simp add: take_Suc_conv_app_nth)
  have "p ! Suc n \<noteq> RootDir"
    using assms(2) Suc.prems by (cases p) (auto simp: path_wf_def in_set_conv_nth)
  then have pa: "parent (take (Suc (Suc n)) p) = Some (take (Suc n) p)"
    unfolding t by (simp add: parent_def)
  show ?case
  proof (cases "path_exists h (take (Suc (Suc n)) p)")
    case True
    then show ?thesis
      by (subst nearest_existing.simps) (auto simp: le_Suc_eq)
  next
    case False
    have "nearest_existing h (take (Suc (Suc n)) p) = nearest_existing h (take (Suc n) p)"
      using False pa by (subst nearest_existing.simps) simp
    then show ?thesis
      using Suc False by (auto simp: le_Suc_eq)
  qed
qed

lemma confine_iff:
  assumes "path_wf p"
  shows "confine h p = Inr q \<longleftrightarrow> q = p \<and> is_absolute p \<and> ParentDir \<notin> set p
    \<and> (\<exists>k < length p. path_exists h (take (Suc k) p)
        \<and> (\<forall>m < length p. k < m \<longrightarrow> \<not> path_exists h (take (Suc m) p))
        \<and> allowed_location h (h_real h (take (Suc k) p)))"
proof (cases "is_absolute p \<and> ParentDir \<notin> set p")
  case True
  then have ne: "p \<noteq> []" by (auto simp: is_absolute_def)
  then obtain n where n: "length p = Suc n" by (cases p) auto
  have near: "nearest_existing h p = Some e \<longleftrightarrow> (\<exists>k < length p. e = take (Suc k) p \<and> path_exists h e
      \<and> (\<forall>m < length p. k < m \<longrightarrow> \<not> path_exists h (take (Suc m) p)))" for e
    using nearest_existing_take [of p n h e] True assms by (simp add: n less_Suc_eq_le)
  have "confine h p = Inr q \<longleftrightarrow> q = p \<and> (\<exists>e. nearest_existing h p = Some e \<and> path_exists h e
      \<and> allowed_location h (h_real h e))"
    using True ne by (auto simp: confine_def canonicalize_def under_allowed_root_iff split: option.splits)
  also have "\<dots> \<longleftrightarrow> q = p \<and> (\<exists>k < length p. path_exists h (take (Suc k) p)
        \<and> (\<forall>m < length p. k < m \<longrightarrow> \<not> path_exists h (take (Suc m) p))
        \<and> allowed_location h (h_real h (take (Suc k) p)))"
    unfolding near by blast
  finally show ?thesis using True by blast
qed (auto simp: confine_def)

text \<open>
  C35. Confinement is exact. A path of a request is accepted, unchanged, exactly when it is absolute,
  has no \<open>..\<close>, and its longest existing ancestor leads, with its links resolved, to a place inside
  the home directory or an existing media mount.
\<close>

theorem confine_exact:
  assumes "path_wf p"
  shows "confine h p = Inr q \<longleftrightarrow> q = p \<and> is_absolute p \<and> ParentDir \<notin> set p
    \<and> (\<exists>k < length p. path_exists h (take (Suc k) p)
        \<and> (\<forall>m < length p. k < m \<longrightarrow> \<not> path_exists h (take (Suc m) p))
        \<and> allowed_location h (h_real h (take (Suc k) p)))"
  using assms by (rule confine_iff)

definition example_host :: host where
  "example_host = \<lparr>h_files = [[RootDir, Normal (ascii ''home''), Normal (ascii ''u''), Normal (ascii ''a.mkv'')] \<mapsto> 4000000,
       [RootDir, Normal (ascii ''etc''), Normal (ascii ''passwd'')] \<mapsto> 9],
     h_dirs = (\<lambda>p. p \<noteq> [] \<and> path_starts_with [RootDir, Normal (ascii ''home''), Normal (ascii ''u'')] p),
     h_real = (\<lambda>p. p), h_home = Some [RootDir, Normal (ascii ''home''), Normal (ascii ''u'')], h_stuck = (\<lambda>p. False),
     h_env = (\<lambda>v. None)\<rparr>"

theorem confine_exact_witness:
  "confine example_host (path_of (ascii ''/home/u/new/dir'')) = Inr (path_of (ascii ''/home/u/new/dir''))
   \<and> confine example_host (path_of (ascii ''/etc/passwd'')) \<noteq> Inr (path_of (ascii ''/etc/passwd''))"
proof -
  let ?p = "path_of (ascii ''/home/u/new/dir'')" and ?q = "path_of (ascii ''/etc/passwd'')"
  have p: "is_absolute ?p" "ParentDir \<notin> set ?p" "length ?p = 5"
    "path_exists example_host (take (Suc 2) ?p)"
    "\<not> path_exists example_host (take (Suc 3) ?p)" "\<not> path_exists example_host (take (Suc 4) ?p)"
    "under_allowed_root example_host (h_real example_host (take (Suc 2) ?p)) (allowed_roots example_host)"
    by code_simp+
  have "\<not> path_exists example_host (take (Suc m) ?p)" if "m < 5" "2 < m" for m
  proof -
    have "m = 3 \<or> m = 4" using that by linarith
    then show ?thesis using p(5,6) by auto
  qed
  then have "\<exists>k < length ?p. path_exists example_host (take (Suc k) ?p)
      \<and> (\<forall>m < length ?p. k < m \<longrightarrow> \<not> path_exists example_host (take (Suc m) ?p))
      \<and> allowed_location example_host (h_real example_host (take (Suc k) ?p))"
    using p(4,7) unfolding under_allowed_root_iff p(3) by (intro exI [of _ 2]) simp
  then have "confine example_host ?p = Inr ?p"
    unfolding confine_exact [OF path_of_wf] using p(1,2) by blast
  moreover have "confine example_host ?q = Inl OutsideRoots" by code_simp
  ultimately show ?thesis by simp
qed

end
