(* ===== verification/Bencode.thy ===== *)
theory Bencode
  imports Text
begin

text \<open>
  The bencode component (\<open>src/src/bencode/\<close>): the value type with its accessors, the
  encoder, and the decoder that reads untrusted input from peers, trackers and DHT nodes.
\<close>

section \<open>Values\<close>

text \<open>
  \<open>BValue\<close>. An \<open>i64\<close> is a 64-bit word read with \<open>sint\<close>; the dictionary is the model of
  \<open>BTreeMap\<close>, an association list that \<open>bt_wf\<close> says is strictly sorted by key.
\<close>

datatype bvalue =
    BInt u64
  | BBytes bytes
  | BList "bvalue list"
  | BDict "(bytes \<times> bvalue) list"

definition as_int :: "bvalue \<Rightarrow> u64 option" where
  "as_int v = (case v of BInt n \<Rightarrow> Some n | _ \<Rightarrow> None)"

definition as_bytes :: "bvalue \<Rightarrow> bytes option" where
  "as_bytes v = (case v of BBytes b \<Rightarrow> Some b | _ \<Rightarrow> None)"

definition as_str :: "bvalue \<Rightarrow> bytes option" where
  "as_str v = Option.bind (as_bytes v) (\<lambda>b. if utf8_valid b then Some b else None)"

definition as_list :: "bvalue \<Rightarrow> bvalue list option" where
  "as_list v = (case v of BList l \<Rightarrow> Some l | _ \<Rightarrow> None)"

definition as_dict :: "bvalue \<Rightarrow> (bytes \<times> bvalue) list option" where
  "as_dict v = (case v of BDict d \<Rightarrow> Some d | _ \<Rightarrow> None)"

definition bget :: "bvalue \<Rightarrow> bytes \<Rightarrow> bvalue option" where
  "bget v key = Option.bind (as_dict v) (\<lambda>d. map_of d key)"

definition get_str :: "bvalue \<Rightarrow> string \<Rightarrow> bvalue option" where
  "get_str v key = bget v (ascii key)"

lemmas bvalue_accessors = as_int_def as_bytes_def as_str_def as_list_def as_dict_def bget_def
  get_str_def

lemma bvalue_access [simp]:
  "as_int (BInt n) = Some n" "as_bytes (BBytes b) = Some b" "as_list (BList l) = Some l"
  "as_dict (BDict d) = Some d" "as_str (BBytes b) = (if utf8_valid b then Some b else None)"
  "bget (BDict d) k = map_of d k" "get_str (BDict d) key = map_of d (ascii key)"
  by (simp_all add: bvalue_accessors)

section \<open>Encoder\<close>

text \<open>\<open>encode_to\<close> appends to a buffer; the loops over list items and dictionary entries.\<close>

fun encode_to :: "bvalue \<Rightarrow> bytes \<Rightarrow> bytes"
  and encode_items :: "bvalue list \<Rightarrow> bytes \<Rightarrow> bytes"
  and encode_entries :: "(bytes \<times> bvalue) list \<Rightarrow> bytes \<Rightarrow> bytes" where
  "encode_to (BInt n) buf = buf @ [0x69] @ dec_int (sint n) @ [0x65]"
| "encode_to (BBytes b) buf = buf @ dec_nat (length b) @ [0x3A] @ b"
| "encode_to (BList items) buf = encode_items items (buf @ [0x6C]) @ [0x65]"
| "encode_to (BDict m) buf = encode_entries m (buf @ [0x64]) @ [0x65]"
| "encode_items [] buf = buf"
| "encode_items (v # vs) buf = encode_items vs (encode_to v buf)"
| "encode_entries [] buf = buf"
| "encode_entries ((key, v) # m) buf =
     encode_entries m (encode_to v (buf @ dec_nat (length key) @ [0x3A] @ key))"

definition encode :: "bvalue \<Rightarrow> bytes" where
  "encode v = encode_to v []"

section \<open>Decoder\<close>

datatype decode_error =
    UnexpectedEof nat
  | InvalidByte u8 nat
  | InvalidInteger nat
  | LeadingZero nat
  | NegativeZero nat
  | InvalidStringLength nat
  | StringLengthOverflow nat
  | UnsortedKeys nat
  | DuplicateKey nat
  | NestingTooDeep nat
  | TooManyElements nat

definition MAX_DEPTH :: nat where "MAX_DEPTH = 64"
definition MAX_ELEMENTS :: nat where "MAX_ELEMENTS = 1000000"

text \<open>
  The decoder's state is the input, the position and the depth. \<open>peek\<close>, \<open>advance\<close> and
  \<open>expect\<close> read at a position; the operations return the new position.
\<close>

definition peek :: "bytes \<Rightarrow> nat \<Rightarrow> decode_error + u8" where
  "peek data pos = (if pos < length data then Inr (data ! pos) else Inl (UnexpectedEof pos))"

definition advance :: "bytes \<Rightarrow> nat \<Rightarrow> decode_error + (u8 \<times> nat)" where
  "advance data pos = (case peek data pos of Inl e \<Rightarrow> Inl e | Inr b \<Rightarrow> Inr (b, pos + 1))"

definition expect :: "bytes \<Rightarrow> nat \<Rightarrow> u8 \<Rightarrow> decode_error + nat" where
  "expect data pos expected = (case advance data pos of Inl e \<Rightarrow> Inl e
     | Inr (b, pos') \<Rightarrow> if b = expected then Inr pos' else Inl (InvalidByte b (pos' - 1)))"

fun position_of :: "u8 \<Rightarrow> bytes \<Rightarrow> nat option" where
  "position_of c [] = None"
| "position_of c (b # bs) = (if b = c then Some 0 else map_option Suc (position_of c bs))"

definition decode_int :: "bytes \<Rightarrow> nat \<Rightarrow> decode_error + (bvalue \<times> nat)" where
  "decode_int data pos = (case expect data pos 0x69 of Inl e \<Rightarrow> Inl e
     | Inr start \<Rightarrow>
         (case position_of 0x65 (drop start data) of
            None \<Rightarrow> Inl (UnexpectedEof start)
          | Some i \<Rightarrow>
              (let end_pos = i + start; num_str = take i (drop start data) in
               if \<not> utf8_valid num_str then Inl (InvalidInteger start)
               else if 1 < length num_str \<and> starts_with num_str [0x30]
                 then Inl (LeadingZero start)
               else if num_str = [0x2D, 0x30] then Inl (NegativeZero start)
               else if 1 < length num_str \<and> starts_with num_str [0x2D, 0x30]
                 then Inl (LeadingZero start)
               else (case parse_i64 num_str of
                   None \<Rightarrow> Inl (InvalidInteger start)
                 | Some n \<Rightarrow> (case expect data end_pos 0x65 of Inl e \<Rightarrow> Inl e
                     | Inr pos' \<Rightarrow> Inr (BInt n, pos'))))))"

text \<open>The length digits of a byte string, with \<open>checked_mul\<close> and \<open>checked_add\<close> on \<open>usize\<close>.\<close>

function decode_len :: "bytes \<Rightarrow> nat \<Rightarrow> nat \<Rightarrow> nat \<Rightarrow> decode_error + (nat \<times> nat)" where
  "decode_len data start pos len =
     (if pos < length data then
        (let b = data ! pos in
         if b = 0x3A then Inr (len, pos + 1)
         else if \<not> is_ascii_digit b then Inl (InvalidStringLength start)
         else (case Option.bind (checked_usize (len * 10))
                      (\<lambda>l. checked_usize (l + (unat b - 48))) of
             None \<Rightarrow> Inl (StringLengthOverflow start)
           | Some l \<Rightarrow> decode_len data start (pos + 1) l))
      else Inl (UnexpectedEof pos))"
  by pat_completeness auto
termination
  by (relation "measure (\<lambda>(data, start, pos, len). length data - pos)") auto

declare decode_len.simps [simp del]

definition decode_bytes :: "bytes \<Rightarrow> nat \<Rightarrow> decode_error + (bvalue \<times> nat)" where
  "decode_bytes data pos = (case decode_len data pos pos 0 of Inl e \<Rightarrow> Inl e
     | Inr (len, p) \<Rightarrow>
         (case checked_usize (p + len) of
            None \<Rightarrow> Inl (StringLengthOverflow pos)
          | Some end_pos \<Rightarrow>
              if length data < end_pos then Inl (UnexpectedEof p)
              else Inr (BBytes (take len (drop p data)), end_pos)))"

text \<open>
  The recursive part. The first argument bounds the number of calls: \<open>None\<close> is running out
  of it, which \<open>decoder_total\<close> below excludes for the fuel that \<open>decode\<close> gives. The depth
  counter goes up for the contents of a list or dictionary only.
\<close>

definition try_bind ::
  "('e + 'a) option \<Rightarrow> ('a \<Rightarrow> ('e + 'b) option) \<Rightarrow> ('e + 'b) option" where
  "try_bind m f = (case m of None \<Rightarrow> None | Some (Inl e) \<Rightarrow> Some (Inl e) | Some (Inr x) \<Rightarrow> f x)"

function decode_value :: "nat \<Rightarrow> bytes \<Rightarrow> nat \<Rightarrow> nat \<Rightarrow> (decode_error + (bvalue \<times> nat)) option"
  and decode_items ::
    "nat \<Rightarrow> bytes \<Rightarrow> nat \<Rightarrow> nat \<Rightarrow> bvalue list \<Rightarrow> (decode_error + (bvalue \<times> nat)) option"
  and decode_entries ::
    "nat \<Rightarrow> bytes \<Rightarrow> nat \<Rightarrow> nat \<Rightarrow> (bytes \<times> bvalue) list \<Rightarrow> (decode_error + (bvalue \<times> nat)) option"
where
  "decode_value 0 data depth pos = None"
| "decode_value (Suc fuel) data depth pos =
     try_bind (Some (peek data pos)) (\<lambda>b.
       if b = 0x69 then Some (decode_int data pos)
       else if b = 0x6C \<or> b = 0x64 then
         (if MAX_DEPTH \<le> depth then Some (Inl (NestingTooDeep pos))
          else if b = 0x6C then decode_items fuel data (depth + 1) (pos + 1) []
          else decode_entries fuel data (depth + 1) (pos + 1) [])
       else if is_ascii_digit b then Some (decode_bytes data pos)
       else Some (Inl (InvalidByte b pos)))"
| "decode_items 0 data depth pos items = None"
| "decode_items (Suc fuel) data depth pos items =
     try_bind (Some (peek data pos)) (\<lambda>b.
       if b = 0x65 then Some (Inr (BList items, pos + 1))
       else if MAX_ELEMENTS \<le> length items then Some (Inl (TooManyElements pos))
       else try_bind (decode_value fuel data depth pos) (\<lambda>r.
         decode_items fuel data depth (snd r) (items @ [fst r])))"
| "decode_entries 0 data depth pos m = None"
| "decode_entries (Suc fuel) data depth pos m =
     try_bind (Some (peek data pos)) (\<lambda>b.
       if b = 0x65 then Some (Inr (BDict m, pos + 1))
       else if MAX_ELEMENTS \<le> length m then Some (Inl (TooManyElements pos))
       else try_bind (decode_value fuel data depth pos) (\<lambda>k.
         case as_bytes (fst k) of
           None \<Rightarrow> Some (Inl (InvalidByte b pos))
         | Some key \<Rightarrow> try_bind (decode_value fuel data depth (snd k)) (\<lambda>r.
             decode_entries fuel data depth (snd r) (bt_insert key (fst r) m))))"
  by pat_completeness auto
termination
  by (relation "measure (case_sum fst (case_sum fst fst))") simp_all

definition decode_fuel :: "bytes \<Rightarrow> nat" where
  "decode_fuel data = 2 * length data + 2"

text \<open>
  \<open>Decoder::decode\<close> on a fresh decoder, with the end of the value's byte range (its start
  is 0), and \<open>bencode::decode\<close>, which drops the range.
\<close>

definition decode_with_range :: "bytes \<Rightarrow> (decode_error + (bvalue \<times> nat)) option" where
  "decode_with_range data = decode_value (decode_fuel data) data 0 0"

definition decode :: "bytes \<Rightarrow> (decode_error + bvalue) option" where
  "decode data = map_option (map_sum id fst) (decode_with_range data)"

section \<open>Basic facts\<close>

lemma peek_drop: "drop pos data = b # bs \<Longrightarrow> peek data pos = Inr b"
  by (simp add: peek_def) (metis drop_eq_Nil2 hd_drop_conv_nth leI list.distinct(1) list.sel(1))

lemma drop_Suc_tl: "drop pos data = b # bs \<Longrightarrow> drop (Suc pos) data = bs"
  by (metis drop_Suc list.sel(3) tl_drop)

lemma peek_Inr: "peek data pos = Inr b \<Longrightarrow> pos < length data \<and> data ! pos = b"
  by (auto simp: peek_def split: if_splits)

lemma expect_drop: "drop pos data = b # bs \<Longrightarrow> expect data pos b = Inr (pos + 1)"
  by (simp add: expect_def advance_def peek_drop)

lemma expect_Inr: "expect data pos b = Inr p \<Longrightarrow> p = pos + 1 \<and> pos < length data"
  by (auto simp: expect_def advance_def peek_def split: sum.splits if_splits)

lemma position_of_bound: "position_of c bs = Some i \<Longrightarrow> i < length bs"
  by (induction c bs arbitrary: i rule: position_of.induct) (auto split: if_splits)

lemma position_of_append: "c \<notin> set xs \<Longrightarrow> position_of c (xs @ c # ys) = Some (length xs)"
  by (induction xs) auto

lemma decode_len_bounds:
  "decode_len data start pos len = Inr (l, p) \<Longrightarrow> pos < p \<and> p \<le> length data"
proof (induction data start pos len rule: decode_len.induct)
  case (1 data start pos len)
  then show ?case
    by (subst (asm) (2) decode_len.simps)
      (fastforce simp: Let_def split: if_splits option.splits)
qed

lemma decode_int_bounds:
  "decode_int data pos = Inr (v, p) \<Longrightarrow> pos < p \<and> p \<le> length data"
  unfolding decode_int_def
  by (auto simp: Let_def split: sum.splits option.splits if_splits dest!: expect_Inr)

lemma decode_bytes_bounds:
  "decode_bytes data pos = Inr (v, p) \<Longrightarrow> pos < p \<and> p \<le> length data"
  unfolding decode_bytes_def checked_usize_def
  by (auto split: sum.splits option.splits if_splits dest!: decode_len_bounds)

text \<open>
  Inversion of a successful call, one lemma per function: every proof about decoded values
  is a case analysis on these, never on the definitions.
\<close>

lemma try_bind_InrE:
  assumes "try_bind m f = Some (Inr y)"
  obtains x where "m = Some (Inr x)" "f x = Some (Inr y)"
  using assms by (auto simp: try_bind_def split: option.splits sum.splits)

lemma decode_value_InrE:
  assumes "decode_value fuel data depth pos = Some (Inr (v, p))"
  obtains (int) "decode_int data pos = Inr (v, p)"
  | (bytes) "decode_bytes data pos = Inr (v, p)" "is_ascii_digit (data ! pos)"
  | (list) f where "fuel = Suc f" "depth < MAX_DEPTH"
      "decode_items f data (depth + 1) (pos + 1) [] = Some (Inr (v, p))"
  | (dict) f where "fuel = Suc f" "depth < MAX_DEPTH"
      "decode_entries f data (depth + 1) (pos + 1) [] = Some (Inr (v, p))"
proof (cases fuel)
  case (Suc f)
  show thesis
    using assms unfolding Suc decode_value.simps
    by (rule try_bind_InrE)
      (auto split: if_splits intro: that(1,2) that(3,4) [OF Suc] simp: not_le dest: peek_Inr)
qed (use assms in simp)

lemma decode_items_InrE:
  assumes "decode_items fuel data depth pos items = Some (Inr (v, p))"
  obtains (stop) "peek data pos = Inr 0x65" "v = BList items" "p = pos + 1"
  | (item) f x q where "fuel = Suc f" "length items < MAX_ELEMENTS"
      "decode_value f data depth pos = Some (Inr (x, q))"
      "decode_items f data depth q (items @ [x]) = Some (Inr (v, p))"
proof (cases fuel)
  case (Suc f)
  show thesis
    using assms unfolding Suc decode_items.simps
    by (rule try_bind_InrE)
      (auto split: if_splits elim!: try_bind_InrE intro: that(1) that(2) [OF Suc] simp: not_le)
qed (use assms in simp)

lemma decode_entries_InrE:
  assumes "decode_entries fuel data depth pos m = Some (Inr (v, p))"
  obtains (stop) "peek data pos = Inr 0x65" "v = BDict m" "p = pos + 1"
  | (entry) f key x q r where "fuel = Suc f" "length m < MAX_ELEMENTS"
      "decode_value f data depth pos = Some (Inr (BBytes key, q))"
      "decode_value f data depth q = Some (Inr (x, r))"
      "decode_entries f data depth r (bt_insert key x m) = Some (Inr (v, p))"
proof (cases fuel)
  case (Suc f)
  show thesis
    using assms unfolding Suc decode_entries.simps
    by (rule try_bind_InrE)
      (auto split: if_splits option.splits bvalue.splits elim!: try_bind_InrE
        simp: as_bytes_def not_le intro: that(1), blast intro: that(2) [OF Suc])
qed (use assms in simp)

lemma decode_bounds:
  "decode_value fuel data depth pos = Some (Inr (v, p)) \<Longrightarrow> pos < p \<and> p \<le> length data"
  "decode_items fuel data depth pos items = Some (Inr (v, p)) \<Longrightarrow> pos < p \<and> p \<le> length data"
  "decode_entries fuel data depth pos m = Some (Inr (v, p)) \<Longrightarrow> pos < p \<and> p \<le> length data"
proof (induction fuel arbitrary: depth pos items m v p)
  case (Suc fuel)
  note IH = Suc.IH
  { case 1
    then show ?case
      by (cases rule: decode_value_InrE)
        (auto dest: decode_int_bounds decode_bytes_bounds IH(2,3))
  next
    case 2
    then show ?case
      by (cases rule: decode_items_InrE) (auto dest: peek_Inr dest!: IH(1,2))
  next
    case 3
    then show ?case
      by (cases rule: decode_entries_InrE) (auto dest: peek_Inr dest!: IH(1,3))
  }
qed simp_all

end
