(* ===== verification/Bencode_Correct.thy ===== *)
theory Bencode_Correct
  imports Bencode
begin

text \<open>
  Correctness of the bencode component: the decoder returns on every input, what it returns
  is well formed and lies inside the input, the encoder follows the grammar, and decoding
  inverts encoding, also with bytes after the value.
\<close>

section \<open>The decoder returns\<close>

lemma try_bind_None:
  "try_bind m f = None \<longleftrightarrow> m = None \<or> (\<exists>x. m = Some (Inr x) \<and> f x = None)"
  by (auto simp: try_bind_def split: option.splits sum.splits)

lemma decode_enough_fuel:
  "2 * (length data - pos) + 1 \<le> fuel \<Longrightarrow> decode_value fuel data depth pos \<noteq> None"
  "2 * (length data - pos) + 2 \<le> fuel \<Longrightarrow> decode_items fuel data depth pos items \<noteq> None"
  "2 * (length data - pos) + 2 \<le> fuel \<Longrightarrow> decode_entries fuel data depth pos m \<noteq> None"
proof (induction fuel arbitrary: depth pos items m)
  case (Suc fuel)
  { case 1
    with Suc.IH(2,3) [of "pos + 1"] show ?case
      by (auto simp: try_bind_None peek_def)
  next
    case 2
    have "decode_value fuel data depth pos \<noteq> None"
      by (rule Suc.IH(1)) (use 2 in simp)
    moreover have "decode_items fuel data depth q xs \<noteq> None"
      if "decode_value fuel data depth pos = Some (Inr (x, q))" for q x xs
      using decode_bounds(1) [OF that] 2 by (intro Suc.IH(2)) linarith
    ultimately show ?case by (auto simp: try_bind_None simp del: not_None_eq)
  next
    case 3
    have v: "decode_value fuel data depth r \<noteq> None" if "pos \<le> r" for r
      by (rule Suc.IH(1)) (use that 3 in linarith)
    have "decode_entries fuel data depth r xs \<noteq> None"
      if "decode_value fuel data depth pos = Some (Inr (x, q))"
        "decode_value fuel data depth q = Some (Inr (y, r))" for q r x y xs
      using decode_bounds(1) [OF that(1)] decode_bounds(1) [OF that(2)] 3
      by (intro Suc.IH(3)) linarith
    moreover have "decode_value fuel data depth q \<noteq> None"
      if "decode_value fuel data depth pos = Some (Inr (x, q))" for x q
      using v [of q] decode_bounds(1) [OF that] by simp
    ultimately show ?case using v [of pos]
      by (auto simp: try_bind_None split: option.splits
        dest: decode_bounds(1) less_imp_le simp del: not_None_eq)
  }
qed simp_all

lemma decode_with_range_total: "\<exists>r. decode_with_range data = Some r"
  using decode_enough_fuel(1) [of data 0 "decode_fuel data" 0]
  by (auto simp: decode_with_range_def decode_fuel_def)

section \<open>What it returns is well formed\<close>

text \<open>
  The limits of the decoder as a predicate: dictionaries strictly sorted, at most
  \<open>MAX_DEPTH\<close> containers around a value, at most \<open>MAX_ELEMENTS\<close> in each.
\<close>

fun bv_ok :: "nat \<Rightarrow> bvalue \<Rightarrow> bool"
  and items_ok :: "nat \<Rightarrow> bvalue list \<Rightarrow> bool"
  and entries_ok :: "nat \<Rightarrow> (bytes \<times> bvalue) list \<Rightarrow> bool" where
  "bv_ok d (BInt n) = True"
| "bv_ok d (BBytes b) = (length b < usize_bound)"
| "bv_ok d (BList vs) = (d < MAX_DEPTH \<and> length vs \<le> MAX_ELEMENTS \<and> items_ok (Suc d) vs)"
| "bv_ok d (BDict m) =
     (d < MAX_DEPTH \<and> length m \<le> MAX_ELEMENTS \<and> bt_wf m \<and> entries_ok (Suc d) m)"
| "items_ok d [] = True"
| "items_ok d (v # vs) = (bv_ok d v \<and> items_ok d vs)"
| "entries_ok d [] = True"
| "entries_ok d ((k, v) # m) = (length k < usize_bound \<and> bv_ok d v \<and> entries_ok d m)"

lemma items_ok_append: "items_ok d (xs @ ys) \<longleftrightarrow> items_ok d xs \<and> items_ok d ys"
  by (induction xs) auto

lemma entries_ok_insert:
  "entries_ok d m \<Longrightarrow> length k < usize_bound \<Longrightarrow> bv_ok d v \<Longrightarrow> entries_ok d (bt_insert k v m)"
  by (induction k v m rule: bt_insert.induct) auto

lemma length_bt_insert: "length (bt_insert k v m) \<le> Suc (length m)"
  by (induction k v m rule: bt_insert.induct) auto

lemma decode_int_ok: "decode_int data pos = Inr (v, p) \<Longrightarrow> bv_ok d v"
  by (auto simp: decode_int_def Let_def split: sum.splits option.splits if_splits)

lemma decode_bytes_ok: "decode_bytes data pos = Inr (v, p) \<Longrightarrow> bv_ok d v"
  by (auto simp: decode_bytes_def checked_usize_def split: sum.splits option.splits if_splits)

lemma decode_ok:
  "decode_value fuel data d pos = Some (Inr (v, p)) \<Longrightarrow> bv_ok d v"
  "decode_items fuel data (Suc d) pos items = Some (Inr (v, p)) \<Longrightarrow>
     d < MAX_DEPTH \<Longrightarrow> length items \<le> MAX_ELEMENTS \<Longrightarrow> items_ok (Suc d) items \<Longrightarrow> bv_ok d v"
  "decode_entries fuel data (Suc d) pos m = Some (Inr (v, p)) \<Longrightarrow>
     d < MAX_DEPTH \<Longrightarrow> length m \<le> MAX_ELEMENTS \<Longrightarrow> bt_wf m \<Longrightarrow> entries_ok (Suc d) m \<Longrightarrow> bv_ok d v"
proof (induction fuel arbitrary: d pos items m v p)
  case (Suc fuel)
  { case 1
    then show ?case
      by (cases rule: decode_value_InrE)
        (auto intro: decode_int_ok decode_bytes_ok Suc.IH(2) [of _ "pos + 1" "[]"]
          Suc.IH(3) [of _ "pos + 1" "[]"])
  next
    case 2
    from 2(1) show ?case
    proof (cases rule: decode_items_InrE)
      case (item f x q)
      with Suc.IH(1) [of "Suc d" pos x q] 2 show ?thesis
        by (intro Suc.IH(2) [of d q "items @ [x]"]) (auto simp: items_ok_append)
    qed (use 2 in simp)
  next
    case 3
    from 3(1) show ?case
    proof (cases rule: decode_entries_InrE)
      case (entry f key x q r)
      with Suc.IH(1) [of "Suc d" pos "BBytes key" q] Suc.IH(1) [of "Suc d" q x r] 3
        length_bt_insert [of key x m]
      show ?thesis
        by (intro Suc.IH(3) [of d r "bt_insert key x m"]) (auto simp: entries_ok_insert)
    qed (use 3 in simp)
  }
qed simp_all

section \<open>The grammar\<close>

text \<open>The bencoding of a value, without the buffer the code threads through.\<close>

fun enc :: "bvalue \<Rightarrow> bytes"
  and encs :: "bvalue list \<Rightarrow> bytes"
  and ence :: "(bytes \<times> bvalue) list \<Rightarrow> bytes" where
  "enc (BInt n) = 0x69 # dec_int (sint n) @ [0x65]"
| "enc (BBytes b) = dec_nat (length b) @ 0x3A # b"
| "enc (BList vs) = 0x6C # encs vs @ [0x65]"
| "enc (BDict m) = 0x64 # ence m @ [0x65]"
| "encs [] = []"
| "encs (v # vs) = enc v @ encs vs"
| "ence [] = []"
| "ence ((k, v) # m) = dec_nat (length k) @ 0x3A # k @ enc v @ ence m"

lemma encode_to_enc:
  "encode_to v buf = buf @ enc v"
  "encode_items vs buf = buf @ encs vs"
  "encode_entries m buf = buf @ ence m"
  by (induction v buf and vs buf and m buf rule: encode_to_encode_items_encode_entries.induct)
    auto

lemma encode_enc: "encode v = enc v"
  by (simp add: encode_def encode_to_enc)

section \<open>Decoding inverts encoding\<close>

lemma drop_append_enc: "drop pos data = xs @ ys \<Longrightarrow> drop (pos + length xs) data = ys"
  by (metis add.commute append_eq_conv_conj drop_drop)

lemma dec_int_cases:
  obtains b bs where "dec_int n = b # bs" "is_ascii_digit b" "b = 48 \<longrightarrow> bs = []"
    "\<forall>x \<in> set bs. is_ascii_digit x"
  | b bs where "dec_int n = 45 # b # bs" "is_ascii_digit b" "b \<noteq> 48"
    "\<forall>x \<in> set bs. is_ascii_digit x"
proof (cases "n < 0")
  case True
  obtain b bs where b: "dec_nat (nat (- n)) = b # bs" "is_ascii_digit b" by (rule dec_nat_Cons)
  with True dec_nat_hd [of "nat (- n)"] dec_nat_digits [of _ "nat (- n)"]
  show ?thesis by (intro that(2) [of b bs]) (auto simp: dec_int_def)
next
  case False
  obtain b bs where b: "dec_nat (nat n) = b # bs" "is_ascii_digit b" by (rule dec_nat_Cons)
  have "b = 48 \<longrightarrow> bs = []"
    using b dec_nat_hd [of "nat n"] by (cases "nat n = 0") (auto simp: dec_nat.simps [of 0])
  with False b dec_nat_digits [of _ "nat n"]
  show ?thesis by (intro that(1) [of b bs]) (auto simp: dec_int_def)
qed

lemma dec_int_bytes: "b \<in> set (dec_int n) \<Longrightarrow> is_ascii_digit b \<or> b = 45"
  by (rule dec_int_cases [of n]) auto

lemma decode_int_enc:
  assumes d: "drop pos data = enc (BInt n) @ rest"
  shows "decode_int data pos = Inr (BInt n, pos + length (enc (BInt n)))"
proof -
  let ?s = "dec_int (sint n)"
  have e: "expect data pos 0x69 = Inr (pos + 1)"
    using d expect_drop [of pos data] by simp
  have ds: "drop (Suc pos) data = ?s @ 0x65 # rest"
    using d by (auto dest: drop_Suc_tl)
  have p: "position_of 0x65 (drop (Suc pos) data) = Some (length ?s)"
    unfolding ds by (rule position_of_append)
      (auto dest!: dec_int_bytes digit_not_sign)
  have ee: "expect data (length ?s + Suc pos) 0x65 = Inr (length ?s + Suc pos + 1)"
    by (rule expect_drop [of _ _ _ rest]) (use drop_append_enc [OF ds] in \<open>simp add: add_ac\<close>)
  have "\<not> (1 < length ?s \<and> starts_with ?s [0x30]) \<and> ?s \<noteq> [0x2D, 0x30] \<and>
      \<not> (1 < length ?s \<and> starts_with ?s [0x2D, 0x30])"
    by (rule dec_int_cases [of "sint n"])
      (auto simp: starts_with_def is_ascii_digit_def)
  moreover have "utf8_valid ?s"
    by (rule utf8_valid_digits) (auto dest: dec_int_bytes)
  ultimately show ?thesis
    unfolding decode_int_def e
    by (simp add: p [unfolded ds] ds Let_def parse_i64_dec_int ee [simplified])
qed

lemma decode_len_digits:
  "drop pos data = ds @ 0x3A # r \<Longrightarrow> \<forall>b \<in> set ds. is_ascii_digit b \<Longrightarrow>
     parse_digits len ds = Some n \<Longrightarrow> n < usize_bound \<Longrightarrow>
     decode_len data start pos len = Inr (n, pos + length ds + 1)"
proof (induction ds arbitrary: pos len)
  case Nil
  then have "pos < length data" "data ! pos = 0x3A"
    using peek_Inr [OF peek_drop] by auto
  with Nil show ?case by (subst decode_len.simps) (simp add: Let_def)
next
  case (Cons b ds)
  then have pos: "pos < length data" "data ! pos = b"
    using peek_Inr [OF peek_drop] by auto
  have n: "len * 10 + (unat b - 48) \<le> n"
    using Cons.prems(2,3) by (auto dest: parse_digits_mono)
  have "drop (Suc pos) data = ds @ 0x3A # r"
    using Cons.prems(1) by (auto dest: drop_Suc_tl)
  from Cons.IH [OF this] Cons.prems pos n show ?case
    by (subst decode_len.simps)
      (auto simp: Let_def checked_usize_def digit_not_sign)
qed

lemma decode_bytes_enc:
  assumes d: "drop pos data = enc (BBytes b) @ rest" and L: "length data < usize_bound"
  shows "decode_bytes data pos = Inr (BBytes b, pos + length (enc (BBytes b)))"
proof -
  let ?ds = "dec_nat (length b)" and ?p = "pos + length (dec_nat (length b)) + 1"
  have "length data - pos = length (enc (BBytes b) @ rest)"
    unfolding d [symmetric] by simp
  then have len: "?p + length b \<le> length data"
    by simp
  have l: "decode_len data pos pos 0 = Inr (length b, ?p)"
    by (rule decode_len_digits [where r = "b @ rest"])
      (use d len L in \<open>auto dest: dec_nat_digits\<close>)
  have "drop ?p data = drop (length ?ds + 1) (enc (BBytes b) @ rest)"
    unfolding d [symmetric] by (simp add: add_ac)
  then have "drop ?p data = b @ rest"
    by simp
  with l len L show ?thesis
    by (simp add: decode_bytes_def checked_usize_def)
qed

lemma enc_hd: obtains b bs where "enc v = b # bs" "b \<noteq> 0x65"
proof (cases v)
  case (BBytes x)
  obtain b bs where "dec_nat (length x) = b # bs" "is_ascii_digit b" by (rule dec_nat_Cons)
  with BBytes digit_not_sign [of b] show ?thesis by (intro that [of b]) auto
qed (auto intro: that)

lemma peek_enc: "drop pos data = enc v @ rest \<Longrightarrow> \<exists>b. peek data pos = Inr b \<and> b \<noteq> 0x65"
  by (rule enc_hd [of v]) (auto intro: peek_drop)

lemma peek_length: "drop pos data = b # bs \<Longrightarrow> pos < length data"
  by (metis drop_eq_Nil2 leI list.distinct(1))

lemma drop_enc_bound: "drop pos data = enc v @ rest \<Longrightarrow> pos < length data"
  by (rule enc_hd [of v]) (auto intro: peek_length)

lemma decode_enc:
  assumes L: "length data < usize_bound"
  shows "drop pos data = enc v @ rest \<Longrightarrow> bv_ok d v \<Longrightarrow> 2 * (length data - pos) + 1 \<le> fuel \<Longrightarrow>
      decode_value fuel data d pos = Some (Inr (v, pos + length (enc v)))"
    and "drop pos data = encs vs @ 0x65 # rest \<Longrightarrow> items_ok d vs \<Longrightarrow>
      length acc + length vs \<le> MAX_ELEMENTS \<Longrightarrow> 2 * (length data - pos) + 2 \<le> fuel \<Longrightarrow>
      decode_items fuel data d pos acc =
        Some (Inr (BList (acc @ vs), pos + length (encs vs) + 1))"
    and "drop pos data = ence m @ 0x65 # rest \<Longrightarrow> entries_ok d m \<Longrightarrow> bt_wf (bcc @ m) \<Longrightarrow>
      length bcc + length m \<le> MAX_ELEMENTS \<Longrightarrow> 2 * (length data - pos) + 2 \<le> fuel \<Longrightarrow>
      decode_entries fuel data d pos bcc =
        Some (Inr (BDict (bcc @ m), pos + length (ence m) + 1))"
proof (induction v and vs and m arbitrary: fuel d pos rest and fuel d pos rest acc
    and fuel d pos rest bcc rule: enc_encs_ence.induct)
  case (1 n)
  then obtain f where f: "fuel = Suc f" by (cases fuel) auto
  from 1 have "peek data pos = Inr 0x69" by (simp add: peek_drop)
  with decode_int_enc [OF 1(1)] show ?case by (simp add: f try_bind_def)
next
  case (2 b)
  then obtain f where f: "fuel = Suc f" by (cases fuel) auto
  obtain c cs where c: "dec_nat (length b) = c # cs" "is_ascii_digit c" by (rule dec_nat_Cons)
  with 2 have "peek data pos = Inr c" by (simp add: peek_drop)
  with c decode_bytes_enc [OF 2(1) L] show ?case
    by (auto simp: f try_bind_def is_ascii_digit_def)
next
  case (3 vs)
  then obtain f where f: "fuel = Suc f" by (cases fuel) auto
  from 3 have pk: "peek data pos = Inr 0x6C" and dr: "drop (pos + 1) data = encs vs @ 0x65 # rest"
    and p: "pos < length data"
    by (auto simp: peek_drop peek_length dest: drop_Suc_tl)
  have "decode_items f data (Suc d) (pos + 1) [] =
      Some (Inr (BList ([] @ vs), pos + 1 + length (encs vs) + 1))"
    by (rule "3.IH" [OF dr]) (use "3.prems" f p in auto)
  with pk "3.prems" show ?case by (simp add: f try_bind_def)
next
  case (4 m)
  then obtain f where f: "fuel = Suc f" by (cases fuel) auto
  from 4 have pk: "peek data pos = Inr 0x64" and dr: "drop (pos + 1) data = ence m @ 0x65 # rest"
    and p: "pos < length data"
    by (auto simp: peek_drop peek_length dest: drop_Suc_tl)
  have "decode_entries f data (Suc d) (pos + 1) [] =
      Some (Inr (BDict ([] @ m), pos + 1 + length (ence m) + 1))"
    by (rule "4.IH" [OF dr]) (use "4.prems" f p in auto)
  with pk "4.prems" show ?case by (simp add: f try_bind_def)
next
  case 5
  then obtain f where f: "fuel = Suc f" by (cases fuel) auto
  from 5 have "peek data pos = Inr 0x65" by (simp add: peek_drop)
  then show ?case by (simp add: f try_bind_def)
next
  case (6 v vs)
  then obtain f where f: "fuel = Suc f" by (cases fuel) auto
  have d1: "drop pos data = enc v @ encs vs @ 0x65 # rest" using "6.prems" by simp
  obtain b where pk: "peek data pos = Inr b" "b \<noteq> 0x65" using peek_enc [OF d1] by blast
  have v: "decode_value f data d pos = Some (Inr (v, pos + length (enc v)))"
    by (rule "6.IH"(1) [OF d1]) (use "6.prems" f in auto)
  have fl: "2 * (length data - (pos + length (enc v))) + 2 \<le> f"
    using "6.prems"(4) f decode_bounds(1) [OF v] by linarith
  have "decode_items f data d (pos + length (enc v)) (acc @ [v]) =
      Some (Inr (BList ((acc @ [v]) @ vs), pos + length (enc v) + length (encs vs) + 1))"
    by (rule "6.IH"(2) [OF drop_append_enc [OF d1]])
      (use "6.prems" fl in auto)
  with pk v "6.prems" show ?case by (simp add: f try_bind_def add_ac)
next
  case 7
  then obtain f where f: "fuel = Suc f" by (cases fuel) auto
  from 7 have "peek data pos = Inr 0x65" by (simp add: peek_drop)
  then show ?case by (simp add: f try_bind_def)
next
  case (8 k v m)
  then obtain f where f: "fuel = Suc f" and f1: "0 < f"
    using drop_enc_bound [of pos data "BBytes k" "enc v @ ence m @ 0x65 # rest"] by (cases fuel) auto
  then obtain g where g: "f = Suc g" by (cases f) auto
  have d1: "drop pos data = enc (BBytes k) @ enc v @ ence m @ 0x65 # rest" using "8.prems" by simp
  let ?q = "pos + length (enc (BBytes k))"
  let ?r = "?q + length (enc v)"
  obtain b where pk: "peek data pos = Inr b" "b \<noteq> 0x65" using peek_enc [OF d1] by blast
  obtain c cs where c: "dec_nat (length k) = c # cs" "is_ascii_digit c" by (rule dec_nat_Cons)
  with d1 have "peek data pos = Inr c" by (simp add: peek_drop)
  with c decode_bytes_enc [OF d1 L]
  have kk: "decode_value f data d pos = Some (Inr (BBytes k, ?q))"
    by (auto simp: g try_bind_def is_ascii_digit_def)
  have d2: "drop ?q data = enc v @ ence m @ 0x65 # rest" by (rule drop_append_enc [OF d1])
  have v: "decode_value f data d ?q = Some (Inr (v, ?r))"
  proof (rule "8.IH"(1) [OF d2])
    show "2 * (length data - ?q) + 1 \<le> f"
      using "8.prems"(5) f decode_bounds(1) [OF kk] by linarith
  qed (use "8.prems" in simp)
  have ins: "bt_insert k v bcc = bcc @ [(k, v)]"
    by (rule bt_insert_last)
      (use "8.prems"(3) in \<open>auto simp: bt_wf_def sorted_wrt_append\<close>)
  have fl: "2 * (length data - ?r) + 2 \<le> f"
    using "8.prems"(5) f decode_bounds(1) [OF kk] decode_bounds(1) [OF v] by linarith
  have "decode_entries f data d ?r (bcc @ [(k, v)]) =
      Some (Inr (BDict ((bcc @ [(k, v)]) @ m), ?r + length (ence m) + 1))"
    by (rule "8.IH"(2) [OF drop_append_enc [OF d2]])
      (use "8.prems" fl in auto)
  with pk kk v ins "8.prems" show ?case
    by (simp add: f try_bind_def as_bytes_def add_ac)
qed

lemma decode_with_range_encode:
  assumes "bv_ok 0 v" and "length (encode v @ rest) < usize_bound"
  shows "decode_with_range (encode v @ rest) = Some (Inr (v, length (encode v)))"
  using decode_enc(1) [of "encode v @ rest" 0 v rest 0 "decode_fuel (encode v @ rest)"] assms
  by (simp add: decode_with_range_def decode_fuel_def encode_enc)

section \<open>Canonical encodings are no longer than what was read\<close>

lemma parse_digits_bound:
  "parse_digits acc ds = Some n \<Longrightarrow> n < (acc + 1) * 10 ^ length ds"
proof (induction acc ds rule: parse_digits.induct)
  case (2 acc b bs)
  then have b: "is_ascii_digit b" and n: "n < (acc * 10 + (unat b - 48) + 1) * 10 ^ length bs"
    by (auto split: if_splits)
  have "acc * 10 + (unat b - 48) + 1 \<le> (acc + 1) * 10"
    using b is_ascii_digit_unat [of b] by arith
  then have "(acc * 10 + (unat b - 48) + 1) * 10 ^ length bs \<le> (acc + 1) * 10 * 10 ^ length bs"
    by (rule mult_le_mono1)
  with n have "n < (acc + 1) * 10 * 10 ^ length bs" by (rule less_le_trans)
  then show ?case by (simp add: algebra_simps)
qed simp

lemma length_dec_nat_le: "n < 10 ^ k \<Longrightarrow> 0 < k \<Longrightarrow> length (dec_nat n) \<le> k"
proof (induction n arbitrary: k rule: dec_nat.induct)
  case (1 n)
  show ?case
  proof (cases "n < 10")
    case True
    with 1 show ?thesis by (subst dec_nat.simps) simp
  next
    case False
    with 1 obtain j where j: "k = Suc j" "0 < j"
      by (metis One_nat_def not_gr_zero old.nat.exhaust power_0 power_one_right power_Suc0_right)
    with "1.prems" have "n div 10 < 10 ^ j" by (simp add: less_mult_imp_div_less mult.commute)
    from "1.IH" [OF False this] j False show ?thesis by (subst dec_nat.simps) simp
  qed
qed

lemma length_dec_nat_parse:
  "parse_digits 0 ds = Some n \<Longrightarrow> ds \<noteq> [] \<Longrightarrow> length (dec_nat n) \<le> length ds"
  using parse_digits_bound [of 0 ds n] by (auto intro: length_dec_nat_le)

lemma length_dec_int_parse: "parse_signed s = Some n \<Longrightarrow> length (dec_int n) \<le> length s"
  by (induction s rule: parse_signed.induct)
    (auto simp: dec_int_def simp del: parse_digits.simps split: if_splits
      dest!: length_dec_nat_parse)

lemma sint_word_of_int_i64:
  "- (2 ^ 63) \<le> n \<Longrightarrow> n < 2 ^ 63 \<Longrightarrow> sint (word_of_int n :: u64) = n"
  by (simp add: sint_sbintrunc' signed_take_bit_int_eq_self)

lemma length_dec_int_i64:
  "parse_i64 s = Some w \<Longrightarrow> length (dec_int (sint w)) \<le> length s"
  by (auto simp: parse_i64_def sint_word_of_int_i64 split: option.splits if_splits
      intro: length_dec_int_parse)

lemma decode_int_shrinks:
  "decode_int data pos = Inr (v, p) \<Longrightarrow> pos + length (enc v) \<le> p"
  unfolding decode_int_def
  by (auto simp: Let_def split: sum.splits option.splits if_splits
      dest!: expect_Inr length_dec_int_i64)

lemma decode_len_digits_le:
  "decode_len data start pos len = Inr (l, p) \<Longrightarrow>
     \<exists>k. p = pos + k + 1 \<and> l < (len + 1) * 10 ^ k \<and> (data ! pos \<noteq> 0x3A \<longrightarrow> 0 < k)"
proof (induction data start pos len rule: decode_len.induct)
  case (1 data start pos len)
  note IH = "1.IH" and eq = "1.prems"
  show ?case
  proof (cases "data ! pos = 0x3A")
    case True
    with eq show ?thesis
      by (subst (asm) decode_len.simps) (auto simp: Let_def split: if_splits)
  next
    case False
    define b where "b = data ! pos"
    from eq False obtain m where m: "decode_len data start (pos + 1) m = Inr (l, p)"
      "m = len * 10 + (unat b - 48)" "is_ascii_digit b" "pos < length data"
      "Option.bind (checked_usize (len * 10)) (\<lambda>l. checked_usize (l + (unat b - 48))) = Some m"
      by (subst (asm) decode_len.simps)
        (auto simp: Let_def b_def checked_usize_def bind_eq_Some_conv split: if_splits option.splits)
    from IH [OF m(4) b_def] False m obtain k where
      k: "p = pos + 1 + k + 1" "l < (m + 1) * 10 ^ k" by (auto simp: b_def)
    have "m + 1 \<le> (len + 1) * 10"
      using m(2,3) is_ascii_digit_unat [of b] by arith
    then have "(m + 1) * 10 ^ k \<le> (len + 1) * 10 * 10 ^ k" by (rule mult_le_mono1)
    with k(2) have "l < (len + 1) * 10 * 10 ^ k" by (rule less_le_trans)
    with k(1) show ?thesis by (intro exI [of _ "Suc k"]) (simp add: algebra_simps)
  qed
qed

lemma decode_bytes_shrinks:
  assumes "decode_bytes data pos = Inr (v, p)" and "is_ascii_digit (data ! pos)"
  shows "pos + length (enc v) \<le> p"
proof -
  from assms(1) obtain l q where l: "decode_len data pos pos 0 = Inr (l, q)" "p = q + l"
    "v = BBytes (take l (drop q data))" "p \<le> length data"
    by (auto simp: decode_bytes_def checked_usize_def split: sum.splits option.splits if_splits)
  from decode_len_digits_le [OF l(1)] assms(2) obtain k where
    "q = pos + k + 1" "l < 10 ^ k" "0 < k"
    by (auto dest: digit_not_sign)
  with l length_dec_nat_le [of l k] show ?thesis by simp
qed

lemma length_ence_insert: "length (ence (bt_insert k v m)) \<le> length (ence ((k, v) # m))"
  by (induction k v m rule: bt_insert.induct) auto

lemma decode_shrinks:
  "decode_value fuel data d pos = Some (Inr (v, p)) \<Longrightarrow> pos + length (enc v) \<le> p"
  "decode_items fuel data d pos items = Some (Inr (v, p)) \<Longrightarrow>
     pos + length (enc v) \<le> p + length (encs items) + 1"
  "decode_entries fuel data d pos m = Some (Inr (v, p)) \<Longrightarrow>
     pos + length (enc v) \<le> p + length (ence m) + 1"
proof (induction fuel arbitrary: d pos items m v p)
  case (Suc fuel)
  { case 1
    then show ?case
      by (cases rule: decode_value_InrE)
        (auto dest: decode_int_shrinks decode_bytes_shrinks dest!: Suc.IH(2,3))
  next
    case 2
    then show ?case
    proof (cases rule: decode_items_InrE)
      case (item f x q)
      have "encs (items @ [x]) = encs items @ enc x" by (induction items) auto
      with item Suc.IH(1) [of d pos x q] Suc.IH(2) [of d q "items @ [x]" v p] show ?thesis by simp
    qed simp
  next
    case 3
    then show ?case
    proof (cases rule: decode_entries_InrE)
      case (entry f key x q r)
      with Suc.IH(1) [of d pos "BBytes key" q] Suc.IH(1) [of d q x r]
        Suc.IH(3) [of d r "bt_insert key x m" v p] length_ence_insert [of key x m]
      show ?thesis by simp
    qed simp
  }
qed simp_all

section \<open>Dictionaries that are not canonical\<close>

text \<open>
  The decoder does not ask for sorted or distinct keys: entries in any order are inserted one
  after the other, so a later binding of a key replaces an earlier one.
\<close>

definition insert_all :: "(bytes \<times> bvalue) list \<Rightarrow> (bytes \<times> bvalue) list \<Rightarrow> (bytes \<times> bvalue) list" where
  "insert_all m acc = fold (\<lambda>(k, v). bt_insert k v) m acc"

lemma decode_entries_any:
  assumes L: "length data < usize_bound"
  shows "drop pos data = ence m @ 0x65 # rest \<Longrightarrow> entries_ok d m \<Longrightarrow>
      length bcc + length m \<le> MAX_ELEMENTS \<Longrightarrow> 2 * (length data - pos) + 2 \<le> fuel \<Longrightarrow>
      decode_entries fuel data d pos bcc =
        Some (Inr (BDict (insert_all m bcc), pos + length (ence m) + 1))"
proof (induction m arbitrary: fuel pos bcc)
  case Nil
  then obtain f where f: "fuel = Suc f" by (cases fuel) auto
  from Nil have "peek data pos = Inr 0x65" by (simp add: peek_drop)
  then show ?case by (simp add: f try_bind_def insert_all_def)
next
  case (Cons kv m)
  obtain k v where kv: "kv = (k, v)" by (cases kv)
  obtain f where f: "fuel = Suc f" using Cons.prems(4) by (cases fuel) auto
  have d1: "drop pos data = enc (BBytes k) @ enc v @ ence m @ 0x65 # rest"
    using Cons.prems(1) by (simp add: kv)
  let ?q = "pos + length (enc (BBytes k))"
  let ?r = "?q + length (enc v)"
  obtain b where pk: "peek data pos = Inr b" "b \<noteq> 0x65" using peek_enc [OF d1] by blast
  have kk: "decode_value f data d pos = Some (Inr (BBytes k, ?q))"
    using decode_enc(1) [OF L d1, of d f] Cons.prems(2,4) by (simp add: f kv)
  have d2: "drop ?q data = enc v @ ence m @ 0x65 # rest" by (rule drop_append_enc [OF d1])
  have v: "decode_value f data d ?q = Some (Inr (v, ?r))"
    using decode_bounds(1) [OF kk] Cons.prems(2,4)
    by (intro decode_enc(1) [OF L d2]) (auto simp: f kv)
  have fl: "2 * (length data - ?r) + 2 \<le> f"
    using Cons.prems(4) f decode_bounds(1) [OF kk] decode_bounds(1) [OF v] by linarith
  have "decode_entries f data d ?r (bt_insert k v bcc) =
      Some (Inr (BDict (insert_all m (bt_insert k v bcc)), ?r + length (ence m) + 1))"
    using Cons.prems(2,3) length_bt_insert [of k v bcc]
    by (intro Cons.IH [OF drop_append_enc [OF d2] _ _ fl]) (auto simp: kv)
  with pk kk v Cons.prems(3) show ?case
    by (simp add: f kv try_bind_def as_bytes_def add_ac insert_all_def)
qed

section \<open>The decoder without its fuel\<close>

text \<open>
  The fuel never runs out, so the components that read bencode use the results themselves:
  \<open>bdecode\<close> is the value \<open>bencode::decode\<close> returns, \<open>bdecode_range\<close> what \<open>Decoder::decode\<close>
  returns, the value with the position after it.
\<close>

definition bdecode_range :: "bytes \<Rightarrow> decode_error + (bvalue \<times> nat)" where
  "bdecode_range data = the (decode_with_range data)"

definition bdecode :: "bytes \<Rightarrow> decode_error + bvalue" where
  "bdecode data = the (decode data)"

lemma decode_bdecode: "decode data = Some (bdecode data)"
  using decode_with_range_total [of data]
  by (auto simp: bdecode_def decode_def)

lemma bdecode_range_encode:
  "bv_ok 0 v \<Longrightarrow> length (encode v @ rest) < usize_bound \<Longrightarrow>
     bdecode_range (encode v @ rest) = Inr (v, length (encode v))"
  by (simp add: bdecode_range_def decode_with_range_encode)

lemma bdecode_encode:
  "bv_ok 0 v \<Longrightarrow> length (encode v) < usize_bound \<Longrightarrow> bdecode (encode v) = Inr v"
  using decode_with_range_encode [of v "[]"]
  by (simp add: bdecode_def decode_def)

lemma bdecode_any_dict:
  assumes "entries_ok 1 m" and "length m \<le> MAX_ELEMENTS"
    and "length (ence m) + 2 < usize_bound"
  shows "bdecode (0x64 # ence m @ [0x65]) = Inr (BDict (insert_all m []))"
proof -
  let ?data = "0x64 # ence m @ [0x65]"
  obtain f where f: "decode_fuel ?data = Suc f" "2 * (length ?data - 1) + 2 \<le> f"
    by (simp add: decode_fuel_def)
  have "decode_entries f ?data 1 1 [] = Some (Inr (BDict (insert_all m []), 1 + length (ence m) + 1))"
    by (rule decode_entries_any) (use assms f(2) in auto)
  then have "decode_with_range ?data = Some (Inr (BDict (insert_all m []), length (ence m) + 2))"
    using f(1) by (simp add: decode_with_range_def peek_def try_bind_def MAX_DEPTH_def)
  then show ?thesis by (simp add: bdecode_def decode_def)
qed

lemma bdecode_range_ok:
  "bdecode_range data = Inr (v, p) \<Longrightarrow> bv_ok 0 v \<and> 0 < p \<and> p \<le> length data"
proof -
  assume "bdecode_range data = Inr (v, p)"
  then have "decode_value (decode_fuel data) data 0 0 = Some (Inr (v, p))"
    using decode_with_range_total [of data]
    by (auto simp: bdecode_range_def decode_with_range_def)
  from decode_bounds(1) [OF this] decode_ok(1) [OF this] show ?thesis by simp
qed

lemma bdecode_ok: "bdecode data = Inr v \<Longrightarrow> bv_ok 0 v"
  using bdecode_range_ok [of data v] decode_with_range_total [of data]
  by (cases "bdecode_range data") (auto simp: bdecode_def decode_def bdecode_range_def)

lemma bv_ok_dict: "bv_ok d (BDict m) \<Longrightarrow> bt_wf m"
  by simp

section \<open>Properties\<close>

text \<open>
  C5. Decoding inverts encoding: any value within the decoder's limits is read back from its
  encoding, followed by any bytes, and the reported end is the end of the encoding.
\<close>

theorem decode_encode:
  assumes "bv_ok 0 v" and "length (encode v @ rest) < usize_bound"
  shows "decode_with_range (encode v @ rest) = Some (Inr (v, length (encode v)))"
  using assms by (rule decode_with_range_encode)

theorem decode_encode_witness:
  "decode_with_range (encode (BDict [(ascii ''a'', BInt 7)]) @ [1, 2]) =
     Some (Inr (BDict [(ascii ''a'', BInt 7)], length (encode (BDict [(ascii ''a'', BInt 7)]))))"
  by (rule decode_encode)
    (simp_all add: encode_enc ascii_def usize_bound_def MAX_DEPTH_def MAX_ELEMENTS_def bt_wf_Cons
      dec_int_def dec_nat.simps)

text \<open>
  C11. The decoder returns on every input, and what it accepts is within its limits
  (dictionaries strictly sorted, at most 64 containers deep) and lies inside the input.
\<close>

theorem decode_sound:
  "\<exists>r. decode_with_range data = Some r \<and>
     (case r of Inl e \<Rightarrow> True | Inr (v, p) \<Rightarrow> 0 < p \<and> p \<le> length data \<and> bv_ok 0 v)"
proof -
  obtain r where r: "decode_with_range data = Some r"
    using decode_with_range_total by blast
  show ?thesis
  proof (cases r)
    case (Inr a)
    obtain v p where "a = (v, p)" by (cases a)
    with r Inr have "decode_value (decode_fuel data) data 0 0 = Some (Inr (v, p))"
      by (simp add: decode_with_range_def)
    from decode_bounds(1) [OF this] decode_ok(1) [OF this] r Inr \<open>a = (v, p)\<close>
    show ?thesis by simp
  qed (use r in simp)
qed

text \<open>
  C14. Re-encoding an accepted input normalises it: the canonical bytes are no longer than
  what was read and decode to the same value.
\<close>

theorem decode_normalises:
  assumes "decode_with_range data = Some (Inr (v, p))" and "length data < usize_bound"
  shows "length (encode v) \<le> p \<and> decode (encode v) = Some (Inr v)"
proof -
  from assms(1) have d: "decode_value (decode_fuel data) data 0 0 = Some (Inr (v, p))"
    by (simp add: decode_with_range_def)
  have le: "length (encode v) \<le> p" using decode_shrinks(1) [OF d] by (simp add: encode_enc)
  moreover have "decode (encode v) = Some (Inr v)"
    using decode_with_range_encode [of v "[]"] decode_ok(1) [OF d] decode_bounds(1) [OF d] le
      assms(2)
    by (simp add: decode_def)
  ultimately show ?thesis by simp
qed

text \<open>The integer \<open>i+5e\<close> is accepted with its plus sign, and normalises to \<open>i5e\<close>.\<close>

lemma decode_plus_five: "decode_with_range (ascii ''i+5e'') = Some (Inr (BInt 5, 4))"
  by code_simp

theorem decode_normalises_witness:
  "length (encode (BInt 5)) \<le> 4 \<and> decode (encode (BInt 5)) = Some (Inr (BInt 5))"
  by (rule decode_normalises [OF decode_plus_five]) (simp add: ascii_def usize_bound_def)

text \<open>The integer syntax is laxer than the checks for leading zeros and negative zero
  suggest: a plus sign is accepted, and behind it a leading zero, so two different inputs
  decode to one value.
\<close>

theorem decode_accepts_plus_sign:
  "decode (ascii ''i+05e'') = Some (Inr (BInt 5)) \<and> decode (ascii ''i05e'') = Some (Inl (LeadingZero 1))"
  by code_simp

end
