(* ===== verification/Net.thy ===== *)
theory Net
  imports Prelude
begin

text \<open>
  Socket addresses (\<open>std::net\<close>) and the compact peer format of BEP 5, 11 and 23 that the DHT,
  the trackers and peer exchange share: six bytes for an IPv4 peer, eighteen for IPv6.
\<close>

datatype ip_addr = IPv4 u8 u8 u8 u8 | IPv6 "u16 list"

type_synonym sock_addr = "ip_addr \<times> u16"

definition v4_sock :: "sock_addr \<Rightarrow> bool" where
  "v4_sock a = (case fst a of IPv4 _ _ _ _ \<Rightarrow> True | IPv6 _ \<Rightarrow> False)"

text \<open>\<open>Ipv4Addr::new(c[0], ..)\<close> with the port from the last two bytes of a six-byte chunk.\<close>

definition sock4_of_bytes :: "bytes \<Rightarrow> sock_addr" where
  "sock4_of_bytes c = (IPv4 (c ! 0) (c ! 1) (c ! 2) (c ! 3), of_be16 (c ! 4) (c ! 5))"

fun sock4_to_bytes :: "sock_addr \<Rightarrow> bytes" where
  "sock4_to_bytes (IPv4 a b c d, p) = [a, b, c, d] @ be16 p"
| "sock4_to_bytes (IPv6 _, p) = []"

definition sock6_of_bytes :: "bytes \<Rightarrow> sock_addr" where
  "sock6_of_bytes c = (IPv6 (map (\<lambda>i. of_be16 (c ! (2 * i)) (c ! (2 * i + 1))) [0..<8]),
     of_be16 (c ! 16) (c ! 17))"

lemma length_6: "length bs = 6 \<Longrightarrow> \<exists>a b c d e f. bs = [a, b, c, d, e, f]"
  by (auto simp: numeral_eq_Suc length_Suc_conv)

text \<open>The six-byte form is a fixed-width codec of the IPv4 addresses.\<close>

interpretation compact4: fixed_codec sock4_to_bytes sock4_of_bytes 6 v4_sock
proof unfold_locales
  fix x assume "v4_sock x"
  then obtain a b c d p where x: "x = (IPv4 a b c d, p)"
    by (cases x; cases "fst x") (auto simp: v4_sock_def)
  show "length (sock4_to_bytes x) = 6" and "sock4_of_bytes (sock4_to_bytes x) = x"
    by (simp_all add: x sock4_of_bytes_def be16_def)
next
  fix bs :: bytes assume "length bs = 6"
  then obtain a b c d e f where "bs = [a, b, c, d, e, f]" using length_6 by blast
  then show "sock4_to_bytes (sock4_of_bytes bs) = bs"
    by (simp add: sock4_of_bytes_def be16_of_be16)
qed simp

end
