(* ===== verification/Extension.thy ===== *)
theory Extension
  imports Bencode_Correct Net
begin

text \<open>
  The extension protocol (\<open>src/src/peer/extension.rs\<close>): the BEP 10 handshake, the BEP 9
  metadata messages with their trailing data, and the BEP 11 peer exchange.
\<close>

section \<open>Extended handshake\<close>

datatype extension_error = DecodeErr decode_error | InvalidFormat | UnknownMessageType u64

record ext_handshake =
  eh_m :: "(bytes \<times> u8) list"
  eh_v :: "bytes option"
  eh_p :: "u16 option"
  eh_metadata_size :: "u64 option"
  eh_reqq :: "u64 option"

definition ours :: "u64 option \<Rightarrow> bool \<Rightarrow> ext_handshake" where
  "ours msize lightspeed =
     \<lparr>eh_m = (let m = hm_insert (ascii ''ut_metadata'') 1 [] in
               if lightspeed then hm_insert (ascii ''ut_pex'') 2 m else m),
      eh_v = Some (ascii ''MovieHouse/1.0''), eh_p = None, eh_metadata_size = msize,
      eh_reqq = Some 250\<rparr>"

text \<open>An optional field of the dictionary under construction.\<close>

definition insert_some :: "bytes \<Rightarrow> bvalue option \<Rightarrow> (bytes \<times> bvalue) list \<Rightarrow> (bytes \<times> bvalue) list"
where
  "insert_some key v dict = (case v of None \<Rightarrow> dict | Some x \<Rightarrow> bt_insert key x dict)"

definition m_to_dict :: "(bytes \<times> u8) list \<Rightarrow> (bytes \<times> bvalue) list" where
  "m_to_dict m = fold (\<lambda>(name, i). bt_insert name (BInt (ucast i))) m []"

definition ext_to_dict :: "ext_handshake \<Rightarrow> (bytes \<times> bvalue) list" where
  "ext_to_dict h =
     insert_some (ascii ''reqq'') (map_option BInt (eh_reqq h))
      (insert_some (ascii ''metadata_size'') (map_option BInt (eh_metadata_size h))
       (insert_some (ascii ''p'') (map_option (\<lambda>p. BInt (ucast p)) (eh_p h))
        (insert_some (ascii ''v'') (map_option BBytes (eh_v h))
         (bt_insert (ascii ''m'') (BDict (m_to_dict (eh_m h))) []))))"

definition ext_to_bencode :: "ext_handshake \<Rightarrow> bytes" where
  "ext_to_bencode h = encode (BDict (ext_to_dict h))"

text \<open>An entry of the received \<open>m\<close> dictionary: a UTF-8 name and an identifier in 1..255.\<close>

definition m_entry :: "bytes \<Rightarrow> bvalue \<Rightarrow> u8 option" where
  "m_entry key v =
     (if utf8_valid key then (case as_int v of
          Some i \<Rightarrow> if 0 < sint i \<and> sint i \<le> 255 then Some (ucast i) else None
        | None \<Rightarrow> None)
      else None)"

definition ext_of_value :: "bvalue \<Rightarrow> ext_handshake" where
  "ext_of_value val =
     \<lparr>eh_m = (case Option.bind (get_str val ''m'') as_dict of
                None \<Rightarrow> [] | Some m_dict \<Rightarrow> hm_collect m_entry m_dict []),
      eh_v = Option.bind (get_str val ''v'') as_str,
      eh_p = (case Option.bind (get_str val ''p'') as_int of
                Some n \<Rightarrow> if 0 < sint n \<and> sint n \<le> 65535 then Some (ucast n) else None
              | None \<Rightarrow> None),
      eh_metadata_size = Option.bind (get_str val ''metadata_size'') as_int,
      eh_reqq = Option.bind (get_str val ''reqq'') as_int\<rparr>"

definition ext_from_bencode :: "bytes \<Rightarrow> extension_error + ext_handshake" where
  "ext_from_bencode data = (case bdecode data of
       Inl e \<Rightarrow> Inl (DecodeErr e)
     | Inr val \<Rightarrow> (case as_dict val of None \<Rightarrow> Inl InvalidFormat | Some _ \<Rightarrow> Inr (ext_of_value val)))"

definition extension_id :: "ext_handshake \<Rightarrow> bytes \<Rightarrow> u8 option" where
  "extension_id h name = map_of (eh_m h) name"

text \<open>
  What a sender may put in a handshake for the receiver to read it back: message identifiers
  and the port are not zero (zero means absent), the texts are UTF-8, the sizes are those of
  real buffers.
\<close>

definition ext_ok :: "ext_handshake \<Rightarrow> bool" where
  "ext_ok h \<longleftrightarrow> hm_wf (eh_m h) \<and> length (eh_m h) \<le> MAX_ELEMENTS
     \<and> list_all (\<lambda>(k, i). utf8_valid k \<and> length k < usize_bound \<and> i \<noteq> 0) (eh_m h)
     \<and> (case eh_v h of None \<Rightarrow> True | Some v \<Rightarrow> utf8_valid v \<and> length v < usize_bound)
     \<and> eh_p h \<noteq> Some 0"

lemma ascii_eq: "ascii s = ascii t \<longleftrightarrow> map (of_char :: char \<Rightarrow> u8) s = map of_char t"
  by (simp add: ascii_def)

lemma map_of_insert_some:
  "map_of (insert_some key v dict) = (map_of dict)(key := case v of None \<Rightarrow> map_of dict key | Some x \<Rightarrow> Some x)"
  by (auto simp: insert_some_def fun_eq_iff split: option.splits)

lemma insert_some_wf: "bt_wf dict \<Longrightarrow> bt_wf (insert_some key v dict)"
  by (simp add: insert_some_def split: option.splits)

lemma insert_some_entries:
  "entries_ok d dict \<Longrightarrow> length key < usize_bound \<Longrightarrow> (\<And>x. v = Some x \<Longrightarrow> bv_ok d x) \<Longrightarrow>
     entries_ok d (insert_some key v dict)"
  by (auto simp: insert_some_def entries_ok_insert split: option.splits)

lemma length_insert_some:
  "length dict \<le> n \<Longrightarrow> length (insert_some key v dict) \<le> Suc n"
  using length_bt_insert [of key _ dict]
  by (auto simp: insert_some_def intro: order_trans split: option.splits)

lemma m_to_dict_fold:
  "m_to_dict m = fold (\<lambda>(k, v). bt_insert k v) (map (map_prod id (\<lambda>i. BInt (ucast i))) m) []"
  by (simp add: m_to_dict_def fold_map comp_def case_prod_unfold)

lemma m_to_dict_wf: "bt_wf (m_to_dict m)"
  by (simp add: m_to_dict_fold bt.wf_fold_insert)

lemma map_of_m_to_dict:
  "hm_wf m \<Longrightarrow> map_of (m_to_dict m) k = map_option (\<lambda>i. BInt (ucast i)) (map_of m k)"
proof -
  assume "hm_wf m"
  then have "map_of (m_to_dict m) k = map_of (map (map_prod id (\<lambda>i. BInt (ucast i))) m) k"
    unfolding m_to_dict_fold hm_wf_def by (intro bt.get_built_distinct) simp
  also have "\<dots> = map_option (\<lambda>i. BInt (ucast i)) (map_of m k)"
    by (induction m) auto
  finally show ?thesis .
qed

lemma m_to_dict_entries:
  assumes "\<forall>(k, i) \<in> set m. length k < usize_bound"
  shows "entries_ok d (m_to_dict m)" and "length (m_to_dict m) \<le> length m"
proof -
  have "entries_ok d acc \<Longrightarrow> entries_ok d (fold (\<lambda>(n, i). bt_insert n (BInt (ucast i))) m acc)"
    and "length (fold (\<lambda>(n, i). bt_insert n (BInt (ucast i))) m acc) \<le> length acc + length m"
    for acc
    using assms
  proof (induction m arbitrary: acc)
    case (Cons x m)
    obtain k i where x: "x = (k, i)" by (cases x)
    { case 1
      with x Cons.IH(1) show ?case by (auto simp: entries_ok_insert)
    next
      case 2
      with x Cons.IH(2) [of "bt_insert k (BInt (ucast i)) acc"]
        length_bt_insert [of k "BInt (ucast i)" acc]
      show ?case by auto
    }
  qed simp_all
  from this(1) [of "[]"] this(2) [of "[]"]
  show "entries_ok d (m_to_dict m)" and "length (m_to_dict m) \<le> length m"
    by (simp_all add: m_to_dict_def)
qed

lemma ext_to_dict_ok:
  assumes "ext_ok h"
  shows "bv_ok 0 (BDict (ext_to_dict h))"
proof -
  have keys: "length (ascii s) < usize_bound" if "length s < 20" for s
    using that by (simp add: ascii_def usize_bound_def)
  have m: "bv_ok 1 (BDict (m_to_dict (eh_m h)))"
    using assms m_to_dict_entries(1) [of "eh_m h" 2] m_to_dict_entries(2) [of "eh_m h"]
      m_to_dict_wf [of "eh_m h"]
    by (fastforce simp: ext_ok_def MAX_DEPTH_def list_all_iff numeral_2_eq_2)
  have "entries_ok 1 (ext_to_dict h)"
    unfolding ext_to_dict_def
    using assms m by (auto intro!: insert_some_entries entries_ok_insert keys
        simp: ext_ok_def split: option.splits)
  moreover have "bt_wf (ext_to_dict h)"
    unfolding ext_to_dict_def by (intro insert_some_wf bt_insert_wf bt_wf_Nil)
  moreover have "length (ext_to_dict h) \<le> Suc (Suc (Suc (Suc 1)))"
    unfolding ext_to_dict_def by (intro length_insert_some) simp
  ultimately show ?thesis by (simp add: MAX_DEPTH_def MAX_ELEMENTS_def)
qed

lemma ext_m_read_back:
  assumes "ext_ok h"
  shows "map_of (hm_collect m_entry (m_to_dict (eh_m h)) []) = map_of (eh_m h)"
proof
  fix k
  have "m_entry k (BInt (ucast i)) = Some i" if "map_of (eh_m h) k = Some i" for i
  proof -
    have "(k, i) \<in> set (eh_m h)" using that by (rule map_of_SomeD)
    then have "utf8_valid k" and "i \<noteq> 0" using assms by (auto simp: ext_ok_def list_all_iff)
    moreover have "0 < uint i" and "uint i \<le> 255"
      using \<open>i \<noteq> 0\<close> uint_bounded [of i] by (auto simp: uint_pos)
    ultimately show ?thesis by (simp add: m_entry_def )
  qed
  moreover have "distinct (map fst (m_to_dict (eh_m h)))"
    by (rule bt_wf_distinct [OF m_to_dict_wf])
  ultimately show "map_of (hm_collect m_entry (m_to_dict (eh_m h)) []) k = map_of (eh_m h) k"
    using assms
    by (cases "map_of (eh_m h) k") (simp_all add: map_of_hm_collect map_of_m_to_dict ext_ok_def)
qed

section \<open>Metadata messages\<close>

datatype metadata_message = MetaRequest u32 | MetaData u32 u64 bytes | MetaReject u32

definition meta_dict :: "u64 \<Rightarrow> u32 \<Rightarrow> (bytes \<times> bvalue) list" where
  "meta_dict msg_type piece =
     bt_insert (ascii ''piece'') (BInt (ucast piece)) (bt_insert (ascii ''msg_type'') (BInt msg_type) [])"

fun meta_to_bytes :: "metadata_message \<Rightarrow> bytes" where
  "meta_to_bytes (MetaRequest piece) = encode (BDict (meta_dict 0 piece))"
| "meta_to_bytes (MetaData piece total_size data) =
     encode (BDict (bt_insert (ascii ''total_size'') (BInt total_size) (meta_dict 1 piece))) @ data"
| "meta_to_bytes (MetaReject piece) = encode (BDict (meta_dict 2 piece))"

definition meta_from_bytes :: "bytes \<Rightarrow> extension_error + metadata_message" where
  "meta_from_bytes payload = (case bdecode_range payload of
       Inl e \<Rightarrow> Inl (DecodeErr e)
     | Inr (val, consumed) \<Rightarrow>
         (case Option.bind (get_str val ''msg_type'') as_int of
            None \<Rightarrow> Inl InvalidFormat
          | Some msg_type \<Rightarrow>
              (case Option.bind (get_str val ''piece'') as_int of
                 None \<Rightarrow> Inl InvalidFormat
               | Some n \<Rightarrow>
                   (let piece = (ucast n :: u32) in
                    if msg_type = 0 then Inr (MetaRequest piece)
                    else if msg_type = 1 then
                      (case Option.bind (get_str val ''total_size'') as_int of
                         None \<Rightarrow> Inl InvalidFormat
                       | Some total_size \<Rightarrow>
                           Inr (MetaData piece total_size (drop consumed payload)))
                    else if msg_type = 2 then Inr (MetaReject piece)
                    else Inl (UnknownMessageType msg_type)))))"

lemma meta_dict_get:
  "map_of (meta_dict t p) (ascii ''msg_type'') = Some (BInt t)"
  "map_of (meta_dict t p) (ascii ''piece'') = Some (BInt (ucast p))"
  "ascii ''msg_type'' \<noteq> ascii ''total_size''" "ascii ''piece'' \<noteq> ascii ''total_size''"
  by (simp_all add: meta_dict_def ascii_def)

lemma meta_dict_ok:
  "bv_ok 0 (BDict (meta_dict t p))"
  "bv_ok 0 (BDict (bt_insert (ascii ''total_size'') (BInt n) (meta_dict t p)))"
  by (simp_all add: meta_dict_def ascii_def bt_wf_Cons MAX_DEPTH_def MAX_ELEMENTS_def usize_bound_def)

section \<open>Peer exchange\<close>

definition pex_from_bencode :: "bytes \<Rightarrow> extension_error + sock_addr list" where
  "pex_from_bencode data = (case bdecode data of
       Inl e \<Rightarrow> Inl (DecodeErr e)
     | Inr val \<Rightarrow> Inr (case Option.bind (get_str val ''added'') as_bytes of
           None \<Rightarrow> []
         | Some raw \<Rightarrow> map sock4_of_bytes (chunks_exact 6 raw)))"

lemma pex_round_trip:
  assumes "list_all v4_sock peers" and "length tail < 6"
    and "length (encode (BDict [(ascii ''added'', BBytes (concat (map sock4_to_bytes peers) @ tail))]))
      < usize_bound" (is "length (encode ?v) < _")
    and "6 * length peers + length tail < usize_bound"
  shows "pex_from_bencode (encode ?v) = Inr peers"
proof -
  have "bv_ok 0 ?v"
    using assms(4) compact4.length_encs [OF assms(1)]
    by (simp add: MAX_DEPTH_def MAX_ELEMENTS_def ascii_def usize_bound_def bt_wf_Cons)
  then show ?thesis
    using assms compact4.chunks_enc [OF assms(1,2)]
    by (simp add: pex_from_bencode_def bdecode_encode bvalue_accessors)
qed

section \<open>Properties\<close>

text \<open>A handshake survives the wire: the peer reads back the extension table (as a map; the
  iteration order of the table is unspecified), the version, the port and both sizes.\<close>

theorem ext_handshake_round_trip:
  assumes "ext_ok h" and "length (ext_to_bencode h) < usize_bound"
  shows "\<exists>h'. ext_from_bencode (ext_to_bencode h) = Inr h'
     \<and> extension_id h' = extension_id h \<and> eh_v h' = eh_v h \<and> eh_p h' = eh_p h
     \<and> eh_metadata_size h' = eh_metadata_size h \<and> eh_reqq h' = eh_reqq h"
proof -
  let ?h = "ext_of_value (BDict (ext_to_dict h))"
  have keys: "distinct [ascii ''m'', ascii ''v'', ascii ''p'', ascii ''metadata_size'', ascii ''reqq'']"
    by (simp add: ascii_def)
  have p: "uint x \<le> 65535" for x :: u16
    using uint_bounded [of x] by simp
  have "ext_from_bencode (ext_to_bencode h) = Inr ?h"
    using bdecode_encode [OF ext_to_dict_ok [OF assms(1)]] assms(2)
    by (simp add: ext_from_bencode_def ext_to_bencode_def)
  moreover have "extension_id ?h = extension_id h"
    using keys ext_m_read_back [OF assms(1)]
    by (auto simp: extension_id_def ext_of_value_def ext_to_dict_def map_of_insert_some fun_eq_iff)
  moreover have "eh_v ?h = eh_v h"
    using keys assms(1)
    by (auto simp: ext_of_value_def ext_to_dict_def map_of_insert_some ext_ok_def
        split: option.splits)
  moreover have "eh_p ?h = eh_p h"
    using keys assms(1) p
    by (auto simp: uint_pos ext_of_value_def ext_to_dict_def map_of_insert_some ext_ok_def
        split: option.splits)
  moreover have "eh_metadata_size ?h = eh_metadata_size h \<and> eh_reqq ?h = eh_reqq h"
    using keys
    by (auto simp: ext_of_value_def ext_to_dict_def map_of_insert_some split: option.splits)
  ultimately show ?thesis by blast
qed

theorem ext_handshake_round_trip_witness:
  "\<exists>h'. ext_from_bencode (ext_to_bencode (ours (Some 40) True)) = Inr h'
     \<and> extension_id h' = extension_id (ours (Some 40) True)
     \<and> eh_metadata_size h' = eh_metadata_size (ours (Some 40) True)"
proof -
  have "ext_ok (ours (Some 40) True)"
    by (simp add: ours_def ext_ok_def hm_wf_def ascii_def utf8_width_def usize_bound_def
        MAX_ELEMENTS_def)
  moreover have "length (ext_to_bencode (ours (Some 40) True)) < usize_bound"
  proof -
    have "length (ext_to_bencode (ours (Some 40) True)) = 86" by code_simp
    then show ?thesis by (simp add: usize_bound_def)
  qed
  ultimately show ?thesis
    using ext_handshake_round_trip [of "ours (Some 40) True"] by blast
qed

text \<open>A metadata message is read back whole, the piece data after the dictionary included.\<close>

theorem metadata_round_trip:
  assumes "length (meta_to_bytes m) < usize_bound"
  shows "meta_from_bytes (meta_to_bytes m) = Inr m"
proof (cases m)
  case (MetaRequest p)
  then show ?thesis
    using assms bdecode_range_encode [OF meta_dict_ok(1), of 0 p "[]"]
    by (simp add: meta_from_bytes_def meta_dict_get)
next
  case (MetaData p n data)
  then show ?thesis
    using assms bdecode_range_encode [OF meta_dict_ok(2), of n 1 p data]
    by (simp add: meta_from_bytes_def meta_dict_get)
next
  case (MetaReject p)
  then show ?thesis
    using assms bdecode_range_encode [OF meta_dict_ok(1), of 2 p "[]"]
    by (simp add: meta_from_bytes_def meta_dict_get)
qed

theorem metadata_round_trip_witness:
  "meta_from_bytes (meta_to_bytes (MetaData 3 9 [1, 2])) = Inr (MetaData 3 9 [1, 2])"
proof (rule metadata_round_trip)
  have "length (meta_to_bytes (MetaData 3 9 [1, 2])) = 43" by code_simp
  then show "length (meta_to_bytes (MetaData 3 9 [1, 2])) < usize_bound"
    by (simp add: usize_bound_def)
qed

end
