(* ===== verification/Wire.thy ===== *)
theory Wire
  imports Prelude
begin

text \<open>
  The peer wire protocol (\<open>src/src/peer/message.rs\<close>, \<open>codec.rs\<close>, \<open>handshake.rs\<close>,
  \<open>src/src/torrent/types.rs\<close>): messages and their bytes, the length-prefixed frames a
  stream is cut into, and the 68-byte handshake. A received byte stream is decoded by the
  framed reader of \<open>tokio_util\<close>, which appends what the socket delivers to a buffer and calls
  the codec until it asks for more.
\<close>

section \<open>Messages\<close>

definition BLOCK_SIZE :: u32 where "BLOCK_SIZE = 16384"

datatype peer_message =
    KeepAlive
  | Choke
  | Unchoke
  | Interested
  | NotInterested
  | Have u32
  | BitfieldMsg bytes
  | Request u32 u32 u32
  | PieceMsg u32 u32 bytes
  | Cancel u32 u32 u32
  | Extended u8 bytes
  | HaveAll
  | HaveNone
  | Unknown u8

datatype message_error = UnknownMessageId u8 | TooShort | TooLarge nat

definition MSG_CHOKE :: u8 where "MSG_CHOKE = 0"
definition MSG_UNCHOKE :: u8 where "MSG_UNCHOKE = 1"
definition MSG_INTERESTED :: u8 where "MSG_INTERESTED = 2"
definition MSG_NOT_INTERESTED :: u8 where "MSG_NOT_INTERESTED = 3"
definition MSG_HAVE :: u8 where "MSG_HAVE = 4"
definition MSG_BITFIELD :: u8 where "MSG_BITFIELD = 5"
definition MSG_REQUEST :: u8 where "MSG_REQUEST = 6"
definition MSG_PIECE :: u8 where "MSG_PIECE = 7"
definition MSG_CANCEL :: u8 where "MSG_CANCEL = 8"
definition MSG_HAVE_ALL :: u8 where "MSG_HAVE_ALL = 14"
definition MSG_HAVE_NONE :: u8 where "MSG_HAVE_NONE = 15"
definition MSG_EXTENDED :: u8 where "MSG_EXTENDED = 20"

lemmas msg_ids = MSG_CHOKE_def MSG_UNCHOKE_def MSG_INTERESTED_def MSG_NOT_INTERESTED_def
  MSG_HAVE_def MSG_BITFIELD_def MSG_REQUEST_def MSG_PIECE_def MSG_CANCEL_def MSG_HAVE_ALL_def
  MSG_HAVE_NONE_def MSG_EXTENDED_def

text \<open>\<open>PeerMessage::encode\<close> appends the message without its length prefix.\<close>

fun msg_encode :: "peer_message \<Rightarrow> bytes \<Rightarrow> bytes" where
  "msg_encode KeepAlive buf = buf"
| "msg_encode (Unknown _) buf = buf"
| "msg_encode Choke buf = buf @ [MSG_CHOKE]"
| "msg_encode Unchoke buf = buf @ [MSG_UNCHOKE]"
| "msg_encode Interested buf = buf @ [MSG_INTERESTED]"
| "msg_encode NotInterested buf = buf @ [MSG_NOT_INTERESTED]"
| "msg_encode (Have piece_index) buf = buf @ [MSG_HAVE] @ be32 piece_index"
| "msg_encode (BitfieldMsg bits) buf = buf @ [MSG_BITFIELD] @ bits"
| "msg_encode (Request index off len) buf =
     buf @ [MSG_REQUEST] @ be32 index @ be32 off @ be32 len"
| "msg_encode (PieceMsg index off data) buf = buf @ [MSG_PIECE] @ be32 index @ be32 off @ data"
| "msg_encode (Cancel index off len) buf =
     buf @ [MSG_CANCEL] @ be32 index @ be32 off @ be32 len"
| "msg_encode (Extended eid payload) buf = buf @ [MSG_EXTENDED, eid] @ payload"
| "msg_encode HaveAll buf = buf @ [MSG_HAVE_ALL]"
| "msg_encode HaveNone buf = buf @ [MSG_HAVE_NONE]"

text \<open>\<open>Buf::get_u32\<close>: the first four bytes; it panics on a shorter buffer.\<close>

fun get_u32 :: "bytes \<Rightarrow> (u32 \<times> bytes) run" where
  "get_u32 (a # b # c # d # rest) = Done (of_be32 a b c d, rest)"
| "get_u32 _ = Panic"

definition ensure_len :: "bytes \<Rightarrow> nat \<Rightarrow> message_error + unit" where
  "ensure_len data lim = (if length data < lim then Inl TooShort else Inr ())"

text \<open>The three-field messages read three integers in a row.\<close>

definition get_three :: "(u32 \<Rightarrow> u32 \<Rightarrow> u32 \<Rightarrow> peer_message) \<Rightarrow> bytes \<Rightarrow> (message_error + peer_message) run"
where
  "get_three c data =
     run_bind (get_u32 data) (\<lambda>(index, d1).
     run_bind (get_u32 d1) (\<lambda>(off, d2).
     run_bind (get_u32 d2) (\<lambda>(len, d3). Done (Inr (c index off len)))))"

definition msg_decode :: "bytes \<Rightarrow> (message_error + peer_message) run" where
  "msg_decode data0 = (case data0 of [] \<Rightarrow> Done (Inr KeepAlive)
     | mid # data \<Rightarrow>
         if mid = MSG_CHOKE then Done (Inr Choke)
         else if mid = MSG_UNCHOKE then Done (Inr Unchoke)
         else if mid = MSG_INTERESTED then Done (Inr Interested)
         else if mid = MSG_NOT_INTERESTED then Done (Inr NotInterested)
         else if mid = MSG_HAVE then
           (case ensure_len data 4 of Inl e \<Rightarrow> Done (Inl e)
            | Inr _ \<Rightarrow> run_bind (get_u32 data) (\<lambda>(i, _). Done (Inr (Have i))))
         else if mid = MSG_BITFIELD then Done (Inr (BitfieldMsg data))
         else if mid = MSG_REQUEST then
           (case ensure_len data 12 of Inl e \<Rightarrow> Done (Inl e) | Inr _ \<Rightarrow> get_three Request data)
         else if mid = MSG_PIECE then
           (case ensure_len data 8 of Inl e \<Rightarrow> Done (Inl e)
            | Inr _ \<Rightarrow> run_bind (get_u32 data) (\<lambda>(index, d1).
                run_bind (get_u32 d1) (\<lambda>(off, d2). Done (Inr (PieceMsg index off d2)))))
         else if mid = MSG_CANCEL then
           (case ensure_len data 12 of Inl e \<Rightarrow> Done (Inl e) | Inr _ \<Rightarrow> get_three Cancel data)
         else if mid = MSG_EXTENDED then
           (case ensure_len data 1 of Inl e \<Rightarrow> Done (Inl e)
            | Inr _ \<Rightarrow> Done (Inr (Extended (hd data) (tl data))))
         else if mid = MSG_HAVE_ALL then Done (Inr HaveAll)
         else if mid = MSG_HAVE_NONE then Done (Inr HaveNone)
         else Done (Inr (Unknown mid)))"

fun wire_len :: "peer_message \<Rightarrow> nat" where
  "wire_len KeepAlive = 0"
| "wire_len (Have _) = 5"
| "wire_len (BitfieldMsg bf) = 1 + length bf"
| "wire_len (Request _ _ _) = 13"
| "wire_len (Cancel _ _ _) = 13"
| "wire_len (PieceMsg _ _ data) = 9 + length data"
| "wire_len (Extended _ payload) = 2 + length payload"
| "wire_len _ = 1"

definition is_unknown :: "peer_message \<Rightarrow> bool" where
  "is_unknown m = (case m of Unknown _ \<Rightarrow> True | _ \<Rightarrow> False)"

lemma get_u32_be32 [simp]: "get_u32 (be32 w @ rest) = Done (w, rest)"
  by (simp add: be32_def)

lemma get_u32_long: "4 \<le> length data \<Longrightarrow> get_u32 data \<noteq> Panic"
  by (cases data rule: get_u32.cases) auto

lemma get_u32_Done:
  "get_u32 data = Done (w, rest) \<longleftrightarrow> data = be32 w @ rest"
  by (cases data rule: get_u32.cases) (auto simp: be32_of_be32, simp_all add: be32_def)

lemma get_three_be32:
  "get_three c (be32 i @ be32 b @ be32 l @ rest) = Done (Inr (c i b l))"
  by (simp add: get_three_def)

lemma msg_encode_append: "msg_encode m buf = buf @ msg_encode m []"
  by (cases m) auto

lemma length_msg_encode: "length (msg_encode m []) = (if is_unknown m then 0 else wire_len m)"
  by (cases m) (auto simp: is_unknown_def)

text \<open>The codec announces what the encoder writes, for every message but \<open>Unknown\<close>.\<close>

lemma wire_len_exact: "length (msg_encode m []) = wire_len m \<longleftrightarrow> \<not> is_unknown m"
  by (cases m) (auto simp: is_unknown_def)

lemma msg_decode_encode: "\<not> is_unknown m \<Longrightarrow> msg_decode (msg_encode m []) = Done (Inr m)"
  using get_u32_be32 [of _ "[]"] get_three_be32 [of _ _ _ _ "[]"]
  by (cases m) (auto simp: msg_decode_def msg_ids ensure_len_def is_unknown_def)

text \<open>Every payload is decoded without a panic: the length checks cover each read.\<close>

lemma get_u32_run: "n + 4 \<le> length data \<Longrightarrow> \<exists>w. get_u32 (drop n data) = Done (w, drop (n + 4) data)"
proof -
  assume "n + 4 \<le> length data"
  then have "4 \<le> length (drop n data)" by simp
  then have "\<exists>w. get_u32 (drop n data) = Done (w, drop 4 (drop n data))"
    by (cases "drop n data" rule: get_u32.cases) auto
  then show ?thesis by (simp add: add.commute)
qed

lemma get_three_run: "12 \<le> length data \<Longrightarrow> \<exists>i b l. get_three c data = Done (Inr (c i b l))"
  using get_u32_run [of 0 data] get_u32_run [of 4 data] get_u32_run [of 8 data]
  by (auto simp: get_three_def) blast

lemma msg_decode_no_panic: "msg_decode data \<noteq> Panic"
proof (cases data)
  case (Cons mid rest)
  have three: "12 \<le> length rest \<Longrightarrow> get_three c rest \<noteq> Panic" for c
    using get_three_run [of rest c] by auto
  have two: "8 \<le> length rest \<Longrightarrow>
      run_bind (get_u32 rest) (\<lambda>(i, d1). run_bind (get_u32 d1) (\<lambda>(off, d2). Done (f i off d2))) \<noteq> Panic"
    for f :: "u32 \<Rightarrow> u32 \<Rightarrow> bytes \<Rightarrow> message_error + peer_message"
    using get_u32_run [of 0 rest] get_u32_run [of 4 rest] by auto
  have one: "4 \<le> length rest \<Longrightarrow> run_bind (get_u32 rest) (\<lambda>(i, d). Done (f i)) \<noteq> Panic"
    for f :: "u32 \<Rightarrow> message_error + peer_message"
    using get_u32_run [of 0 rest] by auto
  show ?thesis
    using Cons one two three by (simp add: msg_decode_def ensure_len_def not_less)
qed (simp add: msg_decode_def)

section \<open>Frames\<close>

definition MAX_FRAME_SIZE :: nat where "MAX_FRAME_SIZE = 2 ^ 20"

datatype codec_error = FrameTooLarge nat | MessageErr message_error

text \<open>
  \<open>PeerCodec::decode\<close> on the receive buffer: the result and the buffer it leaves. \<open>None\<close> asks
  for more input. A frame whose message is refused has been taken from the buffer.
\<close>

definition frame_decode :: "bytes \<Rightarrow> ((codec_error + peer_message option) \<times> bytes) run" where
  "frame_decode src =
     (if length src < 4 then Done (Inr None, src)
      else (let len = unat (of_be32 (src ! 0) (src ! 1) (src ! 2) (src ! 3)) in
        if MAX_FRAME_SIZE < len then Done (Inl (FrameTooLarge len), src)
        else if length src < 4 + len then Done (Inr None, src)
        else (let src1 = drop 4 src; payload = take len src1; src2 = drop len src1 in
          run_bind (msg_decode payload) (\<lambda>r. Done (case r of
              Inl e \<Rightarrow> (Inl (MessageErr e), src2)
            | Inr msg \<Rightarrow> (Inr (Some msg), src2))))))"

text \<open>\<open>PeerCodec::encode\<close> appends the frame to the send buffer.\<close>

definition frame_encode :: "peer_message \<Rightarrow> bytes \<Rightarrow> codec_error + bytes" where
  "frame_encode msg dst =
     (let len = wire_len msg in
      if MAX_FRAME_SIZE < len then Inl (FrameTooLarge len)
      else Inr (msg_encode msg (dst @ be32 (of_nat len))))"

lemma frame_decode_shorter:
  "frame_decode src = Done (Inr (Some m), rest) \<Longrightarrow> length rest < length src"
  by (cases "length src < 4")
    (auto simp: frame_decode_def Let_def split: if_splits sum.splits,
     cases "msg_decode (take (unat (of_be32 (src ! 0) (src ! Suc 0) (src ! 2) (src ! 3))) (drop 4 src))",
     auto split: sum.splits)

text \<open>
  The framed reader: take frames off the buffer until the codec asks for more; an error ends
  the stream. The result is the messages delivered, and the buffer left or the error.
\<close>

function drain :: "bytes \<Rightarrow> (peer_message list \<times> (codec_error + bytes)) run" where
  "drain src = (case frame_decode src of
       Panic \<Rightarrow> Panic
     | Done (Inl e, rest) \<Rightarrow> Done ([], Inl e)
     | Done (Inr None, rest) \<Rightarrow> Done ([], Inr rest)
     | Done (Inr (Some m), rest) \<Rightarrow> run_bind (drain rest) (\<lambda>(ms, r). Done (m # ms, r)))"
  by pat_completeness auto
termination
  by (relation "measure length") (auto dest: frame_decode_shorter)

declare drain.simps [simp del]

text \<open>What the socket delivers arrives in chunks; each is appended to the buffer.\<close>

fun feed :: "bytes \<Rightarrow> bytes list \<Rightarrow> (peer_message list \<times> (codec_error + bytes)) run" where
  "feed buf [] = Done ([], Inr buf)"
| "feed buf (c # cs) = run_bind (drain (buf @ c)) (\<lambda>(ms, r). case r of
       Inl e \<Rightarrow> Done (ms, Inl e)
     | Inr buf' \<Rightarrow> run_bind (feed buf' cs) (\<lambda>(ms', r'). Done (ms @ ms', r')))"

text \<open>The sender: encode a list of messages into one buffer.\<close>

fun encode_all :: "peer_message list \<Rightarrow> bytes \<Rightarrow> codec_error + bytes" where
  "encode_all [] dst = Inr dst"
| "encode_all (m # ms) dst =
     (case frame_encode m dst of Inl e \<Rightarrow> Inl e | Inr dst' \<Rightarrow> encode_all ms dst')"

lemma frame_decode_no_panic: "frame_decode src \<noteq> Panic"
proof -
  have "run_bind (msg_decode p) (\<lambda>r. Done (f r)) \<noteq> Panic" for p
    and f :: "message_error + peer_message \<Rightarrow> (codec_error + peer_message option) \<times> bytes"
    using msg_decode_no_panic [of p] by (cases "msg_decode p") auto
  then show ?thesis by (simp add: frame_decode_def Let_def)
qed

lemma frame_decode_None: "frame_decode src = Done (Inr None, rest) \<Longrightarrow> rest = src"
  by (cases "length src < 4")
    (auto simp: frame_decode_def Let_def split: if_splits sum.splits,
     cases "msg_decode (take (unat (of_be32 (src ! 0) (src ! Suc 0) (src ! 2) (src ! 3))) (drop 4 src))",
     auto split: sum.splits)

lemma frame_decode_cases:
  obtains (more) "frame_decode src = Done (Inr None, src)"
    | (bad) e rest where "frame_decode src = Done (Inl e, rest)"
    | (frame) m rest where "frame_decode src = Done (Inr (Some m), rest)"
proof (cases "frame_decode src")
  case (Done r)
  obtain x rest where "r = (x, rest)" by (cases r)
  with Done more bad frame show thesis
    using frame_decode_None [of src rest] by (cases x; cases "projr x") auto
qed (simp add: frame_decode_no_panic)

lemma drain_more: "frame_decode src = Done (Inr None, rest) \<Longrightarrow> drain src = Done ([], Inr rest)"
  and drain_bad: "frame_decode src = Done (Inl e, rest) \<Longrightarrow> drain src = Done ([], Inl e)"
  and drain_frame: "frame_decode src = Done (Inr (Some m), rest) \<Longrightarrow>
     drain src = run_bind (drain rest) (\<lambda>(ms, r). Done (m # ms, r))"
  by (subst drain.simps, simp)+

lemmas drain_eqs = drain_more drain_bad drain_frame

lemma drain_induct [case_names more bad frame]:
  assumes "\<And>src. frame_decode src = Done (Inr None, src) \<Longrightarrow> P src"
    and "\<And>src e rest. frame_decode src = Done (Inl e, rest) \<Longrightarrow> P src"
    and "\<And>src m rest. frame_decode src = Done (Inr (Some m), rest) \<Longrightarrow> P rest \<Longrightarrow> P src"
  shows "P src"
proof (induction src rule: measure_induct_rule [where f = length])
  case (less src)
  show ?case
    by (cases src rule: frame_decode_cases)
      (use assms less frame_decode_shorter in blast)+
qed

lemma drain_total: "\<exists>ms r. drain src = Done (ms, r)"
  by (induction src rule: drain_induct) (auto simp: drain_eqs)

text \<open>More input after a complete frame changes nothing about that frame.\<close>

lemma frame_decode_append:
  assumes "frame_decode a = Done (q, rest)" and "q \<noteq> Inr None"
  shows "frame_decode (a @ b) = Done (q, rest @ b)"
proof -
  have len: "4 \<le> length a"
    using assms by (auto simp: frame_decode_def split: if_splits)
  let ?n = "unat (of_be32 (a ! 0) (a ! 1) (a ! 2) (a ! 3))"
  show ?thesis
  proof (cases "MAX_FRAME_SIZE < ?n")
    case True
    with len assms show ?thesis by (auto simp: frame_decode_def Let_def nth_append)
  next
    case False
    then have n: "4 + ?n \<le> length a"
      using len assms by (auto simp: frame_decode_def Let_def split: if_splits)
    then have "take ?n (drop 4 (a @ b)) = take ?n (drop 4 a)"
      and "drop ?n (drop 4 (a @ b)) = drop ?n (drop 4 a) @ b" by auto
    with n len False assms show ?thesis
      by (cases "msg_decode (take ?n (drop 4 a))")
        (auto simp: frame_decode_def Let_def nth_append split: sum.splits)
  qed
qed

lemma drain_append:
  "drain (a @ b) = run_bind (drain a) (\<lambda>(ms, r). case r of
       Inl e \<Rightarrow> Done (ms, Inl e)
     | Inr buf \<Rightarrow> run_bind (drain (buf @ b)) (\<lambda>(ms', r'). Done (ms @ ms', r')))"
proof (induction a rule: drain_induct)
  case (more a)
  then show ?case using drain_total [of "a @ b"] by (auto simp: drain_more)
next
  case (bad a e rest)
  then show ?case by (simp add: drain_bad frame_decode_append)
next
  case (frame a m rest)
  obtain ms r where r: "drain rest = Done (ms, r)" using drain_total by blast
  obtain buf where "r = Inr buf \<or> (\<exists>e. r = Inl e)" by (cases r) auto
  with frame r show ?case
    using drain_total [of "buf @ b"]
    by (auto simp: drain_frame frame_decode_append)
qed

lemma feed_drain: "feed buf (c # cs) = drain (buf @ concat (c # cs))"
proof (induction cs arbitrary: buf c)
  case Nil
  obtain ms r where r: "drain (buf @ c) = Done (ms, r)" using drain_total by blast
  then show ?case by (cases r) auto
next
  case (Cons d cs)
  obtain ms r where r: "drain (buf @ c) = Done (ms, r)" using drain_total by blast
  have "drain (buf @ concat (c # d # cs)) = drain ((buf @ c) @ concat (d # cs))" by simp
  also have "\<dots> = feed buf (c # d # cs)"
    using Cons r by (subst drain_append) (simp split: sum.splits del: feed.simps(2) add: feed.simps(2) [of buf])
  finally show ?case ..
qed

lemma drain_buffer:
  "case drain src of Panic \<Rightarrow> False | Done (ms, r) \<Rightarrow>
     (case r of Inl e \<Rightarrow> True | Inr buf \<Rightarrow> length buf < 4 + MAX_FRAME_SIZE)"
proof (induction src rule: drain_induct)
  case (more src)
  then have "length src < 4 + MAX_FRAME_SIZE"
  proof (cases "length src < 4")
    case False
    let ?n = "unat (of_be32 (src ! 0) (src ! 1) (src ! 2) (src ! 3))"
    have "?n \<le> MAX_FRAME_SIZE \<and> length src < 4 + ?n"
      using more False msg_decode_no_panic [of "take ?n (drop 4 src)"]
      by (cases "msg_decode (take ?n (drop 4 src))")
        (auto simp: frame_decode_def Let_def split: if_splits sum.splits)
    then show ?thesis by simp
  qed simp
  with more show ?case by (simp add: drain_more)
next
  case (frame src m rest)
  obtain ms r where "drain rest = Done (ms, r)" using drain_total by blast
  with frame show ?case by (simp add: drain_frame split: sum.splits)
qed (simp add: drain_bad)

definition frame_bytes :: "peer_message \<Rightarrow> bytes" where
  "frame_bytes m = be32 (of_nat (wire_len m)) @ msg_encode m []"

lemma frame_encode_append:
  "frame_encode m dst = (if MAX_FRAME_SIZE < wire_len m then Inl (FrameTooLarge (wire_len m))
     else Inr (dst @ frame_bytes m))"
  by (simp add: frame_encode_def frame_bytes_def Let_def
      msg_encode_append [of m "dst @ be32 (of_nat (wire_len m))"])

lemma be32_parts: "of_be32 (be32 w ! 0) (be32 w ! 1) (be32 w ! 2) (be32 w ! 3) = w"
  by (simp add: be32_def)

lemma frame_decode_bytes:
  assumes "\<not> is_unknown m" and "wire_len m \<le> MAX_FRAME_SIZE"
  shows "frame_decode (frame_bytes m @ rest) = Done (Inr (Some m), rest)"
proof -
  let ?b = "be32 (of_nat (wire_len m))"
  have n: "unat (of_nat (wire_len m) :: u32) = wire_len m"
    using assms(2) by (simp add: unat_of_nat MAX_FRAME_SIZE_def)
  have src: "frame_bytes m @ rest = ?b @ msg_encode m [] @ rest"
    by (simp add: frame_bytes_def)
  have h: "of_be32 ((?b @ r) ! 0) ((?b @ r) ! 1) ((?b @ r) ! 2) ((?b @ r) ! 3) = of_nat (wire_len m)"
    for r by (simp add: be32_def)
  show ?thesis
    unfolding src frame_decode_def h using assms n
    by (simp add: Let_def length_msg_encode msg_decode_encode not_less)
qed

lemma encode_all_append:
  "encode_all ms dst = Inr out \<Longrightarrow> out = dst @ concat (map frame_bytes ms)
     \<and> list_all (\<lambda>m. wire_len m \<le> MAX_FRAME_SIZE) ms"
  by (induction ms arbitrary: dst) (auto simp: frame_encode_append not_less split: if_splits, metis append_assoc)

lemma drain_frames:
  "list_all (\<lambda>m. \<not> is_unknown m \<and> wire_len m \<le> MAX_FRAME_SIZE) ms \<Longrightarrow>
     drain (concat (map frame_bytes ms)) = Done (ms, Inr [])"
  by (induction ms) (simp_all add: drain_frame [OF frame_decode_bytes] drain_more frame_decode_def)

lemma feed_drain_all: "feed [] cs = drain (concat cs)"
  by (cases cs) (simp_all add: feed_drain drain_more frame_decode_def del: feed.simps(2))

section \<open>Handshake\<close>

text \<open>\<open>InfoHash\<close> and \<open>PeerId\<close> are arrays of 20 bytes.\<close>

type_synonym info_hash = bytes
type_synonym peer_id = bytes

text \<open>\<open>PeerId::generate\<close>: the client prefix, then twelve random bytes (the parameter).\<close>

definition generate_peer_id :: "bytes \<Rightarrow> peer_id" where
  "generate_peer_id random = ascii ''-MH0100-'' @ random"

record handshake =
  reserved :: bytes
  hs_info_hash :: info_hash
  hs_peer_id :: peer_id

datatype handshake_error = InvalidProtocolLength u8 | InvalidProtocolString | InfoHashMismatch

definition PROTOCOL_STRING :: bytes where
  "PROTOCOL_STRING = ascii ''BitTorrent protocol''"

definition HANDSHAKE_SIZE :: nat where "HANDSHAKE_SIZE = 68"

definition new_handshake :: "info_hash \<Rightarrow> peer_id \<Rightarrow> handshake" where
  "new_handshake ih pid =
     \<lparr>reserved = (let r = replicate 8 (0 :: u8) in r[5 := r ! 5 OR 0x10]),
      hs_info_hash = ih, hs_peer_id = pid\<rparr>"

definition supports_extension_protocol :: "handshake \<Rightarrow> bool" where
  "supports_extension_protocol h \<longleftrightarrow> reserved h ! 5 AND 0x10 \<noteq> 0"

definition handshake_to_bytes :: "handshake \<Rightarrow> bytes" where
  "handshake_to_bytes h = [19] @ PROTOCOL_STRING @ reserved h @ hs_info_hash h @ hs_peer_id h"

definition handshake_from_bytes :: "bytes \<Rightarrow> handshake_error + handshake" where
  "handshake_from_bytes buf =
     (if buf ! 0 \<noteq> 19 then Inl (InvalidProtocolLength (buf ! 0))
      else if slice 1 20 buf \<noteq> PROTOCOL_STRING then Inl InvalidProtocolString
      else Inr \<lparr>reserved = slice 20 28 buf, hs_info_hash = slice 28 48 buf,
                hs_peer_id = slice 48 68 buf\<rparr>)"

definition handshake_ok :: "handshake \<Rightarrow> bool" where
  "handshake_ok h \<longleftrightarrow>
     length (reserved h) = 8 \<and> length (hs_info_hash h) = 20 \<and> length (hs_peer_id h) = 20"

lemma length_PROTOCOL_STRING [simp]: "length PROTOCOL_STRING = 19"
  by (simp add: PROTOCOL_STRING_def ascii_def)

lemma handshake_from_to: "handshake_ok h \<Longrightarrow> handshake_from_bytes (handshake_to_bytes h) = Inr h"
  by (simp add: handshake_ok_def handshake_from_bytes_def handshake_to_bytes_def slice_def)

lemma split_68:
  assumes "length buf = 68"
  shows "buf = [buf ! 0] @ slice 1 20 buf @ slice 20 28 buf @ slice 28 48 buf @ slice 48 68 buf"
proof -
  have cut: "drop a buf = slice a b buf @ drop b buf" if "a \<le> b" "b \<le> length buf" for a b
    using that by (simp add: slice_def) (metis append_take_drop_id drop_drop le_add_diff_inverse2)
  have "buf = [buf ! 0] @ drop 1 buf" using assms by (cases buf) auto
  with assms cut [of 1 20] cut [of 20 28] cut [of 28 48] cut [of 48 68] show ?thesis by simp
qed

lemma handshake_to_from:
  assumes "length buf = HANDSHAKE_SIZE" and "handshake_from_bytes buf = Inr h"
  shows "handshake_to_bytes h = buf" and "handshake_ok h"
  using assms split_68 [of buf]
  by (auto simp: handshake_from_bytes_def handshake_to_bytes_def handshake_ok_def HANDSHAKE_SIZE_def
      slice_def split: if_splits)

lemma length_handshake: "handshake_ok h \<Longrightarrow> length (handshake_to_bytes h) = HANDSHAKE_SIZE"
  by (simp add: handshake_ok_def handshake_to_bytes_def HANDSHAKE_SIZE_def)

lemma new_handshake_ok:
  "length ih = 20 \<Longrightarrow> length pid = 20 \<Longrightarrow> handshake_ok (new_handshake ih pid)"
  by (simp add: handshake_ok_def new_handshake_def Let_def)

section \<open>Properties\<close>

text \<open>C26. Whatever way the network cuts a stream of sent messages into chunks, the framed reader
  delivers exactly those messages, in order, and leaves nothing in its buffer.\<close>

theorem stream_any_chunking:
  assumes "list_all (\<lambda>m. \<not> is_unknown m) ms" and "encode_all ms [] = Inr stream"
    and "concat chunks = stream"
  shows "feed [] chunks = Done (ms, Inr [])"
proof -
  have "stream = concat (map frame_bytes ms)"
    and "list_all (\<lambda>m. \<not> is_unknown m \<and> wire_len m \<le> MAX_FRAME_SIZE) ms"
    using encode_all_append [OF assms(2)] assms(1) by (auto simp: list_all_iff)
  then show ?thesis
    using assms(3) by (simp add: feed_drain_all drain_frames)
qed

theorem stream_any_chunking_witness:
  "feed [] [[0, 0, 0], [5, 4, 0, 0], [0, 7, 0, 0, 0, 0, 0, 0, 0, 3], [20, 0, 0x64]] =
     Done ([Have 7, KeepAlive, Extended 0 [0x64]], Inr [])"
  by (rule stream_any_chunking [where stream =
        "[0, 0, 0, 5, 4, 0, 0, 0, 7, 0, 0, 0, 0, 0, 0, 0, 3, 20, 0, 0x64]"])
    (simp_all add: is_unknown_def frame_encode_append frame_bytes_def MAX_FRAME_SIZE_def be32_def
      msg_ids)

text \<open>The reader survives every input: no read is out of range, however the bytes are
  chunked, and while the stream is alive it never holds more than one incomplete frame.\<close>

theorem reader_robust:
  "\<exists>ms r. feed [] chunks = Done (ms, r) \<and>
     (case r of Inl e \<Rightarrow> True | Inr buf \<Rightarrow> length buf < 4 + MAX_FRAME_SIZE)"
  using drain_buffer [of "concat chunks"] drain_total [of "concat chunks"]
  by (auto simp: feed_drain_all)

text \<open>The handshake codec is a bijection between the 68-byte buffers it accepts and the
  well-formed handshakes: parsing inverts printing and printing inverts parsing.\<close>

theorem handshake_bijection:
  assumes "length buf = HANDSHAKE_SIZE"
  shows "handshake_from_bytes buf = Inr h \<longleftrightarrow> handshake_ok h \<and> handshake_to_bytes h = buf"
  using handshake_to_from [OF assms] handshake_from_to by blast

theorem handshake_bijection_witness:
  "handshake_from_bytes (handshake_to_bytes (new_handshake (replicate 20 1) (replicate 20 2))) =
     Inr (new_handshake (replicate 20 1) (replicate 20 2))"
  by (rule handshake_bijection [THEN iffD2]) (simp_all add: length_handshake new_handshake_ok)

end
