(* ===== verification/Connection.thy ===== *)
theory Connection
  imports Extension Wire
begin

text \<open>
  One peer connection (\<open>src/src/peer/connection.rs\<close>): the events it sends to the session, the
  commands it takes, and the task that shakes hands and then translates frames to events and
  commands to frames. What the socket and the channels deliver is a list of turns, one for every
  time the \<open>select!\<close> loop wakes up.
\<close>

section \<open>Events and commands\<close>

datatype conn_error =
    ConnectTimeout
  | HandshakeTimeout
  | HashMismatch
  | HandshakeFailed "handshake_error option"
  | CodecFailed "codec_error option"
  | ConnectIo

text \<open>
  The reason of a disconnect is the rendered error; here it is the error itself, \<open>None\<close> for
  a clean disconnect. The \<open>None\<close> inside \<open>HandshakeFailed\<close> and \<open>CodecFailed\<close> is an I/O error.
\<close>

datatype peer_event =
    EvConnected sock_addr "bytes option" bool
  | EvUnchoked
  | EvChoked
  | EvHave u32
  | EvBitfield bytes
  | EvHaveAll
  | EvBlock u32 u32 bytes
  | EvExtHandshake ext_handshake
  | EvMetadata metadata_message
  | EvPexPeers "sock_addr list"
  | EvDisconnected "conn_error option"

datatype peer_command =
    RequestBlock u32 u32 u32
  | CancelBlock u32 u32 u32
  | SendInterested
  | SendNotInterested
  | SendChoke
  | SendUnchoke
  | SendHave u32
  | SendExtendedHandshake ext_handshake
  | SendMetadataRequest u8 u32
  | Disconnect

section \<open>Messages to events, commands to messages\<close>

definition dispatch_extension :: "u8 \<Rightarrow> bytes \<Rightarrow> peer_event option" where
  "dispatch_extension eid payload =
     (if eid = 0 then
        (case ext_from_bencode payload of Inl _ \<Rightarrow> None | Inr hs \<Rightarrow> Some (EvExtHandshake hs))
      else if eid = 1 then
        (case meta_from_bytes payload of Inl _ \<Rightarrow> None | Inr msg \<Rightarrow> Some (EvMetadata msg))
      else if eid = 2 then
        (case pex_from_bencode payload of Inl _ \<Rightarrow> None
         | Inr added \<Rightarrow> if added = [] then None else Some (EvPexPeers added))
      else None)"

fun handle_incoming_message :: "bool \<Rightarrow> peer_message \<Rightarrow> peer_event option" where
  "handle_incoming_message ext Choke = Some EvChoked"
| "handle_incoming_message ext Unchoke = Some EvUnchoked"
| "handle_incoming_message ext (Have piece_index) = Some (EvHave piece_index)"
| "handle_incoming_message ext (BitfieldMsg bf) = Some (EvBitfield bf)"
| "handle_incoming_message ext HaveAll = Some EvHaveAll"
| "handle_incoming_message ext (PieceMsg index off data) = Some (EvBlock index off data)"
| "handle_incoming_message ext (Extended eid payload) =
     (if \<not> ext then None else dispatch_extension eid payload)"
| "handle_incoming_message ext _ = None"

fun handle_command :: "peer_command \<Rightarrow> peer_message option" where
  "handle_command (RequestBlock index off len) = Some (Request index off len)"
| "handle_command (CancelBlock index off len) = Some (Cancel index off len)"
| "handle_command SendInterested = Some Interested"
| "handle_command SendNotInterested = Some NotInterested"
| "handle_command SendChoke = Some Choke"
| "handle_command SendUnchoke = Some Unchoke"
| "handle_command (SendHave piece_index) = Some (Have piece_index)"
| "handle_command (SendExtendedHandshake hs) = Some (Extended 0 (ext_to_bencode hs))"
| "handle_command (SendMetadataRequest ext_id piece) =
     Some (Extended ext_id (meta_to_bytes (MetaRequest piece)))"
| "handle_command Disconnect = None"

section \<open>The connection task\<close>

text \<open>
  One turn of the loop. A frame is what the framed reader returns (\<open>None\<close> when the peer has
  closed); a command is what the channel returns (\<open>None\<close> when the session has dropped it); the
  flag says whether the socket accepts the write.
\<close>

datatype conn_turn =
    TurnCancelled
  | TurnFrame "(codec_error + peer_message) option"
  | TurnCommand "peer_command option" bool
  | TurnKeepalive bool

text \<open>The result of a run: the events sent, the bytes written, and \<open>Some\<close> when it has ended.\<close>

type_synonym conn_run = "peer_event list \<times> bytes \<times> conn_error option option"

definition conn_emit :: "peer_event list \<Rightarrow> bytes \<Rightarrow> conn_run \<Rightarrow> conn_run" where
  "conn_emit es out r = (case r of (es', out', res) \<Rightarrow> (es @ es', out @ out', res))"

text \<open>\<open>framed.send\<close>: the codec refuses a message that is too long, else the socket decides.\<close>

definition conn_send :: "peer_message \<Rightarrow> bool \<Rightarrow> codec_error option + bytes" where
  "conn_send msg io_ok = (case frame_encode msg [] of
       Inl e \<Rightarrow> Inl (Some e) | Inr out \<Rightarrow> if io_ok then Inr out else Inl None)"

fun conn_loop :: "bool \<Rightarrow> conn_turn list \<Rightarrow> conn_run" where
  "conn_loop ext [] = ([], [], None)"
| "conn_loop ext (TurnCancelled # ts) = ([], [], Some None)"
| "conn_loop ext (TurnFrame None # ts) = ([], [], Some None)"
| "conn_loop ext (TurnFrame (Some (Inl e)) # ts) = ([], [], Some (Some (CodecFailed (Some e))))"
| "conn_loop ext (TurnFrame (Some (Inr msg)) # ts) =
     (case handle_incoming_message ext msg of
        None \<Rightarrow> conn_loop ext ts | Some ev \<Rightarrow> conn_emit [ev] [] (conn_loop ext ts))"
| "conn_loop ext (TurnCommand None io_ok # ts) = ([], [], Some None)"
| "conn_loop ext (TurnCommand (Some cmd) io_ok # ts) =
     (case handle_command cmd of
        None \<Rightarrow> conn_loop ext ts
      | Some msg \<Rightarrow> (case conn_send msg io_ok of
            Inl e \<Rightarrow> ([], [], Some (Some (CodecFailed e)))
          | Inr out \<Rightarrow> conn_emit [] out (conn_loop ext ts)))"
| "conn_loop ext (TurnKeepalive io_ok # ts) =
     (case conn_send KeepAlive io_ok of
        Inl e \<Rightarrow> ([], [], Some (Some (CodecFailed e)))
      | Inr out \<Rightarrow> conn_emit [] out (conn_loop ext ts))"

datatype connect_result = ConnectTimedOut | ConnectRefused | ConnectOpen
datatype handshake_read = HsTimedOut | HsIo | HsBytes bytes

text \<open>\<open>Handshake::read_from\<close> under its timeout.\<close>

definition read_handshake :: "handshake_read \<Rightarrow> conn_error + handshake" where
  "read_handshake r = (case r of
       HsTimedOut \<Rightarrow> Inl HandshakeTimeout
     | HsIo \<Rightarrow> Inl (HandshakeFailed None)
     | HsBytes buf \<Rightarrow> (case handshake_from_bytes buf of
           Inl e \<Rightarrow> Inl (HandshakeFailed (Some e)) | Inr hs \<Rightarrow> Inr hs))"

definition conn_inner ::
  "sock_addr \<Rightarrow> info_hash \<Rightarrow> peer_id \<Rightarrow> connect_result \<Rightarrow> bool \<Rightarrow> handshake_read \<Rightarrow> conn_turn list
    \<Rightarrow> conn_run" where
  "conn_inner addr ih pid conn write_ok hsr turns = (case conn of
       ConnectTimedOut \<Rightarrow> ([], [], Some (Some ConnectTimeout))
     | ConnectRefused \<Rightarrow> ([], [], Some (Some ConnectIo))
     | ConnectOpen \<Rightarrow>
         if \<not> write_ok then ([], [], Some (Some ConnectIo))
         else conn_emit [] (handshake_to_bytes (new_handshake ih pid))
          (case read_handshake hsr of
             Inl e \<Rightarrow> ([], [], Some (Some e))
           | Inr hs \<Rightarrow>
               if hs_info_hash hs \<noteq> ih then ([], [], Some (Some HashMismatch))
               else (let ext = supports_extension_protocol hs in
                 conn_emit [EvConnected addr None ext] [] (conn_loop ext turns))))"

definition run_peer_connection ::
  "sock_addr \<Rightarrow> info_hash \<Rightarrow> peer_id \<Rightarrow> connect_result \<Rightarrow> bool \<Rightarrow> handshake_read \<Rightarrow> conn_turn list
    \<Rightarrow> conn_run" where
  "run_peer_connection addr ih pid conn write_ok hsr turns =
     (case conn_inner addr ih pid conn write_ok hsr turns of
        (es, out, None) \<Rightarrow> (es, out, None)
      | (es, out, Some reason) \<Rightarrow> (es @ [EvDisconnected reason], out, Some reason))"

section \<open>What a session hears from a connection\<close>

definition is_life_event :: "peer_event \<Rightarrow> bool" where
  "is_life_event ev = (case ev of EvConnected _ _ _ \<Rightarrow> True | EvDisconnected _ \<Rightarrow> True | _ \<Rightarrow> False)"

fun frame_of_turn :: "conn_turn \<Rightarrow> peer_message option" where
  "frame_of_turn (TurnFrame (Some (Inr msg))) = Some msg"
| "frame_of_turn _ = None"

lemma dispatch_extension_life: "dispatch_extension eid payload = Some ev \<Longrightarrow> \<not> is_life_event ev"
  by (auto simp: dispatch_extension_def is_life_event_def split: if_splits sum.splits)

lemma handle_incoming_life: "handle_incoming_message ext msg = Some ev \<Longrightarrow> \<not> is_life_event ev"
  by (cases msg) (auto simp: is_life_event_def split: if_splits dest: dispatch_extension_life)

text \<open>The loop reports the frames of some prefix of its turns, all of them while it runs.\<close>

lemma conn_emit_simps [simp]:
  "fst (conn_emit es out r) = es @ fst r" "fst (snd (conn_emit es out r)) = out @ fst (snd r)"
  "snd (snd (conn_emit es out r)) = snd (snd r)"
  by (auto simp: conn_emit_def split: prod.splits)

definition reported :: "bool \<Rightarrow> conn_turn list \<Rightarrow> peer_event list" where
  "reported ext ts =
     List.map_filter (handle_incoming_message ext) (List.map_filter frame_of_turn ts)"

lemma reported_simps [simp]:
  "reported ext [] = []"
  "reported ext (t # ts) =
     (case Option.bind (frame_of_turn t) (handle_incoming_message ext) of
        None \<Rightarrow> reported ext ts | Some ev \<Rightarrow> ev # reported ext ts)"
  by (auto simp: reported_def List.map_filter_simps split: option.splits)

definition reports :: "bool \<Rightarrow> conn_turn list \<Rightarrow> conn_run \<Rightarrow> bool" where
  "reports ext ts r \<longleftrightarrow> (\<exists>n \<le> length ts. fst r = reported ext (take n ts)
     \<and> (snd (snd r) = None \<longrightarrow> n = length ts))"

lemma reports_stop: "reports ext ts ([], [], Some x)"
  by (auto simp: reports_def intro: exI [of _ 0])

lemma reports_turn:
  assumes "reports ext ts r"
    and "es = (case Option.bind (frame_of_turn t) (handle_incoming_message ext) of
      None \<Rightarrow> [] | Some ev \<Rightarrow> [ev])"
  shows "reports ext (t # ts) (conn_emit es out r)"
proof -
  obtain n where "n \<le> length ts" "fst r = reported ext (take n ts)"
    "snd (snd r) = None \<longrightarrow> n = length ts"
    using assms(1) by (auto simp: reports_def)
  then show ?thesis
    using assms(2) by (auto simp: reports_def intro!: exI [of _ "Suc n"] split: option.splits)
qed

lemma reports_silent:
  "reports ext ts r \<Longrightarrow> Option.bind (frame_of_turn t) (handle_incoming_message ext) = None \<Longrightarrow>
     reports ext (t # ts) r"
  using reports_turn [of ext ts r "[]" t "[]"] by (simp add: conn_emit_def)

lemma conn_loop_reports: "reports ext ts (conn_loop ext ts)"
  by (induction ext ts rule: conn_loop.induct)
    (auto simp: reports_def [of _ "[]"] intro!: reports_stop
      intro: reports_silent reports_turn split: option.splits sum.splits)

lemma reported_life: "\<forall>ev \<in> set (reported ext ts). \<not> is_life_event ev"
  by (induction ts) (auto split: option.splits bind_splits dest: handle_incoming_life)

text \<open>C34. What the session hears from a connection: nothing but its end, with the reason, when
  the peer could not be reached or is not serving this torrent; otherwise one Connected event,
  then exactly the events of the peer's frames in their order, and at most one Disconnected, last.
  A connection is announced only after a handshake with our info hash.\<close>

theorem connection_protocol:
  "case run_peer_connection addr ih pid conn write_ok hsr turns of (es, out, res) \<Rightarrow>
     (case read_handshake hsr of
        Inr hs \<Rightarrow> if conn = ConnectOpen \<and> write_ok \<and> hs_info_hash hs = ih
          then \<exists>n \<le> length turns.
            es = EvConnected addr None (supports_extension_protocol hs)
                  # reported (supports_extension_protocol hs) (take n turns)
                  @ (case res of None \<Rightarrow> [] | Some reason \<Rightarrow> [EvDisconnected reason])
            \<and> (res = None \<longrightarrow> n = length turns)
            \<and> list_all (\<lambda>ev. \<not> is_life_event ev)
                (reported (supports_extension_protocol hs) (take n turns))
          else \<exists>e. es = [EvDisconnected (Some e)]
      | Inl e \<Rightarrow> \<exists>e. es = [EvDisconnected (Some e)])"
proof (cases "read_handshake hsr")
  case (Inl e)
  then show ?thesis
    by (cases conn) (auto simp: run_peer_connection_def conn_inner_def conn_emit_def)
next
  case (Inr hs)
  let ?ext = "supports_extension_protocol hs"
  show ?thesis
  proof (cases "conn = ConnectOpen \<and> write_ok \<and> hs_info_hash hs = ih")
    case False
    with Inr show ?thesis
      by (cases conn) (auto simp: run_peer_connection_def conn_inner_def conn_emit_def)
  next
    case True
    obtain es out res where loop: "conn_loop ?ext turns = (es, out, res)" by (cases "conn_loop ?ext turns")
    obtain n where n: "n \<le> length turns" "es = reported ?ext (take n turns)"
      "res = None \<longrightarrow> n = length turns"
      using conn_loop_reports [of ?ext turns] loop by (auto simp: reports_def)
    have life: "list_all (\<lambda>ev. \<not> is_life_event ev) (reported ?ext (take n turns))"
      using reported_life by (simp add: list_all_iff)
    show ?thesis
      using True Inr loop n life
      by (cases res)
        (auto simp: run_peer_connection_def conn_inner_def conn_emit_def Let_def intro!: exI [of _ n])
  qed
qed

definition example_hash :: info_hash where "example_hash = replicate 20 1"
definition example_peer :: sock_addr where "example_peer = (IPv4 10 0 0 1, 6881)"

definition example_turns :: "conn_turn list" where
  "example_turns = [TurnFrame (Some (Inr Unchoke)), TurnCommand (Some SendInterested) True,
     TurnFrame (Some (Inr (Have 3))), TurnFrame None]"

definition example_read :: handshake_read where
  "example_read = HsBytes (handshake_to_bytes (new_handshake example_hash (replicate 20 7)))"

theorem connection_protocol_witness:
  "\<exists>n \<le> 4. fst (run_peer_connection example_peer example_hash (replicate 20 9) ConnectOpen True
      example_read example_turns)
    = EvConnected example_peer None True # reported True (take n example_turns) @ [EvDisconnected None]"
proof -
  have hs: "read_handshake example_read = Inr (new_handshake example_hash (replicate 20 7))"
    and sup: "supports_extension_protocol (new_handshake example_hash (replicate 20 7))"
    and ih: "hs_info_hash (new_handshake example_hash (replicate 20 7)) = example_hash"
    and len: "length example_turns = 4"
    by code_simp+
  have res: "snd (snd (run_peer_connection example_peer example_hash (replicate 20 9) ConnectOpen True
      example_read example_turns)) = Some None"
    by code_simp
  show ?thesis
    using connection_protocol [where addr = example_peer and ih = example_hash and conn = ConnectOpen
        and pid = "replicate 20 9" and write_ok = True and hsr = example_read and turns = example_turns] hs sup ih len res
    by (auto split: prod.splits)
qed

end
