(* ===== verification/Peers.thy ===== *)
theory Peers
  imports Connection "HOL-Library.Multiset"
begin

text \<open>
  The pool of peer connections (\<open>src/src/peer/manager.rs\<close>) and the choking algorithm
  (\<open>src/src/engine/choker.rs\<close>). The command channel to a connection task holds 512 commands and
  is closed once the task has ended; a double is kept as its 64 bits.
\<close>

section \<open>State\<close>

type_synonym f64 = u64

definition f64_zero :: f64 where "f64_zero = 0"
definition CHANNEL_CAPACITY :: nat where "CHANNEL_CAPACITY = 512"

record cmd_channel =
  ch_queue :: "peer_command list"
  ch_closed :: bool

record peer_state =
  cmd_tx :: cmd_channel
  am_interested :: bool
  peer_choking :: bool
  bytes_downloaded :: nat
  outstanding_requests :: nat
  supports_extensions :: bool
  remote_ext_handshake :: "ext_handshake option"
  throughput_sample_bytes :: nat
  throughput_mibps :: f64

record peer_manager =
  max_peers :: nat
  pm_peers :: "(sock_addr \<times> peer_state) list"
  pending_peers :: "sock_addr list"
  known_addrs :: "sock_addr list"
  connecting :: "sock_addr list"

definition HALF_OPEN_LIMIT :: nat where "HALF_OPEN_LIMIT = 20"
definition KNOWN_LIMIT :: nat where "KNOWN_LIMIT = 10000"

definition pm_new :: "nat \<Rightarrow> peer_manager" where
  "pm_new limit = \<lparr>max_peers = limit, pm_peers = [], pending_peers = [], known_addrs = [],
     connecting = []\<rparr>"

definition peer_state_of :: "peer_manager \<Rightarrow> sock_addr \<Rightarrow> peer_state option" where
  "peer_state_of pm addr = map_of (pm_peers pm) addr"

text \<open>\<open>peer_state_mut\<close> followed by an update of the state, when the peer is there.\<close>

definition peer_update :: "sock_addr \<Rightarrow> (peer_state \<Rightarrow> peer_state) \<Rightarrow> peer_manager \<Rightarrow> peer_manager" where
  "peer_update addr f pm = (case map_of (pm_peers pm) addr of
       None \<Rightarrow> pm | Some s \<Rightarrow> pm\<lparr>pm_peers := hm_insert addr (f s) (pm_peers pm)\<rparr>)"

definition connected_peers :: "peer_manager \<Rightarrow> sock_addr list" where
  "connected_peers pm = map fst (pm_peers pm)"

definition peer_count :: "peer_manager \<Rightarrow> nat" where
  "peer_count pm = length (pm_peers pm)"

definition downloadable_peers :: "peer_manager \<Rightarrow> sock_addr list" where
  "downloadable_peers pm =
     map fst (filter (\<lambda>(a, s). am_interested s \<and> \<not> peer_choking s) (pm_peers pm))"

section \<open>Operations\<close>

fun add_peers :: "sock_addr list \<Rightarrow> peer_manager \<Rightarrow> peer_manager" where
  "add_peers [] pm = pm"
| "add_peers (addr # addrs) pm =
     (if KNOWN_LIMIT \<le> length (known_addrs pm) then pm
      else if addr \<notin> set (known_addrs pm) then
        add_peers addrs (pm\<lparr>known_addrs := known_addrs pm @ [addr],
                            pending_peers := pending_peers pm @ [addr]\<rparr>)
      else add_peers addrs pm)"

definition requeue_peer :: "sock_addr \<Rightarrow> peer_manager \<Rightarrow> peer_manager" where
  "requeue_peer addr pm =
     (if addr \<notin> fst ` set (pm_peers pm) \<and> addr \<notin> set (connecting pm)
      then pm\<lparr>pending_peers := pending_peers pm @ [addr]\<rparr> else pm)"

definition new_peer_state :: peer_state where
  "new_peer_state = \<lparr>cmd_tx = \<lparr>ch_queue = [], ch_closed = False\<rparr>, am_interested = False,
     peer_choking = True, bytes_downloaded = 0, outstanding_requests = 0,
     supports_extensions = False, remote_ext_handshake = None, throughput_sample_bytes = 0,
     throughput_mibps = f64_zero\<rparr>"

definition spawn_connection :: "sock_addr \<Rightarrow> peer_manager \<Rightarrow> peer_manager" where
  "spawn_connection addr pm =
     pm\<lparr>connecting := List.insert addr (connecting pm),
        pm_peers := hm_insert addr new_peer_state (pm_peers pm)\<rparr>"

function connect_pending :: "peer_manager \<Rightarrow> peer_manager" where
  "connect_pending pm =
     (if length (pm_peers pm) + length (connecting pm) < max_peers pm
         \<and> length (connecting pm) < HALF_OPEN_LIMIT then
        (case pending_peers pm of
           [] \<Rightarrow> pm
         | addr # rest \<Rightarrow>
             (let pm' = pm\<lparr>pending_peers := rest\<rparr> in
              if addr \<in> fst ` set (pm_peers pm') \<or> addr \<in> set (connecting pm')
              then connect_pending pm' else connect_pending (spawn_connection addr pm')))
      else pm)"
  by pat_completeness auto
termination
  by (relation "measure (\<lambda>pm. length (pending_peers pm))") (auto simp: spawn_connection_def)

declare connect_pending.simps [simp del]

fun handle_event :: "sock_addr \<Rightarrow> peer_event \<Rightarrow> peer_manager \<Rightarrow> peer_manager" where
  "handle_event addr (EvConnected _ _ ext) pm =
     peer_update addr (\<lambda>s. s\<lparr>supports_extensions := ext\<rparr>)
       (pm\<lparr>connecting := removeAll addr (connecting pm)\<rparr>)"
| "handle_event addr EvUnchoked pm = peer_update addr (\<lambda>s. s\<lparr>peer_choking := False\<rparr>) pm"
| "handle_event addr EvChoked pm = peer_update addr (\<lambda>s. s\<lparr>peer_choking := True\<rparr>) pm"
| "handle_event addr (EvBlock _ _ data) pm =
     peer_update addr (\<lambda>s. s\<lparr>bytes_downloaded := bytes_downloaded s + length data\<rparr>) pm"
| "handle_event addr (EvExtHandshake hs) pm =
     peer_update addr (\<lambda>s. s\<lparr>remote_ext_handshake := Some hs\<rparr>) pm"
| "handle_event addr (EvDisconnected _) pm =
     pm\<lparr>pm_peers := hm_remove addr (pm_peers pm), connecting := removeAll addr (connecting pm)\<rparr>"
| "handle_event addr _ pm = pm"

text \<open>\<open>try_send\<close> on the channel: refused when the channel is full or its receiver is gone.\<close>

definition try_send :: "peer_command \<Rightarrow> cmd_channel \<Rightarrow> cmd_channel \<times> bool" where
  "try_send cmd ch =
     (if ch_closed ch \<or> CHANNEL_CAPACITY \<le> length (ch_queue ch) then (ch, False)
      else (ch\<lparr>ch_queue := ch_queue ch @ [cmd]\<rparr>, True))"

definition send_command :: "sock_addr \<Rightarrow> peer_command \<Rightarrow> peer_manager \<Rightarrow> peer_manager \<times> bool" where
  "send_command addr cmd pm = (case map_of (pm_peers pm) addr of
       None \<Rightarrow> (pm, False)
     | Some s \<Rightarrow> (case try_send cmd (cmd_tx s) of (ch, ok) \<Rightarrow>
           (pm\<lparr>pm_peers := hm_insert addr (s\<lparr>cmd_tx := ch\<rparr>) (pm_peers pm)\<rparr>, ok)))"

definition broadcast :: "peer_command \<Rightarrow> peer_manager \<Rightarrow> peer_manager" where
  "broadcast cmd pm =
     pm\<lparr>pm_peers := map (\<lambda>(a, s). (a, s\<lparr>cmd_tx := fst (try_send cmd (cmd_tx s))\<rparr>)) (pm_peers pm)\<rparr>"

text \<open>The connection task's side of the channel: it takes the oldest command, or ends.\<close>

definition task_recv :: "sock_addr \<Rightarrow> peer_manager \<Rightarrow> peer_manager" where
  "task_recv addr pm =
     peer_update addr (\<lambda>s. s\<lparr>cmd_tx := (cmd_tx s)\<lparr>ch_queue := tl (ch_queue (cmd_tx s))\<rparr>\<rparr>) pm"

definition task_ended :: "sock_addr \<Rightarrow> peer_manager \<Rightarrow> peer_manager" where
  "task_ended addr pm =
     peer_update addr (\<lambda>s. s\<lparr>cmd_tx := (cmd_tx s)\<lparr>ch_queue := [], ch_closed := True\<rparr>\<rparr>) pm"

section \<open>Choking\<close>

definition UNCHOKE_SLOTS :: nat where "UNCHOKE_SLOTS = 4"

definition ranked_peers :: "peer_manager \<Rightarrow> (sock_addr \<times> nat) list" where
  "ranked_peers pm = sort_key (\<lambda>(_, b). - int b)
     (List.map_filter (\<lambda>addr. map_option (\<lambda>s. (addr, bytes_downloaded s)) (peer_state_of pm addr))
       (connected_peers pm))"

text \<open>\<open>choose\<close> takes the element at a random index of a non-empty slice.\<close>

definition run_choking_algorithm ::
  "nat \<Rightarrow> bool \<Rightarrow> peer_manager \<Rightarrow> (sock_addr \<times> peer_command) list" where
  "run_choking_algorithm random optimistic_round pm =
     (if connected_peers pm = [] then []
      else (let ranked = ranked_peers pm;
                top = map fst (take UNCHOKE_SLOTS ranked);
                choked = map fst (drop UNCHOKE_SLOTS ranked);
                lucky = (if optimistic_round \<and> choked \<noteq> []
                         then [choked ! (random mod length choked)] else []);
                unchoked = top @ lucky in
        map (\<lambda>a. (a, SendUnchoke)) unchoked
          @ map (\<lambda>a. (a, SendChoke)) (filter (\<lambda>a. a \<notin> set unchoked) (map fst ranked))))"

section \<open>The invariant of the pool\<close>

text \<open>
  Every address ever learned is in exactly one place: waiting, or in the table of connections, or it
  is one of the \<open>lost\<close> ones, whose end was handled without putting them back in the queue.
  A connection being opened is in the table already, so it counts twice against the limit.
\<close>

definition pm_keys :: "peer_manager \<Rightarrow> sock_addr list" where
  "pm_keys pm = map fst (pm_peers pm)"

definition pool_inv :: "sock_addr set \<Rightarrow> peer_manager \<Rightarrow> bool" where
  "pool_inv lost pm \<longleftrightarrow> distinct (pending_peers pm @ pm_keys pm)
     \<and> set (pending_peers pm) \<union> set (pm_keys pm) \<subseteq> set (known_addrs pm)
     \<and> set (known_addrs pm) \<subseteq> set (pending_peers pm) \<union> set (pm_keys pm) \<union> lost
     \<and> distinct (known_addrs pm) \<and> length (known_addrs pm) \<le> KNOWN_LIMIT
     \<and> distinct (connecting pm) \<and> set (connecting pm) \<subseteq> set (pm_keys pm)
     \<and> length (connecting pm) \<le> HALF_OPEN_LIMIT \<and> length (pm_peers pm) \<le> max_peers pm
     \<and> length (pm_peers pm) + length (connecting pm) \<le> max_peers pm + 1"

abbreviation pm_inv :: "peer_manager \<Rightarrow> bool" where
  "pm_inv \<equiv> pool_inv {}"

lemma pm_keys_hm_wf: "hm_wf (pm_peers pm) \<longleftrightarrow> distinct (pm_keys pm)"
  by (simp add: hm_wf_def pm_keys_def)

lemma pm_invD:
  assumes "pool_inv lost pm"
  shows "hm_wf (pm_peers pm)" and "distinct (pm_keys pm)"
  using assms by (simp_all add: pool_inv_def pm_keys_hm_wf)

lemma hm_insert_fst: "map fst (hm_insert k v m) = (if k \<in> fst ` set m then map fst m else map fst m @ [k])"
  by (induction k v m rule: hm_insert.induct) auto

lemma pm_new_inv [simp, inv_intros]: "pool_inv lost (pm_new limit)"
  by (simp add: pool_inv_def pm_new_def pm_keys_def)

text \<open>Operations that only touch the state of one peer.\<close>

definition same_pool :: "peer_manager \<Rightarrow> peer_manager \<Rightarrow> bool" where
  "same_pool pm pm' \<longleftrightarrow> pm_keys pm' = pm_keys pm \<and> pending_peers pm' = pending_peers pm
     \<and> known_addrs pm' = known_addrs pm \<and> connecting pm' = connecting pm
     \<and> max_peers pm' = max_peers pm"

lemma same_pool_refl [simp, intro]: "same_pool pm pm"
  by (simp add: same_pool_def)

lemma same_pool_trans [trans]: "same_pool pm pm' \<Longrightarrow> same_pool pm' pm'' \<Longrightarrow> same_pool pm pm''"
  by (simp add: same_pool_def)

lemma same_pool_inv: "same_pool pm pm' \<Longrightarrow> pool_inv lost pm' = pool_inv lost pm"
proof -
  assume a: "same_pool pm pm'"
  then have "length (pm_peers pm') = length (pm_peers pm)"
    by (metis same_pool_def pm_keys_def length_map)
  with a show ?thesis by (simp add: pool_inv_def same_pool_def)
qed

lemma peer_update_same: "same_pool pm (peer_update addr f pm)"
  by (auto simp: peer_update_def same_pool_def pm_keys_def hm_insert_fst hm_get_in
      split: option.splits)

lemma send_command_same: "same_pool pm (fst (send_command addr cmd pm))"
  by (auto simp: send_command_def same_pool_def pm_keys_def hm_insert_fst hm_get_in
      split: option.splits prod.splits)

lemma broadcast_same: "same_pool pm (broadcast cmd pm)"
  by (simp add: broadcast_def same_pool_def pm_keys_def case_prod_unfold comp_def)

lemma hm_remove_fst: "map fst (hm_remove k m) = removeAll k (map fst m)"
  by (induction m) (auto simp: hm_remove_def)

text \<open>The operations that move addresses about.\<close>

lemma add_peers_inv [inv_intros]: "pool_inv lost pm \<Longrightarrow> pool_inv lost (add_peers addrs pm)"
proof (induction addrs pm rule: add_peers.induct)
  case (2 addr addrs pm)
  have "pool_inv lost (pm\<lparr>known_addrs := known_addrs pm @ [addr], pending_peers := pending_peers pm @ [addr]\<rparr>)"
    if "\<not> KNOWN_LIMIT \<le> length (known_addrs pm)" and "addr \<notin> set (known_addrs pm)"
    using "2.prems" that by (auto simp: pool_inv_def pm_keys_def)
  with 2 show ?case by simp
qed simp

lemma spawn_fields [simp]:
  "pending_peers (spawn_connection addr pm) = pending_peers pm"
  "known_addrs (spawn_connection addr pm) = known_addrs pm"
  "max_peers (spawn_connection addr pm) = max_peers pm"
  by (simp_all add: spawn_connection_def)

lemma spawn_inv:
  assumes "pool_inv lost pm" and "pending_peers pm = addr # rest"
    and "length (pm_peers pm) + length (connecting pm) < max_peers pm"
    and "length (connecting pm) < HALF_OPEN_LIMIT"
  shows "pool_inv lost (spawn_connection addr (pm\<lparr>pending_peers := rest\<rparr>))"
proof -
  let ?pm = "spawn_connection addr (pm\<lparr>pending_peers := rest\<rparr>)"
  have new: "addr \<notin> set (pm_keys pm)" "addr \<notin> set (connecting pm)"
    using assms(1,2) by (auto simp: pool_inv_def)
  then have nin: "addr \<notin> fst ` set (pm_peers pm)" by (simp add: pm_keys_def)
  have keys: "pm_keys ?pm = pm_keys pm @ [addr]"
    using nin by (simp add: spawn_connection_def pm_keys_def hm_insert_fst)
  have len: "length (pm_peers ?pm) = Suc (length (pm_peers pm))"
    using nin by (simp add: spawn_connection_def length_hm_insert)
  have conn: "connecting ?pm = addr # connecting pm"
    using new(2) by (simp add: spawn_connection_def)
  show ?thesis
    using assms new unfolding pool_inv_def keys len conn by auto
qed

lemma connect_pending_inv [inv_intros]: "pool_inv lost pm \<Longrightarrow> pool_inv lost (connect_pending pm)"
proof (induction pm rule: connect_pending.induct)
  case (1 pm)
  show ?case
  proof (cases "length (pm_peers pm) + length (connecting pm) < max_peers pm
      \<and> length (connecting pm) < HALF_OPEN_LIMIT")
    case True
    show ?thesis
    proof (cases "pending_peers pm")
      case Nil
      with "1.prems" show ?thesis by (simp add: connect_pending.simps)
    next
      case (Cons addr rest)
      then have "addr \<notin> fst ` set (pm_peers pm) \<and> addr \<notin> set (connecting pm)"
        using "1.prems" by (auto simp: pool_inv_def pm_keys_def)
      then show ?thesis
        using "1.IH"(2) [OF True Cons refl] True Cons spawn_inv [OF "1.prems" Cons]
        by (simp add: connect_pending.simps [of pm] Let_def)
    qed
  next
    case False
    then have "connect_pending pm = pm" by (subst connect_pending.simps) auto
    with "1.prems" show ?thesis by simp
  qed
qed

text \<open>It stops only at a limit or when nobody waits.\<close>

lemma connect_pending_full:
  "pending_peers (connect_pending pm) = [] \<or> HALF_OPEN_LIMIT \<le> length (connecting (connect_pending pm))
   \<or> max_peers pm \<le> length (pm_peers (connect_pending pm)) + length (connecting (connect_pending pm))"
proof (induction pm rule: connect_pending.induct)
  case (1 pm)
  show ?case
  proof (cases "length (pm_peers pm) + length (connecting pm) < max_peers pm
      \<and> length (connecting pm) < HALF_OPEN_LIMIT")
    case True
    show ?thesis
    proof (cases "pending_peers pm")
      case Nil
      then show ?thesis by (simp add: connect_pending.simps [of pm])
    next
      case (Cons addr rest)
      then show ?thesis
        using "1.IH" [OF True Cons refl] True
        by (simp add: connect_pending.simps [of pm] Let_def)
    qed
  next
    case False
    then have "connect_pending pm = pm" by (subst connect_pending.simps) auto
    with False show ?thesis by auto
  qed
qed

lemma removeAll_limits:
  assumes "pool_inv lost pm"
  shows "length (removeAll addr (connecting pm)) \<le> HALF_OPEN_LIMIT"
    and "n \<le> length (pm_peers pm) \<Longrightarrow>
      n + length (removeAll addr (connecting pm)) \<le> Suc (max_peers pm)"
  using assms length_removeAll_less_eq [of addr "connecting pm"] unfolding pool_inv_def by linarith+

lemma handle_event_inv [inv_intros]:
  assumes "pool_inv lost pm" and "\<And>r. ev \<noteq> EvDisconnected r"
  shows "pool_inv lost (handle_event addr ev pm)"
proof -
  have conn: "pool_inv lost (pm\<lparr>connecting := removeAll addr (connecting pm)\<rparr>)"
    using assms(1) removeAll_limits [OF assms(1), where addr = addr]
    by (auto simp: pool_inv_def pm_keys_def distinct_removeAll)
  have upd: "pool_inv lost (peer_update addr f pm')" if "pool_inv lost pm'" for f pm'
    using same_pool_inv [OF peer_update_same] that by blast
  show ?thesis
    using assms by (cases ev) (auto simp: upd conn)
qed

text \<open>A connection that has ended: its address goes back to the queue.\<close>

lemma gone_inv:
  assumes "pool_inv lost pm" and "addr \<in> set (pm_keys pm)"
  shows "pool_inv lost (requeue_peer addr (handle_event addr (EvDisconnected r) pm))"
proof -
  let ?pm = "requeue_peer addr (handle_event addr (EvDisconnected r) pm)"
  have keys: "pm_keys ?pm = removeAll addr (pm_keys pm)"
    and pend: "pending_peers ?pm = pending_peers pm @ [addr]"
    and conn: "connecting ?pm = removeAll addr (connecting pm)"
    and same: "known_addrs ?pm = known_addrs pm" "max_peers ?pm = max_peers pm"
    and peers: "pm_peers ?pm = hm_remove addr (pm_peers pm)"
    by (simp_all add: requeue_peer_def pm_keys_def hm_remove_fst)
  have "length (pm_peers ?pm) \<le> length (pm_peers pm)" unfolding peers by (simp add: hm_remove_def)
  then show ?thesis
    using assms removeAll_limits [OF assms(1), where addr = addr]
    unfolding pool_inv_def keys pend conn same by (auto simp: distinct_removeAll)
qed

text \<open>A connection that has ended and is forgotten.\<close>

lemma forgotten_inv:
  assumes "pool_inv lost pm" and "addr \<in> lost"
  shows "pool_inv lost (handle_event addr (EvDisconnected r) pm)"
proof -
  let ?pm = "handle_event addr (EvDisconnected r) pm"
  have keys: "pm_keys ?pm = removeAll addr (pm_keys pm)" and conn: "connecting ?pm = removeAll addr (connecting pm)"
    and same: "pending_peers ?pm = pending_peers pm" "known_addrs ?pm = known_addrs pm" "max_peers ?pm = max_peers pm"
    and peers: "pm_peers ?pm = hm_remove addr (pm_peers pm)"
    by (simp_all add: pm_keys_def hm_remove_fst)
  have "length (pm_peers ?pm) \<le> length (pm_peers pm)" unfolding peers by (simp add: hm_remove_def)
  then show ?thesis
    using assms removeAll_limits [OF assms(1), where addr = addr]
    unfolding pool_inv_def keys conn same by (auto simp: distinct_removeAll)
qed

section \<open>The pool as a machine\<close>

datatype pool_event =
    PoolAdd "sock_addr list"
  | PoolConnect
  | PoolEvent sock_addr peer_event
  | PoolGone sock_addr "conn_error option"
  | PoolSend sock_addr peer_command
  | PoolBroadcast peer_command
  | PoolRecv sock_addr
  | PoolTaskEnd sock_addr

fun pool_step :: "peer_manager \<Rightarrow> pool_event \<Rightarrow> peer_manager" where
  "pool_step pm (PoolAdd addrs) = add_peers addrs pm"
| "pool_step pm PoolConnect = connect_pending pm"
| "pool_step pm (PoolEvent addr ev) = handle_event addr ev pm"
| "pool_step pm (PoolGone addr r) = requeue_peer addr (handle_event addr (EvDisconnected r) pm)"
| "pool_step pm (PoolSend addr cmd) = fst (send_command addr cmd pm)"
| "pool_step pm (PoolBroadcast cmd) = broadcast cmd pm"
| "pool_step pm (PoolRecv addr) = task_recv addr pm"
| "pool_step pm (PoolTaskEnd addr) = task_ended addr pm"

text \<open>
  A connection task reports its end once, as its last event, and its entry stays in the table
  until that event is handled. The session puts its address back in the queue (\<open>PoolGone\<close>), the magnet
  loop only handles the event: \<open>lost\<close> are the addresses for which that may happen.
\<close>

fun pool_may :: "sock_addr set \<Rightarrow> peer_manager \<Rightarrow> pool_event \<Rightarrow> bool" where
  "pool_may lost pm (PoolGone addr r) = (addr \<in> set (pm_keys pm))"
| "pool_may lost pm (PoolEvent addr ev) = (case ev of EvDisconnected _ \<Rightarrow> addr \<in> lost | _ \<Rightarrow> True)"
| "pool_may lost pm _ = True"

lemma max_peers_simps [simp]:
  "max_peers (peer_update addr f pm) = max_peers pm"
  "max_peers (fst (send_command addr cmd pm)) = max_peers pm"
  "max_peers (broadcast cmd pm) = max_peers pm" "max_peers (requeue_peer addr pm) = max_peers pm"
  "max_peers (handle_event addr ev pm) = max_peers pm" "max_peers (add_peers addrs pm) = max_peers pm"
proof -
  show upd: "max_peers (peer_update addr f pm) = max_peers pm" for f pm
    using peer_update_same [of pm addr f] by (simp add: same_pool_def)
  show "max_peers (fst (send_command addr cmd pm)) = max_peers pm"
    using send_command_same [of pm addr cmd] by (simp add: same_pool_def)
  show "max_peers (broadcast cmd pm) = max_peers pm" "max_peers (requeue_peer addr pm) = max_peers pm"
    by (simp_all add: broadcast_def requeue_peer_def)
  show "max_peers (handle_event addr ev pm) = max_peers pm" by (cases ev) (simp_all add: upd)
  show "max_peers (add_peers addrs pm) = max_peers pm" by (induction addrs pm rule: add_peers.induct) auto
qed

lemma max_peers_connect [simp]: "max_peers (connect_pending pm) = max_peers pm"
proof (induction pm rule: connect_pending.induct)
  case (1 pm)
  then show ?case by (subst connect_pending.simps) (auto simp: Let_def split: list.splits)
qed

lemma pool_step_inv: "pool_inv lost pm \<Longrightarrow> pool_may lost pm e \<Longrightarrow> pool_inv lost (pool_step pm e)"
proof (cases e)
  case (PoolEvent addr ev)
  then show "pool_inv lost pm \<Longrightarrow> pool_may lost pm e \<Longrightarrow> pool_inv lost (pool_step pm e)"
    by (cases ev) (simp_all add: handle_event_inv forgotten_inv del: handle_event.simps)
qed (simp_all add: add_peers_inv connect_pending_inv gone_inv [simplified] task_recv_def task_ended_def
  same_pool_inv [OF peer_update_same] same_pool_inv [OF send_command_same]
  same_pool_inv [OF broadcast_same])

lemma max_peers_step [simp]: "max_peers (pool_step pm e) = max_peers pm"
  by (cases e) (simp_all add: task_recv_def task_ended_def)

interpretation pool_machine: machine "pool_may lost" pool_step "\<lambda>pm. pool_inv lost pm \<and> max_peers pm = limit"
  by unfold_locales (simp add: pool_step_inv)

text \<open>C36. The connection pool accounts for every peer and keeps its limits: through any sequence of
  discoveries, connections, events, commands and disconnects every address learned is waiting once or
  has one connection, never both; only addresses whose disconnect was handled without putting them back
  (\<open>lost\<close>: none in a session, any in the magnet loop) may be neither. At most the configured number of
  connections exists, at most 20 of them half open, and at most 10,000 addresses are known.\<close>

theorem pool_accounts_for_every_peer:
  assumes "run_events (pool_may lost) pool_step (pm_new limit) es = Some pm"
  shows "distinct (pending_peers pm @ connected_peers pm)
    \<and> set (pending_peers pm) \<union> set (connected_peers pm) \<subseteq> set (known_addrs pm)
    \<and> set (known_addrs pm) \<subseteq> set (pending_peers pm) \<union> set (connected_peers pm) \<union> lost
    \<and> peer_count pm \<le> limit \<and> length (connecting pm) \<le> 20
    \<and> set (connecting pm) \<subseteq> set (connected_peers pm) \<and> length (known_addrs pm) \<le> 10000"
  using pool_machine.run_inv [OF _ assms, of limit]
  by (simp add: pool_inv_def connected_peers_def pm_keys_def peer_count_def HALF_OPEN_LIMIT_def
      KNOWN_LIMIT_def) (simp add: pm_new_def)

definition example_pool_events :: "pool_event list" where
  "example_pool_events = [PoolAdd [example_peer, (IPv4 10 0 0 2, 1)], PoolConnect, PoolEvent example_peer EvUnchoked,
     PoolGone example_peer None, PoolEvent (IPv4 10 0 0 2, 1) (EvDisconnected None)]"

theorem pool_accounts_for_every_peer_witness:
  "\<exists>pm. run_events (pool_may {(IPv4 10 0 0 2, 1)}) pool_step (pm_new 2) example_pool_events = Some pm
    \<and> set (known_addrs pm) \<subseteq> set (pending_peers pm) \<union> set (connected_peers pm) \<union> {(IPv4 10 0 0 2, 1)}
    \<and> peer_count pm \<le> 2"
proof -
  have "run_events (pool_may {(IPv4 10 0 0 2, 1)}) pool_step (pm_new 2) example_pool_events \<noteq> None"
    by code_simp
  then obtain pm where pm: "run_events (pool_may {(IPv4 10 0 0 2, 1)}) pool_step (pm_new 2) example_pool_events = Some pm"
    by blast
  then show ?thesis using pool_accounts_for_every_peer [OF pm] by blast
qed

section \<open>Who is unchoked\<close>

lemma ranked_peers_eq:
  assumes "hm_wf (pm_peers pm)"
  shows "ranked_peers pm =
    sort_key (\<lambda>(_, b). - int b) (map (\<lambda>(a, s). (a, bytes_downloaded s)) (pm_peers pm))"
proof -
  have "List.map_filter (\<lambda>a. map_option (\<lambda>s. (a, bytes_downloaded s)) (peer_state_of pm a)) (map fst ps)
      = map (\<lambda>(a, s). (a, bytes_downloaded s)) ps" if "set ps \<subseteq> set (pm_peers pm)" for ps
    using that
  proof (induction ps)
    case (Cons p ps)
    then have "map_of (pm_peers pm) (fst p) = Some (snd p)"
      using assms by (simp add: hm_wf_def)
    with Cons show ?case
      by (simp add: List.map_filter_simps peer_state_of_def case_prod_unfold)
  qed (simp add: List.map_filter_simps)
  then show ?thesis by (simp add: ranked_peers_def connected_peers_def)
qed

definition unchokes :: "(sock_addr \<times> peer_command) list \<Rightarrow> sock_addr list" where
  "unchokes cmds = map fst (filter (\<lambda>(a, c). c = SendUnchoke) cmds)"

definition chokes :: "(sock_addr \<times> peer_command) list \<Rightarrow> sock_addr list" where
  "chokes cmds = map fst (filter (\<lambda>(a, c). c = SendChoke) cmds)"

definition rate_of :: "peer_manager \<Rightarrow> sock_addr \<Rightarrow> nat" where
  "rate_of pm a = (case peer_state_of pm a of None \<Rightarrow> 0 | Some s \<Rightarrow> bytes_downloaded s)"

lemma set_ranked:
  "hm_wf (pm_peers pm) \<Longrightarrow> set (ranked_peers pm) = (\<lambda>(a, s). (a, bytes_downloaded s)) ` set (pm_peers pm)"
  and distinct_ranked: "hm_wf (pm_peers pm) \<Longrightarrow> distinct (map fst (ranked_peers pm))"
  and length_ranked: "hm_wf (pm_peers pm) \<Longrightarrow> length (ranked_peers pm) = peer_count pm"
proof -
  assume wf: "hm_wf (pm_peers pm)"
  show "set (ranked_peers pm) = (\<lambda>(a, s). (a, bytes_downloaded s)) ` set (pm_peers pm)"
    by (simp add: ranked_peers_eq [OF wf])
  show "length (ranked_peers pm) = peer_count pm"
    by (simp add: ranked_peers_eq [OF wf] peer_count_def)
  have "mset (map fst (ranked_peers pm)) = mset (map fst (pm_peers pm))"
    by (simp add: ranked_peers_eq [OF wf] multiset.map_comp comp_def case_prod_unfold)
  then show "distinct (map fst (ranked_peers pm))"
    using wf by (metis hm_wf_def mset_eq_imp_distinct_iff)
qed

lemma ranked_rate: "hm_wf (pm_peers pm) \<Longrightarrow> (a, b) \<in> set (ranked_peers pm) \<Longrightarrow> rate_of pm a = b"
  by (auto simp: set_ranked rate_of_def peer_state_of_def hm_wf_def)

lemma ranked_order:
  assumes "hm_wf (pm_peers pm)" and "x \<in> set (take n (ranked_peers pm))"
    and "y \<in> set (drop n (ranked_peers pm))"
  shows "snd y \<le> snd x"
proof -
  let ?f = "\<lambda>(_, b). - int b :: int"
  have "sorted (map ?f (ranked_peers pm))"
    by (simp add: ranked_peers_eq [OF assms(1)])
  then have "sorted (map ?f (take n (ranked_peers pm)) @ map ?f (drop n (ranked_peers pm)))"
    by (metis append_take_drop_id map_append)
  then have "?f x \<le> ?f y" using assms(2,3) unfolding sorted_append by auto
  then show ?thesis by (simp add: case_prod_unfold)
qed

lemma choking_eq:
  assumes "hm_wf (pm_peers pm)" and "run_choking_algorithm r optimistic pm = cmds"
  defines "ranked \<equiv> map fst (ranked_peers pm)"
  obtains lucky where "unchokes cmds = take 4 ranked @ lucky"
    and "chokes cmds = filter (\<lambda>a. a \<notin> set (take 4 ranked @ lucky)) ranked"
    and "cmds = map (\<lambda>a. (a, SendUnchoke)) (unchokes cmds) @ map (\<lambda>a. (a, SendChoke)) (chokes cmds)"
    and "set lucky \<subseteq> set (drop 4 ranked)"
    and "length lucky = (if optimistic \<and> 4 < length ranked then 1 else 0)"
proof -
  let ?choked = "drop 4 ranked"
  let ?lucky = "if optimistic \<and> ?choked \<noteq> [] then [?choked ! (r mod length ?choked)] else []"
  let ?un = "take 4 ranked @ ?lucky" and ?ch = "filter (\<lambda>a. a \<notin> set (take 4 ranked @ ?lucky)) ranked"
  have eq: "cmds = map (\<lambda>a. (a, SendUnchoke)) ?un @ map (\<lambda>a. (a, SendChoke)) ?ch"
  proof (cases "connected_peers pm = []")
    case True
    then have "ranked = []" using length_ranked [OF assms(1)]
      by (simp add: ranked_def peer_count_def connected_peers_def)
    with True assms(2) show ?thesis by (simp add: run_choking_algorithm_def)
  next
    case False
    then show ?thesis
      using assms(2) [symmetric]
      unfolding run_choking_algorithm_def ranked_def UNCHOKE_SLOTS_def Let_def take_map drop_map
      by (simp only: if_False)
  qed
  have un: "unchokes cmds = ?un" and ch: "chokes cmds = ?ch"
    unfolding eq unchokes_def chokes_def filter_append filter_map comp_def map_append by (simp_all add: comp_def)
  have sub: "set ?lucky \<subseteq> set ?choked"
    by (cases "?choked = []") (auto simp del: nth_drop length_drop intro: nth_mem)
  show thesis
    by (rule that [OF un ch _ sub]) (use eq un ch in \<open>simp_all add: not_le\<close>)
qed

text \<open>One round of choking tells every connected peer exactly once whether it is unchoked:
  four are, or all when there are fewer, plus one more in an optimistic round when there is one
  left, and no peer that is choked has sent more than any of the first four.\<close>

theorem choking_round:
  assumes "hm_wf (pm_peers pm)" and "run_choking_algorithm r optimistic pm = cmds"
  shows "distinct (map fst cmds) \<and> fst ` set cmds = set (connected_peers pm)
    \<and> snd ` set cmds \<subseteq> {SendUnchoke, SendChoke}
    \<and> length (unchokes cmds) =
        min 4 (peer_count pm) + (if optimistic \<and> 4 < peer_count pm then 1 else 0)
    \<and> (\<forall>a \<in> set (take 4 (unchokes cmds)). \<forall>b \<in> set (chokes cmds). rate_of pm b \<le> rate_of pm a)"
proof -
  let ?ranked = "map fst (ranked_peers pm)"
  obtain lucky where un: "unchokes cmds = take 4 ?ranked @ lucky"
    and ch: "chokes cmds = filter (\<lambda>a. a \<notin> set (take 4 ?ranked @ lucky)) ?ranked"
    and cmds: "cmds = map (\<lambda>a. (a, SendUnchoke)) (unchokes cmds) @ map (\<lambda>a. (a, SendChoke)) (chokes cmds)"
    and lucky: "set lucky \<subseteq> set (drop 4 ?ranked)"
    and len: "length lucky = (if optimistic \<and> 4 < length ?ranked then 1 else 0)"
    using choking_eq [OF assms] .
  have n: "length ?ranked = peer_count pm" using length_ranked [OF assms(1)] by simp
  have dist: "distinct (take 4 ?ranked @ drop 4 ?ranked)"
    using distinct_ranked [OF assms(1)] by simp
  have keys: "map fst cmds = unchokes cmds @ chokes cmds"
    by (subst cmds) (simp add: comp_def)
  have "set (take 4 ?ranked) \<inter> set lucky = {}"
    using dist lucky unfolding distinct_append by blast
  moreover have "distinct lucky" using len by (auto simp: length_Suc_conv split: if_splits)
  ultimately have 1: "distinct (map fst cmds)"
    unfolding keys un ch using distinct_ranked [OF assms(1)] by auto
  have sub: "set (take 4 ?ranked @ lucky) \<subseteq> set ?ranked"
    using lucky set_take_subset [of 4 ?ranked] set_drop_subset [of 4 ?ranked] by auto
  then have "set (map fst cmds) = set ?ranked" unfolding keys un ch by auto
  then have 2: "fst ` set cmds = set (connected_peers pm)"
    using set_ranked [OF assms(1)] by (simp add: connected_peers_def image_image case_prod_unfold)
  have 3: "snd ` set cmds \<subseteq> {SendUnchoke, SendChoke}" by (subst cmds) auto
  have 4: "length (unchokes cmds) =
      min 4 (peer_count pm) + (if optimistic \<and> 4 < peer_count pm then 1 else 0)"
    unfolding un using len n by simp
  have "take 4 (unchokes cmds) = take 4 ?ranked" unfolding un using len by (auto split: if_splits)
  moreover have "rate_of pm b \<le> rate_of pm a"
    if a: "a \<in> set (take 4 ?ranked)" and b: "b \<in> set (chokes cmds)" for a b
  proof -
    obtain x where x: "x \<in> set (take 4 (ranked_peers pm))" "a = fst x" using a unfolding take_map by fastforce
    have "b \<in> set (drop 4 ?ranked)"
      using b unfolding ch by (metis (mono_tags, lifting) append_take_drop_id filter_is_subset
          mem_Collect_eq set_append set_filter Un_iff)
    then obtain y where y: "y \<in> set (drop 4 (ranked_peers pm))" "b = fst y" unfolding drop_map by fastforce
    have "rate_of pm a = snd x" "rate_of pm b = snd y"
      using x y ranked_rate [OF assms(1)] by (metis in_set_takeD in_set_dropD prod.collapse)+
    then show ?thesis using ranked_order [OF assms(1) x(1) y(1)] by simp
  qed
  ultimately show ?thesis using 1 2 3 4 by simp
qed

definition busy_pool :: peer_manager where
  "busy_pool = (pm_new 10)\<lparr>pm_peers :=
     map (\<lambda>i. ((IPv4 10 0 0 (of_nat i), 1), new_peer_state\<lparr>bytes_downloaded := i\<rparr>)) [0..<6]\<rparr>"

theorem choking_round_witness:
  "length (unchokes (run_choking_algorithm 1 True busy_pool)) = 5
    \<and> chokes (run_choking_algorithm 1 True busy_pool) = [(IPv4 10 0 0 1, 1)]
    \<and> rate_of busy_pool (IPv4 10 0 0 1, 1) \<le> rate_of busy_pool (IPv4 10 0 0 2, 1)"
proof -
  have wf: "hm_wf (pm_peers busy_pool)" and n: "peer_count busy_pool = 6" by code_simp+
  have ch: "chokes (run_choking_algorithm 1 True busy_pool) = [(IPv4 10 0 0 1, 1)]"
    and top: "(IPv4 10 0 0 2, 1) \<in> set (take 4 (unchokes (run_choking_algorithm 1 True busy_pool)))"
    by code_simp+
  show ?thesis
    using choking_round [OF wf refl, of 1 True] n ch top by simp
qed

end
