(* ===== verification/Metainfo.thy ===== *)
theory Metainfo
  imports Bencode_Correct Wire
begin

text \<open>
  The \<open>.torrent\<close> file (\<open>src/src/torrent/metainfo.rs\<close>): parsing and checking the info
  dictionary, the info hash over its raw bytes, and the two ways a magnet download builds a
  torrent from the info dictionary it received. SHA-1 is a parameter. A \<open>PathBuf\<close> is the list
  of its components. Sums of \<open>u64\<close> wrap, as they do in the release build.
\<close>

datatype metainfo_error =
    MDecode decode_error
  | MissingField string
  | InvalidFieldType string
  | InvalidPiecesLength nat
  | InvalidPieceLength
  | NegativeFileLength u64
  | PathTraversal string

type_synonym path = "bytes list"

record file_entry =
  fe_length :: u64
  fe_path :: path

datatype file_layout = Single u64 | Multi "file_entry list"

record info =
  info_piece_length :: u32
  info_pieces :: "bytes list"
  info_name :: bytes
  info_files :: file_layout
  info_total_length :: u64

record metainfo =
  mi_info_hash :: bytes
  mi_info :: info
  mi_announce :: "bytes option"
  mi_announce_list :: "bytes list list option"
  mi_creation_date :: "u64 option"
  mi_comment :: "bytes option"
  mi_created_by :: "bytes option"

section \<open>The info dictionary\<close>

definition bad_name :: "bytes \<Rightarrow> bool" where
  "bad_name name \<longleftrightarrow> name = [] \<or> 47 \<in> set name \<or> 92 \<in> set name \<or> contains_sub name [46, 46]"

definition bad_component :: "bytes \<Rightarrow> bool" where
  "bad_component c \<longleftrightarrow> c = [] \<or> c = [46, 46] \<or> 47 \<in> set c \<or> 92 \<in> set c"

definition str_items :: "bvalue list \<Rightarrow> bytes list" where
  "str_items l = List.map_filter as_str l"

text \<open>One entry of \<open>files\<close>.\<close>

definition parse_file :: "bvalue \<Rightarrow> metainfo_error + file_entry" where
  "parse_file f = (case Option.bind (get_str f ''length'') as_int of
       None \<Rightarrow> Inl (MissingField ''files[].length'')
     | Some length_raw \<Rightarrow>
         if sint length_raw < 0 then Inl (NegativeFileLength length_raw)
         else (case Option.bind (get_str f ''path'') as_list of
             None \<Rightarrow> Inl (MissingField ''files[].path'')
           | Some path_list \<Rightarrow>
               if list_ex bad_component (str_items path_list)
               then Inl (PathTraversal ''files[].path'')
               else Inr \<lparr>fe_length = length_raw, fe_path = str_items path_list\<rparr>))"

fun parse_files :: "bvalue list \<Rightarrow> metainfo_error + file_entry list" where
  "parse_files [] = Inr []"
| "parse_files (f # fs) = (case parse_file f of Inl e \<Rightarrow> Inl e
     | Inr entry \<Rightarrow> (case parse_files fs of Inl e \<Rightarrow> Inl e | Inr es \<Rightarrow> Inr (entry # es)))"

definition parse_layout :: "bvalue \<Rightarrow> metainfo_error + file_layout" where
  "parse_layout val = (case get_str val ''files'' of
       Some files_val \<Rightarrow>
         (case as_list files_val of
            None \<Rightarrow> Inl (InvalidFieldType ''files'')
          | Some l \<Rightarrow> (case parse_files l of Inl e \<Rightarrow> Inl e | Inr es \<Rightarrow> Inr (Multi es)))
     | None \<Rightarrow>
         (case Option.bind (get_str val ''length'') as_int of
            None \<Rightarrow> Inl (MissingField ''length'')
          | Some length_raw \<Rightarrow>
              if sint length_raw < 0 then Inl (NegativeFileLength length_raw)
              else Inr (Single length_raw)))"

fun layout_length :: "file_layout \<Rightarrow> u64" where
  "layout_length (Single len) = len"
| "layout_length (Multi files) = sum_list (map fe_length files)"

definition word_div_ceil :: "u64 \<Rightarrow> u64 \<Rightarrow> u64" where
  "word_div_ceil a b = (if 0 < a mod b then a div b + 1 else a div b)"

definition parse_info :: "bvalue \<Rightarrow> metainfo_error + info" where
  "parse_info val = (case as_dict val of None \<Rightarrow> Inl (InvalidFieldType ''info'')
     | Some _ \<Rightarrow>
     (case Option.bind (get_str val ''piece length'') as_int of
        None \<Rightarrow> Inl (MissingField ''piece length'')
      | Some plr \<Rightarrow>
      if sint plr \<le> 0 \<or> 256 * 1024 * 1024 < sint plr then Inl InvalidPieceLength
      else (let piece_len = (ucast plr :: u32) in
        case Option.bind (get_str val ''pieces'') as_bytes of
          None \<Rightarrow> Inl (MissingField ''pieces'')
        | Some pieces_raw \<Rightarrow>
        if pieces_raw = [] \<or> length pieces_raw mod 20 \<noteq> 0
        then Inl (InvalidPiecesLength (length pieces_raw))
        else (let pieces = chunks_exact 20 pieces_raw in
          case Option.bind (get_str val ''name'') as_str of
            None \<Rightarrow> Inl (MissingField ''name'')
          | Some name \<Rightarrow>
          if bad_name name then Inl (PathTraversal ''name'')
          else (case parse_layout val of
              Inl e \<Rightarrow> Inl e
            | Inr files \<Rightarrow>
              (let total = layout_length files;
                   expected = word_div_ceil total (ucast piece_len) in
               if total = 0 \<or> expected \<noteq> of_nat (length pieces) then Inl InvalidPieceLength
               else Inr \<lparr>info_piece_length = piece_len, info_pieces = pieces, info_name = name,
                         info_files = files, info_total_length = total\<rparr>))))))"

text \<open>\<open>Info::piece_length\<close> and \<open>Info::blocks_in_piece\<close>.\<close>

definition piece_length_of :: "info \<Rightarrow> nat \<Rightarrow> nat" where
  "piece_length_of i piece_index =
     (if piece_index = as_u32 (length (info_pieces i)) - 1 then
        (let remainder = unat (info_total_length i) mod unat (info_piece_length i) in
         if remainder = 0 then unat (info_piece_length i) else remainder)
      else unat (info_piece_length i))"

definition blocks_in_piece :: "info \<Rightarrow> nat \<Rightarrow> nat" where
  "blocks_in_piece i piece_index = (let n = piece_length_of i piece_index in
     if n mod 16384 = 0 then n div 16384 else n div 16384 + 1)"

section \<open>The info hash\<close>

text \<open>
  The walk over the top-level dictionary, from position \<open>pos\<close>: keys and values are decoded in
  turn, the bytes of the first value under the key \<open>info\<close> are hashed.
\<close>

function find_info :: "(bytes \<Rightarrow> bytes) \<Rightarrow> bytes \<Rightarrow> nat \<Rightarrow> metainfo_error + bytes" where
  "find_info sha1 data pos =
     (if length data \<le> pos then Inl (MissingField ''info'')
      else if data ! pos = 0x65 then Inl (MissingField ''info'')
      else (case bdecode_range (drop pos data) of
          Inl e \<Rightarrow> Inl (MDecode e)
        | Inr (key, klen) \<Rightarrow>
            (case bdecode_range (drop (pos + klen) data) of
               Inl e \<Rightarrow> Inl (MDecode e)
             | Inr (v, vlen) \<Rightarrow>
                 if as_bytes key = Some (ascii ''info'')
                 then Inr (sha1 (slice (pos + klen) (pos + klen + vlen) data))
                 else find_info sha1 data (pos + klen + vlen))))"
  by pat_completeness auto
termination
  by (relation "measure (\<lambda>(sha1, data, pos). length data - pos)") (auto dest!: bdecode_range_ok)

declare find_info.simps [simp del]

definition compute_info_hash :: "(bytes \<Rightarrow> bytes) \<Rightarrow> bytes \<Rightarrow> metainfo_error + bytes" where
  "compute_info_hash sha1 data =
     (if data = [] \<or> data ! 0 \<noteq> 0x64 then Inl (InvalidFieldType ''root'')
      else find_info sha1 data 1)"

section \<open>The whole file\<close>

definition parse_announce_list :: "bvalue \<Rightarrow> bytes list list option" where
  "parse_announce_list v =
     map_option (\<lambda>tiers. map str_items (List.map_filter as_list tiers)) (as_list v)"

definition metainfo_from_bytes :: "(bytes \<Rightarrow> bytes) \<Rightarrow> bytes \<Rightarrow> metainfo_error + metainfo" where
  "metainfo_from_bytes sha1 data = (case bdecode data of
       Inl e \<Rightarrow> Inl (MDecode e)
     | Inr root \<Rightarrow>
     (case as_dict root of None \<Rightarrow> Inl (InvalidFieldType ''root'')
      | Some _ \<Rightarrow>
      (case compute_info_hash sha1 data of
         Inl e \<Rightarrow> Inl e
       | Inr h \<Rightarrow>
       (case get_str root ''info'' of
          None \<Rightarrow> Inl (MissingField ''info'')
        | Some info_val \<Rightarrow>
        (case parse_info info_val of
           Inl e \<Rightarrow> Inl e
         | Inr i \<Rightarrow> Inr
             \<lparr>mi_info_hash = h, mi_info = i,
              mi_announce = Option.bind (get_str root ''announce'') as_str,
              mi_announce_list = Option.bind (get_str root ''announce-list'') parse_announce_list,
              mi_creation_date = Option.bind (get_str root ''creation date'') as_int,
              mi_comment = Option.bind (get_str root ''comment'') as_str,
              mi_created_by = Option.bind (get_str root ''created by'') as_str\<rparr>)))))"

text \<open>\<open>tracker_urls\<close>: the list, then \<open>announce\<close> in front, each URL once.\<close>

fun push_new :: "bytes list \<Rightarrow> bytes list \<Rightarrow> bytes list" where
  "push_new [] urls = urls"
| "push_new (u # us) urls = push_new us (if u \<in> set urls then urls else urls @ [u])"

definition tracker_urls :: "metainfo \<Rightarrow> bytes list" where
  "tracker_urls m =
     (let urls = (case mi_announce_list m of None \<Rightarrow> [] | Some tiers \<Rightarrow> push_new (concat tiers) []) in
      case mi_announce m of None \<Rightarrow> urls
      | Some a \<Rightarrow> if a \<in> set urls then urls else a # urls)"

section \<open>From a magnet download\<close>

definition torrent_dict :: "bvalue \<Rightarrow> bytes list \<Rightarrow> (bytes \<times> bvalue) list" where
  "torrent_dict info_val trackers =
     (let dict = bt_insert (ascii ''info'') info_val [];
          dict = (case trackers of [] \<Rightarrow> dict
                  | t # _ \<Rightarrow> bt_insert (ascii ''announce'') (BBytes t) dict) in
      if 1 < length trackers
      then bt_insert (ascii ''announce-list'') (BList [BList (map BBytes trackers)]) dict
      else dict)"

definition torrent_bytes_from_info :: "bytes \<Rightarrow> bytes list \<Rightarrow> metainfo_error + bytes" where
  "torrent_bytes_from_info raw_info trackers = (case bdecode raw_info of
       Inl e \<Rightarrow> Inl (MDecode e)
     | Inr info_val \<Rightarrow> Inr (encode (BDict (torrent_dict info_val trackers))))"

definition from_info_bytes :: "bytes \<Rightarrow> bytes \<Rightarrow> bytes list \<Rightarrow> metainfo_error + metainfo" where
  "from_info_bytes raw_info info_hash trackers = (case bdecode raw_info of
       Inl e \<Rightarrow> Inl (MDecode e)
     | Inr info_val \<Rightarrow> (case parse_info info_val of
           Inl e \<Rightarrow> Inl e
         | Inr i \<Rightarrow> Inr
             \<lparr>mi_info_hash = info_hash, mi_info = i,
              mi_announce = (case trackers of [] \<Rightarrow> None | t # _ \<Rightarrow> Some t),
              mi_announce_list = (if 1 < length trackers then Some [trackers] else None),
              mi_creation_date = None, mi_comment = None, mi_created_by = None\<rparr>))"

section \<open>What the parser guarantees\<close>

lemma map_filter_Cons:
  "List.map_filter f (x # xs) = (case f x of None \<Rightarrow> List.map_filter f xs | Some y \<Rightarrow> y # List.map_filter f xs)"
  by (cases "f x") (simp_all add: List.map_filter_def)

lemma unat_word_div_ceil: "b \<noteq> 0 \<Longrightarrow> unat (word_div_ceil a b) = div_ceil (unat a) (unat b)"
proof -
  assume "b \<noteq> 0"
  have mod: "0 < a mod b \<longleftrightarrow> unat a mod unat b \<noteq> 0"
    by (simp add: word_less_nat_alt unat_mod)
  have "unat a div unat b + 1 < 2 ^ 64" if "unat a mod unat b \<noteq> 0"
  proof -
    have "unat a = unat b * (unat a div unat b) + unat a mod unat b" by simp
    moreover have "0 < unat b" using \<open>b \<noteq> 0\<close> by (simp add: unat_gt_0)
    then have "unat a div unat b \<le> unat b * (unat a div unat b)" by simp
    ultimately have "unat a div unat b + 1 \<le> unat a" using that by linarith
    moreover have "unat a < 2 ^ LENGTH(64)" by (rule unsigned_less)
    ultimately show ?thesis by simp
  qed
  then show ?thesis
    by (auto simp: word_div_ceil_def div_ceil_def mod unat_div unat_word_ariths)
qed

lemma unat_sum_list:
  "sum_list (map unat ws) < 2 ^ 64 \<Longrightarrow> unat (sum_list (ws :: u64 list)) = sum_list (map unat ws)"
proof (induction ws)
  case (Cons w ws)
  then show ?case by (simp add: unat_word_ariths)
qed simp

lemma entries_ok_get: "entries_ok d m \<Longrightarrow> map_of m k = Some v \<Longrightarrow> bv_ok d v"
  by (induction m) (auto split: if_splits)

definition layout_entries :: "file_layout \<Rightarrow> u64 list" where
  "layout_entries l = (case l of Single n \<Rightarrow> [n] | Multi fs \<Rightarrow> map fe_length fs)"

definition layout_paths :: "file_layout \<Rightarrow> path list" where
  "layout_paths l = (case l of Single n \<Rightarrow> [] | Multi fs \<Rightarrow> map fe_path fs)"

lemma layout_length_entries: "layout_length l = sum_list (layout_entries l)"
  by (cases l) (simp_all add: layout_entries_def)

lemma parse_files_ok:
  "parse_files fs = Inr es \<Longrightarrow> \<forall>e \<in> set es. 0 \<le> sint (fe_length e) \<and> list_all (\<lambda>c. \<not> bad_component c) (fe_path e)"
proof (induction fs arbitrary: es)
  case (Cons f fs)
  then obtain e es' where "parse_file f = Inr e" "parse_files fs = Inr es'" "es = e # es'"
    by (auto split: sum.splits)
  moreover have "0 \<le> sint (fe_length e) \<and> list_all (\<lambda>c. \<not> bad_component c) (fe_path e)"
    using \<open>parse_file f = Inr e\<close>
    by (auto simp: parse_file_def list_all_iff list_ex_iff split: option.splits if_splits)
  ultimately show ?case using Cons.IH by auto
qed simp

lemma parse_layout_ok:
  "parse_layout v = Inr l \<Longrightarrow> (\<forall>n \<in> set (layout_entries l). 0 \<le> sint n)
     \<and> (\<forall>p \<in> set (layout_paths l). list_all (\<lambda>c. \<not> bad_component c) p)"
  by (fastforce simp: parse_layout_def layout_entries_def layout_paths_def dest: parse_files_ok
      split: option.splits sum.splits if_splits)

definition info_ok :: "info \<Rightarrow> bool" where
  "info_ok i \<longleftrightarrow> 0 < unat (info_piece_length i) \<and> unat (info_piece_length i) \<le> 2 ^ 28
     \<and> list_all (\<lambda>h. length h = 20) (info_pieces i)
     \<and> 0 < unat (info_total_length i)
     \<and> length (info_pieces i) = div_ceil (unat (info_total_length i)) (unat (info_piece_length i))
     \<and> info_total_length i = sum_list (layout_entries (info_files i))
     \<and> (\<forall>n \<in> set (layout_entries (info_files i)). 0 \<le> sint n)
     \<and> \<not> bad_name (info_name i)
     \<and> (\<forall>p \<in> set (layout_paths (info_files i)). list_all (\<lambda>c. \<not> bad_component c) p)"

lemma small_piece_length:
  assumes "0 < sint (w :: u64)" and "sint w \<le> 2 ^ 28"
  shows "unat (ucast w :: u32) = nat (sint w)" and "(ucast (ucast w :: u32) :: u64) = w"
    and "unat w = nat (sint w)"
proof -
  have u: "uint w = sint w"
    using assms by (subst uint_sint) (simp add: take_bit_int_eq_self)
  show "unat (ucast w :: u32) = nat (sint w)"
    using assms u by (simp add: unat_eq_nat_uint unsigned_ucast_eq take_bit_int_eq_self)
  show "unat w = nat (sint w)" using u by (simp add: unat_eq_nat_uint)
  show "(ucast (ucast w :: u32) :: u64) = w"
    using assms u by (simp add: word_uint_eq_iff unsigned_ucast_eq unsigned_take_bit_eq take_bit_int_eq_self)
qed

lemma parse_info_ok:
  assumes "parse_info v = Inr i" and "bv_ok d v"
  shows "info_ok i"
proof -
  obtain m where m: "v = BDict m"
    using assms(1) by (cases v) (auto simp: parse_info_def as_dict_def)
  obtain plr where plr: "Option.bind (get_str v ''piece length'') as_int = Some plr"
    and pl: "0 < sint plr" "sint plr \<le> 2 ^ 28"
    using assms(1) by (auto simp: parse_info_def Let_def split: option.splits if_splits)
  obtain raw where raw: "Option.bind (get_str v ''pieces'') as_bytes = Some raw"
    and "length raw mod 20 = 0"
    using assms(1) plr by (auto simp: parse_info_def Let_def split: option.splits if_splits)
  obtain name where name: "Option.bind (get_str v ''name'') as_str = Some name" "\<not> bad_name name"
    using assms(1) plr raw by (auto simp: parse_info_def Let_def split: option.splits if_splits)
  obtain l where l: "parse_layout v = Inr l"
    using assms(1) plr raw name
    by (auto simp: parse_info_def Let_def split: option.splits if_splits sum.splits)
  let ?total = "layout_length l" and ?pieces = "chunks_exact 20 raw"
  have total: "?total \<noteq> 0" "word_div_ceil ?total (ucast (ucast plr :: u32)) = of_nat (length ?pieces)"
    and i: "i = \<lparr>info_piece_length = ucast plr, info_pieces = ?pieces, info_name = name,
      info_files = l, info_total_length = ?total\<rparr>"
    using assms(1) plr raw name l
    by (auto simp: parse_info_def Let_def split: option.splits if_splits)
  note w = small_piece_length [OF pl]
  obtain x where x: "map_of m (ascii ''pieces'') = Some x" "as_bytes x = Some raw"
    using raw unfolding m by (cases "map_of m (ascii ''pieces'')") auto
  have "bv_ok (Suc d) x" using assms(2) x(1) by (auto simp: m intro: entries_ok_get)
  moreover have "x = BBytes raw" using x(2) by (cases x) (auto simp: as_bytes_def)
  ultimately have "bv_ok (Suc d) (BBytes raw)" by simp
  then have small: "length ?pieces < 2 ^ 64"
    by (simp add: usize_bound_def length_chunks_exact)
  have "plr \<noteq> 0" using pl by auto
  then have "div_ceil (unat ?total) (unat plr) = length ?pieces"
    using unat_word_div_ceil [of plr ?total] total(2) w(2) small by (simp add: unat_of_nat)
  moreover have "unat plr = unat (ucast plr :: u32)"
    using w by simp
  ultimately show ?thesis
    using pl w total name parse_layout_ok [OF l]
    by (auto simp: i info_ok_def layout_length_entries list_all_iff unat_gt_0 dest: chunks_exact_lengths)
qed

lemma info_total_exact:
  assumes "info_ok i" and "sum_list (map unat (layout_entries (info_files i))) < 2 ^ 64"
  shows "unat (info_total_length i) = sum_list (map unat (layout_entries (info_files i)))"
  using assms by (simp add: info_ok_def unat_sum_list)

section \<open>Finding the info value in an encoded torrent\<close>

lemma bv_ok_shallow:
  "bv_ok (Suc d) v \<Longrightarrow> bv_ok d v"
  "items_ok (Suc d) vs \<Longrightarrow> items_ok d vs"
  "entries_ok (Suc d) m \<Longrightarrow> entries_ok d m"
  by (induction d v and d vs and d m rule: bv_ok_items_ok_entries_ok.induct) auto

lemma bv_ok_zero: "bv_ok d v \<Longrightarrow> bv_ok 0 v"
  by (induction d) (auto dest: bv_ok_shallow(1))

lemma find_info_entries:
  assumes "drop pos data = ence m @ [0x65]" and "entries_ok d m" and "map_of m (ascii ''info'') = Some v"
    and "length data < usize_bound" and "pos \<le> length data"
  shows "find_info sha1 data pos = Inr (sha1 (enc v))"
  using assms
proof (induction m arbitrary: pos)
  case (Cons kv m)
  obtain k x where kv: "kv = (k, x)" by (cases kv)
  let ?k = "BBytes k"
  have dk: "drop pos data = encode ?k @ encode x @ ence m @ [0x65]"
    using Cons.prems(1) by (simp add: kv encode_enc)
  have len: "length (drop pos data) < usize_bound" using Cons.prems(4) by simp
  have okk: "bv_ok 0 ?k" and okx: "bv_ok 0 x"
    using Cons.prems(2) by (auto simp: kv intro: bv_ok_zero)
  have rk: "bdecode_range (drop pos data) = Inr (?k, length (encode ?k))"
    using bdecode_range_encode [OF okk, of "encode x @ ence m @ [0x65]"] len by (simp add: dk)
  have dx: "drop (pos + length (encode ?k)) data = encode x @ ence m @ [0x65]"
    using dk by (metis append_eq_conv_conj drop_drop add.commute)
  have rx: "bdecode_range (drop (pos + length (encode ?k)) data) = Inr (x, length (encode x))"
    using bdecode_range_encode [OF okx, of "ence m @ [0x65]"] len by (simp add: dx dk)
  have dm: "drop (pos + length (encode ?k) + length (encode x)) data = ence m @ [0x65]"
    using dx by (metis append_eq_conv_conj drop_drop add.commute)
  have dk': "drop pos data = enc ?k @ encode x @ ence m @ [0x65]"
    using dk by (simp add: encode_enc)
  have hd: "pos < length data" "data ! pos \<noteq> 0x65"
    using drop_enc_bound [OF dk'] peek_enc [OF dk'] by (auto dest: peek_Inr)
  show ?case
  proof (cases "k = ascii ''info''")
    case True
    then have "x = v" using Cons.prems(3) by (simp add: kv)
    then show ?thesis
      using hd rk rx dx True by (subst find_info.simps) (simp add: slice_def encode_enc)
  next
    case False
    then have "find_info sha1 data (pos + length (encode ?k) + length (encode x)) = Inr (sha1 (enc v))"
      using Cons.prems dm by (intro Cons.IH) (auto simp: kv not_le dest: arg_cong [where f = length])
    then show ?thesis
      using hd rk rx False by (subst find_info.simps) (simp add: add.assoc)
  qed
qed simp

section \<open>The torrent a magnet download writes\<close>

lemma torrent_keys:
  "distinct [ascii ''info'', ascii ''announce'', ascii ''announce-list'', ascii ''creation date'',
     ascii ''comment'', ascii ''created by'']"
  by (simp add: ascii_def)

lemma torrent_dict_get:
  "map_of (torrent_dict v ts) (ascii ''info'') = Some v"
  "map_of (torrent_dict v ts) (ascii ''announce'') = (case ts of [] \<Rightarrow> None | t # _ \<Rightarrow> Some (BBytes t))"
  "map_of (torrent_dict v ts) (ascii ''announce-list'') =
     (if 1 < length ts then Some (BList [BList (map BBytes ts)]) else None)"
  "map_of (torrent_dict v ts) (ascii ''creation date'') = None"
  "map_of (torrent_dict v ts) (ascii ''comment'') = None"
  "map_of (torrent_dict v ts) (ascii ''created by'') = None"
  using torrent_keys
  by (auto simp: torrent_dict_def Let_def simp del: bt_insert.simps split: list.splits)

lemma torrent_dict_wf: "bt_wf (torrent_dict v ts)"
  by (auto simp: torrent_dict_def Let_def simp del: bt_insert.simps split: list.splits)

lemma items_ok_bytes: "list_all (\<lambda>t. length t < usize_bound) ts \<Longrightarrow> items_ok d (map BBytes ts)"
  by (induction ts) auto

lemma torrent_dict_ok:
  assumes "bv_ok 1 v" and "list_all (\<lambda>t. length t < usize_bound) ts" and "length ts \<le> MAX_ELEMENTS"
  shows "entries_ok 1 (torrent_dict v ts)" and "bv_ok 0 (BDict (torrent_dict v ts))"
proof -
  have keys: "length (ascii k) < usize_bound" if "length k < 20" for k
    using that by (simp add: ascii_def usize_bound_def)
  have len: "length (torrent_dict v ts) \<le> 3"
  proof -
    have step: "length (bt_insert k x m) \<le> Suc n" if "length m \<le> n"
      for k x and m :: "(bytes \<times> bvalue) list" and n
      using length_bt_insert [of k x m] that by simp
    have "length (torrent_dict v ts) \<le> Suc (Suc (Suc 0))"
      unfolding torrent_dict_def Let_def
      by (cases ts) (auto simp del: bt_insert.simps intro!: step intro: le_SucI)
    then show ?thesis by simp
  qed
  show e: "entries_ok 1 (torrent_dict v ts)"
    using assms items_ok_bytes [OF assms(2), of 3]
    by (auto simp: torrent_dict_def Let_def keys MAX_DEPTH_def MAX_ELEMENTS_def numeral_3_eq_3
        simp del: bt_insert.simps intro!: entries_ok_insert split: list.splits)
  show "bv_ok 0 (BDict (torrent_dict v ts))"
    using e len torrent_dict_wf [of v ts] by (simp add: MAX_DEPTH_def MAX_ELEMENTS_def)
qed

lemma str_items_bytes: "list_all utf8_valid ts \<Longrightarrow> str_items (map BBytes ts) = ts"
  by (induction ts) (simp_all add: str_items_def map_filter_Cons List.map_filter_simps)

lemma compute_info_hash_encode:
  assumes "entries_ok d m" and "map_of m (ascii ''info'') = Some v"
    and "length (encode (BDict m)) < usize_bound"
  shows "compute_info_hash sha1 (encode (BDict m)) = Inr (sha1 (encode v))"
proof -
  have "drop 1 (encode (BDict m)) = ence m @ [0x65]" by (simp add: encode_enc)
  with find_info_entries [OF this assms(1,2,3)] show ?thesis
    by (simp add: compute_info_hash_def encode_enc)
qed

section \<open>Concrete torrents\<close>

definition small_info :: bvalue where
  "small_info = BDict [(ascii ''length'', BInt 3), (ascii ''name'', BBytes (ascii ''a'')),
     (ascii ''piece length'', BInt 16384), (ascii ''pieces'', BBytes (replicate 20 7))]"

definition small_torrent :: bytes where
  "small_torrent = encode (BDict [(ascii ''info'', small_info)])"

text \<open>Two values under the key \<open>info\<close>: the first is hashed, the second is used.\<close>

definition two_infos :: bytes where
  "two_infos = ascii ''d4:infoi1e4:info'' @ encode small_info @ ascii ''e''"

text \<open>Three files whose lengths sum to 2^64 + 1.\<close>

definition huge_file :: "u64 \<Rightarrow> bvalue" where
  "huge_file n = BDict [(ascii ''length'', BInt n), (ascii ''path'', BList [BBytes (ascii ''a'')])]"

definition huge_info :: bvalue where
  "huge_info = BDict [(ascii ''files'', BList [huge_file 0x7FFFFFFFFFFFFFFF,
       huge_file 0x7FFFFFFFFFFFFFFF, huge_file 3]), (ascii ''name'', BBytes (ascii ''a'')),
     (ascii ''piece length'', BInt 16384), (ascii ''pieces'', BBytes (replicate 20 7))]"

lemma small_info_ok: "bv_ok 1 small_info"
  by (simp add: small_info_def MAX_DEPTH_def MAX_ELEMENTS_def usize_bound_def bt_wf_Cons ascii_def)

lemma small_torrent_dict_ok: "bv_ok 0 (BDict [(ascii ''info'', small_info)])"
  using small_info_ok by (simp add: MAX_DEPTH_def MAX_ELEMENTS_def usize_bound_def bt_wf_Cons ascii_def)

lemma length_small: "length (encode small_info) < 100" "length small_torrent < 110"
  by code_simp+

lemma decode_small: "bdecode (encode small_info) = Inr small_info"
    "bdecode small_torrent = Inr (BDict [(ascii ''info'', small_info)])"
  using length_small small_info_ok small_torrent_dict_ok
  by (auto simp: small_torrent_def usize_bound_def intro!: bdecode_encode bv_ok_zero)

lemma parse_small: "\<exists>i. parse_info small_info = Inr i"
proof -
  have "case parse_info small_info of Inl e \<Rightarrow> False | Inr i \<Rightarrow> True" by code_simp
  then show ?thesis by (auto split: sum.splits)
qed

section \<open>Properties\<close>

text \<open>A text that is one step of a path: neither empty nor with a separator of Unix or Windows.\<close>

definition path_step :: "bytes \<Rightarrow> bool" where
  "path_step c \<longleftrightarrow> c \<noteq> [] \<and> set c \<inter> {of_char CHR ''/'', of_char CHR 0x5C} = {}"

lemma name_step: "\<not> bad_name n \<longleftrightarrow> path_step n \<and> (\<nexists>a z. n = a @ ascii ''..'' @ z)"
  by (auto simp: bad_name_def path_step_def contains_sub_iff ascii_def)

lemma component_step: "\<not> bad_component c \<longleftrightarrow> path_step c \<and> c \<noteq> ascii ''..''"
  by (auto simp: bad_component_def path_step_def ascii_def)

definition well_formed :: "info \<Rightarrow> bool" where
  "well_formed i \<longleftrightarrow>
     0 < unat (info_piece_length i) \<and> unat (info_piece_length i) \<le> 2 ^ 28
     \<and> (\<forall>h \<in> set (info_pieces i). length h = 20)
     \<and> 0 < unat (info_total_length i)
     \<and> length (info_pieces i) = div_ceil (unat (info_total_length i)) (unat (info_piece_length i))
     \<and> unat (info_total_length i) = sum_list (map unat (layout_entries (info_files i))) mod 2 ^ 64
     \<and> path_step (info_name i) \<and> (\<nexists>a z. info_name i = a @ ascii ''..'' @ z)
     \<and> (\<forall>p \<in> set (layout_paths (info_files i)). \<forall>c \<in> set p. path_step c \<and> c \<noteq> ascii ''..'')"

lemma info_ok_well_formed:
  assumes "info_ok i" shows "well_formed i"
proof -
  have "unat (sum_list ws) = sum_list (map unat ws) mod 2 ^ 64" for ws :: "u64 list"
    by (induction ws) (simp_all add: unat_word_ariths mod_simps)
  from this [of "layout_entries (info_files i)"]
  have "unat (info_total_length i) = sum_list (map unat (layout_entries (info_files i))) mod 2 ^ 64"
    using assms unfolding info_ok_def by metis
  moreover have "\<forall>h \<in> set (info_pieces i). length h = 20"
    "path_step (info_name i) \<and> (\<nexists>a z. info_name i = a @ ascii ''..'' @ z)"
    "\<forall>p \<in> set (layout_paths (info_files i)). \<forall>c \<in> set p. path_step c \<and> c \<noteq> ascii ''..''"
    using assms by (simp_all add: info_ok_def name_step component_step list_all_iff)
  ultimately show ?thesis using assms unfolding info_ok_def well_formed_def by blast
qed

text \<open>C39. Everything the parser accepts is consistent: the piece length is in 1..2^28, every hash
  has 20 bytes, and there is exactly one hash per piece of the declared total, which is the sum of the
  file lengths modulo 2^64 and their real sum when that is below 2^64. The name is one step of a path
  without two dots in a row, and every component of every file is one step and not the parent: all of
  them stay in the output directory.\<close>

theorem accepted_torrent_ok:
  assumes "metainfo_from_bytes sha1 data = Inr m"
  shows "well_formed (mi_info m)"
proof -
  obtain root where root: "bdecode data = Inr root"
    using assms by (auto simp: metainfo_from_bytes_def split: sum.splits)
  then have "bv_ok 0 root" by (rule bdecode_ok)
  obtain v where v: "get_str root ''info'' = Some v" and i: "parse_info v = Inr (mi_info m)"
    using assms root by (auto simp: metainfo_from_bytes_def split: sum.splits option.splits)
  have "bv_ok 1 v"
    using v \<open>bv_ok 0 root\<close> by (cases root) (auto simp: get_str_def bget_def as_dict_def intro: entries_ok_get)
  with i show ?thesis by (intro info_ok_well_formed parse_info_ok)
qed

theorem accepted_torrent_ok_witness:
  "\<exists>m. metainfo_from_bytes (take 20) small_torrent = Inr m \<and> well_formed (mi_info m)"
proof -
  have "compute_info_hash (take 20) small_torrent = Inr (take 20 (encode small_info))"
    unfolding small_torrent_def
    using compute_info_hash_encode [of 1 "[(ascii ''info'', small_info)]" small_info]
      small_info_ok length_small(2)
    by (simp add: small_torrent_def usize_bound_def ascii_def)
  then obtain m where m: "metainfo_from_bytes (take 20) small_torrent = Inr m"
    using parse_small decode_small(2) by (auto simp: metainfo_from_bytes_def)
  from accepted_torrent_ok [OF m] m show ?thesis by blast
qed

text \<open>A magnet download stores a torrent that, read back after a restart, gives the very
  metainfo of the running download, with the hash of the re-encoded info dictionary.\<close>

theorem stored_magnet_equivalent:
  assumes "bdecode raw = Inr v" and "bv_ok 1 v" and "list_all utf8_valid trackers"
    and "list_all (\<lambda>t. length t < usize_bound) trackers" and "length trackers \<le> MAX_ELEMENTS"
    and "torrent_bytes_from_info raw trackers = Inr t" and "length t < usize_bound"
  shows "metainfo_from_bytes sha1 t = from_info_bytes raw (sha1 (encode v)) trackers"
proof -
  have t: "t = encode (BDict (torrent_dict v trackers))"
    using assms(1,6) by (simp add: torrent_bytes_from_info_def)
  note ok = torrent_dict_ok [OF assms(2,4,5)]
  have "bdecode t = Inr (BDict (torrent_dict v trackers))"
    using bdecode_encode [OF ok(2)] assms(7) by (simp add: t)
  moreover have "compute_info_hash sha1 t = Inr (sha1 (encode v))"
    using compute_info_hash_encode [OF ok(1) torrent_dict_get(1)] assms(7) by (simp add: t)
  moreover have "map_option (map str_items \<circ> List.map_filter as_list) (as_list (BList [BList (map BBytes trackers)]))
      = Some [trackers]"
    using str_items_bytes [OF assms(3)] by (simp add: map_filter_Cons List.map_filter_simps)
  ultimately show ?thesis
    using assms(1,3)
    by (auto simp: metainfo_from_bytes_def from_info_bytes_def torrent_dict_get parse_announce_list_def
        comp_def split: list.splits sum.splits)
qed

theorem stored_magnet_equivalent_witness:
  "metainfo_from_bytes (take 20) (encode (BDict (torrent_dict small_info [ascii ''t'', ascii ''u'']))) =
     from_info_bytes (encode small_info) (take 20 (encode small_info)) [ascii ''t'', ascii ''u'']"
proof (rule stored_magnet_equivalent)
  show dec: "bdecode (encode small_info) = Inr small_info" by (rule decode_small)
  then show "torrent_bytes_from_info (encode small_info) [ascii ''t'', ascii ''u''] =
      Inr (encode (BDict (torrent_dict small_info [ascii ''t'', ascii ''u''])))"
    by (simp add: torrent_bytes_from_info_def)
  have "length (encode (BDict (torrent_dict small_info [ascii ''t'', ascii ''u'']))) < 1000"
    by code_simp
  then show "length (encode (BDict (torrent_dict small_info [ascii ''t'', ascii ''u'']))) < usize_bound"
    by (simp add: usize_bound_def)
  show "bv_ok 1 small_info" by (rule small_info_ok)
  show "list_all utf8_valid [ascii ''t'', ascii ''u'']" by code_simp
qed (simp_all add: ascii_def usize_bound_def MAX_ELEMENTS_def)

text \<open>The consistency check can be bypassed: the lengths are summed in 64 bits, so files of
  2^63-1, 2^63-1 and 3 bytes pass as one byte with a single piece hash.\<close>

theorem length_check_bypassed:
  "case parse_info huge_info of Inl e \<Rightarrow> False
   | Inr i \<Rightarrow> unat (info_total_length i) = 1 \<and> length (info_pieces i) = 1
       \<and> sum_list (map unat (layout_entries (info_files i))) = 2 ^ 64 + 1"
  by code_simp

text \<open>With two \<open>info\<close> keys the info hash is that of the first value, while name, pieces and
  files come from the second: the hash does not identify the torrent that is used.\<close>

theorem hash_of_other_info:
  "case metainfo_from_bytes sha1 two_infos of Inl e \<Rightarrow> False
   | Inr m \<Rightarrow> mi_info_hash m = sha1 (ascii ''i1e'') \<and> parse_info small_info = Inr (mi_info m)"
proof -
  have "drop 1 two_infos = encode (BBytes (ascii ''info'')) @ drop 7 two_infos"
    and "drop 7 two_infos = encode (BInt 1) @ drop 10 two_infos"
    and len: "length two_infos < 1000" "length (encode (BBytes (ascii ''info''))) = 6"
      "length (encode (BInt 1)) = 3"
    by code_simp+
  then have key: "bdecode_range (drop 1 two_infos) = Inr (BBytes (ascii ''info''), 6)"
    and val: "bdecode_range (drop 7 two_infos) = Inr (BInt 1, 3)"
    using bdecode_range_encode [of "BBytes (ascii ''info'')" "drop 7 two_infos"]
      bdecode_range_encode [of "BInt 1" "drop 10 two_infos"]
    by (auto simp: usize_bound_def ascii_def)
  have raw: "slice 7 10 two_infos = ascii ''i1e''"
    and start: "two_infos \<noteq> []" "two_infos ! 0 = 0x64" "two_infos ! 1 \<noteq> 0x65" "1 < length two_infos"
    by code_simp+
  define es where "es = [(ascii ''info'', BInt 1), (ascii ''info'', small_info)]"
  have es: "two_infos = 0x64 # ence es @ [0x65]"
    by (simp add: es_def two_infos_def encode_enc ascii_def dec_nat.simps digit_of_def dec_int_def)
  have "bdecode two_infos = Inr (BDict (insert_all es []))"
    unfolding es
  proof (rule bdecode_any_dict)
    show "entries_ok 1 es"
      using small_info_ok by (simp add: es_def ascii_def usize_bound_def)
    show "length (ence es) + 2 < usize_bound"
      using len(1) by (simp add: es usize_bound_def)
  qed (simp add: es_def MAX_ELEMENTS_def)
  then have dec: "bdecode two_infos = Inr (BDict [(ascii ''info'', small_info)])"
    by (simp add: es_def insert_all_def)
  have "find_info sha1 two_infos 1 = Inr (sha1 (ascii ''i1e''))"
    using start by (subst find_info.simps) (simp add: key val raw del: One_nat_def)
  then show ?thesis
    using start dec parse_small
    by (auto simp: metainfo_from_bytes_def compute_info_hash_def split: sum.splits)
qed

end
