(* ===== verification/Bitfield.thy ===== *)
theory Bitfield
  imports Prelude
begin

text \<open>
  The piece bitfield (\<open>src/src/piece/bitfield.rs\<close>). \<open>has\<close> indexes the byte vector and panics
  when it is too short; \<open>has_run\<close> is that reading, \<open>has\<close> the value it returns. The two agree on
  every bitfield a constructor returns (\<open>has_run_wf\<close>), because \<open>from_bytes\<close> itself reads every
  bit and panics on a vector that is too short.
\<close>

record bitfield =
  bits :: bytes
  bf_pieces :: nat
  bf_count :: nat

definition bf_new :: "nat \<Rightarrow> bitfield" where
  "bf_new n = \<lparr>bits = replicate (div_ceil n 8) 0, bf_pieces = n, bf_count = 0\<rparr>"

definition bit_mask :: "nat \<Rightarrow> u8" where
  "bit_mask index = push_bit (7 - index mod 8) 1"

definition has :: "bitfield \<Rightarrow> nat \<Rightarrow> bool" where
  "has bf index \<longleftrightarrow>
     (if bf_pieces bf \<le> index then False else (bits bf ! (index div 8)) AND bit_mask index \<noteq> 0)"

definition has_run :: "bitfield \<Rightarrow> nat \<Rightarrow> bool run" where
  "has_run bf index =
     (if bf_pieces bf \<le> index then Done False
      else if length (bits bf) \<le> index div 8 then Panic
      else Done ((bits bf ! (index div 8)) AND bit_mask index \<noteq> 0))"

definition bf_set :: "nat \<Rightarrow> bitfield \<Rightarrow> bitfield" where
  "bf_set index bf =
     (if index < bf_pieces bf \<and> \<not> has bf index then
        bf\<lparr>bits := (bits bf)[index div 8 := (bits bf ! (index div 8)) OR bit_mask index],
           bf_count := bf_count bf + 1\<rparr>
      else bf)"

text \<open>The counting loop \<open>for i in 0..num_pieces\<close>.\<close>

fun count_set_bits :: "bitfield \<Rightarrow> nat list \<Rightarrow> nat \<Rightarrow> nat run" where
  "count_set_bits bf [] count = Done count"
| "count_set_bits bf (i # is) count =
     run_bind (has_run bf i) (\<lambda>b. count_set_bits bf is (if b then count + 1 else count))"

definition bf_from_bytes :: "bytes \<Rightarrow> nat \<Rightarrow> bitfield run" where
  "bf_from_bytes bs n =
     (let bf = \<lparr>bits = bs, bf_pieces = n, bf_count = 0\<rparr> in
      run_bind (count_set_bits bf [0..<n] 0) (\<lambda>c. Done (bf\<lparr>bf_count := c\<rparr>)))"

definition bf_is_complete :: "bitfield \<Rightarrow> bool" where
  "bf_is_complete bf \<longleftrightarrow> bf_count bf = bf_pieces bf"

definition set_indices :: "bitfield \<Rightarrow> nat list" where
  "set_indices bf = filter (has bf) [0..<bf_pieces bf]"

definition missing_indices :: "bitfield \<Rightarrow> nat list" where
  "missing_indices bf = filter (\<lambda>i. \<not> has bf i) [0..<bf_pieces bf]"

section \<open>Invariant\<close>

definition bf_wf :: "bitfield \<Rightarrow> bool" where
  "bf_wf bf \<longleftrightarrow> bf_pieces bf \<le> 8 * length (bits bf) \<and> bf_count bf = length (set_indices bf)"

lemma has_bit: "has bf i \<longleftrightarrow> i < bf_pieces bf \<and> bit (bits bf ! (i div 8)) (7 - i mod 8)"
  by (simp add: has_def bit_mask_def and_exp_eq_0_iff_not_bit not_le)

lemma has_run_wf:
  assumes "bf_pieces bf \<le> 8 * length (bits bf)"
  shows "has_run bf i = Done (has bf i)"
proof -
  have "i div 8 < length (bits bf)" if "i < bf_pieces bf"
    using that assms by (simp add: less_mult_imp_div_less mult.commute)
  then show ?thesis by (auto simp: has_run_def has_def not_le)
qed

lemma has_set_indices: "set (set_indices bf) = {i. has bf i}"
  by (auto simp: set_indices_def has_def split: if_splits)

lemma count_card: "bf_wf bf \<Longrightarrow> bf_count bf = card {i. has bf i}"
proof -
  assume "bf_wf bf"
  moreover have "distinct (set_indices bf)" by (simp add: set_indices_def)
  ultimately show ?thesis
    by (simp add: bf_wf_def distinct_card flip: has_set_indices)
qed

lemma count_le: "bf_wf bf \<Longrightarrow> bf_count bf \<le> bf_pieces bf"
  using length_filter_le [of "has bf" "[0..<bf_pieces bf]"] by (simp add: bf_wf_def set_indices_def)

lemma bf_set_pieces [simp]: "bf_pieces (bf_set i bf) = bf_pieces bf"
  by (simp add: bf_set_def)

lemma length_bits_set [simp]: "length (bits (bf_set i bf)) = length (bits bf)"
  by (simp add: bf_set_def)

lemma index_eq_iff: "i = j \<longleftrightarrow> i div 8 = j div 8 \<and> 7 - i mod 8 = 7 - j mod (8 :: nat)"
proof
  assume a: "i div 8 = j div 8 \<and> 7 - i mod 8 = 7 - j mod (8 :: nat)"
  have "i mod 8 < 8" "j mod 8 < 8" by simp_all
  with a have "i mod 8 = j mod 8" by arith
  with a show "i = j" by (metis mult_div_mod_eq)
qed simp

lemma has_set:
  assumes "bf_wf bf"
  shows "has (bf_set i bf) j \<longleftrightarrow> has bf j \<or> (j = i \<and> i < bf_pieces bf)"
proof (cases "i < bf_pieces bf \<and> \<not> has bf i")
  case True
  then have len: "i div 8 < length (bits bf)"
    using assms by (simp add: bf_wf_def less_mult_imp_div_less mult.commute)
  show ?thesis
    using True len index_eq_iff [of j i]
    by (auto simp: bf_set_def has_bit nth_list_update bit_mask_def bit_simps)
qed (auto simp: bf_set_def)

lemma bf_set_wf [simp, inv_intros]: "bf_wf bf \<Longrightarrow> bf_wf (bf_set i bf)"
proof (cases "i < bf_pieces bf \<and> \<not> has bf i")
  case True
  assume wf: "bf_wf bf"
  have "{j. has (bf_set i bf) j} = insert i {j. has bf j}"
    using True has_set [OF wf] by auto
  moreover have "finite {j. has bf j}" by (metis List.finite_set has_set_indices)
  ultimately have "card {j. has (bf_set i bf) j} = Suc (card {j. has bf j})"
    using True by simp
  moreover have "distinct (set_indices (bf_set i bf))" by (simp add: set_indices_def)
  ultimately have "length (set_indices (bf_set i bf)) = Suc (bf_count bf)"
    using wf by (metis count_card distinct_card has_set_indices)
  then show ?thesis
    using True wf by (simp add: bf_wf_def) (simp add: bf_set_def)
qed (auto simp: bf_set_def)

lemma bf_new_wf [simp, inv_intros]: "bf_wf (bf_new n)"
  and has_new [simp]: "\<not> has (bf_new n) i"
  and pieces_new [simp]: "bf_pieces (bf_new n) = n"
proof -
  show h: "\<not> has (bf_new n) i" for i
  proof (cases "i < n")
    case True
    then have "i div 8 < div_ceil n 8"
      using div_ceil_enough [of 8 n] by (simp add: less_mult_imp_div_less mult.commute)
    then show ?thesis by (simp add: has_bit bf_new_def)
  qed (simp add: has_bit bf_new_def)
  show "bf_pieces (bf_new n) = n" by (simp add: bf_new_def)
  show "bf_wf (bf_new n)"
    using div_ceil_enough [of 8 n] h by (simp add: bf_wf_def set_indices_def) (simp add: bf_new_def)
qed

text \<open>The counting loop succeeds exactly when the vector has a byte for every bit it reads.\<close>

lemma count_set_bits_wf:
  "bf_pieces bf \<le> 8 * length (bits bf) \<Longrightarrow>
     count_set_bits bf is c = Done (c + length (filter (has bf) is))"
  by (induction "is" arbitrary: c) (auto simp: has_run_wf)

lemma count_set_bits_short:
  "i \<in> set is \<Longrightarrow> i < bf_pieces bf \<Longrightarrow> length (bits bf) \<le> i div 8 \<Longrightarrow>
     count_set_bits bf is c = Panic"
proof (induction "is" arbitrary: c)
  case (Cons j js)
  then show ?case by (cases "has_run bf j") (auto simp: has_run_def)
qed simp

lemma from_bytes_wf:
  assumes "n \<le> 8 * length bs"
  shows "\<exists>bf. bf_from_bytes bs n = Done bf \<and> bf_wf bf \<and> bits bf = bs \<and> bf_pieces bf = n"
  using assms count_set_bits_wf [of "\<lparr>bits = bs, bf_pieces = n, bf_count = 0\<rparr>"]
  by (simp add: bf_from_bytes_def Let_def bf_wf_def set_indices_def)
    (simp add: has_def cong: filter_cong)

lemma from_bytes_short:
  assumes "8 * length bs < n"
  shows "bf_from_bytes bs n = Panic"
proof -
  have "8 * length bs \<in> set [0..<n]" using assms by simp
  then show ?thesis
    using assms count_set_bits_short [of "8 * length bs" "[0..<n]"
        "\<lparr>bits = bs, bf_pieces = n, bf_count = 0\<rparr>" 0]
    by (simp add: bf_from_bytes_def Let_def)
qed

lemma bf_from_bytes_Done:
  "bf_from_bytes bs n = Done bf \<Longrightarrow> bf_wf bf \<and> bits bf = bs \<and> bf_pieces bf = n"
  using from_bytes_wf [of n bs] from_bytes_short [of bs n] by (cases "n \<le> 8 * length bs") auto

section \<open>Properties\<close>

text \<open>A bitfield read from a peer's bytes panics exactly when the peer sent fewer bytes than
  the torrent's pieces need; the message length is not checked anywhere before this call.\<close>

theorem short_bitfield_panics: "bf_from_bytes bs n = Panic \<longleftrightarrow> 8 * length bs < n"
proof (cases "n \<le> 8 * length bs")
  case True
  then show ?thesis using from_bytes_wf [of n bs] by fastforce
next
  case False
  then show ?thesis using from_bytes_short [of bs n] by simp
qed

text \<open>Setting a piece adds exactly that piece, keeps the cached count equal to the number of
  pieces held, and the bytes sent to a peer are read back as the same bitfield.\<close>

theorem bitfield_set_exact:
  assumes "bf_wf bf"
  shows "{j. has (bf_set i bf) j} = {j. has bf j} \<union> {j. j = i \<and> j < bf_pieces bf}
     \<and> bf_count (bf_set i bf) = card {j. has (bf_set i bf) j}
     \<and> bf_from_bytes (bits (bf_set i bf)) (bf_pieces bf) = Done (bf_set i bf)"
proof -
  have wf: "bf_wf (bf_set i bf)" using assms by simp
  have "bf_pieces bf \<le> 8 * length (bits (bf_set i bf))" using wf by (simp add: bf_wf_def)
  then obtain bf' where bf': "bf_from_bytes (bits (bf_set i bf)) (bf_pieces bf) = Done bf'"
    "bf_wf bf'" "bits bf' = bits (bf_set i bf)" "bf_pieces bf' = bf_pieces bf"
    using from_bytes_wf by blast
  then have "has bf' = has (bf_set i bf)" by (auto simp: has_def fun_eq_iff)
  then have "bf_count bf' = bf_count (bf_set i bf)"
    using bf'(2) wf by (simp add: count_card)
  with bf' have "bf' = bf_set i bf" by (intro bitfield.equality) auto
  then show ?thesis
    using bf'(1) wf has_set [OF assms, of i] by (auto simp: count_card)
qed

theorem bitfield_set_exact_witness:
  "bf_count (bf_set 9 (bf_new 10)) = card {j. has (bf_set 9 (bf_new 10)) j}"
  using bitfield_set_exact [OF bf_new_wf, of 9 10] by blast

end
