(* ===== verification/Picker.thy ===== *)
theory Picker
  imports Bitfield Wire
begin

text \<open>
  The piece picker (\<open>src/src/piece/picker.rs\<close>): which block to request from which peer. The
  \<open>u32\<close> fields are naturals; the invariant bounds every one of them by the piece length, itself
  below \<open>2 ^ 32\<close>, so no arithmetic of the source wraps in a reachable state. Random numbers are
  a parameter. The pieces in progress are a \<open>HashMap\<close>: an association list whose order is the
  unspecified order in which the source iterates over it.
\<close>

definition block_size :: nat where "block_size = 16384"

lemma block_size_u32: "unat BLOCK_SIZE = block_size"
  by (simp add: BLOCK_SIZE_def block_size_def)

record block_request =
  br_piece :: nat
  br_offset :: nat
  br_length :: nat

datatype block_result = Duplicate | Progress nat | PieceComplete bytes

section \<open>One piece in progress\<close>

record piece_progress =
  pp_length :: nat
  num_blocks :: nat
  blocks_received :: "bool list"
  blocks_assigned :: "bool list"
  received_count :: nat
  assign_cursor :: nat
  pp_data :: bytes
  active_peers :: nat

definition pp_new :: "nat \<Rightarrow> piece_progress" where
  "pp_new len = (let n = div_ceil len block_size in
     \<lparr>pp_length = len, num_blocks = n, blocks_received = replicate n False,
      blocks_assigned = replicate n False, received_count = 0, assign_cursor = 0,
      pp_data = replicate len 0, active_peers = 0\<rparr>)"

definition block_length :: "piece_progress \<Rightarrow> nat \<Rightarrow> nat" where
  "block_length p block_index =
     (if block_index = num_blocks p - 1 then
        (let remainder = pp_length p mod block_size in
         if remainder = 0 then block_size else remainder)
      else block_size)"

definition pp_is_complete :: "piece_progress \<Rightarrow> bool" where
  "pp_is_complete p \<longleftrightarrow> received_count p = num_blocks p"

function assign_next_block :: "piece_progress \<Rightarrow> piece_progress \<times> nat option" where
  "assign_next_block p =
     (if assign_cursor p < num_blocks p then
        (let idx = assign_cursor p; p' = p\<lparr>assign_cursor := assign_cursor p + 1\<rparr> in
         if \<not> blocks_received p ! idx \<and> \<not> blocks_assigned p ! idx then
           (p'\<lparr>blocks_assigned := (blocks_assigned p)[idx := True]\<rparr>, Some idx)
         else assign_next_block p')
      else (p, None))"
  by pat_completeness auto
termination
  by (relation "measure (\<lambda>p. num_blocks p - assign_cursor p)") auto

declare assign_next_block.simps [simp del]

definition mark_received :: "nat \<Rightarrow> piece_progress \<Rightarrow> piece_progress \<times> bool" where
  "mark_received idx p =
     (if length (blocks_received p) \<le> idx \<or> blocks_received p ! idx then (p, False)
      else (p\<lparr>blocks_received := (blocks_received p)[idx := True],
              blocks_assigned := (blocks_assigned p)[idx := True],
              received_count := received_count p + 1, assign_cursor := 0\<rparr>, True))"

definition mark_unassigned :: "nat \<Rightarrow> piece_progress \<Rightarrow> piece_progress" where
  "mark_unassigned idx p =
     (if idx < length (blocks_assigned p) \<and> \<not> blocks_received p ! idx then
        p\<lparr>blocks_assigned := (blocks_assigned p)[idx := False],
          assign_cursor := min (assign_cursor p) idx\<rparr>
      else p)"

definition unreceived_blocks :: "piece_progress \<Rightarrow> (nat \<times> nat) list" where
  "unreceived_blocks p =
     map (\<lambda>i. (i, block_length p i)) (filter (\<lambda>i. \<not> blocks_received p ! i) [0..<num_blocks p])"

section \<open>The picker\<close>

datatype picker_mode = RandomFirst | RarestFirst | Endgame

record picker =
  pk_pieces :: nat
  availability :: "nat list"
  have_bf :: bitfield
  in_progress :: "(nat \<times> piece_progress) list"
  mode :: picker_mode
  pk_piece_length :: nat
  pk_total_length :: nat
  verified_count :: nat

definition picker_new :: "nat \<Rightarrow> nat \<Rightarrow> nat \<Rightarrow> picker" where
  "picker_new n piece_length total_length =
     \<lparr>pk_pieces = n, availability = replicate n 0, have_bf = bf_new n, in_progress = [],
      mode = RandomFirst, pk_piece_length = piece_length, pk_total_length = total_length,
      verified_count = 0\<rparr>"

text \<open>\<open>u16::saturating_add(1)\<close> and \<open>saturating_sub(1)\<close> on one entry of the table.\<close>

definition u16_inc :: "nat \<Rightarrow> nat" where "u16_inc a = min (a + 1) 65535"
definition u8_inc :: "nat \<Rightarrow> nat" where "u8_inc a = min (a + 1) 255"

definition bump :: "(nat \<Rightarrow> nat) \<Rightarrow> nat \<Rightarrow> picker \<Rightarrow> picker" where
  "bump f i pk = (if i < pk_pieces pk then
     pk\<lparr>availability := (availability pk)[i := f (availability pk ! i)]\<rparr> else pk)"

definition peer_has_bitfield :: "bitfield \<Rightarrow> picker \<Rightarrow> picker" where
  "peer_has_bitfield bf pk = fold (bump u16_inc) (set_indices bf) pk"

definition peer_has_piece :: "nat \<Rightarrow> picker \<Rightarrow> picker" where
  "peer_has_piece piece_index pk = bump u16_inc piece_index pk"

definition peer_disconnected :: "bitfield \<Rightarrow> picker \<Rightarrow> picker" where
  "peer_disconnected bf pk = fold (bump (\<lambda>a. a - 1)) (set_indices bf) pk"

definition is_endgame :: "picker \<Rightarrow> bool" where
  "is_endgame pk \<longleftrightarrow> mode pk = Endgame"

definition endgame_requests :: "picker \<Rightarrow> bitfield \<Rightarrow> block_request list" where
  "endgame_requests pk peer_bf =
     concat (map (\<lambda>(piece_idx, progress).
         if \<not> has peer_bf piece_idx then []
         else map (\<lambda>(block_idx, len). \<lparr>br_piece = piece_idx, br_offset = block_idx * block_size,
                                       br_length = len\<rparr>) (unreceived_blocks progress))
       (in_progress pk))"

definition actual_piece_length :: "picker \<Rightarrow> nat \<Rightarrow> nat" where
  "actual_piece_length pk piece_index =
     (if piece_index = pk_pieces pk - 1 then
        (let remainder = pk_total_length pk mod pk_piece_length pk in
         if remainder = 0 then pk_piece_length pk else remainder)
      else pk_piece_length pk)"

definition check_mode :: "picker \<Rightarrow> picker" where
  "check_mode pk = (let remaining = pk_pieces pk - bf_count (have_bf pk) in
     if mode pk \<noteq> Endgame \<and> 0 < remaining \<and> length (in_progress pk) = remaining
     then pk\<lparr>mode := Endgame\<rparr> else pk)"

text \<open>
  The reservoir sampling of \<open>pick_piece\<close>: the state is the best index, its availability and
  how many pieces tie with it. \<open>rand i\<close> is the random number drawn when piece \<open>i\<close> ties.
\<close>

definition pick_step ::
  "(nat \<Rightarrow> nat) \<Rightarrow> picker \<Rightarrow> bitfield \<Rightarrow> nat \<Rightarrow> nat option \<times> nat \<times> nat \<Rightarrow> nat option \<times> nat \<times> nat"
where
  "pick_step rand pk peer_bf i = (\<lambda>(best_idx, best_avail, best_count).
     if \<not> has peer_bf i \<or> has (have_bf pk) i \<or> as_u32 i \<in> fst ` set (in_progress pk)
     then (best_idx, best_avail, best_count)
     else (let avail = availability pk ! i in
       if avail < best_avail then (Some (as_u32 i), avail, 1)
       else if avail = best_avail then
         (if rand i mod (best_count + 1) = 0 then Some (as_u32 i) else best_idx,
          best_avail, best_count + 1)
       else (best_idx, best_avail, best_count)))"

definition pick_piece :: "(nat \<Rightarrow> nat) \<Rightarrow> picker \<Rightarrow> bitfield \<Rightarrow> nat option" where
  "pick_piece rand pk peer_bf =
     fst (fold (pick_step rand pk peer_bf) [0..<pk_pieces pk] (None, 65535, 0))"

text \<open>The loop over the candidates in progress: the first that has a block to give.\<close>

fun continue_pieces :: "nat list \<Rightarrow> picker \<Rightarrow> picker \<times> block_request option" where
  "continue_pieces [] pk = (pk, None)"
| "continue_pieces (piece_idx # pieces) pk =
     (case map_of (in_progress pk) piece_idx of
        None \<Rightarrow> continue_pieces pieces pk
      | Some progress \<Rightarrow>
          (case assign_next_block progress of
             (p, Some block_idx) \<Rightarrow>
               (let p' = p\<lparr>active_peers := u8_inc (active_peers p)\<rparr> in
                (pk\<lparr>in_progress := hm_insert piece_idx p' (in_progress pk)\<rparr>,
                 Some \<lparr>br_piece = piece_idx, br_offset = block_idx * block_size,
                       br_length = block_length p' block_idx\<rparr>))
           | (p, None) \<Rightarrow>
               continue_pieces pieces (pk\<lparr>in_progress := hm_insert piece_idx p (in_progress pk)\<rparr>)))"

definition candidates :: "picker \<Rightarrow> bitfield \<Rightarrow> nat list" where
  "candidates pk peer_bf =
     map fst (sort_key snd (map (\<lambda>(idx, p). (idx, active_peers p))
       (filter (\<lambda>(idx, p). has peer_bf idx) (in_progress pk))))"

definition start_piece :: "nat \<Rightarrow> picker \<Rightarrow> picker \<times> block_request option" where
  "start_piece piece_idx pk =
     (let progress = (case map_of (in_progress pk) piece_idx of
          Some p \<Rightarrow> p | None \<Rightarrow> pp_new (actual_piece_length pk piece_idx)) in
      case assign_next_block progress of
        (p, None) \<Rightarrow> (pk\<lparr>in_progress := hm_insert piece_idx p (in_progress pk)\<rparr>, None)
      | (p, Some block_idx) \<Rightarrow>
          (let p' = p\<lparr>active_peers := u8_inc (active_peers p)\<rparr> in
           (check_mode (pk\<lparr>in_progress := hm_insert piece_idx p' (in_progress pk)\<rparr>),
            Some \<lparr>br_piece = piece_idx, br_offset = block_idx * block_size,
                  br_length = block_length p' block_idx\<rparr>)))"

definition pick_block ::
  "(nat \<Rightarrow> nat) \<Rightarrow> picker \<Rightarrow> bitfield \<Rightarrow> picker \<times> block_request option" where
  "pick_block rand pk peer_bf =
     (case continue_pieces (candidates pk peer_bf) pk of
        (pk', Some r) \<Rightarrow> (pk', Some r)
      | (pk', None) \<Rightarrow>
          (case pick_piece rand pk' peer_bf of
             None \<Rightarrow> (pk', None)
           | Some piece_idx \<Rightarrow> start_piece piece_idx pk'))"

definition block_received ::
  "nat \<Rightarrow> nat \<Rightarrow> bytes \<Rightarrow> picker \<Rightarrow> picker \<times> block_result" where
  "block_received piece_index offset data pk =
     (case map_of (in_progress pk) piece_index of
        None \<Rightarrow> (pk, Duplicate)
      | Some progress \<Rightarrow>
          (case mark_received (offset div block_size) progress of
             (p, False) \<Rightarrow> (pk\<lparr>in_progress := hm_insert piece_index p (in_progress pk)\<rparr>, Duplicate)
           | (p, True) \<Rightarrow>
               (let end_pos = offset + length data;
                    p' = (if end_pos \<le> length (pp_data p)
                          then p\<lparr>pp_data := overwrite offset data (pp_data p)\<rparr> else p) in
                if pp_is_complete p' then
                  (pk\<lparr>in_progress := hm_remove piece_index (in_progress pk)\<rparr>,
                   PieceComplete (pp_data p'))
                else (pk\<lparr>in_progress := hm_insert piece_index p' (in_progress pk)\<rparr>,
                      Progress (as_u32 (length data))))))"

definition mark_verified :: "nat \<Rightarrow> picker \<Rightarrow> picker" where
  "mark_verified piece_index pk =
     (let pk1 = pk\<lparr>in_progress := hm_remove piece_index (in_progress pk),
                   have_bf := bf_set piece_index (have_bf pk),
                   verified_count := verified_count pk + 1\<rparr>;
          pk2 = (if mode pk1 = RandomFirst \<and> 0 < verified_count pk1
                 then pk1\<lparr>mode := RarestFirst\<rparr> else pk1) in
      check_mode pk2)"

definition piece_failed :: "nat \<Rightarrow> picker \<Rightarrow> picker" where
  "piece_failed piece_index pk = pk\<lparr>in_progress := hm_remove piece_index (in_progress pk)\<rparr>"

definition unassign_block :: "nat \<Rightarrow> nat \<Rightarrow> picker \<Rightarrow> picker" where
  "unassign_block piece_index offset pk =
     (case map_of (in_progress pk) piece_index of
        None \<Rightarrow> pk
      | Some progress \<Rightarrow>
          pk\<lparr>in_progress := hm_insert piece_index (mark_unassigned (offset div block_size) progress)
               (in_progress pk)\<rparr>)"

definition pk_is_complete :: "picker \<Rightarrow> bool" where
  "pk_is_complete pk = bf_is_complete (have_bf pk)"

definition is_interested_in :: "picker \<Rightarrow> bitfield \<Rightarrow> bool" where
  "is_interested_in pk peer_bf \<longleftrightarrow>
     (\<exists>i \<in> set [0..<pk_pieces pk]. has peer_bf i \<and> \<not> has (have_bf pk) i)"

definition set_have :: "nat \<Rightarrow> picker \<Rightarrow> picker" where
  "set_have piece_index pk = pk\<lparr>have_bf := bf_set piece_index (have_bf pk)\<rparr>"

end
