(* ===== verification/Disk.thy ===== *)
theory Disk
  imports Metainfo Picker
begin

text \<open>
  Pieces on disk (\<open>src/src/disk/mapping.rs\<close>, \<open>src/src/disk/io.rs\<close>): the torrent's bytes are
  one array cut into files. The file system is a map from paths to contents. A \<open>device\<close> says what can
  fail: creating and opening a file, writing to it (a full disk takes a part of the bytes), \<open>sync_all\<close>
  (which is not called in lightspeed mode and then does not fail) and \<open>set_len\<close>. \<open>u64\<close> arithmetic wraps.
\<close>

section \<open>Mapping\<close>

definition u64_add :: "nat \<Rightarrow> nat \<Rightarrow> nat" where "u64_add a b = (a + b) mod 2 ^ 64"
definition u64_sub :: "nat \<Rightarrow> nat \<Rightarrow> nat" where "u64_sub a b = (a + (2 ^ 64 - b)) mod 2 ^ 64"

record mapped_file =
  mf_path :: path
  mf_offset :: nat
  mf_length :: nat

record file_mapping =
  fm_files :: "mapped_file list"
  fm_piece_length :: nat
  fm_total :: nat

record file_span =
  sp_index :: nat
  sp_path :: path
  sp_offset :: nat
  sp_length :: nat

fun map_files :: "path \<Rightarrow> nat \<Rightarrow> file_entry list \<Rightarrow> mapped_file list" where
  "map_files base offset [] = []"
| "map_files base offset (f # fs) =
     \<lparr>mf_path = base @ fe_path f, mf_offset = offset, mf_length = unat (fe_length f)\<rparr>
     # map_files base (u64_add offset (unat (fe_length f))) fs"

definition mapping_new :: "info \<Rightarrow> path \<Rightarrow> file_mapping" where
  "mapping_new i output_dir =
     (let base = output_dir @ [info_name i] in
      \<lparr>fm_files = (case info_files i of
          Single len \<Rightarrow> [\<lparr>mf_path = base, mf_offset = 0, mf_length = unat len\<rparr>]
        | Multi files \<Rightarrow> map_files base 0 files),
       fm_piece_length = unat (info_piece_length i), fm_total = unat (info_total_length i)\<rparr>)"

text \<open>The loop over the files, from file number \<open>i\<close>.\<close>

fun spans_loop :: "nat \<Rightarrow> mapped_file list \<Rightarrow> nat \<Rightarrow> nat \<Rightarrow> file_span list" where
  "spans_loop i [] current_offset remaining = []"
| "spans_loop i (f # fs) current_offset remaining =
     (let file_end = u64_add (mf_offset f) (mf_length f) in
      if file_end \<le> current_offset then spans_loop (Suc i) fs current_offset remaining
      else if current_offset < mf_offset f then []
      else (let offset_in_file = u64_sub current_offset (mf_offset f);
                available = u64_sub (mf_length f) offset_in_file;
                span_length = min remaining available;
                span = \<lparr>sp_index = i, sp_path = mf_path f, sp_offset = offset_in_file,
                        sp_length = span_length\<rparr>;
                remaining' = u64_sub remaining span_length in
            if remaining' = 0 then [span]
            else span # spans_loop (Suc i) fs (u64_add current_offset span_length) remaining'))"

definition piece_spans :: "file_mapping \<Rightarrow> nat \<Rightarrow> file_span list" where
  "piece_spans fm piece_index =
     (if 2 ^ 64 \<le> piece_index * fm_piece_length fm then []
      else (let piece_start = piece_index * fm_piece_length fm in
        if fm_total fm \<le> piece_start then []
        else (let piece_end = min (u64_add piece_start (fm_piece_length fm)) (fm_total fm) in
              spans_loop 0 (fm_files fm) piece_start (u64_sub piece_end piece_start))))"

definition files_for_allocation :: "file_mapping \<Rightarrow> (path \<times> nat) list" where
  "files_for_allocation fm = map (\<lambda>f. (mf_path f, mf_length f)) (fm_files fm)"

section \<open>Files\<close>

type_synonym file_system = "path \<Rightarrow> bytes option"

datatype io_result = IoOk | IoErr | IoPanic

text \<open>Of \<open>n\<close> bytes for the offset \<open>k\<close> of the file \<open>p\<close> the device takes \<open>dv_written p k n\<close>.\<close>

record device =
  dv_open :: "path \<Rightarrow> bool"
  dv_written :: "path \<Rightarrow> nat \<Rightarrow> nat \<Rightarrow> nat"
  dv_synced :: "path \<Rightarrow> nat \<Rightarrow> bool"
  dv_resized :: "path \<Rightarrow> nat \<Rightarrow> bool"

text \<open>\<open>seek\<close> and \<open>write_all\<close> on an open file: a gap before the offset reads as zeros.\<close>

definition write_at :: "nat \<Rightarrow> bytes \<Rightarrow> bytes \<Rightarrow> bytes" where
  "write_at offset new old =
     (if new = [] then old
      else overwrite offset new (old @ replicate (offset + length new - length old) 0))"

text \<open>\<open>write_piece_blocking\<close>: a file is created before its part of the data is sliced.\<close>

fun write_spans ::
  "device \<Rightarrow> file_system \<Rightarrow> file_span list \<Rightarrow> bytes \<Rightarrow> nat \<Rightarrow> file_system \<times> io_result"
where
  "write_spans dev fs [] data data_offset = (fs, IoOk)"
| "write_spans dev fs (sp # sps) data data_offset =
     (if \<not> dv_open dev (sp_path sp) then (fs, IoErr)
      else (let old = (case fs (sp_path sp) of None \<Rightarrow> [] | Some c \<Rightarrow> c);
                fs1 = fs(sp_path sp \<mapsto> old);
                end_pos = data_offset + sp_length sp in
            if length data < end_pos then (fs1, IoPanic)
            else (let part = slice data_offset end_pos data;
                      written = dv_written dev (sp_path sp) (sp_offset sp) (length part);
                      fs2 = fs1(sp_path sp \<mapsto> write_at (sp_offset sp) (take written part) old) in
                  if written < length part \<or> \<not> dv_synced dev (sp_path sp) (sp_offset sp) then (fs2, IoErr)
                  else write_spans dev fs2 sps data end_pos)))"

text \<open>\<open>read_piece_blocking\<close>: the buffer starts as zeros; \<open>read_exact\<close> needs the whole span.\<close>

fun read_spans ::
  "device \<Rightarrow> file_system \<Rightarrow> file_span list \<Rightarrow> bytes \<Rightarrow> nat \<Rightarrow> io_result \<times> bytes"
where
  "read_spans dev fs [] data data_offset = (IoOk, data)"
| "read_spans dev fs (sp # sps) data data_offset =
     (case fs (sp_path sp) of
        None \<Rightarrow> (IoErr, [])
      | Some c \<Rightarrow>
          if \<not> dv_open dev (sp_path sp) then (IoErr, [])
          else (let end_pos = data_offset + sp_length sp in
            if length data < end_pos then (IoPanic, [])
            else if length c < sp_offset sp + sp_length sp \<and> 0 < sp_length sp then (IoErr, [])
            else read_spans dev fs sps
              (overwrite data_offset (slice (sp_offset sp) (sp_offset sp + sp_length sp) c) data)
              end_pos))"

definition set_len :: "nat \<Rightarrow> bytes \<Rightarrow> bytes" where
  "set_len n c = take n c @ replicate (n - length c) 0"

definition pre_allocate_file :: "device \<Rightarrow> path \<times> nat \<Rightarrow> file_system \<Rightarrow> file_system" where
  "pre_allocate_file dev = (\<lambda>(p, n) fs. if \<not> dv_open dev p then fs
     else (let old = (case fs p of None \<Rightarrow> [] | Some c \<Rightarrow> c) in fs(p \<mapsto> if dv_resized dev p n then set_len n old else old)))"

section \<open>The disk task\<close>

datatype disk_command = WritePiece nat bytes | ReadPiece nat nat | PreAllocate | Shutdown
datatype disk_result = DiskOk nat | DiskError nat
datatype disk_reply = Written disk_result | ReadBack "bytes option" | NoReply

definition process_command ::
  "device \<Rightarrow> file_mapping \<Rightarrow> disk_command \<Rightarrow> file_system \<Rightarrow> file_system \<times> disk_reply" where
  "process_command dev fm cmd fs = (case cmd of
       WritePiece piece_index data \<Rightarrow>
         (case write_spans dev fs (piece_spans fm piece_index) data 0 of
            (fs', IoOk) \<Rightarrow> (fs', Written (DiskOk piece_index))
          | (fs', _) \<Rightarrow> (fs', Written (DiskError piece_index)))
     | ReadPiece piece_index len \<Rightarrow>
         (case read_spans dev fs (piece_spans fm piece_index) (replicate len 0) 0 of
            (IoOk, data) \<Rightarrow> (fs, ReadBack (Some data))
          | _ \<Rightarrow> (fs, ReadBack None))
     | PreAllocate \<Rightarrow> (fold (pre_allocate_file dev) (files_for_allocation fm) fs, NoReply)
     | Shutdown \<Rightarrow> (fs, NoReply))"

text \<open>
  The task's loop: a command is received, the channel is closed, or the task is cancelled and
  drains what is still queued before it ends.
\<close>

datatype disk_turn = Received disk_command | ChannelClosed | Cancelled "disk_command list"

fun disk_drain ::
  "device \<Rightarrow> file_mapping \<Rightarrow> disk_command list \<Rightarrow> file_system \<Rightarrow> file_system \<times> disk_reply list"
where
  "disk_drain dev fm [] fs = (fs, [])"
| "disk_drain dev fm (c # cs) fs =
     (case process_command dev fm c fs of (fs1, r) \<Rightarrow>
        case disk_drain dev fm cs fs1 of (fs2, rs) \<Rightarrow> (fs2, r # rs))"

fun disk_run ::
  "device \<Rightarrow> file_mapping \<Rightarrow> disk_turn list \<Rightarrow> file_system \<Rightarrow> file_system \<times> disk_reply list"
where
  "disk_run dev fm [] fs = (fs, [])"
| "disk_run dev fm (Received c # ts) fs =
     (case process_command dev fm c fs of (fs1, r) \<Rightarrow>
        case disk_run dev fm ts fs1 of (fs2, rs) \<Rightarrow> (fs2, r # rs))"
| "disk_run dev fm (ChannelClosed # ts) fs = (fs, [])"
| "disk_run dev fm (Cancelled queued # ts) fs = disk_drain dev fm queued fs"

text \<open>
  \<open>DiskHandle::write_piece\<close> fails only when the channel to the disk task is closed; what the
  task answers, an error included, is the \<open>Ok\<close> value.
\<close>

definition write_piece ::
  "device \<Rightarrow> file_mapping \<Rightarrow> bool \<Rightarrow> nat \<Rightarrow> bytes \<Rightarrow> file_system
    \<Rightarrow> file_system \<times> (unit + disk_result)" where
  "write_piece dev fm channel_open piece_index data fs =
     (if \<not> channel_open then (fs, Inl ())
      else (case process_command dev fm (WritePiece piece_index data) fs of
          (fs', Written r) \<Rightarrow> (fs', Inr r)
        | (fs', _) \<Rightarrow> (fs', Inr (DiskError piece_index))))"

definition read_piece ::
  "device \<Rightarrow> file_mapping \<Rightarrow> nat \<Rightarrow> nat \<Rightarrow> file_system \<Rightarrow> bytes option" where
  "read_piece dev fm piece_index len fs =
     (case process_command dev fm (ReadPiece piece_index len) fs of
        (_, ReadBack r) \<Rightarrow> r | _ \<Rightarrow> None)"

end
