(* ===== verification/Disk_Correct.thy ===== *)
theory Disk_Correct
  imports Disk
begin

text \<open>
  The contract of the disk component: with every file present at its full length, the files
  are one array of bytes (\<open>view\<close>); writing a piece overwrites its range of the array and
  nothing else, reading a piece returns its range.
\<close>

section \<open>The abstract array\<close>

definition file_ok :: "file_system \<Rightarrow> mapped_file \<Rightarrow> bool" where
  "file_ok fs f \<longleftrightarrow> (case fs (mf_path f) of None \<Rightarrow> False | Some c \<Rightarrow> length c = mf_length f)"

definition view :: "file_system \<Rightarrow> mapped_file list \<Rightarrow> bytes" where
  "view fs files = concat (map (\<lambda>f. case fs (mf_path f) of None \<Rightarrow> [] | Some c \<Rightarrow> c) files)"

fun tiled :: "nat \<Rightarrow> mapped_file list \<Rightarrow> bool" where
  "tiled o1 [] = True"
| "tiled o1 (f # fs) = (mf_offset f = o1 \<and> tiled (o1 + mf_length f) fs)"

definition span_total :: "mapped_file list \<Rightarrow> nat" where
  "span_total files = sum_list (map mf_length files)"

definition fm_ok :: "file_mapping \<Rightarrow> bool" where
  "fm_ok fm \<longleftrightarrow> tiled 0 (fm_files fm) \<and> distinct (map mf_path (fm_files fm))
     \<and> fm_total fm = span_total (fm_files fm) \<and> 0 < fm_piece_length fm
     \<and> fm_total fm + fm_piece_length fm < 2 ^ 64"

text \<open>A device on which nothing fails.\<close>

definition sound_device :: "device \<Rightarrow> bool" where
  "sound_device dev \<longleftrightarrow> (\<forall>p. dv_open dev p) \<and> (\<forall>p k n. n \<le> dv_written dev p k n)
     \<and> (\<forall>p k. dv_synced dev p k) \<and> (\<forall>p n. dv_resized dev p n)"

definition perfect :: device where
  "perfect = \<lparr>dv_open = (\<lambda>p. True), dv_written = (\<lambda>p k n. n), dv_synced = (\<lambda>p k. True), dv_resized = (\<lambda>p n. True)\<rparr>"

lemma perfect_sound [simp]: "sound_device perfect"
  by (simp add: sound_device_def perfect_def)

lemma sound_deviceD [simp]:
  assumes "sound_device dev"
  shows "dv_open dev p" "n \<le> dv_written dev p k n" "\<not> dv_written dev p k n < n" "dv_synced dev p k" "dv_resized dev p n"
  using assms by (auto simp: sound_device_def not_less)

lemma u64_arith [simp]:
  "a + b < 2 ^ 64 \<Longrightarrow> u64_add a b = a + b"
  "b \<le> a \<Longrightarrow> a < 2 ^ 64 \<Longrightarrow> u64_sub a b = a - b"
proof -
  assume "b \<le> a" "a < 2 ^ 64"
  then have "a + (2 ^ 64 - b) = (a - b) + 2 ^ 64" by simp
  then have "u64_sub a b = ((a - b) + 2 ^ 64) mod 2 ^ 64" by (simp only: u64_sub_def)
  also have "\<dots> = (a - b) mod 2 ^ 64" by (rule mod_add_self2)
  finally show "u64_sub a b = a - b" using \<open>a < 2 ^ 64\<close> by simp
qed (simp add: u64_add_def)

lemma span_total_Cons [simp]: "span_total (f # fs) = mf_length f + span_total fs"
  by (simp add: span_total_def)

lemma span_total_Nil [simp]: "span_total [] = 0"
  by (simp add: span_total_def)

lemma view_Cons: "fs (mf_path f) = Some c \<Longrightarrow> view fs (f # files) = c @ view fs files"
  by (simp add: view_def)

lemma view_frame: "(\<And>f. f \<in> set files \<Longrightarrow> fs' (mf_path f) = fs (mf_path f)) \<Longrightarrow> view fs' files = view fs files"
  unfolding view_def by (intro arg_cong [where f = concat] map_cong refl) simp

lemma file_okE:
  assumes "file_ok fs f" obtains c where "fs (mf_path f) = Some c" "length c = mf_length f"
  using assms by (auto simp: file_ok_def split: option.splits)

lemma length_view: "list_all (file_ok fs) files \<Longrightarrow> length (view fs files) = span_total files"
  by (induction files) (auto simp: view_def span_total_def file_ok_def split: option.splits)

lemma file_ok_upd: "file_ok (fs(p \<mapsto> c)) f \<longleftrightarrow> (if mf_path f = p then length c = mf_length f else file_ok fs f)"
  by (simp add: file_ok_def)

lemma overwrite_skip: "length a \<le> n \<Longrightarrow> overwrite n d (a @ b) = a @ overwrite (n - length a) d b"
  by (simp add: overwrite_def)

lemma overwrite_within: "n + length d \<le> length a \<Longrightarrow> overwrite n d (a @ b) = overwrite n d a @ b"
  by (simp add: overwrite_def)

lemma overwrite_cross:
  "n + length d1 = length a \<Longrightarrow> overwrite n (d1 @ d2) (a @ b) = overwrite n d1 a @ overwrite 0 d2 b"
  by (simp add: overwrite_def flip: add.assoc)

lemma write_at_within: "n + length d \<le> length c \<Longrightarrow> write_at n d c = overwrite n d c"
  by (auto simp: write_at_def overwrite_def)

lemma slice_take_drop: "slice a (a + n) xs = take n (drop a xs)"
  by (simp add: slice_def)

section \<open>Writing\<close>

lemma other_path: "distinct (map mf_path (f # files)) \<Longrightarrow> g \<in> set files \<Longrightarrow> mf_path g \<noteq> mf_path f"
  by (auto simp: rev_image_eqI)

lemma spans_loop_step:
  assumes "mf_offset f = o1" and "o1 + mf_length f < 2 ^ 64" and "o1 \<le> cur"
    and "cur < o1 + mf_length f" and "cur + rem < 2 ^ 64" and "len = min rem (o1 + mf_length f - cur)"
    and "sp = \<lparr>sp_index = i, sp_path = mf_path f, sp_offset = cur - o1, sp_length = len\<rparr>"
  shows "spans_loop i (f # fs) cur rem =
    (if rem - len = 0 then [sp] else sp # spans_loop (Suc i) fs (cur + len) (rem - len))"
proof -
  have so: "u64_sub cur o1 = cur - o1" and av: "u64_sub (mf_length f) (cur - o1) = o1 + mf_length f - cur"
    and en: "u64_add o1 (mf_length f) = o1 + mf_length f"
    using assms by auto
  have "len \<le> rem" using assms(6) by simp
  then have rest: "u64_sub rem len = rem - len" "u64_add cur len = cur + len"
    using assms(5) by auto
  show ?thesis
    unfolding spans_loop.simps Let_def assms(1) en so av assms(6) [symmetric] rest assms(7) [symmetric]
    using assms(3,4) by simp
qed

lemma write_loop:
  assumes "sound_device dev"
  shows "tiled o1 files \<Longrightarrow> o1 + span_total files < 2 ^ 64 \<Longrightarrow> distinct (map mf_path files) \<Longrightarrow>
    list_all (file_ok fs) files \<Longrightarrow> o1 \<le> cur \<Longrightarrow> 0 < rem \<Longrightarrow> cur + rem \<le> o1 + span_total files \<Longrightarrow>
    off + rem \<le> length data \<Longrightarrow>
    \<exists>fs'. write_spans dev fs (spans_loop i files cur rem) data off = (fs', IoOk)
      \<and> view fs' files = overwrite (cur - o1) (take rem (drop off data)) (view fs files)
      \<and> (\<forall>p. p \<notin> mf_path ` set files \<longrightarrow> fs' p = fs p) \<and> list_all (file_ok fs') files"
proof (induction files arbitrary: o1 fs cur rem off i)
  case (Cons f files)
  from Cons.prems(4) obtain c where c: "fs (mf_path f) = Some c" "length c = mf_length f"
    by (auto elim: file_okE)
  let ?n = "mf_length f"
  have fo: "mf_offset f = o1" using Cons.prems(1) by simp
  have end_of: "u64_add (mf_offset f) ?n = o1 + ?n" using Cons.prems(2) fo by simp
  show ?case
  proof (cases "o1 + ?n \<le> cur")
    case True
    have "\<exists>fs'. write_spans dev fs (spans_loop (Suc i) files cur rem) data off = (fs', IoOk)
      \<and> view fs' files = overwrite (cur - (o1 + ?n)) (take rem (drop off data)) (view fs files)
      \<and> (\<forall>p. p \<notin> mf_path ` set files \<longrightarrow> fs' p = fs p) \<and> list_all (file_ok fs') files"
      by (rule Cons.IH) (use Cons.prems True in auto)
    then obtain fs' where w: "write_spans dev fs (spans_loop (Suc i) files cur rem) data off = (fs', IoOk)"
      and v: "view fs' files = overwrite (cur - (o1 + ?n)) (take rem (drop off data)) (view fs files)"
      and fr: "\<And>p. p \<notin> mf_path ` set files \<Longrightarrow> fs' p = fs p" and ok: "list_all (file_ok fs') files"
      by blast
    have same: "fs' (mf_path f) = Some c" using fr c Cons.prems(3) by auto
    have "view fs' (f # files) = overwrite (cur - o1) (take rem (drop off data)) (view fs (f # files))"
      using True v c overwrite_skip [of c "cur - o1" "take rem (drop off data)" "view fs files"]
      by (simp add: view_Cons same c(1))
    moreover have "spans_loop i (f # files) cur rem = spans_loop (Suc i) files cur rem"
      using True end_of by simp
    moreover have "file_ok fs' f" using same c by (simp add: file_ok_def)
    ultimately show ?thesis using w fr ok by auto
  next
    case False
    let ?a = "o1 + ?n - cur" and ?so = "cur - o1"
    define len where "len = min rem ?a"
    define sp where "sp = \<lparr>sp_index = i, sp_path = mf_path f, sp_offset = ?so, sp_length = len\<rparr>"
    have loop: "spans_loop i (f # files) cur rem =
        (if rem - len = 0 then [sp] else sp # spans_loop (Suc i) files (cur + len) (rem - len))"
      by (rule spans_loop_step [OF fo _ _ _ _ len_def sp_def]) (use Cons.prems False in auto)
    have "len \<le> rem" by (simp add: len_def)
    then have fits: "off + len \<le> length data" using Cons.prems(8) by simp
    let ?d = "take len (drop off data)"
    have ld: "length ?d = len" using Cons.prems(8) by (simp add: len_def)
    have within: "?so + length ?d \<le> length c"
      using False Cons.prems(5) c(2) ld by (simp add: len_def)
    define c' where "c' = overwrite ?so ?d c"
    define fs1 where "fs1 = fs(mf_path f \<mapsto> c')"
    have step: "write_spans dev fs (sp # sps) data off = write_spans dev fs1 sps data (off + len)" for sps
      using assms c fits within
      by (simp add: sp_def Let_def slice_take_drop fs1_def c'_def write_at_within)
    have fs1: "fs1 (mf_path f) = Some c'" "length c' = ?n"
      using within c by (simp_all add: fs1_def c'_def overwrite_length)
    have rest: "view fs1 files = view fs files" "list_all (file_ok fs1) files"
      using Cons.prems(4) other_path [OF Cons.prems(3)]
      by (auto intro!: view_frame simp: fs1_def list_all_iff file_ok_upd)
    show ?thesis
    proof (cases "rem - len = 0")
      case True
      then have "len = rem" by (simp add: len_def)
      then have "view fs1 (f # files) = overwrite ?so (take rem (drop off data)) (view fs (f # files))"
        using within by (simp add: view_Cons fs1(1) c(1) rest c'_def overwrite_within)
      moreover have "write_spans dev fs (spans_loop i (f # files) cur rem) data off = (fs1, IoOk)"
        using step [of "[]"] by (simp only: loop True if_True write_spans.simps(1) simp_thms)
      moreover have "\<forall>p. p \<notin> mf_path ` set (f # files) \<longrightarrow> fs1 p = fs p" by (simp add: fs1_def)
      moreover have "file_ok fs1 f" using fs1 by (simp add: file_ok_def)
      ultimately show ?thesis using rest(2) by auto
    next
      case False2: False
      then have len: "len = ?a" by (auto simp: len_def)
      have "\<exists>fs'. write_spans dev fs1 (spans_loop (Suc i) files (cur + len) (rem - len)) data (off + len) = (fs', IoOk)
        \<and> view fs' files = overwrite (cur + len - (o1 + ?n)) (take (rem - len) (drop (off + len) data)) (view fs1 files)
        \<and> (\<forall>p. p \<notin> mf_path ` set files \<longrightarrow> fs' p = fs1 p) \<and> list_all (file_ok fs') files"
        by (rule Cons.IH) (use Cons.prems rest(2) False False2 len in auto)
      then obtain fs' where
        w: "write_spans dev fs1 (spans_loop (Suc i) files (cur + len) (rem - len)) data (off + len) = (fs', IoOk)"
        and v: "view fs' files = overwrite (cur + len - (o1 + ?n)) (take (rem - len) (drop (off + len) data)) (view fs1 files)"
        and fr: "\<And>p. p \<notin> mf_path ` set files \<Longrightarrow> fs' p = fs1 p" and ok: "list_all (file_ok fs') files"
        by blast
      have same: "fs' (mf_path f) = Some c'" using fr fs1 Cons.prems(3) by auto
      have "take rem (drop off data) = ?d @ take (rem - len) (drop (off + len) data)"
      proof -
        have "take (len + (rem - len)) (drop off data) = ?d @ take (rem - len) (drop (off + len) data)"
          by (simp only: take_add drop_drop add.commute)
        then show ?thesis using \<open>len \<le> rem\<close> by simp
      qed
      moreover have "?so + length ?d = length c" using False Cons.prems(5) c(2) ld len by simp
      ultimately have "view fs' (f # files) = overwrite ?so (take rem (drop off data)) (view fs (f # files))"
        using v rest(1) len False
        by (simp add: view_Cons same c(1) overwrite_cross c'_def)
      moreover have "file_ok fs' f" using same fs1 by (simp add: file_ok_def)
      ultimately show ?thesis
        using False2 loop step w fr ok by (auto simp: fs1_def)
    qed
  qed
qed simp

section \<open>Reading\<close>

lemma read_loop:
  assumes "sound_device dev"
  shows "tiled o1 files \<Longrightarrow> o1 + span_total files < 2 ^ 64 \<Longrightarrow> list_all (file_ok fs) files \<Longrightarrow>
    o1 \<le> cur \<Longrightarrow> 0 < rem \<Longrightarrow> cur + rem \<le> o1 + span_total files \<Longrightarrow> off + rem \<le> length data \<Longrightarrow>
    read_spans dev fs (spans_loop i files cur rem) data off =
      (IoOk, overwrite off (take rem (drop (cur - o1) (view fs files))) data)"
proof (induction files arbitrary: o1 cur rem off i data)
  case (Cons f files)
  from Cons.prems(3) obtain c where c: "fs (mf_path f) = Some c" "length c = mf_length f"
    by (auto elim: file_okE)
  let ?n = "mf_length f"
  have fo: "mf_offset f = o1" using Cons.prems(1) by simp
  have end_of: "u64_add (mf_offset f) ?n = o1 + ?n" using Cons.prems(2) fo by simp
  show ?case
  proof (cases "o1 + ?n \<le> cur")
    case True
    have "read_spans dev fs (spans_loop (Suc i) files cur rem) data off =
        (IoOk, overwrite off (take rem (drop (cur - (o1 + ?n)) (view fs files))) data)"
      by (rule Cons.IH) (use Cons.prems True in auto)
    then show ?thesis using True end_of c by (simp add: view_Cons c(1))
  next
    case False
    define len where "len = min rem (o1 + ?n - cur)"
    define sp where "sp = \<lparr>sp_index = i, sp_path = mf_path f, sp_offset = cur - o1, sp_length = len\<rparr>"
    have loop: "spans_loop i (f # files) cur rem =
        (if rem - len = 0 then [sp] else sp # spans_loop (Suc i) files (cur + len) (rem - len))"
      by (rule spans_loop_step [OF fo _ _ _ _ len_def sp_def]) (use Cons.prems False in auto)
    have "len \<le> rem" by (simp add: len_def)
    then have fits: "off + len \<le> length data" using Cons.prems(7) by simp
    have within: "cur - o1 + len \<le> length c"
      using False Cons.prems(4) c(2) by (simp add: len_def)
    let ?d = "take len (drop (cur - o1) c)"
    have ld: "length ?d = len" using within by simp
    have step: "read_spans dev fs (sp # sps) data off =
        read_spans dev fs sps (overwrite off ?d data) (off + len)" for sps
      using assms c fits within by (simp add: sp_def Let_def slice_take_drop)
    show ?thesis
    proof (cases "rem - len = 0")
      case True
      then have "len = rem" using \<open>len \<le> rem\<close> by simp
      then show ?thesis
        using True loop step [of "[]"] within by (simp add: view_Cons c(1))
    next
      case rest: False
      then have len: "len = o1 + ?n - cur" by (auto simp: len_def)
      have "read_spans dev fs (spans_loop (Suc i) files (cur + len) (rem - len))
          (overwrite off ?d data) (off + len) =
          (IoOk, overwrite (off + len) (take (rem - len) (drop (cur + len - (o1 + ?n)) (view fs files)))
            (overwrite off ?d data))"
        using ld fits by (intro Cons.IH) (use Cons.prems False rest len in \<open>auto simp: overwrite_length\<close>)
      moreover have "take rem (drop (cur - o1) (view fs (f # files))) =
          ?d @ take (rem - len) (view fs files)"
      proof -
        have "length (drop (cur - o1) c) = len" using len False Cons.prems(4) c(2) by simp
        moreover have "cur - o1 \<le> length c" using within by simp
        ultimately show ?thesis using rest by (simp add: view_Cons c(1))
      qed
      moreover have "overwrite (off + len) x (overwrite off ?d data) = overwrite off (?d @ x) data" for x
        using ld fits by (simp add: overwrite_def add_ac)
      ultimately show ?thesis
        using rest loop step len False Cons.prems(4) by simp
    qed
  qed
qed simp

section \<open>Pieces\<close>

definition piece_size :: "file_mapping \<Rightarrow> nat \<Rightarrow> nat" where
  "piece_size fm i = min (fm_piece_length fm) (fm_total fm - i * fm_piece_length fm)"

lemma piece_spans_eq:
  assumes "fm_ok fm" and "i * fm_piece_length fm < fm_total fm"
  shows "piece_spans fm i = spans_loop 0 (fm_files fm) (i * fm_piece_length fm) (piece_size fm i)"
proof -
  let ?s = "i * fm_piece_length fm"
  have "?s + fm_piece_length fm < 2 ^ 64" "?s < 2 ^ 64"
    using assms by (auto simp: fm_ok_def)
  moreover have "min (?s + fm_piece_length fm) (fm_total fm) - ?s = piece_size fm i"
    using assms(2) by (simp add: piece_size_def min_def) arith
  moreover have "u64_sub (min (?s + fm_piece_length fm) (fm_total fm)) ?s =
      min (?s + fm_piece_length fm) (fm_total fm) - ?s"
    using assms by (intro u64_arith) (auto simp: fm_ok_def)
  ultimately show ?thesis using assms(2) by (simp add: piece_spans_def Let_def)
qed

lemma piece_size_bounds:
  assumes "fm_ok fm" and "i * fm_piece_length fm < fm_total fm"
  shows "0 < piece_size fm i" and "i * fm_piece_length fm + piece_size fm i \<le> span_total (fm_files fm)"
  using assms by (auto simp: piece_size_def fm_ok_def)

lemma write_piece_spans:
  assumes "sound_device dev" and "fm_ok fm" and "list_all (file_ok fs) (fm_files fm)"
    and "i * fm_piece_length fm < fm_total fm" and "length data = piece_size fm i"
  obtains fs' where "write_spans dev fs (piece_spans fm i) data 0 = (fs', IoOk)"
    "view fs' (fm_files fm) = overwrite (i * fm_piece_length fm) data (view fs (fm_files fm))"
    "list_all (file_ok fs') (fm_files fm)"
    "\<forall>p. p \<notin> mf_path ` set (fm_files fm) \<longrightarrow> fs' p = fs p"
proof -
  have "\<exists>fs'. write_spans dev fs
        (spans_loop 0 (fm_files fm) (i * fm_piece_length fm) (piece_size fm i)) data 0 = (fs', IoOk)
      \<and> view fs' (fm_files fm) = overwrite (i * fm_piece_length fm - 0)
          (take (piece_size fm i) (drop 0 data)) (view fs (fm_files fm))
      \<and> (\<forall>p. p \<notin> mf_path ` set (fm_files fm) \<longrightarrow> fs' p = fs p)
      \<and> list_all (file_ok fs') (fm_files fm)"
    by (rule write_loop) (use assms piece_size_bounds [OF assms(2,4)] in \<open>auto simp: fm_ok_def\<close>)
  then show thesis
    using that assms(5) by (auto simp: piece_spans_eq [OF assms(2,4)])
qed

lemma read_piece_spans:
  assumes "sound_device dev" and "fm_ok fm" and "list_all (file_ok fs) (fm_files fm)"
    and "i * fm_piece_length fm < fm_total fm"
  shows "read_spans dev fs (piece_spans fm i) (replicate (piece_size fm i) 0) 0 =
    (IoOk, take (piece_size fm i) (drop (i * fm_piece_length fm) (view fs (fm_files fm))))"
proof -
  have "read_spans dev fs (spans_loop 0 (fm_files fm) (i * fm_piece_length fm) (piece_size fm i))
      (replicate (piece_size fm i) 0) 0 =
      (IoOk, overwrite 0 (take (piece_size fm i) (drop (i * fm_piece_length fm - 0) (view fs (fm_files fm))))
        (replicate (piece_size fm i) 0))"
    by (rule read_loop) (use assms piece_size_bounds [OF assms(2,4)] in \<open>auto simp: fm_ok_def\<close>)
  moreover have "length (view fs (fm_files fm)) = span_total (fm_files fm)"
    by (rule length_view [OF assms(3)])
  ultimately show ?thesis
    using piece_size_bounds [OF assms(2,4)]
    by (simp add: piece_spans_eq [OF assms(2,4)] overwrite_def)
qed

section \<open>Establishing the contract\<close>

lemma map_files_tiled:
  "o1 + sum_list (map (\<lambda>f. unat (fe_length f)) fs) < 2 ^ 64 \<Longrightarrow>
     tiled o1 (map_files base o1 fs)
     \<and> span_total (map_files base o1 fs) = sum_list (map (\<lambda>f. unat (fe_length f)) fs)
     \<and> map mf_path (map_files base o1 fs) = map (\<lambda>f. base @ fe_path f) fs"
proof (induction fs arbitrary: o1)
  case (Cons f fs)
  have add: "u64_add o1 (unat (fe_length f)) = o1 + unat (fe_length f)"
    using Cons.prems by (intro u64_arith) simp
  have "o1 + unat (fe_length f) + sum_list (map (\<lambda>f. unat (fe_length f)) fs) < 2 ^ 64"
    using Cons.prems by simp
  from Cons.IH [OF this] show ?case by (simp add: add)
qed simp

text \<open>The mapping of an accepted torrent whose lengths do not wrap and whose paths differ.\<close>

lemma mapping_new_ok:
  assumes "info_ok i" and "distinct (layout_paths (info_files i))"
    and "sum_list (map unat (layout_entries (info_files i))) + unat (info_piece_length i) < 2 ^ 64"
  shows "fm_ok (mapping_new i dir)"
proof -
  have total: "unat (info_total_length i) = sum_list (map unat (layout_entries (info_files i)))"
    using assms by (intro info_total_exact) auto
  show ?thesis
  proof (cases "info_files i")
    case (Single n)
    then show ?thesis
      using assms total
      by (simp add: fm_ok_def mapping_new_def Let_def layout_entries_def info_ok_def)
  next
    case (Multi fs)
    have d: "distinct (map (\<lambda>f. base @ fe_path f) fs)" for base
      using assms(2) Multi
      by (simp add: layout_paths_def distinct_map inj_on_def)
    have "sum_list (map (\<lambda>f. unat (fe_length f)) fs) < 2 ^ 64"
      using assms(3) Multi by (simp add: layout_entries_def comp_def)
    with map_files_tiled [of 0 fs] d [of "dir @ [info_name i]"] Multi assms total show ?thesis
      by (simp add: fm_ok_def mapping_new_def Let_def layout_entries_def info_ok_def comp_def)
  qed
qed

lemma length_set_len [simp]: "length (set_len n c) = n"
  by (simp add: set_len_def)

lemma pre_allocate_ok:
  assumes "sound_device dev" and "distinct (map mf_path files)"
  shows "list_all (file_ok (fold (pre_allocate_file dev) (map (\<lambda>f. (mf_path f, mf_length f)) files) fs)) files"
proof -
  have keep: "fold (pre_allocate_file dev) (map (\<lambda>f. (mf_path f, mf_length f)) gs) fs p = fs p"
    if "p \<notin> mf_path ` set gs" for gs p fs
    using that by (induction gs arbitrary: fs) (auto simp: pre_allocate_file_def Let_def)
  show ?thesis
    using assms(2)
  proof (induction files arbitrary: fs)
    case (Cons f files)
    then have "mf_path f \<notin> mf_path ` set files" by auto
    then have "file_ok (fold (pre_allocate_file dev) (map (\<lambda>f. (mf_path f, mf_length f)) files)
        (pre_allocate_file dev (mf_path f, mf_length f) fs)) f"
      by (simp add: file_ok_def keep) (simp add: pre_allocate_file_def assms(1) Let_def)
    with Cons show ?case by simp
  qed simp
qed

lemma ranges_disjoint:
  assumes "fm_ok fm" and "i \<noteq> j" and "i * fm_piece_length fm < fm_total fm"
    and "j * fm_piece_length fm < fm_total fm"
    and "length v = fm_total fm" and "length d = piece_size fm i"
  shows "take (piece_size fm j) (drop (j * fm_piece_length fm) (overwrite (i * fm_piece_length fm) d v)) =
    take (piece_size fm j) (drop (j * fm_piece_length fm) v)"
proof (rule nth_equalityI)
  let ?p = "fm_piece_length fm"
  have fits: "i * ?p + length d \<le> length v" and fitj: "j * ?p + piece_size fm j \<le> length v"
    using assms piece_size_bounds [OF assms(1)] by (auto simp: fm_ok_def)
  show "length (take (piece_size fm j) (drop (j * ?p) (overwrite (i * ?p) d v))) =
      length (take (piece_size fm j) (drop (j * ?p) v))"
    using fits by (simp add: overwrite_length)
  fix k assume "k < length (take (piece_size fm j) (drop (j * ?p) (overwrite (i * ?p) d v)))"
  then have k: "k < piece_size fm j" by simp
  then have kp: "k < ?p" by (simp add: piece_size_def)
  have dp: "length d \<le> ?p" using assms(6) by (simp add: piece_size_def)
  have out: "\<not> (i * ?p \<le> j * ?p + k \<and> j * ?p + k < i * ?p + length d)"
  proof (cases "i < j")
    case True
    then have "Suc i * ?p \<le> j * ?p" by (intro mult_le_mono1) simp
    with dp show ?thesis by simp
  next
    case False
    then have "Suc j * ?p \<le> i * ?p" using assms(2) by (intro mult_le_mono1) simp
    with kp show ?thesis by simp
  qed
  show "take (piece_size fm j) (drop (j * ?p) (overwrite (i * ?p) d v)) ! k =
      take (piece_size fm j) (drop (j * ?p) v) ! k"
    using k fits fitj out by (auto simp: overwrite_nth overwrite_length)
qed

text \<open>One write, seen through reads.\<close>

lemma write_then_read:
  assumes "sound_device dev" and "fm_ok fm" and "list_all (file_ok fs) (fm_files fm)"
    and "i * fm_piece_length fm < fm_total fm" and "length data = piece_size fm i"
  shows "\<exists>fs'. process_command dev fm (WritePiece i data) fs = (fs', Written (DiskOk i))
    \<and> list_all (file_ok fs') (fm_files fm)
    \<and> read_piece dev fm i (piece_size fm i) fs' = Some data
    \<and> (\<forall>j. j \<noteq> i \<and> j * fm_piece_length fm < fm_total fm \<longrightarrow>
         read_piece dev fm j (piece_size fm j) fs' = read_piece dev fm j (piece_size fm j) fs)
    \<and> (\<forall>p. p \<notin> mf_path ` set (fm_files fm) \<longrightarrow> fs' p = fs p)"
proof -
  obtain fs' where w: "write_spans dev fs (piece_spans fm i) data 0 = (fs', IoOk)"
    and v: "view fs' (fm_files fm) = overwrite (i * fm_piece_length fm) data (view fs (fm_files fm))"
    and ok: "list_all (file_ok fs') (fm_files fm)"
    and fr: "\<forall>p. p \<notin> mf_path ` set (fm_files fm) \<longrightarrow> fs' p = fs p"
    by (rule write_piece_spans [OF assms])
  have lv: "length (view fs (fm_files fm)) = fm_total fm"
    using length_view [OF assms(3)] assms(2) by (simp add: fm_ok_def)
  have rd: "read_piece dev fm j (piece_size fm j) g =
      Some (take (piece_size fm j) (drop (j * fm_piece_length fm) (view g (fm_files fm))))"
    if "list_all (file_ok g) (fm_files fm)" "j * fm_piece_length fm < fm_total fm" for g j
    using read_piece_spans [OF assms(1,2) that] by (simp add: read_piece_def process_command_def)
  have fits: "i * fm_piece_length fm + length data \<le> fm_total fm"
    using piece_size_bounds(2) [OF assms(2,4)] assms(2,5) by (simp add: fm_ok_def)
  have "read_piece dev fm i (piece_size fm i) fs' = Some data"
    using rd [OF ok assms(4)] fits lv assms(5) by (simp add: v overwrite_def)
  moreover have "read_piece dev fm j (piece_size fm j) fs' = read_piece dev fm j (piece_size fm j) fs"
    if "j \<noteq> i" "j * fm_piece_length fm < fm_total fm" for j
    using rd [OF ok that(2)] rd [OF assms(3) that(2)] ranges_disjoint [OF assms(2) _ assms(4) that(2) lv assms(5)] that
    by (simp add: v)
  ultimately show ?thesis using w fr ok by (auto simp: process_command_def)
qed

section \<open>Properties\<close>

text \<open>Writing a piece and reading it back gives the piece, even across file boundaries, and
  no other piece on disk changes; the write changes only the torrent's own files.\<close>

theorem piece_on_disk:
  assumes "sound_device dev" and "fm_ok fm" and "list_all (file_ok fs) (fm_files fm)"
    and "i * fm_piece_length fm < fm_total fm" and "length data = piece_size fm i"
  shows "\<exists>fs'. process_command dev fm (WritePiece i data) fs = (fs', Written (DiskOk i))
    \<and> read_piece dev fm i (piece_size fm i) fs' = Some data
    \<and> (\<forall>j. j \<noteq> i \<and> j * fm_piece_length fm < fm_total fm \<longrightarrow>
         read_piece dev fm j (piece_size fm j) fs' = read_piece dev fm j (piece_size fm j) fs)
    \<and> (\<forall>p. p \<notin> mf_path ` set (fm_files fm) \<longrightarrow> fs' p = fs p)"
  using write_then_read [OF assms] by blast

definition example_mapping :: file_mapping where
  "example_mapping = \<lparr>fm_files = [\<lparr>mf_path = [[1]], mf_offset = 0, mf_length = 3\<rparr>,
      \<lparr>mf_path = [[2]], mf_offset = 3, mf_length = 3\<rparr>], fm_piece_length = 4, fm_total = 6\<rparr>"

theorem piece_on_disk_witness:
  "\<exists>fs'. process_command perfect example_mapping (WritePiece 0 [5, 6, 7, 8])
      [[[1]] \<mapsto> [0, 0, 0], [[2]] \<mapsto> [0, 0, 0]] = (fs', Written (DiskOk 0))
    \<and> read_piece perfect example_mapping 0 4 fs' = Some [5, 6, 7, 8]"
  using piece_on_disk [of perfect example_mapping "[[[1]] \<mapsto> [0, 0, 0], [[2]] \<mapsto> [0, 0, 0]]" 0 "[5, 6, 7, 8]"]
  by (simp add: example_mapping_def fm_ok_def file_ok_def piece_size_def) blast


section \<open>The task refines an array\<close>

text \<open>What the disk task promises: the torrent is one byte array, cut into pieces.\<close>

fun array_step :: "nat \<Rightarrow> disk_command \<Rightarrow> bytes \<Rightarrow> bytes \<times> disk_reply" where
  "array_step pl (WritePiece i data) v = (overwrite (i * pl) data v, Written (DiskOk i))"
| "array_step pl (ReadPiece i n) v = (v, ReadBack (Some (take n (drop (i * pl) v))))"
| "array_step pl PreAllocate v = (v, NoReply)"
| "array_step pl Shutdown v = (v, NoReply)"

fun array_run :: "nat \<Rightarrow> disk_command list \<Rightarrow> bytes \<Rightarrow> bytes \<times> disk_reply list" where
  "array_run pl [] v = (v, [])"
| "array_run pl (c # cs) v = (case array_step pl c v of (v1, r) \<Rightarrow>
     case array_run pl cs v1 of (v2, rs) \<Rightarrow> (v2, r # rs))"

text \<open>The commands the session sends: whole pieces of the torrent.\<close>

fun command_ok :: "file_mapping \<Rightarrow> disk_command \<Rightarrow> bool" where
  "command_ok fm (WritePiece i data) \<longleftrightarrow>
     i * fm_piece_length fm < fm_total fm \<and> length data = piece_size fm i"
| "command_ok fm (ReadPiece i n) \<longleftrightarrow> i * fm_piece_length fm < fm_total fm \<and> n = piece_size fm i"
| "command_ok fm _ \<longleftrightarrow> True"

text \<open>The commands that are executed: all up to the end of the loop, the queue included.\<close>

fun executed :: "disk_turn list \<Rightarrow> disk_command list" where
  "executed [] = []"
| "executed (Received c # ts) = c # executed ts"
| "executed (ChannelClosed # ts) = []"
| "executed (Cancelled queued # ts) = queued"

lemma pre_allocate_same:
  assumes "list_all (file_ok fs) files"
  shows "fold (pre_allocate_file dev) (map (\<lambda>f. (mf_path f, mf_length f)) files) fs = fs"
  using assms
proof (induction files)
  case (Cons f files)
  then obtain c where "fs (mf_path f) = Some c" "length c = mf_length f" by (auto elim: file_okE)
  then have "pre_allocate_file dev (mf_path f, mf_length f) fs = fs"
    by (auto simp: pre_allocate_file_def set_len_def Let_def fun_eq_iff)
  with Cons show ?case by simp
qed simp

lemma command_refines:
  assumes "sound_device dev" and "fm_ok fm" and "list_all (file_ok fs) (fm_files fm)" and "command_ok fm c"
  shows "\<exists>fs' r. process_command dev fm c fs = (fs', r) \<and> list_all (file_ok fs') (fm_files fm)
    \<and> array_step (fm_piece_length fm) c (view fs (fm_files fm)) = (view fs' (fm_files fm), r)"
proof (cases c)
  case (WritePiece i data)
  then have c: "i * fm_piece_length fm < fm_total fm" "length data = piece_size fm i"
    using assms(4) by auto
  obtain fs' where "write_spans dev fs (piece_spans fm i) data 0 = (fs', IoOk)"
    "view fs' (fm_files fm) = overwrite (i * fm_piece_length fm) data (view fs (fm_files fm))"
    "list_all (file_ok fs') (fm_files fm)"
    by (rule write_piece_spans [OF assms(1-3) c])
  then show ?thesis by (simp add: WritePiece process_command_def del: write_spans.simps)
next
  case (ReadPiece i n)
  then show ?thesis
    using assms(3,4) read_piece_spans [OF assms(1-3), of i]
    by (simp add: process_command_def del: read_spans.simps)
next
  case PreAllocate
  then show ?thesis
    using assms(3) by (simp add: process_command_def files_for_allocation_def pre_allocate_same)
next
  case Shutdown
  then show ?thesis using assms(3) by (simp add: process_command_def)
qed

lemma drain_refines:
  assumes "sound_device dev" and "fm_ok fm"
  shows "list_all (file_ok fs) (fm_files fm) \<Longrightarrow> list_all (command_ok fm) cs \<Longrightarrow>
    \<exists>fs' rs. disk_drain dev fm cs fs = (fs', rs)
      \<and> array_run (fm_piece_length fm) cs (view fs (fm_files fm)) = (view fs' (fm_files fm), rs)"
proof (induction cs arbitrary: fs)
  case (Cons c cs)
  then obtain fs1 r where s: "process_command dev fm c fs = (fs1, r)"
    "list_all (file_ok fs1) (fm_files fm)"
    "array_step (fm_piece_length fm) c (view fs (fm_files fm)) = (view fs1 (fm_files fm), r)"
    using command_refines [OF assms Cons.prems(1), of c] by auto
  obtain fs2 rs where "disk_drain dev fm cs fs1 = (fs2, rs)"
    "array_run (fm_piece_length fm) cs (view fs1 (fm_files fm)) = (view fs2 (fm_files fm), rs)"
    using Cons.IH [OF s(2)] Cons.prems by auto
  with s show ?case by simp
qed simp

text \<open>C27. The disk task is a byte array to its clients: whatever commands for whole pieces it
  receives, those still queued when it is cancelled included, its replies and the contents of the
  files are those of the array.\<close>

theorem disk_task_refines:
  assumes "sound_device dev" and "fm_ok fm" and "list_all (file_ok fs) (fm_files fm)"
    and "list_all (command_ok fm) (executed ts)" and "disk_run dev fm ts fs = (fs', rs)"
  shows "array_run (fm_piece_length fm) (executed ts) (view fs (fm_files fm)) =
    (view fs' (fm_files fm), rs)"
  using assms(3-5)
proof (induction ts arbitrary: fs fs' rs)
  case (Cons t ts)
  show ?case
  proof (cases t)
    case (Received c)
    then obtain fs1 r where s: "process_command dev fm c fs = (fs1, r)"
      "list_all (file_ok fs1) (fm_files fm)"
      "array_step (fm_piece_length fm) c (view fs (fm_files fm)) = (view fs1 (fm_files fm), r)"
      using command_refines [OF assms(1,2) Cons.prems(1), of c] Cons.prems(2) by auto
    with Cons.IH [OF s(2)] Cons.prems Received show ?thesis by (auto split: prod.splits)
  next
    case ChannelClosed
    with Cons.prems show ?thesis by simp
  next
    case (Cancelled queued)
    with Cons.prems show ?thesis using drain_refines [OF assms(1,2) Cons.prems(1), of queued] by auto
  qed
qed simp

theorem disk_task_refines_witness:
  "\<exists>fs' rs. disk_run perfect example_mapping
      [Received PreAllocate, Received (WritePiece 0 [5, 6, 7, 8]), Cancelled [WritePiece 1 [9, 9], ReadPiece 0 4]]
      [[[1]] \<mapsto> [0, 0, 0], [[2]] \<mapsto> [0, 0, 0]] = (fs', rs)
    \<and> view fs' (fm_files example_mapping) = [5, 6, 7, 8, 9, 9]
    \<and> rs = [NoReply, Written (DiskOk 0), Written (DiskOk 1), ReadBack (Some [5, 6, 7, 8])]"
proof -
  let ?ts = "[Received PreAllocate, Received (WritePiece 0 [5, 6, 7, 8]),
    Cancelled [WritePiece 1 [9, 9], ReadPiece 0 4]]"
  let ?fs = "[[[1]] \<mapsto> [0, 0, 0], [[2]] \<mapsto> [0, 0, 0 :: u8]] :: file_system"
  obtain fs' rs where r: "disk_run perfect example_mapping ?ts ?fs = (fs', rs)" by fastforce
  have "array_run 4 (executed ?ts) (view ?fs (fm_files example_mapping)) =
      (view fs' (fm_files example_mapping), rs)"
    using disk_task_refines [OF _ _ _ _ r]
    by (simp add: example_mapping_def fm_ok_def file_ok_def piece_size_def del: array_run.simps)
  moreover have "view ?fs (fm_files example_mapping) = [0, 0, 0, 0, 0, 0]"
    by (simp add: example_mapping_def view_def)
  ultimately have "array_run 4 (executed ?ts) [0, 0, 0, 0, 0, 0] = (view fs' (fm_files example_mapping), rs)"
    by (simp del: array_run.simps)
  then have "view fs' (fm_files example_mapping) = [5, 6, 7, 8, 9, 9]
      \<and> rs = [NoReply, Written (DiskOk 0), Written (DiskOk 1), ReadBack (Some [5, 6, 7, 8])]"
    by (auto simp: overwrite_def)
  with r show ?thesis by blast
qed

end
