(* ===== verification/Picker_Correct.thy ===== *)
theory Picker_Correct
  imports Picker
begin

text \<open>
  The picker's invariant and what its operations promise: every operation keeps the invariant
  (an interpretation of the machine interface), a request is a fresh block of a piece the peer
  has, one is found whenever there is one, new pieces are the rarest, and a completed piece is
  the concatenation of the blocks received.
\<close>

section \<open>Invariant of one piece\<close>

definition pp_inv :: "piece_progress \<Rightarrow> bool" where
  "pp_inv p \<longleftrightarrow> num_blocks p = div_ceil (pp_length p) block_size
     \<and> length (blocks_received p) = num_blocks p \<and> length (blocks_assigned p) = num_blocks p
     \<and> length (pp_data p) = pp_length p \<and> assign_cursor p \<le> num_blocks p
     \<and> (\<forall>i < assign_cursor p. blocks_assigned p ! i)
     \<and> (\<forall>i < num_blocks p. blocks_received p ! i \<longrightarrow> blocks_assigned p ! i)
     \<and> received_count p = length (filter id (blocks_received p))"

lemma block_size_pos [simp]: "0 < block_size"
  by (simp add: block_size_def)

lemma pp_new_inv [simp, inv_intros]: "pp_inv (pp_new len)"
  by (simp add: pp_inv_def pp_new_def Let_def)

lemma pp_new_fields [simp]:
  "pp_length (pp_new len) = len" "num_blocks (pp_new len) = div_ceil len block_size"
  "assign_cursor (pp_new len) = 0" "received_count (pp_new len) = 0"
  "i < div_ceil len block_size \<Longrightarrow> \<not> blocks_assigned (pp_new len) ! i"
  by (simp_all add: pp_new_def Let_def)

lemma filter_id_update:
  "i < length bs \<Longrightarrow> \<not> bs ! i \<Longrightarrow>
     length (filter id (bs[i := True])) = Suc (length (filter id bs))"
proof (induction bs arbitrary: i)
  case (Cons b bs)
  then show ?case by (cases i) auto
qed simp

lemma filter_id_all: "length (filter id bs) = length bs \<longleftrightarrow> (\<forall>i < length bs. bs ! i)"
proof
  assume "length (filter id bs) = length bs"
  then have "filter id bs = bs"
    by (metis length_filter_less nat_neq_iff filter_True)
  then show "\<forall>i < length bs. bs ! i" by (metis filter_id_conv id_apply nth_mem)
qed (metis filter_True id_apply in_set_conv_nth)

text \<open>
  \<open>assign_next_block\<close> moves the cursor over assigned blocks and stops at the first that is not;
  it finds one exactly when there is one.
\<close>

lemma assign_done: "\<not> assign_cursor p < num_blocks p \<Longrightarrow> assign_next_block p = (p, None)"
  and assign_take: "assign_cursor p < num_blocks p \<Longrightarrow>
     \<not> (blocks_received p ! assign_cursor p \<or> blocks_assigned p ! assign_cursor p) \<Longrightarrow>
     assign_next_block p =
       (p\<lparr>assign_cursor := Suc (assign_cursor p),
          blocks_assigned := (blocks_assigned p)[assign_cursor p := True]\<rparr>, Some (assign_cursor p))"
  and assign_skip: "assign_cursor p < num_blocks p \<Longrightarrow>
     blocks_received p ! assign_cursor p \<or> blocks_assigned p ! assign_cursor p \<Longrightarrow>
     assign_next_block p = assign_next_block (p\<lparr>assign_cursor := Suc (assign_cursor p)\<rparr>)"
  by (subst assign_next_block.simps; auto simp: Let_def)+

lemmas assign_eqs = assign_done assign_take assign_skip

lemma assign_induct [case_names stop take skip]:
  assumes "\<And>p. \<not> assign_cursor p < num_blocks p \<Longrightarrow> P p"
    and "\<And>p. assign_cursor p < num_blocks p \<Longrightarrow>
      \<not> (blocks_received p ! assign_cursor p \<or> blocks_assigned p ! assign_cursor p) \<Longrightarrow> P p"
    and "\<And>p. assign_cursor p < num_blocks p \<Longrightarrow>
      blocks_received p ! assign_cursor p \<or> blocks_assigned p ! assign_cursor p \<Longrightarrow>
      P (p\<lparr>assign_cursor := Suc (assign_cursor p)\<rparr>) \<Longrightarrow> P p"
  shows "P p"
proof (induction p rule: measure_induct_rule [where f = "\<lambda>p. num_blocks p - assign_cursor p"])
  case (less p)
  have "P (p\<lparr>assign_cursor := Suc (assign_cursor p)\<rparr>)" if "assign_cursor p < num_blocks p"
    using that by (intro less) simp
  with assms show ?case by blast
qed

lemma pp_inv_skip:
  "pp_inv p \<Longrightarrow> assign_cursor p < num_blocks p \<Longrightarrow>
     blocks_received p ! assign_cursor p \<or> blocks_assigned p ! assign_cursor p \<Longrightarrow>
     pp_inv (p\<lparr>assign_cursor := Suc (assign_cursor p)\<rparr>)"
  by (auto simp: pp_inv_def less_Suc_eq)

lemma assign_Some:
  "assign_next_block p = (p', Some i) \<Longrightarrow> pp_inv p \<Longrightarrow>
     i < num_blocks p \<and> \<not> blocks_assigned p ! i \<and> \<not> blocks_received p ! i \<and> pp_inv p'
     \<and> p' = p\<lparr>assign_cursor := Suc i, blocks_assigned := (blocks_assigned p)[i := True]\<rparr>"
proof (induction p rule: assign_induct)
  case (take p)
  then have i: "i = assign_cursor p"
    and p': "p' = p\<lparr>assign_cursor := Suc i, blocks_assigned := (blocks_assigned p)[i := True]\<rparr>"
    by (auto simp: assign_take)
  have "pp_inv p'"
    using take(1,4) i by (auto simp: p' pp_inv_def nth_list_update less_Suc_eq)
  with i p' take show ?case by simp
next
  case (skip p)
  then show ?case using pp_inv_skip [of p] by (auto simp: assign_skip)
qed (simp add: assign_done)

lemma assign_None:
  "assign_next_block p = (p', None) \<Longrightarrow> pp_inv p \<Longrightarrow>
     (\<forall>i < num_blocks p. blocks_assigned p ! i) \<and> p' = p\<lparr>assign_cursor := num_blocks p\<rparr> \<and> pp_inv p'"
proof (induction p rule: assign_induct)
  case (stop p)
  then show ?case by (auto simp: assign_done pp_inv_def)
next
  case (skip p)
  then show ?case using pp_inv_skip [of p] by (auto simp: assign_skip)
qed (simp add: assign_take)

lemma mark_received_inv:
  assumes "mark_received i p = (p', new)" and "pp_inv p"
  shows "pp_inv p'" and "pp_length p' = pp_length p" and "num_blocks p' = num_blocks p"
  using assms
  by (auto simp: mark_received_def pp_inv_def nth_list_update filter_id_update split: if_splits)

lemma mark_unassigned_inv:
  assumes "pp_inv p"
  shows "pp_inv (mark_unassigned i p)"
  using assms by (auto simp: mark_unassigned_def pp_inv_def nth_list_update)

lemma mark_unassigned_fields [simp]:
  "pp_length (mark_unassigned i p) = pp_length p" "num_blocks (mark_unassigned i p) = num_blocks p"
  "received_count (mark_unassigned i p) = received_count p"
  by (simp_all add: mark_unassigned_def)

lemma mark_received_False: "mark_received i p = (p', False) \<Longrightarrow> p' = p"
  by (auto simp: mark_received_def split: if_splits)

text \<open>The blocks tile the piece: each starts where the one before ends, the last ends the piece.\<close>

lemma block_length_bounds:
  assumes "pp_inv p" and "i < num_blocks p"
  shows "0 < block_length p i" and "block_length p i \<le> block_size"
    and "i * block_size + block_length p i \<le> pp_length p"
    and "Suc i = num_blocks p \<Longrightarrow> i * block_size + block_length p i = pp_length p"
    and "Suc i < num_blocks p \<Longrightarrow> block_length p i = block_size"
proof -
  let ?n = "num_blocks p" and ?len = "pp_length p"
  have n: "?n = div_ceil ?len block_size" using assms(1) by (simp add: pp_inv_def)
  have len: "?len = block_size * (?len div block_size) + ?len mod block_size" by simp
  have last: "i * block_size + block_length p i = ?len" if "Suc i = ?n"
  proof (cases "?len mod block_size = 0")
    case True
    then have "Suc i = ?len div block_size" using n that by (simp add: div_ceil_def)
    then have "?len = block_size * Suc i" using len True by simp
    moreover have "block_length p i = block_size" using that True by (auto simp: block_length_def)
    ultimately show ?thesis by simp
  next
    case False
    then have "i = ?len div block_size" using n that by (simp add: div_ceil_def)
    moreover have "block_length p i = ?len mod block_size"
      using that False by (auto simp: block_length_def)
    ultimately show ?thesis using len by (simp add: mult.commute)
  qed
  have mid: "block_length p i = block_size" if "Suc i < ?n"
    using that by (simp add: block_length_def)
  have "Suc i * block_size \<le> ?len" if "Suc i < ?n"
    using that n div_ceil_less [of block_size "Suc i" ?len] by simp
  then show "i * block_size + block_length p i \<le> ?len"
    using last mid assms(2) by (cases "Suc i = ?n") (auto simp: add.commute)
  show "0 < block_length p i" by (simp add: block_length_def Let_def)
  show "block_length p i \<le> block_size" by (simp add: block_length_def Let_def less_imp_le)
  show "Suc i = ?n \<Longrightarrow> i * block_size + block_length p i = ?len" by (rule last)
  show "Suc i < ?n \<Longrightarrow> block_length p i = block_size" by (rule mid)
qed

section \<open>Invariant of the picker\<close>

definition piece_ok :: "picker \<Rightarrow> nat \<Rightarrow> piece_progress \<Rightarrow> bool" where
  "piece_ok pk i p \<longleftrightarrow> i < pk_pieces pk \<and> \<not> has (have_bf pk) i \<and> pp_inv p
     \<and> pp_length p = actual_piece_length pk i \<and> received_count p < num_blocks p"

definition picker_inv :: "picker \<Rightarrow> bool" where
  "picker_inv pk \<longleftrightarrow> hm_wf (in_progress pk) \<and> pk_pieces pk < 2 ^ 32
     \<and> 0 < pk_piece_length pk \<and> pk_piece_length pk < 2 ^ 32
     \<and> length (availability pk) = pk_pieces pk \<and> (\<forall>a \<in> set (availability pk). a \<le> 65535)
     \<and> bf_wf (have_bf pk) \<and> bf_pieces (have_bf pk) = pk_pieces pk
     \<and> verified_count pk = bf_count (have_bf pk)
     \<and> (\<forall>i p. map_of (in_progress pk) i = Some p \<longrightarrow> piece_ok pk i p)"

lemma picker_invD:
  assumes "picker_inv pk"
  shows "hm_wf (in_progress pk)" "pk_pieces pk < 2 ^ 32" "0 < pk_piece_length pk"
    "length (availability pk) = pk_pieces pk" "bf_wf (have_bf pk)"
    "bf_pieces (have_bf pk) = pk_pieces pk"
    "map_of (in_progress pk) i = Some p \<Longrightarrow> piece_ok pk i p"
    "i < pk_pieces pk \<Longrightarrow> availability pk ! i \<le> 65535"
  using assms by (auto simp: picker_inv_def)

lemma piece_ok_frame [simp]:
  "piece_ok (pk\<lparr>in_progress := ip\<rparr>) = piece_ok pk" "piece_ok (pk\<lparr>mode := m\<rparr>) = piece_ok pk"
  "piece_ok (pk\<lparr>availability := a\<rparr>) = piece_ok pk" "piece_ok (pk\<lparr>verified_count := v\<rparr>) = piece_ok pk"
  "actual_piece_length (pk\<lparr>in_progress := ip\<rparr>) = actual_piece_length pk"
  "actual_piece_length (pk\<lparr>mode := m\<rparr>) = actual_piece_length pk"
  "actual_piece_length (pk\<lparr>have_bf := h\<rparr>) = actual_piece_length pk"
  by (simp_all add: piece_ok_def actual_piece_length_def fun_eq_iff Let_def)

lemma picker_inv_insert [inv_intros]:
  "picker_inv pk \<Longrightarrow> piece_ok pk i p \<Longrightarrow>
     picker_inv (pk\<lparr>in_progress := hm_insert i p (in_progress pk)\<rparr>)"
  by (simp add: picker_inv_def)

lemma picker_inv_remove [inv_intros]:
  "picker_inv pk \<Longrightarrow> picker_inv (pk\<lparr>in_progress := hm_remove i (in_progress pk)\<rparr>)"
  by (simp add: picker_inv_def)

lemma picker_inv_mode [simp]: "picker_inv (pk\<lparr>mode := m\<rparr>) = picker_inv pk"
  by (simp add: picker_inv_def)

lemma check_mode_inv [simp]: "picker_inv (check_mode pk) = picker_inv pk"
  by (simp add: check_mode_def Let_def)

lemma check_mode_fields [simp]:
  "in_progress (check_mode pk) = in_progress pk" "have_bf (check_mode pk) = have_bf pk"
  "pk_pieces (check_mode pk) = pk_pieces pk" "verified_count (check_mode pk) = verified_count pk"
  "actual_piece_length (check_mode pk) = actual_piece_length pk"
  "availability (check_mode pk) = availability pk"
  by (simp_all add: check_mode_def Let_def)

lemma actual_piece_length_pos: "picker_inv pk \<Longrightarrow> 0 < actual_piece_length pk i"
  using picker_invD(3) [of pk] by (simp add: actual_piece_length_def Let_def)

lemma bump_inv:
  assumes "picker_inv pk" and "\<And>a. a \<le> 65535 \<Longrightarrow> f a \<le> 65535"
  shows "picker_inv (bump f i pk)"
  using assms set_update_subset_insert [of "availability pk" i "f (availability pk ! i)"]
  by (auto simp: picker_inv_def bump_def)

lemma fold_bump_inv:
  "picker_inv pk \<Longrightarrow> (\<And>a. a \<le> 65535 \<Longrightarrow> f a \<le> 65535) \<Longrightarrow> picker_inv (fold (bump f) is pk)"
  by (induction "is" arbitrary: pk) (auto intro: bump_inv)

lemma new_piece_ok:
  assumes "picker_inv pk" and "i < pk_pieces pk" and "\<not> has (have_bf pk) i"
  shows "piece_ok pk i (pp_new (actual_piece_length pk i))"
  using assms actual_piece_length_pos [OF assms(1), of i]
    div_ceil_less [of block_size 0 "actual_piece_length pk i"]
  by (simp add: piece_ok_def)

section \<open>Which blocks are spoken for\<close>

definition block_assigned :: "picker \<Rightarrow> nat \<Rightarrow> nat \<Rightarrow> bool" where
  "block_assigned pk i b = (case map_of (in_progress pk) i of None \<Rightarrow> False
     | Some p \<Rightarrow> b < num_blocks p \<and> blocks_assigned p ! b)"

definition block_count :: "picker \<Rightarrow> nat \<Rightarrow> nat" where
  "block_count pk i = div_ceil (actual_piece_length pk i) block_size"

text \<open>A request the picker may hand out in \<open>pk\<close>: a block of a missing piece that no peer has
  been asked for, inside the piece.\<close>

definition fresh_request :: "picker \<Rightarrow> block_request \<Rightarrow> bool" where
  "fresh_request pk r \<longleftrightarrow> br_piece r < pk_pieces pk \<and> \<not> has (have_bf pk) (br_piece r)
     \<and> br_offset r mod block_size = 0 \<and> br_offset r div block_size < block_count pk (br_piece r)
     \<and> \<not> block_assigned pk (br_piece r) (br_offset r div block_size)
     \<and> 0 < br_length r \<and> br_length r \<le> block_size
     \<and> br_offset r + br_length r \<le> actual_piece_length pk (br_piece r)"

lemma piece_ok_blocks: "piece_ok pk i p \<Longrightarrow> num_blocks p = block_count pk i"
  by (simp add: piece_ok_def pp_inv_def block_count_def)

lemma block_count_frame [simp]:
  "block_count (pk\<lparr>in_progress := ip\<rparr>) = block_count pk"
  by (simp add: block_count_def fun_eq_iff)

lemma assigned_request:
  assumes "assign_next_block p = (p', Some b)" and "piece_ok pk i p"
    and "\<forall>b < num_blocks p. block_assigned pk i b = blocks_assigned p ! b"
    and "q = p'\<lparr>active_peers := a\<rparr>"
    and "r = \<lparr>br_piece = i, br_offset = b * block_size, br_length = block_length q b\<rparr>"
  shows "piece_ok pk i q" and "fresh_request pk r"
    and "block_assigned (pk\<lparr>in_progress := hm_insert i q (in_progress pk)\<rparr>) i b"
proof -
  have inv: "pp_inv p" using assms(2) by (simp add: piece_ok_def)
  note a = assign_Some [OF assms(1) inv]
  have "pp_inv q" using a assms(4) by (auto simp: pp_inv_def)
  then show ok: "piece_ok pk i q"
    using a assms(2,4) by (auto simp: piece_ok_def)
  have nb: "num_blocks q = num_blocks p" using a assms(4) by auto
  show "fresh_request pk r"
    using a assms(2,3,5) piece_ok_blocks [OF assms(2)] nb
      block_length_bounds(1-3) [OF \<open>pp_inv q\<close>, of b] ok
    by (auto simp: fresh_request_def piece_ok_def)
  show "block_assigned (pk\<lparr>in_progress := hm_insert i q (in_progress pk)\<rparr>) i b"
    using a assms(4) inv by (auto simp: block_assigned_def pp_inv_def)
qed

lemma continue_Some:
  "continue_pieces is pk = (pk', Some r) \<Longrightarrow> picker_inv pk \<Longrightarrow>
     picker_inv pk' \<and> pk' = pk\<lparr>in_progress := in_progress pk'\<rparr> \<and> br_piece r \<in> set is
     \<and> fresh_request pk r \<and> block_assigned pk' (br_piece r) (br_offset r div block_size)"
proof (induction "is" pk rule: continue_pieces.induct)
  case (2 i js pk)
  show ?case
  proof (cases "map_of (in_progress pk) i")
    case None
    with "2" show ?thesis by auto
  next
    case (Some p)
    have ok: "piece_ok pk i p" using "2.prems"(2) Some by (rule picker_invD(7))
    have asg: "\<forall>b < num_blocks p. block_assigned pk i b = blocks_assigned p ! b"
      using Some by (simp add: block_assigned_def)
    obtain p' bo where an: "assign_next_block p = (p', bo)" by fastforce
    show ?thesis
    proof (cases bo)
      case None
      let ?pk = "pk\<lparr>in_progress := hm_insert i p' (in_progress pk)\<rparr>"
      have p': "p' = p\<lparr>assign_cursor := num_blocks p\<rparr>" "pp_inv p'"
        using assign_None [of p p'] an None ok by (auto simp: piece_ok_def)
      then have "piece_ok pk i p'" using ok by (auto simp: piece_ok_def)
      then have "picker_inv ?pk" using "2.prems"(2) by (rule picker_inv_insert [rotated])
      moreover have "block_assigned ?pk = block_assigned pk"
        using p'(1) Some by (auto simp: block_assigned_def fun_eq_iff)
      moreover have "continue_pieces js ?pk = (pk', Some r)"
        using "2.prems"(1) Some an None by simp
      ultimately show ?thesis
        using "2.IH"(2) [OF Some an [symmetric] None]
        by (auto simp: fresh_request_def)
    next
      case (Some b)
      let ?q = "p'\<lparr>active_peers := u8_inc (active_peers p')\<rparr>"
      have r: "pk' = pk\<lparr>in_progress := hm_insert i ?q (in_progress pk)\<rparr>"
        "r = \<lparr>br_piece = i, br_offset = b * block_size, br_length = block_length ?q b\<rparr>"
        using "2.prems"(1) \<open>map_of (in_progress pk) i = Some p\<close> an Some by (auto simp: Let_def)
      note a = assigned_request [OF an [unfolded Some] ok asg refl r(2)]
      show ?thesis
        using a r(1) picker_inv_insert [OF "2.prems"(2) a(1)] by (simp add: r(2))
    qed
  qed
qed simp

lemma continue_None:
  "continue_pieces is pk = (pk', None) \<Longrightarrow> picker_inv pk \<Longrightarrow>
     picker_inv pk' \<and> pk' = pk\<lparr>in_progress := in_progress pk'\<rparr>
     \<and> fst ` set (in_progress pk') = fst ` set (in_progress pk)
     \<and> block_assigned pk' = block_assigned pk
     \<and> (\<forall>i \<in> set is. \<forall>b < block_count pk i.
          i \<in> fst ` set (in_progress pk) \<longrightarrow> block_assigned pk i b)"
proof (induction "is" pk rule: continue_pieces.induct)
  case (2 i js pk)
  show ?case
  proof (cases "map_of (in_progress pk) i")
    case None
    moreover have "i \<notin> fst ` set (in_progress pk)" using None by (simp add: map_of_eq_None_iff)
    ultimately show ?thesis using "2" by auto
  next
    case (Some p)
    have ok: "piece_ok pk i p" using "2.prems"(2) Some by (rule picker_invD(7))
    have key: "i \<in> fst ` set (in_progress pk)" using Some by (rule hm_get_in)
    obtain p' bo where an: "assign_next_block p = (p', bo)" by fastforce
    have bo: "bo = None" using "2.prems"(1) Some an by (cases bo) (auto simp: Let_def)
    let ?pk = "pk\<lparr>in_progress := hm_insert i p' (in_progress pk)\<rparr>"
    have p': "p' = p\<lparr>assign_cursor := num_blocks p\<rparr>" "pp_inv p'"
      and all: "\<forall>b < num_blocks p. blocks_assigned p ! b"
      using assign_None [of p p'] an bo ok by (auto simp: piece_ok_def)
    then have "piece_ok pk i p'" using ok by (auto simp: piece_ok_def)
    then have "picker_inv ?pk" using "2.prems"(2) by (rule picker_inv_insert [rotated])
    moreover have "block_assigned ?pk = block_assigned pk"
      using p'(1) Some by (auto simp: block_assigned_def fun_eq_iff)
    moreover have "continue_pieces js ?pk = (pk', None)"
      using "2.prems"(1) Some an bo by simp
    moreover have "\<forall>b < block_count pk i. block_assigned pk i b"
      using all Some piece_ok_blocks [OF ok] by (simp add: block_assigned_def)
    ultimately show ?thesis
      using "2.IH"(2) [OF Some an [symmetric] bo] key by (simp add: insert_absorb)
  qed
qed simp

section \<open>New pieces\<close>

definition eligible :: "picker \<Rightarrow> bitfield \<Rightarrow> nat \<Rightarrow> bool" where
  "eligible pk bf i \<longleftrightarrow> i < pk_pieces pk \<and> has bf i \<and> \<not> has (have_bf pk) i
     \<and> i \<notin> fst ` set (in_progress pk)"

text \<open>What the sampling loop knows after the first \<open>n\<close> pieces.\<close>

definition sampled :: "picker \<Rightarrow> bitfield \<Rightarrow> nat \<Rightarrow> nat option \<times> nat \<times> nat \<Rightarrow> bool" where
  "sampled pk bf n s = (case s of
     (None, best, c) \<Rightarrow> best = 65535 \<and> c = 0 \<and> (\<forall>j < n. \<not> eligible pk bf j)
   | (Some i, best, c) \<Rightarrow> i < n \<and> eligible pk bf i \<and> availability pk ! i = best \<and> best \<le> 65535
       \<and> (\<forall>j < n. eligible pk bf j \<longrightarrow> best \<le> availability pk ! j))"

lemma pick_step_sampled:
  assumes "picker_inv pk" and "n < pk_pieces pk" and "sampled pk bf n s"
  shows "sampled pk bf (Suc n) (pick_step rand pk bf n s)"
proof -
  have u: "as_u32 n = n" using assms(1,2) picker_invD(2) [of pk] by simp
  have a: "availability pk ! n \<le> 65535" using assms(1,2) by (rule picker_invD(8))
  obtain b best c where s: "s = (b, best, c)" by (cases s)
  have el: "eligible pk bf n \<longleftrightarrow> \<not> (\<not> has bf n \<or> has (have_bf pk) n \<or> n \<in> fst ` set (in_progress pk))"
    using assms(2) by (auto simp: eligible_def)
  show ?thesis
  proof (cases b)
    case None
    then show ?thesis
      using assms(3) a el unfolding s
      by (auto simp: sampled_def pick_step_def u less_Suc_eq Let_def)
  next
    case (Some i)
    then show ?thesis
      using assms(3) a el unfolding s
      by (auto simp: sampled_def pick_step_def u less_Suc_eq Let_def)
  qed
qed

lemma pick_fold_sampled:
  "picker_inv pk \<Longrightarrow> n \<le> pk_pieces pk \<Longrightarrow>
     sampled pk bf n (fold (pick_step rand pk bf) [0..<n] (None, 65535, 0))"
proof (induction n)
  case (Suc n)
  then show ?case by (simp add: pick_step_sampled)
qed (simp add: sampled_def)

lemma pick_piece_spec:
  assumes "picker_inv pk"
  shows "pick_piece rand pk bf = None \<longleftrightarrow> (\<forall>i. \<not> eligible pk bf i)"
    and "pick_piece rand pk bf = Some i \<Longrightarrow> eligible pk bf i
      \<and> (\<forall>j. eligible pk bf j \<longrightarrow> availability pk ! i \<le> availability pk ! j)"
proof -
  obtain b best c where
    f: "fold (pick_step rand pk bf) [0..<pk_pieces pk] (None, 65535, 0) = (b, best, c)"
    by (metis prod_cases3)
  have s: "sampled pk bf (pk_pieces pk) (b, best, c)"
    using pick_fold_sampled [OF assms order.refl, of bf rand] by (simp add: f)
  have p: "pick_piece rand pk bf = b" by (simp add: pick_piece_def f)
  have lt: "eligible pk bf j \<Longrightarrow> j < pk_pieces pk" for j by (simp add: eligible_def)
  show "pick_piece rand pk bf = None \<longleftrightarrow> (\<forall>i. \<not> eligible pk bf i)"
    using s lt by (cases b) (auto simp: p sampled_def)
  show "pick_piece rand pk bf = Some i \<Longrightarrow> eligible pk bf i
      \<and> (\<forall>j. eligible pk bf j \<longrightarrow> availability pk ! i \<le> availability pk ! j)"
    using s lt by (auto simp: p sampled_def)
qed

lemma start_piece_spec:
  assumes "picker_inv pk" and "eligible pk bf i"
  obtains pk' r where "start_piece i pk = (pk', Some r)" "picker_inv pk'" "br_piece r = i"
    "fresh_request pk r" "block_assigned pk' (br_piece r) (br_offset r div block_size)"
proof -
  have none: "map_of (in_progress pk) i = None"
    using assms(2) by (simp add: eligible_def map_of_eq_None_iff)
  let ?p = "pp_new (actual_piece_length pk i)"
  have ok: "piece_ok pk i ?p"
    using assms by (intro new_piece_ok) (auto simp: eligible_def)
  then have inv: "pp_inv ?p" and n: "0 < num_blocks ?p" by (auto simp: piece_ok_def)
  obtain p' bo where an: "assign_next_block ?p = (p', bo)" by fastforce
  have "bo \<noteq> None"
    using assign_None [of ?p p'] an inv n by auto
  then obtain b where b: "bo = Some b" by blast
  let ?q = "p'\<lparr>active_peers := u8_inc (active_peers p')\<rparr>"
  let ?r = "\<lparr>br_piece = i, br_offset = b * block_size, br_length = block_length ?q b\<rparr>"
  have asg: "\<forall>b < num_blocks ?p. block_assigned pk i b = blocks_assigned ?p ! b"
    using none by (simp add: block_assigned_def)
  note a = assigned_request [OF an [unfolded b] ok asg refl refl, of "u8_inc (active_peers p')"]
  show thesis
  proof (rule that)
    show "start_piece i pk = (check_mode (pk\<lparr>in_progress := hm_insert i ?q (in_progress pk)\<rparr>), Some ?r)"
      using none an b by (simp add: start_piece_def Let_def)
    show "picker_inv (check_mode (pk\<lparr>in_progress := hm_insert i ?q (in_progress pk)\<rparr>))"
      using picker_inv_insert [OF assms(1) a(1)] by simp
  qed (use a in \<open>auto simp: block_assigned_def\<close>)
qed

section \<open>The whole choice\<close>

lemma set_candidates:
  "set (candidates pk bf) = {i. i \<in> fst ` set (in_progress pk) \<and> has bf i}"
  by (force simp: candidates_def)

lemma fresh_frame:
  "block_assigned (pk\<lparr>in_progress := ip\<rparr>) = block_assigned pk \<Longrightarrow>
     fresh_request (pk\<lparr>in_progress := ip\<rparr>) r = fresh_request pk r"
  by (simp add: fresh_request_def)

lemma eligible_frame:
  "pk' = pk\<lparr>in_progress := in_progress pk'\<rparr> \<Longrightarrow>
     fst ` set (in_progress pk') = fst ` set (in_progress pk) \<Longrightarrow> eligible pk' = eligible pk"
  by (cases pk; cases pk') (auto simp: eligible_def fun_eq_iff)

lemma pick_block_Some:
  assumes "pick_block rand pk bf = (pk', Some r)" and "picker_inv pk"
  shows "picker_inv pk' \<and> has bf (br_piece r) \<and> fresh_request pk r
    \<and> block_assigned pk' (br_piece r) (br_offset r div block_size)"
proof -
  obtain pk1 o1 where c: "continue_pieces (candidates pk bf) pk = (pk1, o1)" by fastforce
  show ?thesis
  proof (cases o1)
    case (Some r1)
    then have "pk' = pk1" "r = r1" using assms(1) c by (auto simp: pick_block_def)
    with continue_Some [OF c [unfolded Some] assms(2)] show ?thesis
      by (auto simp: set_candidates)
  next
    case None
    note cn = continue_None [OF c [unfolded None] assms(2)]
    obtain i where i: "pick_piece rand pk1 bf = Some i" and st: "start_piece i pk1 = (pk', Some r)"
      using assms(1) c None by (auto simp: pick_block_def split: option.splits)
    have el: "eligible pk1 bf i" using pick_piece_spec(2) [OF _ i] cn by blast
    then obtain pk2 r2 where s: "start_piece i pk1 = (pk2, Some r2)" "picker_inv pk2" "br_piece r2 = i"
      "fresh_request pk1 r2" "block_assigned pk2 (br_piece r2) (br_offset r2 div block_size)"
      using cn by (blast elim: start_piece_spec)
    have "fresh_request pk r2"
      using s(4) cn fresh_frame [of "in_progress pk1" pk] by simp
    with s st el show ?thesis by (simp add: eligible_def)
  qed
qed

lemma pick_block_None_full:
  assumes "pick_block rand pk bf = (pk', None)" and "picker_inv pk"
  shows "picker_inv pk' \<and> (\<forall>i b. i < pk_pieces pk \<longrightarrow> has bf i \<longrightarrow> \<not> has (have_bf pk) i \<longrightarrow>
    b < block_count pk i \<longrightarrow> block_assigned pk i b)
    \<and> block_assigned pk' = block_assigned pk \<and> pk' = pk\<lparr>in_progress := in_progress pk'\<rparr>"
proof -
  obtain pk1 where c: "continue_pieces (candidates pk bf) pk = (pk1, None)"
    using assms(1) by (auto simp: pick_block_def split: prod.splits option.splits)
  note cn = continue_None [OF c assms(2)]
  have pp: "pick_piece rand pk1 bf = None"
  proof (rule ccontr)
    assume "pick_piece rand pk1 bf \<noteq> None"
    then obtain i where i: "pick_piece rand pk1 bf = Some i" by blast
    then have "eligible pk1 bf i" using pick_piece_spec(2) [OF _ i] cn by blast
    with assms(1) c i show False
      using start_piece_spec [of pk1 bf i] cn by (fastforce simp: pick_block_def)
  qed
  then have "\<forall>i. \<not> eligible pk bf i"
    using pick_piece_spec(1) [of pk1 rand bf] cn eligible_frame [of pk1 pk] by simp
  moreover have "pk' = pk1" using assms(1) c pp by (simp add: pick_block_def)
  ultimately show ?thesis
    using cn by (auto simp: eligible_def set_candidates)
qed

lemma pick_block_None:
  assumes "pick_block rand pk bf = (pk', None)" and "picker_inv pk"
  shows "picker_inv pk' \<and> (\<forall>i b. i < pk_pieces pk \<longrightarrow> has bf i \<longrightarrow> \<not> has (have_bf pk) i \<longrightarrow>
    b < block_count pk i \<longrightarrow> block_assigned pk i b)"
  using pick_block_None_full [OF assms] by blast

section \<open>The other operations keep the invariant\<close>

lemma received_le: "pp_inv p \<Longrightarrow> received_count p \<le> num_blocks p"
  using length_filter_le [of id "blocks_received p"] by (simp add: pp_inv_def)

lemma block_received_inv:
  assumes "picker_inv pk"
  shows "picker_inv (fst (block_received i off data pk))"
proof (cases "map_of (in_progress pk) i")
  case None
  then show ?thesis using assms by (simp add: block_received_def)
next
  case (Some p)
  have ok: "piece_ok pk i p" using assms Some by (rule picker_invD(7))
  then have pinv: "pp_inv p" by (simp add: piece_ok_def)
  obtain q new where mr: "mark_received (off div block_size) p = (q, new)" by fastforce
  show ?thesis
  proof (cases new)
    case False
    then have "q = p" using mr by (auto dest: mark_received_False)
    then show ?thesis
      using Some mr False ok assms by (simp add: block_received_def picker_inv_insert)
  next
    case True
    let ?q = "if off + length data \<le> length (pp_data q)
      then q\<lparr>pp_data := overwrite off data (pp_data q)\<rparr> else q"
    note q = mark_received_inv [OF mr pinv]
    have qi: "pp_inv ?q" using q(1) by (simp add: pp_inv_def overwrite_length)
    have "piece_ok pk i ?q" if "\<not> pp_is_complete ?q"
      using that ok q qi received_le [OF qi] by (auto simp: piece_ok_def pp_is_complete_def)
    then show ?thesis
      using Some mr True assms
      by (auto simp: block_received_def Let_def intro: inv_intros)
  qed
qed

lemma mark_verified_inv:
  assumes "picker_inv pk" and "i < pk_pieces pk" and "\<not> has (have_bf pk) i"
  shows "picker_inv (mark_verified i pk)"
proof -
  let ?pk = "pk\<lparr>in_progress := hm_remove i (in_progress pk), have_bf := bf_set i (have_bf pk),
    verified_count := verified_count pk + 1\<rparr>"
  note d = picker_invD [OF assms(1)]
  have has: "has (bf_set i (have_bf pk)) j \<longleftrightarrow> has (have_bf pk) j \<or> j = i" for j
    using has_set [OF d(5), of i j] assms(2) d(6) by auto
  have "bf_count (bf_set i (have_bf pk)) = bf_count (have_bf pk) + 1"
    using assms(2,3) d(6) by (simp add: bf_set_def)
  moreover have "piece_ok ?pk j p" if "map_of (hm_remove i (in_progress pk)) j = Some p" for j p
  proof -
    have "j \<noteq> i" and "map_of (in_progress pk) j = Some p" using that by (auto split: if_splits)
    then have "piece_ok pk j p" using d(7) by blast
    with \<open>j \<noteq> i\<close> show ?thesis by (simp add: piece_ok_def has actual_piece_length_def)
  qed
  ultimately have "picker_inv ?pk"
    using assms(1) by (simp add: picker_inv_def)
  then show ?thesis by (simp add: mark_verified_def Let_def)
qed

lemma unassign_block_inv [inv_intros]:
  "picker_inv pk \<Longrightarrow> picker_inv (unassign_block i off pk)"
  using picker_invD(7) [of pk i] picker_inv_insert [of pk i]
  by (fastforce simp: unassign_block_def piece_ok_def mark_unassigned_inv split: option.splits)

lemma picker_new_inv [inv_intros]:
  "n < 2 ^ 32 \<Longrightarrow> 0 < pl \<Longrightarrow> pl < 2 ^ 32 \<Longrightarrow> picker_inv (picker_new n pl len)"
  by (simp add: picker_inv_def picker_new_def) (simp add: bf_new_def)

lemma pick_block_inv [inv_intros]: "picker_inv pk \<Longrightarrow> picker_inv (fst (pick_block rand pk bf))"
  by (cases "pick_block rand pk bf"; cases "snd (pick_block rand pk bf)")
    (use pick_block_Some pick_block_None in fastforce)+

section \<open>The picker as a machine\<close>

text \<open>
  The calls the session makes, as events. \<open>Verified\<close> follows a completed piece within the same
  event handler, so its piece exists and is not held yet; no other call has a precondition.
\<close>

datatype picker_event =
    PeerBitfield bitfield
  | PeerPiece nat
  | PeerGone bitfield
  | Pick "nat \<Rightarrow> nat" bitfield
  | BlockIn nat nat bytes
  | Verified nat
  | Failed nat
  | Unassign nat nat

fun picker_step :: "picker \<Rightarrow> picker_event \<Rightarrow> picker" where
  "picker_step pk (PeerBitfield bf) = peer_has_bitfield bf pk"
| "picker_step pk (PeerPiece i) = peer_has_piece i pk"
| "picker_step pk (PeerGone bf) = peer_disconnected bf pk"
| "picker_step pk (Pick rand bf) = fst (pick_block rand pk bf)"
| "picker_step pk (BlockIn i off data) = fst (block_received i off data pk)"
| "picker_step pk (Verified i) = mark_verified i pk"
| "picker_step pk (Failed i) = piece_failed i pk"
| "picker_step pk (Unassign i off) = unassign_block i off pk"

fun picker_may :: "picker \<Rightarrow> picker_event \<Rightarrow> bool" where
  "picker_may pk (Verified i) = (i < pk_pieces pk \<and> \<not> has (have_bf pk) i)"
| "picker_may pk _ = True"

lemma picker_step_inv: "picker_inv pk \<Longrightarrow> picker_may pk e \<Longrightarrow> picker_inv (picker_step pk e)"
  by (cases e)
    (auto simp: peer_has_bitfield_def peer_has_piece_def peer_disconnected_def piece_failed_def
      u16_inc_def intro: inv_intros fold_bump_inv bump_inv mark_verified_inv block_received_inv)

interpretation picker_machine: machine picker_may picker_step picker_inv
  by unfold_locales (rule picker_step_inv)

text \<open>A second reading of the same machine: every block that arrives is the one of \<open>content\<close>.\<close>

definition assembled :: "bytes \<Rightarrow> piece_progress \<Rightarrow> bool" where
  "assembled c p \<longleftrightarrow> length c = pp_length p \<and>
     (\<forall>k < pp_length p. blocks_received p ! (k div block_size) \<longrightarrow> pp_data p ! k = c ! k)"

definition holds_content :: "(nat \<Rightarrow> bytes) \<Rightarrow> picker \<Rightarrow> bool" where
  "holds_content content pk \<longleftrightarrow> picker_inv pk \<and>
     (\<forall>i p. map_of (in_progress pk) i = Some p \<longrightarrow>
        length (content i) = pp_length p \<longrightarrow> assembled (content i) p)"

definition honest_block :: "(nat \<Rightarrow> bytes) \<Rightarrow> picker \<Rightarrow> nat \<Rightarrow> nat \<Rightarrow> bytes \<Rightarrow> bool" where
  "honest_block content pk i off data \<longleftrightarrow>
     length (content i) = actual_piece_length pk i \<and> off mod block_size = 0
     \<and> data = take (min block_size (length (content i) - off)) (drop off (content i))"

definition honest_may :: "(nat \<Rightarrow> bytes) \<Rightarrow> picker \<Rightarrow> picker_event \<Rightarrow> bool" where
  "honest_may content pk e \<longleftrightarrow> picker_may pk e \<and>
     (case e of BlockIn i off data \<Rightarrow> honest_block content pk i off data | _ \<Rightarrow> True)"

lemma mark_received_True:
  "mark_received b p = (q, True) \<Longrightarrow> b < length (blocks_received p)
     \<and> blocks_received q = (blocks_received p)[b := True] \<and> pp_data q = pp_data p
     \<and> pp_length q = pp_length p \<and> num_blocks q = num_blocks p"
  by (auto simp: mark_received_def split: if_splits)

lemma assembled_block:
  assumes "mark_received (off div block_size) p = (q, True)" and "piece_ok pk i p"
    and "honest_block content pk i off data" and "assembled (content i) p"
  shows "off + length data \<le> length (pp_data q)"
    and "assembled (content i) (q\<lparr>pp_data := overwrite off data (pp_data q)\<rparr>)"
proof -
  let ?c = "content i" and ?b = "off div block_size"
  note q = mark_received_True [OF assms(1)]
  have inv: "pp_inv p" and len: "pp_length p = actual_piece_length pk i"
    using assms(2) by (auto simp: piece_ok_def)
  have off: "off = ?b * block_size" and c: "length ?c = pp_length p"
    and data: "data = take (min block_size (length ?c - off)) (drop off ?c)"
    using assms(3) len by (auto simp: honest_block_def)
  have "?b < div_ceil (pp_length p) block_size" using q inv by (simp add: pp_inv_def)
  then have "off < length ?c" using div_ceil_less [of block_size ?b "pp_length p"] off c by simp
  then have ld: "length data = min block_size (length ?c - off)" using data by simp
  show bound: "off + length data \<le> length (pp_data q)"
    using ld \<open>off < length ?c\<close> q inv c by (simp add: pp_inv_def)
  show "assembled ?c (q\<lparr>pp_data := overwrite off data (pp_data q)\<rparr>)"
    unfolding assembled_def
  proof (intro conjI allI impI)
    show "length ?c = pp_length (q\<lparr>pp_data := overwrite off data (pp_data q)\<rparr>)"
      using c q by simp
    fix k assume k: "k < pp_length (q\<lparr>pp_data := overwrite off data (pp_data q)\<rparr>)"
      and r: "blocks_received (q\<lparr>pp_data := overwrite off data (pp_data q)\<rparr>) ! (k div block_size)"
    have kl: "k < pp_length p" "k < length (pp_data q)"
      using k q inv by (simp_all add: pp_inv_def)
    show "pp_data (q\<lparr>pp_data := overwrite off data (pp_data q)\<rparr>) ! k = ?c ! k"
    proof (cases "off \<le> k \<and> k < off + length data")
      case True
      then have "data ! (k - off) = ?c ! k"
        unfolding data by (subst nth_take) (use True ld in auto)
      then show ?thesis using True bound kl by (simp add: overwrite_nth)
    next
      case False
      have "k div block_size \<noteq> ?b"
      proof
        assume "k div block_size = ?b"
        then have "k = off + k mod block_size" using off by (metis div_mult_mod_eq)
        then obtain m where "k = off + m" "m < block_size"
          by (metis block_size_pos mod_less_divisor)
        then show False using False ld kl c by auto
      qed
      then have "blocks_received p ! (k div block_size)" using r q by simp
      then show ?thesis
        using False bound kl q assms(4) by (auto simp: overwrite_nth assembled_def)
    qed
  qed
qed

lemma complete_received:
  assumes "pp_inv p" and "pp_is_complete p" and "assembled c p"
  shows "pp_data p = c"
proof (rule nth_equalityI)
  show len: "length (pp_data p) = length c"
    using assms(1,3) by (simp add: pp_inv_def assembled_def)
  fix k assume "k < length (pp_data p)"
  then have k: "k < pp_length p" using assms(1) by (simp add: pp_inv_def)
  have "\<forall>b < num_blocks p. blocks_received p ! b"
    using assms(1,2) filter_id_all [of "blocks_received p"]
    by (simp add: pp_inv_def pp_is_complete_def)
  moreover have "k div block_size < num_blocks p"
    using k assms(1) div_ceil_less [of block_size "k div block_size" "pp_length p"]
    by (simp add: pp_inv_def) (meson div_times_less_eq_dividend le_less_trans)
  ultimately show "pp_data p ! k = c ! k" using assms(3) k by (simp add: assembled_def)
qed

lemma holds_insert:
  "holds_content content pk \<Longrightarrow> piece_ok pk i p \<Longrightarrow>
     (length (content i) = pp_length p \<Longrightarrow> assembled (content i) p) \<Longrightarrow>
     holds_content content (pk\<lparr>in_progress := hm_insert i p (in_progress pk)\<rparr>)"
  by (auto simp: holds_content_def picker_inv_insert)

lemma holds_same_progress:
  "holds_content content pk \<Longrightarrow> picker_inv pk' \<Longrightarrow>
     (\<And>i p. map_of (in_progress pk') i = Some p \<Longrightarrow> map_of (in_progress pk) i = Some p) \<Longrightarrow>
     holds_content content pk'"
  by (auto simp: holds_content_def)

text \<open>Choosing a block changes no received block and no data.\<close>

definition same_data :: "piece_progress \<Rightarrow> piece_progress \<Rightarrow> bool" where
  "same_data p q \<longleftrightarrow> pp_length q = pp_length p \<and> pp_data q = pp_data p
     \<and> blocks_received q = blocks_received p"

lemma assign_same_data: "assign_next_block p = (q, r) \<Longrightarrow> same_data p q"
proof (induction p rule: assign_induct)
  case (skip p)
  then show ?case by (simp add: assign_skip same_data_def)
qed (auto simp: assign_eqs same_data_def)

lemma assembled_same: "same_data p q \<Longrightarrow> assembled c q = assembled c p"
  by (simp add: same_data_def assembled_def)

lemma assembled_new: "length c = n \<Longrightarrow> assembled c (pp_new n)"
  unfolding assembled_def
proof (intro conjI allI impI)
  fix k assume "k < pp_length (pp_new n)" "blocks_received (pp_new n) ! (k div block_size)"
  moreover have "k div block_size < div_ceil n block_size" if "k < n" for k
    using that div_ceil_less [of block_size "k div block_size" n]
    by (meson block_size_pos div_times_less_eq_dividend le_less_trans)
  ultimately show "pp_data (pp_new n) ! k = c ! k"
    by (simp add: pp_new_def Let_def)
qed simp

definition base_piece :: "picker \<Rightarrow> nat \<Rightarrow> piece_progress" where
  "base_piece pk i = (case map_of (in_progress pk) i of Some p \<Rightarrow> p
     | None \<Rightarrow> pp_new (actual_piece_length pk i))"

definition data_from :: "picker \<Rightarrow> picker \<Rightarrow> bool" where
  "data_from pk pk' \<longleftrightarrow>
     (\<forall>i q. map_of (in_progress pk') i = Some q \<longrightarrow> same_data (base_piece pk i) q)"

lemma data_from_refl: "data_from pk pk"
  by (simp add: data_from_def same_data_def base_piece_def)

lemma data_from_insert:
  "data_from pk0 pk \<Longrightarrow> same_data (base_piece pk0 i) q \<Longrightarrow>
     data_from pk0 (pk\<lparr>in_progress := hm_insert i q (in_progress pk)\<rparr>)"
  by (simp add: data_from_def)

lemma same_data_trans: "same_data p q \<Longrightarrow> same_data q r \<Longrightarrow> same_data p r"
  by (simp add: same_data_def)

lemma same_data_active: "same_data p q \<Longrightarrow> same_data p (q\<lparr>active_peers := a\<rparr>)"
  by (simp add: same_data_def)

lemma data_from_base:
  "data_from pk0 pk \<Longrightarrow> map_of (in_progress pk) i = Some p \<Longrightarrow> same_data (base_piece pk0 i) p"
  by (simp add: data_from_def)

lemma continue_data: "data_from pk0 pk \<Longrightarrow> data_from pk0 (fst (continue_pieces is pk))"
proof (induction "is" pk rule: continue_pieces.induct)
  case (2 i js pk)
  show ?case
  proof (cases "map_of (in_progress pk) i")
    case None
    with "2" show ?thesis by simp
  next
    case (Some p)
    obtain p' bo where an: "assign_next_block p = (p', bo)" by fastforce
    have sd: "same_data (base_piece pk0 i) p'"
      by (rule same_data_trans [OF data_from_base [OF "2.prems" Some] assign_same_data [OF an]])
    show ?thesis
    proof (cases bo)
      case None
      with Some an show ?thesis
        using "2.IH"(2) [OF Some an [symmetric] None] data_from_insert [OF "2.prems" sd]
        by simp
    next
      case (Some b)
      with \<open>map_of (in_progress pk) i = Some p\<close> an show ?thesis
        using data_from_insert [OF "2.prems" same_data_active [OF sd]] by (simp add: Let_def)
    qed
  qed
qed simp

lemma start_data:
  assumes "data_from pk0 pk" and "actual_piece_length pk = actual_piece_length pk0"
    and "map_of (in_progress pk) i = None" and "map_of (in_progress pk0) i = None"
  shows "data_from pk0 (fst (start_piece i pk))"
proof -
  obtain p' bo where an: "assign_next_block (pp_new (actual_piece_length pk i)) = (p', bo)"
    by fastforce
  have sd: "same_data (base_piece pk0 i) p'"
    using assign_same_data [OF an] assms(2,4) by (simp add: base_piece_def)
  have cm: "data_from pk0 (check_mode x) = data_from pk0 x" for x
    by (simp add: data_from_def)
  show ?thesis
    using an assms(3) data_from_insert [OF assms(1) sd]
      data_from_insert [OF assms(1) same_data_active [OF sd]]
    by (cases bo) (simp_all add: start_piece_def Let_def cm)
qed

lemma pick_block_data:
  assumes "picker_inv pk"
  shows "data_from pk (fst (pick_block rand pk bf))"
proof -
  obtain pk1 o1 where c: "continue_pieces (candidates pk bf) pk = (pk1, o1)" by fastforce
  have d: "data_from pk pk1" using continue_data [OF data_from_refl, of pk "candidates pk bf"] c by simp
  show ?thesis
  proof (cases o1)
    case None
    note cn = continue_None [OF c [unfolded None] assms]
    show ?thesis
    proof (cases "pick_piece rand pk1 bf")
      case (Some i)
      then have "eligible pk1 bf i" using pick_piece_spec(2) [OF _ Some] cn by blast
      then have "map_of (in_progress pk1) i = None" and "map_of (in_progress pk) i = None"
        using cn by (auto simp: eligible_def map_of_eq_None_iff)
      moreover have "actual_piece_length pk1 = actual_piece_length pk"
        using cn by (metis piece_ok_frame(5))
      ultimately show ?thesis
        using c None Some start_data [OF d] by (simp add: pick_block_def)
    qed (use c None d in \<open>simp add: pick_block_def\<close>)
  qed (use c d in \<open>simp add: pick_block_def\<close>)
qed

lemma in_progress_bump: "in_progress (fold (bump f) is pk) = in_progress pk"
  by (induction "is" arbitrary: pk) (auto simp: bump_def)

lemma holds_pick:
  assumes "holds_content content pk"
  shows "holds_content content (fst (pick_block rand pk bf))"
proof -
  have inv: "picker_inv pk" using assms by (simp add: holds_content_def)
  have "assembled (content i) q"
    if q: "map_of (in_progress (fst (pick_block rand pk bf))) i = Some q"
      and len: "length (content i) = pp_length q" for i q
  proof -
    have sd: "same_data (base_piece pk i) q"
      using data_from_base [OF pick_block_data [OF inv] q] .
    have "assembled (content i) (base_piece pk i)"
      using assms sd len
      by (auto simp: base_piece_def holds_content_def same_data_def intro!: assembled_new
          split: option.splits)
    then show ?thesis using sd by (simp add: assembled_same)
  qed
  then show ?thesis using inv by (simp add: holds_content_def pick_block_inv)
qed

lemma holds_block:
  assumes "holds_content content pk" and "honest_block content pk i off data"
  shows "holds_content content (fst (block_received i off data pk))"
proof (cases "map_of (in_progress pk) i")
  case None
  then show ?thesis using assms by (simp add: block_received_def)
next
  case (Some p)
  have inv: "picker_inv pk" using assms(1) by (simp add: holds_content_def)
  have ok: "piece_ok pk i p" using inv Some by (rule picker_invD(7))
  obtain q new where mr: "mark_received (off div block_size) p = (q, new)" by fastforce
  have asm: "assembled (content i) p"
    using assms Some ok by (auto simp: holds_content_def honest_block_def piece_ok_def)
  have inv': "picker_inv (fst (block_received i off data pk))"
    using inv by (rule block_received_inv)
  show ?thesis
  proof (cases new)
    case False
    then have "q = p" using mr by (auto dest: mark_received_False)
    then show ?thesis
      using Some mr False asm holds_insert [OF assms(1) ok] by (simp add: block_received_def)
  next
    case True
    then have mr: "mark_received (off div block_size) p = (q, True)" using mr by simp
    note ab = assembled_block [OF mr ok assms(2) asm]
    show ?thesis
      using Some mr ab inv' assms(1)
      by (auto simp: block_received_def Let_def holds_content_def)
  qed
qed

lemma holds_step:
  "holds_content content pk \<Longrightarrow> honest_may content pk e \<Longrightarrow> holds_content content (picker_step pk e)"
proof (cases e)
  case (Unassign i off)
  assume h: "holds_content content pk"
  have "assembled (content i) (mark_unassigned b p)" if "assembled (content i) p" for p b
    using that by (simp add: assembled_def mark_unassigned_def)
  then show ?thesis
    using h Unassign unassign_block_inv [of pk i off]
    by (auto simp: holds_content_def unassign_block_def split: option.splits)
next
  case (Verified i)
  assume h: "holds_content content pk" and "honest_may content pk e"
  then have "picker_inv (mark_verified i pk)"
    using Verified picker_step_inv [of pk e] by (simp add: holds_content_def honest_may_def)
  then show ?thesis
    using h Verified by (auto simp: mark_verified_def Let_def holds_content_def)
next
  case (Pick rand bf)
  assume "holds_content content pk"
  with Pick show ?thesis by (simp add: holds_pick)
next
  case (BlockIn i off data)
  assume "holds_content content pk" and "honest_may content pk e"
  with BlockIn show ?thesis by (simp add: holds_block honest_may_def)
qed (use picker_step_inv [of pk e] in \<open>auto simp: honest_may_def holds_content_def
  peer_has_bitfield_def peer_has_piece_def peer_disconnected_def piece_failed_def in_progress_bump
  in_progress_bump [of _ "[_]", simplified]\<close>)

interpretation honest_machine: machine "honest_may content" picker_step "holds_content content"
  by unfold_locales (rule holds_step)

text \<open>The piece that a block completes.\<close>

lemma complete_block:
  assumes "picker_inv pk" and "block_received i off data pk = (pk', PieceComplete d)"
  obtains p q where "map_of (in_progress pk) i = Some p" and "piece_ok pk i p"
    and "mark_received (off div block_size) p = (q, True)"
    and "d = (if off + length data \<le> length (pp_data q) then overwrite off data (pp_data q) else pp_data q)"
    and "received_count q = num_blocks q" and "pk' = pk\<lparr>in_progress := hm_remove i (in_progress pk)\<rparr>"
proof -
  obtain p where p: "map_of (in_progress pk) i = Some p"
    using assms(2) by (auto simp: block_received_def split: option.splits)
  obtain q where mr: "mark_received (off div block_size) p = (q, True)"
    using assms(2) p by (auto simp: block_received_def split: prod.splits bool.splits)
  show thesis
    by (rule that [OF p picker_invD(7) [OF assms(1) p] mr])
      (use assms(2) p mr in \<open>auto simp: block_received_def Let_def pp_is_complete_def split: if_splits\<close>)
qed

lemma complete_block_facts:
  assumes "picker_inv pk" and "block_received i off data pk = (pk', PieceComplete d)"
  shows "i < pk_pieces pk" and "\<not> has (have_bf pk) i" and "length d = actual_piece_length pk i"
    and "pk' = pk\<lparr>in_progress := hm_remove i (in_progress pk)\<rparr>"
proof -
  obtain p q where p: "piece_ok pk i p" and mr: "mark_received (off div block_size) p = (q, True)"
    and d: "d = (if off + length data \<le> length (pp_data q) then overwrite off data (pp_data q) else pp_data q)"
    and pk': "pk' = pk\<lparr>in_progress := hm_remove i (in_progress pk)\<rparr>"
    using complete_block [OF assms] .
  have inv: "pp_inv p" and len: "pp_length p = actual_piece_length pk i" using p by (auto simp: piece_ok_def)
  have "length (pp_data q) = actual_piece_length pk i"
    using mark_received_inv [OF mr inv] len by (simp add: pp_inv_def)
  then show "length d = actual_piece_length pk i" by (simp add: d overwrite_length)
  show "i < pk_pieces pk" "\<not> has (have_bf pk) i" using p by (simp_all add: piece_ok_def)
  show "pk' = pk\<lparr>in_progress := hm_remove i (in_progress pk)\<rparr>" by (rule pk')
qed

lemma holds_complete:
  assumes "holds_content content pk" and "honest_block content pk i off data"
    and "block_received i off data pk = (pk', PieceComplete d)"
  shows "d = content i"
proof -
  have inv: "picker_inv pk" using assms(1) by (simp add: holds_content_def)
  obtain p q where p: "map_of (in_progress pk) i = Some p" and ok: "piece_ok pk i p"
    and mr: "mark_received (off div block_size) p = (q, True)"
    and d: "d = (if off + length data \<le> length (pp_data q) then overwrite off data (pp_data q) else pp_data q)"
    and all: "received_count q = num_blocks q"
    using complete_block [OF inv assms(3)] .
  then have inv_p: "pp_inv p" by (simp add: piece_ok_def)
  have "assembled (content i) p"
    using assms(1,2) p ok by (auto simp: holds_content_def honest_block_def piece_ok_def)
  note ab = assembled_block [OF mr ok assms(2) this]
  let ?q = "q\<lparr>pp_data := overwrite off data (pp_data q)\<rparr>"
  have "pp_is_complete ?q" and "d = pp_data ?q" using all d ab(1) by (auto simp: pp_is_complete_def)
  moreover have "pp_inv ?q"
    using mark_received_inv(1) [OF mr inv_p] ab(1) by (simp add: pp_inv_def overwrite_length)
  ultimately show ?thesis using complete_received ab(2) by blast
qed

section \<open>Properties\<close>

text \<open>C37. Whatever the peers send and however they come and go, the picker stays consistent:
  the count of verified pieces is the number of pieces held, the download is complete exactly
  when that is every piece, and no held piece is still being fetched.\<close>

theorem picker_consistent:
  assumes "run_events picker_may picker_step (picker_new n piece_len len) es = Some pk"
    and "n < 2 ^ 32" and "0 < piece_len" and "piece_len < 2 ^ 32"
  shows "picker_inv pk \<and> verified_count pk = card {i. has (have_bf pk) i}
    \<and> (pk_is_complete pk \<longleftrightarrow> verified_count pk = pk_pieces pk)
    \<and> {i. has (have_bf pk) i} \<inter> fst ` set (in_progress pk) = {}"
proof -
  have inv: "picker_inv pk"
    using picker_machine.run_inv [OF picker_new_inv [OF assms(2-4)] assms(1)] .
  note d = picker_invD [OF inv]
  have vc: "verified_count pk = bf_count (have_bf pk)" using inv by (simp add: picker_inv_def)
  have disj: "\<not> has (have_bf pk) i" if key: "i \<in> fst ` set (in_progress pk)" for i
  proof -
    obtain p where p: "map_of (in_progress pk) i = Some p"
      using key by (cases "map_of (in_progress pk) i") (auto simp: map_of_eq_None_iff)
    from d(7) [OF p] show ?thesis by (simp add: piece_ok_def)
  qed
  show ?thesis
  proof (intro conjI)
    show "verified_count pk = card {i. has (have_bf pk) i}"
      unfolding vc by (rule count_card [OF d(5)])
    show "pk_is_complete pk \<longleftrightarrow> verified_count pk = pk_pieces pk"
      using vc d(6) by (simp add: pk_is_complete_def bf_is_complete_def)
    show "{i. has (have_bf pk) i} \<inter> fst ` set (in_progress pk) = {}"
      using disj by blast
  qed (rule inv)
qed

definition example_run :: "picker_event list" where
  "example_run = [PeerPiece 0, Pick (\<lambda>i. 0) (bf_set 0 (bf_new 2)), BlockIn 0 0 [1, 2, 3, 4], Verified 0]"

theorem picker_consistent_witness:
  "\<exists>pk. run_events picker_may picker_step (picker_new 2 4 8) example_run = Some pk
    \<and> verified_count pk = card {i. has (have_bf pk) i}"
proof -
  have "(case run_events picker_may picker_step (picker_new 2 4 8) example_run of
      None \<Rightarrow> False | Some pk \<Rightarrow> verified_count pk = 1)"
    by code_simp
  then obtain pk where pk: "run_events picker_may picker_step (picker_new 2 4 8) example_run = Some pk"
    by (auto split: option.splits)
  from picker_consistent [OF pk] pk show ?thesis by simp
qed

text \<open>\<open>pick_block\<close> hands out a block exactly when the peer has one that nobody was asked
  for. What it hands out is such a block: in a missing piece the peer has, aligned, inside the
  piece, not assigned before and assigned afterwards.\<close>

theorem pick_block_exact:
  assumes "picker_inv pk"
  shows "case pick_block rand pk bf of
      (pk', Some r) \<Rightarrow> has bf (br_piece r) \<and> fresh_request pk r
        \<and> block_assigned pk' (br_piece r) (br_offset r div block_size)
    | (pk', None) \<Rightarrow> {(i, b). i < pk_pieces pk \<and> has bf i \<and> \<not> has (have_bf pk) i
        \<and> b < block_count pk i \<and> \<not> block_assigned pk i b} = {}"
proof -
  obtain pk' ro where pb: "pick_block rand pk bf = (pk', ro)" by fastforce
  show ?thesis
  proof (cases ro)
    case None
    with pick_block_None [OF pb [unfolded None] assms] pb show ?thesis by auto
  next
    case (Some r)
    with pick_block_Some [OF pb [unfolded Some] assms] pb show ?thesis by auto
  qed
qed

theorem pick_block_exact_witness:
  "case pick_block (\<lambda>i. 0) (picker_new 2 4 8) (bf_set 0 (bf_new 2)) of
      (pk', Some r) \<Rightarrow> br_piece r = 0 \<and> fresh_request (picker_new 2 4 8) r | (pk', None) \<Rightarrow> False"
proof -
  have "picker_inv (picker_new 2 4 8)" by (rule picker_new_inv) simp_all
  moreover have "case pick_block (\<lambda>i. 0) (picker_new 2 4 8) (bf_set 0 (bf_new 2)) of
      (pk', Some r) \<Rightarrow> br_piece r = 0 | (pk', None) \<Rightarrow> False"
    by code_simp
  ultimately show ?thesis
    using pick_block_exact [of "picker_new 2 4 8" "bf_set 0 (bf_new 2)" "\<lambda>i. 0"]
    by (auto split: prod.splits option.splits)
qed

text \<open>A new piece is one of the rarest: no other piece the peer could give us is held by
  fewer peers, whatever the random numbers, and one is found whenever there is any.\<close>

theorem rarest_first:
  assumes "picker_inv pk"
  shows "case pick_piece rand pk bf of
      None \<Rightarrow> {i. eligible pk bf i} = {}
    | Some i \<Rightarrow> eligible pk bf i
        \<and> availability pk ! i = Min ((\<lambda>j. availability pk ! j) ` {j. eligible pk bf j})"
proof (cases "pick_piece rand pk bf")
  case None
  then show ?thesis using pick_piece_spec(1) [OF assms, of rand bf] by simp
next
  case (Some i)
  have "finite {j. eligible pk bf j}"
    by (rule finite_subset [of _ "{..<pk_pieces pk}"]) (auto simp: eligible_def)
  then show ?thesis
    using Some pick_piece_spec(2) [OF assms Some] by (auto intro!: Min_eqI [symmetric])
qed

theorem rarest_first_witness:
  "case pick_piece (\<lambda>i. 0) (peer_has_piece 0 (picker_new 2 4 8)) (bf_set 1 (bf_set 0 (bf_new 2))) of
      None \<Rightarrow> False | Some i \<Rightarrow> i = 1 \<and> eligible (peer_has_piece 0 (picker_new 2 4 8))
        (bf_set 1 (bf_set 0 (bf_new 2))) i"
proof -
  have "picker_inv (peer_has_piece 0 (picker_new 2 4 8))"
    by (auto simp: peer_has_piece_def u16_inc_def intro!: bump_inv picker_new_inv)
  moreover have "pick_piece (\<lambda>i. 0) (peer_has_piece 0 (picker_new 2 4 8))
      (bf_set 1 (bf_set 0 (bf_new 2))) = Some 1"
    by code_simp
  ultimately show ?thesis
    using rarest_first [of "peer_has_piece 0 (picker_new 2 4 8)" "bf_set 1 (bf_set 0 (bf_new 2))" "\<lambda>i. 0"]
    by simp
qed

text \<open>C32. If every block that arrives is the requested part of the torrent's data, the piece
  handed to verification is exactly that piece, whatever the order, duplicates and failures.\<close>

theorem piece_assembled:
  assumes "run_events (honest_may content) picker_step (picker_new n piece_len len) es = Some pk"
    and "n < 2 ^ 32" and "0 < piece_len" and "piece_len < 2 ^ 32"
    and "honest_block content pk i off data"
    and "block_received i off data pk = (pk', PieceComplete d)"
  shows "d = content i"
proof -
  have "holds_content content (picker_new n piece_len len)"
    using picker_new_inv [OF assms(2-4)] by (simp add: holds_content_def) (simp add: picker_new_def)
  then have h: "holds_content content pk" using honest_machine.run_inv assms(1) by blast
  then show ?thesis using holds_complete assms(5,6) by blast
qed

theorem piece_assembled_witness:
  "\<exists>pk pk' d. run_events (honest_may (\<lambda>i. [1, 2, 3, 4])) picker_step (picker_new 2 4 8)
      [Pick (\<lambda>i. 0) (bf_set 0 (bf_new 2))] = Some pk
    \<and> block_received 0 0 [1, 2, 3, 4] pk = (pk', PieceComplete d) \<and> d = [1, 2, 3, 4]"
proof -
  have "case run_events (honest_may (\<lambda>i. [1, 2, 3, 4])) picker_step (picker_new 2 4 8)
      [Pick (\<lambda>i. 0) (bf_set 0 (bf_new 2))] of None \<Rightarrow> False
    | Some pk \<Rightarrow> honest_block (\<lambda>i. [1, 2, 3, 4]) pk 0 0 [1, 2, 3, 4]
      \<and> (case block_received 0 0 [1, 2, 3, 4] pk of (pk', PieceComplete d) \<Rightarrow> True | _ \<Rightarrow> False)"
    by code_simp
  then obtain pk pk' d where pk: "run_events (honest_may (\<lambda>i. [1, 2, 3, 4])) picker_step (picker_new 2 4 8)
      [Pick (\<lambda>i. 0) (bf_set 0 (bf_new 2))] = Some pk"
    and hb: "honest_block (\<lambda>i. [1, 2, 3, 4]) pk 0 0 [1, 2, 3, 4]"
    and br: "block_received 0 0 [1, 2, 3, 4] pk = (pk', PieceComplete d)"
    by (auto split: option.splits prod.splits block_result.splits)
  have "d = [1, 2, 3, 4]" using piece_assembled [OF pk _ _ _ hb br] by simp
  with pk br show ?thesis by blast
qed

end
