(* ===== verification/Storage.thy ===== *)
theory Storage
  imports Disk_Correct Picker_Correct
begin

text \<open>
  What decides that data is good: the SHA-1 check of pieces (\<open>src/src/piece/store.rs\<close>), the
  adoption of pieces already on disk after a restart (\<open>src/src/engine/resume.rs\<close>) and the
  metadata of a magnet link assembled from peers (\<open>src/src/engine/magnet_buffer.rs\<close>).
  SHA-1 is a parameter.
\<close>

section \<open>Piece hashes\<close>

type_synonym piece_store = "bytes list"

definition ps_verify :: "(bytes \<Rightarrow> bytes) \<Rightarrow> piece_store \<Rightarrow> nat \<Rightarrow> bytes \<Rightarrow> bool" where
  "ps_verify sha1 piece_hashes piece_index data =
     (if length piece_hashes \<le> piece_index then False
      else sha1 data = piece_hashes ! piece_index)"

section \<open>Resuming\<close>

definition piece_len :: "info \<Rightarrow> nat \<Rightarrow> nat" where
  "piece_len i piece_index =
     (if piece_index + 1 = length (info_pieces i) then
        (let remainder = unat (info_total_length i) mod unat (info_piece_length i) in
         if remainder = 0 then unat (info_piece_length i) else remainder)
      else unat (info_piece_length i))"

text \<open>The loop over the pieces: the disk is read through \<open>read\<close>, which fails on an I/O error.\<close>

definition verify_step ::
  "(bytes \<Rightarrow> bytes) \<Rightarrow> (nat \<Rightarrow> nat \<Rightarrow> bytes option) \<Rightarrow> piece_store \<Rightarrow> info \<Rightarrow> nat
    \<Rightarrow> picker \<times> nat \<Rightarrow> picker \<times> nat" where
  "verify_step sha1 read store i index = (\<lambda>(pk, verified).
     (let len = piece_len i index in
      case read (as_u32 index) len of
        None \<Rightarrow> (pk, verified)
      | Some data \<Rightarrow>
          if as_u32 (length data) = len \<and> ps_verify sha1 store (as_u32 index) data
          then (mark_verified (as_u32 index) pk, verified + 1) else (pk, verified)))"

definition verify_on_disk ::
  "(bytes \<Rightarrow> bytes) \<Rightarrow> (nat \<Rightarrow> nat \<Rightarrow> bytes option) \<Rightarrow> piece_store \<Rightarrow> info \<Rightarrow> picker \<Rightarrow> picker \<times> nat" where
  "verify_on_disk sha1 read store i pk =
     fold (verify_step sha1 read store i) [0..<length (info_pieces i)] (pk, 0)"

text \<open>A piece on disk is good: it can be read, has its length and the right hash.\<close>

definition good_piece ::
  "(bytes \<Rightarrow> bytes) \<Rightarrow> (nat \<Rightarrow> nat \<Rightarrow> bytes option) \<Rightarrow> piece_store \<Rightarrow> info \<Rightarrow> nat \<Rightarrow> bool" where
  "good_piece sha1 read store i index =
     (case read index (piece_len i index) of None \<Rightarrow> False
      | Some data \<Rightarrow> length data mod 2 ^ 32 = piece_len i index \<and> index < length store
          \<and> sha1 data = store ! index)"

lemma mark_verified_have: "have_bf (mark_verified i pk) = bf_set i (have_bf pk)"
  by (simp add: mark_verified_def Let_def)

lemma mark_verified_pieces [simp]: "pk_pieces (mark_verified i pk) = pk_pieces pk"
  by (simp add: mark_verified_def Let_def)

lemma verify_fold:
  assumes "picker_inv pk" and "{j. has (have_bf pk) j} = {}" and "n \<le> pk_pieces pk"
    and "fold (verify_step sha1 read store i) [0..<n] (pk, 0) = (pk', v)"
  shows "picker_inv pk' \<and> pk_pieces pk' = pk_pieces pk \<and> v = card {j. has (have_bf pk') j}
    \<and> {j. has (have_bf pk') j} = {j. j < n \<and> good_piece sha1 read store i j}"
  using assms(3,4)
proof (induction n arbitrary: pk' v)
  case 0
  then show ?case using assms(1,2) by simp
next
  case (Suc n)
  obtain pk1 v1 where f: "fold (verify_step sha1 read store i) [0..<n] (pk, 0) = (pk1, v1)"
    by fastforce
  have IH: "picker_inv pk1" "pk_pieces pk1 = pk_pieces pk" "v1 = card {j. has (have_bf pk1) j}"
    "{j. has (have_bf pk1) j} = {j. j < n \<and> good_piece sha1 read store i j}"
    using Suc.IH [OF _ f] Suc.prems(1) by auto
  have n: "n < pk_pieces pk1" "as_u32 n = n" "\<not> has (have_bf pk1) n"
    using Suc.prems(1) IH picker_invD(2) [OF IH(1)] by auto
  have one: "verify_step sha1 read store i n (pk1, v1) =
      (if good_piece sha1 read store i n then (mark_verified n pk1, v1 + 1) else (pk1, v1))"
    unfolding verify_step_def good_piece_def n(2)
    by (auto simp: ps_verify_def as_u32_def split: option.splits)
  have step: "(pk', v) = (if good_piece sha1 read store i n then (mark_verified n pk1, v1 + 1) else (pk1, v1))"
    using Suc.prems(2) f one by simp
  show ?case
  proof (cases "good_piece sha1 read store i n")
    case True
    have wf: "bf_wf (have_bf pk1)" "bf_pieces (have_bf pk1) = pk_pieces pk1"
      using IH(1) by (auto simp: picker_invD)
    have inv: "picker_inv (mark_verified n pk1)"
      by (rule mark_verified_inv [OF IH(1) n(1,3)])
    have hs: "{j. has (bf_set n (have_bf pk1)) j} = insert n {j. has (have_bf pk1) j}"
      using has_set [OF wf(1), of n] n(1) wf(2) by auto
    have "{j. has (bf_set n (have_bf pk1)) j} = {j. j < Suc n \<and> good_piece sha1 read store i j}"
      unfolding hs IH(4) using True by (auto simp: less_Suc_eq)
    moreover have "card (insert n {j. has (have_bf pk1) j}) = Suc v1"
      unfolding IH(3) using n(3) by (subst card_insert_disjoint) (auto simp: IH(4))
    ultimately show ?thesis
      using step True inv IH(2) hs by (simp add: mark_verified_have)
  next
    case False
    have "{j. j < Suc n \<and> good_piece sha1 read store i j} = {j. j < n \<and> good_piece sha1 read store i j}"
      using False by (auto simp: less_Suc_eq)
    with False step IH show ?thesis by simp
  qed
qed

section \<open>Metadata of a magnet link\<close>

definition METADATA_PIECE_SIZE :: nat where "METADATA_PIECE_SIZE = 16384"

record 'a metadata_buffer =
  mb_total :: nat
  mb_pieces :: nat
  mb_buffer :: bytes
  mb_received :: "bool list"
  mb_received_count :: nat
  mb_assigned :: "'a option list"

definition mb_new :: "nat \<Rightarrow> 'a metadata_buffer" where
  "mb_new total_size = (let n = div_ceil total_size METADATA_PIECE_SIZE in
     \<lparr>mb_total = total_size, mb_pieces = n, mb_buffer = replicate total_size 0,
      mb_received = replicate n False, mb_received_count = 0, mb_assigned = replicate n None\<rparr>)"

definition mb_is_complete :: "'a metadata_buffer \<Rightarrow> bool" where
  "mb_is_complete mb \<longleftrightarrow> mb_received_count mb = mb_pieces mb"

definition on_data :: "nat \<Rightarrow> bytes \<Rightarrow> 'a metadata_buffer \<Rightarrow> 'a metadata_buffer \<times> bool" where
  "on_data idx data mb =
     (if mb_pieces mb \<le> idx \<or> mb_received mb ! idx then (mb, False)
      else if METADATA_PIECE_SIZE < length data then (mb, False)
      else (let offset = idx * METADATA_PIECE_SIZE in
        if mb_total mb \<le> offset then (mb, False)
        else (let end_pos = min (offset + length data) (mb_total mb);
                  mb' = mb\<lparr>mb_buffer := overwrite offset (take (end_pos - offset) data) (mb_buffer mb),
                           mb_received := (mb_received mb)[idx := True],
                           mb_received_count := mb_received_count mb + 1,
                           mb_assigned := (mb_assigned mb)[idx := None]\<rparr> in
              (mb', mb_is_complete mb'))))"

definition on_reject :: "nat \<Rightarrow> 'a metadata_buffer \<Rightarrow> 'a metadata_buffer" where
  "on_reject idx mb = (if idx < mb_pieces mb
     then mb\<lparr>mb_assigned := (mb_assigned mb)[idx := None]\<rparr> else mb)"

definition on_peer_lost :: "'a \<Rightarrow> 'a metadata_buffer \<Rightarrow> 'a metadata_buffer" where
  "on_peer_lost addr mb =
     mb\<lparr>mb_assigned := map (\<lambda>slot. if slot = Some addr then None else slot) (mb_assigned mb)\<rparr>"

fun first_free :: "bool list \<Rightarrow> 'a option list \<Rightarrow> nat list \<Rightarrow> nat option" where
  "first_free received assigned [] = None"
| "first_free received assigned (i # is) =
     (if \<not> received ! i \<and> assigned ! i = None then Some i else first_free received assigned is)"

definition next_request :: "'a \<Rightarrow> 'a metadata_buffer \<Rightarrow> 'a metadata_buffer \<times> nat option" where
  "next_request addr mb =
     (case first_free (mb_received mb) (mb_assigned mb) [0..<mb_pieces mb] of
        None \<Rightarrow> (mb, None)
      | Some i \<Rightarrow> (mb\<lparr>mb_assigned := (mb_assigned mb)[i := Some addr]\<rparr>, Some (as_u32 i)))"

definition mb_verify :: "(bytes \<Rightarrow> bytes) \<Rightarrow> 'a metadata_buffer \<Rightarrow> bytes \<Rightarrow> bytes option" where
  "mb_verify sha1 mb info_hash =
     (if sha1 (mb_buffer mb) = info_hash then Some (mb_buffer mb) else None)"

definition mb_inv :: "'a metadata_buffer \<Rightarrow> bool" where
  "mb_inv mb \<longleftrightarrow> mb_pieces mb = div_ceil (mb_total mb) METADATA_PIECE_SIZE
     \<and> length (mb_buffer mb) = mb_total mb \<and> length (mb_received mb) = mb_pieces mb
     \<and> length (mb_assigned mb) = mb_pieces mb
     \<and> mb_received_count mb = length (filter id (mb_received mb))
     \<and> (\<forall>i < mb_pieces mb. mb_received mb ! i \<longrightarrow> mb_assigned mb ! i = None)"

lemma piece_size_pos [simp]: "0 < METADATA_PIECE_SIZE"
  by (simp add: METADATA_PIECE_SIZE_def)

lemma mb_new_inv [simp, inv_intros]: "mb_inv (mb_new n)"
  by (simp add: mb_inv_def mb_new_def Let_def)

text \<open>The buffer's own test \<open>offset >= total_size\<close> never fires: the piece count excludes it.\<close>

lemma on_data_accept:
  assumes "mb_inv mb" and "idx < mb_pieces mb" and "\<not> mb_received mb ! idx"
    and "length data \<le> METADATA_PIECE_SIZE"
  defines "off \<equiv> idx * METADATA_PIECE_SIZE"
  shows "off < mb_total mb"
    and "fst (on_data idx data mb) =
      mb\<lparr>mb_buffer := overwrite off (take (mb_total mb - off) data) (mb_buffer mb),
         mb_received := (mb_received mb)[idx := True],
         mb_received_count := mb_received_count mb + 1,
         mb_assigned := (mb_assigned mb)[idx := None]\<rparr>"
proof -
  show off: "off < mb_total mb"
    using assms(1,2) div_ceil_less [of METADATA_PIECE_SIZE idx "mb_total mb"]
    by (simp add: mb_inv_def off_def)
  have "take (min (off + length data) (mb_total mb) - off) data = take (mb_total mb - off) data"
    by (cases "off + length data \<le> mb_total mb") (simp_all add: min_def)
  then show "fst (on_data idx data mb) =
      mb\<lparr>mb_buffer := overwrite off (take (mb_total mb - off) data) (mb_buffer mb),
         mb_received := (mb_received mb)[idx := True],
         mb_received_count := mb_received_count mb + 1,
         mb_assigned := (mb_assigned mb)[idx := None]\<rparr>"
    using assms off by (simp add: on_data_def Let_def)
qed

lemma on_data_reject:
  "\<not> (idx < mb_pieces mb \<and> \<not> mb_received mb ! idx \<and> length data \<le> METADATA_PIECE_SIZE) \<Longrightarrow>
     on_data idx data mb = (mb, False)"
  by (auto simp: on_data_def)

lemma on_data_inv [inv_intros]:
  assumes "mb_inv mb" shows "mb_inv (fst (on_data idx data mb))"
proof (cases "idx < mb_pieces mb \<and> \<not> mb_received mb ! idx \<and> length data \<le> METADATA_PIECE_SIZE")
  case True
  note a = on_data_accept [OF assms, of idx data]
  have "length (take (mb_total mb - idx * METADATA_PIECE_SIZE) data) + idx * METADATA_PIECE_SIZE \<le> mb_total mb"
    using a(1) True by simp
  then show ?thesis
    using True a assms
    by (auto simp: mb_inv_def overwrite_length filter_id_update nth_list_update add.commute)
qed (simp add: on_data_reject assms)

lemma first_free_Some:
  "first_free r a is = Some i \<Longrightarrow> i \<in> set is \<and> \<not> r ! i \<and> a ! i = None"
  by (induction "is") (auto split: if_splits)

lemma first_free_None:
  "first_free r a is = None \<longleftrightarrow> (\<forall>i \<in> set is. r ! i \<or> a ! i \<noteq> None)"
  by (induction "is") auto

datatype 'a mb_event = MData nat bytes | MReject nat | MLost 'a | MNext 'a

fun mb_step :: "'a metadata_buffer \<Rightarrow> 'a mb_event \<Rightarrow> 'a metadata_buffer" where
  "mb_step mb (MData i data) = fst (on_data i data mb)"
| "mb_step mb (MReject i) = on_reject i mb"
| "mb_step mb (MLost a) = on_peer_lost a mb"
| "mb_step mb (MNext a) = fst (next_request a mb)"

text \<open>\<open>mb_honest c\<close>: the data message carries the requested part of the metadata \<open>c\<close>.\<close>

fun mb_honest :: "bytes \<Rightarrow> 'a metadata_buffer \<Rightarrow> 'a mb_event \<Rightarrow> bool" where
  "mb_honest c mb (MData i data) =
     (data = take METADATA_PIECE_SIZE (drop (i * METADATA_PIECE_SIZE) c))"
| "mb_honest c mb _ = True"

definition mb_holds :: "bytes \<Rightarrow> 'a metadata_buffer \<Rightarrow> bool" where
  "mb_holds c mb \<longleftrightarrow> mb_inv mb \<and> mb_total mb = length c \<and>
     (\<forall>k < length c. mb_received mb ! (k div METADATA_PIECE_SIZE) \<longrightarrow> mb_buffer mb ! k = c ! k)"

lemma mb_inv_step: "mb_inv mb \<Longrightarrow> mb_inv (mb_step mb e)"
proof (cases e)
  case (MNext a)
  assume "mb_inv mb"
  then show ?thesis
    using MNext first_free_Some [of "mb_received mb" "mb_assigned mb" "[0..<mb_pieces mb]"]
    by (auto simp: next_request_def mb_inv_def nth_list_update split: option.splits)
next
  case (MData i data)
  assume "mb_inv mb"
  with MData show ?thesis by (simp add: on_data_inv)
qed (auto simp: on_reject_def on_peer_lost_def mb_inv_def nth_list_update)

lemma mb_holds_data:
  assumes "mb_holds c mb" and "data = take METADATA_PIECE_SIZE (drop (i * METADATA_PIECE_SIZE) c)"
  shows "mb_holds c (fst (on_data i data mb))"
proof (cases "i < mb_pieces mb \<and> \<not> mb_received mb ! i")
  case True
  let ?S = METADATA_PIECE_SIZE
  have inv: "mb_inv mb" and len: "mb_total mb = length c" using assms(1) by (auto simp: mb_holds_def)
  have small: "length data \<le> ?S" using assms(2) by simp
  note a = on_data_accept [OF inv _ _ small, of i]
  have off: "i * ?S < length c" using a(1) True len by simp
  have d: "take (mb_total mb - i * ?S) data = data" by (rule take_all) (simp add: assms(2) len)
  have ld: "length data = min ?S (length c - i * ?S)" using assms(2) by (simp add: min.commute)
  have fits: "i * ?S + length data \<le> length (mb_buffer mb)"
    using off ld inv len by (simp add: mb_inv_def)
  have "overwrite (i * ?S) data (mb_buffer mb) ! k = c ! k"
    if k: "k < length c" and r: "(mb_received mb)[i := True] ! (k div ?S)" for k
  proof (cases "i * ?S \<le> k \<and> k < i * ?S + length data")
    case True
    then have "data ! (k - i * ?S) = c ! k" unfolding assms(2) by (subst nth_take) (use ld in auto)
    with True fits k inv len show ?thesis by (simp add: overwrite_nth mb_inv_def)
  next
    case False
    have "k div ?S \<noteq> i"
    proof
      assume "k div ?S = i"
      then obtain m where "k = i * ?S + m" "m < ?S"
        by (metis div_mult_mod_eq mod_less_divisor piece_size_pos)
      with False ld k show False by auto
    qed
    then have "mb_received mb ! (k div ?S)" using r by simp
    then show ?thesis
      using False fits k assms(1) inv len by (auto simp: overwrite_nth mb_holds_def mb_inv_def)
  qed
  then show ?thesis
    using True a(2) d inv len on_data_inv [OF inv, of i data] by (simp add: mb_holds_def)
next
  case False
  then show ?thesis using assms(1) by (subst on_data_reject) auto
qed

lemma mb_holds_step: "mb_holds c mb \<Longrightarrow> mb_honest c mb e \<Longrightarrow> mb_holds c (mb_step mb e)"
proof (cases e)
  case (MData i data)
  assume "mb_holds c mb" "mb_honest c mb e"
  with MData show ?thesis by (simp add: mb_holds_data)
next
  case (MNext a)
  assume "mb_holds c mb"
  with MNext mb_inv_step [of mb e] show ?thesis
    by (auto simp: mb_holds_def next_request_def split: option.splits)
qed (use mb_inv_step [of mb e] in \<open>auto simp: mb_holds_def on_reject_def on_peer_lost_def\<close>)

interpretation metadata_machine: machine "mb_honest c" mb_step "mb_holds c"
  by unfold_locales (rule mb_holds_step)

section \<open>One piece length\<close>

text \<open>
  The length of a piece is computed in four places. \<open>last_piece\<close> is the arithmetic that makes
  them agree on the indices of an accepted torrent.
\<close>

lemma last_piece:
  assumes "0 < p" and "i < div_ceil t p"
  shows "min p (t - i * p) =
    (if Suc i = div_ceil t p then (if t mod p = 0 then p else t mod p) else (p :: nat))"
proof -
  have t: "t = p * (t div p) + t mod p" by simp
  show ?thesis
  proof (cases "Suc i = div_ceil t p")
    case last: True
    show ?thesis
    proof (cases "t mod p = 0")
      case True
      then have "Suc i = t div p" using last by (simp add: div_ceil_def)
      then have "t = p * Suc i" using t True by simp
      then have "t - i * p = p" by (simp add: algebra_simps)
      with last True show ?thesis by simp
    next
      case False
      then have "i = t div p" using last by (simp add: div_ceil_def)
      then have "t - i * p = t mod p" using t by (metis add_diff_cancel_left' mult.commute)
      moreover have "t mod p < p" using assms(1) by simp
      ultimately show ?thesis using last False by simp
    qed
  next
    case False
    then have "Suc i < div_ceil t p" using assms(2) by simp
    then have "Suc i * p < t" using div_ceil_less [OF assms(1), of "Suc i" t] by simp
    then have "p \<le> t - i * p" by simp
    with False show ?thesis by simp
  qed
qed

text \<open>The pieces of the mapping are those of the metainfo.\<close>

lemma mapping_piece_len:
  assumes "info_ok i" and "j < length (info_pieces i)"
  shows "piece_size (mapping_new i dir) j = piece_len i j"
    and "j * fm_piece_length (mapping_new i dir) < fm_total (mapping_new i dir)"
proof -
  have n: "length (info_pieces i) = div_ceil (unat (info_total_length i)) (unat (info_piece_length i))"
    and p: "0 < unat (info_piece_length i)"
    using assms(1) by (auto simp: info_ok_def)
  show "piece_size (mapping_new i dir) j = piece_len i j"
    using last_piece [OF p, of j "unat (info_total_length i)"] assms(2)
    by (simp add: piece_size_def mapping_new_def piece_len_def Let_def n)
  show "j * fm_piece_length (mapping_new i dir) < fm_total (mapping_new i dir)"
    using assms(2) div_ceil_less [OF p, of j "unat (info_total_length i)"]
    by (simp add: mapping_new_def Let_def n)
qed

section \<open>Properties\<close>

text \<open>The four computations of a piece's length (metainfo, picker, resume and the file
  mapping) agree on every piece of an accepted torrent, so the last, shorter piece is requested,
  assembled, written and re-read with one length.\<close>

theorem piece_lengths_agree:
  assumes "info_ok i" and "length (info_pieces i) < 2 ^ 32" and "j < length (info_pieces i)"
    and "pk_pieces pk = length (info_pieces i)" and "pk_piece_length pk = unat (info_piece_length i)"
    and "pk_total_length pk = unat (info_total_length i)"
  shows "piece_length_of i j = piece_len i j \<and> actual_piece_length pk j = piece_len i j
    \<and> piece_size (mapping_new i dir) j = piece_len i j"
proof -
  have n: "length (info_pieces i) = div_ceil (unat (info_total_length i)) (unat (info_piece_length i))"
    and p: "0 < unat (info_piece_length i)"
    using assms(1) by (auto simp: info_ok_def)
  have idx: "j = length (info_pieces i) - Suc 0 \<longleftrightarrow> Suc j = length (info_pieces i)"
    using assms(3) by auto
  have u: "as_u32 (length (info_pieces i)) = length (info_pieces i)" using assms(2) by simp
  have "piece_length_of i j = piece_len i j"
    by (simp add: piece_length_of_def piece_len_def u idx)
  moreover have "actual_piece_length pk j = piece_len i j"
    by (simp add: actual_piece_length_def piece_len_def assms(4-6) idx Let_def)
  moreover have "piece_size (mapping_new i dir) j = piece_len i j"
    by (rule mapping_piece_len [OF assms(1,3)])
  ultimately show ?thesis by simp
qed

definition example_info :: info where
  "example_info = \<lparr>info_piece_length = 4, info_pieces = [replicate 20 0, replicate 20 0],
     info_name = ascii ''a'', info_files = Single 6, info_total_length = 6\<rparr>"

lemma example_info_ok: "info_ok example_info"
  by (simp add: example_info_def info_ok_def div_ceil_def layout_entries_def layout_paths_def
      bad_name_def ascii_def contains_sub_def starts_with_def)

theorem piece_lengths_agree_witness:
  "piece_length_of example_info 1 = piece_len example_info 1
    \<and> actual_piece_length (picker_new 2 4 6) 1 = piece_len example_info 1
    \<and> piece_size (mapping_new example_info []) 1 = piece_len example_info 1"
proof (rule piece_lengths_agree [OF example_info_ok])
  show "length (info_pieces example_info) < 2 ^ 32" "1 < length (info_pieces example_info)"
    "pk_pieces (picker_new 2 4 6) = length (info_pieces example_info)"
    "pk_piece_length (picker_new 2 4 6) = unat (info_piece_length example_info)"
    "pk_total_length (picker_new 2 4 6) = unat (info_total_length example_info)"
    by (simp_all add: example_info_def picker_new_def)
qed

text \<open>Resuming adopts exactly the pieces on disk that can be read, have their length and match
  their hash, counts them right, and leaves the picker consistent.\<close>

theorem resume_exact:
  assumes "length (info_pieces i) < 2 ^ 32" and "0 < unat (info_piece_length i)"
    and "verify_on_disk sha1 read store i (picker_new (length (info_pieces i))
      (unat (info_piece_length i)) (unat (info_total_length i))) = (pk, v)"
  shows "{j. has (have_bf pk) j} = {j. j < length (info_pieces i) \<and> good_piece sha1 read store i j}
    \<and> v = card {j. has (have_bf pk) j} \<and> verified_count pk = v \<and> picker_inv pk"
proof -
  let ?pk = "picker_new (length (info_pieces i)) (unat (info_piece_length i)) (unat (info_total_length i))"
  have inv: "picker_inv ?pk"
    using assms(1,2) unsigned_less [of "info_piece_length i"] by (intro picker_new_inv) auto
  have r: "picker_inv pk \<and> pk_pieces pk = pk_pieces ?pk \<and> v = card {j. has (have_bf pk) j}
      \<and> {j. has (have_bf pk) j} = {j. j < length (info_pieces i) \<and> good_piece sha1 read store i j}"
    by (rule verify_fold [OF inv _ _ assms(3) [unfolded verify_on_disk_def]])
      (simp_all add: picker_new_def)
  then have inv': "picker_inv pk" by blast
  then have "verified_count pk = bf_count (have_bf pk)" by (simp add: picker_inv_def)
  also have "\<dots> = card {j. has (have_bf pk) j}"
    by (rule count_card [OF picker_invD(5) [OF inv']])
  also have "\<dots> = v" using r by metis
  finally show ?thesis using r by blast
qed

theorem resume_exact_witness:
  "\<exists>pk v. verify_on_disk (\<lambda>b. replicate 20 0) (\<lambda>j n. if j = 1 then Some (replicate n 0) else None)
      (info_pieces example_info) example_info (picker_new (length (info_pieces example_info))
      (unat (info_piece_length example_info)) (unat (info_total_length example_info))) = (pk, v)
    \<and> verified_count pk = v"
proof -
  obtain pk v where r: "verify_on_disk (\<lambda>b. replicate 20 0)
      (\<lambda>j n. if j = 1 then Some (replicate n 0) else None)
      (info_pieces example_info) example_info (picker_new (length (info_pieces example_info))
      (unat (info_piece_length example_info)) (unat (info_total_length example_info))) = (pk, v)"
    by fastforce
  have "verified_count pk = v"
    using resume_exact [OF _ _ r] by (simp add: example_info_def)
  with r show ?thesis by blast
qed

lemma mb_new_holds: "mb_holds c (mb_new (length c))"
proof -
  have "k div METADATA_PIECE_SIZE < div_ceil (length c) METADATA_PIECE_SIZE" if "k < length c" for k
    using that div_ceil_less [of METADATA_PIECE_SIZE "k div METADATA_PIECE_SIZE" "length c"]
    by (meson div_times_less_eq_dividend le_less_trans piece_size_pos)
  then show ?thesis
    unfolding mb_holds_def by (auto simp: mb_new_def Let_def mb_inv_def)
qed

lemma all_received: "mb_inv mb \<Longrightarrow> mb_is_complete mb \<longleftrightarrow> (\<forall>i < mb_pieces mb. mb_received mb ! i)"
  using filter_id_all [of "mb_received mb"] by (simp add: mb_inv_def mb_is_complete_def)

lemma complete_buffer:
  assumes "mb_holds c mb" and "mb_is_complete mb"
  shows "mb_buffer mb = c"
proof (rule nth_equalityI)
  have inv: "mb_inv mb" using assms(1) by (simp add: mb_holds_def)
  show "length (mb_buffer mb) = length c" using assms(1) by (simp add: mb_holds_def mb_inv_def)
  fix k assume "k < length (mb_buffer mb)"
  then have k: "k < length c" using assms(1) by (simp add: mb_holds_def mb_inv_def)
  have "(k div METADATA_PIECE_SIZE) * METADATA_PIECE_SIZE < mb_total mb"
    using k assms(1) by (simp add: mb_holds_def) (meson div_times_less_eq_dividend le_less_trans)
  then have "k div METADATA_PIECE_SIZE < mb_pieces mb"
    using inv by (simp add: mb_inv_def div_ceil_less)
  with assms all_received [OF inv] k show "mb_buffer mb ! k = c ! k" by (simp add: mb_holds_def)
qed

text \<open>If the metadata pieces that arrive are the requested parts of the metadata, the buffer
  is exactly that metadata when it reports completion, in any order, with rejects, lost peers
  and duplicates; and as long as it is not complete, a piece is free to request or on order.\<close>

theorem metadata_assembled:
  assumes "run_events (mb_honest c) mb_step (mb_new (length c)) es = Some mb"
  shows "if mb_is_complete mb then mb_buffer mb = c
    else (case next_request a mb of (mb', Some i) \<Rightarrow> True
      | (mb', None) \<Rightarrow> (\<exists>i < mb_pieces mb. mb_assigned mb ! i \<noteq> None))"
proof -
  have h: "mb_holds c mb" using metadata_machine.run_inv [OF mb_new_holds assms] .
  then have inv: "mb_inv mb" by (simp add: mb_holds_def)
  note all = all_received [OF inv]
  show ?thesis
  proof (cases "mb_is_complete mb")
    case True
    then have "mb_buffer mb = c" using complete_buffer [OF h] by simp
    with True show ?thesis by simp
  next
    case False
    then obtain i where i: "i < mb_pieces mb" "\<not> mb_received mb ! i" using all by blast
    show ?thesis
    proof (cases "first_free (mb_received mb) (mb_assigned mb) [0..<mb_pieces mb]")
      case None
      then have "mb_assigned mb ! i \<noteq> None"
        using i first_free_None [of "mb_received mb" "mb_assigned mb" "[0..<mb_pieces mb]"] by auto
      with False None i show ?thesis by (auto simp: next_request_def)
    qed (use False in \<open>simp add: next_request_def\<close>)
  qed
qed

theorem metadata_assembled_witness:
  "\<exists>mb. run_events (mb_honest [7, 8]) mb_step (mb_new (length [7, 8 :: u8]))
      [MNext (0 :: nat), MData 0 [7, 8]] = Some mb \<and> mb_buffer mb = [7, 8]"
proof -
  have "case run_events (mb_honest [7, 8]) mb_step (mb_new (length [7, 8 :: u8]))
      [MNext (0 :: nat), MData 0 [7, 8]] of None \<Rightarrow> False | Some mb \<Rightarrow> mb_is_complete mb"
    by code_simp
  then obtain mb where mb: "run_events (mb_honest [7, 8]) mb_step (mb_new (length [7, 8 :: u8]))
      [MNext (0 :: nat), MData 0 [7, 8]] = Some mb" "mb_is_complete mb"
    by (auto simp del: run_events.simps split: option.splits)
  have "mb_buffer mb = [7, 8]" using metadata_assembled [OF mb(1)] mb(2) by simp
  with mb(1) show ?thesis by blast
qed

end
