(* ===== verification/Session.thy ===== *)
theory Session
  imports Peers Storage
begin

text \<open>
  The download session (\<open>src/src/engine/session.rs\<close>): the event loop that owns the picker, the
  pool of peers and the tables of bitfields and pending requests, and answers every event with
  calls on them. Each wake-up of the \<open>select!\<close> loop is a turn; what random numbers, clocks and the
  disk deliver is part of the turn. Arithmetic on doubles, which only scales the request depth and
  the displayed numbers, is a parameter. Progress bar and log lines are left out.
\<close>

section \<open>State\<close>

datatype session_state = Resolving | Downloading | Completed | Errored string | Cancelled

record session_status =
  st_id :: bytes
  st_name :: bytes
  st_info_hash :: bytes
  st_state :: session_state
  st_total_bytes :: nat
  st_downloaded_bytes :: nat
  st_pieces_done :: nat
  st_pieces_total :: nat
  st_peer_count :: nat
  st_download_speed :: f64
  st_progress :: f64
  st_started_at :: nat
  st_completed_at :: "nat option"
  st_uploaded_bytes :: nat

text \<open>
  The arithmetic on doubles: \<open>(t * 8.0) as u32\<close>, bytes per second in MiB, the ratio of two
  integers, and the two comparisons of elapsed time.
\<close>

record float_ops =
  f_adaptive :: "f64 \<Rightarrow> nat"
  f_rate :: "nat \<Rightarrow> f64 \<Rightarrow> f64"
  f_ratio :: "nat \<Rightarrow> nat \<Rightarrow> f64"
  f_sample_due :: "f64 \<Rightarrow> bool"
  f_tick_due :: "f64 \<Rightarrow> bool"

definition f64_one :: f64 where "f64_one = 0x3FF0000000000000"

record session_env =
  se_info :: info
  se_lightspeed :: bool
  se_sha1 :: "bytes \<Rightarrow> bytes"
  se_floats :: float_ops

text \<open>\<open>writes\<close> lists the piece writes handed to the disk task, in order.\<close>

record session =
  sn_picker :: picker
  sn_peers :: peer_manager
  peer_bitfields :: "(sock_addr \<times> bitfield) list"
  peer_pending :: "(sock_addr \<times> block_request list) list"
  writes :: "(nat \<times> bytes) list"
  bytes_new :: nat
  last_sample_bytes :: nat
  optimistic_counter :: nat
  local_status :: session_status
  shared_status :: session_status

definition max_pipeline :: "float_ops \<Rightarrow> bool \<Rightarrow> f64 \<Rightarrow> nat" where
  "max_pipeline fl lightspeed peer_throughput =
     (if \<not> lightspeed then 64 else max 64 (min 256 (f_adaptive fl peer_throughput)))"

section \<open>The request pipeline\<close>

definition request_of :: "block_request \<Rightarrow> peer_command" where
  "request_of b = RequestBlock (of_nat (br_piece b)) (of_nat (br_offset b)) (of_nat (br_length b))"

definition pending_of :: "session \<Rightarrow> sock_addr \<Rightarrow> block_request list" where
  "pending_of s addr = (case map_of (peer_pending s) addr of None \<Rightarrow> [] | Some bs \<Rightarrow> bs)"

fun fill_loop :: "(nat \<Rightarrow> nat \<Rightarrow> nat) \<Rightarrow> sock_addr \<Rightarrow> bitfield \<Rightarrow> nat \<Rightarrow> session \<Rightarrow> session" where
  "fill_loop rand addr bf 0 s = s"
| "fill_loop rand addr bf (Suc n) s =
     (let picked = pick_block (rand n) (sn_picker s) bf; s1 = s\<lparr>sn_picker := fst picked\<rparr> in
      case snd picked of
        None \<Rightarrow> s1
      | Some block \<Rightarrow>
          (let sent = send_command addr (request_of block) (sn_peers s1) in
           if snd sent then
             fill_loop rand addr bf n
               (s1\<lparr>sn_peers := peer_update addr
                    (\<lambda>p. p\<lparr>outstanding_requests := outstanding_requests p + 1\<rparr>) (fst sent),
                   peer_pending := hm_insert addr (pending_of s1 addr @ [block]) (peer_pending s1)\<rparr>)
           else s1\<lparr>sn_peers := fst sent\<rparr>))"

definition fill_pipeline ::
  "session_env \<Rightarrow> (nat \<Rightarrow> nat \<Rightarrow> nat) \<Rightarrow> sock_addr \<Rightarrow> session \<Rightarrow> session" where
  "fill_pipeline env rand addr s = (case peer_state_of (sn_peers s) addr of
       None \<Rightarrow> s
     | Some state \<Rightarrow>
         if peer_choking state then s
         else (let outstanding = outstanding_requests state;
                   depth = max_pipeline (se_floats env) (se_lightspeed env) (throughput_mibps state) in
           if depth \<le> outstanding then s
           else (case map_of (peer_bitfields s) addr of
               None \<Rightarrow> s | Some bf \<Rightarrow> fill_loop rand addr bf (depth - outstanding) s)))"

definition refill_all_peers ::
  "session_env \<Rightarrow> (sock_addr \<Rightarrow> nat \<Rightarrow> nat \<Rightarrow> nat) \<Rightarrow> session \<Rightarrow> session" where
  "refill_all_peers env rand s =
     fold (\<lambda>addr. fill_pipeline env (rand addr) addr) (connected_peers (sn_peers s)) s"

definition release_peer_blocks :: "sock_addr \<Rightarrow> session \<Rightarrow> session" where
  "release_peer_blocks addr s = (case map_of (peer_pending s) addr of
       None \<Rightarrow> s
     | Some blocks \<Rightarrow>
         s\<lparr>sn_picker := fold (\<lambda>b. unassign_block (br_piece b) (br_offset b)) blocks (sn_picker s),
           peer_pending := hm_insert addr [] (peer_pending s)\<rparr>)"

section \<open>Endgame\<close>

text \<open>Requests to one peer until its channel refuses one.\<close>

fun send_requests :: "sock_addr \<Rightarrow> block_request list \<Rightarrow> peer_manager \<Rightarrow> peer_manager" where
  "send_requests addr [] pm = pm"
| "send_requests addr (b # bs) pm = (case send_command addr (request_of b) pm of
       (pm', True) \<Rightarrow> send_requests addr bs pm' | (pm', False) \<Rightarrow> pm')"

definition endgame_peer :: "sock_addr \<Rightarrow> session \<Rightarrow> session" where
  "endgame_peer addr s =
     (if (case peer_state_of (sn_peers s) addr of None \<Rightarrow> True | Some p \<Rightarrow> peer_choking p) then s
      else (case map_of (peer_bitfields s) addr of
          None \<Rightarrow> s
        | Some bf \<Rightarrow> s\<lparr>sn_peers := send_requests addr (endgame_requests (sn_picker s) bf) (sn_peers s)\<rparr>))"

definition endgame_all :: "session \<Rightarrow> session" where
  "endgame_all s =
     (if is_endgame (sn_picker s) then fold endgame_peer (connected_peers (sn_peers s)) s else s)"

definition send_all :: "(sock_addr \<times> peer_command) list \<Rightarrow> peer_manager \<Rightarrow> peer_manager" where
  "send_all cmds pm = fold (\<lambda>(addr, cmd) pm. fst (send_command addr cmd pm)) cmds pm"

text \<open>A block that has arrived is cancelled at every other peer, a finished piece wherever it is
  pending.\<close>

definition cancel_block :: "sock_addr \<Rightarrow> u32 \<Rightarrow> u32 \<Rightarrow> nat \<Rightarrow> session \<Rightarrow> session" where
  "cancel_block addr piece_index off len s =
     (if is_endgame (sn_picker s) then
        s\<lparr>sn_peers := send_all (map (\<lambda>a. (a, CancelBlock piece_index off (of_nat len)))
                  (filter (\<lambda>a. a \<noteq> addr) (connected_peers (sn_peers s)))) (sn_peers s)\<rparr>
      else s)"

definition cancel_piece :: "sock_addr \<Rightarrow> u32 \<Rightarrow> session \<Rightarrow> session" where
  "cancel_piece addr piece_index s =
     (if is_endgame (sn_picker s) then
        s\<lparr>sn_peers := send_all
           (concat (map (\<lambda>a. map (\<lambda>b. (a, CancelBlock (of_nat (br_piece b)) (of_nat (br_offset b))
                                            (of_nat (br_length b))))
                          (filter (\<lambda>b. br_piece b = unat piece_index) (pending_of s a)))
             (filter (\<lambda>a. a \<noteq> addr) (connected_peers (sn_peers s))))) (sn_peers s)\<rparr>
      else s)"

section \<open>Peer events\<close>

definition set_peer_count :: "session \<Rightarrow> session" where
  "set_peer_count s = s\<lparr>local_status := (local_status s)\<lparr>st_peer_count := peer_count (sn_peers s)\<rparr>\<rparr>"

definition on_connected :: "session_env \<Rightarrow> sock_addr \<Rightarrow> bool \<Rightarrow> session \<Rightarrow> session" where
  "on_connected env addr ext s =
     (let n = length (info_pieces (se_info env));
          s1 = set_peer_count (s\<lparr>peer_bitfields := hm_insert addr (bf_new n) (peer_bitfields s),
                                 peer_pending := hm_insert addr [] (peer_pending s)\<rparr>);
          pm1 = peer_update addr (\<lambda>p. p\<lparr>am_interested := True\<rparr>)
                  (fst (send_command addr SendInterested (sn_peers s1)));
          pm2 = (if ext then fst (send_command addr
                    (SendExtendedHandshake (ours None (se_lightspeed env))) pm1) else pm1) in
      s1\<lparr>sn_peers := pm2\<rparr>)"

definition on_bitfield ::
  "session_env \<Rightarrow> (nat \<Rightarrow> nat \<Rightarrow> nat) \<Rightarrow> sock_addr \<Rightarrow> bitfield \<Rightarrow> session \<Rightarrow> session" where
  "on_bitfield env rand addr bf s =
     fill_pipeline env rand addr
       (s\<lparr>sn_picker := peer_has_bitfield bf (sn_picker s),
          peer_bitfields := hm_insert addr bf (peer_bitfields s)\<rparr>)"

definition full_bitfield :: "nat \<Rightarrow> bitfield" where
  "full_bitfield n = fold bf_set [0..<n] (bf_new n)"

definition on_have ::
  "session_env \<Rightarrow> (nat \<Rightarrow> nat \<Rightarrow> nat) \<Rightarrow> sock_addr \<Rightarrow> u32 \<Rightarrow> session \<Rightarrow> session" where
  "on_have env rand addr piece_index s =
     (let s1 = s\<lparr>sn_picker := peer_has_piece (unat piece_index) (sn_picker s)\<rparr>;
          s2 = (case map_of (peer_bitfields s1) addr of
              None \<Rightarrow> s1
            | Some bf \<Rightarrow> s1\<lparr>peer_bitfields :=
                hm_insert addr (bf_set (unat piece_index) bf) (peer_bitfields s1)\<rparr>) in
      fill_pipeline env rand addr s2)"

definition on_choked ::
  "session_env \<Rightarrow> (sock_addr \<Rightarrow> nat \<Rightarrow> nat \<Rightarrow> nat) \<Rightarrow> sock_addr \<Rightarrow> session \<Rightarrow> session" where
  "on_choked env rand addr s =
     (let s1 = release_peer_blocks addr s;
          s2 = s1\<lparr>sn_peers := peer_update addr (\<lambda>p. p\<lparr>outstanding_requests := 0\<rparr>) (sn_peers s1)\<rparr> in
      refill_all_peers env rand s2)"

text \<open>The bookkeeping for an arriving block: pending list, open requests, throughput sample.\<close>

definition sample_throughput :: "float_ops \<Rightarrow> nat \<Rightarrow> f64 \<Rightarrow> peer_state \<Rightarrow> peer_state" where
  "sample_throughput fl len elapsed p =
     (let p1 = p\<lparr>throughput_sample_bytes := throughput_sample_bytes p + len\<rparr> in
      if f_sample_due fl elapsed
      then p1\<lparr>throughput_mibps := f_rate fl (throughput_sample_bytes p1) elapsed,
              throughput_sample_bytes := 0\<rparr>
      else p1)"

definition note_block ::
  "session_env \<Rightarrow> sock_addr \<Rightarrow> u32 \<Rightarrow> u32 \<Rightarrow> nat \<Rightarrow> f64 \<Rightarrow> session \<Rightarrow> session" where
  "note_block env addr piece_index off len elapsed s =
     (let s1 = (case map_of (peer_pending s) addr of
            None \<Rightarrow> s
          | Some pending \<Rightarrow> s\<lparr>peer_pending := hm_insert addr
              (filter (\<lambda>b. \<not> (br_piece b = unat piece_index \<and> br_offset b = unat off)) pending)
              (peer_pending s)\<rparr>) in
      s1\<lparr>sn_peers := peer_update addr (sample_throughput (se_floats env) len elapsed)
          (peer_update addr
            (\<lambda>p. p\<lparr>outstanding_requests := outstanding_requests p - 1\<rparr>) (sn_peers s1))\<rparr>)"

text \<open>A piece that has all its blocks: checked, then recorded, written and announced, or dropped.\<close>

definition piece_done :: "session_env \<Rightarrow> u32 \<Rightarrow> bytes \<Rightarrow> session \<Rightarrow> session" where
  "piece_done env piece_index piece_data s =
     (let i = unat piece_index in
      if ps_verify (se_sha1 env) (info_pieces (se_info env)) i piece_data then
        (let pk1 = mark_verified i (sn_picker s);
             verified = verified_count pk1;
             done_bytes = min (verified * unat (info_piece_length (se_info env)))
                            (unat (info_total_length (se_info env)));
             st = (local_status s)\<lparr>st_downloaded_bytes := done_bytes, st_pieces_done := verified,
                    st_progress := f_ratio (se_floats env) done_bytes
                                     (st_total_bytes (local_status s))\<rparr> in
         s\<lparr>sn_picker := pk1, local_status := st, writes := writes s @ [(i, piece_data)],
           sn_peers := broadcast (SendHave piece_index) (sn_peers s)\<rparr>)
      else s\<lparr>sn_picker := piece_failed i (sn_picker s)\<rparr>)"

definition on_block ::
  "session_env \<Rightarrow> (nat \<Rightarrow> nat \<Rightarrow> nat) \<Rightarrow> sock_addr \<Rightarrow> u32 \<Rightarrow> u32 \<Rightarrow> bytes \<Rightarrow> f64 \<Rightarrow> session \<Rightarrow> session"
where
  "on_block env rand addr piece_index off data elapsed s0 =
     (let s = note_block env addr piece_index off (length data) elapsed s0;
          (pk1, result) = block_received (unat piece_index) (unat off) data (sn_picker s);
          s1 = s\<lparr>sn_picker := pk1\<rparr>;
          s2 = (case result of
              Progress n \<Rightarrow>
                cancel_block addr piece_index off (length data) (s1\<lparr>bytes_new := bytes_new s1 + n\<rparr>)
            | PieceComplete piece_data \<Rightarrow>
                piece_done env piece_index piece_data
                  (cancel_piece addr piece_index (s1\<lparr>bytes_new := bytes_new s1 + length data\<rparr>))
            | Duplicate \<Rightarrow> cancel_block addr piece_index off (length data) s1) in
      endgame_all (fill_pipeline env rand addr (set_peer_count s2)))"

definition on_disconnected ::
  "session_env \<Rightarrow> (sock_addr \<Rightarrow> nat \<Rightarrow> nat \<Rightarrow> nat) \<Rightarrow> sock_addr \<Rightarrow> session \<Rightarrow> session" where
  "on_disconnected env rand addr s =
     (let s1 = release_peer_blocks addr s;
          s2 = s1\<lparr>peer_pending := hm_remove addr (peer_pending s1)\<rparr>;
          s3 = (case map_of (peer_bitfields s2) addr of
              None \<Rightarrow> s2
            | Some bf \<Rightarrow> s2\<lparr>peer_bitfields := hm_remove addr (peer_bitfields s2),
                            sn_picker := peer_disconnected bf (sn_picker s2)\<rparr>);
          s4 = set_peer_count s3 in
      refill_all_peers env rand (s4\<lparr>sn_peers := requeue_peer addr (sn_peers s4)\<rparr>))"

fun session_event ::
  "session_env \<Rightarrow> (sock_addr \<Rightarrow> nat \<Rightarrow> nat \<Rightarrow> nat) \<Rightarrow> f64 \<Rightarrow> sock_addr \<Rightarrow> peer_event \<Rightarrow> session
    \<Rightarrow> session run" where
  "session_event env rand elapsed addr (EvConnected _ _ ext) s = Done (on_connected env addr ext s)"
| "session_event env rand elapsed addr (EvBitfield bf_bytes) s =
     run_bind (bf_from_bytes bf_bytes (length (info_pieces (se_info env))))
       (\<lambda>bf. Done (on_bitfield env (rand addr) addr bf s))"
| "session_event env rand elapsed addr EvHaveAll s =
     Done (on_bitfield env (rand addr) addr (full_bitfield (length (info_pieces (se_info env)))) s)"
| "session_event env rand elapsed addr (EvHave piece_index) s =
     Done (on_have env (rand addr) addr piece_index s)"
| "session_event env rand elapsed addr EvUnchoked s = Done (fill_pipeline env (rand addr) addr s)"
| "session_event env rand elapsed addr EvChoked s = Done (on_choked env rand addr s)"
| "session_event env rand elapsed addr (EvBlock piece_index off data) s =
     Done (on_block env (rand addr) addr piece_index off data elapsed s)"
| "session_event env rand elapsed addr (EvDisconnected _) s =
     Done (on_disconnected env rand addr s)"
| "session_event env rand elapsed addr (EvPexPeers peers) s =
     Done (if se_lightspeed env
           then s\<lparr>sn_peers := connect_pending (add_peers peers (sn_peers s))\<rparr> else s)"
| "session_event env rand elapsed addr (EvExtHandshake _) s = Done s"
| "session_event env rand elapsed addr (EvMetadata _) s = Done s"

section \<open>The loop\<close>

text \<open>
  \<open>TaskRecv\<close> and \<open>TaskEnd\<close> are not branches of the loop: they are what the connection tasks do to
  their channels between two of its turns.
\<close>

datatype session_turn =
    CancelTurn
  | PeersTurn "sock_addr list"
  | EventTurn sock_addr peer_event f64 "sock_addr \<Rightarrow> nat \<Rightarrow> nat \<Rightarrow> nat"
  | ConnectTick
  | SpeedTick f64
  | ChokeTick nat
  | TaskRecv sock_addr
  | TaskEnd sock_addr

definition speed_tick :: "session_env \<Rightarrow> f64 \<Rightarrow> session \<Rightarrow> session" where
  "speed_tick env dt s =
     (let s1 = (if f_tick_due (se_floats env) dt \<and> last_sample_bytes s < bytes_new s then
           s\<lparr>last_sample_bytes := bytes_new s,
             local_status := (local_status s)\<lparr>st_download_speed :=
               f_rate (se_floats env) (bytes_new s - last_sample_bytes s) dt\<rparr>\<rparr>
           else s) in
      s1\<lparr>shared_status := local_status s1\<rparr>)"

definition choke_tick :: "nat \<Rightarrow> session \<Rightarrow> session" where
  "choke_tick random s =
     (let c = optimistic_counter s + 1 in
      s\<lparr>optimistic_counter := c,
        sn_peers := send_all (run_choking_algorithm random (c mod 3 = 0) (sn_peers s)) (sn_peers s)\<rparr>)"

fun session_step :: "session_env \<Rightarrow> session \<Rightarrow> session_turn \<Rightarrow> session run" where
  "session_step env s CancelTurn = Done s"
| "session_step env s (PeersTurn new_peers) =
     Done (s\<lparr>sn_peers := connect_pending (add_peers new_peers (sn_peers s))\<rparr>)"
| "session_step env s (EventTurn addr event elapsed rand) =
     session_event env rand elapsed addr event (s\<lparr>sn_peers := handle_event addr event (sn_peers s)\<rparr>)"
| "session_step env s ConnectTick = Done (endgame_all (s\<lparr>sn_peers := connect_pending (sn_peers s)\<rparr>))"
| "session_step env s (SpeedTick dt) = Done (speed_tick env dt s)"
| "session_step env s (ChokeTick random) = Done (choke_tick random s)"
| "session_step env s (TaskRecv addr) = Done (s\<lparr>sn_peers := task_recv addr (sn_peers s)\<rparr>)"
| "session_step env s (TaskEnd addr) = Done (s\<lparr>sn_peers := task_ended addr (sn_peers s)\<rparr>)"

text \<open>The loop with the turns still to come; the flag says that it has been left.\<close>

fun session_loop :: "session_env \<Rightarrow> session_turn list \<Rightarrow> session \<Rightarrow> (session \<times> bool) run" where
  "session_loop env ts s =
     (if pk_is_complete (sn_picker s) then Done (s, True)
      else (case ts of [] \<Rightarrow> Done (s, False)
        | CancelTurn # _ \<Rightarrow> Done (s, True)
        | t # ts' \<Rightarrow> run_bind (session_step env s t) (session_loop env ts')))"

declare session_loop.simps [simp del]

definition session_finish :: "nat \<Rightarrow> session \<Rightarrow> session" where
  "session_finish now s =
     (let st = local_status s;
          st1 = (if pk_is_complete (sn_picker s)
                 then st\<lparr>st_state := Completed, st_progress := f64_one,
                         st_downloaded_bytes := st_total_bytes st\<rparr>
                 else st\<lparr>st_state := Cancelled\<rparr>);
          st2 = st1\<lparr>st_completed_at := Some now\<rparr> in
      s\<lparr>local_status := st2, shared_status := st2\<rparr>)"

definition initial_status :: "bytes \<Rightarrow> bytes \<Rightarrow> info \<Rightarrow> nat \<Rightarrow> session_status" where
  "initial_status sid hash_text i now =
     \<lparr>st_id = sid, st_name = info_name i, st_info_hash = hash_text, st_state = Downloading,
      st_total_bytes = unat (info_total_length i), st_downloaded_bytes = 0, st_pieces_done = 0,
      st_pieces_total = length (info_pieces i), st_peer_count = 0, st_download_speed = f64_zero,
      st_progress = f64_zero, st_started_at = now, st_completed_at = None, st_uploaded_bytes = 0\<rparr>"

text \<open>
  The state in which the loop starts: the warm peers of a magnet link are queued and, when a file
  of the torrent exists, the good pieces on disk are adopted.
\<close>

definition session_start ::
  "session_env \<Rightarrow> nat \<Rightarrow> sock_addr list \<Rightarrow> bool \<Rightarrow> (nat \<Rightarrow> nat \<Rightarrow> bytes option) \<Rightarrow> session_status \<Rightarrow> session"
where
  "session_start env limit warm_peers has_existing_data read st =
     (let i = se_info env;
          pk0 = picker_new (length (info_pieces i)) (unat (info_piece_length i))
                  (unat (info_total_length i));
          pm0 = (if warm_peers \<noteq> [] then add_peers warm_peers (pm_new limit) else pm_new limit);
          (pk1, adopted) = (if has_existing_data
             then verify_on_disk (se_sha1 env) read (info_pieces i) i pk0 else (pk0, 0));
          b = min (adopted * unat (info_piece_length i)) (unat (info_total_length i));
          st1 = (if has_existing_data
             then st\<lparr>st_downloaded_bytes := b, st_pieces_done := adopted,
                     st_progress := f_ratio (se_floats env) b (st_total_bytes st)\<rparr>
             else st) in
      \<lparr>sn_picker = pk1, sn_peers = pm0, peer_bitfields = [], peer_pending = [], writes = [], bytes_new = 0,
       last_sample_bytes = 0, optimistic_counter = 0, local_status = st1, shared_status = st1\<rparr>)"

definition session_run ::
  "session_env \<Rightarrow> session \<Rightarrow> session_turn list \<Rightarrow> nat \<Rightarrow> (session \<times> bool) run" where
  "session_run env s ts now = run_bind (session_loop env ts s)
     (\<lambda>(s', ended). Done (if ended then session_finish now s' else s', ended))"

end
