(* ===== verification/Media.thy ===== *)
theory Media
  imports Chars Paths Session
begin

text \<open>
  The library's data (\<open>engine/types.rs\<close>) and its persistent store (\<open>engine/store.rs\<close>): downloads,
  media entries and settings in three trees of an ordered key-value store, and the state machine of
  a transcode.
\<close>

section \<open>Data\<close>

type_synonym f32 = u32
type_synonym uuid = bytes

record subtitle_track =
  sub_label :: bytes
  sub_language :: "bytes option"
  sub_path :: pathbuf
  sub_format :: bytes

datatype media_type = Movie | Show | MediaUnknown

datatype transcode_state =
    Pending
  | Transcoding f32 bytes
  | Ready pathbuf
  | Failed bytes
  | Skipped
  | Unavailable

record media_entry =
  me_id :: uuid
  me_title :: bytes
  me_year :: "u16 option"
  me_media_type :: media_type
  me_original_path :: pathbuf
  me_media_file :: pathbuf
  me_transcoded_path :: "pathbuf option"
  me_transcode_state :: transcode_state
  me_transcode_started_at :: "u64 option"
  me_download_id :: uuid
  me_added_at :: u64
  me_file_size :: u64
  me_poster_url :: "bytes option"
  me_overview :: "bytes option"
  me_rating :: "f32 option"
  me_cast :: "bytes list"
  me_director :: "bytes option"
  me_video_codec :: "bytes option"
  me_audio_codec :: "bytes option"
  me_versions :: "(bytes \<times> pathbuf) list"
  me_show_name :: "bytes option"
  me_season :: "u16 option"
  me_episode :: "u16 option"
  me_episode_title :: "bytes option"
  me_group_id :: "uuid option"
  me_tmdb_id :: "u64 option"
  me_subtitles :: "subtitle_track list"
  me_last_played_at :: "u64 option"
  me_play_position :: "f64 option"
  me_duration :: "f64 option"

record app_settings =
  as_lightspeed :: bool
  as_max_download_speed :: u64
  as_download_dir :: pathbuf
  as_media_scan_dir :: "pathbuf option"
  as_auto_transcode :: bool
  as_default_preset :: bytes
  as_tmdb_api_key :: bytes
  as_transcode_concurrency :: nat
  as_transcode_dir :: pathbuf
  as_delete_source_after_transcode :: bool

record download_record =
  dr_id :: uuid
  dr_name :: bytes
  dr_info_hash :: bytes
  dr_total_bytes :: u64
  dr_pieces_total :: nat
  dr_metainfo_bytes :: bytes
  dr_output_dir :: pathbuf
  dr_lightspeed :: bool
  dr_completed_pieces :: "u32 list"
  dr_status :: session_status

text \<open>Directories: a non-empty environment variable, or a folder under \<open>$HOME/.movies\<close>.\<close>

definition dir_from_env :: "host \<Rightarrow> string \<Rightarrow> pathbuf option" where
  "dir_from_env h key = (case h_env h (ascii key) of
       None \<Rightarrow> None | Some v \<Rightarrow> if trim v = [] then None else Some (path_of v))"

definition home_movies_subdir :: "host \<Rightarrow> string \<Rightarrow> pathbuf" where
  "home_movies_subdir h name =
     path_join (path_join (case h_home h of None \<Rightarrow> path_of (ascii ''.'') | Some d \<Rightarrow> d)
       (path_of (ascii ''.movies''))) (path_of (ascii name))"

definition default_download_dir :: "host \<Rightarrow> pathbuf" where
  "default_download_dir h = (case dir_from_env h ''MOVIEHOUSE_DOWNLOAD_DIR'' of
       None \<Rightarrow> home_movies_subdir h ''downloads'' | Some d \<Rightarrow> d)"

definition default_transcode_dir :: "host \<Rightarrow> pathbuf" where
  "default_transcode_dir h = (case dir_from_env h ''MOVIEHOUSE_TRANSCODE_DIR'' of
       None \<Rightarrow> home_movies_subdir h ''transcoded'' | Some d \<Rightarrow> d)"

definition default_settings :: "host \<Rightarrow> app_settings" where
  "default_settings h = \<lparr>as_lightspeed = True, as_max_download_speed = 0,
     as_download_dir = default_download_dir h, as_media_scan_dir = None, as_auto_transcode = True,
     as_default_preset = ascii ''hevc'', as_tmdb_api_key = [], as_transcode_concurrency = 2,
     as_transcode_dir = default_transcode_dir h, as_delete_source_after_transcode = True\<rparr>"

section \<open>The store\<close>

text \<open>
  A stored value is either a record that \<open>serde_json\<close> reads back or bytes it refuses. The flag
  \<open>db_ok\<close> says whether sled's operations succeed; when it is off every one of them fails.
\<close>

datatype 'a stored = Valid 'a | Corrupt

datatype 'a db = DbErr | DbOk 'a

record store =
  db_downloads :: "(uuid \<times> download_record stored) list"
  db_library :: "(uuid \<times> media_entry stored) list"
  db_settings :: "app_settings stored option"
  db_ok :: bool

definition put_download :: "download_record \<Rightarrow> store \<Rightarrow> store \<times> unit db" where
  "put_download r s = (if db_ok s
     then (s\<lparr>db_downloads := bt_insert (dr_id r) (Valid r) (db_downloads s)\<rparr>, DbOk ()) else (s, DbErr))"

definition get_download :: "uuid \<Rightarrow> store \<Rightarrow> download_record option db" where
  "get_download i s = (if \<not> db_ok s then DbErr else case map_of (db_downloads s) i of
       None \<Rightarrow> DbOk None | Some (Valid r) \<Rightarrow> DbOk (Some r) | Some Corrupt \<Rightarrow> DbErr)"

text \<open>The values of a tree that can be read, in key order, and the tree without the others.\<close>

definition valid_values :: "(uuid \<times> 'a stored) list \<Rightarrow> 'a list" where
  "valid_values t = List.map_filter (\<lambda>(_, v). case v of Valid x \<Rightarrow> Some x | Corrupt \<Rightarrow> None) t"

definition drop_corrupt :: "(uuid \<times> 'a stored) list \<Rightarrow> (uuid \<times> 'a stored) list" where
  "drop_corrupt t = filter (\<lambda>(_, v). v \<noteq> Corrupt) t"

definition list_downloads :: "store \<Rightarrow> store \<times> download_record list db" where
  "list_downloads s = (if db_ok s
     then (s\<lparr>db_downloads := drop_corrupt (db_downloads s)\<rparr>, DbOk (valid_values (db_downloads s)))
     else (s, DbErr))"

definition remove_download :: "uuid \<Rightarrow> store \<Rightarrow> store \<times> unit db" where
  "remove_download i s = (if db_ok s
     then (s\<lparr>db_downloads := hm_remove i (db_downloads s)\<rparr>, DbOk ()) else (s, DbErr))"

definition update_pieces :: "uuid \<Rightarrow> u32 list \<Rightarrow> store \<Rightarrow> store \<times> unit db" where
  "update_pieces i ps s = (case get_download i s of
       DbErr \<Rightarrow> (s, DbErr)
     | DbOk None \<Rightarrow> (s, DbOk ())
     | DbOk (Some r) \<Rightarrow> put_download (r\<lparr>dr_completed_pieces := ps\<rparr>) s)"

definition put_media :: "media_entry \<Rightarrow> store \<Rightarrow> store \<times> unit db" where
  "put_media e s = (if db_ok s
     then (s\<lparr>db_library := bt_insert (me_id e) (Valid e) (db_library s)\<rparr>, DbOk ()) else (s, DbErr))"

definition get_media :: "uuid \<Rightarrow> store \<Rightarrow> store \<times> media_entry option db" where
  "get_media i s = (if \<not> db_ok s then (s, DbErr) else case map_of (db_library s) i of
       None \<Rightarrow> (s, DbOk None)
     | Some (Valid e) \<Rightarrow> (s, DbOk (Some e))
     | Some Corrupt \<Rightarrow> (s\<lparr>db_library := hm_remove i (db_library s)\<rparr>, DbOk None))"

definition list_media :: "store \<Rightarrow> store \<times> media_entry list db" where
  "list_media s = (if db_ok s
     then (s\<lparr>db_library := drop_corrupt (db_library s)\<rparr>, DbOk (valid_values (db_library s)))
     else (s, DbErr))"

definition remove_media :: "uuid \<Rightarrow> store \<Rightarrow> store \<times> unit db" where
  "remove_media i s = (if db_ok s
     then (s\<lparr>db_library := hm_remove i (db_library s)\<rparr>, DbOk ()) else (s, DbErr))"

definition list_media_by_group :: "uuid \<Rightarrow> store \<Rightarrow> store \<times> media_entry list db" where
  "list_media_by_group g s = (case list_media s of
       (s', DbErr) \<Rightarrow> (s', DbErr)
     | (s', DbOk es) \<Rightarrow> (s', DbOk (filter (\<lambda>e. me_group_id e = Some g) es)))"

definition get_settings :: "host \<Rightarrow> store \<Rightarrow> app_settings" where
  "get_settings h s = (if \<not> db_ok s then default_settings h else case db_settings s of
       Some (Valid a) \<Rightarrow> a | _ \<Rightarrow> default_settings h)"

definition put_settings :: "app_settings \<Rightarrow> store \<Rightarrow> store \<times> unit db" where
  "put_settings a s = (if db_ok s then (s\<lparr>db_settings := Some (Valid a)\<rparr>, DbOk ()) else (s, DbErr))"

section \<open>Updates of one entry\<close>

text \<open>\<open>if let Some(mut entry) = self.get_media(id)? { ...; self.put_media(&entry)?; }\<close>, where the
  body may leave early (\<open>None\<close>).\<close>

definition update_media :: "uuid \<Rightarrow> (media_entry \<Rightarrow> media_entry option) \<Rightarrow> store \<Rightarrow> store \<times> unit db" where
  "update_media i f s = (case get_media i s of
       (s', DbErr) \<Rightarrow> (s', DbErr)
     | (s', DbOk None) \<Rightarrow> (s', DbOk ())
     | (s', DbOk (Some e)) \<Rightarrow> (case f e of None \<Rightarrow> (s', DbOk ()) | Some e' \<Rightarrow> put_media e' s'))"

fun is_transcoding :: "transcode_state \<Rightarrow> bool" where
  "is_transcoding (Transcoding _ _) = True"
| "is_transcoding _ = False"

text \<open>The match of \<open>update_transcode_state\<close>; \<open>None\<close> is the ignored transition.\<close>

fun transition :: "u64 \<Rightarrow> transcode_state \<Rightarrow> media_entry \<Rightarrow> media_entry option" where
  "transition now (Transcoding p new_enc) e = (case me_transcode_state e of
       Transcoding _ existing_enc \<Rightarrow>
         Some (e\<lparr>me_transcode_state := Transcoding p (if new_enc = [] then existing_enc else new_enc)\<rparr>)
     | _ \<Rightarrow> Some (e\<lparr>me_transcode_started_at := Some now, me_transcode_state := Transcoding p new_enc\<rparr>))"
| "transition now (Ready output) e =
     (if is_transcoding (me_transcode_state e)
      then Some (e\<lparr>me_transcoded_path := Some output, me_transcode_state := Ready output\<rparr>) else None)"
| "transition now (Failed msg) e =
     (if is_transcoding (me_transcode_state e) then Some (e\<lparr>me_transcode_state := Failed msg\<rparr>) else None)"
| "transition now Unavailable e =
     (if me_transcode_state e = Pending then Some (e\<lparr>me_transcode_state := Unavailable\<rparr>) else None)"
| "transition now Pending e =
     Some (e\<lparr>me_transcode_started_at := None, me_transcode_state := Pending\<rparr>)"
| "transition now Skipped e = None"

definition update_transcode_state :: "u64 \<Rightarrow> uuid \<Rightarrow> transcode_state \<Rightarrow> store \<Rightarrow> store \<times> unit db" where
  "update_transcode_state now i new_state = update_media i (transition now new_state)"

definition add_version :: "uuid \<Rightarrow> bytes \<Rightarrow> pathbuf \<Rightarrow> store \<Rightarrow> store \<times> unit db" where
  "add_version i preset output =
     update_media i (\<lambda>e. Some (e\<lparr>me_versions := hm_insert preset output (me_versions e)\<rparr>))"

definition update_play_progress :: "u64 \<Rightarrow> uuid \<Rightarrow> f64 \<Rightarrow> f64 \<Rightarrow> store \<Rightarrow> store \<times> unit db" where
  "update_play_progress now i position duration =
     update_media i (\<lambda>e. Some (e\<lparr>me_play_position := Some position, me_duration := Some duration,
       me_last_played_at := Some now\<rparr>))"

end
