(* ===== verification/Cleanup.thy ===== *)
theory Cleanup
  imports Media
begin

text \<open>
  Which files belong to a library entry and how they are deleted (\<open>engine/cleanup.rs\<close>), with the
  guarantee that a deletion never leaves the allowed media directories.
\<close>

section \<open>Owned files\<close>

definition owned_files :: "media_entry \<Rightarrow> pathbuf list" where
  "owned_files e = sort (remdups (me_media_file e # (case me_transcoded_path e of None \<Rightarrow> [] | Some p \<Rightarrow> [p])
     @ map snd (me_versions e) @ map sub_path (me_subtitles e)))"

definition redundant_source :: "media_entry \<Rightarrow> pathbuf \<Rightarrow> pathbuf option" where
  "redundant_source e output =
     (let source = me_media_file e in
      if source = output then None
      else if source \<in> snd ` set (me_versions e) then None
      else Some source)"

text \<open>One round of the loop of \<open>remove_files\<close>, with the files and bytes removed so far.\<close>

definition remove_one :: "pathbuf \<Rightarrow> host \<times> nat \<times> u64 \<Rightarrow> host \<times> nat \<times> u64" where
  "remove_one p = (\<lambda>(h, files, bytes).
     case confine h p of
       Inl _ \<Rightarrow> (h, files, bytes)
     | Inr safe \<Rightarrow>
         if \<not> is_file h safe then (h, files, bytes)
         else (let size = size_or_0 h safe in
           case remove_file safe h of
             Some h' \<Rightarrow> (h', files + 1, bytes + size)
           | None \<Rightarrow> (h, files, bytes)))"

definition remove_files :: "pathbuf list \<Rightarrow> host \<Rightarrow> host \<times> nat \<times> u64" where
  "remove_files paths h = fold remove_one paths (h, 0, 0)"

definition remove_owned_files :: "media_entry \<Rightarrow> host \<Rightarrow> host \<times> nat \<times> u64" where
  "remove_owned_files e = remove_files (owned_files e)"

section \<open>What is removed\<close>

text \<open>The files a deletion may take: confined, and not held by the system.\<close>

definition deletable :: "host \<Rightarrow> pathbuf \<Rightarrow> bool" where
  "deletable h p \<longleftrightarrow> is_file h p \<and> is_absolute p \<and> ParentDir \<notin> set p \<and> allowed_location h (h_real h p)
     \<and> \<not> h_stuck h p"

text \<open>A host whose home directory is one.\<close>

definition host_ok :: "host \<Rightarrow> bool" where
  "host_ok h \<longleftrightarrow> (\<forall>d. h_home h = Some d \<longrightarrow> h_dirs h d)"

lemma confine_file:
  assumes "path_wf p" and "is_file h p"
  shows "confine h p = Inr q \<longleftrightarrow> q = p \<and> is_absolute p \<and> ParentDir \<notin> set p \<and> allowed_location h (h_real h p)"
proof (cases "p = []")
  case False
  have "path_exists h (take (Suc k) p) \<and> (\<forall>m < length p. k < m \<longrightarrow> \<not> path_exists h (take (Suc m) p))
      \<longleftrightarrow> Suc k = length p" (is "?L \<longleftrightarrow> _") if k: "k < length p" for k
  proof
    assume L: ?L
    have "path_exists h (take (Suc (length p - 1)) p)" using k assms(2) by (simp add: path_exists_def)
    moreover have "length p - 1 < length p" using k by simp
    ultimately have "\<not> k < length p - 1" using L by blast
    then show "Suc k = length p" using k by simp
  qed (use assms(2) in \<open>simp add: path_exists_def\<close>)
  then have "(\<exists>k < length p. path_exists h (take (Suc k) p)
      \<and> (\<forall>m < length p. k < m \<longrightarrow> \<not> path_exists h (take (Suc m) p))
      \<and> allowed_location h (h_real h (take (Suc k) p)))
    \<longleftrightarrow> (\<exists>k < length p. Suc k = length p \<and> allowed_location h (h_real h (take (Suc k) p)))"
    by blast
  also have "\<dots> \<longleftrightarrow> allowed_location h (h_real h p)"
    using False by (metis Suc_pred length_greater_0_conv lessI order_refl take_all)
  finally show ?thesis unfolding confine_iff [OF assms(1)] by blast
qed (simp add: confine_def is_absolute_def)

lemma allowed_location_files:
  assumes "host_ok h"
  shows "allowed_location (h\<lparr>h_files := fs\<rparr>) q \<longleftrightarrow> allowed_location h q"
proof -
  have roots: "allowed_roots (h\<lparr>h_files := fs\<rparr>) = allowed_roots h" by (simp add: allowed_roots_def)
  have "h_dirs h r" if "r \<in> set (allowed_roots h)" for r
    using that assms by (auto simp: allowed_roots_def host_ok_def simp del: list.map filter.simps split: option.splits)
  then show ?thesis by (auto simp: allowed_location_def roots path_exists_def)
qed

lemma remove_one_cases:
  assumes "host_ok h" and "path_wf p"
  shows "remove_one p (h, n, b) =
    (if deletable h p then (h\<lparr>h_files := (h_files h)(p := None)\<rparr>, n + 1, b + size_or_0 h p) else (h, n, b))"
proof (cases "is_file h p")
  case True
  note conf = confine_file [OF assms(2) True]
  show ?thesis
  proof (cases "confine h p")
    case (Inl e)
    then have "\<not> deletable h p" using conf [of p] by (auto simp: deletable_def)
    with Inl show ?thesis by (simp add: remove_one_def)
  next
    case (Inr q)
    then have "q = p" "deletable h p \<longleftrightarrow> \<not> h_stuck h p"
      using conf [of q] True by (auto simp: deletable_def)
    with Inr True show ?thesis by (simp add: remove_one_def remove_file_def)
  qed
next
  case False
  have "confine h p = Inr q \<Longrightarrow> q = p" for q
    using confine_iff [OF assms(2)] by blast
  with False show ?thesis
    by (auto simp: remove_one_def deletable_def split: sum.splits)
qed

text \<open>The files among some paths that a deletion takes, and the host without them.\<close>

definition taken :: "host \<Rightarrow> pathbuf list \<Rightarrow> pathbuf set" where
  "taken h ps = {p \<in> set ps. deletable h p}"

definition without :: "pathbuf set \<Rightarrow> host \<Rightarrow> host" where
  "without P h = h\<lparr>h_files := (\<lambda>p. if p \<in> P then None else h_files h p)\<rparr>"

lemma deletable_without:
  assumes "host_ok h"
  shows "deletable (without P h) p \<longleftrightarrow> deletable h p \<and> p \<notin> P"
  unfolding deletable_def without_def allowed_location_files [OF assms] by (auto simp: is_file_def)

lemma remove_files_spec:
  assumes "host_ok h" and "\<forall>p \<in> set ps. path_wf p"
  shows "remove_files ps h = (without (taken h ps) h, card (taken h ps), sum (size_or_0 h) (taken h ps))"
  using assms(2)
proof (induction ps rule: rev_induct)
  case Nil
  then show ?case by (simp add: remove_files_def taken_def without_def)
next
  case (snoc p ps)
  let ?T = "taken h ps"
  have ok: "host_ok (without ?T h)" using assms(1) by (simp add: host_ok_def without_def)
  have fin: "finite ?T" by (simp add: taken_def)
  have t: "taken h (ps @ [p]) = (if deletable h p then insert p ?T else ?T)"
    by (auto simp: taken_def)
  have "remove_files (ps @ [p]) h = remove_one p (without ?T h, card ?T, sum (size_or_0 h) ?T)"
    using snoc by (simp add: remove_files_def)
  also have "\<dots> = (if deletable h p \<and> p \<notin> ?T
      then ((without ?T h)\<lparr>h_files := (h_files (without ?T h))(p := None)\<rparr>, card ?T + 1,
        sum (size_or_0 h) ?T + size_or_0 (without ?T h) p)
      else (without ?T h, card ?T, sum (size_or_0 h) ?T))"
    using remove_one_cases [OF ok] snoc.prems by (simp add: deletable_without [OF assms(1)])
  also have "\<dots> = (without (taken h (ps @ [p])) h, card (taken h (ps @ [p])), sum (size_or_0 h) (taken h (ps @ [p])))"
    using fin by (auto simp: t without_def size_or_0_def insert_absorb fun_eq_iff add.commute)
  finally show ?case .
qed

text \<open>
  A deletion is exact and stays inside. \<open>remove_files\<close> unlinks exactly those of the given paths
  that are regular files, absolute, without \<open>..\<close>, really located in the home directory or a media
  mount and not held by the system; every other file of the host is as before; and the two counters
  are the number of unlinked files and the sum of their sizes, each file counted once.
\<close>

theorem remove_files_exact:
  assumes "host_ok h" and "\<forall>p \<in> set ps. path_wf p"
  shows "remove_files ps h = (without (taken h ps) h, card (taken h ps), sum (size_or_0 h) (taken h ps))"
  using assms by (rule remove_files_spec)

definition example_entry :: media_entry where
  "example_entry = \<lparr>me_id = replicate 16 1, me_title = ascii ''A'', me_year = None,
     me_media_type = MediaUnknown, me_original_path = [RootDir, Normal (ascii ''home''), Normal (ascii ''u'')],
     me_media_file = [RootDir, Normal (ascii ''home''), Normal (ascii ''u''), Normal (ascii ''a.mkv'')],
     me_transcoded_path = None, me_transcode_state = Pending, me_transcode_started_at = None,
     me_download_id = replicate 16 0, me_added_at = 0, me_file_size = 4000000, me_poster_url = None,
     me_overview = None, me_rating = None, me_cast = [], me_director = None, me_video_codec = None,
     me_audio_codec = None, me_versions = [], me_show_name = None, me_season = None,
     me_episode = None, me_episode_title = None, me_group_id = None, me_tmdb_id = None,
     me_subtitles = [\<lparr>sub_label = ascii ''x'', sub_language = None,
       sub_path = [RootDir, Normal (ascii ''etc''), Normal (ascii ''passwd'')], sub_format = ascii ''srt''\<rparr>],
     me_last_played_at = None, me_play_position = None, me_duration = None\<rparr>"

theorem remove_files_exact_witness:
  "\<exists>h'. remove_files (owned_files example_entry) example_host = (h', 1, 4000000)
    \<and> h_files h' [RootDir, Normal (ascii ''etc''), Normal (ascii ''passwd'')] = Some 9"
proof -
  let ?a = "me_media_file example_entry" and ?b = "[RootDir, Normal (ascii ''etc''), Normal (ascii ''passwd'')]"
  have own: "set (owned_files example_entry) = {?a, ?b}"
    by (auto simp: owned_files_def example_entry_def)
  have wf: "\<forall>p \<in> set (owned_files example_entry). path_wf p"
    unfolding own by (simp add: path_wf_def example_entry_def)
  have ok: "host_ok example_host" by (simp add: host_ok_def example_host_def path_starts_with_def)
  have "under_allowed_root example_host (h_real example_host ?a) (allowed_roots example_host)"
    "\<not> under_allowed_root example_host (h_real example_host ?b) (allowed_roots example_host)"
    "is_file example_host ?a \<and> is_absolute ?a \<and> ParentDir \<notin> set ?a \<and> \<not> h_stuck example_host ?a"
    "size_or_0 example_host ?a = 4000000" "h_files example_host ?b = Some 9"
    by code_simp+
  then have "taken example_host (owned_files example_entry) = {?a}" "size_or_0 example_host ?a = 4000000"
    "h_files example_host ?b = Some 9"
    unfolding under_allowed_root_iff taken_def own by (auto simp: deletable_def)
  moreover have "?b \<noteq> ?a" by (simp add: example_entry_def)
  ultimately show ?thesis
    using remove_files_exact [OF ok wf] by (simp add: without_def)
qed

end
