(* ===== verification/Titles.thy ===== *)
theory Titles
  imports Chars
begin

text \<open>
  Reading titles, years and episode numbers out of file names (\<open>engine/library.rs\<close>). The tables of
  Unicode (which characters beyond ASCII are alphanumeric, and their lower case, which may depend on
  the text around them) are a parameter.
\<close>

record unicode =
  uni_alphanumeric :: "bytes \<Rightarrow> bool"
  uni_lower :: "bytes \<Rightarrow> bytes \<Rightarrow> bytes \<Rightarrow> bytes"

definition ascii_lower :: "u8 \<Rightarrow> u8" where
  "ascii_lower b = (if 65 \<le> b \<and> b \<le> 90 then b + 32 else b)"

text \<open>\<open>str::to_lowercase\<close>.\<close>

fun lower_from :: "unicode \<Rightarrow> bytes \<Rightarrow> bytes list \<Rightarrow> bytes" where
  "lower_from u before [] = []"
| "lower_from u before (c # cs) =
     (if length c = 1 \<and> hd c < 0x80 then [ascii_lower (hd c)] else uni_lower u before c (concat cs))
       @ lower_from u (before @ c) cs"

definition to_lowercase :: "unicode \<Rightarrow> bytes \<Rightarrow> bytes" where
  "to_lowercase u s = lower_from u [] (chars s)"

section \<open>Titles\<close>

definition QUALITY_TAGS :: "bytes list" where
  "QUALITY_TAGS = map ascii
    [''1080p'', ''720p'', ''2160p'', ''4k'', ''bluray'', ''bdrip'', ''brrip'', ''web-dl'', ''webdl'', ''webrip'',
     ''web dl'', ''hdtv'', ''dvdrip'', ''hdrip'', ''x264'', ''x265'', ''h264'', ''h 264'', ''h265'', ''hevc'', ''avc'',
     ''aac'', ''dts'', ''ac3'', ''flac'', ''remux'', ''hdr'', ''10bit'', ''10 bit'', ''amzn'', ''nf'', ''dsnp'', ''hmax'',
     ''atvp'', ''rarbg'', ''yts'', ''yify'', ''evo'', ''fgt'', ''sparks'']"

definition spaced :: "bytes \<Rightarrow> bytes" where
  "spaced raw = map (\<lambda>b. if b = 46 \<or> b = 95 then 32 else b) raw"

definition year_of :: "bytes \<Rightarrow> nat option" where
  "year_of s = (case parse_u16 s of None \<Rightarrow> None
     | Some y \<Rightarrow> if 1900 \<le> y \<and> y \<le> 2099 then Some y else None)"

text \<open>The first window of six bytes that is a year in parentheses.\<close>

fun paren_year :: "bytes \<Rightarrow> nat option" where
  "paren_year (a # b # c # d # e # f # rest) =
     (if a = 40 \<and> f = 41 \<and> year_of (if utf8_valid [b, c, d, e] then [b, c, d, e] else []) \<noteq> None
      then year_of [b, c, d, e] else paren_year (b # c # d # e # f # rest))"
| "paren_year _ = None"

definition first_some :: "('a \<Rightarrow> 'b option) \<Rightarrow> 'a list \<Rightarrow> 'b option" where
  "first_some f xs = (case List.map_filter f xs of [] \<Rightarrow> None | y # _ \<Rightarrow> Some y)"

definition digit_char :: "bytes \<Rightarrow> bool" where
  "digit_char c \<longleftrightarrow> length c = 1 \<and> is_ascii_digit (hd c)"

definition word_year :: "bytes \<Rightarrow> nat option" where
  "word_year s = first_some (\<lambda>w. year_of (trim_by (\<lambda>c. \<not> digit_char c) w)) (drop 1 (split_whitespace s))"

definition find_year :: "bytes \<Rightarrow> nat option" where
  "find_year s = (case paren_year s of Some y \<Rightarrow> Some y | None \<Rightarrow> word_year s)"

definition cut_at :: "nat option \<Rightarrow> nat \<Rightarrow> nat" where
  "cut_at pos cut_pos = (case pos of None \<Rightarrow> cut_pos | Some p \<Rightarrow> if p < cut_pos then p else cut_pos)"

definition tag_cut :: "bytes \<Rightarrow> nat \<Rightarrow> nat" where
  "tag_cut lower n = fold (\<lambda>tag. cut_at (find_sub tag lower)) QUALITY_TAGS n"

definition year_position :: "nat \<Rightarrow> bytes \<Rightarrow> nat option" where
  "year_position y s = (case find_sub ([40] @ dec_nat y @ [41]) s of
       Some p \<Rightarrow> Some p | None \<Rightarrow> find_sub (dec_nat y) s)"

definition title_cut :: "bytes \<Rightarrow> bytes \<Rightarrow> nat" where
  "title_cut lower s =
     (let cut = tag_cut lower (length s) in
      case find_year s of
        None \<Rightarrow> cut
      | Some y \<Rightarrow> (case year_position y s of
            None \<Rightarrow> cut | Some p \<Rightarrow> if 0 < p \<and> p < cut then p else cut))"

definition tidy :: "bytes \<Rightarrow> bytes" where
  "tidy s = trim_end_by (is_char ''-([ '') (trim s)"

definition parse_media_title :: "unicode \<Rightarrow> bytes \<Rightarrow> (bytes \<times> u16 option) run" where
  "parse_media_title u raw =
     (let s = spaced raw in
      run_bind (str_take (title_cut (to_lowercase u s) s) s)
        (\<lambda>t. Done (if tidy t = [] then raw else tidy t, map_option of_nat (find_year s))))"

section \<open>File names\<close>

definition is_alphanumeric :: "unicode \<Rightarrow> bytes \<Rightarrow> bool" where
  "is_alphanumeric u c \<longleftrightarrow>
     (if length c = 1 then is_ascii_digit (hd c) \<or> (65 \<le> hd c \<and> hd c \<le> 90) \<or> (97 \<le> hd c \<and> hd c \<le> 122)
      else uni_alphanumeric u c)"

definition sanitize_char :: "unicode \<Rightarrow> bytes \<Rightarrow> bytes" where
  "sanitize_char u c =
     (if is_alphanumeric u c then (if length c = 1 then map ascii_lower c else c)
      else if c = [32] \<or> c = [95] then [45] else [])"

fun join_with :: "bytes \<Rightarrow> bytes list \<Rightarrow> bytes" where
  "join_with sep [] = []"
| "join_with sep [x] = x"
| "join_with sep (x # y # ys) = x @ sep @ join_with sep (y # ys)"

definition sanitize_filename :: "unicode \<Rightarrow> bytes \<Rightarrow> bytes" where
  "sanitize_filename u title =
     join_with [45] (filter (\<lambda>p. p \<noteq> []) (split_byte 45 (concat (map (sanitize_char u) (chars title)))))"

section \<open>Episodes\<close>

record episode_info =
  ei_show_name :: bytes
  ei_season :: "u16 option"
  ei_episode :: "u16 option"
  ei_episode_title :: "bytes option"
  ei_is_show :: bool

fun find_sxxexx :: "bytes \<Rightarrow> nat option" where
  "find_sxxexx (a # b # c # d # e # f # rest) =
     (if a = 115 \<and> is_ascii_digit b \<and> is_ascii_digit c \<and> d = 101 \<and> is_ascii_digit e then Some 0
      else map_option Suc (find_sxxexx (b # c # d # e # f # rest)))"
| "find_sxxexx _ = None"

definition get_u16 :: "nat \<Rightarrow> nat \<Rightarrow> bytes \<Rightarrow> u16 option" where
  "get_u16 a b s = map_option of_nat (Option.bind (str_get a b s) parse_u16)"

definition parse_sxxexx :: "bytes \<Rightarrow> u16 option \<times> u16 option" where
  "parse_sxxexx s = (get_u16 1 3 s, get_u16 4 6 s)"

text \<open>\<open>find_nxnn\<close>: the digits are ASCII, so \<open>s.get(i + 2..i + 4)\<close> is a slice of digits.\<close>

fun find_nxnn :: "bytes \<Rightarrow> (nat \<times> u16 \<times> u16) option" where
  "find_nxnn (a # b # c # d # rest) =
     (if is_ascii_digit a \<and> b = 120 \<and> is_ascii_digit c \<and> is_ascii_digit d
      then (case parse_u16 [c, d] of
          Some ep \<Rightarrow> Some (0, of_nat (unat (a - 48)), of_nat ep)
        | None \<Rightarrow> map_option (\<lambda>(i, r). (Suc i, r)) (find_nxnn (b # c # d # rest)))
      else map_option (\<lambda>(i, r). (Suc i, r)) (find_nxnn (b # c # d # rest)))"
| "find_nxnn _ = None"

definition extract_episode_title :: "unicode \<Rightarrow> bytes \<Rightarrow> bytes option run" where
  "extract_episode_title u after_ep =
     (let s = trim (trim_start_by (is_char ''-'') (trim after_ep)) in
      if s = [] then Done None
      else run_bind (parse_media_title u s) (\<lambda>(title, _). Done (if title = [] then None else Some title)))"

definition parse_episode_info :: "unicode \<Rightarrow> bytes \<Rightarrow> episode_info run" where
  "parse_episode_info u filename =
     (let s = spaced filename; lower = to_lowercase u s in
      case find_sxxexx lower of
        Some idx \<Rightarrow>
          run_bind (str_take idx s) (\<lambda>front.
            let raw_show = trim (trim_end_by (is_char ''-'') (trim front)) in
            run_bind (parse_media_title u raw_show) (\<lambda>(show_name, _).
              run_bind (str_drop idx lower) (\<lambda>tail.
                let (season, episode) = parse_sxxexx tail in
                run_bind (str_drop (idx + 6) s) (\<lambda>after_ep.
                  run_bind (extract_episode_title u after_ep) (\<lambda>ep_title.
                    Done \<lparr>ei_show_name = (if show_name = [] then raw_show else show_name),
                          ei_season = season, ei_episode = episode, ei_episode_title = ep_title,
                          ei_is_show = True\<rparr>)))))
      | None \<Rightarrow>
          (case find_nxnn lower of
             Some (idx, season, episode) \<Rightarrow>
               run_bind (str_take idx s) (\<lambda>front.
                 let show_part = trim front in
                 run_bind (str_drop (idx + 4) s) (\<lambda>after_ep.
                   run_bind (extract_episode_title u after_ep) (\<lambda>ep_title.
                     Done \<lparr>ei_show_name = (if show_part = [] then s else show_part),
                           ei_season = Some season, ei_episode = Some episode,
                           ei_episode_title = ep_title, ei_is_show = True\<rparr>)))
           | None \<Rightarrow>
               run_bind (parse_media_title u filename) (\<lambda>(title, _).
                 Done \<lparr>ei_show_name = title, ei_season = None, ei_episode = None,
                       ei_episode_title = None, ei_is_show = False\<rparr>)))"

end
