(* ===== verification/Transcode.thy ===== *)
theory Transcode
  imports Cleanup Titles
begin

text \<open>
  Transcoding (\<open>transcode/\<close>): presets, jobs, the arguments given to ffmpeg, and the life of one job in
  the runner with its effect on the store and on the host. What ffprobe and ffmpeg answer, the clock
  and the arithmetic on doubles behind a percentage are given by the environment of the job. This
  is the life of one job; the queue of jobs is in \<open>Transcode_Queue\<close>.
\<close>

section \<open>Presets and jobs\<close>

record preset =
  preset_id :: bytes
  preset_label :: bytes
  preset_description :: bytes

definition builtin_presets :: "preset list" where
  "builtin_presets =
     [\<lparr>preset_id = ascii ''hevc'', preset_label = ascii ''HEVC'',
       preset_description = ascii ''Remux to MP4 (fast, keeps original quality)''\<rparr>,
      \<lparr>preset_id = ascii ''h264'', preset_label = ascii ''H.264'',
       preset_description = ascii ''Re-encode to H.264 MP4 (slower, universal)''\<rparr>]"

definition get_preset :: "bytes \<Rightarrow> preset option" where
  "get_preset n = List.find (\<lambda>p. preset_id p = n) builtin_presets"

record transcode_job =
  tj_media_id :: uuid
  tj_input_path :: pathbuf
  tj_output_path :: pathbuf
  tj_preset_name :: bytes

text \<open>The format \<open>{:02}\<close>.\<close>

definition two_places :: "u16 \<Rightarrow> bytes" where
  "two_places n = (if n < 10 then 48 # dec_nat (unat n) else dec_nat (unat n))"

definition episode_suffix :: "media_entry \<Rightarrow> bytes" where
  "episode_suffix e = (case (me_season e, me_episode e) of
       (Some s, Some n) \<Rightarrow> ascii ''-s'' @ two_places s @ ascii ''e'' @ two_places n
     | _ \<Rightarrow> [])"

definition job_file_name :: "unicode \<Rightarrow> media_entry \<Rightarrow> bytes" where
  "job_file_name u e = sanitize_filename u (me_title e) @ episode_suffix e @ ascii ''.mp4''"

definition create_job :: "unicode \<Rightarrow> media_entry \<Rightarrow> bytes \<Rightarrow> pathbuf \<Rightarrow> transcode_job" where
  "create_job u e preset transcode_dir =
     \<lparr>tj_media_id = me_id e, tj_input_path = me_media_file e,
      tj_output_path = path_join transcode_dir (path_of (job_file_name u e)), tj_preset_name = preset\<rparr>"

section \<open>Probing and arguments\<close>

record subtitle_stream =
  ss_index :: nat
  ss_language :: "bytes option"
  ss_codec :: bytes

record probe_result =
  pr_video_codec :: bytes
  pr_audio_codec :: bytes
  pr_pix_fmt :: bytes
  pr_subtitle_streams :: "subtitle_stream list"

definition MOV_TEXT_CONVERTIBLE :: "bytes list" where
  "MOV_TEXT_CONVERTIBLE = map ascii [''subrip'', ''srt'', ''ass'', ''ssa'', ''webvtt'', ''mov_text'', ''text'',
     ''subviewer'', ''subviewer1'', ''microdvd'']"

definition subtitle_map_args :: "probe_result option \<Rightarrow> bytes list" where
  "subtitle_map_args probe = (case probe of
       None \<Rightarrow> []
     | Some p \<Rightarrow>
         (let embeddable = filter (\<lambda>s. ss_codec s \<in> set MOV_TEXT_CONVERTIBLE) (pr_subtitle_streams p) in
          if embeddable = [] then []
          else map ascii [''-map'', ''0:v:0'', ''-map'', ''0:a:0'']
            @ concat (map (\<lambda>s. [ascii ''-map'', ascii ''0:'' @ dec_nat (ss_index s)]) embeddable)
            @ map ascii [''-c:s'', ''mov_text'']))"

text \<open>\<open>to_string_lossy\<close> of a path whose names are UTF-8.\<close>

fun component_bytes :: "component \<Rightarrow> bytes" where
  "component_bytes RootDir = []"
| "component_bytes CurDir = ascii ''.''"
| "component_bytes ParentDir = ascii ''..''"
| "component_bytes (Normal n) = n"

definition path_bytes :: "pathbuf \<Rightarrow> bytes" where
  "path_bytes p = (if p = [RootDir] then [slash] else join_with [slash] (map component_bytes p))"

definition audio_args :: "probe_result option \<Rightarrow> bytes list" where
  "audio_args probe =
     (if (case probe of None \<Rightarrow> False | Some p \<Rightarrow> pr_audio_codec p = ascii ''aac'')
      then map ascii [''-c:a'', ''copy''] else map ascii [''-c:a'', ''aac'', ''-b:a'', ''192k''])"

definition input_args :: "pathbuf \<Rightarrow> bytes list" where
  "input_args input = [ascii ''-i'', ascii ''file:'' @ path_bytes input]"

definition encode_args :: "nat \<Rightarrow> pathbuf \<Rightarrow> pathbuf \<Rightarrow> probe_result option \<Rightarrow> bytes list" where
  "encode_args cores input output probe =
     input_args input
     @ map ascii [''-c:v'', ''libx264'', ''-preset'', ''fast'', ''-crf'', ''23'', ''-threads''] @ [dec_nat cores]
     @ audio_args probe @ subtitle_map_args probe
     @ map ascii [''-movflags'', ''+faststart'', ''-progress'', ''pipe:1'', ''-y''] @ [path_bytes output]"

definition is_hevc :: "probe_result option \<Rightarrow> bool" where
  "is_hevc probe = (case probe of None \<Rightarrow> False
     | Some p \<Rightarrow> pr_video_codec p = ascii ''hevc'' \<or> pr_video_codec p = ascii ''h265'')"

definition remux_args :: "pathbuf \<Rightarrow> pathbuf \<Rightarrow> probe_result option \<Rightarrow> bytes list" where
  "remux_args input output probe =
     input_args input @ map ascii [''-c:v'', ''copy'']
     @ (if is_hevc probe then map ascii [''-tag:v'', ''hvc1''] else [])
     @ audio_args probe @ subtitle_map_args probe
     @ map ascii [''-movflags'', ''+faststart''] @ [path_bytes output]
     @ map ascii [''-progress'', ''pipe:1'', ''-y'']"

section \<open>One job\<close>

text \<open>
  The environment of a job: whether ffmpeg is there, what the probe said, the lines ffmpeg printed
  with the percentage of a time in microseconds, its error if it failed or was cancelled, the size of
  the output file if it wrote one, the size of each extracted subtitle file, and the clock.
\<close>

record job_env =
  je_ffmpeg :: bool
  je_probe :: "probe_result option"
  je_lines :: "bytes list"
  je_percent :: "u64 \<Rightarrow> f32"
  je_error :: "bytes option"
  je_output :: "u64 option"
  je_subtitle :: "nat \<Rightarrow> u64 option"
  je_now :: u64

definition can_remux :: "probe_result option \<Rightarrow> bool" where
  "can_remux probe \<longleftrightarrow> is_hevc probe
     \<or> (case probe of None \<Rightarrow> False | Some p \<Rightarrow> pr_video_codec p = ascii ''h264'')"

text \<open>The result of a store update is dropped (\<open>let _ = ...\<close>).\<close>

definition set_media :: "uuid \<Rightarrow> (media_entry \<Rightarrow> media_entry) \<Rightarrow> store \<Rightarrow> store" where
  "set_media i f s = fst (update_media i (\<lambda>e. Some (f e)) s)"

definition set_transcode :: "u64 \<Rightarrow> uuid \<Rightarrow> transcode_state \<Rightarrow> store \<Rightarrow> store" where
  "set_transcode now i st s = fst (update_transcode_state now i st s)"

text \<open>The loop over ffmpeg's progress output.\<close>

definition progress_line :: "job_env \<Rightarrow> bytes \<Rightarrow> uuid \<Rightarrow> bytes \<Rightarrow> store \<Rightarrow> store" where
  "progress_line env encoder i line s =
     (if starts_with line (ascii ''out_time_us='')
      then (case parse_i64 (drop 12 line) of
          None \<Rightarrow> s
        | Some t \<Rightarrow> set_transcode (je_now env) i (Transcoding (je_percent env t) encoder) s)
      else s)"

definition write_file :: "pathbuf \<Rightarrow> u64 option \<Rightarrow> host \<Rightarrow> host" where
  "write_file p n h = (case n of None \<Rightarrow> h | Some k \<Rightarrow> h\<lparr>h_files := (h_files h)(p \<mapsto> k)\<rparr>)"

definition create_dir_all :: "pathbuf \<Rightarrow> host \<Rightarrow> host" where
  "create_dir_all d h = h\<lparr>h_dirs := (\<lambda>p. h_dirs h p \<or> (p \<noteq> [] \<and> path_starts_with d p))\<rparr>"

section \<open>Subtitles\<close>

definition LANGUAGES :: "(string list \<times> string) list" where
  "LANGUAGES = [([''en'', ''eng'', ''english''], ''en''), ([''es'', ''spa'', ''spanish''], ''es''),
     ([''fr'', ''fre'', ''fra'', ''french''], ''fr''), ([''de'', ''ger'', ''deu'', ''german''], ''de''),
     ([''it'', ''ita'', ''italian''], ''it''), ([''pt'', ''por'', ''portuguese''], ''pt''),
     ([''ru'', ''rus'', ''russian''], ''ru''), ([''ja'', ''jpn'', ''japanese''], ''ja''),
     ([''ko'', ''kor'', ''korean''], ''ko''), ([''zh'', ''chi'', ''zho'', ''chinese''], ''zh''),
     ([''ar'', ''ara'', ''arabic''], ''ar''), ([''hi'', ''hin'', ''hindi''], ''hi''),
     ([''nl'', ''dut'', ''nld'', ''dutch''], ''nl''), ([''pl'', ''pol'', ''polish''], ''pl''),
     ([''sv'', ''swe'', ''swedish''], ''sv''), ([''da'', ''dan'', ''danish''], ''da''),
     ([''no'', ''nor'', ''norwegian''], ''no''), ([''fi'', ''fin'', ''finnish''], ''fi''),
     ([''tr'', ''tur'', ''turkish''], ''tr''), ([''el'', ''gre'', ''ell'', ''greek''], ''el''),
     ([''he'', ''heb'', ''hebrew''], ''he''), ([''th'', ''tha'', ''thai''], ''th''),
     ([''vi'', ''vie'', ''vietnamese''], ''vi''), ([''id'', ''ind'', ''indonesian''], ''id''),
     ([''ms'', ''may'', ''msa'', ''malay''], ''ms''), ([''ro'', ''rum'', ''ron'', ''romanian''], ''ro''),
     ([''hu'', ''hun'', ''hungarian''], ''hu''), ([''cs'', ''cze'', ''ces'', ''czech''], ''cs''),
     ([''uk'', ''ukr'', ''ukrainian''], ''uk'')]"

definition normalize_language_code :: "unicode \<Rightarrow> bytes \<Rightarrow> bytes option" where
  "normalize_language_code u code =
     map_option (\<lambda>(_, c). ascii c) (List.find (\<lambda>(names, _). to_lowercase u code \<in> set (map ascii names)) LANGUAGES)"

definition LABELS :: "(string \<times> string) list" where
  "LABELS = [(''en'', ''English''), (''es'', ''Spanish''), (''fr'', ''French''), (''de'', ''German''),
     (''it'', ''Italian''), (''pt'', ''Portuguese''), (''ru'', ''Russian''), (''ja'', ''Japanese''),
     (''ko'', ''Korean''), (''zh'', ''Chinese''), (''ar'', ''Arabic''), (''hi'', ''Hindi''), (''nl'', ''Dutch''),
     (''pl'', ''Polish''), (''sv'', ''Swedish''), (''da'', ''Danish''), (''no'', ''Norwegian''),
     (''fi'', ''Finnish''), (''tr'', ''Turkish''), (''el'', ''Greek''), (''he'', ''Hebrew''), (''th'', ''Thai''),
     (''vi'', ''Vietnamese''), (''id'', ''Indonesian''), (''ms'', ''Malay''), (''ro'', ''Romanian''),
     (''hu'', ''Hungarian''), (''cs'', ''Czech''), (''uk'', ''Ukrainian'')]"

definition language_code_to_label :: "bytes \<Rightarrow> bytes" where
  "language_code_to_label code = (case List.find (\<lambda>(c, _). ascii c = code) LABELS of
       None \<Rightarrow> code | Some (_, l) \<Rightarrow> ascii l)"

definition subtitle_path :: "unicode \<Rightarrow> pathbuf \<Rightarrow> bytes \<Rightarrow> nat \<Rightarrow> subtitle_stream \<Rightarrow> pathbuf" where
  "subtitle_path u output_dir output_stem i stream =
     (let raw_lang = (case ss_language stream of None \<Rightarrow> [] | Some l \<Rightarrow> l);
          sanitized = sanitize_filename u raw_lang;
          lang_suffix = (if sanitized = [] then ascii ''track'' @ dec_nat i else sanitized) in
      path_join output_dir (path_of (output_stem @ ascii ''.'' @ lang_suffix @ ascii ''.vtt'')))"

definition subtitle_entry :: "unicode \<Rightarrow> pathbuf \<Rightarrow> nat \<Rightarrow> subtitle_stream \<Rightarrow> subtitle_track" where
  "subtitle_entry u vtt_path i stream =
     (let language = Option.bind (ss_language stream) (normalize_language_code u) in
      \<lparr>sub_label = (case language of
           Some l \<Rightarrow> language_code_to_label l
         | None \<Rightarrow> (case ss_language stream of Some l \<Rightarrow> l | None \<Rightarrow> ascii ''Track '' @ dec_nat (i + 1))),
       sub_language = language, sub_path = vtt_path, sub_format = ascii ''vtt''\<rparr>)"

text \<open>The loop over the streams from the \<open>i\<close>-th on: the host with the files that were written, and
  the tracks of the streams whose extraction succeeded.\<close>

fun extract_subtitles ::
  "unicode \<Rightarrow> job_env \<Rightarrow> pathbuf \<Rightarrow> bytes \<Rightarrow> nat \<Rightarrow> subtitle_stream list \<Rightarrow> host \<Rightarrow> host \<times> subtitle_track list"
where
  "extract_subtitles u env dir stem i [] h = (h, [])"
| "extract_subtitles u env dir stem i (stream # ss) h =
     (let vtt = subtitle_path u dir stem i stream;
          h1 = write_file vtt (je_subtitle env i) h;
          (h2, tracks) = extract_subtitles u env dir stem (i + 1) ss h1 in
      (h2, if je_subtitle env i \<noteq> None then subtitle_entry u vtt i stream # tracks else tracks))"

section \<open>The runner\<close>

definition MIN_PLAUSIBLE_OUTPUT_BYTES :: u64 where
  "MIN_PLAUSIBLE_OUTPUT_BYTES = 1024 * 1024"

definition reclaim_source :: "uuid \<Rightarrow> pathbuf \<Rightarrow> store \<times> host \<Rightarrow> store \<times> host" where
  "reclaim_source i output = (\<lambda>(s, h).
     if \<not> as_delete_source_after_transcode (get_settings h s) then (s, h)
     else case get_media i s of
         (s1, DbOk (Some e)) \<Rightarrow>
           (case redundant_source e output of
              None \<Rightarrow> (s1, h)
            | Some source \<Rightarrow>
                if size_or_0 h output < MIN_PLAUSIBLE_OUTPUT_BYTES then (s1, h)
                else (case put_media (e\<lparr>me_media_file := output\<rparr>) s1 of
                    (s2, DbErr) \<Rightarrow> (s2, h)
                  | (s2, DbOk _) \<Rightarrow> (s2, fst (remove_files [source] h))))
       | (s1, _) \<Rightarrow> (s1, h))"

definition job_done :: "unicode \<Rightarrow> job_env \<Rightarrow> transcode_job \<Rightarrow> bool \<Rightarrow> store \<times> host \<Rightarrow> store \<times> host" where
  "job_done u env job remux = (\<lambda>(s, h).
     let i = tj_media_id job; output = tj_output_path job;
         dir = (case parent output of None \<Rightarrow> path_of (ascii ''.'') | Some d \<Rightarrow> d);
         stem = (case file_stem output of None \<Rightarrow> ascii ''subs'' | Some n \<Rightarrow> n);
         (h1, tracks) = (case je_probe env of None \<Rightarrow> (h, [])
            | Some p \<Rightarrow> extract_subtitles u env dir stem 0 (pr_subtitle_streams p) h);
         s1 = (if tracks = [] then s else set_media i (\<lambda>e. e\<lparr>me_subtitles := tracks\<rparr>) s);
         s2 = set_transcode (je_now env) i (Ready output) s1;
         s3 = fst (add_version i (tj_preset_name job) output s2);
         s4 = set_media i (\<lambda>e. (if remux then e else e\<lparr>me_video_codec := Some (ascii ''h264'')\<rparr>)
                \<lparr>me_audio_codec := Some (ascii ''aac'')\<rparr>) s3 in
     reclaim_source i output (s4, h1))"

definition job_failed :: "job_env \<Rightarrow> transcode_job \<Rightarrow> bytes \<Rightarrow> store \<times> host \<Rightarrow> store \<times> host" where
  "job_failed env job err = (\<lambda>(s, h).
     (set_transcode (je_now env) (tj_media_id job) (Failed err) s,
      case remove_file (tj_output_path job) h of None \<Rightarrow> h | Some h' \<Rightarrow> h'))"

definition run_job :: "unicode \<Rightarrow> job_env \<Rightarrow> transcode_job \<Rightarrow> store \<times> host \<Rightarrow> store \<times> host" where
  "run_job u env job = (\<lambda>(s, h).
     let i = tj_media_id job in
     if \<not> je_ffmpeg env then (set_transcode (je_now env) i Unavailable s, h)
     else
       let s1 = (case je_probe env of None \<Rightarrow> s
            | Some p \<Rightarrow> set_media i (\<lambda>e. e\<lparr>me_video_codec := Some (pr_video_codec p),
                me_audio_codec := Some (pr_audio_codec p)\<rparr>) s);
           s2 = set_transcode (je_now env) i (Transcoding 0 []) s1;
           h1 = (case parent (tj_output_path job) of None \<Rightarrow> h | Some d \<Rightarrow> create_dir_all d h);
           remux = (can_remux (je_probe env) \<and> tj_preset_name job \<noteq> ascii ''h264'');
           encoder = (if remux then ascii ''remux'' else ascii ''software'');
           s3 = fold (\<lambda>line. progress_line env encoder i line) (je_lines env) s2;
           h2 = write_file (tj_output_path job) (je_output env) h1 in
       case je_error env of
         None \<Rightarrow> job_done u env job remux (s3, h2)
       | Some err \<Rightarrow> job_failed env job err (s3, h2))"

text \<open>
  At start-up every entry that a crash left in transcoding is put back to pending, and the file that
  its \<open>transcoded_path\<close> names is deleted as a partial output.
\<close>

definition recover_one :: "u64 \<Rightarrow> media_entry \<Rightarrow> store \<times> host \<Rightarrow> store \<times> host" where
  "recover_one now e = (\<lambda>(s, h).
     if is_transcoding (me_transcode_state e)
     then (set_transcode now (me_id e) Pending s,
           case me_transcoded_path e of None \<Rightarrow> h
           | Some p \<Rightarrow> (case remove_file p h of None \<Rightarrow> h | Some h' \<Rightarrow> h'))
     else (s, h))"

definition recover_stuck_transcodes :: "u64 \<Rightarrow> store \<times> host \<Rightarrow> store \<times> host" where
  "recover_stuck_transcodes now = (\<lambda>(s, h). case list_media s of
       (s1, DbErr) \<Rightarrow> (s1, h)
     | (s1, DbOk entries) \<Rightarrow> fold (recover_one now) entries (s1, h))"

end
