(* ===== verification/Import.thy ===== *)
theory Import
  imports Transcode
begin

text \<open>
  From files to library entries: finding the videos of a directory tree and the subtitles beside a
  video (\<open>engine/library.rs\<close>), and making entries of the videos of a completed download
  (\<open>engine/manager.rs\<close>) or of a scanned folder (\<open>web/api/library.rs\<close>).
\<close>

section \<open>Videos\<close>

text \<open>What \<open>read_dir\<close> and the tests for directories, files and links see below a directory.\<close>

datatype dir_node = FileNode bytes u64 | DirNode bytes "dir_node list" | LinkNode bytes

definition MIN_VIDEO_SIZE :: u64 where "MIN_VIDEO_SIZE = 1000000"

definition video_extensions :: "bytes list" where
  "video_extensions = map ascii [''mkv'', ''mp4'', ''avi'', ''m4v'', ''mov'', ''wmv'', ''webm'']"

definition wanted_video :: "unicode \<Rightarrow> bytes \<Rightarrow> u64 \<Rightarrow> bool" where
  "wanted_video u n sz \<longleftrightarrow> utf8_valid n \<and> \<not> starts_with n (ascii ''._'')
     \<and> (case snd (split_name n) of None \<Rightarrow> False | Some ext \<Rightarrow> to_lowercase u ext \<in> set video_extensions)
     \<and> MIN_VIDEO_SIZE \<le> sz"

fun collect_video_files :: "unicode \<Rightarrow> pathbuf \<Rightarrow> dir_node list \<Rightarrow> (pathbuf \<times> u64) list" where
  "collect_video_files u dir [] = []"
| "collect_video_files u dir (FileNode n sz # ns) =
     (if wanted_video u n sz then [(dir @ [Normal n], sz)] else []) @ collect_video_files u dir ns"
| "collect_video_files u dir (DirNode n children # ns) =
     collect_video_files u (dir @ [Normal n]) children @ collect_video_files u dir ns"
| "collect_video_files u dir (LinkNode n # ns) = collect_video_files u dir ns"

definition detect_video_files :: "unicode \<Rightarrow> pathbuf \<Rightarrow> dir_node list \<Rightarrow> pathbuf list" where
  "detect_video_files u dir ns = map fst (sort_key (\<lambda>(p, sz). - uint sz) (collect_video_files u dir ns))"

definition is_web_compatible :: "unicode \<Rightarrow> pathbuf \<Rightarrow> bool" where
  "is_web_compatible u p = (case extension p of None \<Rightarrow> False
     | Some ext \<Rightarrow> utf8_valid ext \<and> to_lowercase u ext \<in> set (map ascii [''mp4'', ''m4v'', ''webm'']))"

section \<open>Subtitles beside a video\<close>

definition utf8_or :: "bytes \<Rightarrow> bytes option \<Rightarrow> bytes" where
  "utf8_or d s = (case s of Some n \<Rightarrow> if utf8_valid n then n else d | None \<Rightarrow> d)"

definition subtitle_suffix :: "bytes \<Rightarrow> bytes \<Rightarrow> bytes" where
  "subtitle_suffix sub_stem video_stem = trim_start_by (is_char ''.'') (drop (length video_stem) sub_stem)"

definition parse_subtitle_language :: "unicode \<Rightarrow> bytes \<Rightarrow> bytes \<Rightarrow> bytes option" where
  "parse_subtitle_language u sub_stem video_stem =
     (let suffix = subtitle_suffix sub_stem video_stem in
      if suffix = [] then None else normalize_language_code u (last (split_byte 46 suffix)))"

definition subtitle_of :: "unicode \<Rightarrow> bytes \<Rightarrow> pathbuf \<Rightarrow> subtitle_track option" where
  "subtitle_of u video_stem p =
     (let ext = to_lowercase u (utf8_or [] (extension p)); stem = to_lowercase u (utf8_or [] (file_stem p)) in
      if ext \<notin> set (map ascii [''srt'', ''vtt'', ''ass'', ''ssa'']) \<or> \<not> starts_with stem video_stem then None
      else (let language = parse_subtitle_language u stem video_stem; suffix = subtitle_suffix stem video_stem in
        Some \<lparr>sub_label = (case language of Some l \<Rightarrow> language_code_to_label l
                | None \<Rightarrow> if suffix = [] then ascii ''Unknown'' else suffix),
              sub_language = language, sub_path = p, sub_format = ext\<rparr>))"

text \<open>\<open>ls\<close> gives the regular files of a directory that can be read, \<open>is_dir\<close> its argument's kind.\<close>

definition detect_subtitle_files ::
  "unicode \<Rightarrow> (pathbuf \<Rightarrow> bool) \<Rightarrow> (pathbuf \<Rightarrow> bytes list option) \<Rightarrow> pathbuf \<Rightarrow> subtitle_track list" where
  "detect_subtitle_files u is_dir ls video_path = (case parent video_path of
       None \<Rightarrow> []
     | Some dir \<Rightarrow>
         (let video_stem = to_lowercase u (utf8_or [] (file_stem video_path));
              dirs = dir # filter is_dir (map (\<lambda>n. path_join dir (path_of (ascii n)))
                [''Subs'', ''Subtitles'', ''subs'', ''subtitles'']);
              files = concat (map (\<lambda>d. case ls d of None \<Rightarrow> [] | Some ns \<Rightarrow> map (\<lambda>n. d @ [Normal n]) ns) dirs) in
          sort_key sub_label (List.map_filter (subtitle_of u video_stem) files)))"

section \<open>Grouping\<close>

record video_info =
  vi_path :: pathbuf
  vi_episode :: episode_info
  vi_title :: bytes
  vi_year :: "u16 option"

text \<open>
  The loop over the video files: known files are skipped, and of the films of one directory only the
  first (largest) file is kept. The second result counts what was skipped.
\<close>

fun gather ::
  "unicode \<Rightarrow> bytes \<Rightarrow> pathbuf list \<Rightarrow> pathbuf list \<Rightarrow> pathbuf list \<Rightarrow> (video_info list \<times> nat) run" where
  "gather u fallback existing dirs [] = Done ([], 0)"
| "gather u fallback existing dirs (v # vs) =
     (if v \<in> set existing
      then run_bind (gather u fallback existing dirs vs) (\<lambda>(infos, skipped). Done (infos, skipped + 1))
      else
        let filename = utf8_or fallback (file_stem v) in
        run_bind (parse_episode_info u filename) (\<lambda>episode.
          run_bind (parse_media_title u filename) (\<lambda>(title, year).
            let info = \<lparr>vi_path = v, vi_episode = episode, vi_title = title, vi_year = year\<rparr>;
                dir = (case parent v of None \<Rightarrow> path_of (ascii ''.'') | Some d \<Rightarrow> d) in
            if ei_is_show episode
            then run_bind (gather u fallback existing dirs vs) (\<lambda>(infos, skipped). Done (info # infos, skipped))
            else if dir \<in> set dirs
            then run_bind (gather u fallback existing dirs vs) (\<lambda>(infos, skipped). Done (infos, skipped + 1))
            else run_bind (gather u fallback existing (dir # dirs) vs)
                   (\<lambda>(infos, skipped). Done (info # infos, skipped)))))"

text \<open>Every path that the library already knows.\<close>

definition known_paths :: "media_entry list \<Rightarrow> pathbuf list" where
  "known_paths es = concat (map (\<lambda>e. me_media_file e # map snd (me_versions e)
     @ (case me_transcoded_path e of None \<Rightarrow> [] | Some p \<Rightarrow> [p])) es)"

text \<open>
  What the two importers take from outside: whether ffmpeg is there, the identifiers of new entries
  and new groups, the subtitles found beside a file, the clock.
\<close>

record import_env =
  im_unicode :: unicode
  im_ffmpeg :: bool
  im_media_id :: "pathbuf \<Rightarrow> uuid"
  im_group_id :: "bytes \<Rightarrow> uuid"
  im_subtitles :: "pathbuf \<Rightarrow> subtitle_track list"
  im_size :: "pathbuf \<Rightarrow> u64"
  im_now :: u64

definition first_state :: "import_env \<Rightarrow> pathbuf \<Rightarrow> transcode_state" where
  "first_state env p = (if is_web_compatible (im_unicode env) p then Skipped
     else if im_ffmpeg env then Pending else Unavailable)"

definition fresh_entry ::
  "import_env \<Rightarrow> uuid \<Rightarrow> pathbuf \<Rightarrow> (bytes \<Rightarrow> uuid option) \<Rightarrow> video_info \<Rightarrow> media_entry" where
  "fresh_entry env download_id original_path grp v =
     (let ep = vi_episode v; is_show = ei_is_show ep in
      \<lparr>me_id = im_media_id env (vi_path v),
       me_title = (if is_show then ei_show_name ep else vi_title v),
       me_year = vi_year v,
       me_media_type = (if is_show then Show else MediaUnknown),
       me_original_path = original_path,
       me_media_file = vi_path v,
       me_transcoded_path = None,
       me_transcode_state = first_state env (vi_path v),
       me_transcode_started_at = None,
       me_download_id = download_id,
       me_added_at = im_now env,
       me_file_size = im_size env (vi_path v),
       me_poster_url = None, me_overview = None, me_rating = None, me_cast = [], me_director = None,
       me_video_codec = None, me_audio_codec = None, me_versions = [],
       me_show_name = (if is_show then Some (ei_show_name ep) else None),
       me_season = ei_season ep,
       me_episode = ei_episode ep,
       me_episode_title = ei_episode_title ep,
       me_group_id = (if is_show then grp (ei_show_name ep) else None),
       me_tmdb_id = None,
       me_subtitles = im_subtitles env (vi_path v),
       me_last_played_at = None, me_play_position = None, me_duration = None\<rparr>)"

text \<open>The names of the shows among the videos.\<close>

definition show_names :: "video_info list \<Rightarrow> bytes list" where
  "show_names vs = map (\<lambda>v. ei_show_name (vi_episode v)) (filter (\<lambda>v. ei_is_show (vi_episode v)) vs)"

section \<open>A completed download\<close>

definition auto_jobs :: "unicode \<Rightarrow> app_settings \<Rightarrow> media_entry \<Rightarrow> transcode_job list" where
  "auto_jobs u settings e =
     (if as_auto_transcode settings \<and> me_transcode_state e = Pending
      then [create_job u e (as_default_preset settings) (as_transcode_dir settings)] else [])"

definition import_download ::
  "import_env \<Rightarrow> host \<Rightarrow> bool \<Rightarrow> uuid \<Rightarrow> bytes \<Rightarrow> pathbuf \<Rightarrow> pathbuf list \<Rightarrow> store
    \<Rightarrow> (store \<times> transcode_job list) run" where
  "import_download env h has_runner download_id name download_dir video_files s =
     (let settings = get_settings h s;
          (s1, media) = list_media s;
          existing = known_paths (case media of DbErr \<Rightarrow> [] | DbOk es \<Rightarrow> es) in
      run_bind (gather (im_unicode env) name existing [] video_files) (\<lambda>(infos, _).
        let grp = (\<lambda>n. if n \<in> set (show_names infos) then Some (im_group_id env n) else None);
            entries = map (fresh_entry env download_id download_dir grp) infos in
        Done (fold (\<lambda>e s. fst (put_media e s)) entries s1,
              if has_runner then concat (map (auto_jobs (im_unicode env) settings) entries) else [])))"

section \<open>A scanned folder\<close>

definition existing_entry :: "media_entry list \<Rightarrow> pathbuf \<Rightarrow> media_entry option" where
  "existing_entry es p = map_of (rev (map (\<lambda>e. (me_media_file e, e)) es)) p"

text \<open>The group of a show: that of an entry already in the library for one of the files, or a new one.\<close>

definition scan_group :: "import_env \<Rightarrow> media_entry list \<Rightarrow> video_info list \<Rightarrow> bytes \<Rightarrow> uuid option" where
  "scan_group env es infos n =
     (if n \<in> set (show_names infos)
      then Some (case first_some (\<lambda>v. if ei_is_show (vi_episode v) \<and> ei_show_name (vi_episode v) = n
                    then Option.bind (existing_entry es (vi_path v)) me_group_id else None) infos of
              None \<Rightarrow> im_group_id env n | Some g \<Rightarrow> g)
      else None)"

definition join_orphan :: "(bytes \<Rightarrow> uuid option) \<Rightarrow> video_info \<Rightarrow> media_entry \<Rightarrow> media_entry" where
  "join_orphan grp v e =
     (let ep = vi_episode v in
      e\<lparr>me_group_id := grp (ei_show_name ep), me_show_name := Some (ei_show_name ep),
        me_season := ei_season ep, me_episode := ei_episode ep, me_media_type := Show\<rparr>)"

text \<open>One round of the second loop: the store, the jobs queued and the number of new entries.\<close>

definition scan_one ::
  "import_env \<Rightarrow> host \<Rightarrow> media_entry list \<Rightarrow> (bytes \<Rightarrow> uuid option) \<Rightarrow> pathbuf \<Rightarrow> video_info
    \<Rightarrow> store \<times> transcode_job list \<times> nat \<Rightarrow> store \<times> transcode_job list \<times> nat" where
  "scan_one env h es grp scan_path v = (\<lambda>(s, jobs, added).
     case existing_entry es (vi_path v) of
       Some e \<Rightarrow>
         if ei_is_show (vi_episode v) \<and> me_group_id e = None
         then (fst (put_media (join_orphan grp v e) s), jobs, added) else (s, jobs, added)
     | None \<Rightarrow>
         (let e = fresh_entry env (replicate 16 0)
                (case parent (vi_path v) of None \<Rightarrow> scan_path | Some d \<Rightarrow> d) grp v;
              s1 = fst (put_media e s) in
          (s1, jobs @ auto_jobs (im_unicode env) (get_settings h s1) e, added + 1)))"

datatype api_error = BadRequest | NotFoundErr | Conflict | Internal | Forbidden

definition scan_folder ::
  "import_env \<Rightarrow> host \<Rightarrow> pathbuf \<Rightarrow> (pathbuf \<Rightarrow> dir_node list) \<Rightarrow> store
    \<Rightarrow> (api_error + store \<times> transcode_job list \<times> nat \<times> nat) run" where
  "scan_folder env h requested tree s = (case confine_existing_dir h requested of
       Inl _ \<Rightarrow> Done (Inl BadRequest)
     | Inr scan_path \<Rightarrow>
         (let video_files = detect_video_files (im_unicode env) scan_path (tree scan_path);
              (s1, media) = list_media s;
              es = (case media of DbErr \<Rightarrow> [] | DbOk es \<Rightarrow> es) in
          run_bind (gather (im_unicode env) (ascii ''Unknown'') (known_paths es) [] video_files)
            (\<lambda>(infos, skipped).
              let grp = scan_group env es infos;
                  (s2, jobs, added) = fold (scan_one env h es grp scan_path) infos (s1, [], 0) in
              Done (Inr (s2, jobs, added, skipped)))))"

end
