(* ===== verification/Titles_Correct.thy ===== *)
theory Titles_Correct
  imports Titles
begin

text \<open>
  What the readers of file names guarantee: on ASCII names they return, titles carry no quality tag,
  episode marks are found exactly; file names made of titles stay inside their directory; and the
  names beyond ASCII on which the episode reader panics.
\<close>

section \<open>ASCII names\<close>

lemma lower_from_ascii: "is_ascii s \<Longrightarrow> lower_from u before (chars s) = map ascii_lower s"
  by (induction s arbitrary: before) simp_all

lemma to_lowercase_ascii: "is_ascii s \<Longrightarrow> to_lowercase u s = map ascii_lower s"
  by (simp add: to_lowercase_def lower_from_ascii)

lemma spaced_ascii: "is_ascii s \<Longrightarrow> is_ascii (spaced s)"
  by (auto simp: spaced_def)

lemma find_sub_least: "find_sub p s = Some i \<Longrightarrow> s = a @ p @ z \<Longrightarrow> i \<le> length a"
proof (induction p s arbitrary: i a rule: find_sub.induct)
  case (2 p b bs)
  show ?case
  proof (cases "starts_with (b # bs) p")
    case False
    with "2.prems" obtain c a' where a: "a = c # a'"
      by (cases a) (auto simp: starts_with_def)
    with "2.prems" False obtain j where "find_sub p bs = Some j" "i = Suc j" "bs = a' @ p @ z" by auto
    with "2.IH" False a show ?thesis by auto
  next
    case True
    with "2.prems"(1) show ?thesis by simp
  qed
qed (auto split: if_splits)

lemma cut_at_le: "cut_at pos n \<le> n" "pos = Some p \<Longrightarrow> cut_at pos n \<le> p"
  by (auto simp: cut_at_def split: option.splits)

lemma fold_cut:
  "fold (\<lambda>t. cut_at (f t)) ts n \<le> n"
  "t \<in> set ts \<Longrightarrow> f t = Some p \<Longrightarrow> fold (\<lambda>t. cut_at (f t)) ts n \<le> p"
proof -
  have le: "fold (\<lambda>t. cut_at (f t)) ts n \<le> n" for ts n
    by (induction ts arbitrary: n) (auto intro: order_trans cut_at_le)
  then show "fold (\<lambda>t. cut_at (f t)) ts n \<le> n" .
  show "t \<in> set ts \<Longrightarrow> f t = Some p \<Longrightarrow> fold (\<lambda>t. cut_at (f t)) ts n \<le> p"
    by (induction ts arbitrary: n) (auto intro: order_trans le cut_at_le)
qed

lemma title_cut_le: "title_cut lower s \<le> tag_cut lower (length s)"
  by (auto simp: title_cut_def Let_def split: option.splits)

lemma title_cut_tag:
  assumes "tag \<in> set QUALITY_TAGS" and "find_sub tag lower = Some p"
  shows "title_cut lower s \<le> p"
  using title_cut_le [of lower s] fold_cut(2) [of tag QUALITY_TAGS "\<lambda>t. find_sub t lower", OF assms]
  by (fastforce simp: tag_cut_def intro: order_trans)

lemma title_cut_length: "title_cut lower s \<le> length s"
  using title_cut_le [of lower s] fold_cut(1) [of "\<lambda>t. find_sub t lower" QUALITY_TAGS "length s"]
  by (simp add: tag_cut_def order_trans)

definition part_of :: "bytes \<Rightarrow> bytes \<Rightarrow> bool" where
  "part_of t s \<longleftrightarrow> (\<exists>a z. s = a @ t @ z)"

lemma part_of_trans: "part_of a b \<Longrightarrow> part_of b c \<Longrightarrow> part_of a c"
  unfolding part_of_def by (metis append.assoc)

lemma part_of_refl [simp]: "part_of s s"
  by (auto simp: part_of_def intro: exI [of _ "[]"])

lemma take_part: "part_of (take n s) s"
  unfolding part_of_def by (metis append_Nil append_take_drop_id)

lemma dropWhile_parts:
  "\<exists>a. xs = a @ dropWhile p xs" "\<exists>z. xs = rev (dropWhile p (rev xs)) @ z"
  by (metis takeWhile_dropWhile_id) (metis rev_append rev_rev_ident takeWhile_dropWhile_id)

lemma trim_end_part: "part_of (trim_end_by p s) s"
proof -
  obtain z where "chars s = rev (dropWhile p (rev (chars s))) @ z" using dropWhile_parts(2) by blast
  then have "s = [] @ trim_end_by p s @ concat z"
    by (metis append_Nil concat_append concat_chars trim_end_by_def)
  then show ?thesis unfolding part_of_def by blast
qed

lemma trim_part: "part_of (trim_by p s) s"
proof -
  obtain a where a: "chars s = a @ dropWhile p (chars s)" using dropWhile_parts(1) by blast
  obtain z where "dropWhile p (chars s) = rev (dropWhile p (rev (dropWhile p (chars s)))) @ z"
    using dropWhile_parts(2) by blast
  with a have "s = concat a @ trim_by p s @ concat z"
    by (metis concat_append concat_chars trim_by_def)
  then show ?thesis unfolding part_of_def by blast
qed

lemma tidy_part: "part_of (tidy s) s"
  unfolding tidy_def trim_def using trim_end_part trim_part part_of_trans by blast

lemma part_of_map: "part_of t s \<Longrightarrow> part_of (map f t) (map f s)"
  unfolding part_of_def by (metis map_append)

lemma tags_nonempty: "tag \<in> set QUALITY_TAGS \<Longrightarrow> tag \<noteq> []"
  by (auto simp: QUALITY_TAGS_def ascii_def)

lemma cut_has_no_tag:
  assumes "tag \<in> set QUALITY_TAGS" and "part_of t (take (title_cut (map f s) s) s)"
  shows "\<not> contains_sub (map f t) tag"
proof
  let ?cut = "title_cut (map f s) s"
  assume "contains_sub (map f t) tag"
  then have "part_of tag (map f t)" by (simp add: contains_sub_iff part_of_def)
  then have "part_of tag (map f (take ?cut s))"
    using part_of_trans part_of_map [OF assms(2)] by blast
  then obtain a z where az: "take ?cut (map f s) = a @ tag @ z"
    by (auto simp: part_of_def take_map)
  then have eq: "map f s = a @ tag @ (z @ drop ?cut (map f s))"
    by (metis append.assoc append_take_drop_id)
  then obtain i where i: "find_sub tag (map f s) = Some i"
    using find_sub_exists [of tag a "z @ drop ?cut (map f s)"] unfolding eq [symmetric] by blast
  have "?cut \<le> i" using assms(1) i by (rule title_cut_tag)
  also have "i \<le> length a" using i eq by (rule find_sub_least)
  also have "length a < length (take ?cut (map f s))"
    unfolding az using tags_nonempty [OF assms(1)] by simp
  finally show False by simp
qed

lemma first_some_in: "first_some f xs = Some y \<Longrightarrow> \<exists>x \<in> set xs. f x = Some y"
  by (induction xs) (auto simp: first_some_def map_filter_simps split: option.splits)

lemma year_of_range: "year_of s = Some y \<Longrightarrow> 1900 \<le> y \<and> y \<le> 2099"
  by (auto simp: year_of_def split: option.splits if_splits)

lemma find_year_range: "find_year s = Some y \<Longrightarrow> 1900 \<le> y \<and> y \<le> 2099"
proof -
  have "paren_year s = Some y \<Longrightarrow> 1900 \<le> y \<and> y \<le> 2099"
    by (induction s rule: paren_year.induct) (auto split: if_splits dest: year_of_range)
  then show "find_year s = Some y \<Longrightarrow> 1900 \<le> y \<and> y \<le> 2099"
    by (auto simp: find_year_def word_year_def split: option.splits dest!: first_some_in year_of_range)
qed

lemma parse_media_title_ascii:
  assumes "is_ascii raw"
  shows "parse_media_title u raw =
    (let t = tidy (take (title_cut (map ascii_lower (spaced raw)) (spaced raw)) (spaced raw)) in
     Done (if t = [] then raw else t, map_option of_nat (find_year (spaced raw))))"
  using assms
  by (simp add: parse_media_title_def Let_def str_take_def to_lowercase_ascii spaced_ascii
      char_boundary_ascii title_cut_length)

text \<open>
  A title read from an ASCII name is clean: the reader returns; the title is empty only for an
  empty name; it is the name itself or a contiguous part of the name (dots and underscores read as
  spaces) in which, in any case of letters, none of the quality tags occurs; and a year it reports
  lies between 1900 and 2099.
\<close>

theorem title_clean:
  assumes "is_ascii raw"
  shows "\<exists>t y. parse_media_title u raw = Done (t, y) \<and> (t = [] \<longrightarrow> raw = [])
    \<and> (t = raw \<or> part_of t (spaced raw)
        \<and> (\<forall>tag \<in> set QUALITY_TAGS. \<not> contains_sub (map ascii_lower t) tag))
    \<and> (\<forall>n. y = Some n \<longrightarrow> 1900 \<le> n \<and> n \<le> 2099)"
proof -
  let ?s = "spaced raw"
  let ?t = "take (title_cut (map ascii_lower ?s) ?s) ?s"
  have "part_of (tidy ?t) ?s" using tidy_part take_part part_of_trans by blast
  moreover have "\<not> contains_sub (map ascii_lower (tidy ?t)) tag" if "tag \<in> set QUALITY_TAGS" for tag
    using cut_has_no_tag [OF that tidy_part] .
  moreover have "1900 \<le> (of_nat y :: u16) \<and> of_nat y \<le> (2099 :: u16)" if "find_year ?s = Some y" for y
    using find_year_range [OF that] by (simp add: word_le_nat_alt unat_of_nat)
  ultimately show ?thesis
    by (auto simp: parse_media_title_ascii [OF assms] Let_def)
qed

text \<open>Tables without any character beyond ASCII.\<close>

definition ascii_only :: unicode where
  "ascii_only = \<lparr>uni_alphanumeric = (\<lambda>c. False), uni_lower = (\<lambda>before c after. c)\<rparr>"

theorem title_clean_witness:
  "parse_media_title ascii_only (ascii ''The.Matrix.1999.1080p'') =
     Done (ascii ''The Matrix'', Some 1999)
   \<and> \<not> contains_sub (map ascii_lower (ascii ''The Matrix'')) (ascii ''1080p'')"
proof -
  let ?n = "ascii ''The.Matrix.1999.1080p''"
  have r: "parse_media_title ascii_only ?n = Done (ascii ''The Matrix'', Some 1999)" by code_simp
  have "is_ascii ?n" "ascii ''The Matrix'' \<noteq> ?n" by code_simp+
  then have "\<forall>tag \<in> set QUALITY_TAGS. \<not> contains_sub (map ascii_lower (ascii ''The Matrix'')) tag"
    using title_clean [of ?n ascii_only] r by simp
  moreover have "ascii ''1080p'' \<in> set QUALITY_TAGS" by (simp add: QUALITY_TAGS_def)
  ultimately show ?thesis using r by blast
qed

section \<open>Episodes\<close>

definition episode_mark :: "bytes \<Rightarrow> nat \<Rightarrow> bool" where
  "episode_mark s i \<longleftrightarrow> (\<exists>a d1 d2 e1 z. s = a @ [115, d1, d2, 101, e1] @ z \<and> z \<noteq> [] \<and> length a = i
     \<and> is_ascii_digit d1 \<and> is_ascii_digit d2 \<and> is_ascii_digit e1)"

definition cross_mark :: "bytes \<Rightarrow> nat \<Rightarrow> bool" where
  "cross_mark s i \<longleftrightarrow> (\<exists>a d e1 e2 z. s = a @ [d, 120, e1, e2] @ z \<and> length a = i
     \<and> is_ascii_digit d \<and> is_ascii_digit e1 \<and> is_ascii_digit e2)"

lemma episode_mark_Cons:
  "episode_mark (b # s) (Suc i) \<longleftrightarrow> episode_mark s i"
  "episode_mark s 0 \<longleftrightarrow> (\<exists>b c e f r. s = 115 # b # c # 101 # e # f # r
     \<and> is_ascii_digit b \<and> is_ascii_digit c \<and> is_ascii_digit e)"
  by (auto simp: episode_mark_def neq_Nil_conv Cons_eq_append_conv length_Suc_conv) blast+

lemma episode_markI:
  "s = a @ [115, d1, d2, 101, e1] @ z \<Longrightarrow> z \<noteq> [] \<Longrightarrow> is_ascii_digit d1 \<Longrightarrow> is_ascii_digit d2 \<Longrightarrow>
     is_ascii_digit e1 \<Longrightarrow> episode_mark s (length a)"
  unfolding episode_mark_def by blast

lemma run_bind_Panic [simp]: "run_bind m (\<lambda>_. Panic) = Panic" "run_bind r (\<lambda>(x, y). Panic) = Panic"
  by (cases m, simp, simp) (cases r, auto)

lemma episode_mark_short: "length s < 6 \<Longrightarrow> \<not> episode_mark s i"
  by (auto simp: episode_mark_def neq_Nil_conv)

lemma find_sxxexx_mark: "find_sxxexx s = Some i \<Longrightarrow> episode_mark s i"
  by (induction s arbitrary: i rule: find_sxxexx.induct)
    (auto simp: episode_mark_Cons split: if_splits)

lemma find_sxxexx_None: "find_sxxexx s = None \<Longrightarrow> \<not> episode_mark s i"
proof (induction s arbitrary: i rule: find_sxxexx.induct)
  case (1 a b c d e f rest)
  then show ?case
    by (cases i) (auto simp: episode_mark_Cons split: if_splits)
qed (auto simp: episode_mark_short)

lemma find_sxxexx_first: "find_sxxexx s = Some i \<Longrightarrow> j < i \<Longrightarrow> \<not> episode_mark s j"
proof (induction s arbitrary: i j rule: find_sxxexx.induct)
  case (1 a b c d e f rest)
  then show ?case
    by (cases j) (auto simp: episode_mark_Cons split: if_splits)
qed auto

lemma cross_mark_Cons:
  "cross_mark (b # s) (Suc i) \<longleftrightarrow> cross_mark s i"
  "cross_mark s 0 \<longleftrightarrow> (\<exists>a c d r. s = a # 120 # c # d # r
     \<and> is_ascii_digit a \<and> is_ascii_digit c \<and> is_ascii_digit d)"
  by (auto simp: cross_mark_def Cons_eq_append_conv length_Suc_conv) blast+

lemma cross_mark_short: "length s < 4 \<Longrightarrow> \<not> cross_mark s i"
  by (auto simp: cross_mark_def)

lemma two_digits:
  assumes "is_ascii_digit c" and "is_ascii_digit d"
  shows "parse_u16 [c, d] = Some (10 * (unat c - 48) + (unat d - 48))"
proof -
  have "c \<noteq> 43" using assms(1) by (auto simp: is_ascii_digit_def)
  moreover have "unat c - 48 \<le> 9" "unat d - 48 \<le> 9" using assms by (auto simp: is_ascii_digit_unat)
  ultimately show ?thesis using assms by (simp add: parse_u16_def)
qed

lemma find_nxnn_mark: "find_nxnn s = Some (i, season, ep) \<Longrightarrow> cross_mark s i"
  by (induction s arbitrary: i rule: find_nxnn.induct)
    (auto simp: cross_mark_Cons two_digits split: if_splits)

lemma find_nxnn_None: "find_nxnn s = None \<Longrightarrow> \<not> cross_mark s i"
proof (induction s arbitrary: i rule: find_nxnn.induct)
  case (1 a b c d rest)
  then show ?case
    by (cases i) (auto simp: cross_mark_Cons two_digits split: if_splits)
qed (auto simp: cross_mark_short)

lemma mark_length:
  "episode_mark s i \<Longrightarrow> i + 6 \<le> length s" "cross_mark s i \<Longrightarrow> i + 4 \<le> length s"
  by (auto simp: episode_mark_def cross_mark_def neq_Nil_conv)

lemma ascii_lower_ascii: "b < 0x80 \<Longrightarrow> ascii_lower b < 0x80"
  by (auto simp: ascii_lower_def word_less_nat_alt word_le_nat_alt unat_word_ariths)

lemma is_ascii_lower: "is_ascii s \<Longrightarrow> is_ascii (map ascii_lower s)"
  by (auto simp: ascii_lower_ascii)

lemma part_ascii: "part_of t s \<Longrightarrow> is_ascii s \<Longrightarrow> is_ascii t"
  by (auto simp: part_of_def)

lemma drop_part: "part_of (drop n s) s"
  unfolding part_of_def by (metis append_Nil2 append_take_drop_id)

lemma trim_start_part: "part_of (trim_start_by p s) s"
proof -
  obtain a where "chars s = a @ dropWhile p (chars s)" using dropWhile_parts(1) by blast
  then have "s = concat a @ trim_start_by p s @ []"
    by (metis append_Nil2 concat_append concat_chars trim_start_by_def)
  then show ?thesis unfolding part_of_def by blast
qed

lemma parse_title_returns: "is_ascii s \<Longrightarrow> \<exists>r. parse_media_title u s = Done r"
  by (simp add: parse_media_title_ascii Let_def)

lemma episode_title_returns:
  assumes "is_ascii s"
  shows "\<exists>r. extract_episode_title u s = Done r"
proof -
  let ?t = "trim (trim_start_by (is_char ''-'') (trim s))"
  have "part_of ?t s"
    unfolding trim_def by (meson part_of_trans trim_part trim_start_part)
  then have "is_ascii ?t" using assms by (rule part_ascii)
  then obtain r where "parse_media_title u ?t = Done r" using parse_title_returns by blast
  then show ?thesis by (cases r) (auto simp: extract_episode_title_def Let_def)
qed

lemma mark_digits:
  assumes "episode_mark s i" and "is_ascii s"
  shows "get_u16 1 3 (drop i s) = Some (of_nat (10 * (unat (s ! (i + 1)) - 48) + (unat (s ! (i + 2)) - 48)))"
proof -
  obtain a d1 d2 e1 z where s: "s = a @ [115, d1, d2, 101, e1] @ z" "length a = i" "z \<noteq> []"
    "is_ascii_digit d1" "is_ascii_digit d2"
    using assms(1) by (auto simp: episode_mark_def)
  have dr: "drop i s = 115 # d1 # d2 # 101 # e1 # z" by (simp add: s(1) flip: s(2))
  have "is_ascii (drop i s)" using assms(2) by (auto dest: in_set_dropD)
  then have "char_boundary (drop i s) 1 \<and> char_boundary (drop i s) 3"
    by (simp add: char_boundary_ascii dr)
  then have "str_get 1 3 (drop i s) = Some [d1, d2]"
    by (simp add: str_get_def slice_def dr eval_nat_numeral)
  moreover have "s ! (i + 1) = d1" "s ! (i + 2) = d2"
    using nth_drop [of i s 1] nth_drop [of i s 2] mark_length(1) [OF assms(1)] by (simp_all add: dr)
  ultimately show ?thesis
    using s by (simp add: get_u16_def two_digits)
qed

text \<open>
  Episode marks in ASCII names are found exactly. The reader returns for every ASCII name; it
  calls the file an episode exactly when the name, in any case of letters, contains \<open>SxxEx\<close> followed
  by at least one character, or \<open>NxNN\<close>; and the season is read from the two digits of the first
  such \<open>SxxEx\<close> mark.
\<close>

theorem episode_marks_exact:
  assumes "is_ascii name" and "s = map ascii_lower (spaced name)"
  shows "\<exists>info. parse_episode_info u name = Done info
    \<and> (ei_is_show info \<longleftrightarrow> (\<exists>i. episode_mark s i) \<or> (\<exists>i. cross_mark s i))
    \<and> (\<forall>i. episode_mark s i \<longrightarrow> (\<forall>j < i. \<not> episode_mark s j) \<longrightarrow> ei_season info =
        Some (of_nat (10 * (unat (s ! (i + 1)) - 48) + (unat (s ! (i + 2)) - 48))))"
proof -
  let ?t = "spaced name"
  have at: "is_ascii ?t" using assms(1) by (rule spaced_ascii)
  then have as: "is_ascii s" unfolding assms(2) by (rule is_ascii_lower)
  have low: "to_lowercase u ?t = s" using at by (simp add: to_lowercase_ascii assms(2))
  have len: "length s = length ?t" by (simp add: assms(2))
  have part: "is_ascii (take n ?t)" "is_ascii (drop n ?t)" for n
    using at part_ascii take_part drop_part by blast+
  show ?thesis
  proof (cases "find_sxxexx s")
    case (Some i)
    then have m: "episode_mark s i" by (rule find_sxxexx_mark)
    have le: "i + 6 \<le> length ?t" using mark_length(1) [OF m] len by simp
    let ?raw = "trim (trim_end_by (is_char ''-'') (trim (take i ?t)))"
    have "part_of ?raw (take i ?t)"
      unfolding trim_def by (meson part_of_trans trim_part trim_end_part)
    then have "is_ascii ?raw" using part(1) by (rule part_ascii)
    then obtain n y where n: "parse_media_title u ?raw = Done (n, y)"
      using parse_title_returns by fast
    obtain e where e: "extract_episode_title u (drop (i + 6) ?t) = Done e"
      using episode_title_returns [OF part(2)] by blast
    have b: "char_boundary ?t i" "char_boundary ?t (i + 6)" "char_boundary s i"
      using le len at as by (simp_all add: char_boundary_ascii)
    have "parse_episode_info u name = Done \<lparr>ei_show_name = (if n = [] then ?raw else n),
        ei_season = get_u16 1 3 (drop i s), ei_episode = get_u16 4 6 (drop i s), ei_episode_title = e,
        ei_is_show = True\<rparr>"
      using Some n e b by (simp add: parse_episode_info_def Let_def low str_take_def str_drop_def parse_sxxexx_def)
    moreover have "j = i" if "episode_mark s j" "\<forall>k < j. \<not> episode_mark s k" for j
      using that m find_sxxexx_first [OF Some] by (metis linorder_neqE_nat)
    ultimately show ?thesis using m mark_digits [OF m as] by auto
  next
    case None
    then have no: "\<not> episode_mark s j" for j by (rule find_sxxexx_None)
    show ?thesis
    proof (cases "find_nxnn s")
      case (Some r)
      obtain i season ep where r: "r = (i, season, ep)" by (cases r)
      with Some have m: "cross_mark s i" using find_nxnn_mark by blast
      have le: "i + 4 \<le> length ?t" using mark_length(2) [OF m] len by simp
      obtain e where e: "extract_episode_title u (drop (i + 4) ?t) = Done e"
        using episode_title_returns [OF part(2)] by blast
      have "char_boundary ?t i" "char_boundary ?t (i + 4)"
        using le at by (simp_all add: char_boundary_ascii)
      then show ?thesis
        using None Some r e m no by (auto simp: parse_episode_info_def Let_def low str_take_def str_drop_def)
    next
      case None': None
      then have "\<not> cross_mark s j" for j by (rule find_nxnn_None)
      moreover obtain t y where "parse_media_title u name = Done (t, y)"
        using parse_title_returns [OF assms(1)] by fast
      ultimately show ?thesis
        using None None' no by (simp add: parse_episode_info_def Let_def low)
    qed
  qed
qed

theorem episode_marks_exact_witness:
  "\<exists>info. parse_episode_info ascii_only (ascii ''Dark.S02E05.720p'') = Done info
    \<and> ei_is_show info \<and> ei_season info = Some 2"
proof -
  let ?n = "ascii ''Dark.S02E05.720p''"
  let ?s = "map ascii_lower (spaced ?n)"
  have "is_ascii ?n" by code_simp
  from episode_marks_exact [OF this refl, of ascii_only] obtain info
    where "parse_episode_info ascii_only ?n = Done info"
      "ei_is_show info \<longleftrightarrow> (\<exists>i. episode_mark ?s i) \<or> (\<exists>i. cross_mark ?s i)"
      and season: "\<And>i. episode_mark ?s i \<Longrightarrow> (\<forall>j < i. \<not> episode_mark ?s j) \<Longrightarrow> ei_season info =
        Some (of_nat (10 * (unat (?s ! (i + 1)) - 48) + (unat (?s ! (i + 2)) - 48)))"
    by blast
  moreover have f: "find_sxxexx ?s = Some 5" by code_simp
  moreover have "(of_nat (10 * (unat (?s ! (5 + 1)) - 48) + (unat (?s ! (5 + 2)) - 48)) :: u16) = 2" by code_simp
  ultimately show ?thesis
    using find_sxxexx_mark [OF f] find_sxxexx_first [OF f] by metis
qed

lemma chars_append_ascii: "is_ascii s \<Longrightarrow> chars (s @ t) = map (\<lambda>b. [b]) s @ chars t"
  by (induction s) simp_all

lemma lower_from_append_ascii:
  "is_ascii s \<Longrightarrow> lower_from u before (map (\<lambda>b. [b]) s @ cs) = map ascii_lower s @ lower_from u (before @ s) cs"
  by (induction s arbitrary: before) simp_all

lemma find_sxxexx_at:
  assumes "\<forall>i < length p. \<not> episode_mark (p @ ascii ''s01e1'') i" and "z \<noteq> []"
  shows "find_sxxexx (p @ ascii ''s01e1'' @ z) = Some (length p)"
proof -
  have at: "episode_mark (p @ ascii ''s01e1'' @ z) (length p)"
    by (rule episode_markI [of _ _ 48 49 49 z]) (simp_all add: ascii_def is_ascii_digit_def assms(2))
  show ?thesis
proof (cases "find_sxxexx (p @ ascii ''s01e1'' @ z)")
  case None
  with at find_sxxexx_None [OF None] show ?thesis by blast
next
  case (Some i)
  have "i < length p \<Longrightarrow> False"
  proof -
    assume i: "i < length p"
    obtain a d1 d2 e1 w where w: "p @ ascii ''s01e1'' @ z = a @ [115, d1, d2, 101, e1] @ w" "w \<noteq> []"
      "length a = i" "is_ascii_digit d1" "is_ascii_digit d2" "is_ascii_digit e1"
      using find_sxxexx_mark [OF Some] by (auto simp: episode_mark_def)
    have "p @ ascii ''s01e1'' = take (length p + 5) (p @ ascii ''s01e1'' @ z)" by (simp add: ascii_def)
    also have "\<dots> = a @ [115, d1, d2, 101, e1] @ take (length p - i) w"
      unfolding w(1) using w(3) i by (simp add: take_Cons' numeral_eq_Suc)
    finally have "episode_mark (p @ ascii ''s01e1'') i"
      using episode_markI [of _ a d1 d2 e1 "take (length p - i) w"] w(2-6) i by auto
    then show False using assms(1) i by blast
  qed
  then show ?thesis
    using Some find_sxxexx_first [OF Some, of "length p"] at by (metis linorder_neqE_nat)
qed
qed

text \<open>
  Beyond ASCII the reader of episode names can panic: after \<open>SxxEx\<close> it skips six bytes, so a
  name in which a one-digit episode number is followed by a character of two bytes is cut inside that
  character, and the import of the downloaded or scanned file dies with it.
\<close>

theorem episode_name_panics:
  assumes "is_ascii title" and "\<forall>i < length title. \<not> episode_mark (map ascii_lower (spaced title) @ ascii ''s01e1'') i"
    and "0xC2 \<le> b1" and "b1 < 0xE0" and "utf8_cont b2"
    and "uni_lower u (spaced title @ ascii ''S01E1'') [b1, b2] [] \<noteq> []"
  shows "parse_episode_info u (title @ ascii ''S01E1'' @ [b1, b2]) = Panic"
proof -
  let ?p = "spaced title @ ascii ''S01E1''"
  let ?low = "uni_lower u ?p [b1, b2] []"
  have width: "utf8_width b1 = 2" using assms(3,4) by (auto simp: utf8_width_def word_less_nat_alt word_le_nat_alt)
  have "b1 \<noteq> 46 \<and> b1 \<noteq> 95 \<and> b2 \<noteq> 46 \<and> b2 \<noteq> 95"
    using assms(3,5) by (auto simp: utf8_cont_def)
  then have sp: "spaced (title @ ascii ''S01E1'' @ [b1, b2]) = ?p @ [b1, b2]"
    by (simp add: spaced_def ascii_def)
  have ap: "is_ascii ?p" using spaced_ascii [OF assms(1)] by (auto simp: ascii_def)
  have "to_lowercase u (?p @ [b1, b2]) = map ascii_lower ?p @ ?low"
    unfolding to_lowercase_def chars_append_ascii [OF ap]
    by (simp add: width lower_from_append_ascii [OF ap] del: map_append)
  then have low: "to_lowercase u (?p @ [b1, b2]) = map ascii_lower (spaced title) @ ascii ''s01e1'' @ ?low"
    by (simp add: ascii_def ascii_lower_def)
  have "length (map ascii_lower (spaced title)) = length title" by (simp add: spaced_def)
  then have found: "find_sxxexx (to_lowercase u (?p @ [b1, b2])) = Some (length title)"
    unfolding low using find_sxxexx_at [of "map ascii_lower (spaced title)" ?low] assms(2,6) by simp
  have "\<not> char_boundary (spaced title @ ascii ''S01E1'' @ [b1, b2]) (length title + 6)"
    using assms(5) by (simp add: char_boundary_def spaced_def ascii_def nth_append)
  then show ?thesis
    by (simp add: parse_episode_info_def Let_def sp found [unfolded append_assoc] str_drop_def split_beta)
qed

theorem episode_name_panics_witness:
  "parse_episode_info ascii_only (ascii ''Dark.'' @ ascii ''S01E1'' @ [0xC3, 0xA9]) = Panic"
proof (rule episode_name_panics)
  have "map ascii_lower (spaced (ascii ''Dark.'')) @ ascii ''s01e1'' = ascii ''dark s01e1''" by code_simp
  moreover have "find_sxxexx (ascii ''dark s01e1'') = None" by code_simp
  ultimately show "\<forall>i < length (ascii ''Dark.''). \<not> episode_mark (map ascii_lower (spaced (ascii ''Dark.'')) @ ascii ''s01e1'') i"
    using find_sxxexx_None by simp
  show "is_ascii (ascii ''Dark.'')" by code_simp
qed (simp_all add: utf8_cont_def ascii_only_def)

end
