(* ===== verification/Transcode_Correct.thy ===== *)
theory Transcode_Correct
  imports Transcode Titles_Correct
begin

text \<open>
  The transcode state machine of an entry, the files a job may touch, and what a job does to the media
  of its entry: a job never loses the only copy as long as it does not write where it reads, and it
  does lose it otherwise.
\<close>

section \<open>The state machine\<close>

inductive transcode_edge :: "transcode_state \<Rightarrow> transcode_state \<Rightarrow> bool" where
  start: "\<not> is_transcoding old \<Longrightarrow> transcode_edge old (Transcoding p coder)"
| progress: "coder' \<noteq> [] \<or> coder = [] \<Longrightarrow> transcode_edge (Transcoding p coder) (Transcoding p' coder')"
| complete: "transcode_edge (Transcoding p coder) (Ready output)"
| fail: "transcode_edge (Transcoding p coder) (Failed err)"
| no_ffmpeg: "transcode_edge Pending Unavailable"
| reset: "transcode_edge old Pending"

inductive_cases transcode_to_ready: "transcode_edge old (Ready p)"
inductive_simps transcode_edge_simps [simp]:
  "transcode_edge old Skipped" "transcode_edge old (Ready p)" "transcode_edge old (Failed m)"
  "transcode_edge old Unavailable" "transcode_edge old Pending"

text \<open>The time stamp and the output path of an entry agree with its state.\<close>

fun entry_ok :: "media_entry \<Rightarrow> bool" where
  "entry_ok e = (case me_transcode_state e of
       Transcoding _ _ \<Rightarrow> me_transcode_started_at e \<noteq> None
     | Ready p \<Rightarrow> me_transcode_started_at e \<noteq> None \<and> me_transcoded_path e = Some p
     | Failed _ \<Rightarrow> me_transcode_started_at e \<noteq> None
     | Pending \<Rightarrow> me_transcode_started_at e = None
     | Unavailable \<Rightarrow> me_transcode_started_at e = None
     | Skipped \<Rightarrow> True)"

text \<open>What a transition leaves alone.\<close>

definition same_media :: "media_entry \<Rightarrow> media_entry \<Rightarrow> bool" where
  "same_media e e' \<longleftrightarrow> me_id e' = me_id e \<and> me_media_file e' = me_media_file e
     \<and> me_versions e' = me_versions e \<and> me_title e' = me_title e \<and> me_season e' = me_season e
     \<and> me_episode e' = me_episode e"

lemma transition_edge:
  "transition now new e = Some e' \<Longrightarrow> transcode_edge (me_transcode_state e) (me_transcode_state e')"
  by (cases new; cases "me_transcode_state e"; clarsimp split: if_splits) (auto intro: start progress)

lemma transition_same: "transition now new e = Some e' \<Longrightarrow> same_media e e'"
  by (cases new; cases "me_transcode_state e"; clarsimp simp: same_media_def split: if_splits)

lemma transition_ok: "transition now new e = Some e' \<Longrightarrow> entry_ok e \<Longrightarrow> entry_ok e'"
  by (cases new; cases "me_transcode_state e"; clarsimp split: if_splits)

lemma transition_complete:
  assumes "transcode_edge (me_transcode_state e) st" and "st \<noteq> me_transcode_state e"
  shows "\<exists>e'. transition now st e = Some e' \<and> me_transcode_state e' = st"
  using assms
proof (cases rule: transcode_edge.cases)
  case (start p coder)
  then show ?thesis by (cases "me_transcode_state e") simp_all
qed (auto split: transcode_state.splits)

text \<open>Requests one after the other on one entry; an ignored one leaves the entry alone.\<close>

fun transitions :: "(u64 \<times> transcode_state) list \<Rightarrow> media_entry \<Rightarrow> media_entry" where
  "transitions [] e = e"
| "transitions ((now, st) # rs) e =
     transitions rs (case transition now st e of None \<Rightarrow> e | Some e' \<Rightarrow> e')"

lemma transitions_append: "transitions (rs @ qs) e = transitions qs (transitions rs e)"
  by (induction rs e rule: transitions.induct) auto

lemma transitions_inv: "entry_ok e \<Longrightarrow> entry_ok (transitions rs e) \<and> same_media e (transitions rs e)"
proof (induction rs e rule: transitions.induct)
  case (2 now st rs e)
  then show ?case
    using transition_ok [of now st e] transition_same [of now st e]
    by (cases "transition now st e") (auto simp: same_media_def simp del: entry_ok.simps)
qed (simp add: same_media_def)

text \<open>
  The transcode state machine. Whatever transitions are asked for, in any order and from any
  source, an entry moves only along the edges start, progress, complete, fail, no-ffmpeg and reset,
  and every other request is ignored; its time stamp is set exactly while a transcode has been
  started and not reset, and a finished state names the recorded output. Every edge can be taken.
\<close>

theorem transcode_state_machine:
  assumes "entry_ok e" and "a = transitions rs e"
  shows "entry_ok a \<and> same_media e a
    \<and> (let b = transitions [(now, st)] a in
        (b = a \<or> transcode_edge (me_transcode_state a) (me_transcode_state b))
        \<and> (transcode_edge (me_transcode_state a) st \<longrightarrow> st \<noteq> me_transcode_state a \<longrightarrow> me_transcode_state b = st))"
proof -
  have "entry_ok a \<and> same_media e a" using transitions_inv [OF assms(1)] assms(2) by blast
  moreover have "b = a \<or> transcode_edge (me_transcode_state a) (me_transcode_state b)"
    if "b = transitions [(now, st)] a" for b
    using that transition_edge [of now st a] by (cases "transition now st a") simp_all
  moreover have "me_transcode_state (transitions [(now, st)] a) = st"
    if "transcode_edge (me_transcode_state a) st" "st \<noteq> me_transcode_state a"
    using transition_complete [OF that, of now] by auto
  ultimately show ?thesis by (simp add: Let_def del: transitions.simps)
qed

theorem transcode_state_machine_witness:
  "me_transcode_state (transitions [(7, Transcoding 0 []), (8, Ready [RootDir]), (9, Failed [])] example_entry) = Ready [RootDir]
   \<and> entry_ok (transitions [(7, Transcoding 0 []), (8, Ready [RootDir]), (9, Failed [])] example_entry)"
proof -
  have "entry_ok example_entry" by (simp add: example_entry_def)
  from transcode_state_machine [OF this refl, of _ 7 "Transcoding 0 []"] show ?thesis
    using transcode_state_machine [OF \<open>entry_ok example_entry\<close> refl, of "[(7, Transcoding 0 []), (8, Ready [RootDir]), (9, Failed [])]"]
    by (simp add: example_entry_def del: entry_ok.simps)
qed

section \<open>One entry of the store\<close>

definition entry_of :: "store \<Rightarrow> uuid \<Rightarrow> media_entry option" where
  "entry_of s i = (case map_of (db_library s) i of Some (Valid e) \<Rightarrow> Some e | _ \<Rightarrow> None)"

definition holds_entry :: "store \<Rightarrow> uuid \<Rightarrow> media_entry \<Rightarrow> bool" where
  "holds_entry s i e \<longleftrightarrow> db_ok s \<and> entry_of s i = Some e \<and> me_id e = i"

text \<open>An update of one entry that succeeds and touches nothing else of the store.\<close>

definition media_step :: "uuid \<Rightarrow> media_entry \<Rightarrow> store \<Rightarrow> media_entry \<Rightarrow> store \<Rightarrow> bool" where
  "media_step i e s e' s' \<longleftrightarrow> holds_entry s i e \<and> holds_entry s' i e'
     \<and> (\<forall>j. j \<noteq> i \<longrightarrow> entry_of s' j = entry_of s j) \<and> db_settings s' = db_settings s"

lemma media_step_refl: "holds_entry s i e \<Longrightarrow> media_step i e s e s"
  by (simp add: media_step_def)

lemma media_step_trans: "media_step i e s e1 s1 \<Longrightarrow> media_step i e1 s1 e2 s2 \<Longrightarrow> media_step i e s e2 s2"
  by (auto simp: media_step_def)

lemma get_media_entry: "holds_entry s i e \<Longrightarrow> get_media i s = (s, DbOk (Some e))"
  by (auto simp: holds_entry_def entry_of_def get_media_def split: option.splits stored.splits)

lemma put_media_step:
  assumes "holds_entry s i e" and "me_id e' = i"
  shows "\<exists>s'. put_media e' s = (s', DbOk ()) \<and> media_step i e s e' s'"
  using assms by (auto simp: put_media_def holds_entry_def media_step_def entry_of_def)

lemma update_media_step:
  assumes "holds_entry s i e" and "\<And>e'. f e = Some e' \<Longrightarrow> me_id e' = i"
  shows "media_step i e s (case f e of None \<Rightarrow> e | Some e' \<Rightarrow> e') (fst (update_media i f s))"
proof (cases "f e")
  case None
  then show ?thesis using assms(1) by (simp add: update_media_def get_media_entry media_step_refl)
next
  case (Some e')
  from put_media_step [OF assms(1) assms(2) [OF Some]] obtain s'
    where "put_media e' s = (s', DbOk ())" "media_step i e s e' s'" by blast
  with Some assms(1) show ?thesis by (simp add: update_media_def get_media_entry)
qed

section \<open>What a job leaves alone\<close>

text \<open>An update that keeps the media file of the entry.\<close>

definition quiet :: "uuid \<Rightarrow> store \<Rightarrow> store \<Rightarrow> bool" where
  "quiet i s s' \<longleftrightarrow> (\<forall>e. holds_entry s i e \<longrightarrow>
     (\<exists>e'. media_step i e s e' s' \<and> me_media_file e' = me_media_file e))"

named_theorems quiet_intros

lemma quiet_refl [quiet_intros]: "quiet i s s"
  by (auto simp: quiet_def intro: media_step_refl)

lemma quiet_trans: "quiet i s s1 \<Longrightarrow> quiet i s1 s2 \<Longrightarrow> quiet i s s2"
  unfolding quiet_def by (metis media_step_def media_step_trans)

lemma quiet_update:
  assumes "\<And>e e'. me_id e = i \<Longrightarrow> f e = Some e' \<Longrightarrow> me_id e' = i \<and> me_media_file e' = me_media_file e"
  shows "quiet i s (fst (update_media i f s))"
  unfolding quiet_def
proof (intro allI impI)
  fix e assume e: "holds_entry s i e"
  then have "me_id e = i" by (simp add: holds_entry_def)
  with assms have "f e = Some e' \<Longrightarrow> me_id e' = i \<and> me_media_file e' = me_media_file e" for e' by blast
  then show "\<exists>e'. media_step i e s e' (fst (update_media i f s)) \<and> me_media_file e' = me_media_file e"
    using update_media_step [OF e, of f] by (cases "f e") auto
qed

lemma quiet_transcode [quiet_intros]: "quiet i s (set_transcode now i st s)"
  unfolding set_transcode_def update_transcode_state_def
  by (rule quiet_update) (use transition_same in \<open>fastforce simp: same_media_def\<close>)

lemma quiet_set_media:
  "(\<And>e. me_id (f e) = me_id e \<and> me_media_file (f e) = me_media_file e) \<Longrightarrow> quiet i s (set_media i f s)"
  unfolding set_media_def by (rule quiet_update) auto

lemma quiet_add_version [quiet_intros]: "quiet i s (fst (add_version i preset output s))"
  unfolding add_version_def by (rule quiet_update) auto

lemma quiet_progress: "quiet i s (fold (progress_line env coder i) ls s)"
proof (induction ls arbitrary: s)
  case (Cons l ls)
  have "quiet i s (progress_line env coder i l s)"
    by (auto simp: progress_line_def intro: quiet_intros split: option.splits)
  with Cons show ?case by (simp add: quiet_trans)
qed (simp add: quiet_refl)

lemma is_file_write [simp]: "is_file (write_file p n h) q \<longleftrightarrow> is_file h q \<or> (q = p \<and> n \<noteq> None)"
  by (cases n) (auto simp: write_file_def is_file_def)

lemma is_file_mkdirs [simp]: "is_file (create_dir_all d h) q \<longleftrightarrow> is_file h q"
  by (simp add: create_dir_all_def is_file_def)

lemma extract_keeps_files:
  "is_file h q \<Longrightarrow> is_file (fst (extract_subtitles u env dir stem i ss h)) q"
  by (induction ss arbitrary: i h) (simp_all add: Let_def split_beta)

lemma confine_same: "confine h p = Inr q \<Longrightarrow> q = p"
  by (auto simp: confine_def split: if_splits option.splits)

lemma remove_one_file:
  "is_file h q \<Longrightarrow> q \<noteq> p \<Longrightarrow> is_file (fst (remove_files [p] h)) q"
  by (auto simp: remove_files_def remove_one_def remove_file_def is_file_def Let_def dest: confine_same
      split: sum.splits option.splits)

lemma big_file: "MIN_PLAUSIBLE_OUTPUT_BYTES \<le> size_or_0 h p \<Longrightarrow> is_file h p"
  by (auto simp: size_or_0_def is_file_def MIN_PLAUSIBLE_OUTPUT_BYTES_def split: option.splits)

text \<open>After a reclaim the entry still names a file that exists, and every other file but the source
  is still there.\<close>

lemma reclaim_keeps:
  assumes "holds_entry s i e" and "reclaim_source i output (s, h) = (s', h')"
    and "is_file h (me_media_file e)"
  shows "\<exists>e'. media_step i e s e' s' \<and> is_file h' (me_media_file e')
    \<and> (me_media_file e' = me_media_file e
      \<or> me_media_file e' = output \<and> MIN_PLAUSIBLE_OUTPUT_BYTES \<le> size_or_0 h output)
    \<and> (\<forall>q. is_file h q \<longrightarrow> q \<noteq> me_media_file e \<longrightarrow> is_file h' q)"
proof (cases "as_delete_source_after_transcode (get_settings h s) \<and> redundant_source e output \<noteq> None
    \<and> MIN_PLAUSIBLE_OUTPUT_BYTES \<le> size_or_0 h output")
  case True
  then have src: "redundant_source e output = Some (me_media_file e)" and ne: "me_media_file e \<noteq> output"
    by (auto simp: redundant_source_def Let_def split: if_splits)
  have "me_id (e\<lparr>me_media_file := output\<rparr>) = i" using assms(1) by (simp add: holds_entry_def)
  from put_media_step [OF assms(1) this] obtain s2
    where put: "put_media (e\<lparr>me_media_file := output\<rparr>) s = (s2, DbOk ())"
      and step: "media_step i e s (e\<lparr>me_media_file := output\<rparr>) s2" by blast
  have eq: "s' = s2" "h' = fst (remove_files [me_media_file e] h)"
    using assms(1,2) True src put by (auto simp: reclaim_source_def get_media_entry simp flip: not_le)
  have "is_file h output" using True big_file by blast
  then show ?thesis
    using True ne step by (intro exI [of _ "e\<lparr>me_media_file := output\<rparr>"]) (auto simp: eq remove_one_file)
next
  case False
  then have "s' = s \<and> h' = h"
    using assms(1,2) by (auto simp: reclaim_source_def get_media_entry not_le split: option.splits if_splits)
  then show ?thesis using assms(1,3) by (auto intro: media_step_refl)
qed

lemma quiet_subtitles: "quiet i s (if tracks = [] then s else set_media i (\<lambda>e. e\<lparr>me_subtitles := tracks\<rparr>) s)"
  by (auto intro: quiet_refl quiet_set_media)

lemma quiet_codecs:
  "quiet i s (set_media i (\<lambda>e. (if remux then e else e\<lparr>me_video_codec := v\<rparr>)\<lparr>me_audio_codec := a\<rparr>) s)"
  by (rule quiet_set_media) simp

text \<open>The store and the host just before a successful job reclaims its source.\<close>

lemma job_done_reclaims:
  "\<exists>s4 h1. job_done u env job remux (s, h) = reclaim_source (tj_media_id job) (tj_output_path job) (s4, h1)
    \<and> quiet (tj_media_id job) s s4 \<and> (\<forall>q. is_file h q \<longrightarrow> is_file h1 q)"
proof -
  let ?i = "tj_media_id job"
  obtain h1 tracks where x: "(case je_probe env of None \<Rightarrow> (h, [])
      | Some p \<Rightarrow> extract_subtitles u env
          (case parent (tj_output_path job) of None \<Rightarrow> path_of (ascii ''.'') | Some d \<Rightarrow> d)
          (case file_stem (tj_output_path job) of None \<Rightarrow> ascii ''subs'' | Some n \<Rightarrow> n)
          0 (pr_subtitle_streams p) h) = (h1, tracks)"
    by (metis surj_pair)
  have files: "\<forall>q. is_file h q \<longrightarrow> is_file h1 q"
  proof (cases "je_probe env")
    case (Some p)
    with x show ?thesis using extract_keeps_files by (metis fst_conv option.simps(5))
  qed (use x in auto)
  show ?thesis
    unfolding job_done_def Let_def x split_conv prod.case
    by (intro exI conjI; rule refl files
        quiet_trans [OF quiet_trans [OF quiet_trans [OF quiet_subtitles quiet_transcode] quiet_add_version] quiet_codecs])
qed

text \<open>The store when ffmpeg has ended.\<close>

lemma run_job_steps:
  assumes "je_ffmpeg env"
  shows "\<exists>s3 h2 remux. quiet (tj_media_id job) s s3 \<and> (\<forall>q. is_file h q \<longrightarrow> is_file h2 q) \<and> h_stuck h2 = h_stuck h
    \<and> run_job u env job (s, h) = (case je_error env of
        None \<Rightarrow> job_done u env job remux (s3, h2) | Some err \<Rightarrow> job_failed env job err (s3, h2))"
proof -
  let ?i = "tj_media_id job"
  have probe: "quiet ?i s (case je_probe env of None \<Rightarrow> s | Some p \<Rightarrow> set_media ?i
      (\<lambda>e. e\<lparr>me_video_codec := Some (pr_video_codec p), me_audio_codec := Some (pr_audio_codec p)\<rparr>) s)"
    by (auto intro: quiet_intros quiet_set_media split: option.splits)
  note q = quiet_trans [OF quiet_trans [OF probe quiet_transcode] quiet_progress]
  show ?thesis
    unfolding run_job_def Let_def split_conv prod.case using assms
    by (simp only: not_True_eq_False if_False)
      (intro exI conjI, rule q, auto simp: write_file_def create_dir_all_def is_file_def split: option.splits)
qed

section \<open>Jobs and the only copy\<close>

lemma remove_file_other:
  "is_file h q \<Longrightarrow> q \<noteq> p \<Longrightarrow> is_file (case remove_file p h of None \<Rightarrow> h | Some h' \<Rightarrow> h') q"
  by (auto simp: remove_file_def is_file_def split: option.splits if_splits)

lemma job_end_keeps:
  assumes "media_step i e s e3 s3" and "me_media_file e3 = me_media_file e" and "\<forall>q. is_file h q \<longrightarrow> is_file h2 q"
    and "is_file h (me_media_file e)" and "tj_media_id job = i" and "me_media_file e \<noteq> tj_output_path job"
    and "(case je_error env of None \<Rightarrow> job_done u env job remux (s3, h2)
        | Some err \<Rightarrow> job_failed env job err (s3, h2)) = (s', h')"
  shows "\<exists>e'. media_step i e s e' s' \<and> is_file h' (me_media_file e')
    \<and> (me_media_file e' = me_media_file e \<or> me_media_file e' = tj_output_path job \<and> je_error env = None)
    \<and> (\<forall>q. is_file h q \<longrightarrow> q \<notin> {me_media_file e, tj_output_path job} \<longrightarrow> is_file h' q)"
proof (cases "je_error env")
  case None
  obtain s4 h1
    where rec: "reclaim_source i (tj_output_path job) (s4, h1) = (s', h')"
      and q4: "quiet i s3 s4" and f1: "\<forall>q. is_file h2 q \<longrightarrow> is_file h1 q"
    using job_done_reclaims [of u env job remux s3 h2] assms(5,7) None by auto
  obtain e4 where e4: "media_step i e3 s3 e4 s4" "me_media_file e4 = me_media_file e3"
    using q4 assms(1) by (auto simp: quiet_def media_step_def)
  have "holds_entry s4 i e4" "is_file h1 (me_media_file e4)"
    using e4 assms(1,2) assms(3) f1 assms(4) by (auto simp: media_step_def)
  from reclaim_keeps [OF this(1) rec this(2)] obtain e'
    where "media_step i e4 s4 e' s'" "is_file h' (me_media_file e')"
      "me_media_file e' = me_media_file e4 \<or> me_media_file e' = tj_output_path job"
      "\<forall>q. is_file h1 q \<longrightarrow> q \<noteq> me_media_file e4 \<longrightarrow> is_file h' q"
    by blast
  moreover from this(1) have "media_step i e s e' s'"
    using media_step_trans [OF media_step_trans [OF assms(1) e4(1)]] by blast
  ultimately show ?thesis using assms(2) e4(2) assms(3) f1 None by auto
next
  case (Some err)
  then have r: "s' = set_transcode (je_now env) i (Failed err) s3"
    "h' = (case remove_file (tj_output_path job) h2 of None \<Rightarrow> h2 | Some h' \<Rightarrow> h')"
    using assms(5,7) Some by (simp_all add: job_failed_def)
  obtain e' where "media_step i e3 s3 e' s'" "me_media_file e' = me_media_file e3"
    using quiet_transcode [of i s3] assms(1) unfolding r(1) quiet_def media_step_def by blast
  moreover from this(1) have "media_step i e s e' s'" using media_step_trans [OF assms(1)] by blast
  ultimately show ?thesis
    using assms(2-4,6) remove_file_other unfolding r(2) by (metis insertI1 insertI2)
qed

text \<open>
  C28. A job never loses the media of its entry, as long as it does not write to the file it reads.
  Whatever ffmpeg does, prints, writes or fails with, and whichever way the job ends, afterwards the
  entry names an existing file: its old one or, after a success, the output. Entries of other titles
  are untouched, and their files exist as before unless they share the source or the output.
\<close>

theorem job_keeps_media:
  assumes "holds_entry s i e" and "tj_media_id job = i" and "is_file h (me_media_file e)"
    and "me_media_file e \<noteq> tj_output_path job" and "run_job u env job (s, h) = (s', h')"
  shows "\<exists>e'. entry_of s' i = Some e' \<and> is_file h' (me_media_file e')
    \<and> (me_media_file e' = me_media_file e
        \<or> me_media_file e' = tj_output_path job \<and> je_error env = None)
    \<and> (\<forall>j e2. j \<noteq> i \<longrightarrow> entry_of s j = Some e2 \<longrightarrow> entry_of s' j = Some e2
        \<and> (is_file h (me_media_file e2) \<longrightarrow> me_media_file e2 \<notin> {me_media_file e, tj_output_path job}
            \<longrightarrow> is_file h' (me_media_file e2)))"
proof (cases "je_ffmpeg env")
  case False
  then have "s' = set_transcode (je_now env) i Unavailable s" "h' = h"
    using assms(2,5) by (simp_all add: run_job_def Let_def)
  then show ?thesis
    using quiet_transcode [of i s] assms(1,3) unfolding quiet_def media_step_def holds_entry_def by metis
next
  case True
  from run_job_steps [OF this, of job s h u] obtain s3 h2 remux
    where q: "quiet i s s3" and files: "\<forall>q. is_file h q \<longrightarrow> is_file h2 q"
      and run: "(case je_error env of None \<Rightarrow> job_done u env job remux (s3, h2)
        | Some err \<Rightarrow> job_failed env job err (s3, h2)) = (s', h')"
    using assms(2,5) by auto
  obtain e3 where e3: "media_step i e s e3 s3" "me_media_file e3 = me_media_file e"
    using q assms(1) by (auto simp: quiet_def)
  from job_end_keeps [OF e3 files assms(3,2,4) run] show ?thesis
    unfolding media_step_def holds_entry_def by (metis option.inject)
qed

definition example_env_job :: job_env where
  "example_env_job = \<lparr>je_ffmpeg = True, je_probe = None, je_lines = [ascii ''out_time_us=5''],
     je_percent = (\<lambda>t. 0), je_error = None, je_output = Some 3000000, je_subtitle = (\<lambda>i. None), je_now = 7\<rparr>"

definition home_u :: pathbuf where
  "home_u = [RootDir, Normal (ascii ''home''), Normal (ascii ''u'')]"

definition example_store :: "media_entry \<Rightarrow> store" where
  "example_store e = \<lparr>db_downloads = [], db_library = [(me_id e, Valid e)], db_settings = None, db_ok = True\<rparr>"

lemma example_holds: "holds_entry (example_store e) (me_id e) e"
  by (simp add: holds_entry_def example_store_def entry_of_def)

lemma example_job_output: "tj_output_path (create_job ascii_only example_entry p home_u) = home_u @ [Normal (ascii ''a.mp4'')]"
proof -
  have "job_file_name ascii_only example_entry = ascii ''a.mp4''" by code_simp
  moreover have "path_join home_u (path_of (ascii ''a.mp4'')) = home_u @ [Normal (ascii ''a.mp4'')]" by code_simp
  ultimately show ?thesis by (simp add: create_job_def)
qed

theorem job_keeps_media_witness:
  "case run_job ascii_only example_env_job (create_job ascii_only example_entry (ascii ''hevc'') home_u)
     (example_store example_entry, example_host) of (s', h') \<Rightarrow>
     (case entry_of s' (me_id example_entry) of None \<Rightarrow> False | Some e' \<Rightarrow> is_file h' (me_media_file e'))"
proof -
  let ?job = "create_job ascii_only example_entry (ascii ''hevc'') home_u"
  have "is_file example_host (me_media_file example_entry)" by code_simp
  moreover have "me_media_file example_entry \<noteq> tj_output_path ?job"
    by (simp add: example_job_output) (simp add: example_entry_def home_u_def ascii_def)
  moreover have "tj_media_id ?job = me_id example_entry" by (simp add: create_job_def)
  ultimately show ?thesis
    using job_keeps_media [OF example_holds, of ?job example_entry example_host ascii_only example_env_job]
    by (auto split: prod.splits option.splits)
qed

text \<open>
  C29. A second transcode can destroy the only copy. After a successful job the entry is repointed at the
  output and its source is deleted; the output's name does not depend on the preset, so the next job
  reads and writes the same file. When ffmpeg then fails, as it does on equal input and output, or the
  job is cancelled, the runner deletes that file as a partial output: the entry still names it and
  nothing is left of the title.
\<close>

theorem second_transcode_loses_media:
  assumes "holds_entry s i e" and "me_media_file e = tj_output_path (create_job u e first_preset dir)"
    and "job = create_job u e preset dir" and "je_ffmpeg env" and "je_error env = Some err"
    and "\<not> h_stuck h (me_media_file e)" and "run_job u env job (s, h) = (s', h')"
  shows "\<exists>e'. entry_of s' i = Some e' \<and> me_media_file e' = me_media_file e \<and> \<not> is_file h' (me_media_file e')"
proof -
  have id: "tj_media_id job = i" and out: "tj_output_path job = me_media_file e"
    using assms(1-3) by (simp_all add: create_job_def holds_entry_def)
  from run_job_steps [OF assms(4), of job s h u] obtain s3 h2
    where q: "quiet i s s3" and stuck: "h_stuck h2 = h_stuck h"
      and run: "job_failed env job err (s3, h2) = (s', h')"
    using assms(5,7) id by auto
  have "s' = set_transcode (je_now env) i (Failed err) s3"
    "h' = (case remove_file (me_media_file e) h2 of None \<Rightarrow> h2 | Some h' \<Rightarrow> h')"
    using run id out by (simp_all add: job_failed_def)
  moreover have "quiet i s (set_transcode (je_now env) i (Failed err) s3)"
    using quiet_trans [OF q quiet_transcode] .
  then have "\<exists>e'. media_step i e s e' (set_transcode (je_now env) i (Failed err) s3) \<and> me_media_file e' = me_media_file e"
    using assms(1) by (simp add: quiet_def)
  moreover have "\<not> is_file (case remove_file (me_media_file e) h2 of None \<Rightarrow> h2 | Some h' \<Rightarrow> h') (me_media_file e)"
    using assms(6) stuck by (auto simp: remove_file_def is_file_def)
  ultimately show ?thesis by (auto simp: media_step_def holds_entry_def)
qed

definition reclaimed_entry :: media_entry where
  "reclaimed_entry = example_entry\<lparr>me_media_file := home_u @ [Normal (ascii ''a.mp4'')]\<rparr>"

theorem second_transcode_loses_media_witness:
  "case run_job ascii_only (example_env_job\<lparr>je_error := Some (ascii ''Cancelled by user'')\<rparr>)
     (create_job ascii_only reclaimed_entry (ascii ''h264'') home_u) (example_store reclaimed_entry, example_host)
   of (s', h') \<Rightarrow> (case entry_of s' (me_id example_entry) of None \<Rightarrow> False | Some e' \<Rightarrow> \<not> is_file h' (me_media_file e'))"
proof -
  have "job_file_name ascii_only reclaimed_entry = job_file_name ascii_only example_entry"
    by (simp add: job_file_name_def episode_suffix_def reclaimed_entry_def)
  then have "me_media_file reclaimed_entry = tj_output_path (create_job ascii_only reclaimed_entry (ascii ''hevc'') home_u)"
    using example_job_output by (simp add: create_job_def reclaimed_entry_def)
  from second_transcode_loses_media [OF example_holds this refl,
      of "example_env_job\<lparr>je_error := Some (ascii ''Cancelled by user'')\<rparr>" "ascii ''Cancelled by user''" example_host
        "ascii ''h264''"]
  show ?thesis
    by (auto simp: example_env_job_def example_host_def reclaimed_entry_def split: prod.splits option.splits)
qed

section \<open>Where files are written\<close>

lemma high_bytes:
  "utf8_width a \<noteq> 1 \<Longrightarrow> 0x80 \<le> a" "utf8_second a b \<Longrightarrow> 0x80 \<le> b" "utf8_cont b \<Longrightarrow> 0x80 \<le> b"
  by (auto simp: utf8_width_def utf8_second_def utf8_cont_def word_le_nat_alt word_less_nat_alt split: if_splits)

lemma chars_width:
  "utf8_valid s \<Longrightarrow> c \<in> set (chars s) \<Longrightarrow> length c = 1 \<or> (\<forall>b \<in> set c. 0x80 \<le> b)"
proof (induction s rule: utf8_valid.induct)
  case (2 a xs)
  show ?case
  proof (cases "utf8_width a = 1")
    case True
    then show ?thesis using "2.IH"(1) "2.prems" by auto
  next
    case n1: False
    then have hi: "0x80 \<le> a" by (rule high_bytes)
    show ?thesis
    proof (cases "utf8_width a = 2")
      case True
      with n1 "2.prems"(1) obtain b ys where "xs = b # ys" "utf8_second a b" "utf8_valid ys"
        by (simp split: list.splits)
      then show ?thesis using "2.IH"(2) [OF n1 True, of b ys] "2.prems"(2) True hi high_bytes(2) by auto
    next
      case n2: False
      show ?thesis
      proof (cases "utf8_width a = 3")
        case True
        with n1 n2 "2.prems"(1) obtain b d ys where "xs = b # d # ys" "utf8_second a b" "utf8_cont d" "utf8_valid ys"
          by (simp split: list.splits)
        then show ?thesis
          using "2.IH"(3) [OF n1 n2 True, of b "d # ys" d ys] "2.prems"(2) True hi high_bytes(2,3)
          by (auto simp: numeral_3_eq_3)
      next
        case n3: False
        with n1 n2 "2.prems"(1) have w: "utf8_width a = 4" by (simp split: if_splits)
        with n1 n2 n3 "2.prems"(1) obtain b d f ys where "xs = b # d # f # ys" "utf8_second a b" "utf8_cont d"
          "utf8_cont f" "utf8_valid ys"
          by (simp split: list.splits)
        then show ?thesis
          using "2.IH"(4) [OF n1 n2 n3 w, of b "d # f # ys" d "f # ys" f ys] "2.prems"(2) w hi high_bytes(2,3)
          by (auto simp: numeral_3_eq_3)
      qed
    qed
  qed
qed simp

lemma sanitize_char_bytes:
  assumes "length c = 1 \<or> (\<forall>b \<in> set c. 0x80 \<le> b)" and "b \<in> set (sanitize_char u c)"
  shows "b \<noteq> slash \<and> b \<noteq> 46"
proof (cases "length c = 1")
  case True
  then obtain a where "c = [a]" by (auto simp: length_Suc_conv)
  then show ?thesis
    using assms(2) by (auto simp: sanitize_char_def is_alphanumeric_def is_ascii_digit_def ascii_lower_def slash_def
        word_le_nat_alt unat_word_ariths split: if_splits)
next
  case False
  then have "\<forall>b \<in> set c. 0x80 \<le> b" using assms(1) by simp
  then show ?thesis
    using assms(2) False by (auto simp: sanitize_char_def slash_def split: if_splits)
qed

lemma join_with_set: "b \<in> set (join_with sep xs) \<Longrightarrow> b \<in> set sep \<or> (\<exists>x \<in> set xs. b \<in> set x)"
  by (induction sep xs rule: join_with.induct) auto

lemma split_byte_set: "set (concat (split_byte c s)) \<subseteq> set s"
  by (induction c s rule: split_byte.induct) (fastforce split: if_splits list.splits)+

lemma sanitize_bytes:
  assumes "utf8_valid t" and "b \<in> set (sanitize_filename u t)"
  shows "b \<noteq> slash \<and> b \<noteq> 46"
proof -
  have "b = 45 \<or> b \<in> set (concat (map (sanitize_char u) (chars t)))"
    using assms(2) split_byte_set [of 45 "concat (map (sanitize_char u) (chars t))"]
    unfolding sanitize_filename_def by (fastforce dest: join_with_set)
  then show ?thesis
  proof
    assume "b \<in> set (concat (map (sanitize_char u) (chars t)))"
    then obtain c where "c \<in> set (chars t)" "b \<in> set (sanitize_char u c)" by auto
    then show ?thesis using sanitize_char_bytes chars_width [OF assms(1)] by blast
  qed (simp add: slash_def)
qed

lemma split_byte_none: "c \<notin> set s \<Longrightarrow> split_byte c s = [s]"
  by (induction s) auto

lemma path_of_name:
  assumes "slash \<notin> set n" and "2 < length n"
  shows "path_of n = [Normal n]"
proof -
  have "n \<noteq> []" "hd n \<noteq> slash" using assms by (cases n; auto)+
  moreover have "segment n = Normal n"
    using assms(2) by (auto simp: segment_def ascii_def)
  ultimately show ?thesis by (simp add: path_of_def Let_def split_byte_none [OF assms(1)])
qed

lemma join_name: "dir \<noteq> [] \<Longrightarrow> path_join dir [Normal n] = dir @ [Normal n]"
  by (simp add: path_join_def is_absolute_def)

lemma dec_nat_slash: "slash \<notin> set (dec_nat n)"
  using dec_nat_digits [of slash n] by (auto simp: slash_def is_ascii_digit_def)

lemma suffix_slash: "slash \<notin> set (episode_suffix e)"
  using dec_nat_slash
  by (auto simp: episode_suffix_def two_places_def ascii_def slash_def split: option.splits if_splits)

text \<open>
  Names from torrents and containers cannot leave the output directory. Whatever the title of an
  entry and the language tag inside a video, the output of a job and each extracted subtitle file are
  direct children of the given directory: the title and the tag contribute no separator, and no name
  is \<open>.\<close> or \<open>..\<close>.
\<close>

theorem written_files_confined:
  assumes "utf8_valid (me_title e)" and "\<And>l. ss_language stream = Some l \<Longrightarrow> utf8_valid l"
    and "dir \<noteq> []" and "slash \<notin> set stem"
  shows "\<exists>n m. tj_output_path (create_job u e preset dir) = dir @ [Normal n]
    \<and> subtitle_path u dir stem i stream = dir @ [Normal m] \<and> slash \<notin> set n \<and> slash \<notin> set m
    \<and> n \<notin> {ascii ''.'', ascii ''..''} \<and> m \<notin> {ascii ''.'', ascii ''..''}"
proof -
  let ?n = "job_file_name u e"
  let ?lang = "sanitize_filename u (case ss_language stream of None \<Rightarrow> [] | Some l \<Rightarrow> l)"
  let ?m = "stem @ ascii ''.'' @ (if ?lang = [] then ascii ''track'' @ dec_nat i else ?lang) @ ascii ''.vtt''"
  have n: "slash \<notin> set ?n" "2 < length ?n"
    using sanitize_bytes [OF assms(1)] suffix_slash [of e] by (auto simp: job_file_name_def ascii_def slash_def)
  have "utf8_valid (case ss_language stream of None \<Rightarrow> [] | Some l \<Rightarrow> l)"
    using assms(2) by (simp split: option.splits)
  then have m: "slash \<notin> set ?m" "2 < length ?m"
    using sanitize_bytes assms(4) dec_nat_slash by (auto simp: ascii_def slash_def)
  have "path_join dir (path_of ?n) = dir @ [Normal ?n]" "path_join dir (path_of ?m) = dir @ [Normal ?m]"
    using path_of_name [OF n] path_of_name [OF m] assms(3) by (simp_all add: join_name)
  moreover have "k \<notin> {ascii ''.'', ascii ''..''}" if "2 < length k" for k
    using that by (auto simp: ascii_def)
  ultimately show ?thesis
    using n m by (intro exI [of _ ?n] exI [of _ ?m]) (simp add: create_job_def subtitle_path_def Let_def)
qed

theorem written_files_confined_witness:
  "\<exists>n m. tj_output_path (create_job ascii_only (example_entry\<lparr>me_title := ascii ''../../etc/x''\<rparr>) [] home_u) = home_u @ [Normal n]
    \<and> subtitle_path ascii_only home_u (ascii ''a'') 0 \<lparr>ss_index = 2, ss_language = Some (ascii ''../../etc/x''), ss_codec = []\<rparr>
        = home_u @ [Normal m] \<and> slash \<notin> set m"
proof -
  have "utf8_valid (ascii ''../../etc/x'')" "slash \<notin> set (ascii ''a'')" "home_u \<noteq> []" by code_simp+
  then show ?thesis
    using written_files_confined [of "example_entry\<lparr>me_title := ascii ''../../etc/x''\<rparr>"
        "\<lparr>ss_index = 2, ss_language = Some (ascii ''../../etc/x''), ss_codec = []\<rparr>" home_u "ascii ''a''" ascii_only "[]" 0]
    by auto
qed

text \<open>
  The recovery at start-up has the same flaw: an entry whose re-transcode was interrupted by a crash
  still records the output of the finished transcode before it, and that file is deleted.
\<close>

theorem recovery_deletes_finished_output:
  assumes "me_transcode_state e = Transcoding p coder" and "me_transcoded_path e = Some q"
    and "\<not> h_stuck h q" and "recover_one now e (s, h) = (s', h')"
  shows "\<not> is_file h' q"
  using assms by (auto simp: recover_one_def remove_file_def is_file_def split: option.splits if_splits)

end
