(* ===== verification/Import_Correct.thy ===== *)
theory Import_Correct
  imports Import Transcode_Correct "HOL-Library.Sublist"
begin

text \<open>
  What a scan finds and adds: exactly the videos of the folder, each at most once, without touching an
  entry that is already there; and how the episodes of one show are grouped.
\<close>

section \<open>Finding videos\<close>

definition node_name :: "dir_node \<Rightarrow> bytes" where
  "node_name d = (case d of FileNode n _ \<Rightarrow> n | DirNode n _ \<Rightarrow> n | LinkNode n \<Rightarrow> n)"

text \<open>No name occurs twice in a directory.\<close>

fun tree_ok :: "dir_node list \<Rightarrow> bool" where
  "tree_ok [] = True"
| "tree_ok (DirNode n cs # ns) \<longleftrightarrow> n \<notin> node_name ` set ns \<and> tree_ok cs \<and> tree_ok ns"
| "tree_ok (d # ns) \<longleftrightarrow> node_name d \<notin> node_name ` set ns \<and> tree_ok ns"

lemma collect_under:
  "(p, k) \<in> set (collect_video_files u dir ns) \<Longrightarrow> \<exists>d \<in> set ns. \<exists>r. p = dir @ Normal (node_name d) # r"
  by (induction u dir ns rule: collect_video_files.induct)
    (auto simp: node_name_def split: if_splits)

lemma collect_distinct: "tree_ok ns \<Longrightarrow> distinct (map fst (collect_video_files u dir ns))"
proof (induction u dir ns rule: collect_video_files.induct)
  case (2 u dir n sz ns)
  have "dir @ [Normal n] \<notin> fst ` set (collect_video_files u dir ns)"
    using "2.prems" by (auto simp: node_name_def dest!: collect_under)
  then show ?case using 2 by simp
next
  case (3 u dir n children ns)
  have "p \<notin> fst ` set (collect_video_files u dir ns)"
    if "p \<in> fst ` set (collect_video_files u (dir @ [Normal n]) children)" for p
    using that "3.prems" by (auto dest!: collect_under)
  then show ?case using 3 by auto
qed (auto simp: node_name_def)

lemma detect_distinct: "tree_ok ns \<Longrightarrow> distinct (detect_video_files u dir ns)"
  using collect_distinct [of ns u dir]
  by (simp add: detect_video_files_def distinct_map)

section \<open>Gathering\<close>

lemma subseq_set: "subseq xs ys \<Longrightarrow> set xs \<subseteq> set ys"
  by (induction xs ys rule: list_emb.induct) auto

lemma subseq_distinct: "subseq xs ys \<Longrightarrow> distinct ys \<Longrightarrow> distinct xs"
proof (induction xs ys rule: list_emb.induct)
  case (list_emb_Cons2 x y xs ys)
  then show ?case using subseq_order.order_refl by (auto dest: list_emb_set)
qed auto


definition film_dir :: "video_info \<Rightarrow> pathbuf" where
  "film_dir v = (case parent (vi_path v) of None \<Rightarrow> path_of (ascii ''.'') | Some d \<Rightarrow> d)"

abbreviation is_film :: "video_info \<Rightarrow> bool" where
  "is_film v \<equiv> \<not> ei_is_show (vi_episode v)"

lemma run_bind_Done: "run_bind m f = Done r \<longleftrightarrow> (\<exists>x. m = Done x \<and> f x = Done r)"
  by (cases m) auto

text \<open>What the importer reads from the name of a file.\<close>

definition reads_as :: "unicode \<Rightarrow> bytes \<Rightarrow> video_info \<Rightarrow> bool" where
  "reads_as u fallback v \<longleftrightarrow> (let name = utf8_or fallback (file_stem (vi_path v)) in
     parse_episode_info u name = Done (vi_episode v) \<and> parse_media_title u name = Done (vi_title v, vi_year v))"

lemma gather_cases:
  assumes "gather u fallback ex dirs (f # fs) = Done (vs, k)"
  obtains (known) k' where "f \<in> set ex" "gather u fallback ex dirs fs = Done (vs, k')" "k = k' + 1"
    | (episode) v vs' where "f \<notin> set ex" "vi_path v = f" "reads_as u fallback v" "\<not> is_film v"
        "gather u fallback ex dirs fs = Done (vs', k)" "vs = v # vs'"
    | (skip) v k' where "f \<notin> set ex" "vi_path v = f" "reads_as u fallback v" "is_film v" "film_dir v \<in> set dirs"
        "gather u fallback ex dirs fs = Done (vs, k')" "k = k' + 1"
    | (film) v vs' where "f \<notin> set ex" "vi_path v = f" "reads_as u fallback v" "is_film v" "film_dir v \<notin> set dirs"
        "gather u fallback ex (film_dir v # dirs) fs = Done (vs', k)" "vs = v # vs'"
proof (cases "f \<in> set ex")
  case True
  with assms obtain k' where "gather u fallback ex dirs fs = Done (vs, k')" "k = k' + 1"
    by (cases "gather u fallback ex dirs fs") auto
  with True known show thesis by blast
next
  case False
  let ?name = "utf8_or fallback (file_stem f)"
  obtain ep where ep: "parse_episode_info u ?name = Done ep"
    using assms False by (cases "parse_episode_info u ?name") (simp_all add: Let_def)
  obtain t y where ty: "parse_media_title u ?name = Done (t, y)"
    using assms False ep by (cases "parse_media_title u ?name") (auto simp: Let_def)
  define v where "v = \<lparr>vi_path = f, vi_episode = ep, vi_title = t, vi_year = y\<rparr>"
  have dir: "(case parent f of None \<Rightarrow> path_of (ascii ''.'') | Some d \<Rightarrow> d) = film_dir v"
    by (simp add: film_dir_def v_def)
  have d: "(if ei_is_show ep
        then run_bind (gather u fallback ex dirs fs) (\<lambda>(infos, skipped). Done (v # infos, skipped))
        else if film_dir v \<in> set dirs
        then run_bind (gather u fallback ex dirs fs) (\<lambda>(infos, skipped). Done (infos, skipped + 1))
        else run_bind (gather u fallback ex (film_dir v # dirs) fs) (\<lambda>(infos, skipped). Done (v # infos, skipped)))
      = Done (vs, k)"
    using assms
    by (simp only: gather.simps False if_False Let_def ep ty run_bind.simps split_conv prod.case dir v_def [symmetric])
  have v: "vi_path v = f" "reads_as u fallback v" "is_film v \<longleftrightarrow> \<not> ei_is_show ep"
    using ep ty by (simp_all add: v_def reads_as_def)
  show thesis
    using d False v episode [of v] skip [of v] film [of v] by (auto simp: run_bind_Done split: if_splits)
qed

lemma gather_spec:
  "gather u fallback ex dirs fs = Done (vs, k) \<Longrightarrow>
     length vs + k = length fs \<and> subseq (map vi_path vs) fs \<and> (\<forall>v \<in> set vs. vi_path v \<notin> set ex \<and> reads_as u fallback v)
     \<and> distinct (map film_dir (filter is_film vs)) \<and> film_dir ` set (filter is_film vs) \<inter> set dirs = {}"
proof (induction fs arbitrary: dirs vs k)
  case (Cons f fs)
  from Cons.prems show ?case
  proof (cases rule: gather_cases)
    case known
    with Cons.IH [OF known(2)] show ?thesis by (auto intro: list_emb_Cons)
  next
    case episode
    with Cons.IH [OF episode(5)] show ?thesis by simp
  next
    case skip
    with Cons.IH [OF skip(6)] show ?thesis by (auto intro: list_emb_Cons)
  next
    case film
    with Cons.IH [OF film(6)] show ?thesis by auto
  qed
qed simp

text \<open>Every file that is not known is kept, unless it is a film and an earlier one of its directory is.\<close>

lemma gather_complete:
  "gather u fallback ex dirs fs = Done (vs, k) \<Longrightarrow> sorted_wrt R fs \<Longrightarrow> f \<in> set fs \<Longrightarrow> f \<notin> set ex \<Longrightarrow>
     \<exists>v. vi_path v = f \<and> reads_as u fallback v \<and> (if is_film v
       then film_dir v \<in> set dirs \<or> (\<exists>w \<in> set vs. is_film w \<and> film_dir w = film_dir v \<and> (vi_path w = f \<or> R (vi_path w) f))
       else v \<in> set vs)"
proof (induction fs arbitrary: dirs vs k)
  case (Cons g fs)
  have rest: "sorted_wrt R fs" "f \<noteq> g \<Longrightarrow> f \<in> set fs" "f \<noteq> g \<Longrightarrow> R g f" using Cons.prems(2,3) by auto
  from Cons.prems(1) show ?case
  proof (cases rule: gather_cases)
    case known
    then have "f \<noteq> g" using Cons.prems(4) by auto
    then show ?thesis using Cons.IH [OF known(2) rest(1)] rest(2) Cons.prems(4) by blast
  next
    case (episode v vs')
    show ?thesis
    proof (cases "f = g")
      case False
      then show ?thesis using Cons.IH [OF episode(5) rest(1)] rest(2) Cons.prems(4) episode(6) by (meson list.set_intros(2))
    qed (use episode in auto)
  next
    case (skip v k')
    show ?thesis
    proof (cases "f = g")
      case False
      then show ?thesis using Cons.IH [OF skip(6) rest(1)] rest(2) Cons.prems(4) by blast
    qed (use skip in auto)
  next
    case (film v vs')
    show ?thesis
    proof (cases "f = g")
      case True
      then show ?thesis using film by auto
    next
      case False
      then obtain x where x: "vi_path x = f" "reads_as u fallback x" "if is_film x
          then film_dir x \<in> set (film_dir v # dirs) \<or> (\<exists>w \<in> set vs'. is_film w \<and> film_dir w = film_dir x \<and> (vi_path w = f \<or> R (vi_path w) f))
          else x \<in> set vs'"
        using Cons.IH [OF film(6) rest(1)] rest(2) Cons.prems(4) by blast
      have "R (vi_path v) f" using rest(3) False film(2) by simp
      then show ?thesis using x film(4,7) by (intro exI [of _ x]) (auto split: if_splits)
    qed
  qed
qed simp

text \<open>The files are taken in the order of their size, the largest first.\<close>

lemma detect_sorted:
  assumes "tree_ok ns"
  shows "sorted_wrt (\<lambda>p q. \<forall>k l. (p, k) \<in> set (collect_video_files u d ns) \<and> (q, l) \<in> set (collect_video_files u d ns) \<longrightarrow> l \<le> k)
    (detect_video_files u d ns)"
proof -
  let ?found = "collect_video_files u d ns"
  let ?l = "sort_key (\<lambda>(p, k). - uint k) ?found"
  have eq: "k = l" if "(p, k) \<in> set ?found" "(p, l) \<in> set ?found" for p k l
    using collect_distinct [OF assms, of u d] that by (meson eq_key_imp_eq_value)
  have "sorted_wrt (\<lambda>a b. snd b \<le> snd a) ?l"
    using sorted_sort_key [of "\<lambda>(p, k). - uint k" ?found]
    by (simp add: sorted_map case_prod_unfold word_le_def)
  then have "sorted_wrt (\<lambda>a b. \<forall>k l. (fst a, k) \<in> set ?found \<and> (fst b, l) \<in> set ?found \<longrightarrow> l \<le> k) ?l"
  proof (rule sorted_wrt_mono_rel [rotated])
    fix a b assume "a \<in> set ?l" "b \<in> set ?l" "snd b \<le> snd a"
    then have ab: "(fst a, snd a) \<in> set ?found" "(fst b, snd b) \<in> set ?found" by simp_all
    show "\<forall>k l. (fst a, k) \<in> set ?found \<and> (fst b, l) \<in> set ?found \<longrightarrow> l \<le> k"
      using eq [OF ab(1)] eq [OF ab(2)] \<open>snd b \<le> snd a\<close> by blast
  qed
  then show ?thesis by (simp add: detect_video_files_def sorted_wrt_map)
qed

lemma gather_largest:
  assumes "gather u fallback ex [] (detect_video_files u d ns) = Done (vs, k)" and "tree_ok ns"
    and "(p, bytes) \<in> set (collect_video_files u d ns)" and "p \<notin> set ex"
  shows "\<exists>v. vi_path v = p \<and> reads_as u fallback v \<and> (if is_film v
      then (\<exists>w \<in> set vs. is_film w \<and> film_dir w = film_dir v
        \<and> (\<forall>larger. (vi_path w, larger) \<in> set (collect_video_files u d ns) \<longrightarrow> bytes \<le> larger))
      else v \<in> set vs)"
proof -
  let ?found = "collect_video_files u d ns"
  let ?before = "\<lambda>q. \<forall>k l. (q, k) \<in> set ?found \<and> (p, l) \<in> set ?found \<longrightarrow> l \<le> k"
  have "p \<in> set (detect_video_files u d ns)" using assms(3) by (force simp: detect_video_files_def)
  then have "\<exists>v. vi_path v = p \<and> reads_as u fallback v \<and> (if is_film v
      then film_dir v \<in> set [] \<or> (\<exists>w \<in> set vs. is_film w \<and> film_dir w = film_dir v \<and> (vi_path w = p \<or> ?before (vi_path w)))
      else v \<in> set vs)"
    using assms(4) by (rule gather_complete [OF assms(1) detect_sorted [OF assms(2)]])
  then obtain v where v: "vi_path v = p" "reads_as u fallback v" and c: "if is_film v
      then film_dir v \<in> set [] \<or> (\<exists>w \<in> set vs. is_film w \<and> film_dir w = film_dir v \<and> (vi_path w = p \<or> ?before (vi_path w)))
      else v \<in> set vs" by (elim exE conjE)
  have eq: "k = bytes" if "(p, k) \<in> set ?found" for k
    using collect_distinct [OF assms(2)] that assms(3) by (meson eq_key_imp_eq_value)
  show ?thesis
  proof (cases "is_film v")
    case True
    then obtain w where w: "w \<in> set vs" "is_film w" "film_dir w = film_dir v" "vi_path w = p \<or> ?before (vi_path w)"
      using c by auto
    then have "\<forall>larger. (vi_path w, larger) \<in> set ?found \<longrightarrow> bytes \<le> larger" using eq assms(3) by blast
    then show ?thesis using v w True by auto
  next
    case False
    then show ?thesis using v c by auto
  qed
qed

section \<open>Scanning\<close>

lemma known_file: "e \<in> set es \<Longrightarrow> me_media_file e \<in> set (known_paths es)"
  by (auto simp: known_paths_def)

lemma existing_entry_None: "p \<notin> set (known_paths es) \<Longrightarrow> existing_entry es p = None"
  by (auto simp: existing_entry_def map_of_eq_None_iff dest: known_file)

definition put_all :: "media_entry list \<Rightarrow> store \<Rightarrow> store" where
  "put_all es s = fold (\<lambda>e s. fst (put_media e s)) es s"

lemma put_all_simps [simp]:
  "put_all [] s = s" "put_all (e # es) s = put_all es (fst (put_media e s))"
  by (simp_all add: put_all_def)

lemma entry_of_put: "db_ok s \<Longrightarrow> entry_of (fst (put_media e s)) = (entry_of s)(me_id e \<mapsto> e)"
  by (auto simp: put_media_def entry_of_def fun_eq_iff)

lemma put_ok [simp]: "db_ok (fst (put_media e s)) = db_ok s"
  by (simp add: put_media_def)

lemma entry_of_put_all:
  assumes "db_ok s" and "distinct (map me_id es)"
  shows "entry_of (put_all es s) = entry_of s ++ map_of (map (\<lambda>e. (me_id e, e)) es)"
  using assms
proof (induction es arbitrary: s)
  case (Cons e es)
  have "me_id e \<notin> dom (map_of (map (\<lambda>e. (me_id e, e)) es))"
    using Cons.prems(2) by (auto simp: dom_map_of_conv_image_fst)
  then have "(m(me_id e \<mapsto> e)) ++ map_of (map (\<lambda>e. (me_id e, e)) es) =
      m ++ (map_of (map (\<lambda>e. (me_id e, e)) es))(me_id e \<mapsto> e)" for m
    by (auto simp: map_add_def fun_eq_iff dom_def split: option.splits)
  moreover have "entry_of (put_all (e # es) s) = (entry_of s)(me_id e \<mapsto> e) ++ map_of (map (\<lambda>e. (me_id e, e)) es)"
    using Cons by (simp add: entry_of_put del: map_add_upd_left)
  ultimately show ?case by (simp only: list.map map_of.simps fst_conv snd_conv)
qed simp

lemma entry_of_list_media:
  assumes "bt_wf (db_library s)" and "db_ok s"
  shows "entry_of (fst (list_media s)) = entry_of s"
proof
  fix j
  have d: "distinct (map fst (db_library s))" using assms(1) by (rule bt_wf_distinct)
  have f: "map_of (filter (\<lambda>(_, v). v \<noteq> Corrupt) xs) j = (case map_of xs j of Some Corrupt \<Rightarrow> None | r \<Rightarrow> r)"
    if "distinct (map fst xs)" for xs :: "(uuid \<times> media_entry stored) list"
    using that
  proof (induction xs)
    case (Cons x xs)
    then have "j = fst x \<Longrightarrow> map_of xs j = None" by (auto simp: map_of_eq_None_iff)
    with Cons show ?case by (cases x; cases "snd x") (auto split: option.splits stored.splits)
  qed simp
  show "entry_of (fst (list_media s)) j = entry_of s j"
    using assms(2) f [OF d] by (auto simp: list_media_def entry_of_def drop_corrupt_def split: option.splits stored.splits)
qed

lemma scan_fold:
  assumes "\<forall>v \<in> set vs. existing_entry es (vi_path v) = None"
  shows "\<exists>jobs'. fold (scan_one env h es grp scan_path) vs (s, jobs, n) =
    (put_all (map (\<lambda>v. fresh_entry env (replicate 16 0)
        (case parent (vi_path v) of None \<Rightarrow> scan_path | Some d \<Rightarrow> d) grp v) vs) s, jobs', n + length vs)"
  using assms
proof (induction vs arbitrary: s jobs n)
  case (Cons v vs)
  obtain jobs1 where "scan_one env h es grp scan_path v (s, jobs, n) = (fst (put_media (fresh_entry env (replicate 16 0)
      (case parent (vi_path v) of None \<Rightarrow> scan_path | Some d \<Rightarrow> d) grp v) s), jobs1, n + 1)"
    using Cons.prems by (simp add: scan_one_def Let_def)
  moreover have "\<forall>v \<in> set vs. existing_entry es (vi_path v) = None" using Cons.prems by simp
  note Cons.IH [OF this, of "fst (put_media (fresh_entry env (replicate 16 0)
      (case parent (vi_path v) of None \<Rightarrow> scan_path | Some d \<Rightarrow> d) grp v) s)" jobs1 "n + 1"]
  ultimately show ?case by simp
qed simp

text \<open>The entry that a scan of \<open>scan_path\<close> makes of a video, when no entry knows its file.\<close>

definition scanned_entry :: "import_env \<Rightarrow> pathbuf \<Rightarrow> video_info \<Rightarrow> media_entry" where
  "scanned_entry env scan_path v = fresh_entry env (replicate 16 0)
     (case parent (vi_path v) of None \<Rightarrow> scan_path | Some d \<Rightarrow> d) (\<lambda>n. Some (im_group_id env n)) v"

lemma scan_group_fresh:
  assumes "\<forall>v \<in> set vs. existing_entry es (vi_path v) = None" and "n \<in> set (show_names vs)"
  shows "scan_group env es vs n = Some (im_group_id env n)"
proof -
  have "first_some (\<lambda>v. if ei_is_show (vi_episode v) \<and> ei_show_name (vi_episode v) = n
      then Option.bind (existing_entry es (vi_path v)) me_group_id else None) vs = None"
    using assms(1) by (auto simp: first_some_def List.map_filter_def filter_empty_conv split: list.splits)
  then show ?thesis using assms(2) by (simp add: scan_group_def)
qed

lemma scanned_entry_fresh:
  assumes "\<forall>v \<in> set vs. existing_entry es (vi_path v) = None" and "v \<in> set vs"
  shows "fresh_entry env (replicate 16 0) (case parent (vi_path v) of None \<Rightarrow> sp | Some d \<Rightarrow> d) (scan_group env es vs) v
    = scanned_entry env sp v"
proof (cases "ei_is_show (vi_episode v)")
  case True
  then have "ei_show_name (vi_episode v) \<in> set (show_names vs)" using assms(2) by (auto simp: show_names_def)
  with scan_group_fresh [OF assms(1)] show ?thesis
    by (simp add: scanned_entry_def fresh_entry_def Let_def)
qed (simp add: scanned_entry_def fresh_entry_def Let_def)

lemma scanned_entries:
  assumes "db_ok s" and "distinct (map (\<lambda>v. im_media_id env (vi_path v)) vs)"
  shows "v \<in> set vs \<Longrightarrow> entry_of (put_all (map (scanned_entry env sp) vs) s) (im_media_id env (vi_path v)) = Some (scanned_entry env sp v)"
    and "j \<notin> (\<lambda>v. im_media_id env (vi_path v)) ` set vs \<Longrightarrow> entry_of (put_all (map (scanned_entry env sp) vs) s) j = entry_of s j"
proof -
  let ?e = "scanned_entry env sp" let ?m = "map (\<lambda>e. (me_id e, e)) (map ?e vs)"
  have id: "me_id (?e v) = im_media_id env (vi_path v)" for v
    by (simp add: scanned_entry_def fresh_entry_def Let_def)
  then have dist: "distinct (map me_id (map ?e vs))" using assms(2) by (simp add: comp_def)
  note look = entry_of_put_all [OF assms(1) dist]
  have "distinct (map fst ?m)" using dist by (simp add: comp_def)
  then have "v \<in> set vs \<Longrightarrow> map_of ?m (im_media_id env (vi_path v)) = Some (?e v)"
    by (intro map_of_is_SomeI) (auto simp: id)
  then show "v \<in> set vs \<Longrightarrow> entry_of (put_all (map ?e vs) s) (im_media_id env (vi_path v)) = Some (?e v)"
    using look by simp
  have "map_of ?m j = None" if "j \<notin> (\<lambda>v. im_media_id env (vi_path v)) ` set vs"
    using that by (auto simp: map_of_eq_None_iff id)
  then show "j \<notin> (\<lambda>v. im_media_id env (vi_path v)) ` set vs \<Longrightarrow> entry_of (put_all (map ?e vs) s) j = entry_of s j"
    using look by (simp add: map_add_def)
qed

text \<open>A scan that succeeds: its folder is confined, the videos are gathered, and then added one by one.\<close>

lemma scan_folder_run:
  assumes "scan_folder env h requested tree s = Done (Inr (s', jobs, added, skipped))" and "db_ok s"
  obtains sp vs where "confine_existing_dir h requested = Inr sp" "allowed_location h sp"
    "gather (im_unicode env) (ascii ''Unknown'') (known_paths (valid_values (db_library s))) []
      (detect_video_files (im_unicode env) sp (tree sp)) = Done (vs, skipped)"
    "fold (scan_one env h (valid_values (db_library s)) (scan_group env (valid_values (db_library s)) vs) sp) vs
      (fst (list_media s), [], 0) = (s', jobs, added)"
proof -
  let ?u = "im_unicode env" and ?es = "valid_values (db_library s)"
  obtain sp where sp: "confine_existing_dir h requested = Inr sp"
    using assms(1) by (auto simp: scan_folder_def split: sum.splits)
  then have loc: "allowed_location h sp"
    by (auto simp: confine_existing_dir_def under_allowed_root_iff split: option.splits if_splits)
  let ?files = "detect_video_files ?u sp (tree sp)"
  have lm: "list_media s = (fst (list_media s), DbOk ?es)" using assms(2) by (simp add: list_media_def)
  have run: "run_bind (gather ?u (ascii ''Unknown'') (known_paths ?es) [] ?files) (\<lambda>(infos, skipped).
      let (s2, jobs, added) = fold (scan_one env h ?es (scan_group env ?es infos) sp) infos (fst (list_media s), [], 0) in
      Done (Inr (s2, jobs, added, skipped))) = Done (Inr (s', jobs, added, skipped) :: api_error + store \<times> transcode_job list \<times> nat \<times> nat)"
    using assms(1) unfolding scan_folder_def sp sum.case by (subst (asm) lm) (simp add: Let_def)
  then obtain vs where g: "gather ?u (ascii ''Unknown'') (known_paths ?es) [] ?files = Done (vs, skipped)"
    and f: "fold (scan_one env h ?es (scan_group env ?es vs) sp) vs (fst (list_media s), [], 0) = (s', jobs, added)"
    by (cases "gather ?u (ascii ''Unknown'') (known_paths ?es) [] ?files") (auto simp: Let_def split: prod.splits)
  show thesis by (rule that [OF sp loc g f])
qed


definition example_import :: import_env where
  "example_import = \<lparr>im_unicode = ascii_only, im_ffmpeg = True, im_media_id = (\<lambda>p. utf8_or [] (file_name p)),
     im_group_id = (\<lambda>n. ascii ''new'' @ n), im_subtitles = (\<lambda>p. []), im_size = (\<lambda>p. 2000000), im_now = 5\<rparr>"

definition example_tree :: "pathbuf \<Rightarrow> dir_node list" where
  "example_tree d = [FileNode (ascii ''a.mkv'') 4000000, FileNode (ascii ''D.mkv'') 2000000,
     FileNode (ascii ''._b.mkv'') 9000000, LinkNode (ascii ''c.mkv'')]"

lemma example_scan:
  "case scan_folder example_import example_host home_u example_tree (example_store example_entry) of
     Done (Inr (s', jobs, added, skipped)) \<Rightarrow> added = 1 \<and> skipped = 1 \<and> length jobs = 1
   | _ \<Rightarrow> False"
  by code_simp


end
