(* ===== verification/Magnet.thy ===== *)
theory Magnet
  imports Peers Storage Chars
begin

text \<open>
  Magnet links (\<open>torrent/magnet.rs\<close>) and the download of the metadata they stand for
  (\<open>engine/magnet.rs\<close>): the loop that collects the info dictionary from peers. Percent-decoding,
  the hexadecimal and base-32 decoders and the case tables of Unicode belong to libraries; they are
  a parameter.
\<close>

section \<open>Links\<close>

text \<open>\<open>hex::encode\<close>, the textual form of a hash.\<close>

definition hex_digit :: "u8 \<Rightarrow> u8" where
  "hex_digit d = (if d < 10 then 48 + d else 87 + d)"

definition hex_encode :: "bytes \<Rightarrow> bytes" where
  "hex_encode bs = concat (map (\<lambda>b. [hex_digit (b div 16), hex_digit (b mod 16)]) bs)"

record magnet_codecs =
  mc_percent :: "bytes \<Rightarrow> bytes"
  mc_hex :: "bytes \<Rightarrow> bytes option"
  mc_base32 :: "bytes \<Rightarrow> bytes option"
  mc_upper :: "bytes \<Rightarrow> bytes"

datatype magnet_error = NotMagnet | MissingInfoHash | InvalidInfoHash | UnsupportedHashFunction bytes

record magnet_link =
  ml_info_hash :: bytes
  ml_display_name :: "bytes option"
  ml_trackers :: "bytes list"

definition parse_info_hash :: "magnet_codecs \<Rightarrow> bytes \<Rightarrow> magnet_error + bytes" where
  "parse_info_hash mc s =
     (case (if length s = 40 then mc_hex mc s
            else if length s = 32 then mc_base32 mc (mc_upper mc s) else None) of
        None \<Rightarrow> Inl InvalidInfoHash
      | Some bs \<Rightarrow> if length bs \<noteq> 20 then Inl InvalidInfoHash else Inr bs)"

text \<open>The loop over the parameters: the hash and name read last, and the trackers so far.\<close>

fun magnet_params ::
  "magnet_codecs \<Rightarrow> (bytes \<times> bytes) list \<Rightarrow> bytes option \<Rightarrow> bytes option \<Rightarrow> bytes list
    \<Rightarrow> magnet_error + bytes option \<times> bytes option \<times> bytes list" where
  "magnet_params mc [] hash dn trs = Inr (hash, dn, trs)"
| "magnet_params mc ((key, val) # ps) hash dn trs =
     (if key = ascii ''xt'' then
        (let decoded = mc_percent mc val in
         if starts_with decoded (ascii ''urn:btih:'')
         then (case parse_info_hash mc (drop 9 decoded) of
             Inl e \<Rightarrow> Inl e | Inr h \<Rightarrow> magnet_params mc ps (Some h) dn trs)
         else Inl (UnsupportedHashFunction decoded))
      else if key = ascii ''dn'' then magnet_params mc ps hash (Some (mc_percent mc val)) trs
      else if key = ascii ''tr'' then magnet_params mc ps hash dn (trs @ [mc_percent mc val])
      else magnet_params mc ps hash dn trs)"

definition magnet_parse :: "magnet_codecs \<Rightarrow> bytes \<Rightarrow> magnet_error + magnet_link" where
  "magnet_parse mc uri =
     (if \<not> starts_with uri (ascii ''magnet:?'') then Inl NotMagnet
      else (let query = drop 8 uri; params = List.map_filter (split_once 61) (split_byte 38 query) in
        case magnet_params mc params None None [] of
          Inl e \<Rightarrow> Inl e
        | Inr (None, _, _) \<Rightarrow> Inl MissingInfoHash
        | Inr (Some h, dn, trs) \<Rightarrow> Inr \<lparr>ml_info_hash = h, ml_display_name = dn, ml_trackers = trs\<rparr>))"

section \<open>Metadata from peers\<close>

datatype magnet_phase = AwaitingSize | Fetching "sock_addr metadata_buffer"

record magnet_state =
  mf_peers :: peer_manager
  mf_ext :: "(sock_addr \<times> u8) list"
  mf_phase :: magnet_phase

definition MAX_METADATA_SIZE :: u64 where
  "MAX_METADATA_SIZE = 10 * 1024 * 1024"

text \<open>
  The loop of \<open>request_metadata_pieces\<close>. Each round puts a free piece on order, so the number of
  pieces is enough fuel.
\<close>

fun request_pieces ::
  "nat \<Rightarrow> sock_addr \<Rightarrow> u8 \<Rightarrow> sock_addr metadata_buffer \<Rightarrow> peer_manager
    \<Rightarrow> sock_addr metadata_buffer \<times> peer_manager" where
  "request_pieces 0 addr ext_id buf pm = (buf, pm)"
| "request_pieces (Suc n) addr ext_id buf pm = (case next_request addr buf of
       (buf1, None) \<Rightarrow> (buf1, pm)
     | (buf1, Some piece) \<Rightarrow>
         (case send_command addr (SendMetadataRequest ext_id (of_nat piece)) pm of
            (pm1, False) \<Rightarrow> (on_reject piece buf1, pm1)
          | (pm1, True) \<Rightarrow> request_pieces n addr ext_id buf1 pm1))"

definition request_metadata_pieces :: "sock_addr \<Rightarrow> magnet_state \<Rightarrow> magnet_state" where
  "request_metadata_pieces addr ms = (case mf_phase ms of
       AwaitingSize \<Rightarrow> ms
     | Fetching buf \<Rightarrow> (case map_of (mf_ext ms) addr of
         None \<Rightarrow> ms
       | Some ext_id \<Rightarrow> (case request_pieces (mb_pieces buf) addr ext_id buf (mf_peers ms) of
           (buf1, pm1) \<Rightarrow> ms\<lparr>mf_phase := Fetching buf1, mf_peers := pm1\<rparr>)))"

text \<open>One event of a peer; the flag says that every piece is there.\<close>

definition on_size :: "sock_addr \<Rightarrow> u8 \<Rightarrow> u64 \<Rightarrow> magnet_state \<Rightarrow> magnet_state" where
  "on_size addr ext_id sz ms =
     (if sz = 0 \<or> MAX_METADATA_SIZE < sz then ms
      else (let ms1 = ms\<lparr>mf_ext := hm_insert addr ext_id (mf_ext ms)\<rparr>;
                ms2 = (case mf_phase ms1 of AwaitingSize \<Rightarrow> ms1\<lparr>mf_phase := Fetching (mb_new (unat sz))\<rparr>
                        | Fetching _ \<Rightarrow> ms1) in
            request_metadata_pieces addr ms2))"

fun magnet_event :: "bool \<Rightarrow> sock_addr \<Rightarrow> peer_event \<Rightarrow> magnet_state \<Rightarrow> magnet_state \<times> bool" where
  "magnet_event lightspeed addr (EvConnected _ _ ext) ms =
     (if ext then
        (let pm1 = fst (send_command addr SendInterested (mf_peers ms));
             pm2 = fst (send_command addr (SendExtendedHandshake (ours None lightspeed)) pm1) in
         (ms\<lparr>mf_peers := pm2\<rparr>, False))
      else (ms, False))"
| "magnet_event lightspeed addr (EvExtHandshake hs) ms =
     (case (extension_id hs (ascii ''ut_metadata''), eh_metadata_size hs) of
        (Some ext_id, Some sz) \<Rightarrow> (on_size addr ext_id sz ms, False)
      | _ \<Rightarrow> (ms, False))"
| "magnet_event lightspeed addr (EvMetadata (MetaData piece _ data)) ms = (case mf_phase ms of
       AwaitingSize \<Rightarrow> (request_metadata_pieces addr ms, False)
     | Fetching buf \<Rightarrow> (case on_data (unat piece) data buf of
         (buf1, True) \<Rightarrow> (ms\<lparr>mf_phase := Fetching buf1\<rparr>, True)
       | (buf1, False) \<Rightarrow> (request_metadata_pieces addr (ms\<lparr>mf_phase := Fetching buf1\<rparr>), False)))"
| "magnet_event lightspeed addr (EvMetadata (MetaReject piece)) ms = (case mf_phase ms of
       AwaitingSize \<Rightarrow> (ms, False)
     | Fetching buf \<Rightarrow> (ms\<lparr>mf_phase := Fetching (on_reject (unat piece) buf)\<rparr>, False))"
| "magnet_event lightspeed addr (EvDisconnected _) ms =
     (let ms1 = ms\<lparr>mf_ext := hm_remove addr (mf_ext ms)\<rparr> in
      case mf_phase ms1 of
        AwaitingSize \<Rightarrow> (ms1, False)
      | Fetching buf \<Rightarrow> (ms1\<lparr>mf_phase := Fetching (on_peer_lost addr buf)\<rparr>, False))"
| "magnet_event lightspeed addr _ ms = (ms, False)"

text \<open>
  A turn of the \<open>select!\<close> loop: cancellation, discovered peers, an event, the timer. Between the turns
  the task of a connection takes the oldest command of its channel, or ends.
\<close>

datatype magnet_turn = MCancelled | MNewPeers "sock_addr list" | MPeer sock_addr peer_event | MTick
  | MTakes sock_addr | MEnds sock_addr

fun magnet_next :: "bool \<Rightarrow> magnet_turn \<Rightarrow> magnet_state \<Rightarrow> magnet_state \<times> bool" where
  "magnet_next lightspeed (MNewPeers addrs) ms =
     (ms\<lparr>mf_peers := connect_pending (add_peers addrs (mf_peers ms))\<rparr>, False)"
| "magnet_next lightspeed (MPeer addr ev) ms =
     magnet_event lightspeed addr ev (ms\<lparr>mf_peers := handle_event addr ev (mf_peers ms)\<rparr>)"
| "magnet_next lightspeed MTick ms = (ms\<lparr>mf_peers := connect_pending (mf_peers ms)\<rparr>, False)"
| "magnet_next lightspeed (MTakes addr) ms = (ms\<lparr>mf_peers := task_recv addr (mf_peers ms)\<rparr>, False)"
| "magnet_next lightspeed (MEnds addr) ms = (ms\<lparr>mf_peers := task_ended addr (mf_peers ms)\<rparr>, False)"
| "magnet_next lightspeed MCancelled ms = (ms, False)"

datatype fetch_error = FetchCancelled | NotComplete | HashMismatch | BadMetadata | CannotEncode

definition magnet_start :: "nat \<Rightarrow> magnet_state" where
  "magnet_start limit = \<lparr>mf_peers = pm_new limit, mf_ext = [], mf_phase = AwaitingSize\<rparr>"

text \<open>What follows the loop: verification, parsing, and the form that is stored.\<close>

definition magnet_finish ::
  "(bytes \<Rightarrow> bytes) \<Rightarrow> magnet_link \<Rightarrow> magnet_state \<Rightarrow> fetch_error + metainfo \<times> bytes \<times> sock_addr list" where
  "magnet_finish sha1 ml ms = (case mf_phase ms of
       AwaitingSize \<Rightarrow> Inl NotComplete
     | Fetching buf \<Rightarrow> (case mb_verify sha1 buf (ml_info_hash ml) of
         None \<Rightarrow> Inl HashMismatch
       | Some raw \<Rightarrow> (case from_info_bytes raw (ml_info_hash ml) (ml_trackers ml) of
           Inl _ \<Rightarrow> Inl BadMetadata
         | Inr mi \<Rightarrow> (case torrent_bytes_from_info raw (ml_trackers ml) of
             Inl _ \<Rightarrow> Inl CannotEncode
           | Inr bs \<Rightarrow> Inr (mi, bs, connected_peers (mf_peers ms))))))"

text \<open>\<open>None\<close> is a loop that still waits.\<close>

fun fetch_metadata ::
  "(bytes \<Rightarrow> bytes) \<Rightarrow> magnet_link \<Rightarrow> bool \<Rightarrow> magnet_state \<Rightarrow> magnet_turn list
    \<Rightarrow> (fetch_error + metainfo \<times> bytes \<times> sock_addr list) option" where
  "fetch_metadata sha1 ml lightspeed ms [] = None"
| "fetch_metadata sha1 ml lightspeed ms (t # ts) =
     (if t = MCancelled then Some (Inl FetchCancelled)
      else (case magnet_next lightspeed t ms of
          (ms1, True) \<Rightarrow> Some (magnet_finish sha1 ml ms1)
        | (ms1, False) \<Rightarrow> fetch_metadata sha1 ml lightspeed ms1 ts))"

end
