(* ===== verification/Manager.thy ===== *)
theory Manager
  imports Import_Correct Magnet
begin

text \<open>
  The session manager (\<open>engine/manager.rs\<close>): the table of live downloads, the events sent to the
  browser, the records of the downloads in the store, and what happens when downloads are added,
  restarted, finished and removed, or stand for a magnet link that is still being resolved.
\<close>

section \<open>State\<close>

record download_options =
  do_port :: u16
  do_max_peers :: nat
  do_output_dir :: pathbuf
  do_no_dht :: bool
  do_lightspeed :: bool

definition DEFAULT_PEER_PORT :: u16 where "DEFAULT_PEER_PORT = 6881"
definition DEFAULT_MAX_PEERS :: nat where "DEFAULT_MAX_PEERS = 80"

definition from_settings :: "app_settings \<Rightarrow> download_options" where
  "from_settings settings = \<lparr>do_port = DEFAULT_PEER_PORT, do_max_peers = DEFAULT_MAX_PEERS,
     do_output_dir = as_download_dir settings, do_no_dht = False, do_lightspeed = as_lightspeed settings\<rparr>"

record torrent_session =
  ts_id :: uuid
  ts_metainfo :: metainfo
  ts_options :: download_options
  ts_status :: session_status

record session_handle =
  sh_name :: bytes
  sh_status :: session_status

record broadcast_event =
  ev_id :: uuid
  ev_status :: session_status
  ev_removed :: bool

definition event_update :: "uuid \<Rightarrow> session_status \<Rightarrow> broadcast_event" where
  "event_update i st = \<lparr>ev_id = i, ev_status = st, ev_removed = False\<rparr>"

definition event_removed :: "uuid \<Rightarrow> session_status \<Rightarrow> broadcast_event" where
  "event_removed i st = \<lparr>ev_id = i, ev_status = st, ev_removed = True\<rparr>"

text \<open>
  Besides the table, the events and the store: the sessions that were spawned, the ids whose
  cancellation token was triggered, and the transcode jobs handed to the runner.
\<close>

record manager =
  mg_sessions :: "(uuid \<times> session_handle) list"
  mg_events :: "broadcast_event list"
  mg_store :: store
  mg_running :: "torrent_session list"
  mg_cancelled :: "uuid list"
  mg_jobs :: "transcode_job list"

definition send_event :: "broadcast_event \<Rightarrow> manager \<Rightarrow> manager" where
  "send_event e m = m\<lparr>mg_events := mg_events m @ [e]\<rparr>"

definition with_store :: "(store \<Rightarrow> store) \<Rightarrow> manager \<Rightarrow> manager" where
  "with_store f m = m\<lparr>mg_store := f (mg_store m)\<rparr>"

section \<open>Sessions\<close>

definition session_new :: "uuid \<Rightarrow> nat \<Rightarrow> metainfo \<Rightarrow> download_options \<Rightarrow> torrent_session" where
  "session_new i now mi opts = \<lparr>ts_id = i, ts_metainfo = mi, ts_options = opts,
     ts_status = initial_status i (hex_encode (mi_info_hash mi)) (mi_info mi) now\<rparr>"

definition with_id :: "uuid \<Rightarrow> torrent_session \<Rightarrow> torrent_session" where
  "with_id i ts = ts\<lparr>ts_id := i, ts_status := (ts_status ts)\<lparr>st_id := i\<rparr>\<rparr>"

definition session_handle_of :: "torrent_session \<Rightarrow> session_handle" where
  "session_handle_of ts = \<lparr>sh_name = info_name (mi_info (ts_metainfo ts)), sh_status = ts_status ts\<rparr>"

definition spawn_session :: "torrent_session \<Rightarrow> manager \<Rightarrow> manager" where
  "spawn_session ts m = m\<lparr>mg_sessions := hm_insert (ts_id ts) (session_handle_of ts) (mg_sessions m),
     mg_running := mg_running m @ [ts]\<rparr>"

definition mgr_add_torrent ::
  "uuid \<Rightarrow> nat \<Rightarrow> metainfo \<Rightarrow> bytes \<Rightarrow> download_options \<Rightarrow> manager \<Rightarrow> manager" where
  "mgr_add_torrent i now mi metainfo_bytes opts m =
     (let ts = session_new i now mi opts;
          r = \<lparr>dr_id = i, dr_name = info_name (mi_info mi), dr_info_hash = hex_encode (mi_info_hash mi),
               dr_total_bytes = info_total_length (mi_info mi), dr_pieces_total = length (info_pieces (mi_info mi)),
               dr_metainfo_bytes = metainfo_bytes, dr_output_dir = do_output_dir opts,
               dr_lightspeed = do_lightspeed opts, dr_completed_pieces = [], dr_status = ts_status ts\<rparr> in
      spawn_session ts (with_store (\<lambda>s. fst (put_download r s)) m))"

definition lost_metadata :: string where
  "lost_metadata = ''stored torrent metadata lost '' @ [CHR 0xE2, CHR 0x80, CHR 0x94] @ '' re-add this torrent''"

text \<open>\<open>resume\<close>; the id drawn by \<open>TorrentSession::new\<close> is replaced by that of the record.\<close>

definition resume ::
  "(bytes \<Rightarrow> bytes) \<Rightarrow> uuid \<Rightarrow> nat \<Rightarrow> download_record \<Rightarrow> manager \<Rightarrow> manager \<times> uuid option" where
  "resume sha1 drawn now r m = (case metainfo_from_bytes sha1 (dr_metainfo_bytes r) of
       Inl _ \<Rightarrow> (with_store (\<lambda>s. fst (put_download
           (r\<lparr>dr_status := (dr_status r)\<lparr>st_state := Errored lost_metadata\<rparr>\<rparr>) s)) m, None)
     | Inr mi \<Rightarrow>
         (spawn_session (with_id (dr_id r) (session_new drawn now mi
            \<lparr>do_port = DEFAULT_PEER_PORT, do_max_peers = DEFAULT_MAX_PEERS, do_output_dir = dr_output_dir r,
             do_no_dht = False, do_lightspeed = dr_lightspeed r\<rparr>)) m, Some (dr_id r)))"

definition finished_state :: "session_state \<Rightarrow> bool" where
  "finished_state st \<longleftrightarrow> st = Completed \<or> st = Cancelled"

definition resume_one ::
  "(bytes \<Rightarrow> bytes) \<Rightarrow> uuid \<Rightarrow> nat \<Rightarrow> download_record \<Rightarrow> manager \<times> nat \<Rightarrow> manager \<times> nat" where
  "resume_one sha1 drawn now r = (\<lambda>(m, resumed).
     if finished_state (st_state (dr_status r)) then (m, resumed)
     else case resume sha1 drawn now r m of
         (m', Some _) \<Rightarrow> (m', resumed + 1)
       | (m', None) \<Rightarrow> (m', resumed))"

definition resume_all :: "(bytes \<Rightarrow> bytes) \<Rightarrow> uuid \<Rightarrow> nat \<Rightarrow> manager \<Rightarrow> manager \<times> nat" where
  "resume_all sha1 drawn now m = (case list_downloads (mg_store m) of
       (s', DbErr) \<Rightarrow> (m\<lparr>mg_store := s'\<rparr>, 0)
     | (s', DbOk rs) \<Rightarrow> fold (resume_one sha1 drawn now) rs (m\<lparr>mg_store := s'\<rparr>, 0))"

section \<open>While a session runs and when it ends\<close>

text \<open>The status of a download is saved in two steps: its record is read, then written back.\<close>

definition save_read :: "uuid \<Rightarrow> store \<Rightarrow> download_record option" where
  "save_read i s = (case get_download i s of DbOk (Some r) \<Rightarrow> Some r | _ \<Rightarrow> None)"

definition save_write :: "session_status \<Rightarrow> download_record option \<Rightarrow> store \<Rightarrow> store" where
  "save_write st r s = (case r of None \<Rightarrow> s | Some r \<Rightarrow> fst (put_download (r\<lparr>dr_status := st\<rparr>) s))"

definition save_status :: "uuid \<Rightarrow> session_status \<Rightarrow> store \<Rightarrow> store" where
  "save_status i st s = save_write st (save_read i s) s"

definition should_persist :: "nat \<Rightarrow> session_state \<Rightarrow> bool" where
  "should_persist elapsed st \<longleftrightarrow> 5 \<le> elapsed \<or> st = Completed \<or> (\<exists>e. st = Errored e)"

lemma should_persist_code [code]:
  "should_persist elapsed st \<longleftrightarrow> 5 \<le> elapsed \<or> (case st of Completed \<Rightarrow> True | Errored _ \<Rightarrow> True | _ \<Rightarrow> False)"
  by (auto simp: should_persist_def split: session_state.splits)

text \<open>A running session writes its status, which the table shows while the download is in it; the
  status then goes to the browser and, when it is time, to the store.\<close>

definition status_changed :: "uuid \<Rightarrow> nat \<Rightarrow> session_status \<Rightarrow> manager \<Rightarrow> manager" where
  "status_changed i elapsed st m =
     (let m1 = (case map_of (mg_sessions m) i of None \<Rightarrow> m
            | Some sh \<Rightarrow> m\<lparr>mg_sessions := hm_insert i (sh\<lparr>sh_status := st\<rparr>) (mg_sessions m)\<rparr>);
          m2 = send_event (event_update i st) m1 in
      if should_persist elapsed (st_state st) then with_store (save_status i st) m2 else m2)"

text \<open>The import may panic, which ends its task; entries are only written once all names are read.\<close>

definition library_import ::
  "import_env \<Rightarrow> host \<Rightarrow> bool \<Rightarrow> (pathbuf \<Rightarrow> dir_node list) \<Rightarrow> uuid \<Rightarrow> manager \<Rightarrow> manager" where
  "library_import env h has_runner tree i m = (case get_download i (mg_store m) of
       DbOk (Some r) \<Rightarrow>
         (let dir = path_join (dr_output_dir r) (path_of (dr_name r)) in
          case import_download env h has_runner i (dr_name r) dir
              (detect_video_files (im_unicode env) dir (tree dir)) (mg_store m) of
            Done (s', jobs) \<Rightarrow> m\<lparr>mg_store := s', mg_jobs := mg_jobs m @ jobs\<rparr>
          | Panic \<Rightarrow> with_store (\<lambda>s. fst (list_media s)) m)
     | _ \<Rightarrow> m)"

definition session_ended ::
  "import_env \<Rightarrow> host \<Rightarrow> bool \<Rightarrow> (pathbuf \<Rightarrow> dir_node list) \<Rightarrow> uuid \<Rightarrow> manager \<Rightarrow> manager" where
  "session_ended env h has_runner tree i m = (case map_of (mg_sessions m) i of
       None \<Rightarrow> m
     | Some sh \<Rightarrow>
         (let final = sh_status sh;
              m1 = with_store (save_status i final) (send_event (event_update i final) m) in
          if st_state final = Completed then library_import env h has_runner tree i m1 else m1))"

section \<open>Queries and removal\<close>

definition mgr_list :: "manager \<Rightarrow> manager \<times> session_status list" where
  "mgr_list m =
     (let statuses = map (\<lambda>(_, sh). sh_status sh) (mg_sessions m); active_ids = map st_id statuses in
      case list_downloads (mg_store m) of
        (s', DbErr) \<Rightarrow> (m\<lparr>mg_store := s'\<rparr>, statuses)
      | (s', DbOk rs) \<Rightarrow> (m\<lparr>mg_store := s'\<rparr>,
           statuses @ map dr_status (filter (\<lambda>r. dr_id r \<notin> set active_ids) rs)))"

definition mgr_get :: "uuid \<Rightarrow> manager \<Rightarrow> session_status option" where
  "mgr_get i m = (case map_of (mg_sessions m) i of
       Some sh \<Rightarrow> Some (sh_status sh)
     | None \<Rightarrow> map_option dr_status (save_read i (mg_store m)))"

definition mgr_remove :: "uuid \<Rightarrow> manager \<Rightarrow> manager" where
  "mgr_remove i m =
     (let m1 = (case map_of (mg_sessions m) i of None \<Rightarrow> m
            | Some _ \<Rightarrow> m\<lparr>mg_sessions := hm_remove i (mg_sessions m), mg_cancelled := i # mg_cancelled m\<rparr>);
          m2 = with_store (\<lambda>s. fst (remove_download i s)) m1 in
      case mgr_get i m of None \<Rightarrow> m2 | Some st \<Rightarrow> send_event (event_removed i st) m2)"

section \<open>Magnet links\<close>

definition register_magnet :: "uuid \<Rightarrow> nat \<Rightarrow> bytes \<Rightarrow> bytes \<Rightarrow> manager \<Rightarrow> manager" where
  "register_magnet i now name info_hash m =
     (let st = \<lparr>st_id = i, st_name = name, st_info_hash = info_hash, st_state = Resolving,
            st_total_bytes = 0, st_downloaded_bytes = 0, st_pieces_done = 0, st_pieces_total = 0,
            st_peer_count = 0, st_download_speed = f64_zero, st_progress = f64_zero, st_started_at = now,
            st_completed_at = None, st_uploaded_bytes = 0\<rparr>;
          r = \<lparr>dr_id = i, dr_name = name, dr_info_hash = info_hash, dr_total_bytes = 0, dr_pieces_total = 0,
            dr_metainfo_bytes = [], dr_output_dir = path_of (ascii ''.''), dr_lightspeed = False,
            dr_completed_pieces = [], dr_status = st\<rparr>;
          m1 = send_event (event_update i st) (with_store (\<lambda>s. fst (put_download r s)) m) in
      m1\<lparr>mg_sessions := hm_insert i \<lparr>sh_name = name, sh_status = st\<rparr> (mg_sessions m1)\<rparr>)"

definition resolve_magnet ::
  "uuid \<Rightarrow> uuid \<Rightarrow> nat \<Rightarrow> metainfo \<Rightarrow> bytes \<Rightarrow> download_options \<Rightarrow> manager \<Rightarrow> manager" where
  "resolve_magnet placeholder i now mi metainfo_bytes opts m =
     mgr_add_torrent i now mi metainfo_bytes opts
       (with_store (\<lambda>s. fst (remove_download placeholder s))
         (m\<lparr>mg_sessions := hm_remove placeholder (mg_sessions m)\<rparr>))"

definition fail_magnet :: "uuid \<Rightarrow> string \<Rightarrow> manager \<Rightarrow> manager" where
  "fail_magnet i err m = (case map_of (mg_sessions m) i of
       None \<Rightarrow> m
     | Some sh \<Rightarrow>
         (let st = (sh_status sh)\<lparr>st_state := Errored err\<rparr>;
              m1 = m\<lparr>mg_sessions := hm_insert i (sh\<lparr>sh_status := st\<rparr>) (mg_sessions m)\<rparr> in
          with_store (save_status i st) (send_event (event_update i st) m1)))"

end
