(* ===== verification/Manager_Correct.thy ===== *)
theory Manager_Correct
  imports Manager
begin

text \<open>
  The manager's table and the store stay consistent under every operation: each download has one id,
  the list and the single query agree, a removed download stays away, and a restart takes up exactly
  the downloads it can.
\<close>

section \<open>The invariant\<close>

definition record_ok :: "uuid \<Rightarrow> download_record stored \<Rightarrow> bool" where
  "record_ok i v = (case v of Corrupt \<Rightarrow> True | Valid r \<Rightarrow> dr_id r = i \<and> st_id (dr_status r) = i)"

definition downloads_ok :: "store \<Rightarrow> bool" where
  "downloads_ok s \<longleftrightarrow> bt_wf (db_downloads s) \<and> (\<forall>i v. map_of (db_downloads s) i = Some v \<longrightarrow> record_ok i v)"

definition sessions_ok :: "(uuid \<times> session_handle) list \<Rightarrow> bool" where
  "sessions_ok t \<longleftrightarrow> hm_wf t \<and> (\<forall>i sh. map_of t i = Some sh \<longrightarrow> st_id (sh_status sh) = i)"

definition mg_ok :: "manager \<Rightarrow> bool" where
  "mg_ok m \<longleftrightarrow> sessions_ok (mg_sessions m) \<and> downloads_ok (mg_store m)"

datatype manager_op =
    AddTorrent uuid nat metainfo bytes download_options
  | ResumeAll uuid nat
  | StatusChanged uuid nat session_status
  | SessionEnded uuid
  | RemoveDownload uuid
  | RegisterMagnet uuid nat bytes bytes
  | ResolveMagnet uuid uuid nat metainfo bytes download_options
  | FailMagnet uuid string
  | ListAll

fun mgr_step ::
  "(bytes \<Rightarrow> bytes) \<Rightarrow> import_env \<Rightarrow> host \<Rightarrow> bool \<Rightarrow> (pathbuf \<Rightarrow> dir_node list) \<Rightarrow> manager \<Rightarrow> manager_op \<Rightarrow> manager"
where
  "mgr_step sha1 env h r tree m (AddTorrent i now mi bs opts) = mgr_add_torrent i now mi bs opts m"
| "mgr_step sha1 env h r tree m (ResumeAll drawn now) = fst (resume_all sha1 drawn now m)"
| "mgr_step sha1 env h r tree m (StatusChanged i elapsed st) = status_changed i elapsed st m"
| "mgr_step sha1 env h r tree m (SessionEnded i) = session_ended env h r tree i m"
| "mgr_step sha1 env h r tree m (RemoveDownload i) = mgr_remove i m"
| "mgr_step sha1 env h r tree m (RegisterMagnet i now name hash) = register_magnet i now name hash m"
| "mgr_step sha1 env h r tree m (ResolveMagnet p i now mi bs opts) = resolve_magnet p i now mi bs opts m"
| "mgr_step sha1 env h r tree m (FailMagnet i err) = fail_magnet i err m"
| "mgr_step sha1 env h r tree m ListAll = fst (mgr_list m)"

text \<open>A session reports its own status.\<close>

fun op_ok :: "manager \<Rightarrow> manager_op \<Rightarrow> bool" where
  "op_ok m (StatusChanged i _ st) = (st_id st = i)"
| "op_ok m _ = True"

section \<open>The store\<close>

lemma bt_wf_filter: "bt_wf t \<Longrightarrow> bt_wf (filter P t)"
  by (induction t) (auto simp: bt_wf_def)

lemma map_of_filter: "distinct (map fst t) \<Longrightarrow>
    map_of (filter P t) k = (case map_of t k of None \<Rightarrow> None | Some v \<Rightarrow> if P (k, v) then Some v else None)"
  by (induction t) (auto split: option.splits simp: map_of_eq_None_iff)

lemma bt_wf_remove: "bt_wf t \<Longrightarrow> bt_wf (hm_remove k t)"
  by (simp add: hm_remove_def bt_wf_filter)

lemma map_of_drop_corrupt: "bt_wf t \<Longrightarrow> map_of (drop_corrupt t) k =
    (case map_of t k of Some (Valid r) \<Rightarrow> Some (Valid r) | _ \<Rightarrow> None)"
  by (auto simp: drop_corrupt_def map_of_filter bt_wf_distinct split: option.splits stored.splits)

lemma put_download_ok:
  "downloads_ok s \<Longrightarrow> st_id (dr_status r) = dr_id r \<Longrightarrow> downloads_ok (fst (put_download r s))"
  by (auto simp: put_download_def downloads_ok_def record_ok_def)

lemma remove_download_ok: "downloads_ok s \<Longrightarrow> downloads_ok (fst (remove_download i s))"
  by (auto simp: remove_download_def downloads_ok_def bt_wf_remove)

lemma list_downloads_ok: "downloads_ok s \<Longrightarrow> downloads_ok (fst (list_downloads s))"
  by (auto simp: list_downloads_def downloads_ok_def map_of_drop_corrupt bt_wf_filter
      simp: drop_corrupt_def [of "db_downloads s", symmetric] split: option.splits stored.splits)
    (simp add: drop_corrupt_def bt_wf_filter)

lemma save_read_Some: "save_read i s = Some r \<longleftrightarrow> db_ok s \<and> map_of (db_downloads s) i = Some (Valid r)"
  by (auto simp: save_read_def get_download_def split: option.splits stored.splits)

lemma valid_record:
  "downloads_ok s \<Longrightarrow> map_of (db_downloads s) i = Some (Valid r) \<Longrightarrow> dr_id r = i \<and> st_id (dr_status r) = i"
  by (force simp: downloads_ok_def record_ok_def)

lemma save_status_ok: "downloads_ok s \<Longrightarrow> st_id st = i \<Longrightarrow> downloads_ok (save_status i st s)"
  by (auto simp: save_status_def save_write_def save_read_Some dest: valid_record intro!: put_download_ok
      split: option.splits)

lemma media_keeps_downloads [simp]:
  "db_downloads (fst (put_media e s)) = db_downloads s" "db_downloads (fst (list_media s)) = db_downloads s"
  "db_ok (fst (put_media e s)) = db_ok s" "db_ok (fst (list_media s)) = db_ok s"
  by (simp_all add: put_media_def list_media_def)

lemma put_all_keeps_downloads [simp]:
  "db_downloads (fold (\<lambda>e s. fst (put_media e s)) es s) = db_downloads s"
  "db_ok (fold (\<lambda>e s. fst (put_media e s)) es s) = db_ok s"
  by (induction es arbitrary: s) simp_all

lemma import_keeps_downloads:
  "import_download env h r i n d vs s = Done (s', jobs) \<Longrightarrow> db_downloads s' = db_downloads s \<and> db_ok s' = db_ok s"
  by (auto simp: import_download_def run_bind_Done Let_def split: prod.splits)
    (metis media_keeps_downloads fst_conv)+

lemma library_import_keeps:
  "mg_sessions (library_import env h r tree i m) = mg_sessions m"
  "db_downloads (mg_store (library_import env h r tree i m)) = db_downloads (mg_store m)"
  "db_ok (mg_store (library_import env h r tree i m)) = db_ok (mg_store m)"
  by (auto simp: library_import_def with_store_def Let_def dest: import_keeps_downloads
      split: db.splits option.splits run.splits)

section \<open>Preservation\<close>

lemma mg_ok_simps [simp]:
  "mg_sessions (send_event e m) = mg_sessions m" "mg_store (send_event e m) = mg_store m"
  "mg_sessions (with_store f m) = mg_sessions m" "mg_store (with_store f m) = f (mg_store m)"
  by (simp_all add: send_event_def with_store_def)

lemma sessions_ok_insert [simp]: "sessions_ok t \<Longrightarrow> st_id (sh_status sh) = i \<Longrightarrow> sessions_ok (hm_insert i sh t)"
  by (auto simp: sessions_ok_def)

lemma sessions_ok_remove [simp]: "sessions_ok t \<Longrightarrow> sessions_ok (hm_remove i t)"
  by (auto simp: sessions_ok_def split: if_splits)

lemmas store_ok = put_download_ok remove_download_ok list_downloads_ok save_status_ok

lemma add_torrent_ok: "mg_ok m \<Longrightarrow> mg_ok (mgr_add_torrent i now mi bs opts m)"
  by (simp add: mg_ok_def mgr_add_torrent_def Let_def session_new_def initial_status_def spawn_session_def
      session_handle_of_def store_ok)

lemma resume_ok: "mg_ok m \<Longrightarrow> st_id (dr_status r) = dr_id r \<Longrightarrow> mg_ok (fst (resume sha1 drawn now r m))"
  by (simp add: mg_ok_def resume_def with_id_def spawn_session_def session_handle_of_def store_ok split: sum.splits)

lemma resume_one_ok:
  "mg_ok m \<Longrightarrow> st_id (dr_status r) = dr_id r \<Longrightarrow> mg_ok (fst (resume_one sha1 drawn now r (m, n)))"
  using resume_ok [of m r sha1 drawn now] by (auto simp: resume_one_def split: prod.splits option.splits)

lemma fold_resume_ok:
  "mg_ok m \<Longrightarrow> \<forall>r \<in> set rs. st_id (dr_status r) = dr_id r \<Longrightarrow> mg_ok (fst (fold (resume_one sha1 drawn now) rs (m, n)))"
proof (induction rs arbitrary: m n)
  case (Cons r rs)
  obtain m' n' where r: "resume_one sha1 drawn now r (m, n) = (m', n')" by fastforce
  then have "mg_ok m'" using resume_one_ok [of m r sha1 drawn now n] Cons.prems by simp
  then show ?case using Cons r by simp
qed simp

lemma valid_value_ok: "downloads_ok s \<Longrightarrow> r \<in> set (valid_values (db_downloads s)) \<Longrightarrow>
    map_of (db_downloads s) (dr_id r) = Some (Valid r) \<and> st_id (dr_status r) = dr_id r"
proof -
  assume ok: "downloads_ok s" and "r \<in> set (valid_values (db_downloads s))"
  then obtain i where i: "(i, Valid r) \<in> set (db_downloads s)"
    by (auto simp: valid_values_def map_filter_def split: stored.splits)
  then have "map_of (db_downloads s) i = Some (Valid r)"
    using ok by (simp add: downloads_ok_def bt_wf_distinct)
  then show ?thesis using valid_record [OF ok] by auto
qed

lemma resume_all_ok: "mg_ok m \<Longrightarrow> mg_ok (fst (resume_all sha1 drawn now m))"
proof -
  assume ok: "mg_ok m"
  then have "mg_ok (m\<lparr>mg_store := fst (list_downloads (mg_store m))\<rparr>)"
    by (simp add: mg_ok_def list_downloads_ok)
  then show ?thesis
    using valid_value_ok [of "mg_store m"] ok
    by (auto simp: resume_all_def list_downloads_def mg_ok_def [of m] intro!: fold_resume_ok)
qed

lemma downloads_ok_cong: "db_downloads s' = db_downloads s \<Longrightarrow> downloads_ok s' = downloads_ok s"
  by (simp add: downloads_ok_def)

lemma library_import_ok: "mg_ok (library_import env h r tree i m) = mg_ok m"
  by (simp add: mg_ok_def library_import_keeps downloads_ok_cong [OF library_import_keeps(2)])

lemma mgr_step_ok: "mg_ok m \<Longrightarrow> op_ok m op \<Longrightarrow> mg_ok (mgr_step sha1 env h r tree m op)"
proof (induction op)
  case (SessionEnded i)
  then show ?case
    by (auto simp: session_ended_def Let_def library_import_ok split: option.splits)
      (auto simp: mg_ok_def sessions_ok_def intro!: save_status_ok)
next
  case (FailMagnet i err)
  then have "st_id (sh_status sh) = i" if "map_of (mg_sessions m) i = Some sh" for sh
    using that by (simp add: mg_ok_def sessions_ok_def)
  with FailMagnet show ?case
    by (auto simp: fail_magnet_def Let_def mg_ok_def store_ok split: option.splits)
next
  case (ResolveMagnet p i now mi bs opts)
  then have "mg_ok (with_store (\<lambda>s. fst (remove_download p s)) (m\<lparr>mg_sessions := hm_remove p (mg_sessions m)\<rparr>))"
    by (simp add: mg_ok_def store_ok)
  then show ?case by (simp add: resolve_magnet_def add_torrent_ok)
next
  case ListAll
  have "mg_store (fst (mgr_list m)) = fst (list_downloads (mg_store m))"
    "mg_sessions (fst (mgr_list m)) = mg_sessions m"
    by (simp_all add: mgr_list_def list_downloads_def Let_def)
  with ListAll show ?case by (simp add: mg_ok_def store_ok)
next
  case (AddTorrent i now mi bs opts)
  then show ?case by (simp add: add_torrent_ok)
next
  case (ResumeAll drawn now)
  then show ?case by (simp add: resume_all_ok)
qed (auto simp: mg_ok_def status_changed_def mgr_remove_def register_magnet_def Let_def store_ok
    split: option.splits)

interpretation manager_machine: machine op_ok "mgr_step sha1 env h r tree" mg_ok for sha1 env h r tree
  by unfold_locales (rule mgr_step_ok)

section \<open>The list and the single query\<close>

lemma find_map_of:
  "(\<And>k v. (k, v) \<in> set t \<Longrightarrow> key (g v) = k) \<Longrightarrow> List.find (\<lambda>x. key x = i) (map (\<lambda>(_, v). g v) t) = map_option g (map_of t i)"
  by (induction t) force+

lemma find_append: "List.find P (xs @ ys) = (case List.find P xs of None \<Rightarrow> List.find P ys | Some x \<Rightarrow> Some x)"
  by (induction xs) auto

lemma find_valid:
  "downloads_ok s \<Longrightarrow> List.find (\<lambda>st. st_id st = i) (map dr_status (filter (\<lambda>r. dr_id r \<notin> A) (valid_values (db_downloads s))))
    = (if i \<in> A then None else case map_of (db_downloads s) i of Some (Valid r) \<Rightarrow> Some (dr_status r) | _ \<Rightarrow> None)"
proof -
  assume ok: "downloads_ok s"
  have "List.find (\<lambda>st. st_id st = i) (map dr_status (filter (\<lambda>r. dr_id r \<notin> A) (valid_values t)))
    = (if i \<in> A then None else case map_of t i of Some (Valid r) \<Rightarrow> Some (dr_status r) | _ \<Rightarrow> None)"
    if "bt_wf t" "\<And>k r. (k, Valid r) \<in> set t \<Longrightarrow> dr_id r = k \<and> st_id (dr_status r) = k" for t
    using that
  proof (induction t)
    case (Cons kv t)
    obtain k v where kv: "kv = (k, v)" by force
    have IH: "List.find (\<lambda>st. st_id st = i) (map dr_status (filter (\<lambda>r. dr_id r \<notin> A) (valid_values t)))
      = (if i \<in> A then None else case map_of t i of Some (Valid r) \<Rightarrow> Some (dr_status r) | _ \<Rightarrow> None)"
      using Cons by (auto simp: kv bt_wf_Cons)
    have fresh: "map_of t k = None"
      using Cons.prems(1) by (force simp: kv bt_wf_Cons map_of_eq_None_iff)
    show ?case
    proof (cases v)
      case (Valid r)
      then have "dr_id r = k" "st_id (dr_status r) = k" using Cons.prems(2) by (auto simp: kv)
      with Valid show ?thesis
        using IH fresh by (auto simp: kv valid_values_def map_filter_Cons)
    next
      case Corrupt
      then show ?thesis using IH fresh by (auto simp: kv valid_values_def map_filter_Cons)
    qed
  qed (simp add: valid_values_def List.map_filter_simps)
  moreover have "bt_wf (db_downloads s)" using ok by (simp add: downloads_ok_def)
  moreover have "dr_id r = k \<and> st_id (dr_status r) = k" if "(k, Valid r) \<in> set (db_downloads s)" for k r
    using that ok valid_record [OF ok] by (auto simp: downloads_ok_def bt_wf_distinct)
  ultimately show ?thesis by blast
qed

lemma valid_ids: "downloads_ok s \<Longrightarrow> map (\<lambda>r. st_id (dr_status r)) (valid_values (db_downloads s)) = map fst (drop_corrupt (db_downloads s))"
proof -
  assume ok: "downloads_ok s"
  have "st_id (dr_status r) = k" if "(k, Valid r) \<in> set (db_downloads s)" for k r
    using that ok valid_record [OF ok] by (auto simp: downloads_ok_def bt_wf_distinct)
  moreover have "(\<And>k r. (k, Valid r) \<in> set t \<Longrightarrow> st_id (dr_status r) = k) \<Longrightarrow>
      map (\<lambda>r. st_id (dr_status r)) (valid_values t) = map fst (drop_corrupt t)" for t
    by (induction t) (auto simp: valid_values_def drop_corrupt_def map_filter_Cons List.map_filter_simps
        split: stored.splits)
  ultimately show ?thesis by blast
qed

lemma session_ids: "sessions_ok t \<Longrightarrow> map st_id (map (\<lambda>(_, sh). sh_status sh) t) = map fst t"
proof -
  assume ok: "sessions_ok t"
  then have "st_id (sh_status sh) = i" if "(i, sh) \<in> set t" for i sh
    using that by (auto simp: sessions_ok_def hm_wf_def)
  then show ?thesis by (induction t) auto
qed

lemma mgr_list_find:
  assumes "mg_ok m"
  shows "List.find (\<lambda>st. st_id st = i) (snd (mgr_list m)) = mgr_get i m"
proof -
  have sess: "sessions_ok (mg_sessions m)" and store: "downloads_ok (mg_store m)" using assms by (auto simp: mg_ok_def)
  let ?st = "map (\<lambda>(_, sh). sh_status sh) (mg_sessions m)"
  have act: "map st_id ?st = map fst (mg_sessions m)" using session_ids [OF sess] .
  have "List.find (\<lambda>st. st_id st = i) ?st = map_option sh_status (map_of (mg_sessions m) i)"
    using sess by (intro find_map_of) (auto simp: sessions_ok_def hm_wf_def)
  moreover have "i \<in> set (map st_id ?st) \<longleftrightarrow> map_of (mg_sessions m) i \<noteq> None"
    unfolding act by (auto simp: map_of_eq_None_iff)
  ultimately show ?thesis
    using find_valid [OF store, of i "set (map st_id ?st)"]
    by (auto simp: mgr_list_def mgr_get_def Let_def list_downloads_def find_append save_read_def get_download_def
        split: option.splits stored.splits simp del: set_map map_map)
qed

lemma mgr_list_distinct:
  assumes "mg_ok m"
  shows "distinct (map st_id (snd (mgr_list m)))"
proof -
  have sess: "sessions_ok (mg_sessions m)" and store: "downloads_ok (mg_store m)" using assms by (auto simp: mg_ok_def)
  have eq: "st_id (dr_status r) = dr_id r" if "r \<in> set (valid_values (db_downloads (mg_store m)))" for r
    using valid_value_ok [OF store that] by simp
  have "distinct (map (\<lambda>r. st_id (dr_status r)) (valid_values (db_downloads (mg_store m))))"
    unfolding valid_ids [OF store] using store
    by (simp add: drop_corrupt_def bt_wf_distinct bt_wf_filter downloads_ok_def)
  then have "distinct (map (\<lambda>r. st_id (dr_status r)) (filter P (valid_values (db_downloads (mg_store m)))))" for P
    by (simp add: distinct_map_filter)
  then have rs: "distinct (map st_id (map dr_status (filter P (valid_values (db_downloads (mg_store m))))))" for P
    by (simp add: comp_def)
  let ?st = "map (\<lambda>(_, sh). sh_status sh) (mg_sessions m)"
  have d: "distinct (map st_id ?st)"
    unfolding session_ids [OF sess] using sess by (simp add: sessions_ok_def hm_wf_def)
  have "A \<inter> set (map st_id (map dr_status
      (filter (\<lambda>r. dr_id r \<notin> A) (valid_values (db_downloads (mg_store m)))))) = {}" for A
    using eq by auto
  with d rs show ?thesis
    unfolding mgr_list_def list_downloads_def Let_def
    by (simp del: map_map set_map add: if_split)
qed

text \<open>
  C6. From a consistent store, whatever operations follow in whatever order, the list of downloads
  shows every download once, and asking for one id gives exactly its line of the list.
\<close>

theorem list_agrees_with_get:
  assumes "downloads_ok (mg_store m0)" and "mg_sessions m0 = []"
    and "run_events op_ok (mgr_step sha1 env h r tree) m0 ops = Some m"
  shows "distinct (map st_id (snd (mgr_list m)))
    \<and> (\<forall>i. mgr_get i m = List.find (\<lambda>st. st_id st = i) (snd (mgr_list m)))"
proof -
  have "mg_ok m0" using assms by (simp add: mg_ok_def sessions_ok_def hm_wf_def)
  then have "mg_ok m" using manager_machine.run_inv [OF _ assms(3)] by blast
  then show ?thesis using mgr_list_find mgr_list_distinct by simp
qed

definition example_status :: "uuid \<Rightarrow> session_state \<Rightarrow> session_status" where
  "example_status i st = \<lparr>st_id = i, st_name = ascii ''n'', st_info_hash = [], st_state = st, st_total_bytes = 0,
     st_downloaded_bytes = 0, st_pieces_done = 0, st_pieces_total = 0, st_peer_count = 0, st_download_speed = f64_zero,
     st_progress = f64_zero, st_started_at = 0, st_completed_at = None, st_uploaded_bytes = 0\<rparr>"

definition example_record :: "uuid \<Rightarrow> bytes \<Rightarrow> session_state \<Rightarrow> download_record" where
  "example_record i metainfo_bytes st = \<lparr>dr_id = i, dr_name = ascii ''n'', dr_info_hash = [], dr_total_bytes = 0,
     dr_pieces_total = 0, dr_metainfo_bytes = metainfo_bytes, dr_output_dir = home_u, dr_lightspeed = False,
     dr_completed_pieces = [], dr_status = example_status i st\<rparr>"

definition example_manager :: manager where
  "example_manager = \<lparr>mg_sessions = [], mg_events = [], mg_store = \<lparr>db_downloads =
       [([1], Valid (example_record [1] small_torrent Downloading)), ([2], Valid (example_record [2] [] Downloading)),
        ([3], Valid (example_record [3] small_torrent Completed)), ([4], Corrupt)],
     db_library = [], db_settings = None, db_ok = True\<rparr>, mg_running = [], mg_cancelled = [], mg_jobs = []\<rparr>"

lemma example_manager_ok: "downloads_ok (mg_store example_manager)" "sessions_ok (mg_sessions example_manager)"
    "db_ok (mg_store example_manager)" "mg_sessions example_manager = []"
  by (auto simp: example_manager_def downloads_ok_def bt_wf_Cons record_ok_def example_record_def
      example_status_def sessions_ok_def split: if_splits)

abbreviation example_step :: "manager \<Rightarrow> manager_op \<Rightarrow> manager" where
  "example_step \<equiv> mgr_step (take 20) example_import example_host True example_tree"

theorem list_agrees_with_get_witness:
  "distinct (map st_id (snd (mgr_list (register_magnet [9] 0 (ascii ''m'') [] example_manager))))
   \<and> List.find (\<lambda>st. st_id st = [9]) (snd (mgr_list (register_magnet [9] 0 (ascii ''m'') [] example_manager))) \<noteq> None"
proof -
  have "run_events op_ok example_step example_manager [RegisterMagnet [9] 0 (ascii ''m'') []] =
      Some (register_magnet [9] 0 (ascii ''m'') [] example_manager)" by simp
  note t = list_agrees_with_get [OF example_manager_ok(1,4) this]
  have "mgr_get [9] (register_magnet [9] 0 (ascii ''m'') [] example_manager) \<noteq> None"
    by (simp add: mgr_get_def register_magnet_def Let_def send_event_def with_store_def)
  with t show ?thesis by metis
qed

section \<open>Removal\<close>

definition gone :: "uuid \<Rightarrow> manager \<Rightarrow> bool" where
  "gone i m \<longleftrightarrow> map_of (mg_sessions m) i = None \<and> map_of (db_downloads (mg_store m)) i = None"

text \<open>The operations that bring in a download under the id \<open>i\<close>.\<close>

fun introduces :: "uuid \<Rightarrow> manager_op \<Rightarrow> bool" where
  "introduces i (AddTorrent j _ _ _ _) = (i = j)"
| "introduces i (RegisterMagnet j _ _ _) = (i = j)"
| "introduces i (ResolveMagnet _ j _ _ _ _) = (i = j)"
| "introduces i _ = False"

lemma put_download_at: "dr_id r \<noteq> i \<Longrightarrow> map_of (db_downloads (fst (put_download r s))) i = map_of (db_downloads s) i"
  by (simp add: put_download_def)

lemma save_status_at:
  "downloads_ok s \<Longrightarrow> map_of (db_downloads s) i = None \<Longrightarrow> map_of (db_downloads (save_status j st s)) i = None"
  by (cases "i = j") (auto simp: save_status_def save_write_def save_read_Some put_download_def
      dest: valid_record split: option.splits)

lemma gone_resume: "gone i m \<Longrightarrow> dr_id r \<noteq> i \<Longrightarrow> gone i (fst (resume sha1 drawn now r m))"
  by (auto simp: gone_def resume_def spawn_session_def with_id_def put_download_at split: sum.splits)

lemma gone_fold_resume:
  "gone i m \<Longrightarrow> \<forall>r \<in> set rs. dr_id r \<noteq> i \<Longrightarrow> gone i (fst (fold (resume_one sha1 drawn now) rs (m, n)))"
proof (induction rs arbitrary: m n)
  case (Cons r rs)
  obtain m' n' where r: "resume_one sha1 drawn now r (m, n) = (m', n')" by fastforce
  then have "gone i m'"
    using gone_resume [of i m r sha1 drawn now] Cons.prems by (auto simp: resume_one_def split: prod.splits option.splits if_splits)
  then show ?case using Cons r by simp
qed simp

lemma gone_list: "gone i m \<Longrightarrow> map_of (db_downloads (fst (list_downloads (mg_store m)))) i = None"
  by (auto simp: gone_def list_downloads_def drop_corrupt_def map_of_eq_None_iff)

lemma gone_add: "gone i m \<Longrightarrow> i \<noteq> j \<Longrightarrow> gone i (mgr_add_torrent j now mi bs opts m)"
  by (simp add: gone_def mgr_add_torrent_def Let_def spawn_session_def session_new_def put_download_at)

lemma mgr_step_gone:
  assumes "mg_ok m" and "gone i m" and "op_ok m op" and "\<not> introduces i op"
  shows "gone i (mgr_step sha1 env h r tree m op)"
proof (cases op)
  case (ResumeAll drawn now)
  have "dr_id r \<noteq> i" if "r \<in> set (valid_values (db_downloads (mg_store m)))" for r
    using valid_value_ok [of "mg_store m" r] that assms(1,2) by (auto simp: mg_ok_def gone_def)
  then show ?thesis
    using gone_fold_resume [of i "m\<lparr>mg_store := fst (list_downloads (mg_store m))\<rparr>"] assms(2) gone_list [OF assms(2)]
    by (auto simp: ResumeAll resume_all_def list_downloads_def gone_def)
next
  case (ResolveMagnet p j now mi bs opts)
  then have "gone i (with_store (\<lambda>s. fst (remove_download p s)) (m\<lparr>mg_sessions := hm_remove p (mg_sessions m)\<rparr>))"
    using assms(2) by (auto simp: gone_def remove_download_def)
  then show ?thesis using ResolveMagnet assms(4) by (simp add: resolve_magnet_def gone_add)
next
  case (SessionEnded j)
  then show ?thesis
    using assms(1,2)
    by (auto simp: session_ended_def Let_def gone_def library_import_keeps save_status_at mg_ok_def split: option.splits)
next
  case ListAll
  have "mg_store (fst (mgr_list m)) = fst (list_downloads (mg_store m))"
    "mg_sessions (fst (mgr_list m)) = mg_sessions m"
    by (simp_all add: mgr_list_def list_downloads_def Let_def)
  with ListAll show ?thesis using assms(2) gone_list [OF assms(2)] by (simp add: gone_def)
qed (use assms in \<open>auto simp: gone_def status_changed_def mgr_remove_def register_magnet_def fail_magnet_def Let_def
    gone_add [unfolded gone_def] save_status_at mg_ok_def put_download_at remove_download_def split: option.splits\<close>)

interpretation removal_machine: machine "\<lambda>m op. op_ok m op \<and> \<not> introduces i op" "mgr_step sha1 env h r tree"
    "\<lambda>m. mg_ok m \<and> gone i m" for sha1 env h r tree i
  by unfold_locales (auto intro: mgr_step_ok mgr_step_gone)

lemma mgr_remove_gone: "db_ok (mg_store m) \<Longrightarrow> gone i (mgr_remove i m)"
  by (auto simp: gone_def mgr_remove_def Let_def remove_download_def split: option.splits)

text \<open>
  C7. A removed download stays away: its id is neither listed nor found, its session is told to stop,
  and no later status of that session, end of it, restart or resolved magnet link brings it back.
\<close>

theorem removed_stays_gone:
  assumes "downloads_ok (mg_store m)" and "sessions_ok (mg_sessions m)" and "db_ok (mg_store m)"
    and "run_events (\<lambda>m op. op_ok m op \<and> \<not> introduces i op) (mgr_step sha1 env h r tree) (mgr_remove i m) ops = Some m'"
  shows "mgr_get i m' = None \<and> i \<notin> set (map st_id (snd (mgr_list m')))
    \<and> (i \<in> fst ` set (mg_sessions m) \<longrightarrow> i \<in> set (mg_cancelled (mgr_remove i m)))"
proof -
  have ok: "mg_ok m" using assms(1,2) by (simp add: mg_ok_def)
  have "mg_ok (mgr_remove i m)" using mgr_step_ok [OF ok, of "RemoveDownload i"] by simp
  then have inv: "mg_ok m'" "gone i m'"
    using removal_machine.run_inv [OF _ assms(4)] mgr_remove_gone [OF assms(3)] by blast+
  then have get: "mgr_get i m' = None"
    by (auto simp: mgr_get_def gone_def save_read_def get_download_def split: db.splits option.splits)
  then have "i \<notin> set (map st_id (snd (mgr_list m')))"
    unfolding mgr_list_find [OF inv(1), symmetric] by (auto simp: find_None_iff)
  moreover have "i \<in> set (mg_cancelled (mgr_remove i m))" if "i \<in> fst ` set (mg_sessions m)"
  proof -
    have "map_of (mg_sessions m) i \<noteq> None" using that by (simp add: map_of_eq_None_iff)
    then show ?thesis by (auto simp: mgr_remove_def Let_def send_event_def with_store_def split: option.splits)
  qed
  ultimately show ?thesis using get by blast
qed

theorem removed_stays_gone_witness:
  "mgr_get [1] (fst (resume_all (take 20) [7] 0 (mgr_remove [1] example_manager))) = None"
proof -
  have "run_events (\<lambda>m op. op_ok m op \<and> \<not> introduces [1] op) example_step (mgr_remove [1] example_manager) [ResumeAll [7] 0]
      = Some (fst (resume_all (take 20) [7] 0 (mgr_remove [1] example_manager)))" by simp
  from removed_stays_gone [OF example_manager_ok(1-3) this] show ?thesis by blast
qed

text \<open>
  Saving a status is two steps, and a deletion may fall between them: the record read before is then
  written back, and the deleted download is in the store again.
\<close>

theorem delete_lost_to_save:
  assumes "db_ok s" and "save_read i s = Some r" and "dr_id r = i"
  shows "get_download i (save_write st (save_read i s) (fst (remove_download i s))) = DbOk (Some (r\<lparr>dr_status := st\<rparr>))"
  using assms by (simp add: save_write_def put_download_def remove_download_def get_download_def)

section \<open>Restart\<close>

text \<open>What a restart does with a record: the handle of the session it starts, and the record it keeps.\<close>

definition restarted :: "(bytes \<Rightarrow> bytes) \<Rightarrow> nat \<Rightarrow> download_record \<Rightarrow> session_handle option" where
  "restarted sha1 now r = (if st_state (dr_status r) = Completed \<or> st_state (dr_status r) = Cancelled then None
     else case metainfo_from_bytes sha1 (dr_metainfo_bytes r) of Inl _ \<Rightarrow> None
       | Inr mi \<Rightarrow> Some \<lparr>sh_name = info_name (mi_info mi),
           sh_status = initial_status (dr_id r) (hex_encode (mi_info_hash mi)) (mi_info mi) now\<rparr>)"

definition after_restart :: "(bytes \<Rightarrow> bytes) \<Rightarrow> download_record \<Rightarrow> download_record" where
  "after_restart sha1 r = (if st_state (dr_status r) = Completed \<or> st_state (dr_status r) = Cancelled then r
     else case metainfo_from_bytes sha1 (dr_metainfo_bytes r) of
         Inl _ \<Rightarrow> r\<lparr>dr_status := (dr_status r)\<lparr>st_state := Errored lost_metadata\<rparr>\<rparr> | Inr _ \<Rightarrow> r)"

text \<open>The session it starts: the id, folder and speed of the record, and the default port and limit.\<close>

definition restarted_session :: "(bytes \<Rightarrow> bytes) \<Rightarrow> nat \<Rightarrow> download_record \<Rightarrow> torrent_session option" where
  "restarted_session sha1 now r = (if st_state (dr_status r) = Completed \<or> st_state (dr_status r) = Cancelled then None
     else case metainfo_from_bytes sha1 (dr_metainfo_bytes r) of Inl _ \<Rightarrow> None
       | Inr mi \<Rightarrow> Some \<lparr>ts_id = dr_id r, ts_metainfo = mi,
           ts_options = \<lparr>do_port = 6881, do_max_peers = 80, do_output_dir = dr_output_dir r, do_no_dht = False,
             do_lightspeed = dr_lightspeed r\<rparr>,
           ts_status = initial_status (dr_id r) (hex_encode (mi_info_hash mi)) (mi_info mi) now\<rparr>)"

lemma restarted_iff: "restarted sha1 now r = None \<longleftrightarrow> restarted_session sha1 now r = None"
  by (simp add: restarted_def restarted_session_def split: sum.splits)

text \<open>What a restart leaves alone.\<close>

definition same_but_downloads :: "manager \<Rightarrow> manager \<Rightarrow> bool" where
  "same_but_downloads m m' \<longleftrightarrow> mg_events m' = mg_events m \<and> mg_cancelled m' = mg_cancelled m \<and> mg_jobs m' = mg_jobs m
     \<and> db_library (mg_store m') = db_library (mg_store m) \<and> db_settings (mg_store m') = db_settings (mg_store m)"

lemma resume_one_started:
  assumes "resume_one sha1 drawn now r (m, k) = (m', n)"
  shows "mg_running m' = mg_running m @ List.map_filter (restarted_session sha1 now) [r] \<and> same_but_downloads m m'"
  using assms by (cases "metainfo_from_bytes sha1 (dr_metainfo_bytes r)")
    (auto simp: resume_one_def resume_def restarted_session_def finished_state_def put_download_def spawn_session_def
      with_id_def session_new_def initial_status_def DEFAULT_PEER_PORT_def DEFAULT_MAX_PEERS_def with_store_def
      same_but_downloads_def List.map_filter_simps split: if_splits)

lemma fold_resume_started:
  "fold (resume_one sha1 drawn now) rs (m, k) = (m', n) \<Longrightarrow>
    mg_running m' = mg_running m @ List.map_filter (restarted_session sha1 now) rs \<and> same_but_downloads m m'"
proof (induction rs arbitrary: m k)
  case (Cons r rs)
  obtain m1 k1 where one: "resume_one sha1 drawn now r (m, k) = (m1, k1)" by fastforce
  then have "fold (resume_one sha1 drawn now) rs (m1, k1) = (m', n)" using Cons.prems by simp
  from Cons.IH [OF this] resume_one_started [OF one] show ?case
    by (auto simp: same_but_downloads_def List.map_filter_simps split: option.splits)
qed (simp add: same_but_downloads_def List.map_filter_simps)

lemma resume_one_spec:
  assumes "resume_one sha1 drawn now r (m, k) = (m', n)" and "db_ok (mg_store m)"
    and "map_of (db_downloads (mg_store m)) (dr_id r) = Some (Valid r)"
  shows "mg_sessions m' = (case restarted sha1 now r of None \<Rightarrow> mg_sessions m
      | Some sh \<Rightarrow> hm_insert (dr_id r) sh (mg_sessions m))
    \<and> map_of (db_downloads (mg_store m')) = (map_of (db_downloads (mg_store m)))(dr_id r \<mapsto> Valid (after_restart sha1 r))
    \<and> db_ok (mg_store m') \<and> n = k + (if restarted sha1 now r = None then 0 else 1)"
  using assms by (cases "metainfo_from_bytes sha1 (dr_metainfo_bytes r)")
    (auto simp: resume_one_def resume_def restarted_def after_restart_def finished_state_def put_download_def spawn_session_def
      with_id_def session_new_def session_handle_of_def initial_status_def fun_upd_idem split: if_splits)

lemma fold_resume_spec:
  assumes "fold (resume_one sha1 drawn now) rs (m, k) = (m', n)" and "db_ok (mg_store m)" and "distinct (map dr_id rs)"
    and "\<forall>r \<in> set rs. map_of (db_downloads (mg_store m)) (dr_id r) = Some (Valid r)"
  shows "(\<forall>i. i \<notin> dr_id ` set rs \<longrightarrow> map_of (mg_sessions m') i = map_of (mg_sessions m) i
        \<and> map_of (db_downloads (mg_store m')) i = map_of (db_downloads (mg_store m)) i)
    \<and> (\<forall>r \<in> set rs. map_of (mg_sessions m') (dr_id r) = (case restarted sha1 now r of
          None \<Rightarrow> map_of (mg_sessions m) (dr_id r) | Some sh \<Rightarrow> Some sh)
        \<and> map_of (db_downloads (mg_store m')) (dr_id r) = Some (Valid (after_restart sha1 r)))
    \<and> n = k + length (filter (\<lambda>r. restarted sha1 now r \<noteq> None) rs)"
  using assms
proof (induction rs arbitrary: m k)
  case (Cons r rs)
  obtain m1 k1 where one: "resume_one sha1 drawn now r (m, k) = (m1, k1)" by fastforce
  note spec = resume_one_spec [OF one Cons.prems(2) Cons.prems(4) [rule_format, OF list.set_intros(1)]]
  have fresh: "dr_id r \<notin> dr_id ` set rs" using Cons.prems(3) by simp
  have "fold (resume_one sha1 drawn now) rs (m1, k1) = (m', n)" using Cons.prems(1) one by simp
  moreover have "\<forall>r' \<in> set rs. map_of (db_downloads (mg_store m1)) (dr_id r') = Some (Valid r')"
    using spec Cons.prems(4) fresh by (auto simp: image_iff)
  ultimately have IH: "(\<forall>i. i \<notin> dr_id ` set rs \<longrightarrow> map_of (mg_sessions m') i = map_of (mg_sessions m1) i
        \<and> map_of (db_downloads (mg_store m')) i = map_of (db_downloads (mg_store m1)) i)"
    "(\<forall>r \<in> set rs. map_of (mg_sessions m') (dr_id r) = (case restarted sha1 now r of
          None \<Rightarrow> map_of (mg_sessions m1) (dr_id r) | Some sh \<Rightarrow> Some sh)
        \<and> map_of (db_downloads (mg_store m')) (dr_id r) = Some (Valid (after_restart sha1 r)))"
    "n = k1 + length (filter (\<lambda>r. restarted sha1 now r \<noteq> None) rs)"
    using Cons.IH [of m1 k1] spec Cons.prems(3) by auto
  have same: "map_of (mg_sessions m1) i = map_of (mg_sessions m) i" if "i \<noteq> dr_id r" for i
    using spec that by (auto split: option.splits)
  have "map_of (mg_sessions m') (dr_id r') = (case restarted sha1 now r' of
        None \<Rightarrow> map_of (mg_sessions m) (dr_id r') | Some sh \<Rightarrow> Some sh)
      \<and> map_of (db_downloads (mg_store m')) (dr_id r') = Some (Valid (after_restart sha1 r'))" if "r' \<in> set (r # rs)" for r'
  proof (cases "r' = r")
    case True
    then show ?thesis using IH(1) fresh spec by (auto split: option.splits)
  next
    case False
    then have r': "r' \<in> set rs" using that by simp
    then have "dr_id r' \<in> dr_id ` set rs" by blast
    then have "dr_id r' \<noteq> dr_id r" using fresh by metis
    then show ?thesis using IH(2) r' same by (auto split: option.splits)
  qed
  moreover have "map_of (mg_sessions m') i = map_of (mg_sessions m) i
      \<and> map_of (db_downloads (mg_store m')) i = map_of (db_downloads (mg_store m)) i" if "i \<notin> dr_id ` set (r # rs)" for i
    using that IH(1) same spec by auto
  ultimately show ?case using IH(3) spec by auto
qed simp

text \<open>The loop over the records of a store: what each of them becomes.\<close>

lemma fold_resume_records:
  assumes "downloads_ok (mg_store m)" and "db_ok (mg_store m)" and "mg_sessions m = []"
    and "fold (resume_one sha1 drawn now) (valid_values (db_downloads (mg_store m)))
      (m\<lparr>mg_store := (mg_store m)\<lparr>db_downloads := drop_corrupt (db_downloads (mg_store m))\<rparr>\<rparr>, 0) = (m', n)"
  shows "\<forall>i. i \<notin> dr_id ` set (valid_values (db_downloads (mg_store m))) \<longrightarrow> map_of (mg_sessions m') i = None
      \<and> map_of (db_downloads (mg_store m')) i = map_of (drop_corrupt (db_downloads (mg_store m))) i"
    and "\<forall>r \<in> set (valid_values (db_downloads (mg_store m))). map_of (mg_sessions m') (dr_id r) = restarted sha1 now r
      \<and> map_of (db_downloads (mg_store m')) (dr_id r) = Some (Valid (after_restart sha1 r))"
    and "n = length (filter (\<lambda>r. restarted sha1 now r \<noteq> None) (valid_values (db_downloads (mg_store m))))"
proof -
  let ?t = "db_downloads (mg_store m)" and ?m = "m\<lparr>mg_store := (mg_store m)\<lparr>db_downloads := drop_corrupt (db_downloads (mg_store m))\<rparr>\<rparr>"
  have wf: "bt_wf ?t" using assms(1) by (simp add: downloads_ok_def)
  note at = map_of_drop_corrupt [OF wf]
  note ids = valid_value_ok [OF assms(1)]
  have fold: "fold (resume_one sha1 drawn now) (valid_values ?t) (?m, 0) = (m', n)" by (rule assms(4))
  have "map dr_id (valid_values ?t) = map (\<lambda>r. st_id (dr_status r)) (valid_values ?t)"
    using ids by auto
  then have "map dr_id (valid_values ?t) = map fst (drop_corrupt ?t)" using valid_ids [OF assms(1)] by simp
  then have "distinct (map dr_id (valid_values ?t))"
    using wf by (simp add: drop_corrupt_def bt_wf_distinct bt_wf_filter)
  moreover have "\<forall>r \<in> set (valid_values ?t). map_of (db_downloads (mg_store ?m)) (dr_id r) = Some (Valid r)"
    using ids by (simp add: at)
  ultimately show "\<forall>i. i \<notin> dr_id ` set (valid_values ?t) \<longrightarrow> map_of (mg_sessions m') i = None
        \<and> map_of (db_downloads (mg_store m')) i = map_of (drop_corrupt ?t) i"
    "\<forall>r \<in> set (valid_values ?t). map_of (mg_sessions m') (dr_id r) = restarted sha1 now r
        \<and> map_of (db_downloads (mg_store m')) (dr_id r) = Some (Valid (after_restart sha1 r))"
    "n = length (filter (\<lambda>r. restarted sha1 now r \<noteq> None) (valid_values ?t))"
    using fold_resume_spec [OF fold] assms(2,3) by (auto split: option.splits)
qed

text \<open>
  C8. A start of the program takes up exactly the downloads it can. For every unfinished record whose
  stored metadata still parses one session is started, in the order of the store, under the id of the
  record and with its folder and speed, the default port and limit and the parsed metainfo, and the
  record is untouched; a record whose metadata is lost is marked as failed; finished and cancelled ones
  stay as they are, and records that cannot be read at all are dropped. The result is the number of
  sessions started; library, settings, events and jobs do not change.
\<close>

theorem resume_all_exact:
  assumes "downloads_ok (mg_store m)" and "db_ok (mg_store m)" and "mg_sessions m = []"
    and "resume_all sha1 drawn now m = (m', n)"
  shows "(\<forall>i. map_of (mg_sessions m') i = (case map_of (db_downloads (mg_store m)) i of
            Some (Valid r) \<Rightarrow> restarted sha1 now r | _ \<Rightarrow> None)
        \<and> map_of (db_downloads (mg_store m')) i = (case map_of (db_downloads (mg_store m)) i of
            Some (Valid r) \<Rightarrow> Some (Valid (after_restart sha1 r)) | _ \<Rightarrow> None))
    \<and> mg_running m' = mg_running m
        @ List.map_filter (restarted_session sha1 now) (valid_values (db_downloads (mg_store m)))
    \<and> n = length (List.map_filter (restarted_session sha1 now) (valid_values (db_downloads (mg_store m))))
    \<and> same_but_downloads m m'"
proof -
  let ?t = "db_downloads (mg_store m)" and ?m = "m\<lparr>mg_store := (mg_store m)\<lparr>db_downloads := drop_corrupt (db_downloads (mg_store m))\<rparr>\<rparr>"
  have wf: "bt_wf ?t" using assms(1) by (simp add: downloads_ok_def)
  note at = map_of_drop_corrupt [OF wf]
  note ids = valid_value_ok [OF assms(1)]
  have fold: "fold (resume_one sha1 drawn now) (valid_values ?t) (?m, 0) = (m', n)"
    using assms(2,4) by (simp add: resume_all_def list_downloads_def)
  note spec = fold_resume_records [OF assms(1-3) fold]
  have listed: "r \<in> set (valid_values ?t) \<and> dr_id r = i" if "map_of ?t i = Some (Valid r)" for i r
    using that valid_record [OF assms(1) that]
    by (force simp: valid_values_def map_filter_def dest: map_of_SomeD)
  have "map_of (mg_sessions m') i = (case map_of ?t i of Some (Valid r) \<Rightarrow> restarted sha1 now r | _ \<Rightarrow> None)
      \<and> map_of (db_downloads (mg_store m')) i = (case map_of ?t i of
            Some (Valid r) \<Rightarrow> Some (Valid (after_restart sha1 r)) | _ \<Rightarrow> None)" for i
  proof (cases "\<exists>r. map_of ?t i = Some (Valid r)")
    case True
    then obtain r where r: "map_of ?t i = Some (Valid r)" by blast
    show ?thesis using spec(2) listed [OF r] r by auto
  next
    case False
    then have "i \<notin> dr_id ` set (valid_values ?t)" using ids by auto
    then show ?thesis using spec(1) False by (auto simp: at split: option.splits stored.splits)
  qed
  moreover have "length (filter (\<lambda>r. restarted sha1 now r \<noteq> None) rs) = length (List.map_filter (restarted_session sha1 now) rs)" for rs
    by (simp add: restarted_iff map_filter_def)
  moreover have "mg_running m' = mg_running m @ List.map_filter (restarted_session sha1 now) (valid_values ?t)
      \<and> same_but_downloads m m'"
    using fold_resume_started [OF fold] by (simp add: same_but_downloads_def)
  ultimately show ?thesis using spec(3) by simp
qed

theorem resume_all_exact_witness:
  "case resume_all (take 20) [7] 0 example_manager of (m', n) \<Rightarrow> n = 1 \<and> map_of (mg_sessions m') [1] \<noteq> None
     \<and> map_of (mg_sessions m') [2] = None \<and> map_of (mg_sessions m') [3] = None
     \<and> map (\<lambda>ts. (ts_id ts, do_output_dir (ts_options ts))) (mg_running m') = [([1], home_u)]"
proof -
  obtain m' n where r: "resume_all (take 20) [7] 0 example_manager = (m', n)" by fastforce
  have "compute_info_hash (take 20) small_torrent = Inr (take 20 (encode small_info))"
    unfolding small_torrent_def
    using compute_info_hash_encode [of 1 "[(ascii ''info'', small_info)]" small_info]
      small_info_ok length_small(2)
    by (simp add: small_torrent_def usize_bound_def ascii_def)
  then obtain mi where "metainfo_from_bytes (take 20) small_torrent = Inr mi"
    using parse_small decode_small(2) by (auto simp: metainfo_from_bytes_def)
  moreover have "\<exists>e. metainfo_from_bytes (take 20) [] = Inl e"
  proof -
    have "case metainfo_from_bytes (take 20) [] of Inl e \<Rightarrow> True | Inr i \<Rightarrow> False" by code_simp
    then show ?thesis by (auto split: sum.splits)
  qed
  ultimately obtain e where facts: "restarted_session (take 20) 0 (example_record [1] small_torrent Downloading) = Some e"
    "ts_id e = [1]" "do_output_dir (ts_options e) = home_u"
    "restarted_session (take 20) 0 (example_record [2] [] Downloading) = None"
    "restarted_session (take 20) 0 (example_record [3] small_torrent Completed) = None"
    by (auto simp: restarted_session_def example_record_def example_status_def)
  have recs: "valid_values (db_downloads (mg_store example_manager)) = [example_record [1] small_torrent Downloading,
      example_record [2] [] Downloading, example_record [3] small_torrent Completed]" "mg_running example_manager = []"
    "map_of (db_downloads (mg_store example_manager)) [1] = Some (Valid (example_record [1] small_torrent Downloading))"
    "map_of (db_downloads (mg_store example_manager)) [2] = Some (Valid (example_record [2] [] Downloading))"
    "map_of (db_downloads (mg_store example_manager)) [3] = Some (Valid (example_record [3] small_torrent Completed))"
    by (simp_all add: example_manager_def valid_values_def map_filter_Cons List.map_filter_simps)
  have started: "List.map_filter (restarted_session (take 20) 0) (valid_values (db_downloads (mg_store example_manager))) = [e]"
    by (simp add: recs(1) facts map_filter_Cons List.map_filter_simps)
  note t = resume_all_exact [OF example_manager_ok(1,3,4) r, unfolded started recs(2)]
  have "map_of (mg_sessions m') [1] \<noteq> None" "map_of (mg_sessions m') [2] = None" "map_of (mg_sessions m') [3] = None"
    using t recs(3-5) facts(1,4,5) restarted_iff by simp_all
  then show ?thesis using t facts(2,3) r by simp
qed

end
