(* ===== verification/Downloads_Api.thy ===== *)
theory Downloads_Api
  imports Manager_Correct
begin

text \<open>
  The requests about downloads (\<open>web/api/torrents.rs\<close>): deletion with or without the files, the
  clean-up of stale records, and what a deletion can and cannot reach on the host.
\<close>

section \<open>Operations\<close>

text \<open>
  \<open>remove_dir_all\<close>, whose result the code drops. \<open>walk\<close> gives the entries below a directory in the
  order in which the system removes them, the directory itself last; the first that it refuses to
  remove ends the call.
\<close>

definition remove_dir_all :: "(pathbuf \<Rightarrow> pathbuf list) \<Rightarrow> pathbuf \<Rightarrow> host \<Rightarrow> host" where
  "remove_dir_all walk d h =
     (let gone = set (takeWhile (\<lambda>p. \<not> h_stuck h p) (walk d)) in
      h\<lparr>h_files := (\<lambda>p. if p \<in> gone then None else h_files h p),
        h_dirs := (\<lambda>p. h_dirs h p \<and> p \<notin> gone)\<rparr>)"

text \<open>The loop over the entries of the download: their files, then their records.\<close>

definition delete_entry :: "media_entry \<Rightarrow> store \<times> host \<Rightarrow> store \<times> host" where
  "delete_entry e = (\<lambda>(s, h). (fst (remove_media (me_id e) s), fst (remove_owned_files e h)))"

definition payload_of :: "download_record \<Rightarrow> pathbuf" where
  "payload_of r = path_join (dr_output_dir r) (path_of (dr_name r))"

definition remove_payload :: "(pathbuf \<Rightarrow> pathbuf list) \<Rightarrow> pathbuf \<Rightarrow> host \<Rightarrow> host" where
  "remove_payload walk payload h =
     (if h_dirs h payload then remove_dir_all walk payload h
      else if is_file h payload then (case remove_file payload h of None \<Rightarrow> h | Some h' \<Rightarrow> h')
      else h)"

definition delete_torrent :: "(pathbuf \<Rightarrow> pathbuf list) \<Rightarrow> uuid \<Rightarrow> bool \<Rightarrow> manager \<times> host \<Rightarrow> manager \<times> host" where
  "delete_torrent walk i delete_files = (\<lambda>(m, h).
     case (if delete_files then save_read i (mg_store m) else None) of
       None \<Rightarrow> (mgr_remove i m, h)
     | Some r \<Rightarrow>
         (let (s1, media) = list_media (mg_store m);
              entries = (case media of DbErr \<Rightarrow> [] | DbOk es \<Rightarrow> es);
              (s2, h2) = fold delete_entry (filter (\<lambda>e. me_download_id e = i) entries) (s1, h) in
          (mgr_remove i (m\<lparr>mg_store := s2\<rparr>), remove_payload walk (payload_of r) h2)))"

definition is_stale :: "host \<Rightarrow> download_record \<Rightarrow> bool" where
  "is_stale h r = (case st_state (dr_status r) of
       Errored _ \<Rightarrow> True
     | Cancelled \<Rightarrow> True
     | Completed \<Rightarrow> \<not> path_exists h (payload_of r)
     | Downloading \<Rightarrow> False
     | Resolving \<Rightarrow> False)"

definition cleanup_downloads :: "host \<Rightarrow> manager \<Rightarrow> manager \<times> nat" where
  "cleanup_downloads h m =
     (let (s1, rs) = list_downloads (mg_store m);
          stale = filter (is_stale h) (case rs of DbErr \<Rightarrow> [] | DbOk l \<Rightarrow> l) in
      (fold (\<lambda>r. mgr_remove (dr_id r)) stale (m\<lparr>mg_store := s1\<rparr>), length stale))"

text \<open>
  The fields of an upload in order, each with its bytes unless reading it failed: the first torrent or
  magnet link decides. The answer is an error or the id of the new download.
\<close>

datatype upload_field = TorrentField "bytes option" | MagnetField "bytes option" | OtherField

fun add_request ::
  "(bytes \<Rightarrow> bytes) \<Rightarrow> magnet_codecs \<Rightarrow> host \<Rightarrow> uuid \<Rightarrow> nat \<Rightarrow> upload_field list \<Rightarrow> manager
    \<Rightarrow> manager \<times> (api_error + uuid)" where
  "add_request sha1 mc h i now [] m = (m, Inl BadRequest)"
| "add_request sha1 mc h i now (TorrentField None # fs) m = (m, Inl BadRequest)"
| "add_request sha1 mc h i now (TorrentField (Some data) # fs) m =
     (case metainfo_from_bytes sha1 data of
        Inl _ \<Rightarrow> (m, Inl BadRequest)
      | Inr mi \<Rightarrow> (mgr_add_torrent i now mi data (from_settings (get_settings h (mg_store m))) m, Inr i))"
| "add_request sha1 mc h i now (MagnetField None # fs) m = (m, Inl BadRequest)"
| "add_request sha1 mc h i now (MagnetField (Some text) # fs) m =
     (case magnet_parse mc text of
        Inl _ \<Rightarrow> (m, Inl BadRequest)
      | Inr ml \<Rightarrow>
          (register_magnet i now
             (case ml_display_name ml of None \<Rightarrow> ascii ''Unknown magnet'' | Some n \<Rightarrow> n)
             (hex_encode (ml_info_hash ml)) m, Inr i))"
| "add_request sha1 mc h i now (OtherField # fs) m = add_request sha1 mc h i now fs m"

text \<open>The task spawned for a magnet link, when its metadata download has ended.\<close>

definition magnet_resolved ::
  "uuid \<Rightarrow> uuid \<Rightarrow> nat \<Rightarrow> download_options \<Rightarrow> (string + metainfo \<times> bytes) \<Rightarrow> manager \<Rightarrow> manager" where
  "magnet_resolved placeholder i now opts result m = (case result of
       Inl err \<Rightarrow> fail_magnet placeholder err m
     | Inr (mi, bs) \<Rightarrow> resolve_magnet placeholder i now mi bs opts m)"

section \<open>What a deletion can reach\<close>

lemma remove_one_files: "h_files (fst (remove_one p (h, n, b))) q \<in> {h_files h q, None}
    \<and> h_stuck (fst (remove_one p (h, n, b))) = h_stuck h \<and> h_dirs (fst (remove_one p (h, n, b))) = h_dirs h"
  by (auto simp: remove_one_def remove_file_def Let_def split: sum.splits option.splits)

lemma fold_remove_one:
  "h_files (fst (fold remove_one ps (h, n, b))) q \<in> {h_files h q, None}
    \<and> h_stuck (fst (fold remove_one ps (h, n, b))) = h_stuck h
    \<and> h_dirs (fst (fold remove_one ps (h, n, b))) = h_dirs h"
proof (induction ps arbitrary: h n b)
  case (Cons p ps)
  obtain h1 n1 b1 where one: "remove_one p (h, n, b) = (h1, n1, b1)" by (cases "remove_one p (h, n, b)") auto
  have "h_files h1 q \<in> {h_files h q, None} \<and> h_stuck h1 = h_stuck h \<and> h_dirs h1 = h_dirs h"
    using remove_one_files [of p h n b q] by (simp add: one)
  then show ?case using Cons.IH [of h1 n1 b1] by (auto simp: one)
qed simp

lemma remove_owned_shrinks:
  "is_file (fst (remove_owned_files e h)) q \<Longrightarrow> is_file h q"
  "h_stuck (fst (remove_owned_files e h)) = h_stuck h" "h_dirs (fst (remove_owned_files e h)) = h_dirs h"
  using fold_remove_one [of "owned_files e" h 0 0 q]
  by (auto simp: remove_owned_files_def remove_files_def is_file_def)

lemma fold_delete_shrinks:
  "(is_file (snd (fold delete_entry es (s, h))) q \<longrightarrow> is_file h q)
    \<and> h_stuck (snd (fold delete_entry es (s, h))) = h_stuck h \<and> h_dirs (snd (fold delete_entry es (s, h))) = h_dirs h"
proof (induction es arbitrary: s h)
  case (Cons e es)
  let ?h = "fst (remove_owned_files e h)"
  have "snd (fold delete_entry (e # es) (s, h)) = snd (fold delete_entry es (fst (remove_media (me_id e) s), ?h))"
    by (simp add: delete_entry_def)
  then show ?case using Cons.IH [of "fst (remove_media (me_id e) s)" ?h] remove_owned_shrinks [of e h] by auto
qed simp

text \<open>The files that the entries of a download own and that a deletion may take.\<close>

definition owned_by :: "uuid \<Rightarrow> store \<Rightarrow> pathbuf set" where
  "owned_by i s = (\<Union>e \<in> {e \<in> set (valid_values (db_library s)). me_download_id e = i}. set (owned_files e))"

lemma remove_owned_spec:
  assumes "host_ok h" and "\<forall>p \<in> set (owned_files e). path_wf p"
  shows "fst (remove_owned_files e h) = without (taken h (owned_files e)) h"
  using remove_files_spec [OF assms] by (simp add: remove_owned_files_def)

lemma fold_delete_files:
  assumes "host_ok h" and "\<forall>e \<in> set es. \<forall>p \<in> set (owned_files e). path_wf p"
  shows "snd (fold delete_entry es (s, h)) = without {p \<in> \<Union> (set ` owned_files ` set es). deletable h p} h"
  using assms
proof (induction es arbitrary: s h)
  case Nil
  then show ?case by (simp add: without_def)
next
  case (Cons e es)
  let ?h = "without (taken h (owned_files e)) h"
  have ok: "host_ok ?h" using Cons.prems(1) by (simp add: host_ok_def without_def)
  have "snd (fold delete_entry (e # es) (s, h)) = snd (fold delete_entry es (fst (remove_media (me_id e) s), ?h))"
    using remove_owned_spec [of h e] Cons.prems by (simp add: delete_entry_def)
  also have "\<dots> = without {p \<in> \<Union> (set ` owned_files ` set es). deletable ?h p} ?h"
    using Cons.IH [OF ok] Cons.prems by simp
  also have "\<dots> = without {p \<in> \<Union> (set ` owned_files ` set (e # es)). deletable h p} h"
    unfolding deletable_without [OF Cons.prems(1)] by (auto simp: without_def taken_def fun_eq_iff)
  finally show ?case .
qed

lemma remove_payload_files:
  "is_file (remove_payload walk d h) q \<longleftrightarrow> is_file h q \<and> \<not> (if h_dirs h d
     then q \<in> set (takeWhile (\<lambda>p. \<not> h_stuck h p) (walk d)) else q = d \<and> \<not> h_stuck h q)"
  by (auto simp: remove_payload_def remove_dir_all_def Let_def is_file_def remove_file_def split: if_splits option.splits)

text \<open>The library without the entries of a download.\<close>

lemma fold_delete_store:
  "db_ok s \<Longrightarrow> fst (fold delete_entry es (s, h)) = s\<lparr>db_library := fold (\<lambda>e t. hm_remove (me_id e) t) es (db_library s)\<rparr>"
  by (induction es arbitrary: s h) (simp_all add: delete_entry_def remove_media_def)

lemma map_of_fold_remove:
  "map_of (fold (\<lambda>e t. hm_remove (me_id e) t) es t) j = (if j \<in> me_id ` set es then None else map_of t j)"
  by (induction es arbitrary: t) auto

text \<open>Removing the rows that a filtered list names leaves the rows that the filter rejects.\<close>

lemma image_filter_listed:
  assumes "\<And>e j. e \<in> set xs \<and> f e = j \<longleftrightarrow> M j = Some (Valid e)"
  shows "j \<in> f ` set (filter P xs) \<longleftrightarrow> (\<exists>e. M j = Some (Valid e) \<and> P e)"
proof
  assume "j \<in> f ` set (filter P xs)"
  then obtain e where "e \<in> set xs" "f e = j" "P e" by auto
  then show "\<exists>e. M j = Some (Valid e) \<and> P e" using assms [of e j] by blast
next
  assume "\<exists>e. M j = Some (Valid e) \<and> P e"
  then obtain e where e: "M j = Some (Valid e)" "P e" by blast
  then have "e \<in> set (filter P xs)" "j = f e" using assms [of e j] by simp_all
  then show "j \<in> f ` set (filter P xs)" by (rule rev_image_eqI)
qed

lemma kept_iff:
  assumes "j \<in> I \<longleftrightarrow> (\<exists>e. M = Some (Valid e) \<and> P e)"
    and "M' = (if j \<in> I then None else case M of Some (Valid x) \<Rightarrow> Some (Valid x) | _ \<Rightarrow> None)"
  shows "M' = Some (Valid e) \<longleftrightarrow> M = Some (Valid e) \<and> \<not> P e"
  using assms by (cases "j \<in> I") (auto split: option.splits stored.splits)

text \<open>The library of a store: every entry is filed under its own id.\<close>

definition library_ok :: "store \<Rightarrow> bool" where
  "library_ok s \<longleftrightarrow> bt_wf (db_library s) \<and> (\<forall>i e. map_of (db_library s) i = Some (Valid e) \<longrightarrow> me_id e = i)"

lemma listed_media: "library_ok s \<Longrightarrow> e \<in> set (valid_values (db_library s)) \<longleftrightarrow> map_of (db_library s) (me_id e) = Some (Valid e)"
proof
  assume ok: "library_ok s" and "e \<in> set (valid_values (db_library s))"
  then obtain i where "(i, Valid e) \<in> set (db_library s)"
    by (auto simp: valid_values_def map_filter_def split: stored.splits)
  then have "map_of (db_library s) i = Some (Valid e)" using ok by (simp add: library_ok_def bt_wf_distinct)
  then show "map_of (db_library s) (me_id e) = Some (Valid e)" using ok by (auto simp: library_ok_def)
next
  assume "map_of (db_library s) (me_id e) = Some (Valid e)"
  then show "e \<in> set (valid_values (db_library s))"
    by (force simp: valid_values_def map_filter_def dest: map_of_SomeD)
qed

lemma mgr_remove_store: "db_ok (mg_store m) \<Longrightarrow>
    mg_store (mgr_remove i m) = (mg_store m)\<lparr>db_downloads := hm_remove i (db_downloads (mg_store m))\<rparr>"
  by (auto simp: mgr_remove_def Let_def remove_download_def split: option.splits)

lemma payload_named:
  assumes "dr_output_dir r \<noteq> []" and "dr_name r = n" and "path_step n" and "n \<noteq> ascii ''.''" and "n \<noteq> ascii ''..''"
  shows "payload_of r = dr_output_dir r @ [Normal n]"
proof -
  have ne: "n \<noteq> []" "slash \<notin> set n" using assms(3) by (auto simp: path_step_def slash_def ascii_def)
  have split: "slash \<notin> set k \<Longrightarrow> split_byte slash k = [k]" for k by (induction k) auto
  have "path_of n = [Normal n]"
    using ne assms(4,5) split [OF ne(2)] by (cases n) (auto simp: path_of_def segment_def)
  then show ?thesis using assms(1,2) by (simp add: payload_of_def path_join_def is_absolute_def)
qed

text \<open>What the walk through a directory lists.\<close>

definition lists_tree :: "host \<Rightarrow> pathbuf \<Rightarrow> pathbuf list \<Rightarrow> bool" where
  "lists_tree h d ps \<longleftrightarrow> (\<forall>p. path_starts_with p d \<and> path_exists h p \<longrightarrow> p \<in> set ps) \<and> (\<forall>p \<in> set ps. path_starts_with p d)"

lemma listed_keyed:
  "library_ok s \<Longrightarrow> x \<in> set (valid_values (db_library s)) \<and> me_id x = k \<longleftrightarrow> map_of (db_library s) k = Some (Valid x)"
  using listed_media [of s x] by (auto simp: library_ok_def)

lemma entries_deleted:
  assumes "library_ok s"
    and "t = fold (\<lambda>e t. hm_remove (me_id e) t) (filter (\<lambda>e. me_download_id e = i) (valid_values (db_library s)))
      (drop_corrupt (db_library s))"
  shows "map_of t j = Some (Valid e) \<longleftrightarrow> map_of (db_library s) j = Some (Valid e) \<and> me_download_id e \<noteq> i"
proof -
  let ?es = "filter (\<lambda>e. me_download_id e = i) (valid_values (db_library s))"
  have wf: "bt_wf (db_library s)" using assms(1) by (simp add: library_ok_def)
  have "map_of t j = (if j \<in> me_id ` set ?es then None
      else case map_of (db_library s) j of Some (Valid x) \<Rightarrow> Some (Valid x) | _ \<Rightarrow> None)"
    unfolding map_of_drop_corrupt [OF wf, symmetric] by (simp add: assms(2) map_of_fold_remove)
  from kept_iff [OF image_filter_listed [of _ me_id "map_of (db_library s)", OF listed_keyed [OF assms(1)]] this] show ?thesis .
qed

text \<open>
  C12. Deleting a download with its files takes exactly: the files that its library entries own and
  that are confined and removable, and its payload, that is a file, or of a directory what the walk
  removes before the first thing that the system refuses, so everything below it when there is none.
  Nothing that is neither owned nor below the payload goes, and for a plain name the payload is that
  name in the output directory. Its entries leave the library, every other entry stays, and the
  download itself is gone.
\<close>

theorem delete_torrent_exact:
  assumes "library_ok (mg_store m)" and "db_ok (mg_store m)" and "host_ok h"
    and "\<forall>e \<in> set (valid_values (db_library (mg_store m))). \<forall>p \<in> set (owned_files e). path_wf p"
    and "save_read i (mg_store m) = Some r" and "d = payload_of r" and "lists_tree h d (walk d)"
    and "delete_torrent walk i True (m, h) = (m', h')"
  shows "(\<forall>p. is_file h' p \<longleftrightarrow> is_file h p \<and> \<not> (p \<in> owned_by i (mg_store m) \<and> deletable h p)
        \<and> \<not> (if h_dirs h d then p \<in> set (takeWhile (\<lambda>q. \<not> h_stuck h q) (walk d)) else p = d \<and> \<not> h_stuck h p))
    \<and> (h_dirs h d \<and> (\<forall>q \<in> set (walk d). \<not> h_stuck h q) \<longrightarrow> (\<forall>p. path_starts_with p d \<longrightarrow> \<not> is_file h' p))
    \<and> (\<forall>p. is_file h p \<and> \<not> is_file h' p \<longrightarrow> p \<in> owned_by i (mg_store m) \<or> path_starts_with p d)
    \<and> (dr_output_dir r \<noteq> [] \<and> path_step (dr_name r) \<and> dr_name r \<notin> {ascii ''.'', ascii ''..''} \<longrightarrow>
        d = dr_output_dir r @ [Normal (dr_name r)])
    \<and> (\<forall>j e. map_of (db_library (mg_store m')) j = Some (Valid e) \<longleftrightarrow>
        map_of (db_library (mg_store m)) j = Some (Valid e) \<and> me_download_id e \<noteq> i)
    \<and> mgr_get i m' = None"
proof -
  let ?s = "mg_store m"
  let ?es = "filter (\<lambda>e. me_download_id e = i) (valid_values (db_library ?s))"
  let ?s1 = "?s\<lparr>db_library := drop_corrupt (db_library ?s)\<rparr>"
  obtain s2 h2 where f: "fold delete_entry ?es (?s1, h) = (s2, h2)" by fastforce
  have name: "dr_output_dir r \<noteq> [] \<and> path_step (dr_name r) \<and> dr_name r \<notin> {ascii ''.'', ascii ''..''} \<longrightarrow>
      d = dr_output_dir r @ [Normal (dr_name r)]" using payload_named [of r "dr_name r"] assms(6) by simp
  have res: "m' = mgr_remove i (m\<lparr>mg_store := s2\<rparr>)" "h' = remove_payload walk d h2"
    using assms(2,5,6,8) f by (simp_all add: delete_torrent_def list_media_def)
  have "h2 = snd (fold delete_entry ?es (?s1, h))" by (simp add: f)
  also have "\<dots> = without {p \<in> \<Union> (set ` owned_files ` set ?es). deletable h p} h"
    by (rule fold_delete_files [OF assms(3)]) (use assms(4) in auto)
  also have "\<Union> (set ` owned_files ` set ?es) = owned_by i ?s" by (auto simp: owned_by_def)
  finally have h2: "h2 = without {p \<in> owned_by i ?s. deletable h p} h" .
  have files: "\<forall>p. is_file h' p \<longleftrightarrow> is_file h p \<and> \<not> (p \<in> owned_by i ?s \<and> deletable h p)
        \<and> \<not> (if h_dirs h d then p \<in> set (takeWhile (\<lambda>q. \<not> h_stuck h q) (walk d)) else p = d \<and> \<not> h_stuck h p)"
    unfolding res(2) remove_payload_files h2 by (auto simp: without_def is_file_def)
  have all: "h_dirs h d \<and> (\<forall>q \<in> set (walk d). \<not> h_stuck h q) \<longrightarrow> (\<forall>p. path_starts_with p d \<longrightarrow> \<not> is_file h' p)"
  proof (intro impI allI)
    fix p assume ok: "h_dirs h d \<and> (\<forall>q \<in> set (walk d). \<not> h_stuck h q)" and p: "path_starts_with p d"
    then have "set (takeWhile (\<lambda>q. \<not> h_stuck h q) (walk d)) = set (walk d)" by (metis takeWhile_eq_all_conv)
    moreover have "is_file h p \<longrightarrow> p \<in> set (walk d)" using assms(7) p by (simp add: lists_tree_def path_exists_def)
    ultimately show "\<not> is_file h' p" using files ok by simp
  qed
  have only: "\<forall>p. is_file h p \<and> \<not> is_file h' p \<longrightarrow> p \<in> owned_by i ?s \<or> path_starts_with p d"
    using files assms(7) by (auto simp: lists_tree_def path_starts_with_def dest: set_takeWhileD split: if_splits)
  have "s2 = fst (fold delete_entry ?es (?s1, h))" by (simp add: f)
  then have s2: "s2 = ?s\<lparr>db_library := fold (\<lambda>e t. hm_remove (me_id e) t) ?es (drop_corrupt (db_library ?s))\<rparr>"
    using fold_delete_store [of ?s1 ?es h] assms(2) by simp
  have store: "mg_store m' = s2\<lparr>db_downloads := hm_remove i (db_downloads s2)\<rparr>"
    unfolding res(1) using mgr_remove_store [of "m\<lparr>mg_store := s2\<rparr>" i] assms(2) by (simp add: s2)
  have "map_of (db_library (mg_store m')) j = Some (Valid e) \<longleftrightarrow>
      map_of (db_library ?s) j = Some (Valid e) \<and> me_download_id e \<noteq> i" for j e
    by (rule entries_deleted [OF assms(1)]) (simp add: store s2)
  moreover have "mgr_get i m' = None"
    using mgr_remove_gone [of "m\<lparr>mg_store := s2\<rparr>" i] assms(2)
    by (simp add: res(1) s2 mgr_get_def gone_def save_read_def get_download_def)
  ultimately show ?thesis using files all only name by blast
qed

definition example_downloads :: manager where
  "example_downloads = \<lparr>mg_sessions = [], mg_events = [], mg_store = \<lparr>db_downloads =
       [([1], Valid (example_record [1] [] Completed))],
     db_library = [(me_id example_entry, Valid (example_entry\<lparr>me_download_id := [1]\<rparr>)),
       (replicate 16 2, Valid (example_entry\<lparr>me_id := replicate 16 2\<rparr>))],
     db_settings = None, db_ok = True\<rparr>, mg_running = [], mg_cancelled = [], mg_jobs = []\<rparr>"

definition example_walk :: "pathbuf \<Rightarrow> pathbuf list" where
  "example_walk d = (if d = home_u then [home_u @ [Normal (ascii ''a.mkv'')], home_u] else [])"

theorem delete_torrent_exact_witness:
  "case delete_torrent example_walk [1] True (example_downloads, example_host) of (m', h') \<Rightarrow>
     mgr_get [1] m' = None \<and> map_of (db_library (mg_store m')) (me_id example_entry) \<noteq> Some (Valid (example_entry\<lparr>me_download_id := [1]\<rparr>))
     \<and> is_file h' [RootDir, Normal (ascii ''etc''), Normal (ascii ''passwd'')]"
proof -
  let ?s = "mg_store example_downloads" and ?b = "[RootDir, Normal (ascii ''etc''), Normal (ascii ''passwd'')]"
  let ?r = "example_record [1] [] Completed"
  obtain m' h' where r: "delete_torrent example_walk [1] True (example_downloads, example_host) = (m', h')" by fastforce
  have ids: "me_id example_entry < replicate 16 2" by code_simp
  have lib: "library_ok ?s" "db_ok ?s"
    using ids by (auto simp: library_ok_def example_downloads_def bt_wf_Cons example_entry_def split: if_splits)
  have host: "host_ok example_host" by (simp add: host_ok_def example_host_def path_starts_with_def)
  have wf: "\<forall>e \<in> set (valid_values (db_library ?s)). \<forall>p \<in> set (owned_files e). path_wf p"
    by (auto simp: example_downloads_def valid_values_def map_filter_Cons List.map_filter_simps owned_files_def
        example_entry_def path_wf_def)
  have rec: "save_read [1] ?s = Some ?r"
    by (simp add: example_downloads_def save_read_Some)
  have d: "payload_of ?r = home_u @ [Normal (ascii ''n'')]" "\<not> h_dirs example_host (home_u @ [Normal (ascii ''n'')])"
    by code_simp+
  have walk: "lists_tree example_host (payload_of ?r) (example_walk (payload_of ?r))"
    by (auto simp: d lists_tree_def example_walk_def path_exists_def is_file_def example_host_def home_u_def
        path_starts_with_def ascii_inject take_Cons' split: if_splits)
  have b: "is_file example_host ?b" "\<not> deletable example_host ?b" "?b \<noteq> payload_of ?r"
  proof -
    have "\<not> under_allowed_root example_host (h_real example_host ?b) (allowed_roots example_host)" by code_simp
    then show "\<not> deletable example_host ?b" unfolding under_allowed_root_iff by (simp add: deletable_def)
    show "is_file example_host ?b" by code_simp
    show "?b \<noteq> payload_of ?r" by code_simp
  qed
  have old: "map_of (db_library ?s) (me_id example_entry) = Some (Valid (example_entry\<lparr>me_download_id := [1]\<rparr>))"
    by (simp add: example_downloads_def)
  note t = delete_torrent_exact [OF lib host wf rec refl walk r]
  have "is_file h' ?b" using t b d by metis
  moreover have "map_of (db_library (mg_store m')) (me_id example_entry) \<noteq> Some (Valid (example_entry\<lparr>me_download_id := [1]\<rparr>))"
    using t by auto
  ultimately show ?thesis using t r by simp
qed

section \<open>Where a deletion goes too far\<close>

lemma delete_removes_payload:
  assumes "save_read i (mg_store m) = Some r" and "d = payload_of r" and "h_dirs h d" and "lists_tree h d (walk d)"
    and "\<forall>q \<in> set (walk d). \<not> h_stuck h q" and "path_starts_with p d"
  shows "\<not> is_file (snd (delete_torrent walk i True (m, h))) p"
proof -
  obtain s1 media where l: "list_media (mg_store m) = (s1, media)" by fastforce
  obtain s2 h2 where f: "fold delete_entry (filter (\<lambda>e. me_download_id e = i)
      (case media of DbErr \<Rightarrow> [] | DbOk es \<Rightarrow> es)) (s1, h) = (s2, h2)" by fastforce
  have same: "(is_file h2 q \<longrightarrow> is_file h q) \<and> h_stuck h2 = h_stuck h \<and> h_dirs h2 = h_dirs h" for q
    using fold_delete_shrinks [of _ s1 h q] f by (metis snd_conv)
  have "snd (delete_torrent walk i True (m, h)) = remove_payload walk d h2"
    using assms(1,2) l f by (simp add: delete_torrent_def)
  moreover have "set (takeWhile (\<lambda>q. \<not> h_stuck h q) (walk d)) = set (walk d)" using assms(5) by (metis takeWhile_eq_all_conv)
  moreover have "is_file h p \<longrightarrow> p \<in> set (walk d)" using assms(4,6) by (simp add: lists_tree_def path_exists_def)
  ultimately show ?thesis using same [of p] assms(3) by (simp add: remove_payload_files)
qed

text \<open>
  C13. The name of a magnet link is not checked, and the folder to delete is found by joining it to the
  output directory: while such a download has not been resolved, or after it failed, deleting it with
  its files removes the whole directory that an absolute name denotes, allowed or not, as far as the
  system lets it.
\<close>

theorem magnet_delete_escapes:
  assumes "db_ok (mg_store m)" and "is_absolute (path_of name)" and "d = path_of name"
    and "h_dirs h d" and "lists_tree h d (walk d)" and "\<forall>q \<in> set (walk d). \<not> h_stuck h q"
    and "path_starts_with p d"
  shows "\<not> is_file (snd (delete_torrent walk i True (register_magnet i now name hash m, h))) p
    \<and> \<not> is_file (snd (delete_torrent walk i True (fail_magnet i err (register_magnet i now name hash m), h))) p"
proof -
  let ?m = "register_magnet i now name hash m"
  obtain st r where s: "mg_store ?m = fst (put_download r (mg_store m))" and dr: "dr_id r = i" "dr_name r = name"
    and sess: "map_of (mg_sessions ?m) i = Some \<lparr>sh_name = name, sh_status = st\<rparr>"
    by (simp add: register_magnet_def Let_def)
  have r: "save_read i (mg_store ?m) = Some r"
    using assms(1) dr by (simp add: s save_read_Some put_download_def)
  have pay: "payload_of q = path_of name" if "dr_name q = name" for q
    using assms(2) that by (simp add: payload_of_def path_join_def)
  let ?st = "st\<lparr>st_state := Errored err\<rparr>"
  have "mg_store (fail_magnet i err ?m) = save_status i ?st (mg_store ?m)"
    by (simp add: fail_magnet_def sess Let_def)
  then have f: "save_read i (mg_store (fail_magnet i err ?m)) = Some (r\<lparr>dr_status := ?st\<rparr>)"
    using r dr by (auto simp: save_status_def save_write_def save_read_Some put_download_def)
  show ?thesis
    using delete_removes_payload [OF r, of d h walk p] delete_removes_payload [OF f, of d h walk p] assms(3-7) dr(2)
    by (simp add: pay)
qed

theorem magnet_delete_escapes_witness:
  "is_file example_host [RootDir, Normal (ascii ''home''), Normal (ascii ''u''), Normal (ascii ''a.mkv'')]
   \<and> \<not> is_file (snd (delete_torrent example_walk [9] True
         (register_magnet [9] 0 (ascii ''/home/u'') [] example_manager, example_host)))
       [RootDir, Normal (ascii ''home''), Normal (ascii ''u''), Normal (ascii ''a.mkv'')]"
proof -
  let ?p = "[RootDir, Normal (ascii ''home''), Normal (ascii ''u''), Normal (ascii ''a.mkv'')]"
  have d: "is_absolute (path_of (ascii ''/home/u''))" "home_u = path_of (ascii ''/home/u'')" "h_dirs example_host home_u"
    "path_starts_with ?p home_u" "is_file example_host ?p"
    by code_simp+
  have "lists_tree example_host home_u (example_walk home_u)"
  proof -
    have "p = home_u" if "path_starts_with p home_u" "path_starts_with home_u p" for p
      using that by (simp add: path_starts_with_def) (metis length_take min.cobounded2 nle_le take_all)
    then show ?thesis
      by (auto simp: lists_tree_def example_walk_def path_exists_def is_file_def example_host_def path_starts_with_def
          home_u_def [symmetric] split: if_splits) (simp_all add: home_u_def)
  qed
  moreover have "\<forall>q \<in> set (example_walk home_u). \<not> h_stuck example_host q" by (simp add: example_host_def)
  ultimately show ?thesis
    using magnet_delete_escapes [OF example_manager_ok(3) d(1-3) _ _ d(4), of example_walk] d(5) by blast
qed

text \<open>A torrent may be called \<open>.\<close>; deleting it with its files empties the download directory.\<close>

theorem dot_torrent_deletes_directory:
  assumes "save_read i (mg_store m) = Some r" and "dr_name r = ascii ''.''" and "d = dr_output_dir r" and "d \<noteq> []"
    and "h_dirs h d" and "lists_tree h d (walk d)" and "\<forall>q \<in> set (walk d). \<not> h_stuck h q" and "path_starts_with p d"
  shows "\<not> bad_name (ascii ''.'') \<and> \<not> is_file (snd (delete_torrent walk i True (m, h))) p"
proof -
  have "path_of (ascii ''.'') = [CurDir]" "\<not> bad_name (ascii ''.'')" by code_simp+
  then have "payload_of r = d" "\<not> bad_name (ascii ''.'')"
    using assms(2,3,4) by (simp_all add: payload_of_def path_join_def is_absolute_def)
  then show ?thesis using delete_removes_payload [OF assms(1), of d h walk p] assms(5-8) by simp
qed

section \<open>Stale downloads\<close>

lemma fold_remove_store:
  "db_ok (mg_store m) \<Longrightarrow> mg_store (fold (\<lambda>r. mgr_remove (dr_id r)) rs m) =
    (mg_store m)\<lparr>db_downloads := fold (\<lambda>r t. hm_remove (dr_id r) t) rs (db_downloads (mg_store m))\<rparr>"
  by (induction rs arbitrary: m) (simp_all add: mgr_remove_store)

lemma map_of_fold_remove_record:
  "map_of (fold (\<lambda>r t. hm_remove (dr_id r) t) rs t) j = (if j \<in> dr_id ` set rs then None else map_of t j)"
  by (induction rs arbitrary: t) auto

text \<open>
  Clearing stale downloads drops exactly the records that failed, were cancelled or finished with
  their payload gone, reports how many, and leaves the library and every other download alone.
\<close>

theorem cleanup_downloads_exact:
  assumes "downloads_ok (mg_store m)" and "db_ok (mg_store m)" and "cleanup_downloads h m = (m', n)"
  shows "(\<forall>i r. map_of (db_downloads (mg_store m')) i = Some (Valid r) \<longleftrightarrow>
        map_of (db_downloads (mg_store m)) i = Some (Valid r) \<and> \<not> is_stale h r)
    \<and> n = length (filter (is_stale h) (valid_values (db_downloads (mg_store m))))
    \<and> db_library (mg_store m') = db_library (mg_store m)"
proof -
  let ?s = "mg_store m" and ?rs = "filter (is_stale h) (valid_values (db_downloads (mg_store m)))"
  let ?m = "m\<lparr>mg_store := ?s\<lparr>db_downloads := drop_corrupt (db_downloads ?s)\<rparr>\<rparr>"
  have res: "m' = fold (\<lambda>r. mgr_remove (dr_id r)) ?rs ?m" "n = length ?rs"
    using assms(2,3) by (simp_all add: cleanup_downloads_def list_downloads_def Let_def)
  have store: "mg_store m' = ?s\<lparr>db_downloads := fold (\<lambda>r t. hm_remove (dr_id r) t) ?rs (drop_corrupt (db_downloads ?s))\<rparr>"
    unfolding res using fold_remove_store [of ?m ?rs] assms(2) by simp
  have wf: "bt_wf (db_downloads ?s)" using assms(1) by (simp add: downloads_ok_def)
  have "map_of (db_downloads (mg_store m')) i = Some (Valid r) \<longleftrightarrow>
      map_of (db_downloads ?s) i = Some (Valid r) \<and> \<not> is_stale h r" for i r
  proof -
    have listed: "q \<in> set (valid_values (db_downloads ?s)) \<and> dr_id q = j \<longleftrightarrow> map_of (db_downloads ?s) j = Some (Valid q)" for q j
    proof
      assume "q \<in> set (valid_values (db_downloads ?s)) \<and> dr_id q = j"
      then show "map_of (db_downloads ?s) j = Some (Valid q)" using valid_value_ok [OF assms(1), of q] by simp
    next
      assume q: "map_of (db_downloads ?s) j = Some (Valid q)"
      then show "q \<in> set (valid_values (db_downloads ?s)) \<and> dr_id q = j"
        using valid_record [OF assms(1) q] by (force simp: valid_values_def map_filter_def dest: map_of_SomeD)
    qed
    have "map_of (db_downloads (mg_store m')) i = (if i \<in> dr_id ` set ?rs then None
        else case map_of (db_downloads ?s) i of Some (Valid x) \<Rightarrow> Some (Valid x) | _ \<Rightarrow> None)"
      unfolding map_of_drop_corrupt [OF wf, symmetric] by (simp add: store map_of_fold_remove_record)
    from kept_iff [OF image_filter_listed [of _ dr_id "map_of (db_downloads ?s)", OF listed] this] show ?thesis .
  qed
  then show ?thesis using res(2) by (simp add: store)
qed

theorem cleanup_downloads_exact_witness:
  "case cleanup_downloads example_host example_manager of (m', n) \<Rightarrow>
     n = 1 \<and> (\<exists>r. map_of (db_downloads (mg_store m')) [1] = Some (Valid r)) \<and> map_of (db_downloads (mg_store m')) [3] \<noteq>
       Some (Valid (example_record [3] small_torrent Completed))"
proof -
  obtain m' n where r: "cleanup_downloads example_host example_manager = (m', n)" by fastforce
  note t = cleanup_downloads_exact [OF example_manager_ok(1,3) r]
  have "\<not> path_exists example_host (path_join home_u (path_of (ascii ''n'')))" by code_simp
  then have stale: "is_stale example_host (example_record [3] small_torrent Completed)"
    "\<not> is_stale example_host (example_record [1] small_torrent Downloading)"
    "\<not> is_stale example_host (example_record [2] [] Downloading)"
    by (simp_all add: is_stale_def example_record_def example_status_def payload_of_def)
  have recs: "valid_values (db_downloads (mg_store example_manager)) =
      [example_record [1] small_torrent Downloading, example_record [2] [] Downloading,
       example_record [3] small_torrent Completed]"
    "map_of (db_downloads (mg_store example_manager)) [1] = Some (Valid (example_record [1] small_torrent Downloading))"
    by (simp_all add: example_manager_def valid_values_def map_filter_Cons List.map_filter_simps)
  have "n = 1" using t stale by (simp add: recs(1))
  moreover have "map_of (db_downloads (mg_store m')) [1] = Some (Valid (example_record [1] small_torrent Downloading))"
    using t stale(2) recs(2) by blast
  moreover have "map_of (db_downloads (mg_store m')) [3] \<noteq> Some (Valid (example_record [3] small_torrent Completed))"
    using t stale(1) by blast
  ultimately show ?thesis using r by auto
qed

end
