(* ===== verification/Library_Api.thy ===== *)
theory Library_Api
  imports Downloads_Api
begin

text \<open>
  The requests about the library (\<open>web/api/library.rs\<close>): listing and deleting entries, the health
  check, the repair of stale paths, the clean-up of sources that were transcoded, and the grouping of
  episodes. Folder scans are in \<open>Import\<close>, the requests to TMDB in \<open>Tmdb\<close>.
\<close>

section \<open>Entries\<close>

definition list_library :: "store \<Rightarrow> store \<times> (api_error + media_entry list)" where
  "list_library s = (case list_media s of (s1, DbErr) \<Rightarrow> (s1, Inl Internal) | (s1, DbOk es) \<Rightarrow> (s1, Inr es))"

definition get_library_item :: "uuid \<Rightarrow> store \<Rightarrow> store \<times> (api_error + media_entry)" where
  "get_library_item i s = (case get_media i s of
       (s1, DbErr) \<Rightarrow> (s1, Inl Internal)
     | (s1, DbOk None) \<Rightarrow> (s1, Inl NotFoundErr)
     | (s1, DbOk (Some e)) \<Rightarrow> (s1, Inr e))"

definition delete_library_item :: "uuid \<Rightarrow> bool \<Rightarrow> store \<times> host \<Rightarrow> store \<times> host" where
  "delete_library_item i delete_files = (\<lambda>(s, h).
     let (s1, h1) =
       (if delete_files
        then (case get_media i s of
            (s1, DbOk (Some e)) \<Rightarrow> (s1, fst (remove_owned_files e h))
          | (s1, _) \<Rightarrow> (s1, h))
        else (s, h)) in
     (fst (remove_media i s1), h1))"

text \<open>\<open>list_media().unwrap_or_default()\<close>.\<close>

definition media_or_none :: "store \<Rightarrow> store \<times> media_entry list" where
  "media_or_none s = (case list_media s of (s1, DbErr) \<Rightarrow> (s1, []) | (s1, DbOk es) \<Rightarrow> (s1, es))"

section \<open>Health and stale paths\<close>

definition has_playable :: "host \<Rightarrow> media_entry \<Rightarrow> bool" where
  "has_playable h e \<longleftrightarrow> list_ex (\<lambda>(_, p). path_exists h p) (me_versions e) \<or> path_exists h (me_media_file e)"

definition library_health :: "host \<Rightarrow> store \<Rightarrow> store \<times> nat \<times> nat" where
  "library_health h s = (let (s1, es) = media_or_none s in
     (s1, length es, length (filter (\<lambda>e. \<not> has_playable h e) es)))"

text \<open>The entry that a repair writes, if it writes one; the version is the first of the table.\<close>

definition fixed_entry :: "host \<Rightarrow> media_entry \<Rightarrow> media_entry option" where
  "fixed_entry h e =
     (if path_exists h (me_media_file e) then None
      else case me_versions e of
        [] \<Rightarrow> None
      | (_, v) # _ \<Rightarrow>
          (let stale = (case me_transcoded_path e of None \<Rightarrow> False | Some tp \<Rightarrow> \<not> path_exists h tp);
               e1 = e\<lparr>me_media_file := v\<rparr> in
           Some (if stale then e1\<lparr>me_transcoded_path := Some v\<rparr> else e1)))"

definition fix_one :: "host \<Rightarrow> media_entry \<Rightarrow> store \<times> nat \<Rightarrow> store \<times> nat" where
  "fix_one h e = (\<lambda>(s, fixed). case fixed_entry h e of
       None \<Rightarrow> (s, fixed) | Some e1 \<Rightarrow> (fst (put_media e1 s), fixed + 1))"

definition fix_paths :: "host \<Rightarrow> store \<Rightarrow> store \<times> nat" where
  "fix_paths h s = (let (s1, es) = media_or_none s in fold (fix_one h) es (s1, 0))"

section \<open>Sources that were transcoded\<close>

text \<open>
  \<open>std::fs::remove_dir\<close>: only an empty directory is removed. Which directories are empty is up to the
  file system, a parameter.
\<close>

definition remove_dir :: "(host \<Rightarrow> pathbuf \<Rightarrow> bool) \<Rightarrow> pathbuf \<Rightarrow> host \<Rightarrow> host" where
  "remove_dir is_empty d h =
     (if h_dirs h d \<and> is_empty h d \<and> \<not> h_stuck h d then h\<lparr>h_dirs := (h_dirs h)(d := False)\<rparr> else h)"

fun is_ready :: "transcode_state \<Rightarrow> bool" where
  "is_ready (Ready _) = True"
| "is_ready _ = False"

text \<open>The output to keep and the source to delete, where there are both.\<close>

definition kept_output :: "media_entry \<Rightarrow> pathbuf option" where
  "kept_output e =
     (if is_ready (me_transcode_state e) \<or> me_versions e \<noteq> []
      then (case me_transcoded_path e of
          Some p \<Rightarrow> Some p
        | None \<Rightarrow> (case me_versions e of [] \<Rightarrow> None | (_, p) # _ \<Rightarrow> Some p))
      else None)"

definition reclaimable :: "media_entry \<Rightarrow> (pathbuf \<times> pathbuf) option" where
  "reclaimable e = (case kept_output e of
       None \<Rightarrow> None
     | Some out \<Rightarrow> map_option (\<lambda>src. (src, out)) (redundant_source e out))"

text \<open>The counters of the clean-up and the directories it has tried to remove.\<close>

record cleanup_counts =
  cc_deleted :: nat
  cc_freed :: u64
  cc_errors :: nat
  cc_dirs :: "pathbuf list"

definition cleanup_parent :: "(host \<Rightarrow> pathbuf \<Rightarrow> bool) \<Rightarrow> pathbuf \<Rightarrow> host \<times> cleanup_counts \<Rightarrow> host \<times> cleanup_counts" where
  "cleanup_parent is_empty src = (\<lambda>(h, c). case parent src of
       None \<Rightarrow> (h, c)
     | Some d \<Rightarrow>
         if d \<in> set (cc_dirs c) then (h, c)
         else (if path_exists h d then remove_dir is_empty d h else h, c\<lparr>cc_dirs := d # cc_dirs c\<rparr>))"

definition cleanup_one ::
  "(host \<Rightarrow> pathbuf \<Rightarrow> bool) \<Rightarrow> media_entry \<Rightarrow> store \<times> host \<times> cleanup_counts \<Rightarrow> store \<times> host \<times> cleanup_counts" where
  "cleanup_one is_empty e = (\<lambda>(s, h, c). case reclaimable e of
       None \<Rightarrow> (s, h, c)
     | Some (src, out) \<Rightarrow>
         (let existed = path_exists h src in
          case put_media (e\<lparr>me_media_file := out\<rparr>) s of
            (s1, DbErr) \<Rightarrow> (s1, h, c\<lparr>cc_errors := cc_errors c + 1\<rparr>)
          | (s1, DbOk _) \<Rightarrow>
              (let (h1, n, bytes) = remove_files [src] h;
                   c1 = c\<lparr>cc_deleted := cc_deleted c + n, cc_freed := cc_freed c + bytes,
                     cc_errors := cc_errors c + (if existed \<and> n = 0 then 1 else 0)\<rparr> in
               (s1, cleanup_parent is_empty src (h1, c1)))))"

definition cleanup_sources ::
  "(host \<Rightarrow> pathbuf \<Rightarrow> bool) \<Rightarrow> store \<times> host \<Rightarrow> store \<times> host \<times> cleanup_counts" where
  "cleanup_sources is_empty = (\<lambda>(s, h).
     let (s1, es) = media_or_none s;
         (s2, h2, c) = fold (cleanup_one is_empty) es
           (s1, h, \<lparr>cc_deleted = 0, cc_freed = 0, cc_errors = 0, cc_dirs = []\<rparr>);
         default_dir = default_transcode_dir h2 in
     (s2, if as_transcode_dir (get_settings h2 s2) \<noteq> default_dir \<and> path_exists h2 default_dir
          then remove_dir is_empty default_dir h2 else h2, c))"

section \<open>Groups\<close>

text \<open>A group of the answer; its fields are those of its first entry and its counts.\<close>

record library_group =
  lg_id :: "uuid option"
  lg_show_name :: "bytes option"
  lg_title :: bytes
  lg_poster_url :: "bytes option"
  lg_overview :: "bytes option"
  lg_rating :: "f32 option"
  lg_is_show :: bool
  lg_episode_count :: nat
  lg_season_count :: nat
  lg_entries :: "media_entry list"

definition push_entry ::
  "media_entry \<Rightarrow> (uuid option \<times> media_entry list) list \<Rightarrow> (uuid option \<times> media_entry list) list" where
  "push_entry e groups = hm_insert (me_group_id e)
     ((case map_of groups (me_group_id e) of None \<Rightarrow> [] | Some es \<Rightarrow> es) @ [e]) groups"

definition count_season ::
  "media_entry \<Rightarrow> (uuid option \<times> u16 list) list \<Rightarrow> (uuid option \<times> u16 list) list" where
  "count_season e counts = (case me_season e of
       None \<Rightarrow> counts
     | Some s \<Rightarrow> hm_insert (me_group_id e)
         (List.insert s (case map_of counts (me_group_id e) of None \<Rightarrow> [] | Some l \<Rightarrow> l)) counts)"

definition episode_key :: "media_entry \<Rightarrow> nat \<times> nat" where
  "episode_key e = (case me_season e of None \<Rightarrow> 0 | Some n \<Rightarrow> unat n, case me_episode e of None \<Rightarrow> 0 | Some n \<Rightarrow> unat n)"

text \<open>A stable sort by season, then by episode.\<close>

definition sort_episodes :: "media_entry list \<Rightarrow> media_entry list" where
  "sort_episodes es = sort_key (\<lambda>e. fst (episode_key e)) (sort_key (\<lambda>e. snd (episode_key e)) es)"

definition group_of :: "(uuid option \<times> u16 list) list \<Rightarrow> uuid option \<times> media_entry list \<Rightarrow> library_group" where
  "group_of counts = (\<lambda>(gid, es).
     let first = hd es in
     \<lparr>lg_id = gid, lg_show_name = me_show_name first, lg_title = me_title first, lg_poster_url = me_poster_url first,
      lg_overview = me_overview first, lg_rating = me_rating first, lg_is_show = (me_show_name first \<noteq> None),
      lg_episode_count = length es,
      lg_season_count = (case map_of counts gid of None \<Rightarrow> 0 | Some l \<Rightarrow> length l), lg_entries = es\<rparr>)"

definition list_groups :: "store \<Rightarrow> store \<times> library_group list" where
  "list_groups s =
     (let (s1, es) = media_or_none s;
          groups = fold push_entry es [];
          counts = fold count_season es [] in
      (s1, map (group_of counts) (map (\<lambda>(g, es). (g, sort_episodes es)) groups)))"

end
