(* ===== verification/Browse.thy ===== *)
theory Browse
  imports Library_Api
begin

text \<open>
  The directory browser (\<open>web/api/filesystem.rs\<close>): the directories below a path of a request, and the
  way up, as long as both are in the allowed media directories. What \<open>read_dir\<close> lists is a parameter:
  each name with whether it is a directory.
\<close>

definition browsable_parent :: "host \<Rightarrow> pathbuf \<Rightarrow> pathbuf option" where
  "browsable_parent h path = (case parent path of
       None \<Rightarrow> None
     | Some p \<Rightarrow> if is_under_allowed_root h (case canonicalize h p of None \<Rightarrow> p | Some c \<Rightarrow> c) then Some p else None)"

definition browse_filesystem ::
  "host \<Rightarrow> (pathbuf \<Rightarrow> (bytes \<times> bool) list option) \<Rightarrow> pathbuf option \<Rightarrow> api_error + pathbuf \<times> pathbuf option \<times> bytes list" where
  "browse_filesystem h listing requested =
     (let home = (case h_home h of None \<Rightarrow> [RootDir] | Some d \<Rightarrow> d);
          path = (case requested of None \<Rightarrow> home | Some p \<Rightarrow> p) in
      case canonicalize h path of
        None \<Rightarrow> Inl BadRequest
      | Some canonical \<Rightarrow>
          if \<not> is_under_allowed_root h canonical then Inl Forbidden
          else if \<not> h_dirs h canonical then Inl BadRequest
          else Inr (path, browsable_parent h path,
            sort (map fst (filter (\<lambda>(n, is_dir). is_dir \<and> utf8_valid n \<and> \<not> starts_with n (ascii ''.''))
              (case listing path of None \<Rightarrow> [] | Some es \<Rightarrow> es)))))"

text \<open>
  An answer shows a directory that leads, links resolved, into an allowed location; so does the way
  up, if its links can be resolved; hidden names and names of files are never shown.
\<close>

theorem browse_confined:
  assumes "browse_filesystem h listing requested = Inr (path, up, dirs)"
  shows "(\<exists>c. canonicalize h path = Some c \<and> allowed_location h c \<and> h_dirs h c)
    \<and> (\<forall>p c. up = Some p \<longrightarrow> canonicalize h p = Some c \<longrightarrow> allowed_location h c)
    \<and> (\<forall>n \<in> set dirs. \<not> starts_with n (ascii ''.'') \<and> (\<exists>es. listing path = Some es \<and> (n, True) \<in> set es))"
  using assms
  by (auto simp: browse_filesystem_def browsable_parent_def is_under_allowed_root_def under_allowed_root_iff Let_def
      split: option.splits if_splits)

end
