(* ===== verification/Json.thy ===== *)
theory Json
  imports Text
begin

text \<open>
  The values of \<open>serde_json\<close>, as a parameter of the code that uses them: \<open>v["key"]\<close>, the accessors
  (\<open>None\<close> for another kind of value), and what \<open>json!\<close> builds. \<open>json_laws\<close> is what a reader of its own
  output relies on; the plain trees at the end have them.
\<close>

record 'j json_lib =
  jl_get :: "'j \<Rightarrow> string \<Rightarrow> 'j"
  jl_str :: "'j \<Rightarrow> bytes option"
  jl_u64 :: "'j \<Rightarrow> u64 option"
  jl_array :: "'j \<Rightarrow> 'j list option"
  jl_of_str :: "bytes \<Rightarrow> 'j"
  jl_of_list :: "'j list \<Rightarrow> 'j"
  jl_of_fields :: "(string \<times> 'j) list \<Rightarrow> 'j"

definition json_laws :: "'j json_lib \<Rightarrow> bool" where
  "json_laws js \<longleftrightarrow> (\<forall>s. jl_str js (jl_of_str js s) = Some s) \<and> (\<forall>vs. jl_array js (jl_of_list js vs) = Some vs)
     \<and> (\<forall>m k v. distinct (map fst m) \<longrightarrow> map_of m k = Some v \<longrightarrow> jl_get js (jl_of_fields js m) k = v)"

lemma json_laws_simps:
  assumes "json_laws js"
  shows "jl_str js (jl_of_str js s) = Some s" and "jl_array js (jl_of_list js vs) = Some vs"
    and "distinct (map fst m) \<Longrightarrow> map_of m k = Some v \<Longrightarrow> jl_get js (jl_of_fields js m) k = v"
  using assms by (auto simp: json_laws_def)

datatype json_tree = JNull | JString bytes | JNumber u64 | JArray "json_tree list" | JObject "(string \<times> json_tree) list"

definition json_trees :: "json_tree json_lib" where
  "json_trees = \<lparr>jl_get = (\<lambda>v k. case v of JObject m \<Rightarrow> (case map_of m k of None \<Rightarrow> JNull | Some w \<Rightarrow> w) | _ \<Rightarrow> JNull),
     jl_str = (\<lambda>v. case v of JString s \<Rightarrow> Some s | _ \<Rightarrow> None), jl_u64 = (\<lambda>v. case v of JNumber n \<Rightarrow> Some n | _ \<Rightarrow> None),
     jl_array = (\<lambda>v. case v of JArray vs \<Rightarrow> Some vs | _ \<Rightarrow> None),
     jl_of_str = JString, jl_of_list = JArray, jl_of_fields = JObject\<rparr>"

lemma json_trees_laws: "json_laws json_trees"
  by (simp add: json_laws_def json_trees_def)

end
