(* ===== verification/Probe.thy ===== *)
theory Probe
  imports Json Transcode
begin

text \<open>
  Reading a video file with ffprobe (\<open>transcode/probe.rs\<close>): its arguments and what is taken from its
  JSON. The program, the JSON parser and its values are parameters; the duration only scales a percentage, which
  the environment of a job gives.
\<close>

definition probe_args :: "pathbuf \<Rightarrow> bytes list" where
  "probe_args path = map ascii [''-v'', ''quiet'', ''-print_format'', ''json'', ''-show_format'', ''-show_streams'', ''-i'']
     @ [ascii ''file:'' @ path_bytes path]"

definition has_type :: "'j json_lib \<Rightarrow> string \<Rightarrow> 'j \<Rightarrow> bool" where
  "has_type js kind s \<longleftrightarrow> jl_str js (jl_get js s ''codec_type'') = Some (ascii kind)"

definition str_or_empty :: "'j json_lib \<Rightarrow> 'j \<Rightarrow> bytes" where
  "str_or_empty js v = (case jl_str js v of None \<Rightarrow> [] | Some s \<Rightarrow> s)"

definition first_of_type :: "'j json_lib \<Rightarrow> string \<Rightarrow> string \<Rightarrow> 'j list \<Rightarrow> bytes" where
  "first_of_type js kind field streams = (case List.find (has_type js kind) streams of
       None \<Rightarrow> [] | Some s \<Rightarrow> str_or_empty js (jl_get js s field))"

definition subtitle_of_json :: "'j json_lib \<Rightarrow> 'j \<Rightarrow> subtitle_stream option" where
  "subtitle_of_json js s = map_option (\<lambda>i. \<lparr>ss_index = unat i, ss_language = jl_str js (jl_get js (jl_get js s ''tags'') ''language''),
     ss_codec = str_or_empty js (jl_get js s ''codec_name'')\<rparr>) (jl_u64 js (jl_get js s ''index''))"

definition probe_of_json :: "'j json_lib \<Rightarrow> 'j \<Rightarrow> probe_result option" where
  "probe_of_json js v = map_option (\<lambda>streams.
     \<lparr>pr_video_codec = first_of_type js ''video'' ''codec_name'' streams,
      pr_audio_codec = first_of_type js ''audio'' ''codec_name'' streams,
      pr_pix_fmt = first_of_type js ''video'' ''pix_fmt'' streams,
      pr_subtitle_streams = List.map_filter (subtitle_of_json js) (filter (has_type js ''subtitle'') streams)\<rparr>)
     (jl_array js (jl_get js v ''streams''))"

definition probe_file :: "'j json_lib \<Rightarrow> (bytes list \<Rightarrow> bytes option) \<Rightarrow> (bytes \<Rightarrow> 'j option) \<Rightarrow> pathbuf \<Rightarrow> probe_result option" where
  "probe_file js ffprobe parse path = Option.bind (Option.bind (ffprobe (probe_args path)) parse) (probe_of_json js)"

text \<open>The path is never an option or another protocol of ffprobe, and a probe without streams fails.\<close>

theorem probe_file_pinned:
  "(\<exists>xs. probe_args path = xs @ [ascii ''file:'' @ path_bytes path] \<and> last xs = ascii ''-i'')
   \<and> (probe_of_json js v = None \<longleftrightarrow> jl_array js (jl_get js v ''streams'') = None)"
  by (auto simp: probe_args_def probe_of_json_def)

text \<open>A file whose first video stream is h264 or hevc is remuxed, whatever its other streams are.\<close>

theorem probe_remux:
  assumes "probe_of_json js v = Some p" and "jl_array js (jl_get js v ''streams'') = Some streams"
    and "List.find (has_type js ''video'') streams = Some s" and "jl_str js (jl_get js s ''codec_name'') = Some c"
  shows "can_remux (Some p) \<longleftrightarrow> c \<in> ascii ` {''hevc'', ''h265'', ''h264''}"
  using assms by (auto simp: probe_of_json_def first_of_type_def str_or_empty_def can_remux_def is_hevc_def)

end
