(* ===== verification/Routing.thy ===== *)
theory Routing
  imports Net
begin

text \<open>
  The DHT's routing table (\<open>src/src/dht/routing_table.rs\<close>): node identifiers with the XOR
  distance, 160 buckets of at most eight nodes, insertion, the status of a node and the
  closest nodes to a target. \<open>Instant::now()\<close> is an argument. The file in which a table is saved
  is in \<open>Dht_Node\<close>.
\<close>

section \<open>Node identifiers\<close>

datatype node_id = NodeId bytes

fun id_bytes :: "node_id \<Rightarrow> bytes" where
  "id_bytes (NodeId bs) = bs"

lemma NodeId_id_bytes [simp]: "NodeId (id_bytes i) = i"
  by (cases i) simp

text \<open>The derived order of the source: lexicographic on the bytes.\<close>

instantiation node_id :: linorder
begin

definition less_eq_node_id :: "node_id \<Rightarrow> node_id \<Rightarrow> bool" where
  "less_eq_node_id a b \<longleftrightarrow> id_bytes a \<le> id_bytes b"

definition less_node_id :: "node_id \<Rightarrow> node_id \<Rightarrow> bool" where
  "less_node_id a b \<longleftrightarrow> id_bytes a < id_bytes b"

instance
proof
  fix a b :: node_id
  assume "a \<le> b" and "b \<le> a"
  then show "a = b" by (cases a; cases b) (simp add: less_eq_node_id_def)
qed (auto simp: less_eq_node_id_def less_node_id_def)

end

definition id_ok :: "node_id \<Rightarrow> bool" where
  "id_ok a \<longleftrightarrow> length (id_bytes a) = 20"

definition distance :: "node_id \<Rightarrow> node_id \<Rightarrow> node_id" where
  "distance a b = NodeId (map (\<lambda>i. id_bytes a ! i XOR id_bytes b ! i) [0..<20])"

text \<open>\<open>u8::leading_zeros\<close>.\<close>

definition leading_zeros8 :: "u8 \<Rightarrow> nat" where
  "leading_zeros8 b =
     (if 128 \<le> b then 0 else if 64 \<le> b then 1 else if 32 \<le> b then 2 else if 16 \<le> b then 3
      else if 8 \<le> b then 4 else if 4 \<le> b then 5 else if 2 \<le> b then 6 else if 1 \<le> b then 7 else 8)"

fun zeros_loop :: "nat \<Rightarrow> bytes \<Rightarrow> nat" where
  "zeros_loop zeros [] = zeros"
| "zeros_loop zeros (b # bs) =
     (if b = 0 then zeros_loop (zeros + 8) bs else zeros + leading_zeros8 b)"

definition distance_leading_zeros :: "node_id \<Rightarrow> node_id \<Rightarrow> nat" where
  "distance_leading_zeros a b = zeros_loop 0 (id_bytes (distance a b))"

section \<open>The table\<close>

definition BUCKET_SIZE :: nat where "BUCKET_SIZE = 8"
definition NUM_BUCKETS :: nat where "NUM_BUCKETS = 160"

datatype node_status = Good | Questionable | Bad

record node_entry =
  ne_id :: node_id
  ne_addr :: sock_addr
  ne_last_seen :: nat
  ne_status :: node_status
  ne_failed_queries :: u8

record kbucket =
  kb_nodes :: "node_entry list"
  kb_replacement_cache :: "node_entry list"
  kb_last_changed :: nat

record routing_table =
  rt_own_id :: node_id
  rt_buckets :: "kbucket list"

datatype insert_result = Inserted | Updated | BucketFull

definition kbucket_new :: "nat \<Rightarrow> kbucket" where
  "kbucket_new now = \<lparr>kb_nodes = [], kb_replacement_cache = [], kb_last_changed = now\<rparr>"

definition rt_new :: "nat \<Rightarrow> node_id \<Rightarrow> routing_table" where
  "rt_new now own = \<lparr>rt_own_id = own, rt_buckets = replicate NUM_BUCKETS (kbucket_new now)\<rparr>"

definition bucket_index :: "routing_table \<Rightarrow> node_id \<Rightarrow> nat" where
  "bucket_index rt i =
     (let zeros = distance_leading_zeros (rt_own_id rt) i in
      if NUM_BUCKETS \<le> zeros then NUM_BUCKETS - 1 else (NUM_BUCKETS - 1) - zeros)"

text \<open>\<open>iter_mut().find\<close> with an update of the entry found, and \<open>iter().position\<close>.\<close>

fun update_first :: "('a \<Rightarrow> bool) \<Rightarrow> ('a \<Rightarrow> 'a) \<Rightarrow> 'a list \<Rightarrow> 'a list" where
  "update_first p f [] = []"
| "update_first p f (x # xs) = (if p x then f x # xs else x # update_first p f xs)"

fun position :: "('a \<Rightarrow> bool) \<Rightarrow> 'a list \<Rightarrow> nat option" where
  "position p [] = None"
| "position p (x # xs) = (if p x then Some 0 else map_option Suc (position p xs))"

definition new_entry :: "nat \<Rightarrow> node_id \<Rightarrow> sock_addr \<Rightarrow> node_entry" where
  "new_entry now i addr = \<lparr>ne_id = i, ne_addr = addr, ne_last_seen = now, ne_status = Good,
     ne_failed_queries = 0\<rparr>"

text \<open>What \<open>insert_or_update\<close> does to the bucket of the identifier.\<close>

definition bucket_insert ::
  "nat \<Rightarrow> node_id \<Rightarrow> sock_addr \<Rightarrow> kbucket \<Rightarrow> kbucket \<times> insert_result" where
  "bucket_insert now i addr b =
     (if list_ex (\<lambda>n. ne_id n = i) (kb_nodes b) then
        (b\<lparr>kb_nodes := update_first (\<lambda>n. ne_id n = i)
             (\<lambda>n. n\<lparr>ne_last_seen := now, ne_addr := addr, ne_status := Good, ne_failed_queries := 0\<rparr>)
             (kb_nodes b),
           kb_last_changed := now\<rparr>, Updated)
      else if length (kb_nodes b) < BUCKET_SIZE then
        (b\<lparr>kb_nodes := kb_nodes b @ [new_entry now i addr], kb_last_changed := now\<rparr>, Inserted)
      else (case position (\<lambda>n. ne_status n = Bad) (kb_nodes b) of
          Some bad_idx \<Rightarrow>
            (b\<lparr>kb_nodes := (kb_nodes b)[bad_idx := new_entry now i addr], kb_last_changed := now\<rparr>, Inserted)
        | None \<Rightarrow>
            (if length (kb_replacement_cache b) < BUCKET_SIZE
             then b\<lparr>kb_replacement_cache := kb_replacement_cache b @ [new_entry now i addr]\<rparr> else b,
             BucketFull)))"

definition insert_or_update ::
  "nat \<Rightarrow> node_id \<Rightarrow> sock_addr \<Rightarrow> routing_table \<Rightarrow> routing_table \<times> insert_result" where
  "insert_or_update now i addr rt =
     (if i = rt_own_id rt then (rt, Updated)
      else (let idx = bucket_index rt i in
            case bucket_insert now i addr (rt_buckets rt ! idx) of
              (b, r) \<Rightarrow> (rt\<lparr>rt_buckets := (rt_buckets rt)[idx := b]\<rparr>, r)))"

definition update_node :: "node_id \<Rightarrow> (node_entry \<Rightarrow> node_entry) \<Rightarrow> routing_table \<Rightarrow> routing_table" where
  "update_node i f rt =
     (let idx = bucket_index rt i; b = rt_buckets rt ! idx in
      rt\<lparr>rt_buckets := (rt_buckets rt)[idx :=
        b\<lparr>kb_nodes := update_first (\<lambda>n. ne_id n = i) f (kb_nodes b)\<rparr>]\<rparr>)"

definition mark_good :: "nat \<Rightarrow> node_id \<Rightarrow> routing_table \<Rightarrow> routing_table" where
  "mark_good now i = update_node i
     (\<lambda>n. n\<lparr>ne_status := Good, ne_last_seen := now, ne_failed_queries := 0\<rparr>)"

text \<open>The counter is a \<open>u8\<close> that wraps in a release build.\<close>

definition fail_entry :: "node_entry \<Rightarrow> node_entry" where
  "fail_entry n = (let q = ne_failed_queries n + 1 in
     n\<lparr>ne_failed_queries := q, ne_status := (if 3 \<le> q then Bad else Questionable)\<rparr>)"

definition mark_failed :: "node_id \<Rightarrow> routing_table \<Rightarrow> routing_table" where
  "mark_failed i = update_node i fail_entry"

definition all_nodes :: "routing_table \<Rightarrow> node_entry list" where
  "all_nodes rt = concat (map kb_nodes (rt_buckets rt))"

definition closest_nodes :: "routing_table \<Rightarrow> node_id \<Rightarrow> nat \<Rightarrow> node_entry list" where
  "closest_nodes rt target count =
     take count (sort_key (\<lambda>n. id_bytes (distance (ne_id n) target))
       (filter (\<lambda>n. ne_status n \<noteq> Bad) (all_nodes rt)))"

definition node_count :: "routing_table \<Rightarrow> nat" where
  "node_count rt = length (filter (\<lambda>n. ne_status n = Good) (all_nodes rt))"

section \<open>The XOR metric\<close>

text \<open>The value of an identifier as the big-endian number the bytes write.\<close>

fun be_value :: "bytes \<Rightarrow> nat" where
  "be_value [] = 0"
| "be_value (b # bs) = unat b * 256 ^ length bs + be_value bs"

lemma be_value_less: "be_value bs < 256 ^ length bs"
proof (induction bs)
  case (Cons b bs)
  have "unat b < 256" using unsigned_less [of b] by simp
  then have "unat b * 256 ^ length bs + 256 ^ length bs \<le> 256 * 256 ^ length bs"
    by (metis Suc_leI add.commute mult_Suc mult_le_mono1)
  moreover have "be_value (b # bs) < unat b * 256 ^ length bs + 256 ^ length bs" using Cons by simp
  ultimately show ?case by (simp only: list.size power_Suc add_Suc_right add_0_right)
qed simp

lemma be_value_mono: "length a = length b \<Longrightarrow> be_value a < be_value b \<longleftrightarrow> a < b"
proof (induction a b rule: list_induct2)
  case (Cons x a y b)
  have "be_value a < 256 ^ length b" "be_value b < 256 ^ length b"
    using be_value_less [of a] be_value_less [of b] Cons.hyps by auto
  moreover have "unat x * 256 ^ length b + 256 ^ length b \<le> unat y * 256 ^ length b" if "unat x < unat y"
    using that by (metis Suc_leI add.commute mult_Suc mult_le_mono1)
  moreover have "unat y * 256 ^ length b + 256 ^ length b \<le> unat x * 256 ^ length b" if "unat y < unat x"
    using that by (metis Suc_leI add.commute mult_Suc mult_le_mono1)
  ultimately show ?case
    using Cons by (cases x y rule: linorder_cases) (auto simp: word_less_nat_alt)
qed simp

lemma leading_zeros8_bounds:
  assumes "b \<noteq> 0"
  shows "leading_zeros8 b < 8 \<and> 2 ^ (7 - leading_zeros8 b) \<le> unat b \<and> unat b < 2 ^ (8 - leading_zeros8 b)"
proof -
  have "unat b < 256" using unsigned_less [of b] by simp
  moreover have "0 < unat b" using assms by (simp add: unat_gt_0)
  ultimately show ?thesis by (simp add: leading_zeros8_def word_le_nat_alt)
qed

lemma zeros_loop_add: "zeros_loop z bs = z + zeros_loop 0 bs"
proof (induction bs arbitrary: z)
  case (Cons b bs)
  show ?case using Cons [of "z + 8"] Cons [of 8] by simp
qed simp

lemma zeros_loop_log:
  "be_value bs \<noteq> 0 \<Longrightarrow> zeros_loop 0 bs < 8 * length bs
     \<and> 2 ^ (8 * length bs - 1 - zeros_loop 0 bs) \<le> be_value bs
     \<and> be_value bs < 2 ^ (8 * length bs - zeros_loop 0 bs)"
proof (induction bs)
  case (Cons b bs)
  show ?case
  proof (cases "b = 0")
    case True
    with Cons show ?thesis using zeros_loop_add [of 8 bs] by auto
  next
    case False
    let ?z = "leading_zeros8 b" and ?n = "length bs"
    have z: "?z < 8" "2 ^ (7 - ?z) \<le> unat b" "unat b < 2 ^ (8 - ?z)"
      using leading_zeros8_bounds [OF False] by auto
    have p: "(256 :: nat) ^ ?n = 2 ^ (8 * ?n)" by (simp add: power_mult)
    have "(2 :: nat) ^ (8 * Suc ?n - 1 - ?z) = 2 ^ (7 - ?z) * 256 ^ ?n"
      using z(1) by (simp add: p flip: power_add)
    also have "\<dots> \<le> unat b * 256 ^ ?n" using z(2) by simp
    finally have lo: "2 ^ (8 * Suc ?n - 1 - ?z) \<le> be_value (b # bs)" by simp
    have "be_value (b # bs) < unat b * 256 ^ ?n + 256 ^ ?n" using be_value_less [of bs] by simp
    also have "\<dots> \<le> 2 ^ (8 - ?z) * 256 ^ ?n"
      using z(3) by (metis Suc_leI add.commute mult_Suc mult_le_mono1)
    also have "\<dots> = 2 ^ (8 * Suc ?n - ?z)"
      using z(1) by (simp add: p flip: power_add)
    finally show ?thesis using lo z(1) False by simp
  qed
qed simp

lemma be_value_0: "be_value bs = 0 \<longleftrightarrow> (\<forall>b \<in> set bs. b = 0)"
  by (induction bs) (auto simp: unat_eq_zero)

lemma length_distance [simp]: "length (id_bytes (distance a b)) = 20"
  by (simp add: distance_def)

lemma distance_sym: "distance a b = distance b a"
  by (simp add: distance_def xor.commute)

lemma distance_0:
  assumes "id_ok a" and "id_ok b"
  shows "be_value (id_bytes (distance a b)) = 0 \<longleftrightarrow> a = b"
proof -
  have "x XOR y = 0 \<longleftrightarrow> x = y" for x y :: u8
    by (metis xor.assoc xor.left_neutral xor.right_neutral xor_self_eq)
  then have "be_value (id_bytes (distance a b)) = 0 \<longleftrightarrow> (\<forall>i<20. id_bytes a ! i = id_bytes b ! i)"
    by (auto simp: be_value_0 distance_def)
  also have "\<dots> \<longleftrightarrow> id_bytes a = id_bytes b" using assms by (auto simp: id_ok_def intro: nth_equalityI)
  finally show ?thesis by (cases a; cases b) simp
qed

text \<open>The bucket of another node is the position of the highest bit of its distance.\<close>

lemma bucket_index_log:
  assumes "id_ok (rt_own_id rt)" and "id_ok i" and "i \<noteq> rt_own_id rt"
  shows "bucket_index rt i < NUM_BUCKETS
    \<and> 2 ^ bucket_index rt i \<le> be_value (id_bytes (distance (rt_own_id rt) i))
    \<and> be_value (id_bytes (distance (rt_own_id rt) i)) < 2 ^ Suc (bucket_index rt i)"
proof -
  let ?d = "id_bytes (distance (rt_own_id rt) i)"
  have "be_value ?d \<noteq> 0" using distance_0 [OF assms(1,2)] assms(3) by auto
  from zeros_loop_log [OF this] have z: "zeros_loop 0 ?d < 160"
    "2 ^ (159 - zeros_loop 0 ?d) \<le> be_value ?d" "be_value ?d < 2 ^ (160 - zeros_loop 0 ?d)"
    by auto
  have "bucket_index rt i = 159 - zeros_loop 0 ?d"
    using z(1) by (simp add: bucket_index_def NUM_BUCKETS_def distance_leading_zeros_def)
  moreover have "Suc (159 - zeros_loop 0 ?d) = 160 - zeros_loop 0 ?d" using z(1) by simp
  ultimately show ?thesis using z by (simp add: NUM_BUCKETS_def)
qed

end
