(* ===== verification/Krpc.thy ===== *)
theory Krpc
  imports Bencode_Correct Routing
begin

text \<open>
  The DHT's wire protocol (\<open>src/src/dht/krpc.rs\<close>): queries and responses as bencoded
  dictionaries, the compact forms of nodes and peers, and the table of pending queries that
  matches a response to its query by transaction number. A query that waits is a ticket; the
  clock, the socket and the channel of inbound queries are outside the model.
\<close>

type_synonym info_hash = bytes

datatype krpc_query =
    QPing
  | QFindNode node_id
  | QGetPeers info_hash
  | QAnnouncePeer info_hash u16 bytes

datatype krpc_response =
    RPing node_id
  | RFindNode node_id "(node_id \<times> sock_addr) list"
  | RGetPeers node_id "bytes option" "sock_addr list" "(node_id \<times> sock_addr) list"
  | RAnnouncePeer node_id

record inbound_query =
  iq_query :: krpc_query
  iq_sender_id :: node_id
  iq_sender_addr :: sock_addr
  iq_txn_id :: bytes

datatype krpc_error = KrpcIo | DecodeFailed decode_error | InvalidMessage | KrpcTimeout | ChannelClosed

section \<open>Compact forms\<close>

fun node_to_bytes :: "node_id \<times> sock_addr \<Rightarrow> bytes" where
  "node_to_bytes (i, addr) = (if v4_sock addr then id_bytes i @ sock4_to_bytes addr else [])"

definition node_of_bytes :: "bytes \<Rightarrow> node_id \<times> sock_addr" where
  "node_of_bytes chunk = (NodeId (take 20 chunk), sock4_of_bytes (drop 20 chunk))"

definition encode_compact_nodes :: "(node_id \<times> sock_addr) list \<Rightarrow> bytes" where
  "encode_compact_nodes nodes = concat (map node_to_bytes nodes)"

definition decode_compact_nodes :: "bytes \<Rightarrow> (node_id \<times> sock_addr) list" where
  "decode_compact_nodes data = map node_of_bytes (chunks_exact 26 data)"

definition decode_compact_peer :: "bytes \<Rightarrow> sock_addr option" where
  "decode_compact_peer data = (if length data = 6 then Some (sock4_of_bytes data) else None)"

definition node_ok :: "node_id \<times> sock_addr \<Rightarrow> bool" where
  "node_ok n \<longleftrightarrow> id_ok (fst n) \<and> v4_sock (snd n)"

interpretation compact26: fixed_codec node_to_bytes node_of_bytes 26 node_ok
proof unfold_locales
  fix n assume n: "node_ok n"
  obtain i a where "n = (i, a)" by (cases n)
  with n show "length (node_to_bytes n) = 26" and "node_of_bytes (node_to_bytes n) = n"
    by (cases i; simp add: node_ok_def id_ok_def compact4.length_enc compact4.dec_enc node_of_bytes_def)+
next
  fix bs :: bytes assume l: "length bs = 26"
  have "sock4_to_bytes (sock4_of_bytes (drop 20 bs)) = drop 20 bs"
    by (rule compact4.enc_dec) (simp add: l)
  then show "node_to_bytes (node_of_bytes bs) = bs"
    by (simp add: node_of_bytes_def v4_sock_def sock4_of_bytes_def)
qed simp

section \<open>Queries\<close>

definition query_args :: "node_id \<Rightarrow> krpc_query \<Rightarrow> (bytes \<times> bvalue) list" where
  "query_args own q = (let args = bt_insert (ascii ''id'') (BBytes (id_bytes own)) [] in case q of
       QPing \<Rightarrow> args
     | QFindNode target \<Rightarrow> bt_insert (ascii ''target'') (BBytes (id_bytes target)) args
     | QGetPeers ih \<Rightarrow> bt_insert (ascii ''info_hash'') (BBytes ih) args
     | QAnnouncePeer ih port token \<Rightarrow>
         bt_insert (ascii ''token'') (BBytes token) (bt_insert (ascii ''port'') (BInt (ucast port))
           (bt_insert (ascii ''info_hash'') (BBytes ih) args)))"

definition query_name :: "krpc_query \<Rightarrow> bytes" where
  "query_name q = (case q of QPing \<Rightarrow> ascii ''ping'' | QFindNode _ \<Rightarrow> ascii ''find_node''
     | QGetPeers _ \<Rightarrow> ascii ''get_peers'' | QAnnouncePeer _ _ _ \<Rightarrow> ascii ''announce_peer'')"

definition query_dict :: "node_id \<Rightarrow> bytes \<Rightarrow> krpc_query \<Rightarrow> (bytes \<times> bvalue) list" where
  "query_dict own txn q =
     bt_insert (ascii ''a'') (BDict (query_args own q))
      (bt_insert (ascii ''q'') (BBytes (query_name q))
       (bt_insert (ascii ''y'') (BBytes (ascii ''q''))
        (bt_insert (ascii ''t'') (BBytes txn) [])))"

definition encode_query :: "node_id \<Rightarrow> bytes \<Rightarrow> krpc_query \<Rightarrow> bytes" where
  "encode_query own txn q = encode (BDict (query_dict own txn q))"

text \<open>A field that must be a byte string of 20 bytes.\<close>

definition get20 :: "bvalue \<Rightarrow> string \<Rightarrow> bytes option" where
  "get20 v key = Option.bind (Option.bind (get_str v key) as_bytes)
     (\<lambda>b. if length b = 20 then Some b else None)"

definition decode_query :: "bvalue \<Rightarrow> krpc_query option" where
  "decode_query val = (case Option.bind (get_str val ''q'') as_str of
       None \<Rightarrow> None
     | Some q \<Rightarrow> (case get_str val ''a'' of
         None \<Rightarrow> None
       | Some args \<Rightarrow>
           if q = ascii ''ping'' then Some QPing
           else if q = ascii ''find_node'' then map_option (\<lambda>t. QFindNode (NodeId t)) (get20 args ''target'')
           else if q = ascii ''get_peers'' then map_option QGetPeers (get20 args ''info_hash'')
           else if q = ascii ''announce_peer'' then
             (case get20 args ''info_hash'' of
                None \<Rightarrow> None
              | Some ih \<Rightarrow> (case Option.bind (get_str args ''port'') as_int of
                  None \<Rightarrow> None
                | Some port \<Rightarrow> map_option (QAnnouncePeer ih (ucast port))
                    (Option.bind (get_str args ''token'') as_bytes)))
           else None))"

section \<open>Responses\<close>

definition response_fields :: "node_id \<Rightarrow> krpc_response \<Rightarrow> (bytes \<times> bvalue) list" where
  "response_fields own resp = (let r = bt_insert (ascii ''id'') (BBytes (id_bytes own)) [] in case resp of
       RPing _ \<Rightarrow> r
     | RAnnouncePeer _ \<Rightarrow> r
     | RFindNode _ nodes \<Rightarrow> bt_insert (ascii ''nodes'') (BBytes (encode_compact_nodes nodes)) r
     | RGetPeers _ token peers nodes \<Rightarrow>
         (let r1 = (case token of None \<Rightarrow> r | Some t \<Rightarrow> bt_insert (ascii ''token'') (BBytes t) r);
              r2 = (if peers = [] then r1 else
                bt_insert (ascii ''values'') (BList (map (\<lambda>p. BBytes (sock4_to_bytes p)) peers)) r1) in
          if nodes = [] then r2
          else bt_insert (ascii ''nodes'') (BBytes (encode_compact_nodes nodes)) r2))"

definition encode_response :: "node_id \<Rightarrow> bytes \<Rightarrow> krpc_response \<Rightarrow> bytes" where
  "encode_response own txn resp = encode (BDict (
     bt_insert (ascii ''r'') (BDict (response_fields own resp))
      (bt_insert (ascii ''y'') (BBytes (ascii ''r''))
       (bt_insert (ascii ''t'') (BBytes txn) []))))"

definition decode_response :: "bvalue \<Rightarrow> krpc_response option" where
  "decode_response val = (case get_str val ''r'' of
       None \<Rightarrow> None
     | Some r \<Rightarrow> (case get20 r ''id'' of
         None \<Rightarrow> None
       | Some i \<Rightarrow>
           (let nodes = (case Option.bind (get_str r ''nodes'') as_bytes of
                  None \<Rightarrow> [] | Some b \<Rightarrow> decode_compact_nodes b);
                peers = (case Option.bind (get_str r ''values'') as_list of
                  None \<Rightarrow> [] | Some l \<Rightarrow> List.map_filter decode_compact_peer (List.map_filter as_bytes l));
                token = Option.bind (get_str r ''token'') as_bytes in
            Some (if peers \<noteq> [] \<or> nodes \<noteq> [] \<or> token \<noteq> None
                  then RGetPeers (NodeId i) token peers nodes else RPing (NodeId i)))))"

section \<open>The socket\<close>

record krpc_socket =
  ks_own_id :: node_id
  ks_txn_counter :: u16
  ks_pending :: "(bytes \<times> nat) list"

text \<open>
  The start of \<open>query\<close>: a transaction number is drawn, the ticket is entered as pending and
  the message is sent. The three ways a query that waits ends without an answer: the send
  fails (the entry stays), its sender is dropped, or five seconds pass.
\<close>

definition query_start :: "nat \<Rightarrow> krpc_query \<Rightarrow> krpc_socket \<Rightarrow> krpc_socket \<times> bytes \<times> bytes" where
  "query_start ticket q st =
     (let txn = be16 (ks_txn_counter st) in
      (st\<lparr>ks_txn_counter := ks_txn_counter st + 1,
          ks_pending := hm_insert txn ticket (ks_pending st)\<rparr>,
       txn, encode_query (ks_own_id st) txn q))"

datatype query_end = SendFailed | SenderDropped | TimedOut

definition query_finish :: "query_end \<Rightarrow> bytes \<Rightarrow> krpc_socket \<Rightarrow> krpc_socket \<times> krpc_error" where
  "query_finish e txn st = (case e of
       SendFailed \<Rightarrow> (st, KrpcIo)
     | SenderDropped \<Rightarrow> (st\<lparr>ks_pending := hm_remove txn (ks_pending st)\<rparr>, ChannelClosed)
     | TimedOut \<Rightarrow> (st\<lparr>ks_pending := hm_remove txn (ks_pending st)\<rparr>, KrpcTimeout))"

datatype krpc_effect =
    KNothing
  | KFailed krpc_error
  | KDelivered nat krpc_response
  | KDropped nat
  | KInbound inbound_query

text \<open>Removing the pending entry drops its sender unless the response is sent through it.\<close>

definition take_pending ::
  "bytes \<Rightarrow> krpc_response option \<Rightarrow> krpc_socket \<Rightarrow> krpc_socket \<times> krpc_effect" where
  "take_pending key resp st = (case map_of (ks_pending st) key of
       None \<Rightarrow> (st, KNothing)
     | Some ticket \<Rightarrow>
         (st\<lparr>ks_pending := hm_remove key (ks_pending st)\<rparr>,
          case resp of Some r \<Rightarrow> KDelivered ticket r | None \<Rightarrow> KDropped ticket))"

definition handle_message :: "bytes \<Rightarrow> sock_addr \<Rightarrow> krpc_socket \<Rightarrow> krpc_socket \<times> krpc_effect" where
  "handle_message data addr st = (case bdecode data of
       Inl e \<Rightarrow> (st, KFailed (DecodeFailed e))
     | Inr val \<Rightarrow>
       (case Option.bind (get_str val ''y'') as_str of
          None \<Rightarrow> (st, KFailed InvalidMessage)
        | Some msg_type \<Rightarrow>
          (case Option.bind (get_str val ''t'') as_bytes of
             None \<Rightarrow> (st, KFailed InvalidMessage)
           | Some txn_id \<Rightarrow>
             if msg_type = ascii ''r'' then
               (if length txn_id = 2 then take_pending txn_id (decode_response val) st else (st, KNothing))
             else if msg_type = ascii ''q'' then
               (case decode_query val of
                  None \<Rightarrow> (st, KNothing)
                | Some query \<Rightarrow>
                    (st, KInbound \<lparr>iq_query = query,
                       iq_sender_id = (case Option.bind (get_str val ''a'') (\<lambda>a. get20 a ''id'') of
                          Some b \<Rightarrow> NodeId b | None \<Rightarrow> NodeId (replicate 20 0)),
                       iq_sender_addr = addr, iq_txn_id = txn_id\<rparr>))
             else if msg_type = ascii ''e'' \<and> length txn_id = 2 then take_pending txn_id None st
             else (st, KNothing))))"

end
