(* ===== verification/Krpc_Correct.thy ===== *)
theory Krpc_Correct
  imports Krpc
begin

text \<open>
  Properties of the DHT's wire protocol: queries and responses are read back by the other
  side, and a response reaches the query it answers as long as transaction numbers have not
  gone around.
\<close>

section \<open>Small dictionaries\<close>

definition small_dict :: "nat \<Rightarrow> nat \<Rightarrow> (bytes \<times> bvalue) list \<Rightarrow> bool" where
  "small_dict d n m \<longleftrightarrow> entries_ok d m \<and> bt_wf m \<and> length m \<le> n"

lemma small_dict_Nil [simp]: "small_dict d n []"
  by (simp add: small_dict_def)

lemma small_dict_insert:
  "small_dict d n m \<Longrightarrow> length s < 30 \<Longrightarrow> bv_ok d v \<Longrightarrow> small_dict d (Suc n) (bt_insert (ascii s) v m)"
  using length_bt_insert [of "ascii s" v m]
  by (simp add: small_dict_def entries_ok_insert ascii_def usize_bound_def)

lemma small_dict_bv: "small_dict (Suc d) n m \<Longrightarrow> n \<le> 100 \<Longrightarrow> d < 60 \<Longrightarrow> bv_ok d (BDict m)"
  by (simp add: small_dict_def MAX_DEPTH_def MAX_ELEMENTS_def)

declare ascii_inject [simp]

declare bt_insert.simps [simp del]

section \<open>Queries\<close>

fun query_ok :: "krpc_query \<Rightarrow> bool" where
  "query_ok QPing = True"
| "query_ok (QFindNode target) = id_ok target"
| "query_ok (QGetPeers ih) = (length ih = 20)"
| "query_ok (QAnnouncePeer ih port token) = (length ih = 20 \<and> length token < usize_bound)"

lemma query_dict_ok:
  assumes "id_ok own" and "query_ok q" and "length txn < usize_bound"
  shows "bv_ok 0 (BDict (query_dict own txn q))"
proof -
  have l: "length (id_bytes i) < usize_bound" if "id_ok i" for i
    using that by (simp add: id_ok_def usize_bound_def)
  have args0: "small_dict 2 1 (bt_insert (ascii ''id'') (BBytes (id_bytes own)) [])"
    using small_dict_insert [of 2 0 "[]" "''id''"] l [OF assms(1)] by simp
  have args: "small_dict 2 4 (query_args own q)"
  proof (cases q)
    case QPing
    with args0 show ?thesis by (simp add: query_args_def small_dict_def)
  next
    case (QFindNode t)
    with small_dict_insert [OF args0, of "''target''" "BBytes (id_bytes t)"] l [of t] assms(2)
    show ?thesis by (simp add: query_args_def small_dict_def)
  next
    case (QGetPeers ih)
    with small_dict_insert [OF args0, of "''info_hash''" "BBytes ih"] assms(2)
    show ?thesis by (simp add: query_args_def small_dict_def usize_bound_def)
  next
    case (QAnnouncePeer ih port token)
    with assms(2) have "length ih < usize_bound" "length token < usize_bound"
      by (auto simp: usize_bound_def)
    then have "small_dict 2 (Suc (Suc (Suc 1))) (query_args own q)"
      unfolding query_args_def QAnnouncePeer Let_def krpc_query.case
      by (intro small_dict_insert args0) simp_all
    then show ?thesis by (simp add: numeral_eq_Suc)
  qed
  have n: "length (query_name q) < usize_bound"
    by (simp add: query_name_def ascii_def usize_bound_def split: krpc_query.split)
  have "small_dict 1 (Suc (Suc (Suc (Suc 0)))) (query_dict own txn q)"
    unfolding query_dict_def
    by (intro small_dict_insert small_dict_Nil)
      (use n assms(3) small_dict_bv [of 1 4 "query_args own q"] args in
        \<open>simp_all add: ascii_def usize_bound_def flip: numeral_2_eq_2 del: bv_ok.simps(4)\<close>)
  then show ?thesis using small_dict_bv [of 0 4] by (simp add: numeral_eq_Suc del: bv_ok.simps)
qed

lemma utf8_ascii [simp]: "utf8_valid (ascii ''q'')" "utf8_valid (ascii ''r'')"
  "utf8_valid (ascii ''e'')" "utf8_valid (ascii ''ping'')"
  "utf8_valid (ascii ''find_node'')" "utf8_valid (ascii ''get_peers'')" "utf8_valid (ascii ''announce_peer'')"
  by (simp_all add: ascii_def utf8_width_def)

lemma get20_insert:
  "get20 (BDict (bt_insert (ascii s) v m)) t = (if t = s
     then Option.bind (as_bytes v) (\<lambda>b. if length b = 20 then Some b else None) else get20 (BDict m) t)"
  by (simp add: get20_def)

lemma decode_query_dict:
  assumes "query_ok q"
  shows "decode_query (BDict (query_dict own txn q)) = Some q"
  using assms
  by (cases q) (auto simp: decode_query_def query_dict_def query_args_def get20_insert id_ok_def
      query_name_def)

section \<open>Responses\<close>

definition v4_nodes :: "(node_id \<times> sock_addr) list \<Rightarrow> (node_id \<times> sock_addr) list" where
  "v4_nodes nodes = filter (\<lambda>n. v4_sock (snd n)) nodes"

text \<open>What the querying side makes of a response: only IPv4 addresses travel, and a response
  with none of the fields of \<open>get_peers\<close> reads as the answer to a ping.\<close>

definition reply_fields :: "krpc_response \<Rightarrow> bytes option \<times> sock_addr list \<times> (node_id \<times> sock_addr) list" where
  "reply_fields resp = (case resp of
       RGetPeers _ token peers nodes \<Rightarrow> (token, filter v4_sock peers, v4_nodes nodes)
     | RFindNode _ nodes \<Rightarrow> (None, [], v4_nodes nodes)
     | _ \<Rightarrow> (None, [], []))"

definition read_back :: "node_id \<Rightarrow> krpc_response \<Rightarrow> krpc_response" where
  "read_back own resp = (case reply_fields resp of (token, peers, nodes) \<Rightarrow>
     if peers \<noteq> [] \<or> nodes \<noteq> [] \<or> token \<noteq> None then RGetPeers own token peers nodes else RPing own)"

fun response_ok :: "krpc_response \<Rightarrow> bool" where
  "response_ok (RFindNode _ nodes) \<longleftrightarrow> list_all (id_ok \<circ> fst) nodes \<and> length nodes \<le> 1000000"
| "response_ok (RGetPeers _ token peers nodes) \<longleftrightarrow> list_all (id_ok \<circ> fst) nodes \<and> length nodes \<le> 1000000
     \<and> length peers \<le> 1000000 \<and> (case token of None \<Rightarrow> True | Some t \<Rightarrow> length t < usize_bound)"
| "response_ok _ \<longleftrightarrow> True"

lemma compact_nodes_read_back:
  assumes "list_all (id_ok \<circ> fst) nodes"
  shows "decode_compact_nodes (encode_compact_nodes nodes) = v4_nodes nodes"
proof -
  have "encode_compact_nodes nodes = concat (map node_to_bytes (v4_nodes nodes))"
    by (induction nodes) (auto simp: encode_compact_nodes_def v4_nodes_def)
  moreover have "list_all node_ok (v4_nodes nodes)"
    using assms by (auto simp: v4_nodes_def list_all_iff node_ok_def)
  ultimately show ?thesis using compact26.chunks_enc [of "v4_nodes nodes" "[]"] by (simp add: decode_compact_nodes_def)
qed

lemma compact_nodes_length:
  "list_all (id_ok \<circ> fst) nodes \<Longrightarrow> length (encode_compact_nodes nodes) \<le> 26 * length nodes"
proof (induction nodes)
  case (Cons n nodes)
  have "length (node_to_bytes n) \<le> 26"
  proof (cases "node_ok n")
    case True
    then show ?thesis by (simp add: compact26.length_enc)
  next
    case False
    with Cons.prems show ?thesis by (cases n) (auto simp: node_ok_def)
  qed
  with Cons show ?case by (simp add: encode_compact_nodes_def)
qed (simp add: encode_compact_nodes_def)

lemma compact_peers_read_back:
  "List.map_filter decode_compact_peer (List.map_filter as_bytes (map (\<lambda>p. BBytes (sock4_to_bytes p)) peers)) =
     filter v4_sock peers"
proof (induction peers)
  case (Cons p peers)
  have "decode_compact_peer (sock4_to_bytes p) = (if v4_sock p then Some p else None)"
  proof (cases "v4_sock p")
    case True
    then show ?thesis by (simp add: decode_compact_peer_def compact4.length_enc compact4.dec_enc)
  next
    case False
    then have "sock4_to_bytes p = []" by (cases p; cases "fst p") (auto simp: v4_sock_def)
    with False show ?thesis by (simp add: decode_compact_peer_def)
  qed
  with Cons show ?case by (simp add: map_filter_simps)
qed (simp add: map_filter_simps)

lemma sock4_length: "length (sock4_to_bytes p) < usize_bound"
proof (cases "v4_sock p")
  case False
  then have "sock4_to_bytes p = []" by (cases p; cases "fst p") (auto simp: v4_sock_def)
  then show ?thesis by (simp add: usize_bound_def)
qed (simp add: compact4.length_enc usize_bound_def)

lemma peers_bv_ok:
  "length peers \<le> 1000000 \<Longrightarrow> d < MAX_DEPTH \<Longrightarrow> bv_ok d (BList (map (\<lambda>p. BBytes (sock4_to_bytes p)) peers))"
proof -
  have "items_ok d' (map (\<lambda>p. BBytes (sock4_to_bytes p)) peers)" for d'
    by (induction peers) (simp_all add: sock4_length)
  then show "length peers \<le> 1000000 \<Longrightarrow> d < MAX_DEPTH \<Longrightarrow> ?thesis" by (simp add: MAX_ELEMENTS_def)
qed

lemma response_dict_ok:
  assumes "id_ok own" and "response_ok resp"
  shows "small_dict 2 4 (response_fields own resp)"
proof -
  have r: "small_dict 2 1 (bt_insert (ascii ''id'') (BBytes (id_bytes own)) [])"
    using small_dict_insert [of 2 0 "[]" "''id''"] assms(1) by (simp add: id_ok_def usize_bound_def)
  have n: "bv_ok 2 (BBytes (encode_compact_nodes nodes))"
    if "list_all (id_ok \<circ> fst) nodes" "length nodes \<le> 1000000" for nodes
    using compact_nodes_length [OF that(1)] that(2) by (simp add: usize_bound_def)
  have weaken: "small_dict 2 k m \<Longrightarrow> k \<le> 4 \<Longrightarrow> small_dict 2 4 m" for k m
    by (simp add: small_dict_def)
  show ?thesis
  proof (cases resp)
    case (RFindNode i nodes)
    have "small_dict 2 (Suc 1) (response_fields own resp)"
      unfolding response_fields_def RFindNode Let_def krpc_response.case
      using assms(2) RFindNode by (intro small_dict_insert r n) auto
    then show ?thesis by (rule weaken) simp
  next
    case (RGetPeers i token peers nodes)
    define r1 where "r1 = (case token of None \<Rightarrow> bt_insert (ascii ''id'') (BBytes (id_bytes own)) []
      | Some t \<Rightarrow> bt_insert (ascii ''token'') (BBytes t) (bt_insert (ascii ''id'') (BBytes (id_bytes own)) []))"
    define r2 where "r2 = (if peers = [] then r1 else
      bt_insert (ascii ''values'') (BList (map (\<lambda>p. BBytes (sock4_to_bytes p)) peers)) r1)"
    have "small_dict 2 (Suc 1) r1"
    proof (cases token)
      case None
      with r show ?thesis by (simp add: r1_def small_dict_def)
    next
      case (Some t)
      with assms(2) RGetPeers have "length t < usize_bound" by simp
      then show ?thesis unfolding r1_def Some option.case by (intro small_dict_insert r) auto
    qed
    moreover from this have "small_dict 2 (Suc (Suc 1)) r2"
      unfolding r2_def using assms(2) RGetPeers peers_bv_ok [of peers 2]
      by (auto intro: small_dict_insert simp: MAX_DEPTH_def simp: small_dict_def [of _ _ r1])
    moreover have "response_fields own resp = (if nodes = [] then r2
        else bt_insert (ascii ''nodes'') (BBytes (encode_compact_nodes nodes)) r2)"
      by (simp add: RGetPeers response_fields_def r1_def r2_def Let_def)
    moreover have "bv_ok 2 (BBytes (encode_compact_nodes nodes))"
      by (rule n) (use assms(2) RGetPeers in auto)
    ultimately have "small_dict 2 (Suc (Suc (Suc 1))) (response_fields own resp)"
      using small_dict_insert [of 2 "Suc (Suc 1)" r2 "''nodes''" "BBytes (encode_compact_nodes nodes)"]
      by (cases "nodes = []") (auto simp: small_dict_def)
    then show ?thesis by (simp add: numeral_eq_Suc)
  qed (use r weaken in \<open>auto simp: response_fields_def\<close>)
qed

definition response_value :: "node_id \<Rightarrow> bytes \<Rightarrow> krpc_response \<Rightarrow> bvalue" where
  "response_value own txn resp = BDict (
     bt_insert (ascii ''r'') (BDict (response_fields own resp))
      (bt_insert (ascii ''y'') (BBytes (ascii ''r'')) (bt_insert (ascii ''t'') (BBytes txn) [])))"

lemma response_value_ok:
  assumes "id_ok own" and "response_ok resp" and "length txn < usize_bound"
  shows "bv_ok 0 (response_value own txn resp)"
proof -
  have "bv_ok 1 (BDict (response_fields own resp))"
    using small_dict_bv [of 1 4] response_dict_ok [OF assms(1,2)] by (simp add: numeral_2_eq_2 del: bv_ok.simps)
  then have "small_dict (Suc 0) (Suc (Suc (Suc 0)))
      (bt_insert (ascii ''r'') (BDict (response_fields own resp))
        (bt_insert (ascii ''y'') (BBytes (ascii ''r'')) (bt_insert (ascii ''t'') (BBytes txn) [])))"
    by (intro small_dict_insert small_dict_Nil) (use assms(3) in \<open>auto simp: ascii_def usize_bound_def simp del: bv_ok.simps(4)\<close>)
  then show ?thesis unfolding response_value_def by (rule small_dict_bv) simp_all
qed

lemma decode_response_value:
  assumes "id_ok own" and "response_ok resp"
  shows "decode_response (response_value own txn resp) = Some (read_back own resp)"
proof (cases resp)
  case (RFindNode i nodes)
  with assms show ?thesis
    by (simp add: decode_response_def response_value_def response_fields_def get20_insert id_ok_def
        compact_nodes_read_back read_back_def reply_fields_def Let_def)
next
  case (RGetPeers i token peers nodes)
  have "decode_compact_nodes [] = []" by (simp add: decode_compact_nodes_def chunks_exact_short)
  with RGetPeers assms show ?thesis
    by (cases token) (simp_all add: decode_response_def response_value_def response_fields_def get20_insert id_ok_def
        compact_nodes_read_back compact_peers_read_back read_back_def reply_fields_def Let_def v4_nodes_def)
qed (use assms in \<open>simp_all add: decode_response_def response_value_def response_fields_def get20_insert id_ok_def
        read_back_def reply_fields_def\<close>)

lemma handle_response:
  assumes "id_ok own" and "response_ok resp" and "length txn = 2"
    and "length (encode_response own txn resp) < usize_bound"
  shows "handle_message (encode_response own txn resp) addr st = take_pending txn (Some (read_back own resp)) st"
proof -
  have "bdecode (encode_response own txn resp) = Inr (response_value own txn resp)"
    using bdecode_encode [of "response_value own txn resp"] response_value_ok [OF assms(1,2), of txn] assms(3,4)
    by (simp add: encode_response_def response_value_def usize_bound_def)
  then show ?thesis
    using decode_response_value [OF assms(1,2), of txn] assms(3)
    by (simp add: handle_message_def) (simp add: response_value_def)
qed

section \<open>Pending queries\<close>

datatype ks_event = Start nat krpc_query | Finish query_end bytes | Receive bytes sock_addr

fun ks_step :: "krpc_socket \<Rightarrow> ks_event \<Rightarrow> krpc_socket" where
  "ks_step st (Start k q) = fst (query_start k q st)"
| "ks_step st (Finish e txn) = fst (query_finish e txn st)"
| "ks_step st (Receive data addr) = fst (handle_message data addr st)"

text \<open>An event that may end the query with a transaction number: its own end, or a message
  that carries the number.\<close>

definition message_txn :: "bytes \<Rightarrow> bytes option" where
  "message_txn data = (case bdecode data of Inl e \<Rightarrow> None
     | Inr val \<Rightarrow> Option.bind (get_str val ''t'') as_bytes)"

fun ends :: "bytes \<Rightarrow> ks_event \<Rightarrow> bool" where
  "ends txn (Start k q) = False"
| "ends txn (Finish e t) = (t = txn)"
| "ends txn (Receive data addr) = (message_txn data = Some txn)"

fun is_start :: "ks_event \<Rightarrow> bool" where
  "is_start (Start k q) = True"
| "is_start _ = False"

lemma take_pending_other:
  "key \<noteq> txn \<Longrightarrow> map_of (ks_pending (fst (take_pending key r st))) txn = map_of (ks_pending st) txn"
  "ks_txn_counter (fst (take_pending key r st)) = ks_txn_counter st"
  by (simp_all add: take_pending_def split: option.split)

lemma handle_message_other:
  assumes "message_txn data \<noteq> Some txn"
  shows "map_of (ks_pending (fst (handle_message data addr st))) txn = map_of (ks_pending st) txn"
    and "ks_txn_counter (fst (handle_message data addr st)) = ks_txn_counter st"
proof -
  have "fst (handle_message data addr st) = st \<or>
      (\<exists>key r. message_txn data = Some key \<and> fst (handle_message data addr st) = fst (take_pending key r st))"
    by (auto simp: handle_message_def message_txn_def split: sum.splits option.splits)
  with assms show "map_of (ks_pending (fst (handle_message data addr st))) txn = map_of (ks_pending st) txn"
    and "ks_txn_counter (fst (handle_message data addr st)) = ks_txn_counter st"
    by (auto simp: take_pending_other)
qed

lemma be16_inject: "be16 a = be16 b \<longleftrightarrow> a = b"
  by (metis be16_def list.inject of_be16_inverse)

lemma still_pending:
  assumes "map_of (ks_pending st) (be16 c) = Some k" and "ks_txn_counter st = c + of_nat n"
    and "0 < n" and "n + length (filter is_start es) \<le> 65536" and "\<not> list_ex (ends (be16 c)) es"
  shows "map_of (ks_pending (foldl ks_step st es)) (be16 c) = Some k"
  using assms
proof (induction es arbitrary: st n)
  case (Cons e es)
  show ?case
  proof (cases e)
    case (Start k' q)
    with Cons.prems have "n < 65536" by simp
    have "c + of_nat n \<noteq> c"
    proof
      assume "c + of_nat n = c"
      then have "(of_nat n :: u16) = 0" by simp
      then have "2 ^ LENGTH(16) dvd n" by (simp only: word_of_nat_eq_0_iff)
      with \<open>n < 65536\<close> \<open>0 < n\<close> show False by (simp add: nat_dvd_not_less)
    qed
    with Cons.prems Start show ?thesis
      by simp (rule Cons.IH [of _ "Suc n"], auto simp: query_start_def Let_def be16_inject algebra_simps)
  next
    case (Finish f t)
    with Cons.prems show ?thesis
      by simp (rule Cons.IH [of _ n], auto simp: query_finish_def split: query_end.split)
  next
    case (Receive data addr)
    with Cons.prems show ?thesis
      by simp (rule Cons.IH [of _ n], auto simp: handle_message_other)
  qed
qed simp

section \<open>Properties\<close>

text \<open>A query survives the wire: the other node hands on the same query with the sender's
  identifier, address and transaction number.\<close>

theorem query_round_trip:
  assumes "id_ok own" and "query_ok q" and "length (encode_query own txn q) < usize_bound"
    and "length txn < usize_bound"
  shows "handle_message (encode_query own txn q) addr st = (st, KInbound
    \<lparr>iq_query = q, iq_sender_id = own, iq_sender_addr = addr, iq_txn_id = txn\<rparr>)"
proof -
  have "bdecode (encode_query own txn q) = Inr (BDict (query_dict own txn q))"
    using bdecode_encode [OF query_dict_ok [OF assms(1,2,4)]] assms(3) by (simp add: encode_query_def)
  moreover have "get20 (BDict (query_args own q)) ''id'' = Some (id_bytes own)"
    using assms(1) by (simp add: query_args_def get20_insert id_ok_def Let_def split: krpc_query.split)
  ultimately show ?thesis
    using decode_query_dict [OF assms(2), of own txn]
    by (simp add: handle_message_def) (simp add: query_dict_def)
qed

definition example_socket :: krpc_socket where
  "example_socket = \<lparr>ks_own_id = NodeId (replicate 20 7), ks_txn_counter = 65535, ks_pending = []\<rparr>"

theorem query_round_trip_witness:
  "handle_message (encode_query (NodeId (replicate 20 7)) [1, 2] (QAnnouncePeer (replicate 20 9) 6881 [5]))
      (IPv4 9 8 7 6, 6881) example_socket =
     (example_socket, KInbound \<lparr>iq_query = QAnnouncePeer (replicate 20 9) 6881 [5],
        iq_sender_id = NodeId (replicate 20 7), iq_sender_addr = (IPv4 9 8 7 6, 6881), iq_txn_id = [1, 2]\<rparr>)"
proof (rule query_round_trip)
  have "length (encode_query (NodeId (replicate 20 7)) [1, 2] (QAnnouncePeer (replicate 20 9) 6881 [5])) < 1000"
    by code_simp
  then show "length (encode_query (NodeId (replicate 20 7)) [1, 2] (QAnnouncePeer (replicate 20 9) 6881 [5])) < usize_bound"
    by (simp add: usize_bound_def)
qed (simp_all add: id_ok_def usize_bound_def)

text \<open>The answer reaches the query that waits for it: after a query is started, whatever
  happens to other queries (as long as fewer than 65536 are started), the response with its
  number is delivered to it, with the sender's identifier and the IPv4 part of its contents.\<close>

theorem response_reaches_query:
  assumes "query_start k q st = (st1, txn, msg)" and "length (filter is_start es) < 65536"
    and "\<not> list_ex (ends txn) es" and "foldl ks_step st1 es = st2"
    and "id_ok peer" and "response_ok resp" and "length (encode_response peer txn resp) < usize_bound"
  shows "handle_message (encode_response peer txn resp) addr st2 =
    (st2\<lparr>ks_pending := hm_remove txn (ks_pending st2)\<rparr>, KDelivered k (read_back peer resp))"
proof -
  have txn: "txn = be16 (ks_txn_counter st)" and "length txn = 2"
    and st1: "ks_txn_counter st1 = ks_txn_counter st + of_nat 1" "map_of (ks_pending st1) txn = Some k"
    using assms(1) by (auto simp: query_start_def Let_def)
  have "map_of (ks_pending st2) txn = Some k"
    using still_pending [OF st1(2) [unfolded txn] st1(1), of es] assms(2-4) by (auto simp: txn)
  then show ?thesis
    using handle_response [OF assms(5,6) \<open>length txn = 2\<close> assms(7)] by (simp add: take_pending_def)
qed

theorem response_reaches_query_witness:
  "\<exists>st2 st3. handle_message (encode_response (NodeId (replicate 20 8)) [255, 255]
      (RFindNode (NodeId (replicate 20 8)) [(NodeId (replicate 20 1), (IPv4 1 2 3 4, 6881))])) (IPv4 9 8 7 6, 6881) st2 =
    (st3, KDelivered 5 (RGetPeers (NodeId (replicate 20 8)) None [] [(NodeId (replicate 20 1), (IPv4 1 2 3 4, 6881))]))"
proof -
  let ?resp = "RFindNode (NodeId (replicate 20 8)) [(NodeId (replicate 20 1), (IPv4 1 2 3 4, 6881))]"
  obtain st1 msg where s: "query_start 5 QPing example_socket = (st1, [255, 255], msg)"
    by (simp add: query_start_def example_socket_def be16_def Let_def)
  have "length (encode_response (NodeId (replicate 20 8)) [255, 255] ?resp) < 1000" by code_simp
  then have l: "length (encode_response (NodeId (replicate 20 8)) [255, 255] ?resp) < usize_bound"
    by (simp add: usize_bound_def)
  have "handle_message (encode_response (NodeId (replicate 20 8)) [255, 255] ?resp) (IPv4 9 8 7 6, 6881)
      (foldl ks_step st1 [Start 6 QPing, Finish TimedOut [0, 0]]) =
    ((foldl ks_step st1 [Start 6 QPing, Finish TimedOut [0, 0]])\<lparr>ks_pending :=
        hm_remove [255, 255] (ks_pending (foldl ks_step st1 [Start 6 QPing, Finish TimedOut [0, 0]]))\<rparr>,
      KDelivered 5 (read_back (NodeId (replicate 20 8)) ?resp))"
    by (rule response_reaches_query [OF s _ _ refl _ _ l]) (simp_all add: id_ok_def)
  then show ?thesis by (simp add: read_back_def reply_fields_def v4_nodes_def v4_sock_def) blast
qed

end
