(* ===== verification/Routing_Correct.thy ===== *)
theory Routing_Correct
  imports Routing
begin

text \<open>
  What the routing table promises: its invariant through every sequence of calls, that a new
  node never pushes out a node that may still answer, and that \<open>closest_nodes\<close> returns the
  nearest nodes.
\<close>

section \<open>Lists\<close>

lemma update_first_key:
  "distinct (map g xs) \<Longrightarrow> update_first (\<lambda>x. g x = k) f xs = map (\<lambda>x. if g x = k then f x else x) xs"
proof (induction xs)
  case (Cons x xs)
  then have "g x \<notin> g ` set xs" by simp
  then have "g y \<noteq> g x" if "y \<in> set xs" for y using that by (metis imageI)
  then have "map (\<lambda>y. if g y = g x then f y else y) xs = xs"
    by (intro map_idI) simp
  with Cons show ?case by (cases "g x = k") simp_all
qed simp

lemma map_update_first: "(\<And>x. g (f x) = g x) \<Longrightarrow> map g (update_first p f xs) = map g xs"
  by (induction xs) auto

lemma position_Some: "position p xs = Some j \<Longrightarrow> j < length xs \<and> p (xs ! j)"
  by (induction xs arbitrary: j) (auto split: if_splits)

lemma position_None: "position p xs = None \<longleftrightarrow> (\<forall>x \<in> set xs. \<not> p x)"
  by (induction xs) auto

lemma take_sort_key:
  assumes "xs' = sort_key f xs"
  shows "sorted (map f (take n xs')) \<and> set (take n xs') \<subseteq> set xs
    \<and> length (take n xs') = min n (length xs)
    \<and> (\<forall>x \<in> set xs - set (take n xs'). \<forall>y \<in> set (take n xs'). f y \<le> f x)"
proof -
  have s: "sorted (map f (take n xs') @ map f (drop n xs'))"
    using assms by (simp flip: map_append)
  have "set xs = set (take n xs') \<union> set (drop n xs')"
    using assms by (metis append_take_drop_id set_append set_sort)
  with s assms show ?thesis by (auto simp: sorted_append dest: in_set_takeD)
qed

section \<open>Invariant\<close>

definition bucket_ok :: "routing_table \<Rightarrow> nat \<Rightarrow> kbucket \<Rightarrow> bool" where
  "bucket_ok rt idx b \<longleftrightarrow> length (kb_nodes b) \<le> BUCKET_SIZE
     \<and> length (kb_replacement_cache b) \<le> BUCKET_SIZE \<and> distinct (map ne_id (kb_nodes b))
     \<and> (\<forall>i \<in> ne_id ` set (kb_nodes b). id_ok i \<and> i \<noteq> rt_own_id rt \<and> bucket_index rt i = idx)"

definition rt_inv :: "routing_table \<Rightarrow> bool" where
  "rt_inv rt \<longleftrightarrow> id_ok (rt_own_id rt) \<and> length (rt_buckets rt) = NUM_BUCKETS
     \<and> (\<forall>idx < NUM_BUCKETS. bucket_ok rt idx (rt_buckets rt ! idx))"

lemma bucket_index_upd [simp]: "bucket_index (rt\<lparr>rt_buckets := bs\<rparr>) = bucket_index rt"
  by (simp add: bucket_index_def fun_eq_iff)

lemma bucket_ok_upd [simp]: "bucket_ok (rt\<lparr>rt_buckets := bs\<rparr>) = bucket_ok rt"
  by (simp add: bucket_ok_def fun_eq_iff)

lemma bucket_index_less [simp]: "bucket_index rt i < NUM_BUCKETS"
  by (auto simp: bucket_index_def NUM_BUCKETS_def Let_def)

lemma bucket_ok_ids:
  assumes "bucket_ok rt idx b" and "map ne_id (kb_nodes b') = map ne_id (kb_nodes b)"
    and "kb_replacement_cache b' = kb_replacement_cache b"
  shows "bucket_ok rt idx b'"
proof -
  have "length (kb_nodes b') = length (kb_nodes b)" "ne_id ` set (kb_nodes b') = ne_id ` set (kb_nodes b)"
    using arg_cong [OF assms(2), of length] arg_cong [OF assms(2), of set] by simp_all
  then show ?thesis using assms by (simp add: bucket_ok_def)
qed

lemma rt_new_inv: "id_ok own \<Longrightarrow> rt_inv (rt_new now own)"
  by (simp add: rt_inv_def rt_new_def bucket_ok_def kbucket_new_def)

lemma rt_inv_bucket: "rt_inv rt \<Longrightarrow> bucket_ok rt (bucket_index rt i) (rt_buckets rt ! bucket_index rt i)"
  by (simp add: rt_inv_def)

lemma rt_inv_upd:
  "rt_inv rt \<Longrightarrow> bucket_ok rt idx b \<Longrightarrow> rt_inv (rt\<lparr>rt_buckets := (rt_buckets rt)[idx := b]\<rparr>)"
  by (cases "idx < length (rt_buckets rt)") (auto simp: rt_inv_def nth_list_update)

lemma in_all_nodes:
  "rt_inv rt \<Longrightarrow> n \<in> set (all_nodes rt) \<longleftrightarrow> n \<in> set (kb_nodes (rt_buckets rt ! bucket_index rt (ne_id n)))"
proof
  assume inv: "rt_inv rt" and "n \<in> set (all_nodes rt)"
  then obtain b where "b \<in> set (rt_buckets rt)" "n \<in> set (kb_nodes b)"
    by (auto simp: all_nodes_def)
  with inv obtain k where k: "k < NUM_BUCKETS" "n \<in> set (kb_nodes (rt_buckets rt ! k))"
    by (metis in_set_conv_nth rt_inv_def)
  with inv have "bucket_index rt (ne_id n) = k" by (auto simp: rt_inv_def bucket_ok_def)
  with k show "n \<in> set (kb_nodes (rt_buckets rt ! bucket_index rt (ne_id n)))" by simp
next
  assume "rt_inv rt" and "n \<in> set (kb_nodes (rt_buckets rt ! bucket_index rt (ne_id n)))"
  then show "n \<in> set (all_nodes rt)"
    by (auto simp: all_nodes_def rt_inv_def intro!: bexI [of _ "rt_buckets rt ! bucket_index rt (ne_id n)"])
qed

lemma all_nodes_ids: "rt_inv rt \<Longrightarrow> n \<in> set (all_nodes rt) \<Longrightarrow> id_ok (ne_id n)"
  using rt_inv_bucket [of rt "ne_id n"] in_all_nodes [of rt n] unfolding bucket_ok_def by blast

lemma all_nodes_distinct:
  assumes "rt_inv rt"
  shows "distinct (map ne_id (all_nodes rt))"
proof -
  have d: "distinct (concat (map (\<lambda>b. map ne_id (kb_nodes b)) bs))"
    if "\<And>k. k < length bs \<Longrightarrow> distinct (map ne_id (kb_nodes (bs ! k)))
      \<and> (\<forall>i \<in> ne_id ` set (kb_nodes (bs ! k)). f i = m + k)" for bs f and m :: nat
    using that
  proof (induction bs arbitrary: m)
    case (Cons b bs)
    have "f i = m" if "i \<in> ne_id ` set (kb_nodes b)" for i
      using Cons.prems [of 0] that by auto
    moreover have "m < f i" if c: "i \<in> ne_id ` set (kb_nodes c)" "c \<in> set bs" for i c
    proof -
      obtain k where "k < length bs" "bs ! k = c" using c(2) by (metis in_set_conv_nth)
      with Cons.prems [of "Suc k"] c(1) show ?thesis by auto
    qed
    moreover have "distinct (concat (map (\<lambda>b. map ne_id (kb_nodes b)) bs))"
      by (rule Cons.IH [of "Suc m"]) (use Cons.prems [of "Suc k" for k] in auto)
    ultimately show ?case using Cons.prems [of 0] by force
  qed simp
  have "distinct (concat (map (\<lambda>b. map ne_id (kb_nodes b)) (rt_buckets rt)))"
    by (rule d [of _ "bucket_index rt" 0]) (use assms in \<open>auto simp: rt_inv_def bucket_ok_def\<close>)
  then show ?thesis by (simp add: all_nodes_def map_concat comp_def)
qed

section \<open>Operations\<close>

lemma bucket_insert_cases:
  assumes "bucket_insert now i addr b = (b', r)" and "distinct (map ne_id (kb_nodes b))"
  obtains
    (known) "i \<in> ne_id ` set (kb_nodes b)" "r = Updated"
      "kb_nodes b' = map (\<lambda>n. if ne_id n = i then new_entry now i addr else n) (kb_nodes b)"
      "kb_replacement_cache b' = kb_replacement_cache b"
  | (room) "i \<notin> ne_id ` set (kb_nodes b)" "length (kb_nodes b) < BUCKET_SIZE" "r = Inserted"
      "kb_nodes b' = kb_nodes b @ [new_entry now i addr]"
      "kb_replacement_cache b' = kb_replacement_cache b"
  | (evict) j where "i \<notin> ne_id ` set (kb_nodes b)" "j < length (kb_nodes b)"
      "ne_status (kb_nodes b ! j) = Bad" "r = Inserted"
      "kb_nodes b' = (kb_nodes b)[j := new_entry now i addr]"
      "kb_replacement_cache b' = kb_replacement_cache b"
  | (full) "i \<notin> ne_id ` set (kb_nodes b)" "BUCKET_SIZE \<le> length (kb_nodes b)"
      "\<forall>n \<in> set (kb_nodes b). ne_status n \<noteq> Bad" "r = BucketFull" "kb_nodes b' = kb_nodes b"
      "length (kb_replacement_cache b') \<le> max BUCKET_SIZE (length (kb_replacement_cache b))"
proof (cases "i \<in> ne_id ` set (kb_nodes b)")
  case True
  have ex: "list_ex (\<lambda>n. ne_id n = i) (kb_nodes b)" using True by (auto simp: list_ex_iff)
  let ?f = "\<lambda>n. n\<lparr>ne_last_seen := now, ne_addr := addr, ne_status := Good, ne_failed_queries := 0\<rparr>"
  have "kb_nodes b' = map (\<lambda>n. if ne_id n = i then ?f n else n) (kb_nodes b)"
    using assms ex update_first_key [OF assms(2), of i ?f] by (auto simp: bucket_insert_def)
  also have "\<dots> = map (\<lambda>n. if ne_id n = i then new_entry now i addr else n) (kb_nodes b)"
    by (rule map_cong) (simp_all add: new_entry_def)
  finally show thesis using assms(1) ex True by (intro known) (auto simp: bucket_insert_def)
next
  case False
  then have nex: "\<not> list_ex (\<lambda>n. ne_id n = i) (kb_nodes b)" by (auto simp: list_ex_iff)
  show thesis
  proof (cases "length (kb_nodes b) < BUCKET_SIZE")
    case True
    with False nex assms(1) show thesis by (intro room) (auto simp: bucket_insert_def)
  next
    case long: False
    show thesis
    proof (cases "position (\<lambda>n. ne_status n = Bad) (kb_nodes b)")
      case None
      with False nex long assms(1) show thesis
        by (intro full) (auto simp: bucket_insert_def position_None split: if_splits)
    next
      case (Some j)
      with False nex long assms(1) position_Some [OF Some] show thesis
        by (intro evict [of j]) (auto simp: bucket_insert_def)
    qed
  qed
qed

lemma bucket_insert_ok:
  assumes "bucket_ok rt (bucket_index rt i) b" and "id_ok i" and "i \<noteq> rt_own_id rt"
    and "bucket_insert now i addr b = (b', r)"
  shows "bucket_ok rt (bucket_index rt i) b'"
proof -
  have d: "distinct (map ne_id (kb_nodes b))" using assms(1) by (simp add: bucket_ok_def)
  have [simp]: "ne_id (new_entry now i addr) = i" by (simp add: new_entry_def)
  from assms(4) d show ?thesis
  proof (cases rule: bucket_insert_cases)
    case known
    have "map ne_id (kb_nodes b') = map ne_id (kb_nodes b)" by (auto simp: known intro!: map_cong)
    then show ?thesis by (rule bucket_ok_ids [OF assms(1) _ known(4)])
  next
    case room
    then show ?thesis using assms(1-3) by (auto simp: bucket_ok_def)
  next
    case (evict j)
    have "set (kb_nodes b') \<subseteq> insert (new_entry now i addr) (set (kb_nodes b))"
      by (simp add: evict set_update_subset_insert)
    moreover have "distinct (map ne_id (kb_nodes b'))"
      using d evict(1) by (auto simp: evict map_update intro!: distinct_list_update)
    ultimately show ?thesis using assms(1-3) evict(5,6) by (auto simp: bucket_ok_def)
  next
    case full
    then show ?thesis using assms(1) by (auto simp: bucket_ok_def)
  qed
qed

lemma insert_inv [inv_intros]:
  assumes "rt_inv rt" and "id_ok i"
  shows "rt_inv (fst (insert_or_update now i addr rt))"
proof (cases "i = rt_own_id rt")
  case False
  obtain b r where b: "bucket_insert now i addr (rt_buckets rt ! bucket_index rt i) = (b, r)"
    by fastforce
  have "bucket_ok rt (bucket_index rt i) b"
    by (rule bucket_insert_ok [OF rt_inv_bucket [OF assms(1)] assms(2) False b])
  then show ?thesis
    using rt_inv_upd [OF assms(1)] False by (simp add: insert_or_update_def Let_def b)
qed (use assms in \<open>simp add: insert_or_update_def\<close>)

lemma update_node_inv:
  assumes "rt_inv rt" and "\<And>n. ne_id (f n) = ne_id n"
  shows "rt_inv (update_node i f rt)"
proof -
  let ?b = "rt_buckets rt ! bucket_index rt i"
  have "bucket_ok rt (bucket_index rt i)
      (?b\<lparr>kb_nodes := update_first (\<lambda>n. ne_id n = i) f (kb_nodes ?b)\<rparr>)"
    by (rule bucket_ok_ids [OF rt_inv_bucket [OF assms(1)]]) (simp_all add: map_update_first assms(2))
  then show ?thesis using rt_inv_upd [OF assms(1)] by (simp add: update_node_def Let_def)
qed

datatype rt_event = RInsert nat node_id sock_addr | RGood nat node_id | RFailed node_id

fun rt_step :: "routing_table \<Rightarrow> rt_event \<Rightarrow> routing_table" where
  "rt_step rt (RInsert now i addr) = fst (insert_or_update now i addr rt)"
| "rt_step rt (RGood now i) = mark_good now i rt"
| "rt_step rt (RFailed i) = mark_failed i rt"

fun rt_event_ok :: "routing_table \<Rightarrow> rt_event \<Rightarrow> bool" where
  "rt_event_ok rt (RInsert now i addr) = id_ok i"
| "rt_event_ok rt _ = True"

interpretation rt_machine: machine rt_event_ok rt_step rt_inv
proof
  fix rt e assume "rt_inv rt" and "rt_event_ok rt e"
  then show "rt_inv (rt_step rt e)"
    by (cases e) (auto simp: mark_good_def mark_failed_def fail_entry_def Let_def
        intro: insert_inv update_node_inv)
qed

lemma closest_nodes_spec:
  assumes "rt_inv rt"
  shows "distinct (map ne_id (closest_nodes rt target count))
    \<and> set (closest_nodes rt target count) \<subseteq> {n \<in> set (all_nodes rt). ne_status n \<noteq> Bad}
    \<and> length (closest_nodes rt target count) =
        min count (length (filter (\<lambda>n. ne_status n \<noteq> Bad) (all_nodes rt)))
    \<and> sorted (map (\<lambda>n. distance (ne_id n) target) (closest_nodes rt target count))
    \<and> (\<forall>m \<in> set (closest_nodes rt target count). \<forall>n \<in> set (all_nodes rt) - set (closest_nodes rt target count).
         ne_status n \<noteq> Bad \<longrightarrow> distance (ne_id m) target \<le> distance (ne_id n) target)"
proof -
  let ?f = "\<lambda>n. id_bytes (distance (ne_id n) target)"
  let ?ns = "filter (\<lambda>n. ne_status n \<noteq> Bad) (all_nodes rt)"
  note t = take_sort_key [of "sort_key ?f ?ns" ?f ?ns count, OF refl, folded closest_nodes_def]
  have "distinct (map ne_id ?ns)"
    using all_nodes_distinct [OF assms] by (simp add: distinct_map inj_on_def)
  then have "distinct (map ne_id (sort_key ?f ?ns))" by (simp add: distinct_map)
  then have "distinct (map ne_id (closest_nodes rt target count))"
    by (simp add: closest_nodes_def flip: take_map)
  moreover have "sorted (map (\<lambda>n. distance (ne_id n) target) (closest_nodes rt target count))"
    using t by (simp add: sorted_iff_nth_mono less_eq_node_id_def)
  ultimately show ?thesis using t by (auto simp: less_eq_node_id_def)
qed

section \<open>Properties\<close>

text \<open>Whatever nodes are inserted, answer or fail, in any order: no bucket holds more than
  eight nodes, the node itself is never in its table, no identifier occurs twice, and bucket
  \<open>k\<close> holds exactly nodes at XOR distance between \<open>2^k\<close> and \<open>2^(k+1)\<close>.\<close>

theorem routing_table_ok:
  assumes "id_ok own" and "run_events rt_event_ok rt_step (rt_new now own) es = Some rt"
  shows "distinct (map ne_id (all_nodes rt)) \<and> own \<notin> ne_id ` set (all_nodes rt)
    \<and> length (rt_buckets rt) = 160
    \<and> (\<forall>k < 160. length (kb_nodes (rt_buckets rt ! k)) \<le> 8
        \<and> (\<forall>n \<in> set (kb_nodes (rt_buckets rt ! k)).
             2 ^ k \<le> be_value (id_bytes (distance own (ne_id n)))
             \<and> be_value (id_bytes (distance own (ne_id n))) < 2 ^ Suc k))"
proof -
  have own: "rt_own_id s = own" if "run_events rt_event_ok rt_step r es = Some s" "rt_own_id r = own" for r s
    using that
  proof (induction es arbitrary: r)
    case (Cons e es)
    have "rt_own_id (rt_step r e) = rt_own_id r"
      by (cases e) (auto simp: insert_or_update_def mark_good_def mark_failed_def update_node_def Let_def
          split: prod.split)
    with Cons show ?case by (auto split: if_splits)
  qed simp
  have o: "rt_own_id rt = own" by (rule own [OF assms(2)]) (simp add: rt_new_def)
  have inv: "rt_inv rt" by (rule rt_machine.run_inv [OF rt_new_inv [OF assms(1)] assms(2)])
  have b: "bucket_ok rt k (rt_buckets rt ! k)" if "k < 160" for k
    using inv that by (simp add: rt_inv_def NUM_BUCKETS_def)
  have "2 ^ k \<le> be_value (id_bytes (distance own (ne_id n)))
      \<and> be_value (id_bytes (distance own (ne_id n))) < 2 ^ Suc k"
    if "k < 160" "n \<in> set (kb_nodes (rt_buckets rt ! k))" for k n
  proof -
    have "id_ok (ne_id n)" "ne_id n \<noteq> rt_own_id rt" "bucket_index rt (ne_id n) = k"
      using b [OF that(1)] that(2) by (auto simp: bucket_ok_def)
    then show ?thesis using bucket_index_log [of rt "ne_id n"] assms(1) by (simp add: o)
  qed
  moreover have "own \<notin> ne_id ` set (all_nodes rt)"
  proof
    assume "own \<in> ne_id ` set (all_nodes rt)"
    then obtain n where "n \<in> set (all_nodes rt)" "ne_id n = own" by auto
    then have "n \<in> set (kb_nodes (rt_buckets rt ! bucket_index rt own))"
      using in_all_nodes [OF inv, of n] by simp
    then show False
      using rt_inv_bucket [OF inv, of own] \<open>ne_id n = own\<close> by (auto simp: bucket_ok_def o)
  qed
  moreover have "length (kb_nodes (rt_buckets rt ! k)) \<le> 8" if "k < 160" for k
    using b [OF that] by (simp add: bucket_ok_def BUCKET_SIZE_def)
  moreover have "length (rt_buckets rt) = 160" using inv by (simp add: rt_inv_def NUM_BUCKETS_def)
  ultimately show ?thesis using all_nodes_distinct [OF inv] by blast
qed

definition example_own :: node_id where
  "example_own = NodeId (replicate 20 0)"

definition example_node :: "u8 \<Rightarrow> node_id" where
  "example_node b = NodeId (replicate 19 0 @ [b])"

definition example_events :: "rt_event list" where
  "example_events = [RInsert 1 (example_node 5) (IPv4 1 2 3 4, 6881), RFailed (example_node 5),
     RInsert 2 (example_node 4) (IPv4 1 2 3 5, 6881), RInsert 3 example_own (IPv4 1 1 1 1, 1)]"

lemma example_ids [simp]: "id_ok example_own" "id_ok (example_node b)"
  by (simp_all add: id_ok_def example_own_def example_node_def)

theorem routing_table_ok_witness:
  "\<exists>rt. run_events rt_event_ok rt_step (rt_new 0 example_own) example_events = Some rt
    \<and> length (kb_nodes (rt_buckets rt ! 2)) \<le> 8 \<and> example_own \<notin> ne_id ` set (all_nodes rt)"
proof -
  obtain rt where r: "run_events rt_event_ok rt_step (rt_new 0 example_own) example_events = Some rt"
    by (simp add: example_events_def)
  then show ?thesis using routing_table_ok [OF example_ids(1) r] by simp
qed

text \<open>Inserting a node refreshes it if it is known, and otherwise adds it unless its bucket
  holds eight nodes none of which is bad; no other node that is not bad is ever lost.\<close>

theorem insert_exact:
  assumes "rt_inv rt" and "id_ok i" and "i \<noteq> rt_own_id rt"
    and "insert_or_update now i addr rt = (rt', r)"
  shows "(\<forall>n \<in> set (all_nodes rt). ne_status n \<noteq> Bad \<and> ne_id n \<noteq> i \<longrightarrow> n \<in> set (all_nodes rt'))
    \<and> (r = Updated \<longleftrightarrow> i \<in> ne_id ` set (all_nodes rt))
    \<and> (r = BucketFull \<longleftrightarrow> i \<notin> ne_id ` set (all_nodes rt)
        \<and> length (kb_nodes (rt_buckets rt ! bucket_index rt i)) = BUCKET_SIZE
        \<and> (\<forall>n \<in> set (kb_nodes (rt_buckets rt ! bucket_index rt i)). ne_status n \<noteq> Bad))
    \<and> (if r = BucketFull then set (all_nodes rt') = set (all_nodes rt)
        else new_entry now i addr \<in> set (all_nodes rt'))"
proof -
  let ?k = "bucket_index rt i"
  obtain b' where b': "bucket_insert now i addr (rt_buckets rt ! ?k) = (b', r)"
    and rt': "rt' = rt\<lparr>rt_buckets := (rt_buckets rt)[?k := b']\<rparr>"
    using assms(3,4) by (auto simp: insert_or_update_def Let_def split: prod.splits)
  have ok: "bucket_ok rt ?k (rt_buckets rt ! ?k)" by (rule rt_inv_bucket [OF assms(1)])
  have inv': "rt_inv rt'" using insert_inv [OF assms(1,2), of now addr] assms(4) by simp
  have here: "n \<in> set (all_nodes rt') \<longleftrightarrow>
      (if bucket_index rt (ne_id n) = ?k then n \<in> set (kb_nodes b') else n \<in> set (all_nodes rt))" for n
    using in_all_nodes [OF inv', of n] in_all_nodes [OF assms(1), of n] assms(1)
    by (auto simp: rt' nth_list_update rt_inv_def)
  have there: "n \<in> set (all_nodes rt) \<longleftrightarrow> n \<in> set (kb_nodes (rt_buckets rt ! ?k))"
    if "bucket_index rt (ne_id n) = ?k" for n
    using in_all_nodes [OF assms(1), of n] that by simp
  have k: "bucket_index rt (ne_id n) = ?k" if "n \<in> set (kb_nodes (rt_buckets rt ! ?k))" for n
    using ok that by (auto simp: bucket_ok_def)
  have ids: "i \<in> ne_id ` set (all_nodes rt) \<longleftrightarrow> i \<in> ne_id ` set (kb_nodes (rt_buckets rt ! ?k))"
  proof
    assume "i \<in> ne_id ` set (all_nodes rt)"
    then obtain n where "n \<in> set (all_nodes rt)" "ne_id n = i" by auto
    then show "i \<in> ne_id ` set (kb_nodes (rt_buckets rt ! ?k))" using there [of n] by auto
  next
    assume "i \<in> ne_id ` set (kb_nodes (rt_buckets rt ! ?k))"
    then obtain n where "n \<in> set (kb_nodes (rt_buckets rt ! ?k))" "ne_id n = i" by auto
    then show "i \<in> ne_id ` set (all_nodes rt)" using there [of n] by auto
  qed
  have [simp]: "ne_id (new_entry now i addr) = i" by (simp add: new_entry_def)
  have d: "distinct (map ne_id (kb_nodes (rt_buckets rt ! ?k)))"
    and l: "length (kb_nodes (rt_buckets rt ! ?k)) \<le> BUCKET_SIZE"
    using ok by (auto simp: bucket_ok_def)
  from b' d show ?thesis
  proof (cases rule: bucket_insert_cases)
    case known
    then have "new_entry now i addr \<in> set (kb_nodes b')" by auto
    moreover have "n \<in> set (kb_nodes b')" if "n \<in> set (kb_nodes (rt_buckets rt ! ?k))" "ne_id n \<noteq> i" for n
      using that by (auto simp: known)
    ultimately show ?thesis using known(1,2) ids here there by auto
  next
    case room
    then show ?thesis using ids here there by auto
  next
    case (evict j)
    have "new_entry now i addr \<in> set (kb_nodes b')" by (simp add: evict set_update_memI)
    moreover have "n \<in> set (kb_nodes b')" if "n \<in> set (kb_nodes (rt_buckets rt ! ?k))" "ne_status n \<noteq> Bad" for n
    proof -
      obtain m where "m < length (kb_nodes (rt_buckets rt ! ?k))" "kb_nodes (rt_buckets rt ! ?k) ! m = n"
        using \<open>n \<in> _\<close> by (metis in_set_conv_nth)
      moreover from this have "m \<noteq> j" using evict(3) that(2) by auto
      ultimately show ?thesis by (metis evict(5) length_list_update nth_list_update_neq nth_mem)
    qed
    moreover have "\<exists>n \<in> set (kb_nodes (rt_buckets rt ! ?k)). ne_status n = Bad"
      using evict(2,3) nth_mem by blast
    ultimately show ?thesis using evict(1,4) ids here there by auto
  next
    case full
    then have "n \<in> set (all_nodes rt') \<longleftrightarrow> n \<in> set (all_nodes rt)" for n
      using here [of n] there [of n] by (cases "bucket_index rt (ne_id n) = ?k") simp_all
    then have "set (all_nodes rt') = set (all_nodes rt)" by blast
    then show ?thesis using full l ids by auto
  qed
qed

theorem insert_exact_witness:
  "new_entry 1 (example_node 5) (IPv4 1 2 3 4, 6881) \<in> set (all_nodes
     (fst (insert_or_update 1 (example_node 5) (IPv4 1 2 3 4, 6881) (rt_new 0 example_own))))"
proof -
  have ne: "example_node 5 \<noteq> rt_own_id (rt_new 0 example_own)"
    by (auto simp: example_node_def example_own_def rt_new_def dest!: arg_cong [of _ _ last])
  obtain rt' r where r: "insert_or_update 1 (example_node 5) (IPv4 1 2 3 4, 6881) (rt_new 0 example_own) = (rt', r)"
    by fastforce
  have "kb_nodes (rt_buckets (rt_new 0 example_own) ! bucket_index (rt_new 0 example_own) (example_node 5)) = []"
    by (simp add: rt_new_def kbucket_new_def)
  then show ?thesis
    using insert_exact [OF rt_new_inv [OF example_ids(1)] example_ids(2) ne r] r
    by (auto simp: BUCKET_SIZE_def split: if_splits)
qed

text \<open>\<open>closest_nodes\<close> returns nodes that are not bad, without repetition, as many as asked
  for if there are that many, nearest first, and no node it leaves out is nearer than one it
  returns.\<close>

theorem closest_nodes_exact:
  assumes "rt_inv rt"
  shows "distinct (map ne_id (closest_nodes rt target count))
    \<and> set (closest_nodes rt target count) \<subseteq> {n \<in> set (all_nodes rt). ne_status n \<noteq> Bad}
    \<and> length (closest_nodes rt target count) =
        min count (length (filter (\<lambda>n. ne_status n \<noteq> Bad) (all_nodes rt)))
    \<and> sorted (map (\<lambda>n. distance (ne_id n) target) (closest_nodes rt target count))
    \<and> (\<forall>m \<in> set (closest_nodes rt target count). \<forall>n \<in> set (all_nodes rt) - set (closest_nodes rt target count).
         ne_status n \<noteq> Bad \<longrightarrow> distance (ne_id m) target \<le> distance (ne_id n) target)"
  by (rule closest_nodes_spec [OF assms])

theorem closest_nodes_exact_witness:
  "distinct (map ne_id (closest_nodes (rt_new 0 example_own) example_own 8))"
  using closest_nodes_exact [OF rt_new_inv [OF example_ids(1)]] by blast

end
