(* ===== verification/Dht.thy ===== *)
theory Dht
  imports Krpc_Correct Routing_Correct
begin

text \<open>
  The DHT node above the wire (\<open>src/src/dht/token.rs\<close>, \<open>lookup.rs\<close>, \<open>node.rs\<close>): announce
  tokens, the answers to inbound queries, the iterative lookups and the bootstrap. SHA-1, the
  random secrets and the outcome of each query are arguments.
\<close>

section \<open>Tokens\<close>

text \<open>Times are nanoseconds of the monotonic clock.\<close>

definition ROTATION_INTERVAL :: nat where "ROTATION_INTERVAL = 300 * 10 ^ 9"

record token_manager =
  tm_current_secret :: bytes
  tm_previous_secret :: bytes
  tm_last_rotation :: nat

definition tm_new :: "nat \<Rightarrow> bytes \<Rightarrow> bytes \<Rightarrow> token_manager" where
  "tm_new now current previous =
     \<lparr>tm_current_secret = current, tm_previous_secret = previous, tm_last_rotation = now\<rparr>"

fun ip_octets :: "ip_addr \<Rightarrow> bytes" where
  "ip_octets (IPv4 a b c d) = [a, b, c, d]"
| "ip_octets (IPv6 ws) = concat (map be16 ws)"

definition generate_with_secret :: "(bytes \<Rightarrow> bytes) \<Rightarrow> ip_addr \<Rightarrow> bytes \<Rightarrow> bytes" where
  "generate_with_secret sha1 ip secret = sha1 (ip_octets ip @ secret)"

definition tm_generate :: "(bytes \<Rightarrow> bytes) \<Rightarrow> token_manager \<Rightarrow> ip_addr \<Rightarrow> bytes" where
  "tm_generate sha1 tm ip = sha1 (ip_octets ip @ tm_current_secret tm)"

definition tm_verify :: "(bytes \<Rightarrow> bytes) \<Rightarrow> token_manager \<Rightarrow> ip_addr \<Rightarrow> bytes \<Rightarrow> bool" where
  "tm_verify sha1 tm ip token =
     (if token = generate_with_secret sha1 ip (tm_current_secret tm) then True
      else token = generate_with_secret sha1 ip (tm_previous_secret tm))"

definition maybe_rotate :: "nat \<times> bytes \<Rightarrow> token_manager \<Rightarrow> token_manager" where
  "maybe_rotate = (\<lambda>(now, fresh) tm.
     if ROTATION_INTERVAL < now - tm_last_rotation tm
     then \<lparr>tm_current_secret = fresh, tm_previous_secret = tm_current_secret tm, tm_last_rotation = now\<rparr>
     else tm)"

section \<open>Answering queries\<close>

definition node_addrs :: "node_entry list \<Rightarrow> (node_id \<times> sock_addr) list" where
  "node_addrs ns = map (\<lambda>n. (ne_id n, ne_addr n)) ns"

definition handle_inbound ::
  "(bytes \<Rightarrow> bytes) \<Rightarrow> nat \<Rightarrow> token_manager \<Rightarrow> inbound_query \<Rightarrow> routing_table
    \<Rightarrow> routing_table \<times> bytes option" where
  "handle_inbound sha1 now tm q rt =
     (let rt' = fst (insert_or_update now (iq_sender_id q) (iq_sender_addr q) rt);
          own = rt_own_id rt';
          ip = fst (iq_sender_addr q);
          response = (case iq_query q of
              QPing \<Rightarrow> Some (RPing own)
            | QFindNode target \<Rightarrow> Some (RFindNode own (node_addrs (closest_nodes rt' target 8)))
            | QGetPeers ih \<Rightarrow> Some (RGetPeers own (Some (tm_generate sha1 tm ip)) []
                (node_addrs (closest_nodes rt' (NodeId ih) 8)))
            | QAnnouncePeer ih port token \<Rightarrow>
                if \<not> tm_verify sha1 tm ip token then None else Some (RAnnouncePeer own))
      in (rt', map_option (encode_response own (iq_txn_id q)) response))"

section \<open>Iterative lookups\<close>

definition ALPHA :: nat where "ALPHA = 3"
definition LOOKUP_K :: nat where "LOOKUP_K = 8"

datatype candidate_state = NotQueried | InFlight | Responded | Failed

type_synonym candidate = "node_id \<times> sock_addr \<times> candidate_state"

text \<open>
  The outcome of a query in a round, \<open>None\<close> for a timeout or an error. The source awaits the
  handles of a round in the order of its queries.
\<close>

type_synonym answers = "nat \<Rightarrow> node_id \<Rightarrow> sock_addr \<Rightarrow> krpc_response option"

record lookup =
  lk_candidates :: "candidate list"
  lk_queried :: "node_id list"
  lk_tokens :: "(node_id \<times> sock_addr \<times> bytes option) list"
  lk_sent :: "sock_addr list list"
  lk_table :: routing_table

definition c_dist :: "node_id \<Rightarrow> candidate \<Rightarrow> bytes" where
  "c_dist target c = id_bytes (distance (fst c) target)"

definition set_state :: "node_id \<Rightarrow> candidate_state \<Rightarrow> candidate list \<Rightarrow> candidate list" where
  "set_state i s = update_first (\<lambda>c. fst c = i) (\<lambda>(j, a, _). (j, a, s))"

definition add_candidates :: "(node_id \<times> sock_addr) list \<Rightarrow> candidate list \<Rightarrow> candidate list" where
  "add_candidates nodes cs = fold (\<lambda>(i, a) cs.
     if \<not> list_ex (\<lambda>c. fst c = i) cs then cs @ [(i, a, NotQueried)] else cs) nodes cs"

fun response_parts ::
  "krpc_response \<Rightarrow> node_id \<times> bytes option \<times> sock_addr list \<times> (node_id \<times> sock_addr) list" where
  "response_parts (RGetPeers i token peers nodes) = (i, token, peers, nodes)"
| "response_parts (RFindNode i nodes) = (i, None, [], nodes)"
| "response_parts (RPing i) = (i, None, [], [])"
| "response_parts (RAnnouncePeer i) = (i, None, [], [])"

text \<open>One awaited handle of a round.\<close>

definition absorb :: "nat \<Rightarrow> krpc_response option \<Rightarrow> node_id \<times> sock_addr \<Rightarrow> lookup \<Rightarrow> lookup" where
  "absorb now answer = (\<lambda>(node, addr) lk. case answer of
       Some resp \<Rightarrow> (case response_parts resp of (i, token, peers, nodes) \<Rightarrow>
         lk\<lparr>lk_candidates := add_candidates nodes (set_state node Responded (lk_candidates lk)),
            lk_table := mark_good now i (fst (insert_or_update now i addr (lk_table lk))),
            lk_tokens := lk_tokens lk @ [(i, addr, token)],
            lk_sent := (if peers \<noteq> [] then lk_sent lk @ [peers] else lk_sent lk)\<rparr>)
     | None \<Rightarrow>
         lk\<lparr>lk_candidates := set_state node Failed (lk_candidates lk),
            lk_table := mark_failed node (lk_table lk)\<rparr>)"

definition in_state :: "candidate_state \<Rightarrow> candidate list \<Rightarrow> candidate list" where
  "in_state s cs = filter (\<lambda>c. snd (snd c) = s) cs"

text \<open>\<open>iter().min()\<close> on the distances.\<close>

definition min_dist :: "node_id \<Rightarrow> candidate list \<Rightarrow> bytes option" where
  "min_dist target cs = (if cs = [] then None else Some (Min (set (map (c_dist target) cs))))"

definition to_query :: "node_id \<Rightarrow> lookup \<Rightarrow> (node_id \<times> sock_addr) list" where
  "to_query target lk = map (\<lambda>(i, a, _). (i, a)) (take ALPHA
     (filter (\<lambda>(i, _, s). s = NotQueried \<and> i \<notin> set (lk_queried lk))
       (sort_key (c_dist target) (lk_candidates lk))))"

definition mark_in_flight :: "(node_id \<times> sock_addr) list \<Rightarrow> lookup \<Rightarrow> lookup" where
  "mark_in_flight qs = fold (\<lambda>(i, _) lk. lk\<lparr>lk_queried := List.insert i (lk_queried lk),
     lk_candidates := set_state i InFlight (lk_candidates lk)\<rparr>) qs"

text \<open>One iteration: whether the loop goes on, and the state after it.\<close>

definition get_peers_round ::
  "answers \<Rightarrow> node_id \<Rightarrow> nat \<Rightarrow> lookup \<Rightarrow> bool \<times> lookup" where
  "get_peers_round answers target r lk =
     (let lk1 = lk\<lparr>lk_candidates := sort_key (c_dist target) (lk_candidates lk)\<rparr>;
          qs = to_query target lk in
      if qs = [] then (False, lk1)
      else (let lk2 = fold (\<lambda>q. absorb r (answers r (fst q) (snd q)) q) qs (mark_in_flight qs lk1) in
        (case (min_dist target (in_state Responded (lk_candidates lk2)),
               min_dist target (in_state NotQueried (lk_candidates lk2))) of
           (Some resp_dist, Some unq_dist) \<Rightarrow> \<not> resp_dist \<le> unq_dist
         | _ \<Rightarrow> True, lk2)))"

fun lookup_loop :: "(nat \<Rightarrow> 's \<Rightarrow> bool \<times> 's) \<Rightarrow> nat \<Rightarrow> nat \<Rightarrow> 's \<Rightarrow> 's" where
  "lookup_loop round r 0 s = s"
| "lookup_loop round r (Suc n) s =
     (case round r s of (go, s') \<Rightarrow> if go then lookup_loop round (Suc r) n s' else s')"

definition lookup_start :: "routing_table \<Rightarrow> node_id \<Rightarrow> lookup" where
  "lookup_start rt target =
     \<lparr>lk_candidates = map (\<lambda>(i, a). (i, a, NotQueried)) (node_addrs (closest_nodes rt target LOOKUP_K)),
      lk_queried = [], lk_tokens = [], lk_sent = [], lk_table = rt\<rparr>"

definition iterative_get_peers :: "answers \<Rightarrow> info_hash \<Rightarrow> routing_table \<Rightarrow> lookup" where
  "iterative_get_peers answers ih rt =
     lookup_loop (get_peers_round answers (NodeId ih)) 0 20 (lookup_start rt (NodeId ih))"

text \<open>\<open>iterative_find_node\<close>: the candidates carry no state.\<close>

record finder =
  fd_candidates :: "(node_id \<times> sock_addr) list"
  fd_queried :: "node_id list"
  fd_table :: routing_table

definition fd_absorb ::
  "nat \<Rightarrow> krpc_response option \<Rightarrow> sock_addr \<Rightarrow> bool \<times> finder \<Rightarrow> bool \<times> finder" where
  "fd_absorb now answer addr = (\<lambda>(found_new, fd). case answer of
       None \<Rightarrow> (found_new, fd)
     | Some resp \<Rightarrow> (case response_parts resp of (i, _, _, nodes) \<Rightarrow>
         fold (\<lambda>(nid, naddr) (found_new, fd).
             let fd' = fd\<lparr>fd_table := fst (insert_or_update now nid naddr (fd_table fd))\<rparr> in
             if \<not> list_ex (\<lambda>c. fst c = nid) (fd_candidates fd')
             then (True, fd'\<lparr>fd_candidates := fd_candidates fd' @ [(nid, naddr)]\<rparr>) else (found_new, fd'))
           nodes
           (found_new, fd\<lparr>fd_table := mark_good now i (fst (insert_or_update now i addr (fd_table fd)))\<rparr>)))"

definition find_node_round :: "answers \<Rightarrow> node_id \<Rightarrow> nat \<Rightarrow> finder \<Rightarrow> bool \<times> finder" where
  "find_node_round answers target r fd =
     (let cs = sort_key (\<lambda>c. id_bytes (distance (fst c) target)) (fd_candidates fd);
          qs = take ALPHA (filter (\<lambda>c. fst c \<notin> set (fd_queried fd)) cs) in
      if qs = [] then (False, fd\<lparr>fd_candidates := cs\<rparr>)
      else fold (\<lambda>q. fd_absorb r (answers r (fst q) (snd q)) (snd q)) qs
        (False, fd\<lparr>fd_candidates := cs,
          fd_queried := fold (\<lambda>q. List.insert (fst q)) qs (fd_queried fd)\<rparr>))"

definition iterative_find_node :: "answers \<Rightarrow> node_id \<Rightarrow> routing_table \<Rightarrow> finder" where
  "iterative_find_node answers target rt =
     lookup_loop (find_node_round answers target) 0 30
       \<lparr>fd_candidates = node_addrs (closest_nodes rt target LOOKUP_K), fd_queried = [], fd_table = rt\<rparr>"

text \<open>The bootstrap: the resolved addresses with the outcome of the query to each.\<close>

definition bootstrap ::
  "answers \<Rightarrow> nat \<Rightarrow> (sock_addr \<times> krpc_response option) list \<Rightarrow> routing_table \<Rightarrow> routing_table" where
  "bootstrap answers now results rt =
     (let rt' = fold (\<lambda>(addr, answer) rt. case answer of
            None \<Rightarrow> rt
          | Some resp \<Rightarrow> (case response_parts resp of (i, _, _, nodes) \<Rightarrow>
              fold (\<lambda>(nid, naddr) rt. fst (insert_or_update now nid naddr rt)) nodes
                (fst (insert_or_update now i addr rt)))) results rt in
      if 0 < node_count rt' then fd_table (iterative_find_node answers (rt_own_id rt') rt') else rt')"

end
