(* ===== verification/Dht_Correct.thy ===== *)
theory Dht_Correct
  imports Dht
begin

text \<open>
  What the DHT node promises: a token is good for five minutes at least, a lookup asks every
  node at most once and at most sixty nodes, it stops only when nothing nearer is left to ask,
  and the token a node hands out lets the asking address announce.
\<close>

section \<open>Lookups\<close>

definition lk_inv :: "lookup \<Rightarrow> bool" where
  "lk_inv lk \<longleftrightarrow> distinct (map fst (lk_candidates lk)) \<and> distinct (lk_queried lk)
     \<and> set (lk_queried lk) \<subseteq> fst ` set (lk_candidates lk)
     \<and> (\<forall>c \<in> set (lk_candidates lk). snd (snd c) = NotQueried \<longleftrightarrow> fst c \<notin> set (lk_queried lk))"

lemma set_state_map:
  "distinct (map fst cs) \<Longrightarrow> set_state i s cs = map (\<lambda>c. if fst c = i then (fst c, fst (snd c), s) else c) cs"
  by (auto simp: set_state_def update_first_key case_prod_unfold intro!: map_cong)

lemma set_state_ids: "map fst (set_state i s cs) = map fst cs"
  unfolding set_state_def by (rule map_update_first) (simp add: case_prod_unfold)

lemma set_state_inv:
  assumes "lk_inv lk" and "i \<in> set (lk_queried lk)" and "s \<noteq> NotQueried"
  shows "lk_inv (lk\<lparr>lk_candidates := set_state i s (lk_candidates lk)\<rparr>)"
proof -
  have d: "distinct (map fst (lk_candidates lk))" using assms(1) by (simp add: lk_inv_def)
  have "fst ` set (set_state i s (lk_candidates lk)) = fst ` set (lk_candidates lk)"
    using arg_cong [OF set_state_ids, of set] by simp
  moreover have "\<forall>c \<in> set (set_state i s (lk_candidates lk)). snd (snd c) = NotQueried \<longleftrightarrow> fst c \<notin> set (lk_queried lk)"
    using assms by (auto simp: set_state_map [OF d] lk_inv_def)
  ultimately show ?thesis using assms(1) by (simp add: lk_inv_def set_state_ids)
qed

lemma add_candidates_inv:
  "lk_inv lk \<Longrightarrow> lk_inv (lk\<lparr>lk_candidates := add_candidates nodes (lk_candidates lk)\<rparr>)"
proof (induction nodes arbitrary: lk)
  case Nil
  then show ?case by (simp add: add_candidates_def)
next
  case (Cons n nodes)
  obtain i a where n: "n = (i, a)" by (cases n)
  let ?lk = "if \<not> list_ex (\<lambda>c. fst c = i) (lk_candidates lk)
    then lk\<lparr>lk_candidates := lk_candidates lk @ [(i, a, NotQueried)]\<rparr> else lk"
  have "lk_inv ?lk" using Cons.prems by (auto simp: lk_inv_def list_ex_iff)
  from Cons.IH [OF this] show ?case by (auto simp: add_candidates_def n split: if_splits)
qed

lemma absorb_inv:
  assumes "lk_inv lk" and "fst q \<in> set (lk_queried lk)"
  shows "lk_inv (absorb now ans q lk)" and "lk_queried (absorb now ans q lk) = lk_queried lk"
    and "length (lk_tokens (absorb now ans q lk)) \<le> Suc (length (lk_tokens lk))"
proof -
  have s: "lk_inv (lk\<lparr>lk_candidates := set_state (fst q) s (lk_candidates lk)\<rparr>)" if "s \<noteq> NotQueried" for s
    by (rule set_state_inv [OF assms that])
  have "lk_inv (lk\<lparr>lk_candidates := add_candidates nodes (set_state (fst q) Responded (lk_candidates lk))\<rparr>)" for nodes
    using add_candidates_inv [OF s [of Responded]] by simp
  with s [of Failed] show "lk_inv (absorb now ans q lk)"
    by (auto simp: absorb_def lk_inv_def case_prod_unfold split: option.split)
qed (auto simp: absorb_def case_prod_unfold split: option.split)

lemma absorb_fold:
  "lk_inv lk \<Longrightarrow> fst ` set qs \<subseteq> set (lk_queried lk) \<Longrightarrow>
     lk_inv (fold (\<lambda>q. absorb r (f q) q) qs lk)
     \<and> lk_queried (fold (\<lambda>q. absorb r (f q) q) qs lk) = lk_queried lk
     \<and> length (lk_tokens (fold (\<lambda>q. absorb r (f q) q) qs lk)) \<le> length (lk_tokens lk) + length qs"
proof (induction qs arbitrary: lk)
  case (Cons q qs)
  have q: "fst q \<in> set (lk_queried lk)" using Cons.prems(2) by auto
  note a = absorb_inv [OF Cons.prems(1) q, of r "f q"]
  show ?case using Cons.IH [OF a(1)] a(2,3) Cons.prems(2) by auto
qed simp

lemma mark_in_flight_inv:
  "lk_inv lk \<Longrightarrow> distinct (map fst qs) \<Longrightarrow> fst ` set qs \<inter> set (lk_queried lk) = {} \<Longrightarrow>
     fst ` set qs \<subseteq> fst ` set (lk_candidates lk) \<Longrightarrow>
     lk_inv (mark_in_flight qs lk) \<and> set (lk_queried (mark_in_flight qs lk)) = fst ` set qs \<union> set (lk_queried lk)
     \<and> length (lk_queried (mark_in_flight qs lk)) = length (lk_queried lk) + length qs
     \<and> lk_tokens (mark_in_flight qs lk) = lk_tokens lk"
proof (induction qs arbitrary: lk)
  case Nil
  then show ?case by (simp add: mark_in_flight_def)
next
  case (Cons q qs)
  obtain i a where q: "q = (i, a)" by (cases q)
  let ?lk = "lk\<lparr>lk_queried := List.insert i (lk_queried lk),
    lk_candidates := set_state i InFlight (lk_candidates lk)\<rparr>"
  have d: "distinct (map fst (lk_candidates lk))" using Cons.prems(1) by (simp add: lk_inv_def)
  have ids: "fst ` set (set_state i InFlight (lk_candidates lk)) = fst ` set (lk_candidates lk)"
    using arg_cong [OF set_state_ids, of set] by simp
  have "\<forall>c \<in> set (set_state i InFlight (lk_candidates lk)).
      snd (snd c) = NotQueried \<longleftrightarrow> fst c \<notin> insert i (set (lk_queried lk))"
    using Cons.prems(1) by (auto simp: set_state_map [OF d] lk_inv_def)
  then have "lk_inv ?lk"
    using Cons.prems by (auto simp: lk_inv_def set_state_ids ids q)
  from Cons.IH [OF this] Cons.prems show ?case
    by (auto simp: mark_in_flight_def q ids)
qed

lemma lk_inv_sort: "lk_inv (lk\<lparr>lk_candidates := sort_key f (lk_candidates lk)\<rparr>) \<longleftrightarrow> lk_inv lk"
  by (simp add: lk_inv_def distinct_map)

lemma to_query_fresh:
  assumes "lk_inv lk"
  shows "distinct (map fst (to_query target lk))" "fst ` set (to_query target lk) \<inter> set (lk_queried lk) = {}"
    "fst ` set (to_query target lk) \<subseteq> fst ` set (lk_candidates lk)" "length (to_query target lk) \<le> 3"
proof -
  let ?f = "filter (\<lambda>(i, _, s). s = NotQueried \<and> i \<notin> set (lk_queried lk)) (sort_key (c_dist target) (lk_candidates lk))"
  have m: "map fst (to_query target lk) = take ALPHA (map fst ?f)"
    by (simp add: to_query_def take_map comp_def case_prod_unfold)
  have "distinct (map fst ?f)"
    using assms by (auto simp: lk_inv_def distinct_map intro: inj_on_subset)
  then show "distinct (map fst (to_query target lk))" unfolding m by (rule distinct_take)
  have "fst ` set (to_query target lk) \<subseteq> fst ` set ?f"
    using arg_cong [OF m, of set] by (auto dest: in_set_takeD)
  then show "fst ` set (to_query target lk) \<inter> set (lk_queried lk) = {}"
    "fst ` set (to_query target lk) \<subseteq> fst ` set (lk_candidates lk)" by auto
  show "length (to_query target lk) \<le> 3" by (simp add: to_query_def ALPHA_def)
qed

lemma to_query_Nil:
  "lk_inv lk \<Longrightarrow> to_query target lk = [] \<longleftrightarrow> in_state NotQueried (lk_candidates lk) = []"
  by (auto simp: to_query_def ALPHA_def in_state_def filter_empty_conv lk_inv_def case_prod_unfold)

text \<open>A round keeps the invariant and asks one to three new nodes unless the lookup is over;
  it stops only when the nearest node that answered is as near as every node not asked.\<close>

definition nothing_nearer :: "node_id \<Rightarrow> lookup \<Rightarrow> bool" where
  "nothing_nearer target lk \<longleftrightarrow> in_state NotQueried (lk_candidates lk) = []
     \<or> (\<exists>c \<in> set (in_state Responded (lk_candidates lk)). \<forall>d \<in> set (in_state NotQueried (lk_candidates lk)).
          distance (fst c) target \<le> distance (fst d) target)"

lemma min_dist_Some:
  "min_dist target cs = Some m \<Longrightarrow> (\<exists>c \<in> set cs. c_dist target c = m) \<and> (\<forall>c \<in> set cs. m \<le> c_dist target c)"
proof -
  assume a: "min_dist target cs = Some m"
  then have "m = Min (c_dist target ` set cs)" "cs \<noteq> []" by (auto simp: min_dist_def split: if_splits)
  then have m: "m = Min (c_dist target ` set cs)" "finite (c_dist target ` set cs)" "c_dist target ` set cs \<noteq> {}"
    by auto
  from Min_in [OF m(2,3)] obtain c where "c \<in> set cs" "c_dist target c = m"
    unfolding m(1) [symmetric] by auto
  moreover have "\<forall>c \<in> set cs. m \<le> c_dist target c" using m by simp
  ultimately show ?thesis by blast
qed

lemma get_peers_round_inv:
  assumes "lk_inv lk" and "get_peers_round answers target r lk = (go, lk')"
  shows "lk_inv lk' \<and> length (lk_queried lk') \<le> length (lk_queried lk) + 3
    \<and> length (lk_tokens lk') + length (lk_queried lk) \<le> length (lk_tokens lk) + length (lk_queried lk')
    \<and> (if go then length (lk_queried lk) < length (lk_queried lk') else nothing_nearer target lk')"
proof (cases "to_query target lk = []")
  case True
  then have "in_state NotQueried (lk_candidates lk) = []" using to_query_Nil [OF assms(1)] by simp
  then have "in_state NotQueried (sort_key (c_dist target) (lk_candidates lk)) = []"
    by (simp add: in_state_def filter_empty_conv)
  with True assms show ?thesis
    by (auto simp: get_peers_round_def lk_inv_sort nothing_nearer_def)
next
  case False
  let ?qs = "to_query target lk"
  let ?lk1 = "lk\<lparr>lk_candidates := sort_key (c_dist target) (lk_candidates lk)\<rparr>"
  note f = to_query_fresh [OF assms(1), of target]
  have m: "lk_inv (mark_in_flight ?qs ?lk1)"
    "set (lk_queried (mark_in_flight ?qs ?lk1)) = fst ` set ?qs \<union> set (lk_queried lk)"
    "length (lk_queried (mark_in_flight ?qs ?lk1)) = length (lk_queried lk) + length ?qs"
    "lk_tokens (mark_in_flight ?qs ?lk1) = lk_tokens lk"
    using mark_in_flight_inv [of ?lk1 ?qs] f assms(1) by (auto simp: lk_inv_sort)
  define lk2 where "lk2 = fold (\<lambda>q. absorb r (answers r (fst q) (snd q)) q) ?qs (mark_in_flight ?qs ?lk1)"
  have a: "lk_inv lk2" "lk_queried lk2 = lk_queried (mark_in_flight ?qs ?lk1)"
    "length (lk_tokens lk2) \<le> length (lk_tokens lk) + length ?qs"
    using absorb_fold [OF m(1), of ?qs r "\<lambda>q. answers r (fst q) (snd q)"] m(2,4) by (auto simp: lk2_def)
  have r: "lk' = lk2" "go = (case (min_dist target (in_state Responded (lk_candidates lk2)),
      min_dist target (in_state NotQueried (lk_candidates lk2))) of
        (Some resp_dist, Some unq_dist) \<Rightarrow> \<not> resp_dist \<le> unq_dist | _ \<Rightarrow> True)"
    using assms(2) False by (auto simp: get_peers_round_def Let_def lk2_def)
  have "nothing_nearer target lk2" if stop: "\<not> go"
  proof -
    obtain x y where x: "min_dist target (in_state Responded (lk_candidates lk2)) = Some x"
      and y: "min_dist target (in_state NotQueried (lk_candidates lk2)) = Some y" and xy: "x \<le> y"
      using stop r(2) by (auto split: option.splits)
    obtain c where c: "c \<in> set (in_state Responded (lk_candidates lk2))" "c_dist target c = x"
      using min_dist_Some [OF x] by blast
    have "\<forall>d \<in> set (in_state NotQueried (lk_candidates lk2)). distance (fst c) target \<le> distance (fst d) target"
    proof
      fix d assume "d \<in> set (in_state NotQueried (lk_candidates lk2))"
      then have "y \<le> c_dist target d" using min_dist_Some [OF y] by blast
      with xy c(2) have "c_dist target c \<le> c_dist target d" by (metis order_trans)
      then show "distance (fst c) target \<le> distance (fst d) target"
        by (simp add: c_dist_def less_eq_node_id_def)
    qed
    with c(1) show ?thesis unfolding nothing_nearer_def by blast
  qed
  with a m(3) f(4) False show ?thesis by (cases go) (auto simp: r(1))
qed

lemma lookup_loop_inv:
  "lk_inv lk \<Longrightarrow> lookup_loop (get_peers_round answers target) r n lk = lk' \<Longrightarrow>
     lk_inv lk' \<and> length (lk_queried lk') \<le> length (lk_queried lk) + 3 * n
     \<and> length (lk_tokens lk') + length (lk_queried lk) \<le> length (lk_tokens lk) + length (lk_queried lk')
     \<and> (length (lk_queried lk) + n \<le> length (lk_queried lk') \<or> nothing_nearer target lk')"
proof (induction n arbitrary: r lk)
  case (Suc n)
  obtain go lk1 where s: "get_peers_round answers target r lk = (go, lk1)" by fastforce
  note i = get_peers_round_inv [OF Suc.prems(1) s]
  show ?case
  proof (cases go)
    case True
    with Suc.prems(2) s have "lookup_loop (get_peers_round answers target) (Suc r) n lk1 = lk'" by simp
    from Suc.IH [OF _ this] i True show ?thesis by auto
  next
    case False
    with Suc.prems(2) s i show ?thesis by auto
  qed
qed simp

lemma lookup_start_inv: "rt_inv rt \<Longrightarrow> lk_inv (lookup_start rt target)"
  using closest_nodes_spec [of rt target LOOKUP_K]
  by (auto simp: lk_inv_def lookup_start_def node_addrs_def comp_def case_prod_unfold)

section \<open>Tokens\<close>

lemma rotate_keeps:
  assumes "\<And>r. r \<in> set rs \<Longrightarrow> fst r \<le> t0 + ROTATION_INTERVAL" and "t0 \<le> tm_last_rotation tm"
  shows "fold maybe_rotate rs tm = tm"
  using assms(1)
proof (induction rs)
  case (Cons r rs)
  have "fst r \<le> t0 + ROTATION_INTERVAL" by (rule Cons.prems) simp
  with assms(2) have "\<not> ROTATION_INTERVAL < fst r - tm_last_rotation tm" by linarith
  then have "maybe_rotate r tm = tm" by (cases r) (simp add: maybe_rotate_def)
  with Cons show ?case by simp
qed simp

lemma token_lifetime_aux:
  assumes "\<And>r. r \<in> set rs \<Longrightarrow> t0 \<le> fst r \<and> fst r \<le> t0 + ROTATION_INTERVAL"
  shows "tm_current_secret (fold maybe_rotate rs tm) = tm_current_secret tm
    \<or> tm_previous_secret (fold maybe_rotate rs tm) = tm_current_secret tm"
  using assms
proof (induction rs arbitrary: tm)
  case (Cons r rs)
  show ?case
  proof (cases "maybe_rotate r tm = tm")
    case True
    with Cons show ?thesis by simp
  next
    case False
    then have p: "tm_previous_secret (maybe_rotate r tm) = tm_current_secret tm"
      and l: "tm_last_rotation (maybe_rotate r tm) = fst r"
      by (auto simp: maybe_rotate_def split: prod.splits if_splits)
    have "fold maybe_rotate rs (maybe_rotate r tm) = maybe_rotate r tm"
      by (rule rotate_keeps [of rs t0]) (use Cons.prems l in auto)
    with p show ?thesis by simp
  qed
qed simp

section \<open>Properties\<close>

text \<open>C40. A lookup asks each node at most once and at most sixty nodes in all, never asks an
  already asked node again, collects at most one token per node asked, and unless it has asked
  twenty nodes or more, it has stopped because the nearest node that answered is as near as every
  node it did not ask.\<close>

theorem lookup_bounded:
  assumes "rt_inv rt" and "iterative_get_peers answers ih rt = lk"
  shows "distinct (lk_queried lk) \<and> length (lk_queried lk) \<le> 60
    \<and> length (lk_tokens lk) \<le> length (lk_queried lk)
    \<and> fst ` set (to_query (NodeId ih) lk) \<inter> set (lk_queried lk) = {}
    \<and> (20 \<le> length (lk_queried lk) \<or> nothing_nearer (NodeId ih) lk)"
proof -
  have s: "lk_inv (lookup_start rt (NodeId ih))" by (rule lookup_start_inv [OF assms(1)])
  have z: "length (lk_queried (lookup_start rt (NodeId ih))) = 0" "length (lk_tokens (lookup_start rt (NodeId ih))) = 0"
    by (simp_all add: lookup_start_def)
  note l = lookup_loop_inv [OF s assms(2) [unfolded iterative_get_peers_def], unfolded z]
  then have "lk_inv lk" by blast
  then show ?thesis using l to_query_fresh(2) [of lk "NodeId ih"] by (auto simp: lk_inv_def)
qed

theorem lookup_bounded_witness:
  "\<exists>lk. iterative_get_peers (\<lambda>r i a. None) (replicate 20 1)
      (fst (insert_or_update 1 (example_node 5) (IPv4 1 2 3 4, 6881) (rt_new 0 example_own))) = lk
    \<and> length (lk_queried lk) \<le> 60 \<and> length (lk_tokens lk) \<le> length (lk_queried lk)"
  using lookup_bounded [OF insert_inv [OF rt_new_inv [OF example_ids(1)] example_ids(2)] refl] by blast

text \<open>The token exchange works over the wire: a node that asks for peers is sent a token with
  its answer, and announcing with that token from the same address within five minutes is
  answered, whatever rotations and other queries come in between.\<close>

theorem announce_accepted:
  assumes "rt_inv rt" and "id_ok sender" and "length txn = 2" and "length (sha1 (ip_octets ip @ tm_current_secret tm)) = 20"
    and "handle_inbound sha1 now tm \<lparr>iq_query = QGetPeers ih, iq_sender_id = sender,
      iq_sender_addr = (ip, port), iq_txn_id = txn\<rparr> rt = (rt1, Some reply)"
    and "length reply < usize_bound"
    and "map_of (ks_pending st) txn = Some k"
    and "\<And>r. r \<in> set rotations \<Longrightarrow> t0 \<le> fst r \<and> fst r \<le> t0 + ROTATION_INTERVAL"
  shows "snd (handle_message reply addr st) = KDelivered k (RGetPeers (rt_own_id rt1)
      (Some (tm_generate sha1 tm ip)) [] (v4_nodes (node_addrs (closest_nodes rt1 (NodeId ih) 8))))
    \<and> snd (handle_inbound sha1 now2 (fold maybe_rotate rotations tm)
      \<lparr>iq_query = QAnnouncePeer ih2 p2 (tm_generate sha1 tm ip), iq_sender_id = sender2,
        iq_sender_addr = (ip, port2), iq_txn_id = txn2\<rparr> rt2) \<noteq> None"
proof -
  define token where "token = tm_generate sha1 tm ip"
  have rt1: "rt1 = fst (insert_or_update now sender (ip, port) rt)"
    using assms(5) by (simp add: handle_inbound_def Let_def)
  have inv1: "rt_inv rt1" unfolding rt1 by (rule insert_inv [OF assms(1,2)])
  define nodes where "nodes = node_addrs (closest_nodes rt1 (NodeId ih) 8)"
  have reply: "reply = encode_response (rt_own_id rt1) txn (RGetPeers (rt_own_id rt1) (Some token) [] nodes)"
  proof -
    have "Some reply = snd (handle_inbound sha1 now tm \<lparr>iq_query = QGetPeers ih, iq_sender_id = sender,
        iq_sender_addr = (ip, port), iq_txn_id = txn\<rparr> rt)" by (simp only: assms(5) snd_conv)
    also have "\<dots> = Some (encode_response (rt_own_id rt1) txn (RGetPeers (rt_own_id rt1) (Some token) [] nodes))"
      unfolding nodes_def token_def rt1 handle_inbound_def Let_def by simp
    finally show ?thesis by (rule option.inject [THEN iffD1])
  qed
  note c = closest_nodes_spec [OF inv1, of "NodeId ih" 8]
  have "list_all (id_ok \<circ> fst) nodes"
    using c all_nodes_ids [OF inv1] by (auto simp: nodes_def node_addrs_def list_all_iff)
  moreover have "length nodes \<le> 8" using c by (simp add: nodes_def node_addrs_def)
  ultimately have ok: "response_ok (RGetPeers (rt_own_id rt1) (Some token) [] nodes)"
    using assms(4) by (simp add: token_def tm_generate_def usize_bound_def)
  have own: "id_ok (rt_own_id rt1)" using inv1 by (simp add: rt_inv_def)
  have "handle_message reply addr st = take_pending txn (Some (read_back (rt_own_id rt1)
      (RGetPeers (rt_own_id rt1) (Some token) [] nodes))) st"
    using handle_response [OF own ok assms(3)] assms(6) by (simp add: reply)
  then have "snd (handle_message reply addr st) = KDelivered k (RGetPeers (rt_own_id rt1) (Some token) [] (v4_nodes nodes))"
    by (simp add: take_pending_def assms(7) read_back_def reply_fields_def)
  moreover have "tm_verify sha1 (fold maybe_rotate rotations tm) ip token"
    using token_lifetime_aux [of rotations t0 tm] assms(8)
    by (auto simp: tm_verify_def tm_generate_def generate_with_secret_def token_def)
  ultimately show ?thesis by (simp add: nodes_def token_def handle_inbound_def Let_def)
qed

definition example_tm :: token_manager where
  "example_tm = tm_new 0 (replicate 16 1) (replicate 16 2)"

definition example_waiting :: krpc_socket where
  "example_waiting = example_socket\<lparr>ks_pending := [([1, 2], 7)]\<rparr>"

definition example_get_peers :: inbound_query where
  "example_get_peers = \<lparr>iq_query = QGetPeers (replicate 20 3), iq_sender_id = example_node 5,
     iq_sender_addr = (IPv4 1 2 3 4, 6881), iq_txn_id = [1, 2]\<rparr>"

theorem announce_accepted_witness:
  "\<exists>rt1 reply nodes. handle_inbound (take 20) 1 example_tm example_get_peers (rt_new 0 example_own) = (rt1, Some reply)
    \<and> snd (handle_message reply (IPv4 9 9 9 9, 9) example_waiting) =
        KDelivered 7 (RGetPeers (rt_own_id rt1) (Some ([1, 2, 3, 4] @ replicate 16 1)) [] nodes)"
proof -
  obtain rt1 reply where r: "handle_inbound (take 20) 1 example_tm example_get_peers (rt_new 0 example_own) = (rt1, Some reply)"
    by (simp add: handle_inbound_def example_get_peers_def Let_def)
  have "length (the (snd (handle_inbound (take 20) 1 example_tm example_get_peers (rt_new 0 example_own)))) < 1000"
    by code_simp
  with r have l: "length reply < usize_bound" by (simp add: usize_bound_def)
  have t: "tm_generate (take 20) example_tm (IPv4 1 2 3 4) = [1, 2, 3, 4] @ replicate 16 1"
    by (simp add: tm_generate_def example_tm_def tm_new_def)
  have "snd (handle_message reply (IPv4 9 9 9 9, 9) example_waiting) = KDelivered 7 (RGetPeers (rt_own_id rt1)
      (Some (tm_generate (take 20) example_tm (IPv4 1 2 3 4))) []
      (v4_nodes (node_addrs (closest_nodes rt1 (NodeId (replicate 20 3)) 8))))"
    using announce_accepted [OF rt_new_inv [OF example_ids(1)] example_ids(2) _ _ r [unfolded example_get_peers_def] l,
      of example_waiting 7 "[]" 0] by (simp add: example_waiting_def example_tm_def tm_new_def)
  with r show ?thesis unfolding t by blast
qed

end
