(* ===== verification/Dht_Node.thy ===== *)
theory Dht_Node
  imports Json Dht_Correct Magnet
begin

text \<open>
  The task of the DHT node (\<open>dht/node.rs\<close>) and the file in which a routing table survives a restart
  (\<open>dht/routing_table.rs\<close>). The text of a socket address, hex decoding and JSON are parameters. Lookups run in tasks of their own: what they change of the table are turns of the node.
\<close>

section \<open>The saved table\<close>

definition save_node :: "'j json_lib \<Rightarrow> (sock_addr \<Rightarrow> bytes) \<Rightarrow> node_entry \<Rightarrow> 'j" where
  "save_node js addr_text n = jl_of_fields js [(''id'', jl_of_str js (hex_encode (id_bytes (ne_id n)))),
     (''addr'', jl_of_str js (addr_text (ne_addr n)))]"

definition saved_nodes :: "routing_table \<Rightarrow> node_entry list" where
  "saved_nodes rt = filter (\<lambda>n. ne_status n \<noteq> Bad) (all_nodes rt)"

definition save_table :: "'j json_lib \<Rightarrow> (sock_addr \<Rightarrow> bytes) \<Rightarrow> routing_table \<Rightarrow> 'j" where
  "save_table js addr_text rt = jl_of_fields js [(''own_id'', jl_of_str js (hex_encode (id_bytes (rt_own_id rt)))),
     (''nodes'', jl_of_list js (map (save_node js addr_text) (saved_nodes rt)))]"

definition load_id :: "'j json_lib \<Rightarrow> (bytes \<Rightarrow> bytes option) \<Rightarrow> 'j \<Rightarrow> node_id option" where
  "load_id js unhex v = Option.bind (Option.bind (jl_str js v) unhex) (\<lambda>bs. if length bs \<noteq> 20 then None else Some (NodeId bs))"

definition load_node :: "'j json_lib \<Rightarrow> (bytes \<Rightarrow> bytes option) \<Rightarrow> (bytes \<Rightarrow> sock_addr option) \<Rightarrow> 'j \<Rightarrow> (node_id \<times> sock_addr) option" where
  "load_node js unhex parse_addr n = Option.bind (load_id js unhex (jl_get js n ''id'')) (\<lambda>i.
     Option.bind (Option.bind (jl_str js (jl_get js n ''addr'')) parse_addr) (\<lambda>a. Some (i, a)))"

definition load_table :: "'j json_lib \<Rightarrow> (bytes \<Rightarrow> bytes option) \<Rightarrow> (bytes \<Rightarrow> sock_addr option) \<Rightarrow> 'j \<Rightarrow> (node_id \<times> (node_id \<times> sock_addr) list) option" where
  "load_table js unhex parse_addr v = Option.bind (load_id js unhex (jl_get js v ''own_id'')) (\<lambda>own.
     map_option (\<lambda>ns. (own, List.map_filter (load_node js unhex parse_addr) ns)) (jl_array js (jl_get js v ''nodes'')))"

section \<open>The start\<close>

text \<open>The identity and the nodes of the cache file in lightspeed mode, else a fresh identity.\<close>

definition start_nodes :: "bool \<Rightarrow> (node_id \<times> (node_id \<times> sock_addr) list) option \<Rightarrow> node_id \<Rightarrow> node_id \<times> (node_id \<times> sock_addr) list" where
  "start_nodes lightspeed cache fresh = (case cache of
       Some r \<Rightarrow> if lightspeed then r else (fresh, [])
     | None \<Rightarrow> (fresh, []))"

definition insert_nodes :: "nat \<Rightarrow> (node_id \<times> sock_addr) list \<Rightarrow> routing_table \<Rightarrow> routing_table" where
  "insert_nodes now ns rt = fold (\<lambda>(i, a) rt. fst (insert_or_update now i a rt)) ns rt"

text \<open>The table once the node has started; with eight nodes from the cache the bootstrap is skipped
  and its refresh is a lookup of its own.\<close>

definition dht_start ::
  "nat \<Rightarrow> bool \<Rightarrow> (node_id \<times> (node_id \<times> sock_addr) list) option \<Rightarrow> node_id \<Rightarrow> answers
    \<Rightarrow> (sock_addr \<times> krpc_response option) list \<Rightarrow> routing_table" where
  "dht_start now lightspeed cache fresh answers results =
     (let (own, loaded) = start_nodes lightspeed cache fresh;
          rt = insert_nodes now loaded (rt_new now own) in
      if lightspeed \<and> 8 \<le> length loaded then rt else bootstrap answers now results rt)"

section \<open>The task\<close>

datatype dht_turn = AskedFor info_hash | Inbound nat inbound_query | RotateTick nat bytes | RefreshTick | Learned rt_event

text \<open>Replies sent, and the targets of the lookups that were spawned.\<close>

record dht_node =
  dn_table :: routing_table
  dn_tokens :: token_manager
  dn_replies :: "(sock_addr \<times> bytes) list"
  dn_lookups :: "node_id list"

fun dht_step :: "(bytes \<Rightarrow> bytes) \<Rightarrow> dht_node \<Rightarrow> dht_turn \<Rightarrow> dht_node" where
  "dht_step sha1 d (Inbound now q) =
     (let (rt, reply) = handle_inbound sha1 now (dn_tokens d) q (dn_table d) in
      d\<lparr>dn_table := rt, dn_replies := dn_replies d
         @ (case reply of None \<Rightarrow> [] | Some r \<Rightarrow> [(iq_sender_addr q, r)])\<rparr>)"
| "dht_step sha1 d (AskedFor ih) = d\<lparr>dn_lookups := dn_lookups d @ [NodeId ih]\<rparr>"
| "dht_step sha1 d (RotateTick now fresh) = d\<lparr>dn_tokens := maybe_rotate (now, fresh) (dn_tokens d)\<rparr>"
| "dht_step sha1 d RefreshTick = d\<lparr>dn_lookups := dn_lookups d @ [rt_own_id (dn_table d)]\<rparr>"
| "dht_step sha1 d (Learned ev) = d\<lparr>dn_table := rt_step (dn_table d) ev\<rparr>"

text \<open>At its end a node in lightspeed mode saves its table.\<close>

definition dht_run :: "'j json_lib \<Rightarrow> (bytes \<Rightarrow> bytes) \<Rightarrow> (sock_addr \<Rightarrow> bytes) \<Rightarrow> bool \<Rightarrow> dht_node \<Rightarrow> dht_turn list \<Rightarrow> dht_node \<times> 'j option" where
  "dht_run js sha1 addr_text lightspeed d turns =
     (let d1 = fold (\<lambda>t d. dht_step sha1 d t) turns d in
      (d1, if lightspeed then Some (save_table js addr_text (dn_table d1)) else None))"

section \<open>A restart\<close>

lemma load_id_encode:
  "json_laws js \<Longrightarrow> (\<And>bs. unhex (hex_encode bs) = Some bs) \<Longrightarrow> id_ok i \<Longrightarrow> load_id js unhex (jl_of_str js (hex_encode (id_bytes i))) = Some i"
  by (simp add: load_id_def id_ok_def json_laws_simps)

lemma load_saved_nodes:
  assumes "json_laws js" and "\<And>bs. unhex (hex_encode bs) = Some bs" and "\<And>a. parse_addr (addr_text a) = Some a"
    and "\<forall>n \<in> set ns. id_ok (ne_id n)"
  shows "List.map_filter (load_node js unhex parse_addr) (map (save_node js addr_text) ns) = map (\<lambda>n. (ne_id n, ne_addr n)) ns"
  using assms(4)
proof (induction ns)
  case (Cons n ns)
  have "load_node js unhex parse_addr (save_node js addr_text n) = Some (ne_id n, ne_addr n)"
    using Cons.prems by (simp add: load_node_def save_node_def load_id_encode json_laws_simps assms(1,2,3))
  then show ?case using Cons by (simp add: map_filter_Cons)
qed (simp add: List.map_filter_simps)

lemma load_save_table:
  assumes "rt_inv rt" and "json_laws js" and "\<And>bs. unhex (hex_encode bs) = Some bs" and "\<And>a. parse_addr (addr_text a) = Some a"
  shows "load_table js unhex parse_addr (save_table js addr_text rt) = Some (rt_own_id rt, map (\<lambda>n. (ne_id n, ne_addr n)) (saved_nodes rt))"
proof -
  have "\<forall>n \<in> set (saved_nodes rt). id_ok (ne_id n)" using all_nodes_ids [OF assms(1)] by (simp add: saved_nodes_def)
  moreover have "id_ok (rt_own_id rt)" using assms(1) by (simp add: rt_inv_def)
  ultimately show ?thesis
    using load_saved_nodes [where js = js and unhex = unhex and parse_addr = parse_addr and addr_text = addr_text and ns = "saved_nodes rt", OF assms(2,3,4)]
    by (simp add: load_table_def save_table_def load_id_encode json_laws_simps assms(2,3))
qed

text \<open>Inserting new nodes, as long as every bucket has room for its own.\<close>

lemma insert_fresh:
  assumes "i \<noteq> rt_own_id rt" and "length (rt_buckets rt) = NUM_BUCKETS"
    and "i \<notin> ne_id ` set (kb_nodes (rt_buckets rt ! bucket_index rt i))"
    and "length (kb_nodes (rt_buckets rt ! bucket_index rt i)) < BUCKET_SIZE"
  shows "rt_own_id (fst (insert_or_update now i a rt)) = rt_own_id rt"
    and "length (rt_buckets (fst (insert_or_update now i a rt))) = NUM_BUCKETS"
    and "k < NUM_BUCKETS \<Longrightarrow> kb_nodes (rt_buckets (fst (insert_or_update now i a rt)) ! k) =
      kb_nodes (rt_buckets rt ! k) @ (if bucket_index rt i = k then [new_entry now i a] else [])"
  using assms by (auto simp: insert_or_update_def bucket_insert_def Let_def list_ex_iff nth_list_update split: if_splits)

lemma insert_nodes_buckets:
  assumes "length (rt_buckets rt) = NUM_BUCKETS" and "distinct (map fst ns)" and "\<forall>(i, a) \<in> set ns. i \<noteq> rt_own_id rt"
    and "\<forall>k < NUM_BUCKETS. length (kb_nodes (rt_buckets rt ! k)) + length (filter (\<lambda>(i, a). bucket_index rt i = k) ns) \<le> BUCKET_SIZE"
    and "\<forall>(i, a) \<in> set ns. \<forall>k < NUM_BUCKETS. i \<notin> ne_id ` set (kb_nodes (rt_buckets rt ! k))"
  shows "length (rt_buckets (insert_nodes now ns rt)) = NUM_BUCKETS \<and> (\<forall>k < NUM_BUCKETS.
    kb_nodes (rt_buckets (insert_nodes now ns rt) ! k) = kb_nodes (rt_buckets rt ! k)
      @ map (\<lambda>(i, a). new_entry now i a) (filter (\<lambda>(i, a). bucket_index rt i = k) ns))"
  using assms
proof (induction ns arbitrary: rt)
  case (Cons x ns)
  obtain i a where x: "x = (i, a)" by (cases x)
  let ?rt = "fst (insert_or_update now i a rt)" and ?k = "bucket_index rt i"
  have room: "length (kb_nodes (rt_buckets rt ! ?k)) < BUCKET_SIZE"
    using Cons.prems(4) [rule_format, of ?k] by (simp add: x)
  have new: "i \<noteq> rt_own_id rt" "i \<notin> ne_id ` set (kb_nodes (rt_buckets rt ! ?k))"
    using Cons.prems(3,5) by (auto simp: x)
  note one = insert_fresh [where now = now and a = a, OF new(1) Cons.prems(1) new(2) room]
  have idx: "bucket_index ?rt = bucket_index rt" by (simp add: bucket_index_def one(1) fun_eq_iff)
  have "length (rt_buckets (insert_nodes now ns ?rt)) = NUM_BUCKETS \<and> (\<forall>k < NUM_BUCKETS.
    kb_nodes (rt_buckets (insert_nodes now ns ?rt) ! k) = kb_nodes (rt_buckets ?rt ! k)
      @ map (\<lambda>(i, a). new_entry now i a) (filter (\<lambda>(i, a). bucket_index ?rt i = k) ns))"
  proof (rule Cons.IH)
    show "length (rt_buckets ?rt) = NUM_BUCKETS" by (rule one(2))
    show "distinct (map fst ns)" using Cons.prems(2) by simp
    show "\<forall>(i, a) \<in> set ns. i \<noteq> rt_own_id ?rt" using Cons.prems(3) by (auto simp: one(1))
    show "\<forall>k < NUM_BUCKETS. length (kb_nodes (rt_buckets ?rt ! k)) + length (filter (\<lambda>(i, a). bucket_index ?rt i = k) ns) \<le> BUCKET_SIZE"
      using Cons.prems(4) by (auto simp: one(3) idx x)
    show "\<forall>(j, b) \<in> set ns. \<forall>k < NUM_BUCKETS. j \<notin> ne_id ` set (kb_nodes (rt_buckets ?rt ! k))"
      using Cons.prems(2,5) by (fastforce simp: one(3) x new_entry_def image_iff)
  qed
  moreover have "insert_nodes now (x # ns) rt = insert_nodes now ns ?rt" by (simp add: insert_nodes_def x)
  ultimately show ?case by (auto simp: one(3) idx x)
qed (simp add: insert_nodes_def)

lemma saved_bucket:
  assumes "rt_inv rt" and "k < NUM_BUCKETS"
  shows "length (filter (\<lambda>(i, a). bucket_index rt i = k) (map (\<lambda>n. (ne_id n, ne_addr n)) (saved_nodes rt))) \<le> BUCKET_SIZE"
proof -
  let ?ns = "filter (\<lambda>n. bucket_index rt (ne_id n) = k) (saved_nodes rt)"
  have "distinct (map ne_id ?ns)" using all_nodes_distinct [OF assms(1)] by (simp add: saved_nodes_def distinct_map_filter)
  then have "length ?ns = card (set ?ns)" using distinct_card [of ?ns] by (simp add: distinct_map)
  also have "\<dots> \<le> card (set (kb_nodes (rt_buckets rt ! k)))"
    by (rule card_mono) (auto simp: saved_nodes_def in_all_nodes [OF assms(1)])
  also have "\<dots> \<le> length (kb_nodes (rt_buckets rt ! k))" by (rule card_length)
  also have "\<dots> \<le> BUCKET_SIZE" using assms by (simp add: rt_inv_def bucket_ok_def)
  finally show ?thesis by (simp add: filter_map comp_def)
qed

abbreviation node_pair :: "node_entry \<Rightarrow> node_id \<times> sock_addr" where
  "node_pair n \<equiv> (ne_id n, ne_addr n)"

text \<open>The table that a node builds from the saved nodes.\<close>

lemma restored_nodes:
  assumes "rt_inv rt"
  shows "node_pair ` set (all_nodes (insert_nodes now (map node_pair (saved_nodes rt)) (rt_new now (rt_own_id rt))))
    = node_pair ` set (saved_nodes rt)"
proof -
  let ?ns = "map node_pair (saved_nodes rt)" and ?new = "rt_new now (rt_own_id rt)"
  let ?rt = "insert_nodes now ?ns ?new"
  have empty: "kb_nodes (rt_buckets ?new ! k) = []" if "k < NUM_BUCKETS" for k
    using that by (simp add: rt_new_def kbucket_new_def)
  have idx: "bucket_index ?new = bucket_index rt" by (simp add: bucket_index_def rt_new_def fun_eq_iff)
  have own: "\<forall>(i, a) \<in> set ?ns. i \<noteq> rt_own_id ?new"
    using in_all_nodes [OF assms] rt_inv_bucket [OF assms]
    by (fastforce simp: saved_nodes_def bucket_ok_def rt_new_def)
  have "length (rt_buckets ?rt) = NUM_BUCKETS \<and> (\<forall>k < NUM_BUCKETS. kb_nodes (rt_buckets ?rt ! k) = kb_nodes (rt_buckets ?new ! k)
      @ map (\<lambda>(i, a). new_entry now i a) (filter (\<lambda>(i, a). bucket_index ?new i = k) ?ns))"
  proof (rule insert_nodes_buckets [OF _ _ own])
    show "length (rt_buckets ?new) = NUM_BUCKETS" by (simp add: rt_new_def)
    show "distinct (map fst ?ns)"
      using all_nodes_distinct [OF assms] by (simp add: saved_nodes_def comp_def distinct_map_filter)
    show "\<forall>k < NUM_BUCKETS. length (kb_nodes (rt_buckets ?new ! k)) + length (filter (\<lambda>(i, a). bucket_index ?new i = k) ?ns) \<le> BUCKET_SIZE"
    proof (intro allI impI)
      fix k assume k: "k < NUM_BUCKETS"
      show "length (kb_nodes (rt_buckets ?new ! k)) + length (filter (\<lambda>(i, a). bucket_index ?new i = k) ?ns) \<le> BUCKET_SIZE"
        unfolding idx empty [OF k] using saved_bucket [OF assms k] by simp
    qed
    show "\<forall>(i, a) \<in> set ?ns. \<forall>k < NUM_BUCKETS. i \<notin> ne_id ` set (kb_nodes (rt_buckets ?new ! k))" by (auto simp: empty)
  qed
  then have len: "length (rt_buckets ?rt) = NUM_BUCKETS" and
    b: "k < NUM_BUCKETS \<Longrightarrow> set (kb_nodes (rt_buckets ?rt ! k)) = (\<lambda>(i, a). new_entry now i a) ` {(i, a) \<in> set ?ns. bucket_index rt i = k}" for k
    unfolding idx by (simp_all only: empty append_Nil set_map set_filter) blast
  have "set (all_nodes ?rt) = (\<Union>k \<in> {..<NUM_BUCKETS}. set (kb_nodes (rt_buckets ?rt ! k)))"
    unfolding all_nodes_def by (simp add: set_conv_nth [of "rt_buckets ?rt"] len) blast
  also have "\<dots> = (\<Union>k \<in> {..<NUM_BUCKETS}. (\<lambda>(i, a). new_entry now i a) ` {(i, a) \<in> set ?ns. bucket_index rt i = k})"
    using b by simp
  also have "\<dots> = (\<lambda>(i, a). new_entry now i a) ` (\<Union>k \<in> {..<NUM_BUCKETS}. {(i, a) \<in> set ?ns. bucket_index rt i = k})"
    by (simp only: image_UN)
  also have "(\<Union>k \<in> {..<NUM_BUCKETS}. {(i, a) \<in> set ?ns. bucket_index rt i = k}) = set ?ns"
    using bucket_index_less [of rt] by fastforce
  finally show ?thesis by (simp add: image_image new_entry_def)
qed

lemma insert_nodes_own: "rt_own_id (insert_nodes now ns r) = rt_own_id r"
  by (induction ns arbitrary: r) (auto simp: insert_nodes_def insert_or_update_def Let_def split: prod.splits)

text \<open>
  The routing table survives a restart: the file written at the end reads back as the identity and
  the nodes that are not bad, and a node started from it has exactly these nodes with their addresses;
  no bucket overflows on the way.
\<close>

theorem dht_restart_keeps_nodes:
  assumes "rt_inv rt" and "json_laws js" and "\<And>bs. unhex (hex_encode bs) = Some bs" and "\<And>a. parse_addr (addr_text a) = Some a"
    and "8 \<le> length (saved_nodes rt)"
  shows "\<exists>cache. load_table js unhex parse_addr (save_table js addr_text rt) = Some cache
    \<and> rt_own_id (dht_start now True (Some cache) fresh answers results) = rt_own_id rt
    \<and> node_pair ` set (all_nodes (dht_start now True (Some cache) fresh answers results))
      = node_pair ` {n \<in> set (all_nodes rt). ne_status n \<noteq> Bad}"
proof -
  have "dht_start now True (Some (rt_own_id rt, map node_pair (saved_nodes rt))) fresh answers results
      = insert_nodes now (map node_pair (saved_nodes rt)) (rt_new now (rt_own_id rt))"
    using assms(5) by (simp add: dht_start_def start_nodes_def)
  moreover have "set (saved_nodes rt) = {n \<in> set (all_nodes rt). ne_status n \<noteq> Bad}" by (simp add: saved_nodes_def)
  ultimately show ?thesis
    using load_save_table [where js = js and unhex = unhex and parse_addr = parse_addr and addr_text = addr_text, OF assms(1,2,3,4)] restored_nodes [OF assms(1), of now]
    by (simp add: insert_nodes_own) (simp add: rt_new_def)
qed

end
