(* ===== verification/Transcode_Queue.thy ===== *)
theory Transcode_Queue
  imports Import
begin

text \<open>
  The queue of transcode jobs (\<open>transcode/runner.rs\<close>) and the requests that fill and cancel it
  (\<open>web/api/transcode.rs\<close>), as a step relation: jobs wait to be sent, in the channel, for a permit,
  and run side by side. The life of one job is cut where it waits: before its token exists, while
  ffmpeg prints, and at its end. Anything else may change the store and the files between two steps.
\<close>

section \<open>The parts of a job\<close>

definition remuxes :: "transcode_job \<Rightarrow> probe_result option \<Rightarrow> bool" where
  "remuxes job probe \<longleftrightarrow> can_remux probe \<and> tj_preset_name job \<noteq> ascii ''h264''"

definition encoder_name :: "transcode_job \<Rightarrow> probe_result option \<Rightarrow> bytes" where
  "encoder_name job probe = (if remuxes job probe then ascii ''remux'' else ascii ''software'')"

definition job_started :: "job_env \<Rightarrow> transcode_job \<Rightarrow> store \<times> host \<Rightarrow> store \<times> host" where
  "job_started env job = (\<lambda>(s, h).
     let i = tj_media_id job;
         s1 = (case je_probe env of None \<Rightarrow> s
            | Some p \<Rightarrow> set_media i (\<lambda>e. e\<lparr>me_video_codec := Some (pr_video_codec p),
                me_audio_codec := Some (pr_audio_codec p)\<rparr>) s) in
     (set_transcode (je_now env) i (Transcoding 0 []) s1,
      case parent (tj_output_path job) of None \<Rightarrow> h | Some d \<Rightarrow> create_dir_all d h))"

definition job_printed :: "job_env \<Rightarrow> transcode_job \<Rightarrow> bytes \<Rightarrow> store \<Rightarrow> store" where
  "job_printed env job line = progress_line env (encoder_name job (je_probe env)) (tj_media_id job) line"

definition job_ended :: "unicode \<Rightarrow> job_env \<Rightarrow> transcode_job \<Rightarrow> store \<times> host \<Rightarrow> store \<times> host" where
  "job_ended u env job = (\<lambda>(s, h).
     let h1 = write_file (tj_output_path job) (je_output env) h in
     case je_error env of
       None \<Rightarrow> job_done u env job (remuxes job (je_probe env)) (s, h1)
     | Some err \<Rightarrow> job_failed env job err (s, h1))"

section \<open>The queue\<close>

text \<open>A running job holds a permit; its token exists, under a fresh number, while ffmpeg runs.\<close>

datatype phase = Probing | Encoding nat "probe_result option"

record running =
  rn_job :: transcode_job
  rn_phase :: phase

text \<open>
  The tasks that wait to send a job, the channel, the job taken from it that waits for a permit, the
  free permits, the running jobs, the table of tokens, the tokens that were cancelled, the number of
  the next token, and the store and the files the jobs work on.
\<close>

record queue =
  qu_sending :: "transcode_job list"
  qu_channel :: "transcode_job list"
  qu_held :: "transcode_job option"
  qu_permits :: nat
  qu_active :: "running list"
  qu_tokens :: "(uuid \<times> nat) list"
  qu_cancelled :: "nat list"
  qu_next :: nat
  qu_store :: store
  qu_host :: host

definition JOB_CHANNEL :: nat where "JOB_CHANNEL = 64"

text \<open>\<open>create\<close> and the start of \<open>run\<close>, with at least one permit.\<close>

definition queue_start :: "u64 \<Rightarrow> store \<Rightarrow> host \<Rightarrow> queue" where
  "queue_start now s h = (let (s1, h1) = recover_stuck_transcodes now (s, h) in
     \<lparr>qu_sending = [], qu_channel = [], qu_held = None,
      qu_permits = max (as_transcode_concurrency (get_settings h1 s1)) 1, qu_active = [],
      qu_tokens = [], qu_cancelled = [], qu_next = 0, qu_store = s1, qu_host = h1\<rparr>)"

definition submit :: "transcode_job \<Rightarrow> queue \<Rightarrow> queue" where
  "submit job q = q\<lparr>qu_sending := qu_sending q @ [job]\<rparr>"

definition cancel_job :: "uuid \<Rightarrow> queue \<Rightarrow> queue" where
  "cancel_job i q = (case map_of (qu_tokens q) i of
       None \<Rightarrow> q
     | Some t \<Rightarrow> q\<lparr>qu_tokens := hm_remove i (qu_tokens q), qu_cancelled := t # qu_cancelled q\<rparr>)"

definition cancel_all :: "queue \<Rightarrow> queue" where
  "cancel_all q = q\<lparr>qu_tokens := [], qu_cancelled := map snd (qu_tokens q) @ qu_cancelled q\<rparr>"

definition drop_nth :: "nat \<Rightarrow> 'a list \<Rightarrow> 'a list" where
  "drop_nth k xs = take k xs @ drop (Suc k) xs"

definition with_disk :: "store \<times> host \<Rightarrow> queue \<Rightarrow> queue" where
  "with_disk = (\<lambda>(s, h) q. q\<lparr>qu_store := s, qu_host := h\<rparr>)"

text \<open>The \<open>k\<close>-th running job gives its permit back.\<close>

definition release :: "nat \<Rightarrow> queue \<Rightarrow> queue" where
  "release k q = q\<lparr>qu_active := drop_nth k (qu_active q), qu_permits := qu_permits q + 1\<rparr>"

definition CANCELLED :: bytes where "CANCELLED = ascii ''Cancelled by user''"

datatype queue_event =
    Submit transcode_job | Sent nat | Received | Permitted | Unprobed transcode_job nat job_env
  | Started nat job_env | Printed nat job_env bytes | Ended transcode_job nat job_env
  | Cancel uuid | CancelAll | Elsewhere store host

text \<open>
  One step. ffmpeg ends as its environment says; it ends as cancelled only when its own token was
  cancelled, while a job whose token was cancelled may still have finished first. At the end the
  token of the entry is removed, whichever job it belongs to.
\<close>

inductive queue_step :: "unicode \<Rightarrow> queue_event \<Rightarrow> queue \<Rightarrow> queue \<Rightarrow> bool" for u where
  submit: "queue_step u (Submit job) q (submit job q)"
| sent: "\<lbrakk>k < length (qu_sending q); length (qu_channel q) < JOB_CHANNEL\<rbrakk> \<Longrightarrow>
    queue_step u (Sent k) q (q\<lparr>qu_sending := drop_nth k (qu_sending q),
      qu_channel := qu_channel q @ [qu_sending q ! k]\<rparr>)"
| received: "\<lbrakk>qu_held q = None; qu_channel q = job # rest\<rbrakk> \<Longrightarrow>
    queue_step u Received q (q\<lparr>qu_held := Some job, qu_channel := rest\<rparr>)"
| permitted: "\<lbrakk>qu_held q = Some job; qu_permits q = Suc n\<rbrakk> \<Longrightarrow>
    queue_step u Permitted q (q\<lparr>qu_held := None, qu_permits := n,
      qu_active := qu_active q @ [\<lparr>rn_job = job, rn_phase = Probing\<rparr>]\<rparr>)"
| unprobed: "\<lbrakk>k < length (qu_active q); qu_active q ! k = \<lparr>rn_job = job, rn_phase = Probing\<rparr>; \<not> je_ffmpeg env\<rbrakk> \<Longrightarrow>
    queue_step u (Unprobed job k env) q
      (release k (q\<lparr>qu_store := set_transcode (je_now env) (tj_media_id job) Unavailable (qu_store q)\<rparr>))"
| started: "\<lbrakk>k < length (qu_active q); qu_active q ! k = \<lparr>rn_job = job, rn_phase = Probing\<rparr>; je_ffmpeg env\<rbrakk> \<Longrightarrow>
    queue_step u (Started k env) q
      (with_disk (job_started env job (qu_store q, qu_host q))
        (q\<lparr>qu_active := (qu_active q)[k := \<lparr>rn_job = job, rn_phase = Encoding (qu_next q) (je_probe env)\<rparr>],
           qu_tokens := hm_insert (tj_media_id job) (qu_next q) (qu_tokens q), qu_next := qu_next q + 1\<rparr>))"
| printed: "\<lbrakk>k < length (qu_active q); qu_active q ! k = \<lparr>rn_job = job, rn_phase = Encoding t (je_probe env)\<rparr>\<rbrakk> \<Longrightarrow>
    queue_step u (Printed k env line) q (q\<lparr>qu_store := job_printed env job line (qu_store q)\<rparr>)"
| ended: "\<lbrakk>k < length (qu_active q); qu_active q ! k = \<lparr>rn_job = job, rn_phase = Encoding t (je_probe env)\<rparr>;
      je_error env = Some CANCELLED \<longrightarrow> t \<in> set (qu_cancelled q)\<rbrakk> \<Longrightarrow>
    queue_step u (Ended job k env) q
      (release k (with_disk (job_ended u env job (qu_store q, qu_host q))
        (q\<lparr>qu_tokens := hm_remove (tj_media_id job) (qu_tokens q)\<rparr>)))"
| cancel: "queue_step u (Cancel i) q (cancel_job i q)"
| cancel_all: "queue_step u CancelAll q (cancel_all q)"
| elsewhere: "queue_step u (Elsewhere s h) q (with_disk (s, h) q)"

inductive queue_run :: "unicode \<Rightarrow> queue \<Rightarrow> queue_event list \<Rightarrow> queue \<Rightarrow> bool" for u where
  idle: "queue_run u q [] q"
| step: "\<lbrakk>queue_step u ev q q1; queue_run u q1 evs q2\<rbrakk> \<Longrightarrow> queue_run u q (ev # evs) q2"

inductive_simps queue_run_simps [simp]: "queue_run u q [] q'" "queue_run u q (ev # evs) q'"

section \<open>Requests\<close>

definition manual_transcode :: "unicode \<Rightarrow> u64 \<Rightarrow> uuid \<Rightarrow> bytes \<Rightarrow> queue \<Rightarrow> queue \<times> (api_error + unit)" where
  "manual_transcode u now i preset q =
     (if get_preset preset = None then (q, Inl BadRequest)
      else case get_media i (qu_store q) of
        (s1, DbOk (Some e)) \<Rightarrow>
          (let q1 = q\<lparr>qu_store := s1\<rparr> in
           if is_transcoding (me_transcode_state e) then (q1, Inl Conflict)
           else (submit (create_job u e preset (as_transcode_dir (get_settings (qu_host q) s1)))
             (q1\<lparr>qu_store := set_transcode now i Pending s1\<rparr>), Inr ()))
      | (s1, _) \<Rightarrow> (q\<lparr>qu_store := s1\<rparr>, Inl NotFoundErr))"

definition cancel_transcode :: "u64 \<Rightarrow> uuid \<Rightarrow> queue \<Rightarrow> queue" where
  "cancel_transcode now i q = (let q1 = cancel_job i q in
     q1\<lparr>qu_store := set_transcode now i (Failed (ascii ''Cancelled'')) (qu_store q1)\<rparr>)"

definition wants_transcode :: "transcode_state \<Rightarrow> bool" where
  "wants_transcode st \<longleftrightarrow> (case st of Pending \<Rightarrow> True | Failed _ \<Rightarrow> True | Unavailable \<Rightarrow> True | _ \<Rightarrow> False)"

definition in_season :: "uuid \<Rightarrow> u16 option \<Rightarrow> media_entry \<Rightarrow> bool" where
  "in_season g season e \<longleftrightarrow> me_group_id e = Some g \<and> (season = None \<or> me_season e = season)"

text \<open>The list of the library, empty when it cannot be read.\<close>

definition queue_media :: "queue \<Rightarrow> queue \<times> media_entry list" where
  "queue_media q = (let (s1, media) = list_media (qu_store q) in
     (q\<lparr>qu_store := s1\<rparr>, case media of DbErr \<Rightarrow> [] | DbOk es \<Rightarrow> es))"

definition transcode_all :: "unicode \<Rightarrow> u64 \<Rightarrow> uuid \<Rightarrow> u16 option \<Rightarrow> queue \<Rightarrow> queue \<times> nat" where
  "transcode_all u now g season q =
     (let (q1, es) = queue_media q;
          chosen = filter (\<lambda>e. in_season g season e \<and> wants_transcode (me_transcode_state e)) es;
          settings = get_settings (qu_host q1) (qu_store q1) in
      (fold (\<lambda>e q. submit (create_job u e (as_default_preset settings) (as_transcode_dir settings))
          (q\<lparr>qu_store := set_transcode now (me_id e) Pending (qu_store q)\<rparr>)) chosen q1, length chosen))"

definition stop_group_transcode :: "uuid \<Rightarrow> u16 option \<Rightarrow> queue \<Rightarrow> queue \<times> nat" where
  "stop_group_transcode g season q =
     (let (q1, es) = queue_media q;
          chosen = filter (\<lambda>e. in_season g season e \<and> is_transcoding (me_transcode_state e)) es in
      (fold (\<lambda>e. cancel_job (me_id e)) chosen q1, length chosen))"

end
