(* ===== verification/Transcode_Queue_Correct.thy ===== *)
theory Transcode_Queue_Correct
  imports Transcode_Queue Import_Correct "HOL-Library.Multiset"
begin

text \<open>
  The queue of transcode jobs: never more jobs than permits, every job that was submitted is waiting,
  running or has ended, every token belongs to a running job, and the queue can always be emptied. A
  cancel that finds no token changes nothing, and the job runs all the same.
\<close>

section \<open>One job through the queue\<close>

lemma run_job_parts:
  "je_ffmpeg env \<Longrightarrow> run_job u env job (s, h) =
    (let (s1, h1) = job_started env job (s, h) in
     job_ended u env job (fold (job_printed env job) (je_lines env) s1, h1))"
  by (simp add: run_job_def job_started_def job_ended_def job_printed_def [abs_def] remuxes_def encoder_name_def Let_def
      split: option.splits)

lemma printed_run:
  "0 < length (qu_active q) \<Longrightarrow> qu_active q ! 0 = \<lparr>rn_job = job, rn_phase = Encoding t (je_probe env)\<rparr> \<Longrightarrow>
    queue_run u q (map (Printed 0 env) ls) (q\<lparr>qu_store := fold (job_printed env job) ls (qu_store q)\<rparr>)"
proof (induction ls arbitrary: q)
  case (Cons l ls)
  let ?q = "q\<lparr>qu_store := job_printed env job l (qu_store q)\<rparr>"
  have "queue_step u (Printed 0 env l) q ?q" by (rule queue_step.printed [OF Cons.prems])
  moreover have "queue_run u ?q (map (Printed 0 env) ls) (?q\<lparr>qu_store := fold (job_printed env job) ls (qu_store ?q)\<rparr>)"
    using Cons.prems by (intro Cons.IH) simp_all
  ultimately show ?case by auto
qed simp

lemma run_snoc: "queue_run u q evs q1 \<Longrightarrow> queue_step u ev q1 q2 \<Longrightarrow> queue_run u q (evs @ [ev]) q2"
  by (induction rule: queue_run.induct) auto

text \<open>A job that has the runner to itself does what the model of a single job says.\<close>

theorem job_through_queue:
  assumes "qu_held q = Some job" and "qu_permits q = Suc n" and "qu_active q = []"
    and "je_ffmpeg env" and "je_error env \<noteq> Some CANCELLED"
  shows "\<exists>q'. queue_run u q (Permitted # Started 0 env # map (Printed 0 env) (je_lines env) @ [Ended job 0 env]) q'
    \<and> (qu_store q', qu_host q') = run_job u env job (qu_store q, qu_host q)"
proof -
  obtain s1 h1 where st: "job_started env job (qu_store q, qu_host q) = (s1, h1)" by fastforce
  let ?q1 = "q\<lparr>qu_held := None, qu_permits := n, qu_active := [\<lparr>rn_job = job, rn_phase = Probing\<rparr>]\<rparr>"
  let ?q2 = "?q1\<lparr>qu_active := [\<lparr>rn_job = job, rn_phase = Encoding (qu_next q) (je_probe env)\<rparr>],
     qu_tokens := hm_insert (tj_media_id job) (qu_next q) (qu_tokens q), qu_next := qu_next q + 1, qu_store := s1, qu_host := h1\<rparr>"
  let ?q3 = "?q2\<lparr>qu_store := fold (job_printed env job) (je_lines env) s1\<rparr>"
  let ?q4 = "release 0 (with_disk (job_ended u env job (qu_store ?q3, qu_host ?q3))
      (?q3\<lparr>qu_tokens := hm_remove (tj_media_id job) (qu_tokens ?q3)\<rparr>))"
  have "queue_step u Permitted q ?q1" using queue_step.permitted [OF assms(1,2), of u] assms(3) by simp
  moreover have "queue_step u (Started 0 env) ?q1 ?q2"
    using queue_step.started [of 0 ?q1 job env u] assms(4) st by (simp add: with_disk_def)
  moreover have "queue_run u ?q2 (map (Printed 0 env) (je_lines env)) ?q3"
    using printed_run [of ?q2 job "qu_next q" env u "je_lines env"] by simp
  moreover note ended = queue_step.ended [of 0 ?q3 job "qu_next q" env u]
  ultimately have run: "queue_run u q (Permitted # Started 0 env # map (Printed 0 env) (je_lines env) @ [Ended job 0 env]) ?q4"
    using assms(5) run_snoc by fastforce
  have "run_job u env job (qu_store q, qu_host q) = job_ended u env job (qu_store ?q3, qu_host ?q3)"
    using run_job_parts [OF assms(4)] st by simp
  then have "(qu_store ?q4, qu_host ?q4) = run_job u env job (qu_store q, qu_host q)"
    by (simp add: release_def with_disk_def split: prod.splits)
  with run show ?thesis by blast
qed

section \<open>Lists with one element less\<close>

lemma mset_drop_nth: "k < length xs \<Longrightarrow> add_mset (xs ! k) (mset (drop_nth k xs)) = mset xs"
  by (subst (3) id_take_nth_drop [of k xs]) (simp_all add: drop_nth_def)

lemma set_drop_nth: "set (drop_nth k xs) \<subseteq> set xs"
  by (auto simp: drop_nth_def dest: in_set_takeD in_set_dropD)

lemma length_drop_nth: "k < length xs \<Longrightarrow> Suc (length (drop_nth k xs)) = length xs"
  by (simp add: drop_nth_def)

lemma in_drop_nth: "x \<in> set xs \<Longrightarrow> x \<noteq> xs ! k \<Longrightarrow> x \<in> set (drop_nth k xs)"
proof (cases "k < length xs")
  case True
  then show "x \<in> set xs \<Longrightarrow> x \<noteq> xs ! k \<Longrightarrow> x \<in> set (drop_nth k xs)"
    by (subst (asm) id_take_nth_drop [of k xs]) (auto simp: drop_nth_def)
qed (simp add: drop_nth_def)

section \<open>The invariant\<close>

definition rn_tokens :: "running \<Rightarrow> nat list" where
  "rn_tokens r = (case rn_phase r of Probing \<Rightarrow> [] | Encoding t _ \<Rightarrow> [t])"

lemma rn_tokens_simps [simp]:
  "rn_tokens \<lparr>rn_job = job, rn_phase = Probing\<rparr> = []"
  "rn_tokens \<lparr>rn_job = job, rn_phase = Encoding t p\<rparr> = [t]"
  by (simp_all add: rn_tokens_def)

definition tokens_of :: "running list \<Rightarrow> nat list" where
  "tokens_of rs = concat (map rn_tokens rs)"

lemma set_tokens_of: "set (tokens_of rs) = (\<Union>r \<in> set rs. set (rn_tokens r))"
  by (simp add: tokens_of_def)

lemma tokens_of_snoc [simp]: "tokens_of (rs @ [r]) = tokens_of rs @ rn_tokens r"
  by (simp add: tokens_of_def)

lemma tokens_of_drop:
  "distinct (tokens_of rs) \<Longrightarrow> distinct (tokens_of (drop_nth k rs))"
proof (cases "k < length rs")
  case True
  then show "distinct (tokens_of rs) \<Longrightarrow> distinct (tokens_of (drop_nth k rs))"
    by (subst (asm) id_take_nth_drop [of k rs]) (auto simp: tokens_of_def drop_nth_def)
qed (simp add: drop_nth_def)

lemma tokens_of_update:
  assumes "k < length rs" and "rn_tokens (rs ! k) = []" and "rn_tokens r = [t]"
  shows "mset (tokens_of (rs[k := r])) = add_mset t (mset (tokens_of rs))"
  using assms by (subst (2) id_take_nth_drop [of k rs]) (simp_all add: tokens_of_def upd_conv_take_nth_drop)

lemma tokens_unique:
  "distinct (tokens_of rs) \<Longrightarrow> r \<in> set rs \<Longrightarrow> r' \<in> set rs \<Longrightarrow> t \<in> set (rn_tokens r) \<Longrightarrow> t \<in> set (rn_tokens r') \<Longrightarrow> r = r'"
  by (induction rs) (auto simp: tokens_of_def)

definition held_jobs :: "queue \<Rightarrow> transcode_job list" where
  "held_jobs q = (case qu_held q of None \<Rightarrow> [] | Some job \<Rightarrow> [job])"

definition queued :: "queue \<Rightarrow> transcode_job multiset" where
  "queued q = mset (qu_sending q) + mset (qu_channel q) + mset (held_jobs q) + mset (map rn_job (qu_active q))"

fun submitted :: "queue_event \<Rightarrow> transcode_job multiset" where
  "submitted (Submit job) = {#job#}"
| "submitted _ = {#}"

fun finished :: "queue_event \<Rightarrow> transcode_job multiset" where
  "finished (Unprobed job _ _) = {#job#}"
| "finished (Ended job _ _) = {#job#}"
| "finished _ = {#}"

text \<open>All jobs that the events of a run submit, or finish.\<close>

abbreviation all_jobs :: "(queue_event \<Rightarrow> transcode_job multiset) \<Rightarrow> queue_event list \<Rightarrow> transcode_job multiset" where
  "all_jobs f evs \<equiv> sum_list (map f evs)"

definition tokens_ok :: "queue \<Rightarrow> bool" where
  "tokens_ok q \<longleftrightarrow> distinct (tokens_of (qu_active q))
     \<and> (\<forall>t \<in> set (tokens_of (qu_active q)) \<union> set (qu_cancelled q). t < qu_next q)
     \<and> (\<forall>(i, t) \<in> set (qu_tokens q). \<exists>r \<in> set (qu_active q). tj_media_id (rn_job r) = i \<and> t \<in> set (rn_tokens r))"

definition queue_ok :: "nat \<Rightarrow> queue \<Rightarrow> bool" where
  "queue_ok n q \<longleftrightarrow> qu_permits q + length (qu_active q) = n \<and> length (qu_channel q) \<le> JOB_CHANNEL \<and> tokens_ok q"

lemma with_disk_simps [simp]:
  "qu_sending (with_disk d q) = qu_sending q" "qu_channel (with_disk d q) = qu_channel q"
  "qu_held (with_disk d q) = qu_held q" "qu_permits (with_disk d q) = qu_permits q"
  "qu_active (with_disk d q) = qu_active q" "qu_tokens (with_disk d q) = qu_tokens q"
  "qu_cancelled (with_disk d q) = qu_cancelled q" "qu_next (with_disk d q) = qu_next q"
  "(qu_store (with_disk d q), qu_host (with_disk d q)) = d"
  by (simp_all add: with_disk_def split: prod.splits)

lemma mset_jobs_drop: "k < length rs \<Longrightarrow> add_mset (rn_job (rs ! k)) (mset (map rn_job (drop_nth k rs))) = mset (map rn_job rs)"
  using mset_drop_nth [of k rs, THEN arg_cong [where f = "image_mset rn_job"]] by simp

lemma mset_jobs_update: "rn_job r = rn_job (rs ! k) \<Longrightarrow> map rn_job (rs[k := r]) = map rn_job rs"
  by (metis list_update_id map_update)

lemma step_jobs:
  assumes "queue_step u ev q q'"
  shows "submitted ev + queued q = queued q' + finished ev"
  using assms
proof cases
  case (sent k)
  then show ?thesis using mset_drop_nth [of k "qu_sending q", symmetric] by (simp add: queued_def held_jobs_def)
next
  case (unprobed k job env)
  then show ?thesis using mset_jobs_drop [of k "qu_active q", symmetric]
    by (simp add: queued_def held_jobs_def release_def)
next
  case (started k job env)
  then show ?thesis by (simp add: queued_def held_jobs_def mset_jobs_update)
next
  case (ended k job t env)
  then show ?thesis using mset_jobs_drop [of k "qu_active q", symmetric]
    by (simp add: queued_def held_jobs_def release_def)
qed (auto simp: queued_def held_jobs_def submit_def cancel_job_def cancel_all_def split: option.splits)

lemma run_jobs:
  "queue_run u q evs q' \<Longrightarrow> all_jobs submitted evs + queued q = queued q' + all_jobs finished evs"
proof (induction rule: queue_run.induct)
  case (step ev q q1 evs q2)
  have "all_jobs submitted (ev # evs) + queued q = all_jobs submitted evs + (submitted ev + queued q)" by simp
  also have "\<dots> = (all_jobs submitted evs + queued q1) + finished ev" using step_jobs [OF step.hyps(1)] by simp
  finally show ?case using step.IH by simp
qed simp

lemma tokens_ok_release:
  assumes "tokens_ok q" and "k < length (qu_active q)"
    and "\<forall>t \<in> set (rn_tokens (qu_active q ! k)). (tj_media_id (rn_job (qu_active q ! k)), t) \<notin> set (qu_tokens q')"
    and "qu_active q' = drop_nth k (qu_active q)" "set (qu_tokens q') \<subseteq> set (qu_tokens q)"
    and "qu_cancelled q' = qu_cancelled q" "qu_next q' = qu_next q"
  shows "tokens_ok q'"
proof -
  have "set (tokens_of (qu_active q')) \<subseteq> set (tokens_of (qu_active q))"
    using set_drop_nth [of k "qu_active q"] by (auto simp: set_tokens_of assms(4))
  moreover have "\<exists>r \<in> set (qu_active q'). tj_media_id (rn_job r) = i \<and> t \<in> set (rn_tokens r)" if it: "(i, t) \<in> set (qu_tokens q')" for i t
  proof -
    obtain r where r: "r \<in> set (qu_active q)" "tj_media_id (rn_job r) = i" "t \<in> set (rn_tokens r)"
      using assms(1,5) it by (fastforce simp: tokens_ok_def)
    then have "r \<noteq> qu_active q ! k" using assms(3) it by auto
    then show ?thesis using r in_drop_nth [of r "qu_active q" k] assms(4) by auto
  qed
  ultimately show ?thesis using assms(1,4,6,7) tokens_of_drop [of "qu_active q" k] by (auto simp: tokens_ok_def)
qed

lemma set_hm_remove_sub: "set (hm_remove k m) \<subseteq> set m" and hm_remove_gone: "(k, v) \<notin> set (hm_remove k m)"
  by (auto simp: hm_remove_def)

lemma tokens_ok_started:
  assumes "tokens_ok q" and k: "k < length (qu_active q)" "qu_active q ! k = \<lparr>rn_job = job, rn_phase = Probing\<rparr>"
    and "qu_active q' = (qu_active q)[k := \<lparr>rn_job = job, rn_phase = Encoding (qu_next q) p\<rparr>]"
    and "qu_tokens q' = hm_insert (tj_media_id job) (qu_next q) (qu_tokens q)"
    and "qu_cancelled q' = qu_cancelled q" "qu_next q' = qu_next q + 1"
  shows "tokens_ok q'"
proof -
  let ?r = "\<lparr>rn_job = job, rn_phase = Encoding (qu_next q) p\<rparr>"
  have m: "mset (tokens_of (qu_active q')) = add_mset (qu_next q) (mset (tokens_of (qu_active q)))"
    unfolding assms(4) using k by (intro tokens_of_update) simp_all
  have fresh: "qu_next q \<notin> set (tokens_of (qu_active q))" using assms(1) by (auto simp: tokens_ok_def)
  then have "distinct (tokens_of (qu_active q'))"
    using assms(1) m by (metis distinct.simps(2) mset.simps(2) mset_eq_imp_distinct_iff tokens_ok_def)
  moreover have "set (tokens_of (qu_active q')) = insert (qu_next q) (set (tokens_of (qu_active q)))"
    using m by (metis set_mset_add_mset_insert set_mset_mset)
  moreover have "\<exists>r \<in> set (qu_active q'). tj_media_id (rn_job r) = i \<and> t \<in> set (rn_tokens r)" if it: "(i, t) \<in> set (qu_tokens q')" for i t
  proof (cases "(i, t) = (tj_media_id job, qu_next q)")
    case True
    then show ?thesis using k(1) assms(4) by (auto intro!: bexI [of _ ?r] set_update_memI)
  next
    case False
    then have "(i, t) \<in> set (qu_tokens q)" using it assms(5) set_hm_insert by fastforce
    then obtain r where r: "r \<in> set (qu_active q)" "tj_media_id (rn_job r) = i" "t \<in> set (rn_tokens r)"
      using assms(1) by (fastforce simp: tokens_ok_def)
    from r(1) obtain j where j: "j < length (qu_active q)" "qu_active q ! j = r" by (auto simp: in_set_conv_nth)
    have "j \<noteq> k" using j(2) k(2) r(3) by auto
    then have "qu_active q' ! j = r" "j < length (qu_active q')" using j assms(4) by simp_all
    then have "r \<in> set (qu_active q')" by (metis nth_mem)
    then show ?thesis using r by blast
  qed
  ultimately show ?thesis using assms(1,6,7) by (auto simp: tokens_ok_def less_Suc_eq)
qed

lemma token_bound: "tokens_ok q \<Longrightarrow> (i, t) \<in> set (qu_tokens q) \<Longrightarrow> t < qu_next q"
  unfolding tokens_ok_def set_tokens_of by fastforce

lemma cancel_tokens_ok:
  assumes "tokens_ok q"
  shows "tokens_ok (cancel_job i q)"
proof (cases "map_of (qu_tokens q) i")
  case None
  then show ?thesis using assms by (simp add: cancel_job_def)
next
  case (Some t)
  then have t: "t < qu_next q" using token_bound [OF assms] by (auto dest: map_of_SomeD)
  have "set (hm_remove i (qu_tokens q)) \<subseteq> set (qu_tokens q)" by (rule set_hm_remove_sub)
  then show ?thesis using assms t Some unfolding tokens_ok_def cancel_job_def by auto
qed

lemma cancel_all_tokens_ok: "tokens_ok q \<Longrightarrow> tokens_ok (cancel_all q)"
  using token_bound [of q] by (auto simp: tokens_ok_def cancel_all_def)

lemma step_ok:
  assumes "queue_step u ev q q'" and "queue_ok n q"
  shows "queue_ok n q'"
  using assms
proof cases
  case (permitted job m)
  then show ?thesis using assms(2) by (auto simp: queue_ok_def tokens_ok_def)
next
  case (unprobed k job env)
  then have "tokens_ok q'" using assms(2)
    by - (rule tokens_ok_release [of q k], simp_all add: queue_ok_def release_def)
  then show ?thesis using unprobed assms(2) length_drop_nth [of k "qu_active q"] by (auto simp: queue_ok_def release_def)
next
  case (started k job env)
  then have "tokens_ok q'" using assms(2) by - (rule tokens_ok_started [of q k job], simp_all add: queue_ok_def)
  then show ?thesis using started assms(2) by (auto simp: queue_ok_def)
next
  case (ended k job t env)
  then have "tokens_ok q'" using assms(2) set_hm_remove_sub [of _ "qu_tokens q"] hm_remove_gone
    by - (rule tokens_ok_release [of q k], simp_all add: queue_ok_def release_def)
  then show ?thesis using ended assms(2) length_drop_nth [of k "qu_active q"] by (auto simp: queue_ok_def release_def)
next
  case (cancel i)
  then show ?thesis using assms(2) cancel_tokens_ok [of q i] by (auto simp: queue_ok_def cancel_job_def split: option.splits)
next
  case cancel_all
  then show ?thesis using assms(2) cancel_all_tokens_ok [of q] by (auto simp: queue_ok_def cancel_all_def)
qed (auto simp: queue_ok_def tokens_ok_def submit_def)

lemma run_ok: "queue_run u q evs q' \<Longrightarrow> queue_ok n q \<Longrightarrow> queue_ok n q'"
  by (induction rule: queue_run.induct) (auto intro: step_ok)

lemma start_ok: "queue_ok (qu_permits (queue_start now s h)) (queue_start now s h)" "queued (queue_start now s h) = {#}"
  by (auto simp: queue_ok_def tokens_ok_def queue_start_def queued_def held_jobs_def tokens_of_def Let_def split: prod.splits)

lemma start_permits: "0 < qu_permits (queue_start now s h)"
  by (auto simp: queue_start_def Let_def split: prod.splits)

text \<open>
  C30. However the queue is used: running jobs and free permits always add up to the configured number,
  at most 64 jobs are in the channel, every submitted job is exactly once waiting, running or
  finished, and every entry of the token table is the token of a running job of that entry.
\<close>

theorem queue_accounts:
  assumes "queue_run u (queue_start now s h) evs q"
  shows "qu_permits q + length (qu_active q) = qu_permits (queue_start now s h) \<and> length (qu_channel q) \<le> JOB_CHANNEL
    \<and> all_jobs submitted evs = queued q + all_jobs finished evs
    \<and> (\<forall>(i, t) \<in> set (qu_tokens q). \<exists>r \<in> set (qu_active q). tj_media_id (rn_job r) = i \<and> t \<in> set (rn_tokens r))"
  using run_ok [OF assms start_ok(1)] run_jobs [OF assms] by (simp add: start_ok(2) queue_ok_def tokens_ok_def)

section \<open>Progress\<close>

text \<open>The steps the runner takes by itself.\<close>

fun internal :: "queue_event \<Rightarrow> bool" where
  "internal (Submit _) = False"
| "internal (Cancel _) = False"
| "internal CancelAll = False"
| "internal (Elsewhere _ _) = False"
| "internal _ = True"

definition weight :: "queue \<Rightarrow> nat" where
  "weight q = 5 * length (qu_sending q) + 4 * length (qu_channel q) + 3 * length (held_jobs q)
     + sum_list (map (\<lambda>r. if rn_phase r = Probing then 2 else 1) (qu_active q))"

lemma release_weight:
  assumes "0 < length (qu_active q)"
  shows "weight (release 0 q) < weight q"
  using assms by (cases "qu_active q") (simp_all add: weight_def release_def drop_nth_def held_jobs_def)

lemma weight_with [simp]: "weight (with_disk d q) = weight q" "weight (q\<lparr>qu_tokens := ts\<rparr>) = weight q"
  by (simp_all add: weight_def held_jobs_def)

lemma queue_progress:
  assumes "queue_ok n q" and "0 < n" and "je_ffmpeg (env :: job_env)" and "queued q \<noteq> {#}"
  shows "\<exists>ev q1. queue_step u ev q q1 \<and> internal ev \<and> weight q1 < weight q"
proof (cases "qu_active q")
  case (Cons r rs)
  obtain job ph where r: "r = \<lparr>rn_job = job, rn_phase = ph\<rparr>" by (cases r)
  show ?thesis
  proof (cases ph)
    case Probing
    let ?q = "with_disk (job_started env job (qu_store q, qu_host q))
        (q\<lparr>qu_active := (qu_active q)[0 := \<lparr>rn_job = job, rn_phase = Encoding (qu_next q) (je_probe env)\<rparr>],
           qu_tokens := hm_insert (tj_media_id job) (qu_next q) (qu_tokens q), qu_next := qu_next q + 1\<rparr>)"
    have "queue_step u (Started 0 env) q ?q" using Cons r Probing assms(3) by (intro queue_step.started) simp_all
    moreover have "weight ?q < weight q" using Cons r Probing by (simp add: weight_def held_jobs_def)
    ultimately show ?thesis by (intro exI [of _ "Started 0 env"] exI [of _ ?q]) simp
  next
    case (Encoding t p)
    let ?env = "env\<lparr>je_probe := p, je_error := None\<rparr>"
    let ?q = "with_disk (job_ended u ?env job (qu_store q, qu_host q)) (q\<lparr>qu_tokens := hm_remove (tj_media_id job) (qu_tokens q)\<rparr>)"
    have "queue_step u (Ended job 0 ?env) q (release 0 ?q)" using Cons r Encoding by (intro queue_step.ended) simp_all
    moreover have "weight (release 0 ?q) < weight q" using release_weight [of ?q] Cons by simp
    ultimately show ?thesis by (intro exI [of _ "Ended job 0 ?env"] exI [of _ "release 0 ?q"]) simp
  qed
next
  case Nil
  show ?thesis
  proof (cases "qu_held q")
    case (Some job)
    obtain m where m: "qu_permits q = Suc m" using assms(1,2) Nil by (cases "qu_permits q") (simp_all add: queue_ok_def)
    let ?q = "q\<lparr>qu_held := None, qu_permits := m, qu_active := qu_active q @ [\<lparr>rn_job = job, rn_phase = Probing\<rparr>]\<rparr>"
    have "queue_step u Permitted q ?q" by (rule queue_step.permitted [OF Some m])
    moreover have "weight ?q < weight q" using Some by (simp add: weight_def held_jobs_def)
    ultimately show ?thesis by (intro exI [of _ Permitted] exI [of _ ?q]) simp
  next
    case None
    show ?thesis
    proof (cases "qu_channel q")
      case (Cons job rest)
      let ?q = "q\<lparr>qu_held := Some job, qu_channel := rest\<rparr>"
      have "queue_step u Received q ?q" by (rule queue_step.received [OF None Cons])
      moreover have "weight ?q < weight q" using Cons None by (simp add: weight_def held_jobs_def)
      ultimately show ?thesis by (intro exI [of _ Received] exI [of _ ?q]) simp
    next
      case chan: Nil
      then have "0 < length (qu_sending q)" using assms(4) Nil None by (auto simp: queued_def held_jobs_def)
      let ?q = "q\<lparr>qu_sending := drop_nth 0 (qu_sending q), qu_channel := qu_channel q @ [qu_sending q ! 0]\<rparr>"
      have "queue_step u (Sent 0) q ?q"
        using \<open>0 < length (qu_sending q)\<close> chan by (intro queue_step.sent) (simp_all add: JOB_CHANNEL_def)
      moreover have "weight ?q < weight q"
        using \<open>0 < length (qu_sending q)\<close> length_drop_nth [of 0 "qu_sending q"] by (simp add: weight_def held_jobs_def)
      ultimately show ?thesis by (intro exI [of _ "Sent 0"] exI [of _ ?q]) simp
    qed
  qed
qed

lemma queue_drained:
  assumes "0 < n" and "je_ffmpeg (env :: job_env)"
  shows "queue_ok n q \<Longrightarrow> \<exists>evs q'. queue_run u q evs q' \<and> list_all internal evs \<and> queued q' = {#}"
proof (induction "weight q" arbitrary: q rule: less_induct)
  case less
  show ?case
  proof (cases "queued q = {#}")
    case True
    then show ?thesis by (intro exI [of _ "[]"] exI [of _ q]) simp
  next
    case False
    then obtain ev q1 where one: "queue_step u ev q q1" "internal ev" "weight q1 < weight q"
      using queue_progress [OF less.prems assms] by blast
    then obtain evs q' where "queue_run u q1 evs q'" "list_all internal evs" "queued q' = {#}"
      using less.hyps [OF one(3) step_ok [OF one(1) less.prems]] by blast
    with one show ?thesis by (intro exI [of _ "ev # evs"] exI [of _ q']) auto
  qed
qed

lemma internal_submits: "list_all internal evs \<Longrightarrow> all_jobs submitted evs = {#}"
proof (induction evs)
  case (Cons ev evs)
  then show ?case by (cases ev) simp_all
qed simp

text \<open>
  From every state of the queue the runner can, by its own steps alone, finish every job that was
  submitted, each exactly once.
\<close>

theorem queue_drains:
  assumes "queue_run u (queue_start now s h) evs q" and "je_ffmpeg (env :: job_env)"
  shows "\<exists>evs' q'. queue_run u q evs' q' \<and> list_all internal evs' \<and> queued q' = {#} \<and> all_jobs finished evs' = queued q"
proof -
  obtain evs' q' where r: "queue_run u q evs' q'" "list_all internal evs'" "queued q' = {#}"
    using queue_drained [OF start_permits assms(2) run_ok [OF assms(1) start_ok(1)]] by blast
  then have "all_jobs finished evs' = queued q"
    using run_jobs [OF r(1)] internal_submits [OF r(2)] by simp
  with r show ?thesis by blast
qed

section \<open>Cancelling\<close>

text \<open>No running job of the entry has a cancelled token.\<close>

definition uncancelled :: "uuid \<Rightarrow> queue \<Rightarrow> bool" where
  "uncancelled i q \<longleftrightarrow> (\<forall>r \<in> set (qu_active q). tj_media_id (rn_job r) = i \<longrightarrow> set (rn_tokens r) \<inter> set (qu_cancelled q) = {})"

fun cancels :: "uuid \<Rightarrow> queue_event \<Rightarrow> bool" where
  "cancels i (Cancel j) = (i = j)"
| "cancels i CancelAll = True"
| "cancels i _ = False"

lemma cancel_other:
  assumes "tokens_ok q" and "uncancelled i q" and "j \<noteq> i"
  shows "uncancelled i (cancel_job j q)"
proof (cases "map_of (qu_tokens q) j")
  case None
  then show ?thesis using assms(2) by (simp add: cancel_job_def)
next
  case (Some t)
  then have "(j, t) \<in> set (qu_tokens q)" by (rule map_of_SomeD)
  then obtain r where r: "r \<in> set (qu_active q)" "tj_media_id (rn_job r) = j" "t \<in> set (rn_tokens r)"
    using assms(1) by (fastforce simp: tokens_ok_def)
  have "t \<notin> set (rn_tokens r')" if "r' \<in> set (qu_active q)" "tj_media_id (rn_job r') = i" for r'
    using tokens_unique [of "qu_active q" r r' t] r that assms(1,3) by (auto simp: tokens_ok_def)
  then show ?thesis using Some assms(2) by (auto simp: uncancelled_def cancel_job_def)
qed

lemma fresh_token: "tokens_ok q \<Longrightarrow> qu_next q \<notin> set (qu_cancelled q)"
  by (auto simp: tokens_ok_def)

lemma uncancelled_step:
  assumes "queue_step u ev q q'" and "tokens_ok q" and "uncancelled i q" and "\<not> cancels i ev"
  shows "uncancelled i q'"
  using assms(1)
proof cases
  case (permitted job m)
  then show ?thesis using assms(3) by (auto simp: uncancelled_def)
next
  case (unprobed k job env)
  then show ?thesis using assms(3) set_drop_nth [of k "qu_active q"] by (auto simp: uncancelled_def release_def)
next
  case (started k job env)
  let ?r = "\<lparr>rn_job = job, rn_phase = Encoding (qu_next q) (je_probe env)\<rparr>"
  have sub: "set (qu_active q') \<subseteq> insert ?r (set (qu_active q))" using started by (simp add: set_update_subset_insert)
  have new: "set (rn_tokens ?r) \<inter> set (qu_cancelled q) = {}" using fresh_token [OF assms(2)] by simp
  have same: "qu_cancelled q' = qu_cancelled q" using started by simp
  show ?thesis unfolding uncancelled_def same
  proof (intro ballI impI)
    fix r assume r: "r \<in> set (qu_active q')" "tj_media_id (rn_job r) = i"
    from r(1) sub consider "r = ?r" | "r \<in> set (qu_active q)" by blast
    then show "set (rn_tokens r) \<inter> set (qu_cancelled q) = {}"
      using new r(2) assms(3) by cases (simp_all add: uncancelled_def)
  qed
next
  case (ended k job t env)
  then show ?thesis using assms(3) set_drop_nth [of k "qu_active q"] by (auto simp: uncancelled_def release_def)
next
  case (cancel j)
  then show ?thesis using assms(2-4) cancel_other by auto
qed (use assms(3,4) in \<open>auto simp: uncancelled_def submit_def\<close>)

lemma uncancelled_end:
  assumes "queue_step u (Ended job k env) q q'" and "uncancelled (tj_media_id job) q"
  shows "je_error env \<noteq> Some CANCELLED"
  using assms(1)
proof cases
  case (ended t)
  then have "\<lparr>rn_job = job, rn_phase = Encoding t (je_probe env)\<rparr> \<in> set (qu_active q)" by (metis nth_mem)
  then show ?thesis using assms(2) ended by (fastforce simp: uncancelled_def)
qed

lemma uncancelled_run:
  "queue_run u q evs q' \<Longrightarrow> queue_ok n q \<Longrightarrow> uncancelled i q \<Longrightarrow> list_all (\<lambda>ev. \<not> cancels i ev) evs \<Longrightarrow>
    Ended job k env \<in> set evs \<Longrightarrow> tj_media_id job = i \<Longrightarrow> je_error env \<noteq> Some CANCELLED"
proof (induction rule: queue_run.induct)
  case (step ev q q1 evs q2)
  show ?case
  proof (cases "ev = Ended job k env")
    case True
    then show ?thesis using step.hyps(1) step.prems(2,5) uncancelled_end by blast
  next
    case False
    have "uncancelled i q1"
      using uncancelled_step [OF step.hyps(1)] step.prems by (simp add: queue_ok_def)
    with False show ?thesis using step step_ok [OF step.hyps(1)] by simp
  qed
qed simp


section \<open>Witnesses\<close>

definition example_queue :: queue where
  "example_queue = queue_start 0 (example_store example_entry) example_host"

definition example_job :: transcode_job where
  "example_job = create_job ascii_only example_entry (ascii ''hevc'') home_u"

lemma example_queue_store: "qu_store example_queue = example_store example_entry" "qu_tokens example_queue = []"
  "qu_active example_queue = []" "qu_channel example_queue = []" "qu_sending example_queue = []" "qu_held example_queue = None"
  by (simp_all add: example_queue_def queue_start_def recover_stuck_transcodes_def list_media_def example_store_def
      drop_corrupt_def valid_values_def map_filter_Cons List.map_filter_simps recover_one_def example_entry_def)

text \<open>One job that was submitted, sent and taken from the channel.\<close>

lemma example_queue_run:
  "queue_run ascii_only example_queue [Submit example_job, Sent 0, Received] (example_queue\<lparr>qu_held := Some example_job\<rparr>)"
proof -
  let ?q1 = "submit example_job example_queue" let ?q2 = "example_queue\<lparr>qu_sending := [], qu_channel := [example_job]\<rparr>"
  have "queue_step ascii_only (Submit example_job) example_queue ?q1" by (rule queue_step.submit)
  moreover have "queue_step ascii_only (Sent 0) ?q1 ?q2"
    using queue_step.sent [of 0 ?q1 ascii_only] by (simp add: submit_def example_queue_store JOB_CHANNEL_def drop_nth_def)
  moreover have "queue_step ascii_only Received ?q2 (?q2\<lparr>qu_held := Some example_job, qu_channel := []\<rparr>)"
    using queue_step.received [of ?q2 example_job "[]" ascii_only] by (simp add: example_queue_store)
  moreover have "?q2\<lparr>qu_held := Some example_job, qu_channel := []\<rparr> = example_queue\<lparr>qu_held := Some example_job\<rparr>"
    by (rule queue.equality) (simp_all add: example_queue_store)
  ultimately show ?thesis by auto
qed

theorem queue_accounts_witness:
  "queued (example_queue\<lparr>qu_held := Some example_job\<rparr>) = {#example_job#} \<and> qu_permits example_queue = qu_permits (queue_start 0 (example_store example_entry) example_host)"
  using queue_accounts [OF example_queue_run [unfolded example_queue_def]] by (simp add: example_queue_def)

theorem queue_drains_witness:
  "\<exists>evs q'. queue_run ascii_only (example_queue\<lparr>qu_held := Some example_job\<rparr>) evs q' \<and> all_jobs finished evs = {#example_job#}"
proof -
  have "je_ffmpeg example_env_job" by (simp add: example_env_job_def)
  from queue_drains [OF example_queue_run [unfolded example_queue_def] this]
  obtain evs q' where "queue_run ascii_only (example_queue\<lparr>qu_held := Some example_job\<rparr>) evs q'"
    "all_jobs finished evs = queued (example_queue\<lparr>qu_held := Some example_job\<rparr>)"
    by (auto simp: example_queue_def)
  then show ?thesis by (auto simp: queued_def held_jobs_def example_queue_store)
qed


end
