(* ===== verification/Streaming.thy ===== *)
theory Streaming
  imports Import Magnet
begin

text \<open>
  Playing a library entry (\<open>web/api/media.rs\<close>): which file is played, HLS playlists and their
  segments, requests for a range of a file, subtitles and their conversion, the play position, and
  the upload of a subtitle file. The files of the host are a map from paths to contents.
\<close>

section \<open>Text\<close>

definition parse_u64 :: "bytes \<Rightarrow> u64 option" where
  "parse_u64 s = (case parse_unsigned s of None \<Rightarrow> None
     | Some n \<Rightarrow> if n < 2 ^ 64 then Some (of_nat n) else None)"

text \<open>\<open>str::lines\<close>: a carriage return before a line feed belongs to the line end.\<close>

definition strip_cr :: "bytes \<Rightarrow> bytes" where
  "strip_cr l = (if l \<noteq> [] \<and> last l = 13 then butlast l else l)"

definition lines_of :: "bytes \<Rightarrow> bytes list" where
  "lines_of s = (let ps = split_byte 10 s in
     map strip_cr (butlast ps) @ (if last ps = [] then [] else [last ps]))"

text \<open>\<open>String::from_utf8_lossy\<close>: every broken sequence becomes U+FFFD.\<close>

definition replacement :: bytes where
  "replacement = [0xEF, 0xBF, 0xBD]"

fun utf8_lossy :: "bytes \<Rightarrow> bytes" where
  "utf8_lossy [] = []"
| "utf8_lossy (a # xs) =
     (if utf8_width a = 1 then a # utf8_lossy xs
      else if utf8_width a = 0 then replacement @ utf8_lossy xs
      else case xs of
        [] \<Rightarrow> replacement
      | b # ys \<Rightarrow>
          if \<not> utf8_second a b then replacement @ utf8_lossy xs
          else if utf8_width a = 2 then a # b # utf8_lossy ys
          else (case ys of
            [] \<Rightarrow> replacement
          | c # zs \<Rightarrow>
              if \<not> utf8_cont c then replacement @ utf8_lossy ys
              else if utf8_width a = 3 then a # b # c # utf8_lossy zs
              else (case zs of
                [] \<Rightarrow> replacement
              | d # ws \<Rightarrow>
                  if \<not> utf8_cont d then replacement @ utf8_lossy zs else a # b # c # d # utf8_lossy ws)))"

text \<open>\<open>Uuid\<close> as text: hexadecimal in groups of 8, 4, 4, 4 and 12 digits.\<close>

definition uuid_text :: "uuid \<Rightarrow> bytes" where
  "uuid_text i = hex_encode (slice 0 4 i) @ [45] @ hex_encode (slice 4 6 i) @ [45]
     @ hex_encode (slice 6 8 i) @ [45] @ hex_encode (slice 8 10 i) @ [45] @ hex_encode (drop 10 i)"

section \<open>Answers\<close>

text \<open>A bare status, a status with a JSON error, a status with headers and a body, the list of
  subtitle tracks, and the number of tracks after an upload.\<close>

datatype answer =
    Status nat
  | JsonError nat string
  | Reply nat "(string \<times> bytes) list" bytes
  | Tracks "(nat \<times> bytes \<times> bytes option \<times> bytes) list"
  | Uploaded nat

type_synonym disk = "pathbuf \<Rightarrow> bytes option"

section \<open>Playing\<close>

definition playable :: "media_entry \<Rightarrow> pathbuf option" where
  "playable e =
     (case map_of (me_versions e) (ascii ''h264'') of
        Some p \<Rightarrow> Some p
      | None \<Rightarrow> (case map_of (me_versions e) (ascii ''hevc'') of
          Some p \<Rightarrow> Some p
        | None \<Rightarrow> (case me_versions e of
            (_, p) # _ \<Rightarrow> Some p
          | [] \<Rightarrow> (case me_transcode_state e of
              Ready output \<Rightarrow> Some output
            | Skipped \<Rightarrow> Some (me_media_file e)
            | _ \<Rightarrow> None))))"

definition rewrite_line :: "uuid \<Rightarrow> bytes \<Rightarrow> bytes" where
  "rewrite_line i line =
     (if \<not> starts_with line (ascii ''#'') \<and> line \<noteq> []
      then ascii ''/api/v1/media/'' @ uuid_text i @ ascii ''/segment/'' @ line else line)"

definition rewrite_playlist :: "uuid \<Rightarrow> bytes \<Rightarrow> bytes" where
  "rewrite_playlist i content = join_with [10] (map (rewrite_line i) (lines_of content))"

text \<open>\<open>HeaderValue::to_str\<close>: visible ASCII and tabs only.\<close>

definition header_text :: "bytes \<Rightarrow> bytes option" where
  "header_text v = (if list_all (\<lambda>b. (32 \<le> b \<and> b < 127) \<or> b = 9) v then Some v else None)"

definition requested_range :: "u64 \<Rightarrow> bytes \<Rightarrow> (u64 \<times> u64) option" where
  "requested_range total_size range_str =
     (if starts_with range_str (ascii ''bytes='')
      then map_option (\<lambda>(a, b).
             (case parse_u64 a of None \<Rightarrow> 0 | Some n \<Rightarrow> n,
              if b = [] then total_size - 1 else (case parse_u64 b of None \<Rightarrow> total_size - 1 | Some n \<Rightarrow> n)))
           (split_once 45 (drop 6 range_str))
      else None)"

text \<open>The arithmetic is that of \<open>u64\<close> and wraps.\<close>

definition range_reply :: "u64 \<Rightarrow> bytes \<Rightarrow> u64 \<times> u64 \<Rightarrow> answer" where
  "range_reply total_size content = (\<lambda>(start, end0).
     if total_size \<le> start then Reply 416 [(''content-range'', ascii ''bytes */'' @ dec_nat (unat total_size))] []
     else (let end1 = min end0 (total_size - 1); content_length = end1 - start + 1 in
       Reply 206 [(''content-type'', ascii ''video/mp4''), (''accept-ranges'', ascii ''bytes''),
           (''content-length'', dec_nat (unat content_length)),
           (''content-range'', ascii ''bytes '' @ dec_nat (unat start) @ ascii ''-'' @ dec_nat (unat end1)
              @ ascii ''/'' @ dec_nat (unat total_size))]
         (take (unat content_length) (drop (unat start) content))))"

definition serve_file :: "bool \<Rightarrow> bytes \<Rightarrow> bytes option \<Rightarrow> answer" where
  "serve_file has_metadata content range_str =
     (let total_size = of_nat (length content) in
      if \<not> has_metadata then Status 500
      else if total_size = 0 then Reply 200 [(''content-type'', ascii ''video/mp4''), (''content-length'', ascii ''0'')] []
      else (case Option.bind (Option.bind range_str header_text) (requested_range total_size) of
          Some r \<Rightarrow> range_reply total_size content r
        | None \<Rightarrow> Reply 200 [(''content-type'', ascii ''video/mp4''), (''accept-ranges'', ascii ''bytes''),
             (''content-length'', dec_nat (unat total_size))] content))"

text \<open>\<open>fstat\<close> says for which files the size can be had once they are open.\<close>

definition stream_media ::
  "disk \<Rightarrow> (pathbuf \<Rightarrow> bool) \<Rightarrow> uuid \<Rightarrow> bytes option \<Rightarrow> store \<Rightarrow> store \<times> answer" where
  "stream_media disk fstat i range_str s = (case get_media i s of
       (s1, DbOk (Some e)) \<Rightarrow>
         (s1, case playable e of
            None \<Rightarrow> Status 404
          | Some p \<Rightarrow> (case disk p of
              None \<Rightarrow> Status 404
            | Some content \<Rightarrow>
                if extension p = Some (ascii ''m3u8'')
                then (if utf8_valid content
                  then Reply 200 [(''content-type'', ascii ''application/vnd.apple.mpegurl'')] (rewrite_playlist i content)
                  else Status 404)
                else serve_file (fstat p) content range_str))
     | (s1, _) \<Rightarrow> (s1, Status 404))"

definition segment_type :: "bytes \<Rightarrow> bytes" where
  "segment_type filename =
     (let ext = map ascii_lower (utf8_or [] (extension (path_of filename))) in
      if ext = ascii ''ts'' then ascii ''video/mp2t''
      else if ext = ascii ''m3u8'' then ascii ''application/vnd.apple.mpegurl''
      else ascii ''application/octet-stream'')"

text \<open>The test that a name of a request stays in its directory.\<close>

definition unsafe_name :: "bytes \<Rightarrow> bool" where
  "unsafe_name n \<longleftrightarrow> contains_sub n (ascii ''..'') \<or> slash \<in> set n \<or> 92 \<in> set n"

definition stream_segment :: "disk \<Rightarrow> uuid \<Rightarrow> bytes \<Rightarrow> store \<Rightarrow> store \<times> answer" where
  "stream_segment disk i filename s = (case get_media i s of
       (s1, DbOk (Some e)) \<Rightarrow>
         (s1, case me_transcode_state e of
            Ready output \<Rightarrow>
              (let base_dir = (case parent output of None \<Rightarrow> path_of (ascii ''.'') | Some d \<Rightarrow> d) in
               if unsafe_name filename then Status 400
               else (case disk (path_join base_dir (path_of filename)) of
                   None \<Rightarrow> Status 404
                 | Some content \<Rightarrow> Reply 200 [(''content-type'', segment_type filename)] content))
          | _ \<Rightarrow> Status 404)
     | (s1, _) \<Rightarrow> (s1, Status 404))"

section \<open>Subtitles\<close>

definition list_subtitles :: "uuid \<Rightarrow> store \<Rightarrow> store \<times> answer" where
  "list_subtitles i s = (case get_media i s of
       (s1, DbOk (Some e)) \<Rightarrow>
         (s1, Tracks (map (\<lambda>(n, t). (n, sub_label t, sub_language t, sub_format t)) (enumerate 0 (me_subtitles e))))
     | (s1, _) \<Rightarrow> (s1, Status 404))"

definition vtt_line :: "bytes \<Rightarrow> bytes" where
  "vtt_line line = (if contains_sub line (ascii ''-->'') then map (\<lambda>b. if b = 44 then 46 else b) line else line)"

definition srt_to_vtt :: "bytes \<Rightarrow> bytes" where
  "srt_to_vtt srt = ascii ''WEBVTT'' @ [10, 10] @ concat (map (\<lambda>l. vtt_line l @ [10]) (lines_of srt))"

definition stream_subtitle :: "disk \<Rightarrow> uuid \<Rightarrow> nat \<Rightarrow> store \<Rightarrow> store \<times> answer" where
  "stream_subtitle disk i index s = (case get_media i s of
       (s1, DbOk (Some e)) \<Rightarrow>
         (s1, if length (me_subtitles e) \<le> index then Status 404
              else (let track = me_subtitles e ! index in
                case disk (sub_path track) of
                  None \<Rightarrow> Status 404
                | Some raw \<Rightarrow>
                    (let content = utf8_lossy raw in
                     Reply 200 [(''content-type'', ascii ''text/vtt; charset=utf-8'')]
                       (if sub_format track = ascii ''vtt'' then content else srt_to_vtt content))))
     | (s1, _) \<Rightarrow> (s1, Status 404))"

section \<open>The play position\<close>

text \<open>
  Comparisons of \<open>f64\<close> values that are finite, on their bits: a sign, and a magnitude in the order of
  the numbers.
\<close>

definition f64_is_finite :: "f64 \<Rightarrow> bool" where
  "f64_is_finite x \<longleftrightarrow> drop_bit 52 x AND 0x7FF \<noteq> 0x7FF"

definition f64_order :: "f64 \<Rightarrow> int" where
  "f64_order x = (if bit x 63 then - uint (take_bit 63 x) else uint x)"

definition update_progress :: "u64 \<Rightarrow> uuid \<Rightarrow> f64 \<Rightarrow> f64 \<Rightarrow> store \<Rightarrow> store \<times> answer" where
  "update_progress now i position duration s =
     (if \<not> f64_is_finite position \<or> \<not> f64_is_finite duration \<or> f64_order position < 0
         \<or> f64_order duration \<le> 0 \<or> f64_order duration < f64_order position
      then (s, Status 400)
      else (case update_play_progress now i position duration s of
          (s1, DbOk _) \<Rightarrow> (s1, Status 204)
        | (s1, DbErr) \<Rightarrow> (s1, Status 500)))"

section \<open>Uploads\<close>

definition MAX_SUBTITLE_SIZE :: nat where
  "MAX_SUBTITLE_SIZE = 10 * 1024 * 1024"

text \<open>The fields of a form up to the first that cannot be read, each with its bytes if they can be.\<close>

record form_field =
  ff_name :: "bytes option"
  ff_file_name :: "bytes option"
  ff_bytes :: "bytes option"

definition uploaded_file :: "form_field list \<Rightarrow> bytes \<times> bytes" where
  "uploaded_file form = (case List.find (\<lambda>f. ff_name f = Some (ascii ''file'')) form of
       None \<Rightarrow> ([], [])
     | Some f \<Rightarrow> (case ff_file_name f of None \<Rightarrow> ascii ''subtitle.srt'' | Some n \<Rightarrow> n,
                  case ff_bytes f of None \<Rightarrow> [] | Some bs \<Rightarrow> bs))"

definition upload_dir :: "media_entry \<Rightarrow> pathbuf" where
  "upload_dir e = (case Option.bind (case me_versions e of [] \<Rightarrow> None | (_, p) # _ \<Rightarrow> Some p) parent of
       Some d \<Rightarrow> d
     | None \<Rightarrow> (case parent (me_media_file e) of Some d \<Rightarrow> d | None \<Rightarrow> path_of (ascii ''.'')))"

definition upload_name :: "media_entry \<Rightarrow> bytes \<Rightarrow> bytes" where
  "upload_name e ext =
     utf8_or (ascii ''media'') (file_stem (case me_versions e of [] \<Rightarrow> me_media_file e | (_, p) # _ \<Rightarrow> p))
       @ ascii ''.uploaded'' @ dec_nat (length (me_subtitles e)) @ ascii ''.'' @ ext"

definition upload_track :: "unicode \<Rightarrow> bytes \<Rightarrow> bytes \<Rightarrow> pathbuf \<Rightarrow> subtitle_track" where
  "upload_track u original_name ext out_path =
     (let language = normalize_language_code u (last (split_byte 46 (utf8_or [] (file_stem (path_of original_name))))) in
      \<lparr>sub_label = (case language of None \<Rightarrow> original_name | Some l \<Rightarrow> language_code_to_label l),
       sub_language = language, sub_path = out_path, sub_format = ext\<rparr>)"

definition upload_subtitle ::
  "unicode \<Rightarrow> (pathbuf \<Rightarrow> bool) \<Rightarrow> uuid \<Rightarrow> form_field list \<Rightarrow> store \<times> disk \<Rightarrow> (store \<times> disk) \<times> answer" where
  "upload_subtitle u writable i form = (\<lambda>(s, disk). case get_media i s of
       (s1, DbOk (Some e)) \<Rightarrow>
         (let (original_name, file_bytes) = uploaded_file form;
              ext = to_lowercase u (utf8_or (ascii ''srt'') (extension (path_of original_name)));
              out_path = path_join (upload_dir e) (path_of (upload_name e ext)) in
          if file_bytes = [] then ((s1, disk), JsonError 400 ''no file uploaded'')
          else if MAX_SUBTITLE_SIZE < length file_bytes
          then ((s1, disk), JsonError 413 ''subtitle file too large (max 10 MB)'')
          else if unsafe_name original_name then ((s1, disk), JsonError 400 ''invalid filename'')
          else if ext \<notin> set (map ascii [''srt'', ''vtt'', ''ass'', ''ssa''])
          then ((s1, disk), JsonError 400 ''unsupported subtitle format (use .srt, .vtt, .ass, .ssa)'')
          else if \<not> writable out_path then ((s1, disk), JsonError 500 ''cannot write'')
          else (let e1 = e\<lparr>me_subtitles := me_subtitles e @ [upload_track u original_name ext out_path]\<rparr> in
            ((fst (put_media e1 s1), disk(out_path \<mapsto> file_bytes)), Uploaded (length (me_subtitles e1)))))
     | (s1, _) \<Rightarrow> ((s1, disk), Status 404))"

end
