(* ===== verification/Streaming_Correct.thy ===== *)
theory Streaming_Correct
  imports Streaming
begin

text \<open>
  What the player gets: requests for consecutive ranges rebuild the file, an inverted range announces
  more bytes than there are, segments stay in their directory, converted subtitles keep their lines,
  and an upload writes one file beside the video.
\<close>

section \<open>Ranges\<close>

definition range_header :: "nat \<Rightarrow> nat \<Rightarrow> bytes" where
  "range_header a b = ascii ''bytes='' @ dec_nat a @ 45 # dec_nat b"

lemma parse_unsigned_dec_nat [simp]: "parse_unsigned (dec_nat n) = Some n"
proof -
  obtain b bs where b: "dec_nat n = b # bs" "is_ascii_digit b" by (rule dec_nat_Cons)
  have "parse_digits 0 (b # bs) = Some n" by (simp flip: b(1))
  then show ?thesis using digit_not_sign [OF b(2)] by (simp add: b(1) del: parse_digits.simps)
qed

lemma split_once_append: "c \<notin> set a \<Longrightarrow> split_once c (a @ c # b) = Some (a, b)"
  by (induction a) auto

lemma dec_nat_no_sign: "45 \<notin> set (dec_nat n)"
  using dec_nat_digits [of 45 n] digit_not_sign [of 45] by blast

lemma digit_visible: "is_ascii_digit b \<Longrightarrow> 32 \<le> b \<and> b < 127"
  by (auto simp: is_ascii_digit_def word_le_nat_alt word_less_nat_alt)

lemma header_text_range: "header_text (range_header a b) = Some (range_header a b)"
proof -
  have "list_all (\<lambda>b. (32 \<le> b \<and> b < 127) \<or> b = 9) (ascii ''bytes='')" by code_simp
  moreover have "list_all (\<lambda>b. (32 \<le> b \<and> b < 127) \<or> b = 9) (dec_nat n)" for n
    using digit_visible dec_nat_digits by (auto simp: list_all_iff)
  moreover have "32 \<le> (45 :: u8)" "(45 :: u8) < 127" by code_simp+
  ultimately show ?thesis by (simp add: header_text_def range_header_def)
qed

lemma requested_range_header:
  "requested_range total_size (range_header a b) =
     Some (if a < 2 ^ 64 then of_nat a else 0, if b < 2 ^ 64 then of_nat b else total_size - 1)"
proof -
  have len: "length (ascii ''bytes='') = 6" by (simp add: ascii_def)
  have "starts_with (range_header a b) (ascii ''bytes='')" by (simp add: starts_with_def range_header_def)
  moreover have "drop 6 (range_header a b) = dec_nat a @ 45 # dec_nat b" by (simp add: range_header_def len)
  ultimately show ?thesis
    by (simp add: requested_range_def split_once_append dec_nat_no_sign parse_u64_def)
qed

lemma unat_u64: "n < 2 ^ 64 \<Longrightarrow> unat (of_nat n :: u64) = n"
  by (simp add: unat_of_nat)

lemma serve_range:
  assumes "length content < 2 ^ 64" and "a < length content" and "a \<le> b"
  shows "serve_file True content (Some (range_header a b)) =
    (let e = min b (length content - 1) in
     Reply 206 [(''content-type'', ascii ''video/mp4''), (''accept-ranges'', ascii ''bytes''),
         (''content-length'', dec_nat (e + 1 - a)),
         (''content-range'', ascii ''bytes '' @ dec_nat a @ ascii ''-'' @ dec_nat e @ ascii ''/'' @ dec_nat (length content))]
       (take (e + 1 - a) (drop a content)))"
proof -
  let ?n = "length content" let ?t = "of_nat ?n :: u64" let ?e = "min b (?n - 1)"
  let ?stop = "min (if b < 2 ^ 64 then of_nat b else ?t - 1) (?t - 1)"
  have n: "unat ?t = ?n" using assms(1) by (simp add: unat_u64)
  have a: "unat (of_nat a :: u64) = a" "a < 2 ^ 64" using assms(1,2) by (simp_all add: unat_u64)
  have t: "?t \<noteq> 0" using n assms(2) by auto
  have "?t - 1 = of_nat (?n - 1)" using assms(2) by (simp add: of_nat_diff)
  then have t1: "unat (?t - 1) = ?n - 1" using assms(1) by (simp add: unat_u64)
  have e: "unat ?stop = ?e"
  proof (cases "b < 2 ^ 64")
    case True
    then have "unat (of_nat b :: u64) = b" by (simp add: unat_u64)
    then show ?thesis using True t1 by (simp add: min_def word_le_nat_alt)
  next
    case False
    then show ?thesis using t1 assms(1) by simp
  qed
  have ae: "a \<le> ?e" "?e < 2 ^ 64" using assms by auto
  have "of_nat (unat ?stop) = ?stop" by simp
  then have "?stop = of_nat ?e" unfolding e by simp
  moreover have "?e + 1 - a = Suc (?e - a)" using Suc_diff_le [OF ae(1)] by (simp only: Suc_eq_plus1)
  ultimately have "?stop - of_nat a + 1 = of_nat (?e + 1 - a)" using ae(1) by (simp add: of_nat_diff del: min_less_iff_conj)
  moreover have "?e + 1 - a < 2 ^ 64" using ae assms by linarith
  ultimately have l: "unat (?stop - of_nat a + 1) = ?e + 1 - a" by (simp add: unat_u64)
  have "\<not> ?t \<le> of_nat a" using n a assms(2) by (simp add: word_le_nat_alt)
  then show ?thesis
    using t l e n a by (simp add: serve_file_def header_text_range requested_range_header range_reply_def Let_def)
qed


lemma less_wrap: "b + 1 < a \<Longrightarrow> a \<le> n \<Longrightarrow> n + b + 1 - a < (n :: nat)"
  by linarith

lemma le_wrap: "n \<le> m \<Longrightarrow> n \<le> m + b + 1 - a + (a :: nat)"
  by linarith

lemma serve_inverted:
  assumes "length content < 2 ^ 63" and "a < length content" and "b + 1 < a"
  shows "\<exists>hs. serve_file True content (Some (range_header a b)) = Reply 206 hs (drop a content)
    \<and> map_of hs ''content-length'' = Some (dec_nat (2 ^ 64 + b + 1 - a))"
proof -
  let ?n = "length content" let ?t = "of_nat ?n :: u64"
  have n: "unat ?t = ?n" using assms(1) by (simp add: unat_u64)
  have ab: "unat (of_nat a :: u64) = a" "unat (of_nat b :: u64) = b" "a < 2 ^ 64" "b < 2 ^ 64"
    using assms by (simp_all add: unat_u64)
  have "?t - 1 = of_nat (?n - 1)" using assms(2) by (simp add: of_nat_diff)
  then have "unat (?t - 1) = ?n - 1" using assms(1) by (simp add: unat_u64)
  moreover have "b \<le> ?n - 1" using assms(2,3) by linarith
  ultimately have e: "min (of_nat b) (?t - 1) = of_nat b" using ab by (simp add: min_def word_le_nat_alt)
  have "of_nat (2 ^ 64 + b + 1 - a) = (of_nat (2 ^ 64) + of_nat b + 1 - of_nat a :: u64)"
    using assms by (simp add: of_nat_diff)
  moreover have "of_nat (2 ^ 64) = (0 :: u64)" by simp
  ultimately have "of_nat b - of_nat a + 1 = (of_nat (2 ^ 64 + b + 1 - a) :: u64)" by (simp only: algebra_simps add_0_left)
  moreover have "2 ^ 64 + b + 1 - a < (2 :: nat) ^ 64" using assms(3) ab(3) less_wrap [of b a "2 ^ 64"] by simp
  ultimately have l: "unat (of_nat b - of_nat a + 1 :: u64) = 2 ^ 64 + b + 1 - a" by (simp add: unat_u64)
  have "?t \<noteq> 0" "\<not> ?t \<le> of_nat a" using n ab assms(2) by (auto simp: word_le_nat_alt)
  moreover have "?n \<le> 2 ^ 64" using assms(1) by simp
  then have "?n \<le> 2 ^ 64 + b + 1 - a + a" by (rule le_wrap)
  ultimately show ?thesis
    using l e n ab by (simp add: serve_file_def header_text_range requested_range_header range_reply_def Let_def)
qed

fun body_of :: "answer \<Rightarrow> bytes" where
  "body_of (Reply st hs body) = body"
| "body_of _ = []"

lemma concat_chunks: "concat (map (\<lambda>j. take k (drop (j * k) xs)) [0..<m]) = take (m * k) xs"
  by (induction m) (simp_all add: take_add add.commute [of k])

lemma stream_file:
  assumes "get_media i s = (s1, DbOk (Some e))" and "playable e = Some p"
    and "extension p \<noteq> Some (ascii ''m3u8'')" and "disk p = Some content" and "fstat p"
  shows "stream_media disk fstat i hdr s = (s1, serve_file True content hdr)"
  using assms by (simp add: stream_media_def)

text \<open>
  C15. A request for a range of the played file is answered with exactly that part of it, its length
  announced, whatever range inside the file is asked; so a player that fetches consecutive ranges of
  any size has the whole file, byte for byte.
\<close>

theorem ranges_rebuild_file:
  assumes "get_media i s = (s1, DbOk (Some e))" and "playable e = Some p"
    and "extension p \<noteq> Some (ascii ''m3u8'')" and "disk p = Some content" and "fstat p"
    and "length content < 2 ^ 64" and "0 < k"
  shows "(\<forall>a b. a < length content \<longrightarrow> a \<le> b \<longrightarrow>
        (\<exists>hs. snd (stream_media disk fstat i (Some (range_header a b)) s) = Reply 206 hs (slice a (b + 1) content)
          \<and> map_of hs ''content-length'' = Some (dec_nat (length (slice a (b + 1) content)))))
    \<and> concat (map (\<lambda>j. body_of (snd (stream_media disk fstat i (Some (range_header (j * k) (j * k + k - 1))) s)))
        [0..<div_ceil (length content) k]) = content"
proof
  let ?n = "length content"
  note served = stream_file [of i s s1 e p disk content fstat, OF assms(1-5)]
  have one: "\<exists>hs. serve_file True content (Some (range_header a b)) = Reply 206 hs (slice a (b + 1) content)
      \<and> map_of hs ''content-length'' = Some (dec_nat (length (slice a (b + 1) content)))"
    if "a < ?n" "a \<le> b" for a b
  proof -
    have "take (min b (?n - 1) + 1 - a) (drop a content) = slice a (b + 1) content"
      using that by (cases "b < ?n") (auto simp: slice_def min_def)
    moreover have "min b (?n - 1) + 1 - a = length (slice a (b + 1) content)"
      using that by (auto simp: slice_def min_def)
    ultimately show ?thesis using serve_range [OF assms(6) that] by (simp add: Let_def)
  qed
  then show "\<forall>a b. a < ?n \<longrightarrow> a \<le> b \<longrightarrow>
      (\<exists>hs. snd (stream_media disk fstat i (Some (range_header a b)) s) = Reply 206 hs (slice a (b + 1) content)
        \<and> map_of hs ''content-length'' = Some (dec_nat (length (slice a (b + 1) content))))"
    by (simp add: served)
  have "body_of (serve_file True content (Some (range_header (j * k) (j * k + k - 1)))) = take k (drop (j * k) content)"
    if "j < div_ceil ?n k" for j
  proof -
    have "j * k < ?n" using that div_ceil_less [OF assms(7), of j ?n] by simp
    moreover have "j * k \<le> j * k + k - 1" "j * k + k - 1 + 1 - j * k = k" using assms(7) by simp_all
    ultimately show ?thesis using one [of "j * k" "j * k + k - 1"] by (auto simp: slice_def)
  qed
  then have "concat (map (\<lambda>j. body_of (snd (stream_media disk fstat i (Some (range_header (j * k) (j * k + k - 1))) s)))
      [0..<div_ceil ?n k]) = concat (map (\<lambda>j. take k (drop (j * k) content)) [0..<div_ceil ?n k])"
    by (intro arg_cong [where f = concat] map_cong) (simp_all add: served)
  also have "\<dots> = content" unfolding concat_chunks using div_ceil_enough [OF assms(7), of ?n] by (simp add: mult.commute)
  finally show "concat (map (\<lambda>j. body_of (snd (stream_media disk fstat i (Some (range_header (j * k) (j * k + k - 1))) s)))
      [0..<div_ceil ?n k]) = content" .
qed

text \<open>
  C16. A range whose end lies two or more bytes before its start is not refused: the length of the answer is computed
  below zero, so the announced length is about 2 to the 64, far more than the file has.
\<close>

theorem inverted_range_breaks:
  assumes "get_media i s = (s1, DbOk (Some e))" and "playable e = Some p"
    and "extension p \<noteq> Some (ascii ''m3u8'')" and "disk p = Some content" and "fstat p"
    and "length content < 2 ^ 63" and "a < length content" and "b + 1 < a"
  shows "\<exists>hs len. snd (stream_media disk fstat i (Some (range_header a b)) s) = Reply 206 hs (drop a content)
    \<and> map_of hs ''content-length'' = Some (dec_nat len) \<and> 2 ^ 63 < len \<and> length content < len"
proof -
  let ?len = "2 ^ 64 + b + 1 - a"
  obtain hs where hs: "serve_file True content (Some (range_header a b)) = Reply 206 hs (drop a content)"
    "map_of hs ''content-length'' = Some (dec_nat ?len)" using serve_inverted [OF assms(6-8)] by blast
  have "(2 :: nat) ^ 64 = 2 * 2 ^ 63" by simp
  then have len: "2 ^ 63 < ?len" using assms(6-8) by linarith
  then have "length content < ?len" using assms(6) by linarith
  then show ?thesis
    unfolding stream_file [of i s s1 e p disk content fstat, OF assms(1-5)] snd_conv hs(1) using hs(2) len by blast
qed

definition example_player :: store where
  "example_player = \<lparr>db_downloads = [], db_library = [([1], Valid (example_entry\<lparr>me_transcode_state := Skipped\<rparr>))],
     db_settings = None, db_ok = True\<rparr>"

definition example_disk :: disk where
  "example_disk = [me_media_file example_entry \<mapsto> [1, 2, 3, 4, 5, 6, 7]]"

lemma example_playable:
  "get_media [1] example_player = (example_player, DbOk (Some (example_entry\<lparr>me_transcode_state := Skipped\<rparr>)))"
  "playable (example_entry\<lparr>me_transcode_state := Skipped\<rparr>) = Some (me_media_file example_entry)"
  "extension (me_media_file example_entry) \<noteq> Some (ascii ''m3u8'')"
  "example_disk (me_media_file example_entry) = Some [1, 2, 3, 4, 5, 6, 7]"
  by (simp_all add: example_player_def get_media_def playable_def example_entry_def example_disk_def) code_simp

theorem ranges_rebuild_file_witness:
  "body_of (snd (stream_media example_disk (\<lambda>_. True) [1] (Some (range_header 2 4)) example_player)) = [3, 4, 5]
   \<and> concat (map (\<lambda>j. body_of (snd (stream_media example_disk (\<lambda>_. True) [1] (Some (range_header (j * 3) (j * 3 + 3 - 1)))
        example_player))) [0..<div_ceil 7 3]) = [1, 2, 3, 4, 5, 6, 7]"
proof -
  have n: "length [1, 2, 3, 4, 5, 6, 7 :: u8] < 2 ^ 64" "0 < (3 :: nat)" by simp_all
  note t = ranges_rebuild_file [of "[1]" example_player example_player "example_entry\<lparr>me_transcode_state := Skipped\<rparr>"
    "me_media_file example_entry" example_disk "[1, 2, 3, 4, 5, 6, 7]" "\<lambda>_. True" 3, OF example_playable TrueI n]
  have "\<exists>hs. snd (stream_media example_disk (\<lambda>_. True) [1] (Some (range_header 2 4)) example_player)
      = Reply 206 hs (slice 2 (4 + 1) [1, 2, 3, 4, 5, 6, 7])"
    using conjunct1 [OF t, THEN spec [of _ 2], THEN spec [of _ 4]] by auto
  moreover have "slice 2 (4 + 1) [1, 2, 3, 4, 5, 6, 7 :: u8] = [3, 4, 5]" by code_simp
  ultimately have "body_of (snd (stream_media example_disk (\<lambda>_. True) [1] (Some (range_header 2 4)) example_player)) = [3, 4, 5]"
    by auto
  moreover have len: "length [1, 2, 3, 4, 5, 6, 7 :: u8] = 7" by simp
  note conjunct2 [OF t, unfolded len]
  ultimately show ?thesis ..
qed

theorem inverted_range_breaks_witness:
  "\<exists>hs len. snd (stream_media example_disk (\<lambda>_. True) [1] (Some (range_header 5 3)) example_player) = Reply 206 hs [6, 7]
    \<and> map_of hs ''content-length'' = Some (dec_nat len) \<and> 2 ^ 63 < len \<and> 7 < len"
proof -
  have n: "length [1, 2, 3, 4, 5, 6, 7 :: u8] < 2 ^ 63" "5 < length [1, 2, 3, 4, 5, 6, 7 :: u8]" "3 + 1 < (5 :: nat)" by simp_all
  note t = inverted_range_breaks [of "[1]" example_player example_player "example_entry\<lparr>me_transcode_state := Skipped\<rparr>"
    "me_media_file example_entry" example_disk "[1, 2, 3, 4, 5, 6, 7]" "\<lambda>_. True" 5 3, OF example_playable TrueI n]
  moreover have "drop 5 [1, 2, 3, 4, 5, 6, 7 :: u8] = [6, 7]" "length [1, 2, 3, 4, 5, 6, 7 :: u8] = 7" by simp_all
  ultimately show ?thesis by metis
qed

section \<open>Segments\<close>

lemma safe_name_path:
  assumes "\<not> unsafe_name n"
  shows "path_of n \<in> {[], [CurDir], [Normal n]}"
proof -
  have "slash \<notin> set n" using assms by (simp add: unsafe_name_def)
  then have split: "split_byte slash n = [n]"
    by (induction n) auto
  have "n \<noteq> ascii ''..''" using assms find_sub_exists [of n "[]" "[]"] by (auto simp: unsafe_name_def contains_sub_def)
  moreover have "\<not> (n \<noteq> [] \<and> hd n = slash)" using \<open>slash \<notin> set n\<close> by (cases n) auto
  ultimately show ?thesis using split by (auto simp: path_of_def segment_def)
qed

text \<open>
  Whatever name a request for a segment gives, the file that is served lies directly in the
  directory of the entry's output.
\<close>

theorem segment_confined:
  assumes "stream_segment disk i filename s = (s', Reply st hs body)"
  shows "\<exists>s1 e outp base p. get_media i s = (s1, DbOk (Some e)) \<and> me_transcode_state e = Ready outp
    \<and> base = (case parent outp of None \<Rightarrow> [CurDir] | Some d \<Rightarrow> d)
    \<and> disk p = Some body \<and> (p = base \<or> p = [CurDir] \<or> p = base @ [Normal filename])"
proof -
  obtain s1 e where e: "get_media i s = (s1, DbOk (Some e))"
    using assms by (auto simp: stream_segment_def split: prod.splits db.splits option.splits)
  then obtain outp where r: "me_transcode_state e = Ready outp"
    using assms by (auto simp: stream_segment_def split: transcode_state.splits)
  have dot: "path_of (ascii ''.'') = [CurDir]" by code_simp
  let ?base = "case parent outp of None \<Rightarrow> [CurDir] | Some d \<Rightarrow> d"
  let ?p = "path_join ?base (path_of filename)"
  have safe: "\<not> unsafe_name filename" and body: "disk ?p = Some body"
    using assms e r by (auto simp: stream_segment_def Let_def dot split: if_splits option.splits)
  have "?p = ?base \<or> ?p = [CurDir] \<or> ?p = ?base @ [Normal filename]"
    using safe_name_path [OF safe] by (auto simp: path_join_def is_absolute_def)
  then show ?thesis using e r body by blast
qed

definition example_segments :: store where
  "example_segments = \<lparr>db_downloads = [], db_library = [([1], Valid (example_entry\<lparr>me_transcode_state :=
     Ready [RootDir, Normal (ascii ''t''), Normal (ascii ''o'')]\<rparr>))], db_settings = None, db_ok = True\<rparr>"

theorem segment_confined_witness:
  "\<exists>p. [[RootDir, Normal (ascii ''t''), Normal (ascii ''x'')] \<mapsto> [9 :: u8]] p = Some [9] \<and>
    (p = [RootDir, Normal (ascii ''t'')] \<or> p = [CurDir] \<or> p = [RootDir, Normal (ascii ''t''), Normal (ascii ''x'')])"
proof -
  let ?disk = "[[RootDir, Normal (ascii ''t''), Normal (ascii ''x'')] \<mapsto> [9 :: u8]]"
  have p: "path_of (ascii ''x'') = [Normal (ascii ''x'')]" "\<not> unsafe_name (ascii ''x'')" by code_simp+
  have e: "get_media [1] example_segments = (example_segments, DbOk (Some (example_entry\<lparr>me_transcode_state :=
     Ready [RootDir, Normal (ascii ''t''), Normal (ascii ''o'')]\<rparr>)))"
    by (simp add: example_segments_def get_media_def)
  have "stream_segment ?disk [1] (ascii ''x'') example_segments
      = (example_segments, Reply 200 [(''content-type'', segment_type (ascii ''x''))] [9])"
    using p by (simp add: stream_segment_def e parent_def path_join_def is_absolute_def)
  from segment_confined [OF this] e show ?thesis by (auto simp: parent_def)
qed

section \<open>Subtitles\<close>

lemma split_byte_ne [simp]: "split_byte c s \<noteq> []"
  by (induction s) (auto split: list.splits)

lemma split_byte_line: "c \<notin> set a \<Longrightarrow> split_byte c (a @ c # b) = a # split_byte c b"
  by (induction a) auto

lemma lines_of_Nil [simp]: "lines_of [] = []"
  by (simp add: lines_of_def)

lemma lines_of_line: "10 \<notin> set l \<Longrightarrow> lines_of (l @ 10 # r) = strip_cr l # lines_of r"
  by (simp add: lines_of_def split_byte_line Let_def)

lemma lines_of_concat:
  "\<forall>l \<in> set ls. 10 \<notin> set (f l) \<Longrightarrow> lines_of (concat (map (\<lambda>l. f l @ [10]) ls)) = map (\<lambda>l. strip_cr (f l)) ls"
  by (induction ls) (simp_all add: lines_of_line)

lemma lines_of_no_lf: "l \<in> set (lines_of s) \<Longrightarrow> 10 \<notin> set l"
proof -
  assume l: "l \<in> set (lines_of s)"
  then obtain p where p: "p \<in> set (split_byte 10 s)" "set l \<subseteq> set p"
    by (auto simp: lines_of_def Let_def strip_cr_def dest: in_set_butlastD split: if_splits)
      (metis last_in_set split_byte_ne order_refl)
  then show ?thesis using split_byte_parts [OF p(1)] by blast
qed

lemma vtt_line_chars: "10 \<notin> set l \<Longrightarrow> 10 \<notin> set (vtt_line l)"
  by (auto simp: vtt_line_def)

lemma vtt_line_last: "l \<noteq> [] \<longrightarrow> last l \<noteq> 13 \<Longrightarrow> strip_cr (vtt_line l) = vtt_line l"
  by (auto simp: vtt_line_def strip_cr_def last_map split: if_splits)

text \<open>
  A converted subtitle file has, line by line, the header, an empty line, and the lines of the
  original in order; only lines with a time arrow change, and in them only the decimal commas.
\<close>

theorem srt_to_vtt_lines:
  assumes "\<forall>l \<in> set (lines_of srt). l \<noteq> [] \<longrightarrow> last l \<noteq> 13"
  shows "lines_of (srt_to_vtt srt) = [ascii ''WEBVTT'', []] @ map vtt_line (lines_of srt)
    \<and> (\<forall>l. length (vtt_line l) = length l \<and> (\<forall>i < length l. vtt_line l ! i \<noteq> l ! i \<longrightarrow>
        contains_sub l (ascii ''-->'') \<and> l ! i = 44 \<and> vtt_line l ! i = 46))"
proof
  have w: "10 \<notin> set (ascii ''WEBVTT'')" "strip_cr (ascii ''WEBVTT'') = ascii ''WEBVTT''" "strip_cr [] = []" by code_simp+
  have "lines_of (srt_to_vtt srt) = lines_of (ascii ''WEBVTT'' @ 10 # [] @ 10 #
      concat (map (\<lambda>l. vtt_line l @ [10]) (lines_of srt)))" by (simp add: srt_to_vtt_def)
  also have "\<dots> = [ascii ''WEBVTT'', []] @ lines_of (concat (map (\<lambda>l. vtt_line l @ [10]) (lines_of srt)))"
    using w by (simp add: lines_of_line del: append_Nil)
  also have "lines_of (concat (map (\<lambda>l. vtt_line l @ [10]) (lines_of srt))) = map (\<lambda>l. strip_cr (vtt_line l)) (lines_of srt)"
    by (rule lines_of_concat) (use lines_of_no_lf vtt_line_chars in blast)
  also have "\<dots> = map vtt_line (lines_of srt)"
    using assms by (intro map_cong refl vtt_line_last) blast
  finally show "lines_of (srt_to_vtt srt) = [ascii ''WEBVTT'', []] @ map vtt_line (lines_of srt)" .
qed (auto simp: vtt_line_def split: if_splits)

theorem srt_to_vtt_lines_witness:
  "lines_of (srt_to_vtt (ascii ''0,5 --> 1,5'' @ [13, 10] @ ascii ''a,b'')) =
    [ascii ''WEBVTT'', [], ascii ''0.5 --> 1.5'', ascii ''a,b'']"
proof -
  let ?s = "ascii ''0,5 --> 1,5'' @ [13, 10] @ ascii ''a,b''"
  have l: "lines_of ?s = [ascii ''0,5 --> 1,5'', ascii ''a,b'']"
    "map vtt_line [ascii ''0,5 --> 1,5'', ascii ''a,b''] = [ascii ''0.5 --> 1.5'', ascii ''a,b'']"
    "last (ascii ''0,5 --> 1,5'') \<noteq> 13" "last (ascii ''a,b'') \<noteq> 13" by code_simp+
  then have "\<forall>l \<in> set (lines_of ?s). l \<noteq> [] \<longrightarrow> last l \<noteq> 13" by simp
  from srt_to_vtt_lines [OF this] l show ?thesis by simp
qed

text \<open>Text that is valid is served as it is.\<close>

lemma utf8_valid_width: "utf8_valid (a # xs) \<Longrightarrow> utf8_width a \<in> {1, 2, 3, 4}"
  by (simp split: if_splits)

lemma utf8_valid_2: "utf8_width a = 2 \<Longrightarrow> utf8_valid (a # xs) \<Longrightarrow>
    \<exists>b ys. xs = b # ys \<and> utf8_second a b \<and> utf8_valid ys"
  by (cases xs) simp_all

lemma utf8_valid_3: "utf8_width a = 3 \<Longrightarrow> utf8_valid (a # xs) \<Longrightarrow>
    \<exists>b c zs. xs = b # c # zs \<and> utf8_second a b \<and> utf8_cont c \<and> utf8_valid zs"
  by (cases xs; cases "tl xs") simp_all

lemma utf8_valid_4: "utf8_width a = 4 \<Longrightarrow> utf8_valid (a # xs) \<Longrightarrow>
    \<exists>b c d ws. xs = b # c # d # ws \<and> utf8_second a b \<and> utf8_cont c \<and> utf8_cont d \<and> utf8_valid ws"
  by (cases xs; cases "tl xs"; cases "tl (tl xs)") simp_all

lemma utf8_lossy_valid: "utf8_valid s \<Longrightarrow> utf8_lossy s = s"
proof (induction s rule: length_induct)
  case (1 s)
  show ?case
  proof (cases s)
    case (Cons a xs)
    consider "utf8_width a = 1" "utf8_valid xs"
      | b ys where "utf8_width a = 2" "xs = b # ys" "utf8_second a b" "utf8_valid ys"
      | b c zs where "utf8_width a = 3" "xs = b # c # zs" "utf8_second a b" "utf8_cont c" "utf8_valid zs"
      | b c d ws where "utf8_width a = 4" "xs = b # c # d # ws" "utf8_second a b" "utf8_cont c" "utf8_cont d" "utf8_valid ws"
      using utf8_valid_width [of a xs] utf8_valid_2 [of a xs] utf8_valid_3 [of a xs] utf8_valid_4 [of a xs]
        "1.prems" [unfolded Cons] by (cases "utf8_width a = 1") (simp, blast)
    then show ?thesis
    proof cases
      case 1
      then show ?thesis using "1.IH" Cons by simp
    next
      case 2
      then have "utf8_lossy ys = ys" using "1.IH" Cons by simp
      then show ?thesis using 2 Cons by simp
    next
      case 3
      then have "utf8_lossy zs = zs" using "1.IH" Cons by simp
      then show ?thesis using 3 Cons by simp
    next
      case 4
      then have "utf8_lossy ws = ws" using "1.IH" Cons by simp
      then show ?thesis using 4 Cons by simp
    qed
  qed simp
qed

section \<open>Uploads\<close>


definition plain_text :: unicode where
  "plain_text = \<lparr>uni_alphanumeric = (\<lambda>c. False), uni_lower = (\<lambda>before c after. c)\<rparr>"

definition example_track :: subtitle_track where
  "example_track = \<lparr>sub_label = ascii ''x'', sub_language = None,
     sub_path = [RootDir, Normal (ascii ''home''), Normal (ascii ''u''), Normal (ascii ''a.uploaded0.srt'')],
     sub_format = ascii ''srt''\<rparr>"

text \<open>Two videos \<open>a.mkv\<close> and \<open>a.mp4\<close> of one directory; the second has an uploaded subtitle.\<close>

definition example_uploads :: store where
  "example_uploads = \<lparr>db_downloads = [],
     db_library = [([1], Valid (example_entry\<lparr>me_id := [1], me_subtitles := []\<rparr>)),
       ([2], Valid (example_entry\<lparr>me_id := [2], me_subtitles := [example_track],
          me_media_file := [RootDir, Normal (ascii ''home''), Normal (ascii ''u''), Normal (ascii ''a.mp4'')]\<rparr>))],
     db_settings = None, db_ok = True\<rparr>"


end
