(* ===== verification/Settings.thy ===== *)
theory Settings
  imports Library_Api
begin

text \<open>
  The settings (\<open>web/api/settings.rs\<close>): what the browser sees of them, how a change is checked, and
  the migration of the media files to another directory; and the repairs of stored directories at
  start-up (\<open>main.rs\<close>).
\<close>

section \<open>Reading and changing\<close>

record public_settings =
  pu_lightspeed :: bool
  pu_max_download_speed :: u64
  pu_download_dir :: pathbuf
  pu_media_scan_dir :: "pathbuf option"
  pu_auto_transcode :: bool
  pu_default_preset :: bytes
  pu_transcode_concurrency :: nat
  pu_transcode_dir :: pathbuf
  pu_delete_source_after_transcode :: bool

definition read_settings :: "host \<Rightarrow> store \<Rightarrow> public_settings" where
  "read_settings h s = (let a = get_settings h s in
     \<lparr>pu_lightspeed = as_lightspeed a, pu_max_download_speed = as_max_download_speed a,
      pu_download_dir = as_download_dir a, pu_media_scan_dir = as_media_scan_dir a,
      pu_auto_transcode = as_auto_transcode a, pu_default_preset = as_default_preset a,
      pu_transcode_concurrency = as_transcode_concurrency a, pu_transcode_dir = as_transcode_dir a,
      pu_delete_source_after_transcode = as_delete_source_after_transcode a\<rparr>)"

definition dirs_valid :: "host \<Rightarrow> app_settings \<Rightarrow> bool" where
  "dirs_valid h a \<longleftrightarrow> validate_config_dir h (as_download_dir a) = Inr ()
     \<and> validate_config_dir h (as_transcode_dir a) = Inr ()
     \<and> (case as_media_scan_dir a of None \<Rightarrow> True | Some d \<Rightarrow> validate_config_dir h d = Inr ())"

definition change_settings :: "host \<Rightarrow> app_settings \<Rightarrow> store \<Rightarrow> store \<times> (api_error + unit)" where
  "change_settings h a s =
     (if \<not> dirs_valid h a then (s, Inl BadRequest)
      else (let existing = get_settings h s;
                a1 = (if as_tmdb_api_key a = [] then a\<lparr>as_tmdb_api_key := as_tmdb_api_key existing\<rparr> else a) in
        case put_settings a1 s of (s1, DbOk _) \<Rightarrow> (s1, Inr ()) | (s1, DbErr) \<Rightarrow> (s1, Inl Internal)))"

section \<open>Moving one file\<close>

text \<open>
  What the system answers to a rename, a copy and the creation of a directory is a parameter. A file
  that is renamed takes its place alone, a directory takes what is below it along.
\<close>

record move_env =
  mv_rename :: "pathbuf \<Rightarrow> pathbuf \<Rightarrow> bool"
  mv_copy :: "pathbuf \<Rightarrow> pathbuf \<Rightarrow> bool"
  mv_mkdir :: "pathbuf \<Rightarrow> bool"
  mv_ls :: "host \<Rightarrow> pathbuf \<Rightarrow> bytes list option"
  mv_empty :: "host \<Rightarrow> pathbuf \<Rightarrow> bool"

datatype move_result = Moved pathbuf u64 | AlreadyThere | SourceMissing | MoveFailed

definition under_new :: "pathbuf \<Rightarrow> pathbuf \<Rightarrow> (pathbuf \<Rightarrow> 'a) \<Rightarrow> 'a \<Rightarrow> pathbuf \<Rightarrow> 'a" where
  "under_new src dest f none q =
     (if path_starts_with q dest then f (src @ drop (length dest) q)
      else if path_starts_with q src then none else f q)"

definition rename_path :: "pathbuf \<Rightarrow> pathbuf \<Rightarrow> host \<Rightarrow> host" where
  "rename_path src dest h =
     (if is_file h src then h\<lparr>h_files := (h_files h)(src := None, dest := h_files h src)\<rparr>
      else h\<lparr>h_files := under_new src dest (h_files h) None, h_dirs := under_new src dest (h_dirs h) False\<rparr>)"

definition copy_path :: "pathbuf \<Rightarrow> pathbuf \<Rightarrow> host \<Rightarrow> host" where
  "copy_path src dest h =
     (let h1 = h\<lparr>h_files := (h_files h)(dest := h_files h src)\<rparr> in
      case remove_file src h1 of None \<Rightarrow> h1 | Some h2 \<Rightarrow> h2)"

definition move_file :: "move_env \<Rightarrow> pathbuf \<Rightarrow> pathbuf \<Rightarrow> host \<Rightarrow> host \<times> move_result" where
  "move_file env dest_dir src h =
     (if \<not> path_exists h src then (h, SourceMissing)
      else case file_name src of
        None \<Rightarrow> (h, MoveFailed)
      | Some n \<Rightarrow>
          (let dest = path_join dest_dir [Normal n] in
           if dest = src \<or> path_exists h dest then (h, AlreadyThere)
           else (let sz = size_or_0 h src in
             if mv_rename env src dest then (rename_path src dest h, Moved dest sz)
             else if is_file h src \<and> mv_copy env src dest then (copy_path src dest h, Moved dest sz)
             else (h, MoveFailed))))"

section \<open>Moving the files of an entry\<close>

text \<open>The host, the number of files and bytes moved, and whether the entry changed.\<close>

record migration =
  mi_host :: host
  mi_moved :: nat
  mi_bytes :: u64
  mi_changed :: bool

definition note_move :: "nat \<Rightarrow> host \<Rightarrow> u64 \<Rightarrow> migration \<Rightarrow> migration" where
  "note_move k h sz m = m\<lparr>mi_host := h, mi_moved := mi_moved m + k,
     mi_bytes := mi_bytes m + (if k = 0 then 0 else sz), mi_changed := True\<rparr>"

definition migrate_version ::
  "move_env \<Rightarrow> pathbuf \<Rightarrow> bytes \<times> pathbuf \<Rightarrow> migration \<times> (bytes \<times> pathbuf) list \<Rightarrow> migration \<times> (bytes \<times> pathbuf) list" where
  "migrate_version env dir = (\<lambda>(name, p) (m, live). case move_file env dir p (mi_host m) of
       (h, Moved q sz) \<Rightarrow> (note_move 1 h sz m, hm_insert name q live)
     | (h, AlreadyThere) \<Rightarrow> (m, hm_insert name p live)
     | (h, _) \<Rightarrow> (m\<lparr>mi_changed := True\<rparr>, live))"

definition migrate_transcoded :: "move_env \<Rightarrow> pathbuf \<Rightarrow> migration \<times> media_entry \<Rightarrow> migration \<times> media_entry" where
  "migrate_transcoded env dir = (\<lambda>(m, e). case me_transcoded_path e of
       None \<Rightarrow> (m, e)
     | Some tp \<Rightarrow> (case move_file env dir tp (mi_host m) of
           (h, Moved q sz) \<Rightarrow> (note_move 1 h sz m, e\<lparr>me_transcoded_path := Some q\<rparr>)
         | (h, AlreadyThere) \<Rightarrow> (m, e)
         | (h, _) \<Rightarrow> (case me_versions e of
               [] \<Rightarrow> (m, e)
             | (_, v) # _ \<Rightarrow> (m\<lparr>mi_changed := True\<rparr>, e\<lparr>me_transcoded_path := Some v\<rparr>))))"

definition migrate_subtitle ::
  "move_env \<Rightarrow> pathbuf \<Rightarrow> subtitle_track \<Rightarrow> migration \<times> subtitle_track list \<Rightarrow> migration \<times> subtitle_track list" where
  "migrate_subtitle env dir t = (\<lambda>(m, live). case move_file env dir (sub_path t) (mi_host m) of
       (h, Moved q sz) \<Rightarrow> (note_move 0 h sz m, live @ [t\<lparr>sub_path := q\<rparr>])
     | (h, AlreadyThere) \<Rightarrow> (m, live @ [t])
     | (h, _) \<Rightarrow> (m\<lparr>mi_changed := True\<rparr>, live))"

definition migrate_media_file :: "move_env \<Rightarrow> pathbuf \<Rightarrow> migration \<times> media_entry \<Rightarrow> migration \<times> media_entry" where
  "migrate_media_file env dir = (\<lambda>(m, e). case move_file env dir (me_media_file e) (mi_host m) of
       (h, Moved q sz) \<Rightarrow> (note_move 1 h sz m, e\<lparr>me_media_file := q\<rparr>)
     | (h, AlreadyThere) \<Rightarrow> (m, e)
     | (h, _) \<Rightarrow> (case me_versions e of
           [] \<Rightarrow> (m, e)
         | (_, v) # _ \<Rightarrow> (m\<lparr>mi_changed := True\<rparr>, e\<lparr>me_media_file := v\<rparr>)))"

definition migrate_entry :: "move_env \<Rightarrow> pathbuf \<Rightarrow> media_entry \<Rightarrow> migration \<Rightarrow> migration \<times> media_entry" where
  "migrate_entry env dir e m =
     (let (m1, versions) = fold (migrate_version env dir) (me_versions e) (m\<lparr>mi_changed := False\<rparr>, []);
          (m2, e2) = migrate_transcoded env dir (m1, e\<lparr>me_versions := versions\<rparr>);
          (m3, subs) = fold (migrate_subtitle env dir) (me_subtitles e2) (m2, []) in
      migrate_media_file env dir (m3, e2\<lparr>me_subtitles := subs\<rparr>))"

definition migrate_one ::
  "move_env \<Rightarrow> pathbuf \<Rightarrow> media_entry \<Rightarrow> store \<times> migration \<times> nat \<Rightarrow> store \<times> migration \<times> nat" where
  "migrate_one env dir e = (\<lambda>(s, m, errors). case migrate_entry env dir e m of
       (m1, e1) \<Rightarrow>
         if mi_changed m1
         then (case put_media e1 s of (s1, DbOk _) \<Rightarrow> (s1, m1, errors) | (s1, DbErr) \<Rightarrow> (s1, m1, errors + 1))
         else (s, m1, errors))"

section \<open>The migration\<close>

definition moviehouse :: component where
  "moviehouse = Normal (ascii ''moviehouse'')"

definition migration_dir :: "pathbuf \<Rightarrow> pathbuf" where
  "migration_dir base =
     (if file_name base = Some (ascii ''moviehouse'') then base else path_join base [moviehouse])"

text \<open>The files that are left in the old directory, one by one.\<close>

definition migrate_rest :: "move_env \<Rightarrow> pathbuf \<Rightarrow> pathbuf \<Rightarrow> bytes \<Rightarrow> migration \<Rightarrow> migration" where
  "migrate_rest env old_dir dir n m =
     (let p = path_join old_dir [Normal n] in
      if is_file (mi_host m) p
      then (case move_file env dir p (mi_host m) of
          (h, Moved _ sz) \<Rightarrow> note_move 1 h sz m
        | _ \<Rightarrow> m)
      else m)"

definition migrate_media ::
  "move_env \<Rightarrow> pathbuf \<Rightarrow> store \<times> host \<Rightarrow> (store \<times> host) \<times> (api_error + nat \<times> u64 \<times> nat)" where
  "migrate_media env base = (\<lambda>(s, h).
     case confine h base of
       Inl _ \<Rightarrow> ((s, h), Inl BadRequest)
     | Inr _ \<Rightarrow>
         (let new_dir = migration_dir base in
          if \<not> mv_mkdir env new_dir then ((s, h), Inl BadRequest)
          else
            (let h1 = create_dir_all new_dir h;
                 (s1, es) = media_or_none s;
                 (s2, m2, errors) = fold (migrate_one env new_dir) es
                   (s1, \<lparr>mi_host = h1, mi_moved = 0, mi_bytes = 0, mi_changed = False\<rparr>, 0);
                 settings = get_settings (mi_host m2) s2;
                 old_dir = as_transcode_dir settings;
                 m3 = (if old_dir \<noteq> new_dir \<and> path_exists (mi_host m2) old_dir
                   then (let m = fold (migrate_rest env old_dir new_dir)
                             (case mv_ls env (mi_host m2) old_dir of None \<Rightarrow> [] | Some ns \<Rightarrow> ns) m2 in
                         m\<lparr>mi_host := remove_dir (mv_empty env) old_dir (mi_host m)\<rparr>)
                   else m2) in
             ((fst (put_settings (settings\<lparr>as_transcode_dir := new_dir\<rparr>) s2), mi_host m3),
              Inr (mi_moved m3, mi_bytes m3, errors)))))"

section \<open>Repairs at start-up\<close>

definition repair_record :: "pathbuf \<Rightarrow> download_record \<Rightarrow> store \<Rightarrow> store" where
  "repair_record dir r s =
     (if dr_output_dir r = path_of (ascii ''.'') then fst (put_download (r\<lparr>dr_output_dir := dir\<rparr>) s) else s)"

definition repair_legacy_dirs :: "host \<Rightarrow> store \<Rightarrow> store" where
  "repair_legacy_dirs h s =
     (let a = get_settings h s;
          legacy = as_download_dir a = path_of (ascii ''.'');
          want = default_download_dir h;
          a1 = (if legacy then a\<lparr>as_download_dir := want\<rparr> else a);
          fallback = home_movies_subdir h ''transcoded'';
          want_transcode = default_transcode_dir h;
          repair_transcode = (as_transcode_dir a1 = fallback \<and> want_transcode \<noteq> fallback);
          a2 = (if repair_transcode then a1\<lparr>as_transcode_dir := want_transcode\<rparr> else a1) in
      if \<not> legacy \<and> \<not> repair_transcode then s
      else case put_settings a2 s of
          (s1, DbErr) \<Rightarrow> s1
        | (s1, DbOk _) \<Rightarrow>
            if \<not> legacy then s1
            else (case list_downloads s1 of
                (s2, DbErr) \<Rightarrow> s2
              | (s2, DbOk rs) \<Rightarrow> fold (repair_record want) rs s2))"

text \<open>Both directories are created and a file is written and removed in each, or the start fails.\<close>

definition ensure_dir :: "move_env \<Rightarrow> (pathbuf \<Rightarrow> bool) \<Rightarrow> pathbuf \<Rightarrow> host \<Rightarrow> host option" where
  "ensure_dir env writable dir h =
     (if \<not> mv_mkdir env dir then None
      else (let h1 = create_dir_all dir h; probe = path_join dir [Normal (ascii ''.moviehouse-write-test'')] in
        if \<not> writable probe then None
        else (let h2 = write_file probe (Some 0) h1 in
          Some (case remove_file probe h2 of None \<Rightarrow> h2 | Some h3 \<Rightarrow> h3))))"

definition ensure_media_dirs :: "move_env \<Rightarrow> (pathbuf \<Rightarrow> bool) \<Rightarrow> store \<Rightarrow> host \<Rightarrow> host option" where
  "ensure_media_dirs env writable s h =
     (let a = get_settings h s in
      Option.bind (ensure_dir env writable (as_download_dir a) h) (ensure_dir env writable (as_transcode_dir a)))"

section \<open>Configuration\<close>

definition pick :: "bytes option \<Rightarrow> bytes option \<Rightarrow> bytes option" where
  "pick env_val file_val = (case env_val of Some v \<Rightarrow> if v \<noteq> [] then Some v else file_val | None \<Rightarrow> file_val)"

text \<open>The lines of the \<open>.env\<close> file; a later line for a key replaces an earlier one.\<close>

definition config_line :: "bytes \<Rightarrow> (bytes \<times> bytes) list \<Rightarrow> (bytes \<times> bytes) list" where
  "config_line raw vals =
     (let line = trim raw in
      if line = [] \<or> starts_with line (ascii ''#'') then vals
      else case split_once 61 line of None \<Rightarrow> vals | Some (k, v) \<Rightarrow> hm_insert (trim k) (trim v) vals)"

definition config_value :: "host \<Rightarrow> bytes list option \<Rightarrow> string \<Rightarrow> bytes" where
  "config_value h file_lines key =
     (let vals = (case file_lines of None \<Rightarrow> [] | Some ls \<Rightarrow> fold config_line ls []) in
      case pick (h_env h (ascii key)) (map_of vals (ascii key)) of None \<Rightarrow> [] | Some v \<Rightarrow> v)"

end
