(* ===== verification/Library_Correct.thy ===== *)
theory Library_Correct
  imports Library_Api
begin

text \<open>
  What the requests about the library do to it and to the host: repairs rewrite exactly the entries
  they find stale, the clean-up of sources deletes exactly the redundant ones (without asking whether
  their output exists), and the groups are a partition of the library in order.
\<close>

section \<open>Rewriting the entries of a library\<close>

lemma valid_ids_distinct:
  assumes "library_ok s"
  shows "distinct (map me_id (valid_values (db_library s)))"
proof -
  have "map me_id (valid_values t) = map fst (drop_corrupt t)"
    if "\<forall>(i, v) \<in> set t. \<forall>e. v = Valid e \<longrightarrow> me_id e = i" for t
    using that by (induction t)
      (auto simp: valid_values_def drop_corrupt_def map_filter_Cons List.map_filter_simps split: stored.splits)
  moreover have "\<forall>(i, v) \<in> set (db_library s). \<forall>e. v = Valid e \<longrightarrow> me_id e = i"
    using assms by (auto simp: library_ok_def bt_wf_distinct)
  ultimately have "map me_id (valid_values (db_library s)) = map fst (drop_corrupt (db_library s))" by blast
  then show ?thesis
    using assms by (simp add: library_ok_def drop_corrupt_def distinct_map_filter bt_wf_distinct)
qed

lemma listed_entry:
  "library_ok s \<Longrightarrow> e \<in> set (valid_values (db_library s)) \<longleftrightarrow> entry_of s (me_id e) = Some e"
  by (subst listed_media) (auto simp: entry_of_def split: option.splits stored.splits)

lemma entry_id: "library_ok s \<Longrightarrow> entry_of s i = Some e \<Longrightarrow> me_id e = i"
  by (auto simp: library_ok_def entry_of_def split: option.splits stored.splits)

lemma map_of_rewritten:
  assumes "distinct (map me_id es)" and "\<And>e e'. f e = Some e' \<Longrightarrow> me_id e' = me_id e"
  shows "map_of (map (\<lambda>e. (me_id e, e)) (List.map_filter f es)) i =
    Option.bind (List.find (\<lambda>e. me_id e = i) es) f"
  using assms(1)
proof (induction es)
  case (Cons e es)
  show ?case
  proof (cases "me_id e = i")
    case True
    then have "i \<notin> me_id ` set es" using Cons.prems by auto
    then have "List.find (\<lambda>e. me_id e = i) es = None" by (auto simp: find_None_iff)
    then show ?thesis
      using Cons True assms(2) by (auto simp: map_filter_Cons split: option.splits)
  next
    case False
    then show ?thesis using Cons assms(2) by (auto simp: map_filter_Cons split: option.splits)
  qed
qed (simp add: List.map_filter_simps)

lemma find_listed:
  assumes "library_ok s"
  shows "List.find (\<lambda>e. me_id e = i) (valid_values (db_library s)) = entry_of s i"
proof (cases "entry_of s i")
  case None
  then have "\<forall>e \<in> set (valid_values (db_library s)). me_id e \<noteq> i" using listed_entry [OF assms] by auto
  with None show ?thesis by (simp add: find_None_iff)
next
  case (Some e)
  then have i: "me_id e = i" by (rule entry_id [OF assms])
  then have "e \<in> set (valid_values (db_library s))" using Some listed_entry [OF assms] by simp
  then obtain x where x: "List.find (\<lambda>e. me_id e = i) (valid_values (db_library s)) = Some x"
    using i by (metis (mono_tags, lifting) find_None_iff not_None_eq)
  then have "x \<in> set (valid_values (db_library s))" "me_id x = i"
    by (auto simp: find_Some_iff in_set_conv_nth)
  then show ?thesis using x Some listed_entry [OF assms, of x] by simp
qed

lemma distinct_rewritten:
  assumes "distinct (map me_id es)" and "\<And>e e'. f e = Some e' \<Longrightarrow> me_id e' = me_id e"
  shows "distinct (map me_id (List.map_filter f es))"
proof -
  have "set (map me_id (List.map_filter f es)) \<subseteq> set (map me_id es)" for es
    using assms(2) by (auto simp: map_filter_def)
  then show ?thesis using assms
    by (induction es) (auto simp: map_filter_Cons List.map_filter_simps split: option.splits)
qed

text \<open>Writing back some entries of a library, each under its own id.\<close>

lemma entry_of_rewrite:
  assumes "library_ok s" and "db_ok s" and f: "\<And>e e'. f e = Some e' \<Longrightarrow> me_id e' = me_id e"
  shows "entry_of (put_all (List.map_filter f (valid_values (db_library s))) (fst (list_media s))) i =
    map_option (\<lambda>e. case f e of None \<Rightarrow> e | Some e' \<Rightarrow> e') (entry_of s i)"
proof -
  let ?es = "valid_values (db_library s)"
  have wf: "bt_wf (db_library s)" using assms(1) by (simp add: library_ok_def)
  have ok: "db_ok (fst (list_media s))" using assms(2) by (simp add: list_media_def)
  have d: "distinct (map me_id ?es)" by (rule valid_ids_distinct [OF assms(1)])
  have "entry_of (put_all (List.map_filter f ?es) (fst (list_media s))) i =
      (entry_of s ++ map_of (map (\<lambda>e. (me_id e, e)) (List.map_filter f ?es))) i"
    by (simp add: entry_of_put_all [OF ok distinct_rewritten [OF d f]] entry_of_list_media [OF wf assms(2)])
  also have "\<dots> = map_option (\<lambda>e. case f e of None \<Rightarrow> e | Some e' \<Rightarrow> e') (entry_of s i)"
    by (auto simp: map_add_def map_of_rewritten [OF d f] find_listed [OF assms(1)] split: option.splits bind_split)
  finally show ?thesis .
qed

lemma media_or_none_ok: "db_ok s \<Longrightarrow> media_or_none s = (fst (list_media s), valid_values (db_library s))"
  by (simp add: media_or_none_def list_media_def)

section \<open>Stale paths\<close>

lemma fold_fix_one:
  "fold (fix_one h) es (s, n) = (put_all (List.map_filter (fixed_entry h) es) s, n + length (List.map_filter (fixed_entry h) es))"
  by (induction es arbitrary: s n) (auto simp: fix_one_def map_filter_Cons List.map_filter_simps split: option.splits)

lemma fixed_entry_id: "fixed_entry h e = Some e' \<Longrightarrow> me_id e' = me_id e"
  by (auto simp: fixed_entry_def Let_def split: if_splits list.splits)

text \<open>
  A repair rewrites exactly the entries whose media file is gone and that have a version, to that
  version, whether or not its file exists; all others stay.
\<close>

theorem fix_paths_exact:
  assumes "library_ok s" and "db_ok s" and "fix_paths h s = (s', n)"
  shows "entry_of s' i = map_option (\<lambda>e. case fixed_entry h e of None \<Rightarrow> e | Some e' \<Rightarrow> e') (entry_of s i)"
    and "n = length (filter (\<lambda>e. fixed_entry h e \<noteq> None) (valid_values (db_library s)))"
proof -
  have r: "s' = put_all (List.map_filter (fixed_entry h) (valid_values (db_library s))) (fst (list_media s))"
    "n = length (List.map_filter (fixed_entry h) (valid_values (db_library s)))"
    using assms(3) by (simp_all add: fix_paths_def media_or_none_ok [OF assms(2)] fold_fix_one)
  show "entry_of s' i = map_option (\<lambda>e. case fixed_entry h e of None \<Rightarrow> e | Some e' \<Rightarrow> e') (entry_of s i)"
    unfolding r by (rule entry_of_rewrite [OF assms(1,2) fixed_entry_id])
  show "n = length (filter (\<lambda>e. fixed_entry h e \<noteq> None) (valid_values (db_library s)))"
    unfolding r by (simp add: map_filter_def)
qed

section \<open>Sources\<close>

text \<open>The entry as the clean-up leaves it, and the files it takes.\<close>

definition repointed :: "media_entry \<Rightarrow> media_entry option" where
  "repointed e = map_option (\<lambda>(src, out). e\<lparr>me_media_file := out\<rparr>) (reclaimable e)"

definition removable :: "host \<Rightarrow> pathbuf \<Rightarrow> bool" where
  "removable h p \<longleftrightarrow> is_absolute p \<and> ParentDir \<notin> set p \<and> allowed_location h (h_real h p) \<and> \<not> h_stuck h p"

definition root_paths :: "host \<Rightarrow> pathbuf list" where
  "root_paths h = (case h_home h of None \<Rightarrow> [] | Some d \<Rightarrow> [d])
     @ map (\<lambda>s. path_of (ascii s)) [''/media'', ''/mnt'', ''/Volumes'', ''/data'', ''/srv'']"

text \<open>Two hosts that agree on everything a deletion looks at but the files.\<close>

definition same_roots :: "host \<Rightarrow> host \<Rightarrow> bool" where
  "same_roots h h' \<longleftrightarrow> h_home h' = h_home h \<and> h_real h' = h_real h \<and> h_stuck h' = h_stuck h
     \<and> (\<forall>d \<in> set (root_paths h). h_dirs h' d = h_dirs h d)"

lemma same_roots_trans: "same_roots h h1 \<Longrightarrow> same_roots h1 h2 \<Longrightarrow> same_roots h h2"
  by (auto simp: same_roots_def root_paths_def)

lemma deletable_removable: "deletable h p \<longleftrightarrow> is_file h p \<and> removable h p"
  by (auto simp: deletable_def removable_def)

lemma same_roots_ok: "same_roots h h' \<Longrightarrow> host_ok h \<Longrightarrow> host_ok h'"
  by (auto simp: same_roots_def host_ok_def root_paths_def)

lemma allowed_dirs:
  assumes "host_ok h"
  shows "allowed_location h q \<longleftrightarrow> (\<exists>root \<in> set (root_paths h). h_dirs h root \<and> (\<exists>rest. q = h_real h root @ rest))"
proof -
  have "root \<in> set (allowed_roots h) \<and> path_exists h root \<longleftrightarrow> root \<in> set (root_paths h) \<and> h_dirs h root" for root
    using assms by (cases "h_home h")
      (auto simp: allowed_roots_def root_paths_def host_ok_def path_exists_def simp del: list.map filter.simps)
  then show ?thesis unfolding allowed_location_def by blast
qed

lemma removable_same: "same_roots h h' \<Longrightarrow> host_ok h \<Longrightarrow> removable h' p \<longleftrightarrow> removable h p"
  using allowed_dirs [of h "h_real h p"] allowed_dirs [OF same_roots_ok, of h h' "h_real h p"]
  by (auto simp: removable_def same_roots_def root_paths_def split: option.splits)

lemma remove_one_source:
  assumes "host_ok h" and "path_wf p" and "remove_files [p] h = (h', n, b)"
  shows "h_files h' = (\<lambda>q. if q = p \<and> removable h p then None else h_files h q)" and "same_roots h h'"
  using assms by (auto simp: remove_files_def remove_one_cases deletable_removable is_file_def fun_eq_iff same_roots_def
      split: if_splits)

text \<open>The home directory and the mounts are never empty.\<close>

definition roots_busy :: "(host \<Rightarrow> pathbuf \<Rightarrow> bool) \<Rightarrow> host \<Rightarrow> bool" where
  "roots_busy is_empty h \<longleftrightarrow> (\<forall>h' d. h_home h' = h_home h \<longrightarrow> d \<in> set (root_paths h) \<longrightarrow> \<not> is_empty h' d)"

lemma remove_dir_same:
  "roots_busy is_empty h0 \<Longrightarrow> h_home h = h_home h0 \<Longrightarrow> h_files (remove_dir is_empty d h) = h_files h \<and> same_roots h (remove_dir is_empty d h)"
  by (auto simp: remove_dir_def same_roots_def roots_busy_def root_paths_def)

lemma cleanup_parent_same:
  "roots_busy is_empty h0 \<Longrightarrow> h_home h = h_home h0 \<Longrightarrow>
    h_files (fst (cleanup_parent is_empty p (h, c))) = h_files h \<and> same_roots h (fst (cleanup_parent is_empty p (h, c)))"
  using remove_dir_same [of is_empty h0 h] by (auto simp: cleanup_parent_def same_roots_def split: option.splits)

definition sources_of :: "media_entry list \<Rightarrow> pathbuf set" where
  "sources_of es = {src. \<exists>e \<in> set es. \<exists>out. reclaimable e = Some (src, out)}"

lemma sources_of_Cons:
  "sources_of (e # es) = (case reclaimable e of None \<Rightarrow> {} | Some (src, _) \<Rightarrow> {src}) \<union> sources_of es"
  by (auto simp: sources_of_def split: option.splits)

lemma repointed_id: "repointed e = Some e' \<Longrightarrow> me_id e' = me_id e"
  by (auto simp: repointed_def)

lemma cleanup_one_spec:
  assumes "db_ok s" and "host_ok h" and "roots_busy is_empty h0" and "h_home h = h_home h0"
    and "reclaimable e = Some (src, out)" and "path_wf src"
  shows "\<exists>h1 c1. cleanup_one is_empty e (s, h, c) = (fst (put_media (e\<lparr>me_media_file := out\<rparr>) s), h1, c1)
    \<and> h_files h1 = (\<lambda>q. if q = src \<and> removable h src then None else h_files h q) \<and> same_roots h h1"
proof -
  obtain hr n b where r: "remove_files [src] h = (hr, n, b)" by (cases "remove_files [src] h") auto
  note one = remove_one_source [OF assms(2,6) r]
  have home: "h_home hr = h_home h0" using one(2) assms(4) by (simp add: same_roots_def)
  obtain s1 where s1: "put_media (e\<lparr>me_media_file := out\<rparr>) s = (s1, DbOk ())"
    using assms(1) by (simp add: put_media_def)
  let ?c = "c\<lparr>cc_deleted := cc_deleted c + n, cc_freed := cc_freed c + b,
     cc_errors := cc_errors c + (if path_exists h src \<and> n = 0 then 1 else 0)\<rparr>"
  obtain h1 c1 where p: "cleanup_parent is_empty src (hr, ?c) = (h1, c1)" by fastforce
  have "h_files h1 = h_files hr \<and> same_roots hr h1"
    using cleanup_parent_same [OF assms(3) home, of src ?c] p by simp
  moreover have "cleanup_one is_empty e (s, h, c) = (s1, h1, c1)"
    using assms(5) s1 r p by (simp add: cleanup_one_def Let_def)
  ultimately show ?thesis using one s1 same_roots_trans by auto
qed

lemma cleanup_fold:
  assumes "roots_busy is_empty h0" and "host_ok h0"
  shows "db_ok s \<Longrightarrow> same_roots h0 h \<Longrightarrow> \<forall>p \<in> sources_of es. path_wf p \<Longrightarrow>
    \<exists>h' c'. fold (cleanup_one is_empty) es (s, h, c) = (put_all (List.map_filter repointed es) s, h', c')
      \<and> same_roots h0 h'
      \<and> h_files h' = (\<lambda>q. if q \<in> sources_of es \<and> removable h0 q then None else h_files h q)"
proof (induction es arbitrary: s h c)
  case Nil
  then show ?case by (simp add: sources_of_def List.map_filter_simps)
next
  case (Cons e es)
  have ok: "host_ok h" by (rule same_roots_ok [OF Cons.prems(2) assms(2)])
  have home: "h_home h = h_home h0" using Cons.prems(2) by (simp add: same_roots_def)
  show ?case
  proof (cases "reclaimable e")
    case None
    then have "cleanup_one is_empty e (s, h, c) = (s, h, c)" "List.map_filter repointed (e # es) = List.map_filter repointed es"
      "sources_of (e # es) = sources_of es"
      by (simp_all add: cleanup_one_def repointed_def map_filter_Cons sources_of_Cons)
    then show ?thesis using Cons.IH [of s h c] Cons.prems by simp
  next
    case (Some r)
    obtain src out where r: "reclaimable e = Some (src, out)" using Some by (cases r) auto
    have srcs: "sources_of (e # es) = insert src (sources_of es)" using r by (simp add: sources_of_Cons)
    obtain h1 c1 where one: "cleanup_one is_empty e (s, h, c) = (fst (put_media (e\<lparr>me_media_file := out\<rparr>) s), h1, c1)"
      "h_files h1 = (\<lambda>q. if q = src \<and> removable h src then None else h_files h q)" "same_roots h h1"
      using cleanup_one_spec [OF Cons.prems(1) ok assms(1) home r, of c] Cons.prems(3) srcs by auto
    have roots: "same_roots h0 h1" by (rule same_roots_trans [OF Cons.prems(2) one(3)])
    have rem: "removable h src \<longleftrightarrow> removable h0 src" by (rule removable_same [OF Cons.prems(2) assms(2)])
    let ?s = "fst (put_media (e\<lparr>me_media_file := out\<rparr>) s)"
    obtain h' c' where rest: "fold (cleanup_one is_empty) es (?s, h1, c1) = (put_all (List.map_filter repointed es) ?s, h', c')"
      "same_roots h0 h'" "h_files h' = (\<lambda>q. if q \<in> sources_of es \<and> removable h0 q then None else h_files h1 q)"
      using Cons.IH [of ?s h1 c1] Cons.prems roots srcs by auto
    have "List.map_filter repointed (e # es) = e\<lparr>me_media_file := out\<rparr> # List.map_filter repointed es"
      using r by (simp add: map_filter_Cons repointed_def)
    then show ?thesis using one rest rem srcs by (auto simp: fun_eq_iff)
  qed
qed

lemma cleanup_sources_spec:
  assumes "library_ok s" and "db_ok s" and "host_ok h" and "roots_busy is_empty h"
    and "\<forall>i e. entry_of s i = Some e \<longrightarrow> path_wf (me_media_file e)"
    and "cleanup_sources is_empty (s, h) = (s', h', c)"
  shows "(\<forall>p. is_file h' p \<longleftrightarrow> is_file h p \<and>
        \<not> (removable h p \<and> (\<exists>i e out. entry_of s i = Some e \<and> reclaimable e = Some (p, out))))
    \<and> (\<forall>i. entry_of s' i = map_option (\<lambda>e. case reclaimable e of
        None \<Rightarrow> e | Some (src, out) \<Rightarrow> e\<lparr>me_media_file := out\<rparr>) (entry_of s i))"
proof -
  let ?es = "valid_values (db_library s)"
  have src: "src = me_media_file e" if "reclaimable e = Some (src, out)" for e src out
    using that by (auto simp: reclaimable_def redundant_source_def Let_def split: option.splits if_splits)
  have listed: "e \<in> set ?es \<longleftrightarrow> entry_of s (me_id e) = Some e" for e by (rule listed_entry [OF assms(1)])
  have "\<forall>p \<in> sources_of ?es. path_wf p" using assms(5) listed src by (fastforce simp: sources_of_def)
  moreover have "db_ok (fst (list_media s))" using assms(2) by (simp add: list_media_def)
  moreover have "same_roots h h" by (simp add: same_roots_def)
  ultimately obtain h2 c2 where f: "fold (cleanup_one is_empty) ?es (fst (list_media s), h,
        \<lparr>cc_deleted = 0, cc_freed = 0, cc_errors = 0, cc_dirs = []\<rparr>)
      = (put_all (List.map_filter repointed ?es) (fst (list_media s)), h2, c2)"
    and h2: "h_files h2 = (\<lambda>q. if q \<in> sources_of ?es \<and> removable h q then None else h_files h q)" "same_roots h h2"
    using cleanup_fold [OF assms(4,3)] by blast
  have s': "s' = put_all (List.map_filter repointed ?es) (fst (list_media s))" and files: "h_files h' = h_files h2"
    using assms(6) f by (auto simp: cleanup_sources_def media_or_none_ok [OF assms(2)] Let_def remove_dir_def split: if_splits)
  have "p \<in> sources_of ?es \<longleftrightarrow> (\<exists>i e out. entry_of s i = Some e \<and> reclaimable e = Some (p, out))" for p
    using listed entry_id [OF assms(1)] by (force simp: sources_of_def)
  then have "\<forall>p. is_file h' p \<longleftrightarrow> is_file h p \<and>
      \<not> (removable h p \<and> (\<exists>i e out. entry_of s i = Some e \<and> reclaimable e = Some (p, out)))"
    by (auto simp: is_file_def files h2)
  moreover have "entry_of s' i = map_option (\<lambda>e. case reclaimable e of
      None \<Rightarrow> e | Some (src, out) \<Rightarrow> e\<lparr>me_media_file := out\<rparr>) (entry_of s i)" for i
  proof -
    have "(case repointed e of None \<Rightarrow> e | Some e' \<Rightarrow> e') = (case reclaimable e of
        None \<Rightarrow> e | Some (src, out) \<Rightarrow> e\<lparr>me_media_file := out\<rparr>)" for e
      by (auto simp: repointed_def split: option.splits)
    then show ?thesis using entry_of_rewrite [of s repointed i, OF assms(1,2) repointed_id] by (simp add: s')
  qed
  ultimately show ?thesis by blast
qed


text \<open>
  \<open>out\<close> is the transcoded form of an entry, and its media file is another file, which is not one of
  its versions either.
\<close>

definition superseded :: "media_entry \<Rightarrow> pathbuf \<Rightarrow> bool" where
  "superseded e out \<longleftrightarrow>
     ((\<exists>p. me_transcode_state e = Ready p) \<or> me_versions e \<noteq> [])
     \<and> (me_transcoded_path e = Some out
        \<or> me_transcoded_path e = None \<and> me_versions e \<noteq> [] \<and> out = snd (hd (me_versions e)))
     \<and> me_media_file e \<noteq> out \<and> (\<forall>v \<in> set (me_versions e). snd v \<noteq> me_media_file e)"

lemma reclaimable_superseded: "reclaimable e = Some (src, out) \<longleftrightarrow> src = me_media_file e \<and> superseded e out"
proof -
  have "is_ready t \<longleftrightarrow> (\<exists>p. t = Ready p)" for t by (cases t) auto
  then show ?thesis
    by (fastforce simp: reclaimable_def kept_output_def redundant_source_def superseded_def Let_def image_iff
        split: option.splits list.splits if_splits)
qed

text \<open>
  C18. The clean-up of sources deletes exactly the redundant ones: a file goes when it is the media file
  of a transcoded entry, is neither the output of that entry nor one of its versions, and is confined
  and removable; that entry then names its output, and every other file and entry is as before.
\<close>

theorem cleanup_sources_exact:
  assumes "library_ok s" and "db_ok s" and "host_ok h" and "roots_busy is_empty h"
    and "\<forall>i e. entry_of s i = Some e \<longrightarrow> path_wf (me_media_file e)"
    and "cleanup_sources is_empty (s, h) = (s', h', c)"
  shows "(\<forall>p. is_file h' p \<longleftrightarrow> is_file h p \<and>
        \<not> (removable h p \<and> (\<exists>i e out. entry_of s i = Some e \<and> me_media_file e = p \<and> superseded e out)))
    \<and> (\<forall>i e out. entry_of s i = Some e \<and> superseded e out \<longrightarrow> entry_of s' i = Some (e\<lparr>me_media_file := out\<rparr>))
    \<and> (\<forall>i. (\<forall>e out. entry_of s i = Some e \<longrightarrow> \<not> superseded e out) \<longrightarrow> entry_of s' i = entry_of s i)"
proof -
  note spec = cleanup_sources_spec [OF assms]
  have none: "reclaimable e = None" if "\<forall>out. \<not> superseded e out" for e
    using reclaimable_superseded [of e] that by (cases "reclaimable e") auto
  have "entry_of s' i = Some (e\<lparr>me_media_file := out\<rparr>)" if "entry_of s i = Some e" "superseded e out" for i e out
  proof -
    have "reclaimable e = Some (me_media_file e, out)" using that(2) by (simp add: reclaimable_superseded)
    then show ?thesis using conjunct2 [OF spec] that(1) by simp
  qed
  moreover have "entry_of s' i = entry_of s i" if "\<forall>e out. entry_of s i = Some e \<longrightarrow> \<not> superseded e out" for i
  proof (cases "entry_of s i")
    case None
    then show ?thesis using conjunct2 [OF spec] by simp
  next
    case (Some e)
    then have "reclaimable e = None" using none that by blast
    then show ?thesis using conjunct2 [OF spec] Some by simp
  qed
  moreover have "(\<exists>i e out. entry_of s i = Some e \<and> reclaimable e = Some (p, out)) \<longleftrightarrow>
      (\<exists>i e out. entry_of s i = Some e \<and> me_media_file e = p \<and> superseded e out)" for p
    unfolding reclaimable_superseded by blast
  ultimately show ?thesis using conjunct1 [OF spec] by simp
qed

text \<open>
  C19. Nothing asks whether the output is still there: when the transcoded files of an entry are gone,
  the clean-up deletes its source, the last copy, and leaves an entry without any file.
\<close>

theorem cleanup_sources_loses_media:
  assumes "library_ok s" and "db_ok s" and "host_ok h" and "roots_busy is_empty h"
    and "\<forall>i e. entry_of s i = Some e \<longrightarrow> path_wf (me_media_file e)"
    and "cleanup_sources is_empty (s, h) = (s', h', c)"
    and "entry_of s i = Some e" and "reclaimable e = Some (src, out)" and "is_file h src" and "removable h src"
    and "\<forall>p \<in> insert out (snd ` set (me_versions e)). \<not> is_file h p"
  shows "\<not> is_file h' src \<and> entry_of s' i = Some (e\<lparr>me_media_file := out\<rparr>)
    \<and> (\<forall>p \<in> insert out (snd ` set (me_versions e)). \<not> is_file h' p)"
proof -
  note exact = cleanup_sources_spec [OF assms(1-6)]
  have "\<not> is_file h' src" using exact assms(7,8,10) by blast
  moreover have "entry_of s' i = Some (e\<lparr>me_media_file := out\<rparr>)" using exact assms(7,8) by simp
  moreover have "\<forall>p \<in> insert out (snd ` set (me_versions e)). \<not> is_file h' p" using exact assms(11) by blast
  ultimately show ?thesis by blast
qed

section \<open>Groups\<close>

lemma sorted_lex:
  assumes "sorted_wrt (\<lambda>a b. f a \<le> (f b :: nat)) zs"
    and "\<And>k. sorted_wrt (\<lambda>a b. g a \<le> (g b :: nat)) (filter (\<lambda>x. f x = k) zs)"
  shows "sorted_wrt (\<lambda>a b. f a < f b \<or> (f a = f b \<and> g a \<le> g b)) zs"
  using assms
proof (induction zs)
  case (Cons z zs)
  have "sorted_wrt (\<lambda>a b. g a \<le> g b) (filter (\<lambda>x. f x = k) zs)" for k
    using Cons.prems(2) [of k] by (cases "f z = k") simp_all
  then have "sorted_wrt (\<lambda>a b. f a < f b \<or> (f a = f b \<and> g a \<le> g b)) zs" using Cons by simp
  moreover have "f z < f b \<or> (f z = f b \<and> g z \<le> g b)" if "b \<in> set zs" for b
    using that Cons.prems(1) Cons.prems(2) [of "f z"] by auto
  ultimately show ?case by simp
qed simp

lemma sort_episodes_sorted:
  "sorted_wrt (\<lambda>a b. fst (episode_key a) < fst (episode_key b)
     \<or> (fst (episode_key a) = fst (episode_key b) \<and> snd (episode_key a) \<le> snd (episode_key b))) (sort_episodes es)"
proof (rule sorted_lex)
  show "sorted_wrt (\<lambda>a b. fst (episode_key a) \<le> fst (episode_key b)) (sort_episodes es)"
    using sorted_sort_key [of "\<lambda>e. fst (episode_key e)"] by (simp add: sort_episodes_def sorted_map)
  have "sorted_wrt (\<lambda>a b. snd (episode_key a) \<le> snd (episode_key b)) (sort_key (\<lambda>e. snd (episode_key e)) es)"
    using sorted_sort_key [of "\<lambda>e. snd (episode_key e)"] by (simp add: sorted_map)
  then show "sorted_wrt (\<lambda>a b. snd (episode_key a) \<le> snd (episode_key b))
      (filter (\<lambda>x. fst (episode_key x) = k) (sort_episodes es))" for k
    unfolding sort_episodes_def sort_key_stable by (rule sorted_wrt_filter)
qed

lemma fold_push_entry:
  "map_of (fold push_entry es t) g =
     (let l = filter (\<lambda>e. me_group_id e = g) es in
      if l = [] then map_of t g else Some ((case map_of t g of None \<Rightarrow> [] | Some x \<Rightarrow> x) @ l))"
  by (induction es arbitrary: t) (auto simp: push_entry_def Let_def split: option.splits)

lemma fold_push_wf: "hm_wf t \<Longrightarrow> hm_wf (fold push_entry es t)"
  by (induction es arbitrary: t) (auto simp: push_entry_def)

lemma fold_count_season:
  assumes "\<And>l. map_of t g = Some l \<Longrightarrow> distinct l"
  shows "case map_of (fold count_season es t) g of
      None \<Rightarrow> map_of t g = None \<and> {n. \<exists>e \<in> set es. me_group_id e = g \<and> me_season e = Some n} = {}
    | Some l \<Rightarrow> distinct l \<and> set l = (case map_of t g of None \<Rightarrow> {} | Some x \<Rightarrow> set x)
        \<union> {n. \<exists>e \<in> set es. me_group_id e = g \<and> me_season e = Some n}"
  using assms
proof (induction es arbitrary: t)
  case Nil
  then show ?case by (auto split: option.splits)
next
  case (Cons e es)
  let ?t = "count_season e t"
  have "distinct l" if "map_of ?t g = Some l" for l
    using that Cons.prems by (auto simp: count_season_def split: option.splits if_splits)
  note IH = Cons.IH [of ?t, OF this]
  have t: "map_of ?t g = (if me_group_id e = g \<and> me_season e \<noteq> None
      then Some (List.insert (the (me_season e)) (case map_of t g of None \<Rightarrow> [] | Some l \<Rightarrow> l)) else map_of t g)"
    by (auto simp: count_season_def split: option.splits)
  show ?case
    using IH unfolding t by (auto split: option.splits if_splits)
qed

lemma season_count_of:
  "lg_season_count (group_of (fold count_season es []) (i, l)) = card {n. \<exists>e \<in> set es. me_group_id e = i \<and> me_season e = Some n}"
proof (cases "map_of (fold count_season es []) i")
  case None
  then have "{n. \<exists>e \<in> set es. me_group_id e = i \<and> me_season e = Some n} = {}"
    using fold_count_season [of "[]" i es] by simp
  moreover have "lg_season_count (group_of (fold count_season es []) (i, l)) = 0" using None by (simp add: group_of_def Let_def)
  ultimately show ?thesis by (simp only: card.empty)
next
  case (Some x)
  then have "distinct x" "set x = {n. \<exists>e \<in> set es. me_group_id e = i \<and> me_season e = Some n}"
    using fold_count_season [of "[]" i es] by simp_all
  moreover have "lg_season_count (group_of (fold count_season es []) (i, l)) = length x" using Some by (simp add: group_of_def Let_def)
  ultimately show ?thesis by (metis distinct_card)
qed

text \<open>
  C20. The groups of the answer are a partition of the library: one group for each group id that an
  entry has, with exactly the entries of that id, by season and episode, and with the number of its
  entries and of its different seasons.
\<close>

theorem list_groups_partition:
  assumes "db_ok s" and "list_groups s = (s', gs)"
  shows "distinct (map lg_id gs) \<and> lg_id ` set gs = me_group_id ` set (valid_values (db_library s))
    \<and> (\<forall>g \<in> set gs.
        mset (lg_entries g) = mset (filter (\<lambda>e. me_group_id e = lg_id g) (valid_values (db_library s)))
      \<and> sorted_wrt (\<lambda>a b. fst (episode_key a) < fst (episode_key b)
          \<or> (fst (episode_key a) = fst (episode_key b) \<and> snd (episode_key a) \<le> snd (episode_key b))) (lg_entries g)
      \<and> lg_episode_count g = length (lg_entries g)
      \<and> lg_season_count g = card {n. \<exists>e \<in> set (lg_entries g). me_season e = Some n})"
proof -
  let ?es = "valid_values (db_library s)" let ?t = "fold push_entry ?es []" let ?c = "fold count_season ?es []"
  have gs: "gs = map (group_of ?c) (map (\<lambda>(g, es). (g, sort_episodes es)) ?t)"
    using assms by (simp add: list_groups_def media_or_none_ok)
  have wf: "hm_wf ?t" by (rule fold_push_wf) (simp add: hm_wf_def)
  have ids: "map lg_id gs = map fst ?t" by (simp add: gs group_of_def Let_def case_prod_unfold)
  have look: "map_of ?t g = Some l \<longleftrightarrow> l \<noteq> [] \<and> l = filter (\<lambda>e. me_group_id e = g) ?es" for g l
    by (auto simp: fold_push_entry Let_def)
  have dom: "set (map fst ?t) = {g. map_of ?t g \<noteq> None}" by (auto simp: map_of_eq_None_iff)
  have "lg_id ` set gs = set (map fst ?t)" by (simp flip: ids)
  also have "\<dots> = me_group_id ` set ?es"
    unfolding dom by (auto simp: fold_push_entry Let_def filter_empty_conv)
  finally have keys: "lg_id ` set gs = me_group_id ` set ?es" .
  have "mset (lg_entries g) = mset (filter (\<lambda>e. me_group_id e = lg_id g) ?es)
      \<and> sorted_wrt (\<lambda>a b. fst (episode_key a) < fst (episode_key b)
          \<or> (fst (episode_key a) = fst (episode_key b) \<and> snd (episode_key a) \<le> snd (episode_key b))) (lg_entries g)
      \<and> lg_episode_count g = length (lg_entries g)
      \<and> lg_season_count g = card {n. \<exists>e \<in> set (lg_entries g). me_season e = Some n}" if g: "g \<in> set gs" for g
  proof -
    obtain i l where il: "(i, l) \<in> set ?t" "g = group_of ?c (i, sort_episodes l)" using g by (auto simp: gs)
    have l: "l = filter (\<lambda>e. me_group_id e = i) ?es"
      using il(1) wf look by (simp add: hm_wf_def)
    have "lg_season_count g = card {n. \<exists>e \<in> set ?es. me_group_id e = i \<and> me_season e = Some n}"
      unfolding il(2) by (rule season_count_of)
    moreover have "{n. \<exists>e \<in> set ?es. me_group_id e = i \<and> me_season e = Some n} = {n. \<exists>e \<in> set (lg_entries g). me_season e = Some n}"
      using il(2) l by (auto simp: group_of_def Let_def sort_episodes_def)
    ultimately show ?thesis
      using il(2) l sort_episodes_sorted [of l] by (simp add: group_of_def Let_def) (simp add: sort_episodes_def)
  qed
  then show ?thesis using keys wf ids by (simp add: hm_wf_def)
qed


section \<open>Witnesses\<close>

definition example_source :: media_entry where
  "example_source = example_entry\<lparr>me_transcode_state := Ready [RootDir, Normal (ascii ''o'')],
     me_transcoded_path := Some [RootDir, Normal (ascii ''o'')], me_subtitles := [], me_season := Some 2, me_episode := Some 1\<rparr>"

definition example_library :: store where
  "example_library = \<lparr>db_downloads = [], db_library = [(me_id example_entry, Valid example_source),
     (replicate 16 2, Valid (example_entry\<lparr>me_id := replicate 16 2, me_season := Some 1\<rparr>))], db_settings = None, db_ok = True\<rparr>"

lemma example_library_ok: "library_ok example_library" "db_ok example_library" "host_ok example_host"
  "roots_busy (\<lambda>_ _. False) example_host"
  "\<forall>i e. entry_of example_library i = Some e \<longrightarrow> path_wf (me_media_file e)"
proof -
  have ids: "me_id example_entry < replicate 16 2" by code_simp
  then show "library_ok example_library"
    by (auto simp: library_ok_def example_library_def bt_wf_Cons example_entry_def example_source_def split: if_splits)
  show "db_ok example_library" by (simp add: example_library_def)
  show "host_ok example_host" by (simp add: host_ok_def example_host_def path_starts_with_def)
  show "roots_busy (\<lambda>_ _. False) example_host" by (simp add: roots_busy_def)
  show "\<forall>i e. entry_of example_library i = Some e \<longrightarrow> path_wf (me_media_file e)"
    by (auto simp: entry_of_def example_library_def example_source_def example_entry_def path_wf_def split: if_splits)
qed

lemma example_source_facts:
  "entry_of example_library (me_id example_entry) = Some example_source"
  "reclaimable example_source = Some (me_media_file example_entry, [RootDir, Normal (ascii ''o'')])"
  "is_file example_host (me_media_file example_entry)" "removable example_host (me_media_file example_entry)"
  "\<forall>p \<in> insert [RootDir, Normal (ascii ''o'')] (snd ` set (me_versions example_source)). \<not> is_file example_host p"
proof -
  show "entry_of example_library (me_id example_entry) = Some example_source" by (simp add: entry_of_def example_library_def)
  show "reclaimable example_source = Some (me_media_file example_entry, [RootDir, Normal (ascii ''o'')])"
    by (simp add: reclaimable_def kept_output_def redundant_source_def example_source_def example_entry_def ascii_inject)
  show "is_file example_host (me_media_file example_entry)" by code_simp
  have "under_allowed_root example_host (h_real example_host (me_media_file example_entry)) (allowed_roots example_host)"
    by code_simp
  then show "removable example_host (me_media_file example_entry)"
    unfolding under_allowed_root_iff by (simp add: removable_def example_host_def example_entry_def is_absolute_def)
  show "\<forall>p \<in> insert [RootDir, Normal (ascii ''o'')] (snd ` set (me_versions example_source)). \<not> is_file example_host p"
    by (simp add: example_source_def example_entry_def is_file_def example_host_def)
qed

theorem cleanup_sources_exact_witness:
  "case cleanup_sources (\<lambda>_ _. False) (example_library, example_host) of (s', h', c) \<Rightarrow>
     \<not> is_file h' (me_media_file example_entry) \<and> is_file h' [RootDir, Normal (ascii ''etc''), Normal (ascii ''passwd'')]"
proof -
  obtain s' h' c where r: "cleanup_sources (\<lambda>_ _. False) (example_library, example_host) = (s', h', c)"
    by (cases "cleanup_sources (\<lambda>_ _. False) (example_library, example_host)") auto
  note t = conjunct1 [OF cleanup_sources_exact [OF example_library_ok r]]
  have "me_media_file example_source = me_media_file example_entry" "superseded example_source [RootDir, Normal (ascii ''o'')]"
    using example_source_facts(2) by (simp_all add: reclaimable_superseded)
  then have "\<not> is_file h' (me_media_file example_entry)"
    using t example_source_facts(1,3,4) by metis
  moreover have "is_file example_host [RootDir, Normal (ascii ''etc''), Normal (ascii ''passwd'')]"
    "\<not> under_allowed_root example_host (h_real example_host [RootDir, Normal (ascii ''etc''), Normal (ascii ''passwd'')]) (allowed_roots example_host)"
    by code_simp+
  then have "is_file h' [RootDir, Normal (ascii ''etc''), Normal (ascii ''passwd'')]"
    unfolding under_allowed_root_iff using t by (auto simp: removable_def)
  ultimately show ?thesis using r by simp
qed

theorem cleanup_sources_loses_media_witness:
  "case cleanup_sources (\<lambda>_ _. False) (example_library, example_host) of (s', h', c) \<Rightarrow>
     \<not> is_file h' (me_media_file example_entry) \<and> \<not> is_file h' [RootDir, Normal (ascii ''o'')]
     \<and> entry_of s' (me_id example_entry) = Some (example_source\<lparr>me_media_file := [RootDir, Normal (ascii ''o'')]\<rparr>)"
proof -
  obtain s' h' c where r: "cleanup_sources (\<lambda>_ _. False) (example_library, example_host) = (s', h', c)"
    by (cases "cleanup_sources (\<lambda>_ _. False) (example_library, example_host)") auto
  from cleanup_sources_loses_media [OF example_library_ok r example_source_facts] show ?thesis using r by simp
qed

theorem list_groups_partition_witness:
  "\<exists>g. snd (list_groups example_library) = [g] \<and> map me_season (lg_entries g) = [Some 1, Some 2] \<and> lg_season_count g = 2"
proof -
  obtain s' gs where r: "list_groups example_library = (s', gs)" by fastforce
  note t = list_groups_partition [OF example_library_ok(2) r]
  let ?b = "example_entry\<lparr>me_id := replicate 16 2, me_season := Some 1\<rparr>"
  have es: "valid_values (db_library example_library) = [example_source, ?b]"
    by (simp add: example_library_def valid_values_def map_filter_Cons List.map_filter_simps)
  have none: "me_group_id example_source = None" "me_group_id ?b = None"
    by (simp_all add: example_source_def example_entry_def)
  have ids: "lg_id ` set gs = {None}" and dist: "distinct (map lg_id gs)" using t by (auto simp: es none)
  then have "set (map lg_id gs) = {None}" by simp
  then have "length (map lg_id gs) = 1" using dist distinct_card [OF dist] by simp
  then obtain g where g: "gs = [g]" by (cases gs) auto
  then have id: "lg_id g = None" using ids by simp
  have m: "mset (lg_entries g) = mset [example_source, ?b]" using t g id by (simp add: es none)
  have key: "fst (episode_key example_source) = 2" "fst (episode_key ?b) = 1"
    by (simp_all add: episode_key_def example_source_def)
  have "lg_entries g = [?b, example_source]"
  proof -
    have "length (lg_entries g) = 2" using m by (metis One_nat_def Suc_1 length_Cons list.size(3) mset_eq_length)
    then obtain x y where xy: "lg_entries g = [x, y]" by (auto simp: length_Suc_conv numeral_2_eq_2)
    have "fst (episode_key x) < fst (episode_key y) \<or> fst (episode_key x) = fst (episode_key y)"
      using t g xy by auto
    moreover have "(x = example_source \<and> y = ?b) \<or> (x = ?b \<and> y = example_source)"
      using m xy by (auto simp: add_eq_conv_ex)
    ultimately show ?thesis using xy key by auto
  qed
  moreover have "{n. \<exists>e \<in> set [?b, example_source]. me_season e = Some n} = {1, 2}"
    by (auto simp: example_source_def)
  ultimately show ?thesis using t g r by (simp add: example_source_def)
qed

end
