(* ===== verification/Settings_Correct.thy ===== *)
theory Settings_Correct
  imports Settings Library_Correct
begin

text \<open>
  A migration loses no file and leaves no entry with a version that is not there, unless moves fail:
  then it forgets files that are still on disk. Repairs at start-up reach exactly the directories
  that an old version left.
\<close>

section \<open>Where a file is moved\<close>

definition placed :: "pathbuf \<Rightarrow> pathbuf \<Rightarrow> pathbuf option" where
  "placed dir p = map_option (\<lambda>n. path_join dir [Normal n]) (file_name p)"

lemma placed_placed: "placed dir p = Some q \<Longrightarrow> placed dir q = Some q"
  by (auto simp: placed_def path_join_def file_name_def is_absolute_def split: if_splits)

text \<open>Every file is where it was or at its place in the directory, with its content, and no two are
  at one place.\<close>

definition relocates :: "pathbuf \<Rightarrow> host \<Rightarrow> host \<Rightarrow> bool" where
  "relocates dir h h' \<longleftrightarrow> (\<exists>\<pi>. inj_on \<pi> {p. is_file h p}
     \<and> (\<forall>p. is_file h p \<longrightarrow> h_files h' (\<pi> p) = h_files h p \<and> (\<pi> p = p \<or> placed dir p = Some (\<pi> p))))"

lemma relocates_refl: "h_files h' = h_files h \<Longrightarrow> relocates dir h h'"
  unfolding relocates_def by (rule exI [of _ id]) simp

lemma relocates_trans:
  assumes "relocates dir h1 h2" and "relocates dir h2 h3"
  shows "relocates dir h1 h3"
proof -
  obtain \<pi>1 where p1: "inj_on \<pi>1 {p. is_file h1 p}"
    "\<And>p. is_file h1 p \<Longrightarrow> h_files h2 (\<pi>1 p) = h_files h1 p \<and> (\<pi>1 p = p \<or> placed dir p = Some (\<pi>1 p))"
    using assms(1) unfolding relocates_def by blast
  obtain \<pi>2 where p2: "inj_on \<pi>2 {p. is_file h2 p}"
    "\<And>p. is_file h2 p \<Longrightarrow> h_files h3 (\<pi>2 p) = h_files h2 p \<and> (\<pi>2 p = p \<or> placed dir p = Some (\<pi>2 p))"
    using assms(2) unfolding relocates_def by blast
  have mid: "is_file h2 (\<pi>1 p)" if "is_file h1 p" for p using p1(2) [OF that] that by (simp add: is_file_def)
  have "inj_on (\<pi>2 \<circ> \<pi>1) {p. is_file h1 p}"
    using p1(1) p2(1) mid by (auto simp: inj_on_def)
  moreover have "h_files h3 (\<pi>2 (\<pi>1 p)) = h_files h1 p \<and> (\<pi>2 (\<pi>1 p) = p \<or> placed dir p = Some (\<pi>2 (\<pi>1 p)))"
    if "is_file h1 p" for p
    using p1(2) [OF that] p2(2) [OF mid [OF that]] placed_placed [of dir p "\<pi>1 p"] by auto
  ultimately show ?thesis unfolding relocates_def by (intro exI [of _ "\<pi>2 \<circ> \<pi>1"]) simp
qed

lemma relocates_move:
  assumes "is_file h src" and "placed dir src = Some dest" and "dest \<noteq> src" and "\<not> is_file h dest"
    and "h_files h' dest = h_files h src" and "\<And>q. q \<noteq> src \<Longrightarrow> q \<noteq> dest \<Longrightarrow> h_files h' q = h_files h q"
  shows "relocates dir h h'"
  unfolding relocates_def
proof (intro exI [of _ "id(src := dest)"] conjI allI impI)
  show "inj_on (id(src := dest)) {p. is_file h p}" using assms(4) by (auto simp: inj_on_def)
  fix p assume "is_file h p"
  then show "h_files h' ((id(src := dest)) p) = h_files h p" using assms(4-6) by (cases "p = src") auto
  show "(id(src := dest)) p = p \<or> placed dir p = Some ((id(src := dest)) p)" using assms(2) by simp
qed

text \<open>The outcomes of one move of something that is not a directory.\<close>

lemma move_file_cases:
  assumes "move_file env dir src h = (h', r)" and "h_dirs h src \<longrightarrow> is_file h src"
  obtains (moved) dest sz where "r = Moved dest sz" "placed dir src = Some dest" "dest \<noteq> src"
      "is_file h src" "\<not> path_exists h dest" "h_files h' dest = h_files h src"
      "\<And>q. q \<noteq> src \<Longrightarrow> q \<noteq> dest \<Longrightarrow> h_files h' q = h_files h q" "h_dirs h' = h_dirs h"
    | (there) dest where "r = AlreadyThere" "h' = h" "path_exists h src" "placed dir src = Some dest"
      "dest = src \<or> path_exists h dest"
    | (missing) "r = SourceMissing" "h' = h" "\<not> path_exists h src"
    | (failed) "r = MoveFailed" "h' = h" "path_exists h src"
proof (cases "path_exists h src")
  case False
  then show thesis using assms(1) missing by (simp add: move_file_def)
next
  case True
  then have f: "is_file h src" using assms(2) by (auto simp: path_exists_def)
  show thesis
  proof (cases "file_name src")
    case None
    then show thesis using assms(1) True failed by (simp add: move_file_def)
  next
    case (Some n)
    let ?dest = "path_join dir [Normal n]"
    have pl: "placed dir src = Some ?dest" using Some by (simp add: placed_def)
    show thesis
    proof (cases "?dest = src \<or> path_exists h ?dest")
      case True
      then show thesis using assms(1) Some \<open>path_exists h src\<close> there [of ?dest] pl by (simp add: move_file_def Let_def)
    next
      case False
      note free = this
      consider "mv_rename env src ?dest" | "\<not> mv_rename env src ?dest" "mv_copy env src ?dest"
        | "\<not> mv_rename env src ?dest" "\<not> mv_copy env src ?dest" by blast
      then show thesis
      proof cases
        case 1
        then have "r = Moved ?dest (size_or_0 h src)" "h' = rename_path src ?dest h"
          using assms(1) Some \<open>path_exists h src\<close> free by (simp_all add: move_file_def Let_def)
        then show thesis using moved [of ?dest "size_or_0 h src"] pl free f by (simp add: rename_path_def)
      next
        case 2
        then have "r = Moved ?dest (size_or_0 h src)" "h' = copy_path src ?dest h"
          using assms(1) Some \<open>path_exists h src\<close> free f by (simp_all add: move_file_def Let_def)
        then show thesis using moved [of ?dest "size_or_0 h src"] pl free f
          by (auto simp: copy_path_def Let_def remove_file_def split: if_splits)
      next
        case 3
        then show thesis using assms(1) Some \<open>path_exists h src\<close> free failed by (simp add: move_file_def Let_def)
      qed
    qed
  qed
qed

section \<open>Nothing is lost\<close>

definition carried :: "pathbuf \<Rightarrow> host \<Rightarrow> host \<Rightarrow> bool" where
  "carried dir h h' \<longleftrightarrow> relocates dir h h' \<and> h_dirs h' = h_dirs h"

lemma carried_refl [simp]: "carried dir h h"
  by (simp add: carried_def relocates_refl)

lemma carried_trans: "carried dir h1 h2 \<Longrightarrow> carried dir h2 h3 \<Longrightarrow> carried dir h1 h3"
  using relocates_trans by (auto simp: carried_def)

lemma move_file_carried:
  assumes "h_dirs h src \<longrightarrow> is_file h src"
  shows "carried dir h (fst (move_file env dir src h))"
proof -
  obtain h' r where r: "move_file env dir src h = (h', r)" by fastforce
  from r assms have "carried dir h h'"
    by (cases rule: move_file_cases) (auto simp: carried_def path_exists_def relocates_refl intro: relocates_move)
  then show ?thesis by (simp add: r)
qed

text \<open>Every step of the migration moves one file and keeps the host of the move.\<close>

lemma moved_host:
  "mi_host (fst (migrate_version env dir v (m, live))) = fst (move_file env dir (snd v) (mi_host m))"
  "mi_host (fst (migrate_subtitle env dir t (m, subs))) = fst (move_file env dir (sub_path t) (mi_host m))"
  "mi_host (fst (migrate_transcoded env dir (m, e))) = (case me_transcoded_path e of
     None \<Rightarrow> mi_host m | Some tp \<Rightarrow> fst (move_file env dir tp (mi_host m)))"
  "mi_host (fst (migrate_media_file env dir (m, e))) = fst (move_file env dir (me_media_file e) (mi_host m))"
proof -
  have same: "fst (move_file env dir p h) = h" if "\<forall>q sz. snd (move_file env dir p h) \<noteq> Moved q sz" for p h
    using that by (auto simp: move_file_def Let_def split: option.splits if_splits)
  have host: "fst (move_file env dir p (mi_host m)) = (case move_file env dir p (mi_host m) of
      (h, Moved q sz) \<Rightarrow> h | _ \<Rightarrow> mi_host m)" for p
    using same [of p "mi_host m"] by (auto split: prod.splits move_result.splits)
  show "mi_host (fst (migrate_version env dir v (m, live))) = fst (move_file env dir (snd v) (mi_host m))"
    unfolding host by (auto simp: migrate_version_def note_move_def split: prod.splits move_result.splits)
  show "mi_host (fst (migrate_subtitle env dir t (m, subs))) = fst (move_file env dir (sub_path t) (mi_host m))"
    unfolding host by (auto simp: migrate_subtitle_def note_move_def split: prod.splits move_result.splits)
  show "mi_host (fst (migrate_transcoded env dir (m, e))) = (case me_transcoded_path e of
     None \<Rightarrow> mi_host m | Some tp \<Rightarrow> fst (move_file env dir tp (mi_host m)))"
    unfolding host by (auto simp: migrate_transcoded_def note_move_def split: prod.splits move_result.splits option.splits list.splits)
  show "mi_host (fst (migrate_media_file env dir (m, e))) = fst (move_file env dir (me_media_file e) (mi_host m))"
    unfolding host by (auto simp: migrate_media_file_def note_move_def split: prod.splits move_result.splits list.splits)
qed


text \<open>A file that no later move touches: it is at its place, or its place is taken.\<close>

definition settled :: "pathbuf \<Rightarrow> host \<Rightarrow> pathbuf \<Rightarrow> bool" where
  "settled dir h p \<longleftrightarrow> is_file h p \<and> (\<exists>d. placed dir p = Some d \<and> (d = p \<or> path_exists h d))"

definition advance :: "pathbuf \<Rightarrow> host \<Rightarrow> host \<Rightarrow> bool" where
  "advance dir h h' \<longleftrightarrow> carried dir h h' \<and> (\<forall>p. settled dir h p \<longrightarrow> settled dir h' p)"

lemma advance_refl [simp]: "advance dir h h"
  by (simp add: advance_def)

lemma advance_trans: "advance dir h1 h2 \<Longrightarrow> advance dir h2 h3 \<Longrightarrow> advance dir h1 h3"
  using carried_trans by (auto simp: advance_def)

lemma advance_dirs: "advance dir h h' \<Longrightarrow> h_dirs h' = h_dirs h"
  by (simp add: advance_def carried_def)

lemma advance_settled: "advance dir h h' \<Longrightarrow> settled dir h p \<Longrightarrow> settled dir h' p"
  by (simp add: advance_def)

lemma move_file_settles:
  assumes "move_file env dir src h = (h', r)" and "h_dirs h src \<longrightarrow> is_file h src"
  shows "advance dir h h'" and "r = Moved q sz \<Longrightarrow> settled dir h' q" and "r = AlreadyThere \<Longrightarrow> settled dir h' src"
proof -
  have "carried dir h h'" using move_file_carried [OF assms(2), of dir env] assms(1) by simp
  moreover have "settled dir h' p" if p: "settled dir h p" for p
    using assms
  proof (cases rule: move_file_cases)
    case (moved dest sz)
    obtain d where d: "is_file h p" "placed dir p = Some d" "d = p \<or> path_exists h d" using p by (auto simp: settled_def)
    have "p \<noteq> src" using d moved by auto
    moreover have "p \<noteq> dest" using d(1) moved by (auto simp: path_exists_def)
    ultimately have "is_file h' p" using d(1) moved by (simp add: is_file_def)
    moreover have "d = p \<or> path_exists h' d"
    proof (cases "d = p \<or> d = dest")
      case True
      then show ?thesis using moved by (auto simp: path_exists_def is_file_def)
    next
      case False
      have "d \<noteq> src" using placed_placed [OF d(2)] moved by auto
      then show ?thesis using False d moved by (auto simp: path_exists_def is_file_def)
    qed
    ultimately show ?thesis using d(2) by (auto simp: settled_def)
  qed (use p in simp_all)
  ultimately show "advance dir h h'" by (simp add: advance_def)
  show "settled dir h' q" if "r = Moved q sz"
    using assms
  proof (cases rule: move_file_cases)
    case (moved dest sz')
    then have "placed dir dest = Some dest" "is_file h' dest" "dest = q"
      using placed_placed that by (auto simp: is_file_def)
    then show ?thesis by (auto simp: settled_def)
  qed (use that in simp_all)
  show "settled dir h' src" if "r = AlreadyThere"
    using assms
  proof (cases rule: move_file_cases)
    case (there dest)
    then have "is_file h src" using assms(2) by (auto simp: path_exists_def)
    then show ?thesis using there by (auto simp: settled_def)
  qed (use that in simp_all)
qed

section \<open>One entry\<close>

lemma hm_insert_ne [simp]: "hm_insert k v t \<noteq> []"
  by (cases t) (auto split: if_splits)

lemma migrate_version_step:
  assumes "migrate_version env dir v (m, live) = (m1, live1)" and "\<not> h_dirs (mi_host m) (snd v)"
  shows "advance dir (mi_host m) (mi_host m1)"
    and "\<forall>v \<in> set live. settled dir (mi_host m) (snd v) \<Longrightarrow> \<forall>v \<in> set live1. settled dir (mi_host m1) (snd v)"
    and "mi_changed m \<Longrightarrow> mi_changed m1"
    and "\<not> mi_changed m1 \<Longrightarrow> settled dir (mi_host m1) (snd v) \<and> live1 \<noteq> []"
proof -
  obtain name p where v: "v = (name, p)" by (cases v)
  obtain h r where mv: "move_file env dir p (mi_host m) = (h, r)" by fastforce
  have nd: "h_dirs (mi_host m) p \<longrightarrow> is_file (mi_host m) p" using assms(2) v by simp
  have host: "mi_host m1 = h" using moved_host(1) [of env dir v m live] assms(1) mv v by simp
  note st = move_file_settles [OF mv nd]
  show adv: "advance dir (mi_host m) (mi_host m1)" using st(1) host by simp
  show "mi_changed m \<Longrightarrow> mi_changed m1"
    using assms(1) mv v by (auto simp: migrate_version_def note_move_def split: move_result.splits)
  show "\<not> mi_changed m1 \<Longrightarrow> settled dir (mi_host m1) (snd v) \<and> live1 \<noteq> []"
    unfolding host using assms(1) mv v st by (auto simp: migrate_version_def note_move_def split: move_result.splits)
  assume live: "\<forall>v \<in> set live. settled dir (mi_host m) (snd v)"
  then have live': "\<forall>v \<in> set live. settled dir h (snd v)" using adv host advance_settled by blast
  show "\<forall>v \<in> set live1. settled dir (mi_host m1) (snd v)"
    unfolding host using assms(1) mv v live' st set_hm_insert
    by (fastforce simp: migrate_version_def split: move_result.splits)
qed

lemma versions_migrated:
  "fold (migrate_version env dir) vs (m, live) = (m', live') \<Longrightarrow> \<forall>v \<in> set vs. \<not> h_dirs (mi_host m) (snd v) \<Longrightarrow>
    \<forall>v \<in> set live. settled dir (mi_host m) (snd v) \<Longrightarrow>
    advance dir (mi_host m) (mi_host m') \<and> (\<forall>v \<in> set live'. settled dir (mi_host m') (snd v))
      \<and> (mi_changed m \<longrightarrow> mi_changed m') \<and> (live \<noteq> [] \<and> \<not> mi_changed m' \<longrightarrow> live' \<noteq> [])
      \<and> (\<not> mi_changed m' \<longrightarrow> (\<forall>v \<in> set vs. settled dir (mi_host m') (snd v)) \<and> (vs \<noteq> [] \<longrightarrow> live' \<noteq> []))"
proof (induction vs arbitrary: m live)
  case (Cons v vs)
  obtain m1 live1 where one: "migrate_version env dir v (m, live) = (m1, live1)" by fastforce
  have nd: "\<not> h_dirs (mi_host m) (snd v)" using Cons.prems(2) by simp
  note st = migrate_version_step [OF one nd]
  have "fold (migrate_version env dir) vs (m1, live1) = (m', live')" using Cons.prems(1) one by simp
  moreover have "\<forall>v \<in> set vs. \<not> h_dirs (mi_host m1) (snd v)"
    using Cons.prems(2) advance_dirs [OF st(1)] by simp
  ultimately have IH: "advance dir (mi_host m1) (mi_host m') \<and> (\<forall>v \<in> set live'. settled dir (mi_host m') (snd v))
      \<and> (mi_changed m1 \<longrightarrow> mi_changed m') \<and> (live1 \<noteq> [] \<and> \<not> mi_changed m' \<longrightarrow> live' \<noteq> [])
      \<and> (\<not> mi_changed m' \<longrightarrow> (\<forall>v \<in> set vs. settled dir (mi_host m') (snd v)) \<and> (vs \<noteq> [] \<longrightarrow> live' \<noteq> []))"
    using Cons.IH st(2) Cons.prems(3) by blast
  have adv: "advance dir (mi_host m) (mi_host m')" using IH st(1) advance_trans by blast
  have unch: "\<not> mi_changed m1" "settled dir (mi_host m') (snd v)" "live1 \<noteq> []" if "\<not> mi_changed m'"
    using that IH st(4) advance_settled by blast+
  show ?case using adv IH unch st(3) by auto
qed simp


lemma migrate_subtitle_step:
  assumes "migrate_subtitle env dir t (m, live) = (m1, live1)" and "\<not> h_dirs (mi_host m) (sub_path t)"
  shows "advance dir (mi_host m) (mi_host m1)"
    and "\<forall>t \<in> set live. settled dir (mi_host m) (sub_path t) \<Longrightarrow> \<forall>t \<in> set live1. settled dir (mi_host m1) (sub_path t)"
    and "mi_changed m \<Longrightarrow> mi_changed m1"
    and "\<not> mi_changed m1 \<Longrightarrow> settled dir (mi_host m1) (sub_path t)"
proof -
  obtain h r where mv: "move_file env dir (sub_path t) (mi_host m) = (h, r)" by fastforce
  have nd: "h_dirs (mi_host m) (sub_path t) \<longrightarrow> is_file (mi_host m) (sub_path t)" using assms(2) by simp
  have host: "mi_host m1 = h" using moved_host(2) [of env dir t m live] assms(1) mv by simp
  note st = move_file_settles [OF mv nd]
  show adv: "advance dir (mi_host m) (mi_host m1)" using st(1) host by simp
  show "mi_changed m \<Longrightarrow> mi_changed m1"
    using assms(1) mv by (auto simp: migrate_subtitle_def note_move_def split: move_result.splits)
  show "\<not> mi_changed m1 \<Longrightarrow> settled dir (mi_host m1) (sub_path t)"
    unfolding host using assms(1) mv st by (auto simp: migrate_subtitle_def note_move_def split: move_result.splits)
  assume live: "\<forall>t \<in> set live. settled dir (mi_host m) (sub_path t)"
  then have "\<forall>t \<in> set live. settled dir h (sub_path t)" using adv host advance_settled by blast
  then show "\<forall>t \<in> set live1. settled dir (mi_host m1) (sub_path t)"
    unfolding host using assms(1) mv st by (auto simp: migrate_subtitle_def split: move_result.splits)
qed

lemma subtitles_migrated:
  "fold (migrate_subtitle env dir) ts (m, live) = (m', live') \<Longrightarrow> \<forall>t \<in> set ts. \<not> h_dirs (mi_host m) (sub_path t) \<Longrightarrow>
    \<forall>t \<in> set live. settled dir (mi_host m) (sub_path t) \<Longrightarrow>
    advance dir (mi_host m) (mi_host m') \<and> (\<forall>t \<in> set live'. settled dir (mi_host m') (sub_path t))
      \<and> (mi_changed m \<longrightarrow> mi_changed m') \<and> (\<not> mi_changed m' \<longrightarrow> (\<forall>t \<in> set ts. settled dir (mi_host m') (sub_path t)))"
proof (induction ts arbitrary: m live)
  case (Cons t ts)
  obtain m1 live1 where one: "migrate_subtitle env dir t (m, live) = (m1, live1)" by fastforce
  have nd: "\<not> h_dirs (mi_host m) (sub_path t)" using Cons.prems(2) by simp
  note st = migrate_subtitle_step [OF one nd]
  have "fold (migrate_subtitle env dir) ts (m1, live1) = (m', live')" using Cons.prems(1) one by simp
  moreover have "\<forall>t \<in> set ts. \<not> h_dirs (mi_host m1) (sub_path t)"
    using Cons.prems(2) advance_dirs [OF st(1)] by simp
  ultimately have IH: "advance dir (mi_host m1) (mi_host m') \<and> (\<forall>t \<in> set live'. settled dir (mi_host m') (sub_path t))
      \<and> (mi_changed m1 \<longrightarrow> mi_changed m') \<and> (\<not> mi_changed m' \<longrightarrow> (\<forall>t \<in> set ts. settled dir (mi_host m') (sub_path t)))"
    using Cons.IH st(2) Cons.prems(3) by blast
  have adv: "advance dir (mi_host m) (mi_host m')" using IH st(1) advance_trans by blast
  have unch: "settled dir (mi_host m') (sub_path t)" if "\<not> mi_changed m'"
    using that IH st(4) advance_settled by blast
  show ?case using adv IH unch st(3) by auto
qed simp

lemma migrate_transcoded_step:
  assumes "migrate_transcoded env dir (m, e) = (m1, e1)" and "\<forall>tp. me_transcoded_path e = Some tp \<longrightarrow> \<not> h_dirs (mi_host m) tp"
    and "\<forall>v \<in> set (me_versions e). settled dir (mi_host m) (snd v)"
  shows "advance dir (mi_host m) (mi_host m1)" and "mi_changed m \<Longrightarrow> mi_changed m1" and "\<not> mi_changed m1 \<Longrightarrow> e1 = e"
    and "me_versions e1 = me_versions e \<and> me_subtitles e1 = me_subtitles e \<and> me_media_file e1 = me_media_file e \<and> me_id e1 = me_id e"
    and "me_versions e \<noteq> [] \<Longrightarrow> me_transcoded_path e1 = Some tp \<Longrightarrow> settled dir (mi_host m1) tp"
proof -
  have "advance dir (mi_host m) (mi_host m1) \<and> (mi_changed m \<longrightarrow> mi_changed m1) \<and> (\<not> mi_changed m1 \<longrightarrow> e1 = e)
    \<and> (me_versions e1 = me_versions e \<and> me_subtitles e1 = me_subtitles e \<and> me_media_file e1 = me_media_file e \<and> me_id e1 = me_id e)
    \<and> (me_versions e \<noteq> [] \<longrightarrow> (\<forall>tp. me_transcoded_path e1 = Some tp \<longrightarrow> settled dir (mi_host m1) tp))"
  proof (cases "me_transcoded_path e")
    case None
    then show ?thesis using assms(1) by (auto simp: migrate_transcoded_def)
  next
    case (Some p)
    obtain h r where mv: "move_file env dir p (mi_host m) = (h, r)" by fastforce
    have nd: "h_dirs (mi_host m) p \<longrightarrow> is_file (mi_host m) p" using assms(2) Some by simp
    have host: "mi_host m1 = h" using moved_host(3) [of env dir m e] assms(1) mv Some by simp
    note st = move_file_settles [OF mv nd]
    have v: "\<forall>v \<in> set (me_versions e). settled dir h (snd v)"
      using assms(3) advance_settled [OF st(1)] by blast
    show ?thesis
      unfolding host using assms(1) mv st v Some
      by (auto simp: migrate_transcoded_def note_move_def split: move_result.splits list.splits)
  qed
  then show "advance dir (mi_host m) (mi_host m1)" and "mi_changed m \<Longrightarrow> mi_changed m1" and "\<not> mi_changed m1 \<Longrightarrow> e1 = e"
    and "me_versions e1 = me_versions e \<and> me_subtitles e1 = me_subtitles e \<and> me_media_file e1 = me_media_file e \<and> me_id e1 = me_id e"
    and "me_versions e \<noteq> [] \<Longrightarrow> me_transcoded_path e1 = Some tp \<Longrightarrow> settled dir (mi_host m1) tp"
    by blast+
qed

lemma migrate_media_file_step:
  assumes "migrate_media_file env dir (m, e) = (m1, e1)" and "\<not> h_dirs (mi_host m) (me_media_file e)"
    and "\<forall>v \<in> set (me_versions e). settled dir (mi_host m) (snd v)"
  shows "advance dir (mi_host m) (mi_host m1)" and "mi_changed m \<Longrightarrow> mi_changed m1" and "\<not> mi_changed m1 \<Longrightarrow> e1 = e"
    and "me_versions e1 = me_versions e \<and> me_subtitles e1 = me_subtitles e \<and> me_transcoded_path e1 = me_transcoded_path e \<and> me_id e1 = me_id e"
    and "me_versions e \<noteq> [] \<Longrightarrow> settled dir (mi_host m1) (me_media_file e1)"
proof -
  obtain h r where mv: "move_file env dir (me_media_file e) (mi_host m) = (h, r)" by fastforce
  have nd: "h_dirs (mi_host m) (me_media_file e) \<longrightarrow> is_file (mi_host m) (me_media_file e)" using assms(2) by simp
  have host: "mi_host m1 = h" using moved_host(4) [of env dir m e] assms(1) mv by simp
  note st = move_file_settles [OF mv nd]
  have v: "\<forall>v \<in> set (me_versions e). settled dir h (snd v)"
    using assms(3) advance_settled [OF st(1)] by blast
  have "advance dir (mi_host m) h \<and> (mi_changed m \<longrightarrow> mi_changed m1) \<and> (\<not> mi_changed m1 \<longrightarrow> e1 = e)
    \<and> (me_versions e1 = me_versions e \<and> me_subtitles e1 = me_subtitles e \<and> me_transcoded_path e1 = me_transcoded_path e \<and> me_id e1 = me_id e)
    \<and> (me_versions e \<noteq> [] \<longrightarrow> settled dir h (me_media_file e1))"
    using assms(1) mv st v by (auto simp: migrate_media_file_def note_move_def split: move_result.splits list.splits)
  then show "advance dir (mi_host m) (mi_host m1)" and "mi_changed m \<Longrightarrow> mi_changed m1" and "\<not> mi_changed m1 \<Longrightarrow> e1 = e"
    and "me_versions e1 = me_versions e \<and> me_subtitles e1 = me_subtitles e \<and> me_transcoded_path e1 = me_transcoded_path e \<and> me_id e1 = me_id e"
    and "me_versions e \<noteq> [] \<Longrightarrow> settled dir (mi_host m1) (me_media_file e1)"
    unfolding host by blast+
qed

text \<open>An entry whose paths are there to stay.\<close>

definition entry_live :: "pathbuf \<Rightarrow> host \<Rightarrow> media_entry \<Rightarrow> bool" where
  "entry_live dir h e \<longleftrightarrow> (\<forall>v \<in> set (me_versions e). settled dir h (snd v)) \<and> (\<forall>t \<in> set (me_subtitles e). settled dir h (sub_path t))
     \<and> (me_versions e \<noteq> [] \<longrightarrow> settled dir h (me_media_file e) \<and> (\<forall>tp. me_transcoded_path e = Some tp \<longrightarrow> settled dir h tp))"

lemma live_advance: "entry_live dir h e \<Longrightarrow> advance dir h h' \<Longrightarrow> entry_live dir h' e"
  using advance_settled by (auto simp: entry_live_def)

lemma migrate_entry_live:
  assumes "migrate_entry env dir e m = (m', e')" and "\<forall>p \<in> set (owned_files e). \<not> h_dirs (mi_host m) p"
  shows "advance dir (mi_host m) (mi_host m') \<and> entry_live dir (mi_host m') e' \<and> me_id e' = me_id e
    \<and> (\<not> mi_changed m' \<longrightarrow> entry_live dir (mi_host m') e)"
proof -
  let ?m = "m\<lparr>mi_changed := False\<rparr>"
  obtain m1 vs where 1: "fold (migrate_version env dir) (me_versions e) (?m, []) = (m1, vs)" by fastforce
  obtain m2 e2 where 2: "migrate_transcoded env dir (m1, e\<lparr>me_versions := vs\<rparr>) = (m2, e2)" by fastforce
  obtain m3 ts where 3: "fold (migrate_subtitle env dir) (me_subtitles e2) (m2, []) = (m3, ts)" by fastforce
  have 4: "migrate_media_file env dir (m3, e2\<lparr>me_subtitles := ts\<rparr>) = (m', e')"
    using assms(1) 1 2 3 by (simp add: migrate_entry_def)
  have dirs: "\<forall>v \<in> set (me_versions e). \<not> h_dirs (mi_host ?m) (snd v)"
    "\<forall>tp. me_transcoded_path e = Some tp \<longrightarrow> \<not> h_dirs (mi_host m) tp"
    "\<forall>t \<in> set (me_subtitles e). \<not> h_dirs (mi_host m) (sub_path t)" "\<not> h_dirs (mi_host m) (me_media_file e)"
    using assms(2) by (auto simp: owned_files_def)
  note s1 = versions_migrated [OF 1 dirs(1), simplified]
  have d1: "h_dirs (mi_host m1) = h_dirs (mi_host m)" using s1 advance_dirs by blast
  have v1: "\<forall>v \<in> set (me_versions (e\<lparr>me_versions := vs\<rparr>)). settled dir (mi_host m1) (snd v)" using s1 by simp
  have t1: "\<forall>tp. me_transcoded_path (e\<lparr>me_versions := vs\<rparr>) = Some tp \<longrightarrow> \<not> h_dirs (mi_host m1) tp" using dirs(2) d1 by simp
  note s2 = migrate_transcoded_step [OF 2 t1 v1]
  have d2: "h_dirs (mi_host m2) = h_dirs (mi_host m)" using advance_dirs [OF s2(1)] d1 by simp
  have t2: "\<forall>t \<in> set (me_subtitles e2). \<not> h_dirs (mi_host m2) (sub_path t)" using dirs(3) d2 s2(4) by simp
  note s3 = subtitles_migrated [OF 3 t2, simplified]
  have d3: "h_dirs (mi_host m3) = h_dirs (mi_host m)" using s3 advance_dirs d2 by metis
  have v3: "\<forall>v \<in> set (me_versions (e2\<lparr>me_subtitles := ts\<rparr>)). settled dir (mi_host m3) (snd v)"
    using v1 s2(1,4) s3 advance_settled by auto
  have m3: "\<not> h_dirs (mi_host m3) (me_media_file (e2\<lparr>me_subtitles := ts\<rparr>))" using dirs(4) d3 s2(4) by simp
  note s4 = migrate_media_file_step [OF 4 m3 v3]
  have "advance dir (mi_host m1) (mi_host m')" using s2(1) s3 s4(1) advance_trans by blast
  moreover have a23: "advance dir (mi_host m2) (mi_host m')" "advance dir (mi_host m3) (mi_host m')"
    using s3 s4(1) advance_trans by blast+
  ultimately have adv: "advance dir (mi_host m) (mi_host m')" "advance dir (mi_host m1) (mi_host m')"
    using s1 advance_trans by blast+
  have ids: "me_id e' = me_id e" "me_versions e' = vs" "me_subtitles e' = ts" "me_transcoded_path e' = me_transcoded_path e2"
    using s4(4) s2(4) by simp_all
  have "entry_live dir (mi_host m') e'"
    unfolding entry_live_def ids using s4(4,5) s2(4,5) v3 s3 a23 advance_settled by auto
  moreover have "entry_live dir (mi_host m') e" if c: "\<not> mi_changed m'"
  proof -
    have c3: "\<not> mi_changed m3" "\<not> mi_changed m2" "\<not> mi_changed m1" using c s4(2) s3 s2(2) by blast+
    have e: "e2 = e\<lparr>me_versions := vs\<rparr>" "e' = e2\<lparr>me_subtitles := ts\<rparr>" using s2(3) c3 s4(3) c by blast+
    have "me_versions e \<noteq> [] \<longrightarrow> vs \<noteq> []" using s1 c3 by blast
    moreover have "\<forall>v \<in> set (me_versions e). settled dir (mi_host m') (snd v)" using s1 c3 adv(2) advance_settled by blast
    moreover have "\<forall>t \<in> set (me_subtitles e). settled dir (mi_host m') (sub_path t)"
      using s3 c3 a23(2) advance_settled e(1) by auto
    ultimately show ?thesis using \<open>entry_live dir (mi_host m') e'\<close> e by (auto simp: entry_live_def)
  qed
  ultimately show ?thesis using adv ids by blast
qed


section \<open>The library\<close>

lemma migrate_one_step:
  assumes "migrate_one env dir e (s, m, k) = (s1, m1, k1)" and "db_ok s" and "entry_of s (me_id e) = Some e"
    and "\<forall>p \<in> set (owned_files e). \<not> h_dirs (mi_host m) p"
  shows "db_ok s1 \<and> db_settings s1 = db_settings s \<and> advance dir (mi_host m) (mi_host m1)
    \<and> (\<exists>e'. entry_of s1 (me_id e) = Some e' \<and> entry_live dir (mi_host m1) e')
    \<and> (\<forall>i. i \<noteq> me_id e \<longrightarrow> entry_of s1 i = entry_of s i)"
proof -
  obtain m' e' where r: "migrate_entry env dir e m = (m', e')" by fastforce
  note st = migrate_entry_live [OF r assms(4)]
  have m': "m1 = m'" using assms(1) r by (auto simp: migrate_one_def split: if_splits prod.splits db.splits)
  have s1: "s1 = (if mi_changed m' then fst (put_media e' s) else s)"
    using assms(1) r by (auto simp: migrate_one_def split: if_splits prod.splits db.splits)
  have "db_settings (fst (put_media e' s)) = db_settings s" by (simp add: put_media_def)
  then show ?thesis
    using st assms(2,3) unfolding s1 m' by (auto simp: entry_of_put)
qed

lemma migrate_fold:
  "fold (migrate_one env dir) es (s, m, k) = (s', m', k') \<Longrightarrow> db_ok s \<Longrightarrow> distinct (map me_id es) \<Longrightarrow>
    \<forall>e \<in> set es. entry_of s (me_id e) = Some e \<and> (\<forall>p \<in> set (owned_files e). \<not> h_dirs (mi_host m) p) \<Longrightarrow>
    db_ok s' \<and> db_settings s' = db_settings s \<and> advance dir (mi_host m) (mi_host m')
    \<and> (\<forall>e \<in> set es. \<exists>e'. entry_of s' (me_id e) = Some e' \<and> entry_live dir (mi_host m') e')
    \<and> (\<forall>i. i \<notin> me_id ` set es \<longrightarrow> entry_of s' i = entry_of s i)"
proof (induction es arbitrary: s m k)
  case (Cons e es)
  obtain s1 m1 k1 where one: "migrate_one env dir e (s, m, k) = (s1, m1, k1)"
    by (cases "migrate_one env dir e (s, m, k)") auto
  have e: "entry_of s (me_id e) = Some e" "\<forall>p \<in> set (owned_files e). \<not> h_dirs (mi_host m) p" using Cons.prems(4) by simp_all
  note st = migrate_one_step [OF one Cons.prems(2) e]
  have fresh: "me_id e \<notin> me_id ` set es" using Cons.prems(3) by simp
  have "h_dirs (mi_host m1) = h_dirs (mi_host m)" using st advance_dirs by blast
  moreover have "entry_of s1 (me_id e') = Some e'" if "e' \<in> set es" for e'
  proof -
    have "me_id e' \<noteq> me_id e" using that fresh by (metis image_eqI)
    then show ?thesis using st Cons.prems(4) that by simp
  qed
  ultimately have IH: "db_ok s' \<and> db_settings s' = db_settings s1 \<and> advance dir (mi_host m1) (mi_host m')
      \<and> (\<forall>e \<in> set es. \<exists>e'. entry_of s' (me_id e) = Some e' \<and> entry_live dir (mi_host m') e')
      \<and> (\<forall>i. i \<notin> me_id ` set es \<longrightarrow> entry_of s' i = entry_of s1 i)"
    using Cons.IH [of s1 m1 k1] Cons.prems one st by simp
  obtain e' where "entry_of s1 (me_id e) = Some e'" "entry_live dir (mi_host m1) e'" using st by blast
  moreover have "entry_of s' (me_id e) = entry_of s1 (me_id e)" using IH fresh by blast
  ultimately have here: "\<exists>e'. entry_of s' (me_id e) = Some e' \<and> entry_live dir (mi_host m') e'" using IH live_advance by metis
  have adv: "advance dir (mi_host m) (mi_host m')" using IH st advance_trans by blast
  have "entry_of s' i = entry_of s i" if "i \<notin> me_id ` set (e # es)" for i
  proof -
    have "i \<noteq> me_id e" "i \<notin> me_id ` set es" using that by simp_all
    then have "entry_of s' i = entry_of s1 i" "entry_of s1 i = entry_of s i" using IH st by blast+
    then show ?thesis by simp
  qed
  moreover have "\<forall>x \<in> set (e # es). \<exists>e'. entry_of s' (me_id x) = Some e' \<and> entry_live dir (mi_host m') e'"
    using here IH by simp
  moreover have "db_ok s' \<and> db_settings s' = db_settings s" using IH st by simp
  ultimately show ?case using adv by blast
qed simp

lemma migrate_rest_advance: "advance dir (mi_host m) (mi_host (migrate_rest env old_dir dir n m))"
proof -
  let ?p = "path_join old_dir [Normal n]"
  obtain h r where mv: "move_file env dir ?p (mi_host m) = (h, r)" by fastforce
  show ?thesis
  proof (cases "is_file (mi_host m) ?p")
    case True
    then have "advance dir (mi_host m) h" using move_file_settles(1) [OF mv] by simp
    then show ?thesis using True mv by (auto simp: migrate_rest_def note_move_def split: move_result.splits)
  qed (simp add: migrate_rest_def)
qed

lemma fold_rest_advance: "advance dir (mi_host m) (mi_host (fold (migrate_rest env old_dir dir) ns m))"
proof (induction ns arbitrary: m)
  case (Cons n ns)
  show ?case using advance_trans [OF migrate_rest_advance Cons.IH] by simp
qed simp

text \<open>
  C21. A migration loses nothing: every file of the host is afterwards where it was, or in the new
  directory under its name, with its content, and no two share a place. And it leaves a consistent
  library: every version and subtitle that an entry names is a file, and so are the media file and the
  transcoded path of an entry that has a version.
\<close>

theorem migration_lossless:
  assumes "library_ok s" and "db_ok s" and "migrate_media env base (s, h) = ((s', h'), Inr counts)"
    and "\<forall>i e. entry_of s i = Some e \<longrightarrow> (\<forall>p \<in> set (owned_files e). \<not> h_dirs h p \<and> \<not> path_starts_with (migration_dir base) p)"
  shows "relocates (migration_dir base) h h'
    \<and> (\<forall>i e'. entry_of s' i = Some e' \<longrightarrow>
        (\<forall>v \<in> set (me_versions e'). is_file h' (snd v)) \<and> (\<forall>t \<in> set (me_subtitles e'). is_file h' (sub_path t))
        \<and> (me_versions e' \<noteq> [] \<longrightarrow> is_file h' (me_media_file e') \<and> (\<forall>tp. me_transcoded_path e' = Some tp \<longrightarrow> is_file h' tp)))"
proof -
  let ?dir = "migration_dir base" let ?es = "valid_values (db_library s)" let ?s1 = "fst (list_media s)"
  let ?m = "\<lparr>mi_host = create_dir_all ?dir h, mi_moved = 0, mi_bytes = 0, mi_changed = False\<rparr>"
  obtain s2 m2 k where f: "fold (migrate_one env ?dir) ?es (?s1, ?m, 0) = (s2, m2, k)"
    by (cases "fold (migrate_one env ?dir) ?es (?s1, ?m, 0)") auto
  have wf: "bt_wf (db_library s)" using assms(1) by (simp add: library_ok_def)
  have same: "entry_of ?s1 = entry_of s" by (rule entry_of_list_media [OF wf assms(2)])
  have ok: "db_ok ?s1" using assms(2) by (simp add: list_media_def)
  have listed: "\<forall>e \<in> set ?es. entry_of ?s1 (me_id e) = Some e \<and> (\<forall>p \<in> set (owned_files e). \<not> h_dirs (mi_host ?m) p)"
    using listed_entry [OF assms(1)] assms(4) by (auto simp: same create_dir_all_def)
  note st = migrate_fold [OF f ok valid_ids_distinct [OF assms(1)] listed]
  have "\<exists>m3 :: migration. advance ?dir (mi_host m2) (mi_host m3) \<and> h_files h' = h_files (mi_host m3)"
  proof -
    have ls: "migrate_media env base (s, h) = ((s', h'), Inr counts)" by fact
    let ?old = "as_transcode_dir (get_settings (mi_host m2) s2)"
    let ?rest = "fold (migrate_rest env ?old ?dir) (case mv_ls env (mi_host m2) ?old of None \<Rightarrow> [] | Some ns \<Rightarrow> ns) m2"
    have "h' = mi_host m2 \<or> h' = remove_dir (mv_empty env) ?old (mi_host ?rest)"
      using ls f by (auto simp: migrate_media_def media_or_none_ok [OF assms(2)] Let_def split: sum.splits if_splits)
    moreover have "h_files (remove_dir e d x) = h_files x" for e d x by (simp add: remove_dir_def)
    ultimately have "h_files h' = h_files (mi_host m2) \<or> h_files h' = h_files (mi_host ?rest)" by auto
    then show ?thesis
    proof
      assume "h_files h' = h_files (mi_host m2)"
      then show ?thesis using advance_refl [of ?dir "mi_host m2"] by blast
    next
      assume "h_files h' = h_files (mi_host ?rest)"
      then show ?thesis using fold_rest_advance [of ?dir m2 env ?old] by blast
    qed
  qed
  then obtain m3 :: migration where m3: "advance ?dir (mi_host m2) (mi_host m3)" "h_files h' = h_files (mi_host m3)" by blast
  have adv: "advance ?dir (create_dir_all ?dir h) (mi_host m3)" using st m3(1) advance_trans by force
  have "relocates ?dir h (create_dir_all ?dir h)" by (rule relocates_refl) (simp add: create_dir_all_def)
  then have "relocates ?dir h (mi_host m3)" using adv relocates_trans by (auto simp: advance_def carried_def)
  moreover have "relocates ?dir (mi_host m3) h'" by (rule relocates_refl [OF m3(2)])
  ultimately have reloc: "relocates ?dir h h'" by (rule relocates_trans)
  have s': "entry_of s' = entry_of s2"
    using assms(3) f by (auto simp: migrate_media_def media_or_none_ok [OF assms(2)] Let_def put_settings_def entry_of_def
        fun_eq_iff split: sum.splits if_splits)
  have "(\<forall>v \<in> set (me_versions e'). is_file h' (snd v)) \<and> (\<forall>t \<in> set (me_subtitles e'). is_file h' (sub_path t))
      \<and> (me_versions e' \<noteq> [] \<longrightarrow> is_file h' (me_media_file e') \<and> (\<forall>tp. me_transcoded_path e' = Some tp \<longrightarrow> is_file h' tp))"
    if "entry_of s' i = Some e'" for i e'
  proof -
    have "i \<in> me_id ` set ?es"
    proof (rule ccontr)
      assume "i \<notin> me_id ` set ?es"
      then have "entry_of s i = Some e'" using st that s' same by metis
      then have "e' \<in> set ?es" "me_id e' = i" using listed_entry [OF assms(1)] entry_id [OF assms(1)] by auto
      with \<open>i \<notin> me_id ` set ?es\<close> show False by blast
    qed
    then have "entry_live ?dir (mi_host m2) e'" using st that s' by auto
    then have "entry_live ?dir (mi_host m3) e'" using m3(1) live_advance by blast
    moreover have "settled ?dir (mi_host m3) p \<Longrightarrow> is_file h' p" for p by (simp add: settled_def is_file_def m3(2))
    ultimately show ?thesis by (auto simp: entry_live_def)
  qed
  then show ?thesis using reloc by blast
qed


section \<open>Moves that fail\<close>

text \<open>A full disk, say: nothing can be renamed or copied.\<close>

definition immovable :: "move_env \<Rightarrow> bool" where
  "immovable env \<longleftrightarrow> (\<forall>src dest. \<not> mv_rename env src dest \<and> \<not> mv_copy env src dest)"

text \<open>A path that a migration leaves alone: it is there, in the new directory or with its place there taken.\<close>

definition stays :: "pathbuf \<Rightarrow> host \<Rightarrow> pathbuf \<Rightarrow> bool" where
  "stays dir h p \<longleftrightarrow> path_exists h p \<and> (\<exists>d. placed dir p = Some d \<and> (d = p \<or> path_exists h d))"

lemma immovable_move:
  assumes "immovable env"
  shows "move_file env dir p h = (h, if stays dir h p then AlreadyThere else if path_exists h p then MoveFailed else SourceMissing)"
  using assms by (auto simp: immovable_def move_file_def stays_def placed_def Let_def split: option.splits)

lemma hm_insert_new: "k \<notin> fst ` set m \<Longrightarrow> hm_insert k v m = m @ [(k, v)]"
  by (induction k v m rule: hm_insert.induct) auto

text \<open>What stays the same from one state of a migration to the next when nothing can be moved.\<close>

definition stuck :: "migration \<Rightarrow> migration \<Rightarrow> bool" where
  "stuck m m' \<longleftrightarrow> mi_host m' = mi_host m \<and> mi_moved m' = mi_moved m \<and> (mi_changed m \<longrightarrow> mi_changed m')"

lemma stuck_refl [simp]: "stuck m m" by (simp add: stuck_def)

lemma stuck_trans: "stuck m1 m2 \<Longrightarrow> stuck m2 m3 \<Longrightarrow> stuck m1 m3" by (simp add: stuck_def)

lemma stuck_changed [simp]: "stuck m (m\<lparr>mi_changed := True\<rparr>)" by (simp add: stuck_def)

lemma immovable_versions:
  assumes "immovable env"
  shows "fold (migrate_version env dir) vs (m, live) = (m', live') \<Longrightarrow> stuck m m'
    \<and> ((\<exists>v \<in> set vs. \<not> stays dir (mi_host m) (snd v)) \<longrightarrow> mi_changed m')
    \<and> (distinct (map fst (live @ vs)) \<longrightarrow> live' = live @ filter (\<lambda>v. stays dir (mi_host m) (snd v)) vs)"
proof (induction vs arbitrary: m live)
  case (Cons v vs)
  obtain n p where v: "v = (n, p)" by (cases v)
  obtain m1 live1 where one: "migrate_version env dir v (m, live) = (m1, live1)" by fastforce
  have s: "stuck m m1 \<and> (\<not> stays dir (mi_host m) p \<longrightarrow> mi_changed m1)
      \<and> live1 = (if stays dir (mi_host m) p then hm_insert n p live else live)"
    using one by (auto simp: migrate_version_def v immovable_move [OF assms] stuck_def split: if_splits)
  have "fold (migrate_version env dir) vs (m1, live1) = (m', live')" using Cons.prems one by simp
  note IH = Cons.IH [OF this]
  have host: "mi_host m1 = mi_host m" using s by (simp add: stuck_def)
  have "live' = live @ filter (\<lambda>v. stays dir (mi_host m) (snd v)) (v # vs)" if d: "distinct (map fst (live @ v # vs))"
  proof -
    have "n \<notin> fst ` set live" using d by (auto simp: v)
    then have l: "live1 = live @ (if stays dir (mi_host m) p then [v] else [])" using s by (simp add: v hm_insert_new)
    then have "distinct (map fst (live1 @ vs))" using d by auto
    then show ?thesis using IH l by (simp add: host v)
  qed
  then show ?case using s IH stuck_trans by (auto simp: host v stuck_def)
qed simp

lemma immovable_subtitles:
  assumes "immovable env"
  shows "fold (migrate_subtitle env dir) ts (m, live) = (m', live') \<Longrightarrow> stuck m m'
    \<and> ((\<exists>t \<in> set ts. \<not> stays dir (mi_host m) (sub_path t)) \<longrightarrow> mi_changed m')
    \<and> live' = live @ filter (\<lambda>t. stays dir (mi_host m) (sub_path t)) ts"
proof (induction ts arbitrary: m live)
  case (Cons t ts)
  obtain m1 live1 where one: "migrate_subtitle env dir t (m, live) = (m1, live1)" by fastforce
  then have s: "stuck m m1 \<and> (\<not> stays dir (mi_host m) (sub_path t) \<longrightarrow> mi_changed m1)
      \<and> live1 = live @ (if stays dir (mi_host m) (sub_path t) then [t] else [])"
    by (auto simp: migrate_subtitle_def immovable_move [OF assms] stuck_def split: if_splits)
  have "fold (migrate_subtitle env dir) ts (m1, live1) = (m', live')" using Cons.prems one by simp
  from Cons.IH [OF this] s show ?case by (auto simp: stuck_def)
qed simp

lemma immovable_entry:
  assumes "immovable env" and "migrate_entry env dir e m = (m', e')"
  defines "kept p \<equiv> stays dir (mi_host m) p"
  shows "mi_host m' = mi_host m \<and> mi_moved m' = mi_moved m \<and> me_id e' = me_id e
    \<and> (hm_wf (me_versions e) \<longrightarrow> me_versions e' = filter (\<lambda>v. kept (snd v)) (me_versions e))
    \<and> me_subtitles e' = filter (\<lambda>t. kept (sub_path t)) (me_subtitles e)
    \<and> (\<not> mi_changed m' \<longrightarrow> (\<forall>v \<in> set (me_versions e). kept (snd v)) \<and> (\<forall>t \<in> set (me_subtitles e). kept (sub_path t)))"
proof -
  let ?m = "m\<lparr>mi_changed := False\<rparr>"
  obtain m1 vs where 1: "fold (migrate_version env dir) (me_versions e) (?m, []) = (m1, vs)" by fastforce
  obtain m2 e2 where 2: "migrate_transcoded env dir (m1, e\<lparr>me_versions := vs\<rparr>) = (m2, e2)" by fastforce
  obtain m3 ts where 3: "fold (migrate_subtitle env dir) (me_subtitles e2) (m2, []) = (m3, ts)" by fastforce
  have 4: "migrate_media_file env dir (m3, e2\<lparr>me_subtitles := ts\<rparr>) = (m', e')"
    using assms(2) 1 2 3 by (simp add: migrate_entry_def)
  have s2: "stuck m1 m2" "me_versions e2 = vs" "me_id e2 = me_id e" "me_subtitles e2 = me_subtitles e"
    using 2 by (auto simp: migrate_transcoded_def immovable_move [OF assms(1)] split: option.splits list.splits if_splits)
  have s4: "stuck m3 m'" "me_versions e' = me_versions e2" "me_id e' = me_id e2" "me_subtitles e' = ts"
    using 4 by (auto simp: migrate_media_file_def immovable_move [OF assms(1)] split: list.splits if_splits)
  note v = immovable_versions [OF assms(1) 1] and t = immovable_subtitles [OF assms(1) 3]
  have host: "mi_host m1 = mi_host m" "mi_host m2 = mi_host m" using v s2(1) by (simp_all add: stuck_def)
  show ?thesis
    using v t s2 s4 host by (auto simp: stuck_def kept_def hm_wf_def)
qed

text \<open>An entry of the library after a migration in which nothing could be moved.\<close>

definition forgets :: "pathbuf \<Rightarrow> host \<Rightarrow> media_entry \<Rightarrow> media_entry \<Rightarrow> bool" where
  "forgets dir h e e' \<longleftrightarrow> (hm_wf (me_versions e) \<longrightarrow> me_versions e' = filter (\<lambda>v. stays dir h (snd v)) (me_versions e))
     \<and> me_subtitles e' = filter (\<lambda>t. stays dir h (sub_path t)) (me_subtitles e)"

lemma immovable_fold:
  assumes "immovable env"
  shows "fold (migrate_one env dir) es (s, m, k) = (s', m', k') \<Longrightarrow> db_ok s \<Longrightarrow> distinct (map me_id es) \<Longrightarrow>
    \<forall>e \<in> set es. entry_of s (me_id e) = Some e \<Longrightarrow>
    mi_host m' = mi_host m \<and> mi_moved m' = mi_moved m \<and> k' = k \<and> db_ok s'
    \<and> (\<forall>i. i \<notin> me_id ` set es \<longrightarrow> entry_of s' i = entry_of s i)
    \<and> (\<forall>e \<in> set es. \<exists>e'. entry_of s' (me_id e) = Some e' \<and> forgets dir (mi_host m) e e')"
proof (induction es arbitrary: s m k)
  case (Cons e es)
  obtain s1 m1 k1 where one: "migrate_one env dir e (s, m, k) = (s1, m1, k1)"
    by (cases "migrate_one env dir e (s, m, k)") auto
  obtain m2 e2 where r: "migrate_entry env dir e m = (m2, e2)" by fastforce
  note st = immovable_entry [OF assms r]
  have res: "m1 = m2" "k1 = k" "s1 = (if mi_changed m2 then fst (put_media e2 s) else s)"
    using one r Cons.prems(2) by (auto simp: migrate_one_def put_media_def split: if_splits prod.splits db.splits)
  have e: "entry_of s (me_id e) = Some e" using Cons.prems(4) by simp
  have s1: "db_ok s1" "\<forall>i. i \<noteq> me_id e \<longrightarrow> entry_of s1 i = entry_of s i"
    using st Cons.prems(2) unfolding res by (auto simp: entry_of_put)
  have new: "\<exists>e'. entry_of s1 (me_id e) = Some e' \<and> forgets dir (mi_host m) e e'"
  proof (cases "mi_changed m2")
    case True
    then show ?thesis using st Cons.prems(2) unfolding res by (auto simp: entry_of_put forgets_def)
  next
    case False
    then have "filter (\<lambda>v. stays dir (mi_host m) (snd v)) (me_versions e) = me_versions e"
      "filter (\<lambda>t. stays dir (mi_host m) (sub_path t)) (me_subtitles e) = me_subtitles e"
      using st by simp_all
    then show ?thesis using False e unfolding res by (simp add: forgets_def)
  qed
  have fresh: "me_id e \<notin> me_id ` set es" using Cons.prems(3) by simp
  have "\<forall>e' \<in> set es. entry_of s1 (me_id e') = Some e'" using Cons.prems(4) s1(2) fresh by (auto simp: image_iff)
  moreover have "fold (migrate_one env dir) es (s1, m1, k1) = (s', m', k')" using Cons.prems(1) one by simp
  ultimately have IH: "mi_host m' = mi_host m1 \<and> mi_moved m' = mi_moved m1 \<and> k' = k1 \<and> db_ok s'
    \<and> (\<forall>i. i \<notin> me_id ` set es \<longrightarrow> entry_of s' i = entry_of s1 i)
    \<and> (\<forall>e \<in> set es. \<exists>e'. entry_of s' (me_id e) = Some e' \<and> forgets dir (mi_host m1) e e')"
    using Cons.IH [of s1 m1 k1] Cons.prems(3) s1(1) by simp
  have "entry_of s' i = entry_of s i" if "i \<notin> me_id ` set (e # es)" for i
    using that IH s1(2) by simp
  moreover have "entry_of s' (me_id e) = entry_of s1 (me_id e)" using IH fresh by blast
  moreover have "mi_host m1 = mi_host m" "mi_moved m1 = mi_moved m" using st res by simp_all
  ultimately show ?case using IH new res by auto
qed simp

lemma immovable_rest:
  assumes "immovable env"
  shows "fold (migrate_rest env old_dir dir) ns m = m"
proof -
  have "migrate_rest env old_dir dir n m = m" for n
    by (simp add: migrate_rest_def Let_def immovable_move [OF assms])
  then show ?thesis by (induction ns) simp_all
qed

text \<open>
  C22. A migration whose moves fail, on a full disk for one, forgets the files it could not move: all
  stay where they are and the answer counts no error, but every entry keeps only the versions and
  subtitles that were to stay, because they are in the new directory or their name is taken there.
\<close>

theorem failed_migration_forgets_versions:
  assumes "library_ok s" and "db_ok s" and "migrate_media env base (s, h) = ((s', h'), Inr (moved, bytes, errors))"
    and "immovable env" and "dir = migration_dir base" and "h1 = create_dir_all dir h"
    and "\<forall>i e. entry_of s i = Some e \<longrightarrow> hm_wf (me_versions e)"
  shows "h_files h' = h_files h \<and> moved = 0 \<and> errors = 0
    \<and> (\<forall>i e. entry_of s i = Some e \<longrightarrow> (\<exists>e'. entry_of s' i = Some e'
        \<and> me_versions e' = filter (\<lambda>v. stays dir h1 (snd v)) (me_versions e)
        \<and> me_subtitles e' = filter (\<lambda>t. stays dir h1 (sub_path t)) (me_subtitles e)))"
proof -
  let ?es = "valid_values (db_library s)" let ?s1 = "fst (list_media s)"
  let ?m = "\<lparr>mi_host = h1, mi_moved = 0, mi_bytes = 0, mi_changed = False\<rparr>"
  obtain s2 m2 k where f: "fold (migrate_one env dir) ?es (?s1, ?m, 0) = (s2, m2, k)"
    by (cases "fold (migrate_one env dir) ?es (?s1, ?m, 0)") auto
  have ok: "db_ok ?s1" using assms(2) by (simp add: list_media_def)
  have "bt_wf (db_library s)" using assms(1) by (simp add: library_ok_def)
  then have same: "entry_of ?s1 = entry_of s" using assms(2) by (rule entry_of_list_media)
  have "\<forall>e \<in> set ?es. entry_of ?s1 (me_id e) = Some e" using listed_entry [OF assms(1)] by (simp add: same)
  note st = immovable_fold [OF assms(4) f ok valid_ids_distinct [OF assms(1)] this, simplified]
  have "entry_of s' = entry_of s2 \<and> h_files h' = h_files (mi_host m2) \<and> moved = mi_moved m2 \<and> errors = k"
    using assms(3) f immovable_rest [OF assms(4)]
    by (auto simp: migrate_media_def media_or_none_ok [OF assms(2)] Let_def put_settings_def entry_of_def remove_dir_def
        fun_eq_iff assms(5,6) [symmetric] split: sum.splits if_splits)
  moreover have "\<exists>e'. entry_of s2 i = Some e' \<and> forgets dir h1 e e'" if "entry_of s i = Some e" for i e
    using st that listed_entry [OF assms(1)] entry_id [OF assms(1) that] by fastforce
  ultimately show ?thesis using st assms(6,7) by (fastforce simp: create_dir_all_def forgets_def)
qed


section \<open>Settings\<close>

text \<open>A change is stored exactly when its directories are allowed; an empty key keeps the stored one.\<close>

theorem change_settings_exact:
  assumes "db_ok s" and "change_settings h a s = (s', r)"
  shows "r = (if dirs_valid h a then Inr () else Inl BadRequest)"
    and "get_settings h s' = (if dirs_valid h a
      then (if as_tmdb_api_key a = [] then a\<lparr>as_tmdb_api_key := as_tmdb_api_key (get_settings h s)\<rparr> else a)
      else get_settings h s)"
  using assms by (auto simp: change_settings_def put_settings_def get_settings_def Let_def split: if_splits)

text \<open>The repair at start-up replaces the two directories exactly when they are the old defaults.\<close>

lemma fold_repair_record:
  "db_ok s \<Longrightarrow> db_settings (fold (repair_record d) rs s) = db_settings s \<and> db_ok (fold (repair_record d) rs s)"
  by (induction rs arbitrary: s) (auto simp: repair_record_def put_download_def)

theorem repair_legacy_settings:
  assumes "db_ok s" and "a = get_settings h s" and "fallback = home_movies_subdir h ''transcoded''"
  shows "get_settings h (repair_legacy_dirs h s) = a
    \<lparr>as_download_dir := (if as_download_dir a = path_of (ascii ''.'') then default_download_dir h else as_download_dir a),
     as_transcode_dir := (if as_transcode_dir a = fallback then default_transcode_dir h else as_transcode_dir a)\<rparr>"
proof -
  have put: "put_settings b s = (s\<lparr>db_settings := Some (Valid b)\<rparr>, DbOk ())" for b
    using assms(1) by (simp add: put_settings_def)
  have get: "get_settings h (fold (repair_record d) rs (fst (list_downloads (s\<lparr>db_settings := Some (Valid b)\<rparr>)))) = b"
    "get_settings h (s\<lparr>db_settings := Some (Valid b)\<rparr>) = b" for d rs b
    using assms(1) fold_repair_record [of "fst (list_downloads (s\<lparr>db_settings := Some (Valid b)\<rparr>))" d rs]
    by (simp_all add: get_settings_def list_downloads_def)
  have list: "list_downloads (s\<lparr>db_settings := Some (Valid b)\<rparr>)
      = (fst (list_downloads (s\<lparr>db_settings := Some (Valid b)\<rparr>)), DbOk (valid_values (db_downloads s)))" for b
    using assms(1) by (simp add: list_downloads_def)
  have after: "get_settings h (case list_downloads (s\<lparr>db_settings := Some (Valid b)\<rparr>) of
      (s2, DbErr) \<Rightarrow> s2 | (s2, DbOk rs) \<Rightarrow> fold (repair_record d) rs s2) = b" for b d
    by (subst list) (simp add: get)
  show ?thesis
  proof (cases "as_download_dir a = path_of (ascii ''.'')")
    case True
    then show ?thesis
      unfolding repair_legacy_dirs_def Let_def assms(2,3) [symmetric] put by (auto simp: after)
  next
    case False
    then show ?thesis
      unfolding repair_legacy_dirs_def Let_def assms(2,3) [symmetric] put by (simp add: get assms(2))
  qed
qed

section \<open>Witnesses\<close>

definition example_migration :: store where
  "example_migration = \<lparr>db_downloads = [], db_library = [(me_id example_entry,
     Valid (example_entry\<lparr>me_subtitles := [], me_versions := [(ascii ''hevc'', me_media_file example_entry)]\<rparr>))],
     db_settings = None, db_ok = True\<rparr>"

definition example_moves :: "bool \<Rightarrow> move_env" where
  "example_moves ok = \<lparr>mv_rename = (\<lambda>src dest. ok), mv_copy = (\<lambda>src dest. False), mv_mkdir = (\<lambda>d. True),
     mv_ls = (\<lambda>h d. None), mv_empty = (\<lambda>h d. False)\<rparr>"

definition example_base :: pathbuf where
  "example_base = [RootDir, Normal (ascii ''home''), Normal (ascii ''u'')]"

lemma example_migration_ok:
  "library_ok example_migration" "db_ok example_migration"
  "\<forall>i e. entry_of example_migration i = Some e \<longrightarrow> (\<forall>p \<in> set (owned_files e).
     \<not> h_dirs example_host p \<and> \<not> path_starts_with (migration_dir example_base) p)"
  "\<exists>s' h' moved bytes errors. migrate_media (example_moves ok) example_base (example_migration, example_host)
     = ((s', h'), Inr (moved, bytes, errors))"
proof -
  show "library_ok example_migration"
    by (auto simp: library_ok_def example_migration_def bt_wf_def example_entry_def split: if_splits)
  show "db_ok example_migration" by (simp add: example_migration_def)
  have "\<not> h_dirs example_host (me_media_file example_entry)"
    "\<not> path_starts_with (migration_dir example_base) (me_media_file example_entry)" by code_simp+
  then show "\<forall>i e. entry_of example_migration i = Some e \<longrightarrow> (\<forall>p \<in> set (owned_files e).
     \<not> h_dirs example_host p \<and> \<not> path_starts_with (migration_dir example_base) p)"
    by (auto simp: entry_of_def example_migration_def owned_files_def example_entry_def split: if_splits)
  have "confine example_host example_base = Inr example_base" by code_simp
  then show "\<exists>s' h' moved bytes errors. migrate_media (example_moves ok) example_base (example_migration, example_host)
     = ((s', h'), Inr (moved, bytes, errors))"
    by (auto simp: migrate_media_def example_moves_def Let_def split: prod.splits)
qed

theorem migration_lossless_witness:
  "case migrate_media (example_moves True) example_base (example_migration, example_host) of ((s', h'), r) \<Rightarrow>
     \<exists>p. h_files h' p = Some 4000000"
proof -
  obtain s' h' moved bytes errors where r: "migrate_media (example_moves True) example_base (example_migration, example_host)
     = ((s', h'), Inr (moved, bytes, errors))" using example_migration_ok(4) by blast
  have "relocates (migration_dir example_base) example_host h'"
    using migration_lossless [OF example_migration_ok(1,2) r example_migration_ok(3)] by blast
  then obtain \<pi> where "is_file example_host p \<Longrightarrow> h_files h' (\<pi> p) = h_files example_host p" for p
    unfolding relocates_def by blast
  moreover have "h_files example_host (me_media_file example_entry) = Some 4000000" by code_simp
  ultimately have "h_files h' (\<pi> (me_media_file example_entry)) = Some 4000000" by (simp add: is_file_def)
  then show ?thesis using r by auto
qed

theorem failed_migration_forgets_versions_witness:
  "case migrate_media (example_moves False) example_base (example_migration, example_host) of ((s', h'), r) \<Rightarrow>
     is_file h' (me_media_file example_entry) \<and> (\<exists>e'. entry_of s' (me_id example_entry) = Some e' \<and> me_versions e' = [])"
proof -
  let ?e = "example_entry\<lparr>me_subtitles := [], me_versions := [(ascii ''hevc'', me_media_file example_entry)]\<rparr>"
  obtain s' h' moved bytes errors where r: "migrate_media (example_moves False) example_base (example_migration, example_host)
     = ((s', h'), Inr (moved, bytes, errors))" using example_migration_ok(4) by blast
  have imm: "immovable (example_moves False)" by (simp add: immovable_def example_moves_def)
  have e: "entry_of example_migration (me_id example_entry) = Some ?e" by (simp add: entry_of_def example_migration_def)
  have wf: "\<forall>i e. entry_of example_migration i = Some e \<longrightarrow> hm_wf (me_versions e)"
    by (auto simp: entry_of_def example_migration_def hm_wf_def split: if_splits)
  have pl: "placed (migration_dir example_base) (me_media_file example_entry)
      = Some [RootDir, Normal (ascii ''home''), Normal (ascii ''u''), moviehouse, Normal (ascii ''a.mkv'')]"
    "\<not> path_exists (create_dir_all (migration_dir example_base) example_host)
       [RootDir, Normal (ascii ''home''), Normal (ascii ''u''), moviehouse, Normal (ascii ''a.mkv'')]"
    "[RootDir, Normal (ascii ''home''), Normal (ascii ''u''), moviehouse, Normal (ascii ''a.mkv'')] \<noteq> me_media_file example_entry"
    "is_file example_host (me_media_file example_entry)"
    by code_simp+
  then have gone: "\<not> stays (migration_dir example_base) (create_dir_all (migration_dir example_base) example_host)
      (me_media_file example_entry)" by (simp add: stays_def)
  note t = failed_migration_forgets_versions [OF example_migration_ok(1,2) r imm refl refl wf]
  then obtain e' where "entry_of s' (me_id example_entry) = Some e'" "me_versions e' =
      filter (\<lambda>v. stays (migration_dir example_base) (create_dir_all (migration_dir example_base) example_host) (snd v)) (me_versions ?e)"
    using e by blast
  with gone have "\<exists>e'. entry_of s' (me_id example_entry) = Some e' \<and> me_versions e' = []" by simp
  moreover have "h_files h' = h_files example_host" using t by blast
  ultimately show ?thesis using pl(4) r by (simp add: is_file_def)
qed

end
