(* ===== verification/Tmdb.thy ===== *)
theory Tmdb
  imports Library_Api
begin

text \<open>
  Metadata from TMDB (\<open>tmdb.rs\<close>) and the requests that use it (\<open>web/api/library.rs\<close>,
  \<open>web/api/filesystem.rs\<close>): the retries of a request, the search for a film or a show, the episodes of a
  season, and how the answers are written into the library. The service is a parameter: for every
  URL and attempt, no answer, or a status with a body that may fail to decode.
\<close>

section \<open>Requests\<close>

definition MAX_ATTEMPTS :: nat where "MAX_ATTEMPTS = 4"

datatype 'a http_reply = NoReply | HttpReply nat "'a option"

definition is_success :: "nat \<Rightarrow> bool" where "is_success st \<longleftrightarrow> 200 \<le> st \<and> st < 300"
definition is_transient :: "nat \<Rightarrow> bool" where "is_transient st \<longleftrightarrow> st = 429 \<or> (500 \<le> st \<and> st < 600)"

text \<open>The loop over the attempts that are left: the value, and the pauses in milliseconds.\<close>

fun get_json_from :: "(nat \<Rightarrow> 'a http_reply) \<Rightarrow> nat \<Rightarrow> nat \<Rightarrow> 'a option \<times> nat list" where
  "get_json_from reply attempt 0 = (None, [])"
| "get_json_from reply attempt (Suc n) =
     (let again = (if attempt = MAX_ATTEMPTS then (None, [])
                   else (case get_json_from reply (attempt + 1) n of (v, ps) \<Rightarrow> (v, 250 * attempt # ps))) in
      case reply attempt of
        NoReply \<Rightarrow> again
      | HttpReply st body \<Rightarrow>
          if is_success st then (body, []) else if is_transient st then again else (None, []))"

definition get_json :: "(nat \<Rightarrow> 'a http_reply) \<Rightarrow> 'a option \<times> nat list" where
  "get_json reply = get_json_from reply 1 MAX_ATTEMPTS"

section \<open>Addresses\<close>

text \<open>The number of a character, and its hexadecimal form with at least two digits.\<close>

definition code_point :: "bytes \<Rightarrow> nat" where
  "code_point c = (case c of
       [a] \<Rightarrow> unat a
     | [a, b] \<Rightarrow> unat (a AND 0x1F) * 64 + unat (b AND 0x3F)
     | [a, b, d] \<Rightarrow> unat (a AND 0x0F) * 4096 + unat (b AND 0x3F) * 64 + unat (d AND 0x3F)
     | [a, b, d, e] \<Rightarrow> unat (a AND 0x07) * 262144 + unat (b AND 0x3F) * 4096 + unat (d AND 0x3F) * 64 + unat (e AND 0x3F)
     | _ \<Rightarrow> 0)"

definition upper_digit :: "nat \<Rightarrow> u8" where
  "upper_digit d = (if d < 10 then of_nat (48 + d) else of_nat (55 + d))"

fun upper_hex :: "nat \<Rightarrow> bytes" where
  "upper_hex n = (if n < 16 then [upper_digit n] else upper_hex (n div 16) @ [upper_digit (n mod 16)])"

declare upper_hex.simps [simp del]

definition url_char :: "unicode \<Rightarrow> bytes \<Rightarrow> bytes" where
  "url_char u c =
     (if is_alphanumeric u c \<or> c \<in> set (map (\<lambda>x. ascii [x]) ''-_.~'') then c
      else if c = ascii '' '' then ascii ''+''
      else (let x = upper_hex (code_point c) in 37 # (if length x < 2 then 48 # x else x)))"

definition urlencoding :: "unicode \<Rightarrow> bytes \<Rightarrow> bytes" where
  "urlencoding u s = concat (map (url_char u) (chars s))"

definition TMDB_BASE :: bytes where "TMDB_BASE = ascii ''https://api.themoviedb.org/3''"
definition IMAGE_BASE :: bytes where "IMAGE_BASE = ascii ''https://image.tmdb.org/t/p/w500''"

definition search_url :: "unicode \<Rightarrow> string \<Rightarrow> bytes \<Rightarrow> bytes \<Rightarrow> u16 option \<Rightarrow> bytes" where
  "search_url u kind key title year =
     TMDB_BASE @ ascii ''/search/'' @ ascii kind @ ascii ''?api_key='' @ key @ ascii ''&query='' @ urlencoding u title
     @ (case year of None \<Rightarrow> [] | Some y \<Rightarrow> ascii ''&year='' @ dec_nat (unat y))"

definition credits_url :: "string \<Rightarrow> bytes \<Rightarrow> u64 \<Rightarrow> bytes" where
  "credits_url kind key i = TMDB_BASE @ ascii ''/'' @ ascii kind @ ascii ''/'' @ dec_nat (unat i) @ ascii ''/credits?api_key='' @ key"

definition season_url :: "bytes \<Rightarrow> u64 \<Rightarrow> u16 \<Rightarrow> bytes" where
  "season_url key i season = TMDB_BASE @ ascii ''/tv/'' @ dec_nat (unat i) @ ascii ''/season/'' @ dec_nat (unat season)
     @ ascii ''?api_key='' @ key"

section \<open>Answers\<close>

record tmdb_movie =
  tm_id :: u64
  tm_title :: "bytes option"
  tm_name :: "bytes option"
  tm_overview :: "bytes option"
  tm_poster_path :: "bytes option"
  tm_vote_average :: "f32 option"
  tm_release_date :: "bytes option"
  tm_first_air_date :: "bytes option"

record cast_member =
  ca_name :: bytes
  ca_order :: "u32 option"

record crew_member =
  cr_name :: bytes
  cr_job :: bytes

record credits_response =
  cd_cast :: "cast_member list option"
  cd_crew :: "crew_member list option"

record tmdb_episode =
  te_number :: u16
  te_name :: "bytes option"
  te_overview :: "bytes option"

record tmdb_service =
  sv_search :: "bytes \<Rightarrow> nat \<Rightarrow> tmdb_movie list http_reply"
  sv_credits :: "bytes \<Rightarrow> nat \<Rightarrow> credits_response http_reply"
  sv_season :: "bytes \<Rightarrow> nat \<Rightarrow> tmdb_episode list option http_reply"

record movie_metadata =
  mm_tmdb_id :: u64
  mm_title :: "bytes option"
  mm_poster_url :: "bytes option"
  mm_overview :: "bytes option"
  mm_rating :: "f32 option"
  mm_cast :: "bytes list"
  mm_director :: "bytes option"
  mm_year :: "u16 option"

section \<open>Films and shows\<close>

text \<open>\<open>results.first()?\<close> of the answer to a search.\<close>

definition first_result :: "tmdb_service \<Rightarrow> bytes \<Rightarrow> tmdb_movie option" where
  "first_result sv url = Option.bind (fst (get_json (sv_search sv url))) (\<lambda>rs. case rs of [] \<Rightarrow> None | m # _ \<Rightarrow> Some m)"

definition year_of_date :: "bytes option \<Rightarrow> u16 option" where
  "year_of_date d = Option.bind (Option.bind d (str_get 0 4)) (\<lambda>y. map_option of_nat (parse_u16 y))"

definition top_cast :: "credits_response \<Rightarrow> bytes list" where
  "top_cast c = map ca_name (filter (\<lambda>m. (case ca_order m of None \<Rightarrow> 999 | Some n \<Rightarrow> n) < 5)
     (case cd_cast c of None \<Rightarrow> [] | Some ms \<Rightarrow> ms))"

definition find_director :: "string list \<Rightarrow> credits_response \<Rightarrow> bytes option" where
  "find_director jobs c = map_option cr_name (List.find (\<lambda>m. cr_job m \<in> set (map ascii jobs))
     (case cd_crew c of None \<Rightarrow> [] | Some ms \<Rightarrow> ms))"

definition poster_of :: "tmdb_movie \<Rightarrow> bytes option" where
  "poster_of m = map_option (\<lambda>p. IMAGE_BASE @ p) (tm_poster_path m)"

definition fetch_movie :: "unicode \<Rightarrow> tmdb_service \<Rightarrow> bytes \<Rightarrow> bytes \<Rightarrow> u16 option \<Rightarrow> movie_metadata option" where
  "fetch_movie u sv key title year =
     Option.bind (first_result sv (search_url u ''movie'' key title year)) (\<lambda>m.
     Option.bind (fst (get_json (sv_credits sv (credits_url ''movie'' key (tm_id m))))) (\<lambda>c.
       Some \<lparr>mm_tmdb_id = tm_id m, mm_title = tm_title m, mm_poster_url = poster_of m, mm_overview = tm_overview m,
         mm_rating = tm_vote_average m, mm_cast = top_cast c, mm_director = find_director [''Director''] c,
         mm_year = year_of_date (tm_release_date m)\<rparr>))"

definition fetch_tv_metadata :: "unicode \<Rightarrow> tmdb_service \<Rightarrow> bytes \<Rightarrow> bytes \<Rightarrow> movie_metadata option" where
  "fetch_tv_metadata u sv key title =
     Option.bind (first_result sv (search_url u ''tv'' key title None)) (\<lambda>m.
     Option.bind (fst (get_json (sv_credits sv (credits_url ''tv'' key (tm_id m))))) (\<lambda>c.
       Some \<lparr>mm_tmdb_id = tm_id m, mm_title = (case tm_name m of Some n \<Rightarrow> Some n | None \<Rightarrow> tm_title m),
         mm_poster_url = poster_of m, mm_overview = tm_overview m, mm_rating = tm_vote_average m, mm_cast = top_cast c,
         mm_director = find_director [''Director'', ''Executive Producer''] c,
         mm_year = year_of_date (tm_first_air_date m)\<rparr>))"

definition fetch_metadata_auto ::
  "unicode \<Rightarrow> tmdb_service \<Rightarrow> bytes \<Rightarrow> bytes \<Rightarrow> u16 option \<Rightarrow> bool \<Rightarrow> movie_metadata option" where
  "fetch_metadata_auto u sv key title year is_show =
     (if is_show then fetch_tv_metadata u sv key title else fetch_movie u sv key title year)"

text \<open>Names and overviews by episode number; a later episode of the same number replaces an earlier one.\<close>

definition fetch_season_episodes ::
  "unicode \<Rightarrow> tmdb_service \<Rightarrow> bytes \<Rightarrow> u64 option \<Rightarrow> bytes \<Rightarrow> u16 \<Rightarrow> (u16 \<times> bytes \<times> bytes) list option" where
  "fetch_season_episodes u sv key tmdb_id show_title season =
     Option.bind (case tmdb_id of
         Some i \<Rightarrow> Some i
       | None \<Rightarrow> map_option tm_id (first_result sv (search_url u ''tv'' key show_title None))) (\<lambda>i.
     Option.bind (fst (get_json (sv_season sv (season_url key i season)))) (\<lambda>eps.
       Some (fold (\<lambda>ep t. hm_insert (te_number ep)
           (case te_name ep of None \<Rightarrow> [] | Some n \<Rightarrow> n, case te_overview ep of None \<Rightarrow> [] | Some v \<Rightarrow> v) t)
         (case eps of None \<Rightarrow> [] | Some es \<Rightarrow> es) [])))"

section \<open>Writing metadata\<close>

definition apply_metadata :: "movie_metadata \<Rightarrow> media_entry \<Rightarrow> media_entry" where
  "apply_metadata meta e =
     (let e1 = (case mm_title meta of None \<Rightarrow> e | Some t \<Rightarrow> e\<lparr>me_title := t\<rparr>);
          e2 = e1\<lparr>me_poster_url := mm_poster_url meta, me_overview := mm_overview meta, me_rating := mm_rating meta,
            me_cast := mm_cast meta, me_director := mm_director meta, me_tmdb_id := Some (mm_tmdb_id meta)\<rparr> in
      if mm_year meta \<noteq> None \<and> me_year e2 = None then e2\<lparr>me_year := mm_year meta\<rparr> else e2)"

definition apply_episode :: "bytes \<times> bytes \<Rightarrow> media_entry \<Rightarrow> media_entry" where
  "apply_episode = (\<lambda>(name, overview) e.
     let e1 = (if name \<noteq> [] then e\<lparr>me_episode_title := Some name\<rparr> else e) in
     if overview \<noteq> [] then e1\<lparr>me_overview := Some overview\<rparr> else e1)"

text \<open>The task of \<open>refresh_metadata\<close>; a panic in the parser ends it.\<close>

definition refresh_task :: "unicode \<Rightarrow> tmdb_service \<Rightarrow> bytes \<Rightarrow> uuid \<Rightarrow> media_entry \<Rightarrow> store \<Rightarrow> store" where
  "refresh_task u sv key i e s = (case parse_media_title u (me_title e) of
       Panic \<Rightarrow> s
     | Done (clean, parsed_year) \<Rightarrow>
         (let year = (case me_year e of Some y \<Rightarrow> Some y | None \<Rightarrow> parsed_year);
              title = (case me_show_name e of Some n \<Rightarrow> n | None \<Rightarrow> clean) in
          case fetch_metadata_auto u sv key title year (me_show_name e \<noteq> None) of
            None \<Rightarrow> s
          | Some meta \<Rightarrow> set_media i (apply_metadata meta) s))"

definition refresh_metadata :: "unicode \<Rightarrow> tmdb_service \<Rightarrow> host \<Rightarrow> uuid \<Rightarrow> store \<Rightarrow> store \<times> (api_error + unit)" where
  "refresh_metadata u sv h i s = (case get_media i s of
       (s1, DbOk (Some e)) \<Rightarrow>
         (let settings = get_settings h s1 in
          if as_tmdb_api_key settings = [] then (s1, Inl BadRequest)
          else (refresh_task u sv (as_tmdb_api_key settings) i e s1, Inr ()))
     | (s1, _) \<Rightarrow> (s1, Inl NotFoundErr))"

section \<open>Groups\<close>

text \<open>The data of one season, written to the episodes of the group that are in it.\<close>

definition refresh_episode :: "u16 \<Rightarrow> (u16 \<times> bytes \<times> bytes) list \<Rightarrow> media_entry \<Rightarrow> store \<Rightarrow> store" where
  "refresh_episode season eps e s =
     (if me_season e \<noteq> Some season then s
      else case Option.bind (me_episode e) (map_of eps) of
        None \<Rightarrow> s
      | Some meta \<Rightarrow> set_media (me_id e) (apply_episode meta) s)"

definition refresh_season ::
  "unicode \<Rightarrow> tmdb_service \<Rightarrow> bytes \<Rightarrow> u64 \<Rightarrow> bytes \<Rightarrow> media_entry list \<Rightarrow> u16 \<Rightarrow> store \<Rightarrow> store" where
  "refresh_season u sv key tmdb_id title es season s =
     (case fetch_season_episodes u sv key (Some tmdb_id) title season of
        None \<Rightarrow> s
      | Some eps \<Rightarrow> fold (refresh_episode season eps) es s)"

definition seasons_of :: "media_entry list \<Rightarrow> u16 list" where
  "seasons_of es = sort (remdups (List.map_filter me_season es))"

definition refresh_group_task :: "unicode \<Rightarrow> tmdb_service \<Rightarrow> bytes \<Rightarrow> media_entry list \<Rightarrow> store \<Rightarrow> store" where
  "refresh_group_task u sv key es s =
     (let first = hd es; is_show = (me_show_name first \<noteq> None) in
      case parse_media_title u (case me_show_name first of Some n \<Rightarrow> n | None \<Rightarrow> me_title first) of
        Panic \<Rightarrow> s
      | Done (clean, parsed_year) \<Rightarrow>
          (let year = (case me_year first of Some y \<Rightarrow> Some y | None \<Rightarrow> parsed_year) in
           case fetch_metadata_auto u sv key clean year is_show of
             None \<Rightarrow> s
           | Some meta \<Rightarrow>
               (let s1 = fold (\<lambda>e. set_media (me_id e) (apply_metadata meta)) es s in
                if is_show then fold (refresh_season u sv key (mm_tmdb_id meta) clean es) (seasons_of es) s1 else s1)))"

definition refresh_group_metadata ::
  "unicode \<Rightarrow> tmdb_service \<Rightarrow> host \<Rightarrow> uuid \<Rightarrow> u16 option \<Rightarrow> store \<Rightarrow> store \<times> (api_error + unit)" where
  "refresh_group_metadata u sv h g season s =
     (let (s1, media) = list_media_by_group g s;
          es0 = (case media of DbErr \<Rightarrow> [] | DbOk es \<Rightarrow> es);
          es = (case season of None \<Rightarrow> es0 | Some n \<Rightarrow> filter (\<lambda>e. me_season e = Some n) es0);
          settings = get_settings h s1 in
      if es = [] then (s1, Inl NotFoundErr)
      else if as_tmdb_api_key settings = [] then (s1, Inl BadRequest)
      else (refresh_group_task u sv (as_tmdb_api_key settings) es s1, Inr ()))"

text \<open>A search from the browser (\<open>search_metadata\<close>).\<close>

definition search_metadata ::
  "unicode \<Rightarrow> tmdb_service \<Rightarrow> host \<Rightarrow> store \<Rightarrow> bytes \<Rightarrow> u16 option \<Rightarrow> api_error + movie_metadata" where
  "search_metadata u sv h s title year =
     (let key = as_tmdb_api_key (get_settings h s) in
      if key = [] then Inl BadRequest
      else case fetch_movie u sv key title year of None \<Rightarrow> Inl NotFoundErr | Some meta \<Rightarrow> Inr meta)"

end
