(* ===== verification/Tmdb_Correct.thy ===== *)
theory Tmdb_Correct
  imports Tmdb Library_Correct
begin

text \<open>
  What the client of TMDB does: its retries are a search for the first attempt that decides the
  request, the title of a search survives the encoding of the address where it is ASCII or letters,
  and a refresh changes nothing of an entry but its descriptive fields.
\<close>

section \<open>Retries\<close>

text \<open>An attempt decides a request unless it failed in transport or with 429 or 5xx.\<close>

definition decided :: "'a http_reply \<Rightarrow> bool" where
  "decided r \<longleftrightarrow> (case r of NoReply \<Rightarrow> False | HttpReply st _ \<Rightarrow> \<not> is_transient st)"

definition decided_value :: "'a http_reply \<Rightarrow> 'a option" where
  "decided_value r = (case r of NoReply \<Rightarrow> None | HttpReply st body \<Rightarrow> if is_success st then body else None)"

lemma success_not_transient: "is_success st \<Longrightarrow> \<not> is_transient st"
  by (simp add: is_success_def is_transient_def)

lemma get_json_step:
  "get_json_from reply attempt (Suc n) =
    (if decided (reply attempt) then (decided_value (reply attempt), [])
     else if attempt = MAX_ATTEMPTS then (None, [])
     else apsnd ((#) (250 * attempt)) (get_json_from reply (attempt + 1) n))"
  by (auto simp: decided_def decided_value_def success_not_transient split: http_reply.splits prod.splits)

text \<open>
  C23. A request returns what the first attempt that decides it gives, and nothing when four attempts
  in a row fail; it pauses 250, 500 and 750 milliseconds before the second, third and fourth attempt.
\<close>

theorem get_json_exact:
  "get_json reply =
    (let lost = length (takeWhile (\<lambda>k. \<not> decided (reply k)) [1, 2, 3, 4]) in
     (if lost < 4 then decided_value (reply (lost + 1)) else None,
      map (\<lambda>k. 250 * k) (take (min lost 3) [1, 2, 3])))"
proof -
  have four: "MAX_ATTEMPTS = Suc (Suc (Suc (Suc 0)))" by (simp add: MAX_ATTEMPTS_def)
  show ?thesis unfolding get_json_def four get_json_step MAX_ATTEMPTS_def
    by (simp add: Let_def apsnd_def map_prod_def eval_nat_numeral split: prod.splits)
qed

section \<open>The encoding of titles\<close>

text \<open>The decoding of a query string, as a server does it.\<close>

definition hex_value :: "u8 \<Rightarrow> nat option" where
  "hex_value b = (if 48 \<le> b \<and> b \<le> 57 then Some (unat b - 48)
     else if 65 \<le> b \<and> b \<le> 70 then Some (unat b - 55)
     else if 97 \<le> b \<and> b \<le> 102 then Some (unat b - 87) else None)"

fun url_decode :: "bytes \<Rightarrow> bytes" where
  "url_decode [] = []"
| "url_decode [b] = [if b = 43 then 32 else b]"
| "url_decode [b, c] = (if b = 43 then 32 else b) # url_decode [c]"
| "url_decode (b # h # l # r) =
     (if b = 37 \<and> hex_value h \<noteq> None \<and> hex_value l \<noteq> None
      then of_nat (16 * the (hex_value h) + the (hex_value l)) # url_decode r
      else (if b = 43 then 32 else b) # url_decode (h # l # r))"

lemma url_decode_plain: "b \<noteq> 37 \<Longrightarrow> url_decode (b # r) = (if b = 43 then 32 else b) # url_decode r"
  by (cases "(b # r)" rule: url_decode.cases) auto

lemma hex_value_digit:
  assumes "d < 16"
  shows "hex_value (upper_digit d) = Some d"
proof -
  have "d = 0 \<or> d = 1 \<or> d = 2 \<or> d = 3 \<or> d = 4 \<or> d = 5 \<or> d = 6 \<or> d = 7
      \<or> d = 8 \<or> d = 9 \<or> d = 10 \<or> d = 11 \<or> d = 12 \<or> d = 13 \<or> d = 14 \<or> d = 15"
    using assms by presburger
  then show ?thesis by (elim disjE) (simp_all add: upper_digit_def hex_value_def)
qed

lemma upper_hex_byte:
  "n < 256 \<Longrightarrow> (let x = upper_hex n in if length x < 2 then 48 # x else x) = [upper_digit (n div 16), upper_digit (n mod 16)]"
  by (subst upper_hex.simps, subst upper_hex.simps) (auto simp: Let_def upper_digit_def)

lemma url_decode_byte: "n < 256 \<Longrightarrow> url_decode (37 # upper_digit (n div 16) # upper_digit (n mod 16) # r) = of_nat n # url_decode r"
  by (simp add: hex_value_digit div_less_dividend less_mult_imp_div_less del: of_nat_add of_nat_mult)

lemma url_char_single: "url_decode (url_char u [b] @ r) = b # url_decode r"
proof -
  let ?kept = "is_alphanumeric u [b] \<or> b \<in> {45, 95, 46, 126}"
  have marks: "[b] \<in> set (map (\<lambda>x. ascii [x]) ''-_.~'') \<longleftrightarrow> b \<in> {45, 95, 46, 126}"
    by (simp add: ascii_def)
  consider (kept) ?kept | (blank) "b = 32" | (coded) "\<not> ?kept" "b \<noteq> 32" by blast
  then show ?thesis
  proof cases
    case kept
    then have "b \<noteq> 37" "b \<noteq> 43" by (auto simp: is_alphanumeric_def is_ascii_digit_def)
    with kept show ?thesis unfolding url_char_def marks by (simp add: url_decode_plain)
  next
    case blank
    then show ?thesis
      unfolding url_char_def marks by (simp add: url_decode_plain is_alphanumeric_def is_ascii_digit_def ascii_def)
  next
    case coded
    have b: "unat b < 256" by (rule less_le_trans [OF unsigned_less]) simp
    have "[b] \<noteq> ascii '' ''" using coded by (simp add: ascii_def)
    then have "url_char u [b] = [37, upper_digit (unat b div 16), upper_digit (unat b mod 16)]"
      unfolding url_char_def marks using coded upper_hex_byte [OF b] by (simp add: code_point_def Let_def)
    then show ?thesis by (simp add: url_decode_byte [OF b] del: url_decode.simps)
  qed
qed

lemma url_decode_high: "\<forall>b \<in> set c. 128 \<le> b \<Longrightarrow> url_decode (c @ r) = c @ url_decode r"
proof (induction c)
  case (Cons b c)
  then have "b \<noteq> 37" "b \<noteq> 43" by auto
  with Cons show ?case by (simp add: url_decode_plain)
qed simp

lemma url_decode_chars:
  assumes "\<forall>c \<in> set cs. (length c = 1 \<or> (\<forall>b \<in> set c. 128 \<le> b)) \<and> (length c = 1 \<or> is_alphanumeric u c)"
  shows "url_decode (concat (map (url_char u) cs)) = concat cs"
  using assms
proof (induction cs)
  case (Cons c cs)
  then have rest: "url_decode (concat (map (url_char u) cs)) = concat cs" by simp
  show ?case
  proof (cases "length c = 1")
    case True
    then obtain b where "c = [b]" by (auto simp: length_Suc_conv)
    with rest show ?thesis by (simp add: url_char_single)
  next
    case False
    with Cons.prems have "\<forall>b \<in> set c. 128 \<le> b" "url_char u c = c" by (auto simp: url_char_def)
    with rest show ?thesis by (simp add: url_decode_high)
  qed
qed simp

text \<open>The bytes that would end the query or start another parameter.\<close>

definition query_marks :: "u8 set" where
  "query_marks = {32, 35, 38, 47, 61, 63}"

lemma upper_hex_marks: "b \<in> set (upper_hex n) \<Longrightarrow> b \<notin> query_marks"
proof (induction n rule: upper_hex.induct)
  case (1 n)
  have digit: "upper_digit d \<notin> query_marks" if "d < 16" for d
    using hex_value_digit [OF that] by (auto simp: query_marks_def hex_value_def)
  have "b \<in> set (upper_hex n) \<longleftrightarrow> b \<in> set (if n < 16 then [upper_digit n] else upper_hex (n div 16) @ [upper_digit (n mod 16)])"
    by (subst upper_hex.simps) simp
  with 1 digit show ?case by (auto split: if_splits)
qed

lemma url_char_marks:
  assumes "length c = 1 \<or> (\<forall>b \<in> set c. 128 \<le> b)" and "b \<in> set (url_char u c)"
  shows "b \<notin> query_marks"
proof -
  have marks: "c \<in> set (map (\<lambda>x. ascii [x]) ''-_.~'') \<longleftrightarrow> c \<in> {[45], [95], [46], [126]}" by (simp add: ascii_def)
  have kept: ?thesis if "url_char u c = c" "is_alphanumeric u c \<or> c \<in> {[45], [95], [46], [126]}"
  proof (cases "length c = 1")
    case True
    then obtain a where "c = [a]" by (auto simp: length_Suc_conv)
    with that assms(2) show ?thesis by (auto simp: query_marks_def is_alphanumeric_def is_ascii_digit_def)
  next
    case False
    with assms that(1) have "128 \<le> b" by auto
    then show ?thesis by (auto simp: query_marks_def)
  qed
  show ?thesis
  proof (cases "is_alphanumeric u c \<or> c \<in> {[45], [95], [46], [126]}")
    case True
    then show ?thesis using kept unfolding url_char_def marks by auto
  next
    case False
    with assms(2) upper_hex_marks [of b] show ?thesis
      unfolding url_char_def marks by (auto simp: Let_def query_marks_def ascii_def split: if_splits)
  qed
qed

text \<open>
  The title of a search is encoded without a byte that would end the query or start another
  parameter, and a server decodes it to the title when its characters outside ASCII are letters or
  digits. For the others the number of the character is written instead of its bytes.
\<close>

theorem urlencoding_decodes:
  assumes "utf8_valid title"
  shows "set (urlencoding u title) \<inter> query_marks = {} \<and>
    ((\<forall>c \<in> set (chars title). length c = 1 \<or> is_alphanumeric u c) \<longrightarrow> url_decode (urlencoding u title) = title)"
proof -
  have "set (urlencoding u title) \<inter> query_marks = {}"
    using chars_width [OF assms] url_char_marks by (fastforce simp: urlencoding_def)
  moreover have "url_decode (urlencoding u title) = title"
    if "\<forall>c \<in> set (chars title). length c = 1 \<or> is_alphanumeric u c"
    using url_decode_chars [of "chars title" u] chars_width [OF assms] that by (simp add: urlencoding_def)
  ultimately show ?thesis by blast
qed

theorem urlencoding_decodes_witness:
  "url_decode (urlencoding ascii_only (ascii ''A & B?'')) = ascii ''A & B?''"
proof -
  have "utf8_valid (ascii ''A & B?'')" by code_simp
  moreover have "\<forall>c \<in> set (chars (ascii ''A & B?'')). length c = 1" by code_simp
  ultimately show ?thesis using urlencoding_decodes [of "ascii ''A & B?''" ascii_only] by blast
qed

text \<open>An en dash (U+2013) becomes \<open>%2013\<close>, which a server reads as a blank and \<open>13\<close>.\<close>

lemma urlencoding_dash:
  assumes "\<not> uni_alphanumeric u [0xE2, 0x80, 0x93]"
  shows "urlencoding u [0xE2, 0x80, 0x93] = ascii ''%2013'' \<and> url_decode (urlencoding u [0xE2, 0x80, 0x93]) = ascii '' 13''"
proof -
  have "code_point [0xE2, 0x80, 0x93] = 8211" by code_simp
  moreover have "upper_hex 8211 = ascii ''2013''" by code_simp
  moreover have "chars [0xE2, 0x80, 0x93] = [[0xE2, 0x80, 0x93]]" by code_simp
  ultimately have "urlencoding u [0xE2, 0x80, 0x93] = ascii ''%2013''"
    using assms by (simp add: urlencoding_def url_char_def is_alphanumeric_def Let_def ascii_def)
  moreover have "url_decode (ascii ''%2013'') = ascii '' 13''" by code_simp
  ultimately show ?thesis by simp
qed

section \<open>Refreshing\<close>

text \<open>An entry with other descriptive fields; a year that is known stays.\<close>

definition retold :: "media_entry \<Rightarrow> media_entry \<Rightarrow> bool" where
  "retold e e' \<longleftrightarrow> e' = e\<lparr>me_title := me_title e', me_poster_url := me_poster_url e', me_overview := me_overview e',
       me_rating := me_rating e', me_cast := me_cast e', me_director := me_director e', me_year := me_year e',
       me_tmdb_id := me_tmdb_id e', me_episode_title := me_episode_title e'\<rparr>
     \<and> (me_year e \<noteq> None \<longrightarrow> me_year e' = me_year e)"

lemma retold_refl: "retold e e"
  by (simp add: retold_def)

lemma retold_trans: "retold a b \<Longrightarrow> retold b c \<Longrightarrow> retold a c"
  by (cases a; cases b; cases c) (auto simp: retold_def)

lemma apply_metadata_retold: "retold e (apply_metadata meta e)"
  by (cases e) (auto simp: retold_def apply_metadata_def Let_def split: option.splits)

lemma apply_episode_retold: "retold e (apply_episode meta e)"
  by (cases e) (auto simp: retold_def apply_episode_def Let_def split: prod.splits)

lemma retold_id: "retold e e' \<Longrightarrow> me_id e' = me_id e"
  by (cases e; cases e') (auto simp: retold_def)

lemma apply_metadata_tmdb: "me_tmdb_id (apply_metadata meta e) = Some (mm_tmdb_id meta)"
  by (auto simp: apply_metadata_def Let_def split: option.splits)

lemma apply_episode_tmdb: "me_tmdb_id (apply_episode meta e) = me_tmdb_id e"
  by (auto simp: apply_episode_def Let_def split: prod.splits)

text \<open>A store in which only entries with ids in a set were retold, and nothing else changed.\<close>

definition keyed :: "store \<Rightarrow> bool" where
  "keyed s \<longleftrightarrow> db_ok s \<and> (\<forall>i e. entry_of s i = Some e \<longrightarrow> me_id e = i)"

definition retells :: "uuid set \<Rightarrow> store \<Rightarrow> store \<Rightarrow> bool" where
  "retells I s s' \<longleftrightarrow> keyed s' \<and> (\<forall>i. rel_option retold (entry_of s i) (entry_of s' i))
     \<and> (\<forall>i. i \<notin> I \<longrightarrow> entry_of s' i = entry_of s i)
     \<and> db_downloads s' = db_downloads s \<and> db_settings s' = db_settings s"

lemma rel_retold_refl: "rel_option retold x x"
  by (cases x) (simp_all add: retold_refl)

lemma rel_retold_trans: "rel_option retold x y \<Longrightarrow> rel_option retold y z \<Longrightarrow> rel_option retold x z"
  by (cases x; cases y; cases z) (auto intro: retold_trans)

lemma retells_refl: "keyed s \<Longrightarrow> retells I s s"
  by (simp add: retells_def rel_retold_refl)

lemma retells_trans: "retells I s s1 \<Longrightarrow> retells I s1 s2 \<Longrightarrow> retells I s s2"
  unfolding retells_def by (metis rel_retold_trans)

lemma set_media_keyed:
  assumes "keyed s" and "\<And>e. me_id (f e) = me_id e"
  shows "entry_of (set_media i f s) = (entry_of s)(i := map_option f (entry_of s i))
    \<and> db_ok (set_media i f s) \<and> db_downloads (set_media i f s) = db_downloads s \<and> db_settings (set_media i f s) = db_settings s"
proof (cases "map_of (db_library s) i")
  case None
  then show ?thesis using assms(1)
    by (auto simp: set_media_def update_media_def get_media_def keyed_def entry_of_def fun_eq_iff)
next
  case (Some v)
  show ?thesis
  proof (cases v)
    case (Valid e)
    then have "me_id e = i" "db_ok s" using assms(1) Some by (auto simp: keyed_def entry_of_def)
    then show ?thesis using Some Valid assms(2) [of e]
      by (auto simp: set_media_def update_media_def get_media_def put_media_def entry_of_def fun_eq_iff)
  next
    case Corrupt
    have "db_ok s" using assms(1) by (simp add: keyed_def)
    then show ?thesis using Some Corrupt
      by (auto simp: set_media_def update_media_def get_media_def entry_of_def fun_eq_iff)
  qed
qed

lemma set_media_retells:
  assumes "keyed s" and "\<And>e. retold e (f e)" and "i \<in> I"
  shows "retells I s (set_media i f s)"
proof -
  note m = set_media_keyed [OF assms(1), of f i, OF retold_id [OF assms(2)]]
  have "me_id (f e) = j" if "entry_of s j = Some e" for e j
    using that assms(1) retold_id [OF assms(2)] by (simp add: keyed_def)
  then show ?thesis using assms m by (auto simp: retells_def keyed_def option.rel_map rel_retold_refl option.rel_refl)
qed

text \<open>Entries that carry one TMDB identifier.\<close>

definition tagged :: "u64 \<Rightarrow> uuid set \<Rightarrow> store \<Rightarrow> bool" where
  "tagged t I s \<longleftrightarrow> (\<forall>i \<in> I. \<forall>e. entry_of s i = Some e \<longrightarrow> me_tmdb_id e = Some t)"

definition advances :: "u64 \<Rightarrow> uuid set \<Rightarrow> store \<Rightarrow> store \<Rightarrow> bool" where
  "advances t I s s' \<longleftrightarrow> retells I s s' \<and> (tagged t I s \<longrightarrow> tagged t I s')"

lemma advances_refl: "keyed s \<Longrightarrow> advances t I s s"
  by (simp add: advances_def retells_refl)

lemma advances_trans: "advances t I s s1 \<Longrightarrow> advances t I s1 s2 \<Longrightarrow> advances t I s s2"
  unfolding advances_def by (blast intro: retells_trans)

lemma advances_fold:
  assumes "\<And>x s. x \<in> set xs \<Longrightarrow> keyed s \<Longrightarrow> advances t I s (f x s)"
  shows "keyed s \<Longrightarrow> advances t I s (fold f xs s)"
  using assms
proof (induction xs arbitrary: s)
  case (Cons x xs)
  then have "advances t I s (f x s)" by simp
  moreover from this have "advances t I (f x s) (fold f xs (f x s))"
    using Cons by (simp add: retells_def advances_def)
  ultimately show ?case by (auto intro: advances_trans)
qed (simp add: advances_refl)

lemma set_media_advances:
  assumes "keyed s" and "\<And>e. retold e (f e)" and "i \<in> I"
    and "\<And>e. me_tmdb_id e = Some t \<Longrightarrow> me_tmdb_id (f e) = Some t"
  shows "advances t I s (set_media i f s)"
  using assms set_media_retells [OF assms(1-3)] set_media_keyed [OF assms(1), of f i, OF retold_id [OF assms(2)]]
  by (auto simp: advances_def tagged_def)

lemma refresh_episode_advances:
  "keyed s \<Longrightarrow> me_id e \<in> I \<Longrightarrow> advances t I s (refresh_episode n eps e s)"
  by (auto simp: refresh_episode_def advances_refl apply_episode_tmdb split: option.splits
      intro!: set_media_advances apply_episode_retold)

lemma refresh_season_advances:
  "keyed s \<Longrightarrow> me_id ` set es \<subseteq> I \<Longrightarrow> advances t I s (refresh_season u sv key k title es n s)"
  by (auto simp: refresh_season_def advances_refl split: option.splits
      intro!: advances_fold refresh_episode_advances)

lemma fold_metadata_tagged:
  "keyed s \<Longrightarrow> tagged (mm_tmdb_id meta) I s \<Longrightarrow>
    tagged (mm_tmdb_id meta) (I \<union> me_id ` set es) (fold (\<lambda>e. set_media (me_id e) (apply_metadata meta)) es s)"
proof (induction es arbitrary: s I)
  case (Cons e es)
  let ?s = "set_media (me_id e) (apply_metadata meta) s"
  have "keyed ?s" using set_media_retells [OF Cons.prems(1) apply_metadata_retold, of "me_id e" UNIV] by (simp add: retells_def)
  moreover have "tagged (mm_tmdb_id meta) (insert (me_id e) I) ?s"
    using Cons.prems(2) set_media_keyed [OF Cons.prems(1), of "apply_metadata meta" "me_id e", OF retold_id [OF apply_metadata_retold]]
    by (auto simp: tagged_def apply_metadata_tmdb)
  ultimately show ?case using Cons.IH [of ?s "insert (me_id e) I"] by simp
qed simp

lemma refresh_group_task_spec:
  assumes "keyed s" and "refresh_group_task u sv key es s = s'"
  shows "retells (me_id ` set es) s s' \<and> ((\<exists>t. tagged t (me_id ` set es) s') \<or> s' = s)"
proof (cases "s' = s")
  case True
  then show ?thesis using assms(1) by (simp add: retells_refl)
next
  case False
  let ?I = "me_id ` set es"
  obtain meta clean k where meta: "s' = (let s1 = fold (\<lambda>e. set_media (me_id e) (apply_metadata meta)) es s in
      if me_show_name (hd es) \<noteq> None then fold (refresh_season u sv key (mm_tmdb_id meta) clean es) k s1 else s1)"
    using assms(2) False by (auto simp: refresh_group_task_def Let_def split: run.splits prod.splits option.splits if_splits)
  let ?t = "mm_tmdb_id meta" and ?s1 = "fold (\<lambda>e. set_media (me_id e) (apply_metadata meta)) es s"
  have one: "advances ?t ?I s ?s1"
    by (rule advances_fold [OF _ assms(1)]) (auto intro!: set_media_advances apply_metadata_retold simp: apply_metadata_tmdb)
  have tag: "tagged ?t ?I ?s1" using fold_metadata_tagged [OF assms(1), of meta "{}" es] by (simp add: tagged_def)
  have "keyed ?s1" using one by (simp add: advances_def retells_def)
  then have "advances ?t ?I ?s1 (fold (refresh_season u sv key ?t clean es) k ?s1)"
    by (rule advances_fold [rotated]) (auto intro: refresh_season_advances)
  with one tag meta show ?thesis by (auto simp: advances_def Let_def intro: retells_trans)
qed

text \<open>The entries a refresh of a group is about.\<close>

definition in_group :: "store \<Rightarrow> uuid \<Rightarrow> u16 option \<Rightarrow> uuid set" where
  "in_group s g season = {i. \<exists>e. entry_of s i = Some e \<and> me_group_id e = Some g
     \<and> (case season of None \<Rightarrow> True | Some n \<Rightarrow> me_season e = Some n)}"

lemma ids_in_group:
  assumes "library_ok s"
  shows "me_id ` set (filter (\<lambda>e. case season of None \<Rightarrow> True | Some n \<Rightarrow> me_season e = Some n)
    (filter (\<lambda>e. me_group_id e = Some g) (valid_values (db_library s)))) = in_group s g season"
proof (intro set_eqI iffI)
  fix i assume "i \<in> in_group s g season"
  then obtain e where e: "entry_of s i = Some e" "me_group_id e = Some g"
    "case season of None \<Rightarrow> True | Some n \<Rightarrow> me_season e = Some n" by (auto simp: in_group_def)
  moreover have "me_id e = i" by (rule entry_id [OF assms e(1)])
  ultimately show "i \<in> me_id ` set (filter (\<lambda>e. case season of None \<Rightarrow> True | Some n \<Rightarrow> me_season e = Some n)
      (filter (\<lambda>e. me_group_id e = Some g) (valid_values (db_library s))))"
    using listed_entry [OF assms, of e] by auto
qed (auto simp: in_group_def listed_entry [OF assms])

text \<open>
  C25. Refreshing a group rewrites only descriptive fields and only of its entries: files, versions,
  positions, episode numbers and every other entry stay, a known year is kept, nothing is added or
  lost, and either nothing changes or all of its entries carry one TMDB identifier.
\<close>

theorem refresh_keeps_files:
  assumes "library_ok s" and "db_ok s" and "refresh_group_metadata u sv h g season s = (s', r)"
  shows "retells (in_group s g season) s s' \<and>
    ((\<exists>t. tagged t (in_group s g season) s') \<or> entry_of s' = entry_of s)"
proof -
  let ?s1 = "fst (list_media s)"
  let ?es = "filter (\<lambda>e. case season of None \<Rightarrow> True | Some n \<Rightarrow> me_season e = Some n)
    (filter (\<lambda>e. me_group_id e = Some g) (valid_values (db_library s)))"
  have same: "entry_of ?s1 = entry_of s" using assms(1,2) by (simp add: entry_of_list_media library_ok_def)
  have rest: "db_downloads ?s1 = db_downloads s" "db_settings ?s1 = db_settings s" "db_ok ?s1"
    using assms(2) by (simp_all add: list_media_def)
  have keyed: "keyed ?s1" using rest(3) entry_id [OF assms(1)] by (simp add: keyed_def same)
  have ids: "me_id ` set ?es = in_group s g season" by (rule ids_in_group [OF assms(1)])
  have "s' = ?s1 \<or> (\<exists>key. s' = refresh_group_task u sv key ?es ?s1)"
    using assms(2,3) by (auto simp: refresh_group_metadata_def list_media_by_group_def list_media_def Let_def
        split: if_splits option.splits)
  then have "retells (in_group s g season) ?s1 s' \<and> ((\<exists>t. tagged t (in_group s g season) s') \<or> s' = ?s1)"
  proof
    assume "s' = ?s1"
    then show ?thesis using retells_refl [OF keyed] by simp
  next
    assume "\<exists>key. s' = refresh_group_task u sv key ?es ?s1"
    then obtain key where "s' = refresh_group_task u sv key ?es ?s1" ..
    then show ?thesis using refresh_group_task_spec [OF keyed, of u sv key ?es s'] by (simp only: ids)
  qed
  then show ?thesis using rest by (auto simp: retells_def same)
qed

text \<open>A service that knows one show and nothing else about it.\<close>

definition example_service :: tmdb_service where
  "example_service = \<lparr>
     sv_search = (\<lambda>_ _. HttpReply 200 (Some [\<lparr>tm_id = 7, tm_title = None, tm_name = Some [65], tm_overview = None,
        tm_poster_path = None, tm_vote_average = None, tm_release_date = None, tm_first_air_date = None\<rparr>])),
     sv_credits = (\<lambda>_ _. HttpReply 200 (Some \<lparr>cd_cast = None, cd_crew = None\<rparr>)),
     sv_season = (\<lambda>_ _. HttpReply 404 None)\<rparr>"

definition example_group :: store where
  "example_group = example_library\<lparr>
     db_library := [(me_id example_entry, Valid (example_source\<lparr>me_group_id := Some (replicate 16 9)\<rparr>))],
     db_settings := Some (Valid ((default_settings example_host)\<lparr>as_tmdb_api_key := [75]\<rparr>))\<rparr>"

theorem refresh_keeps_files_witness:
  "case refresh_group_metadata ascii_only example_service example_host (replicate 16 9) None example_group of (s', r) \<Rightarrow>
     r = Inr () \<and> map_option me_media_file (entry_of s' (me_id example_entry)) = Some (me_media_file example_entry)"
proof -
  obtain s' r where r: "refresh_group_metadata ascii_only example_service example_host (replicate 16 9) None example_group = (s', r)"
    by fastforce
  have ok: "library_ok example_group" "db_ok example_group"
    by (auto simp: library_ok_def example_group_def example_library_def example_source_def bt_wf_Cons split: if_splits)
  have "r = Inr ()" using r
    by (auto simp: refresh_group_metadata_def list_media_by_group_def list_media_def example_group_def example_library_def
        valid_values_def map_filter_Cons List.map_filter_simps get_settings_def)
  moreover have "rel_option retold (entry_of example_group (me_id example_entry)) (entry_of s' (me_id example_entry))"
    using refresh_keeps_files [OF ok r] by (simp add: retells_def)
  then obtain e where "entry_of s' (me_id example_entry) = Some e"
    "retold (example_source\<lparr>me_group_id := Some (replicate 16 9)\<rparr>) e"
    by (auto simp: entry_of_def example_group_def option_rel_Some1)
  then have "map_option me_media_file (entry_of s' (me_id example_entry)) = Some (me_media_file example_entry)"
    by (cases e) (simp add: retold_def example_source_def example_entry_def)
  ultimately show ?thesis using r by simp
qed

end
