(* ===== verification/Magnet_Correct.thy ===== *)
theory Magnet_Correct
  imports Magnet
begin

text \<open>
  What a magnet download returns is the info dictionary of the link's hash, whatever the peers send;
  and when the peers answer what they are asked, it returns: no piece is forgotten.
\<close>

section \<open>Facts about the buffer that the loop keeps\<close>

text \<open>A fact about the buffer that requests, rejections and lost peers do not touch.\<close>

locale buffer_fact =
  fixes P :: "sock_addr metadata_buffer \<Rightarrow> bool"
  assumes on_next: "P b \<Longrightarrow> P (fst (next_request a b))"
    and on_reject: "P b \<Longrightarrow> P (on_reject i b)"
    and on_lost: "P b \<Longrightarrow> P (on_peer_lost a b)"
begin

definition holds :: "magnet_state \<Rightarrow> bool" where
  "holds ms \<longleftrightarrow> (case mf_phase ms of AwaitingSize \<Rightarrow> True | Fetching b \<Rightarrow> P b)"

lemma request_pieces: "P b \<Longrightarrow> P (fst (request_pieces n addr ext_id b pm))"
proof (induction n arbitrary: b pm)
  case (Suc n)
  obtain b1 piece where next_b: "next_request addr b = (b1, piece)" by fastforce
  have "P b1" using on_next [OF Suc.prems, of addr] by (simp add: next_b)
  then show ?case
    using Suc.IH on_reject by (auto simp: next_b split: option.splits prod.splits bool.splits)
qed simp

lemma request:
  assumes "holds ms"
  shows "holds (request_metadata_pieces addr ms)"
proof (cases "mf_phase ms")
  case (Fetching b)
  show ?thesis
  proof (cases "map_of (mf_ext ms) addr")
    case (Some ext_id)
    obtain b1 pm1 where r: "request_pieces (mb_pieces b) addr ext_id b (mf_peers ms) = (b1, pm1)" by fastforce
    have "P (fst (request_pieces (mb_pieces b) addr ext_id b (mf_peers ms)))"
      by (rule request_pieces) (use assms Fetching in \<open>simp add: holds_def\<close>)
    then show ?thesis by (simp add: request_metadata_pieces_def Fetching Some r holds_def)
  qed (use assms Fetching in \<open>simp add: request_metadata_pieces_def\<close>)
qed (use assms in \<open>simp add: request_metadata_pieces_def\<close>)

lemma event:
  assumes "holds ms"
    and "\<And>i sz d b. ev = EvMetadata (MetaData i sz d) \<Longrightarrow> P b \<Longrightarrow> P (fst (on_data (unat i) d b))"
    and "\<And>hs sz. ev = EvExtHandshake hs \<Longrightarrow> extension_id hs (ascii ''ut_metadata'') \<noteq> None \<Longrightarrow>
        eh_metadata_size hs = Some sz \<Longrightarrow> sz \<noteq> 0 \<Longrightarrow> sz \<le> MAX_METADATA_SIZE \<Longrightarrow> mf_phase ms = AwaitingSize \<Longrightarrow> P (mb_new (unat sz))"
  shows "holds (fst (magnet_event lightspeed addr ev ms))"
proof (cases ev)
  case (EvExtHandshake hs)
  show ?thesis
  proof (cases "\<exists>ext_id sz. extension_id hs (ascii ''ut_metadata'') = Some ext_id \<and> eh_metadata_size hs = Some sz
      \<and> sz \<noteq> 0 \<and> sz \<le> MAX_METADATA_SIZE")
    case True
    then obtain ext_id sz where ok: "extension_id hs (ascii ''ut_metadata'') = Some ext_id" "eh_metadata_size hs = Some sz"
      "sz \<noteq> 0" "sz \<le> MAX_METADATA_SIZE" by blast
    have "holds (on_size addr ext_id sz ms)"
    proof (cases "mf_phase ms")
      case AwaitingSize
      then have "P (mb_new (unat sz))" using assms(3) [OF EvExtHandshake _ ok(2-4)] ok(1) by simp
      then have "holds (ms\<lparr>mf_ext := hm_insert addr ext_id (mf_ext ms), mf_phase := Fetching (mb_new (unat sz))\<rparr>)"
        by (simp add: holds_def)
      with ok(3,4) AwaitingSize assms(1) show ?thesis by (simp add: on_size_def request not_less)
    next
      case (Fetching b)
      then have "holds (ms\<lparr>mf_ext := hm_insert addr ext_id (mf_ext ms)\<rparr>)" using assms(1) by (simp add: holds_def)
      with ok(3,4) Fetching assms(1) show ?thesis by (simp add: on_size_def request not_less)
    qed
    then show ?thesis by (simp add: EvExtHandshake ok)
  qed (use assms(1) in \<open>auto simp: EvExtHandshake on_size_def not_le split: option.splits\<close>)
next
  case (EvMetadata mm)
  show ?thesis
  proof (cases mm)
    case (MetaData p t d)
    show ?thesis
    proof (cases "mf_phase ms")
      case AwaitingSize
      then show ?thesis using assms(1) by (simp add: EvMetadata MetaData request)
    next
      case (Fetching b)
      obtain b1 f where d: "on_data (unat p) d b = (b1, f)" by fastforce
      have "P b1" using assms(2) [of p t d b] EvMetadata MetaData assms(1) Fetching by (simp add: holds_def d)
      then have "holds (ms\<lparr>mf_phase := Fetching b1\<rparr>)" by (simp add: holds_def)
      then show ?thesis using request by (cases f) (simp_all add: EvMetadata MetaData Fetching d)
    qed
  qed (use assms(1) on_reject in \<open>auto simp: EvMetadata holds_def split: magnet_phase.splits\<close>)
qed (use assms(1) on_lost in \<open>auto simp: holds_def Let_def split: magnet_phase.splits\<close>)

lemma keep [simp]: "holds (ms\<lparr>mf_peers := pm\<rparr>) = holds ms"
  by (simp add: holds_def)

end

lemma next_request_frame:
  "mb_received (fst (next_request a b)) = mb_received b" "mb_pieces (fst (next_request a b)) = mb_pieces b"
  "mb_received_count (fst (next_request a b)) = mb_received_count b" "mb_total (fst (next_request a b)) = mb_total b"
  "mb_buffer (fst (next_request a b)) = mb_buffer b"
  by (auto simp: next_request_def split: option.splits)

lemma on_reject_frame:
  "mb_received (on_reject i b) = mb_received b" "mb_pieces (on_reject i b) = mb_pieces b"
  "mb_received_count (on_reject i b) = mb_received_count b" "mb_total (on_reject i b) = mb_total b"
  "mb_buffer (on_reject i b) = mb_buffer b"
  by (auto simp: on_reject_def)

lemma on_peer_lost_frame:
  "mb_received (on_peer_lost a b) = mb_received b" "mb_pieces (on_peer_lost a b) = mb_pieces b"
  "mb_received_count (on_peer_lost a b) = mb_received_count b" "mb_total (on_peer_lost a b) = mb_total b"
  "mb_buffer (on_peer_lost a b) = mb_buffer b"
  by (auto simp: on_peer_lost_def)

lemmas buffer_frame = next_request_frame on_reject_frame on_peer_lost_frame

definition sized :: "sock_addr metadata_buffer \<Rightarrow> bool" where
  "sized b \<longleftrightarrow> mb_inv b \<and> 0 < mb_total b \<and> mb_total b \<le> unat MAX_METADATA_SIZE"

interpretation size_fact: buffer_fact sized
  using mb_inv_step [of _ "MNext _"] mb_inv_step [of _ "MReject _"] mb_inv_step [of _ "MLost _"]
  by unfold_locales (auto simp: sized_def buffer_frame)

interpretation content_fact: buffer_fact "mb_holds c" for c
  using mb_holds_step [of c _ "MNext _"] mb_holds_step [of c _ "MReject _"] mb_holds_step [of c _ "MLost _"]
  by unfold_locales auto

section \<open>What is returned is what the link names\<close>

lemma size_fact_event: "size_fact.holds ms \<Longrightarrow> size_fact.holds (fst (magnet_event lightspeed addr ev ms))"
proof (rule size_fact.event)
  fix i sz d b assume "sized b"
  then have inv: "mb_inv b" by (simp add: sized_def)
  have "mb_total (fst (on_data (unat i) d b)) = mb_total b"
    using on_data_accept(2) [OF inv] on_data_reject [of "unat i" b d]
    by (cases "unat i < mb_pieces b \<and> \<not> mb_received b ! unat i \<and> length d \<le> METADATA_PIECE_SIZE") auto
  with \<open>sized b\<close> show "sized (fst (on_data (unat i) d b))" by (simp add: sized_def on_data_inv)
qed (simp_all add: sized_def mb_new_def Let_def unat_gt_0 word_le_nat_alt mb_new_inv [unfolded mb_new_def Let_def])

lemma finish_sound:
  assumes "size_fact.holds ms" and "magnet_finish sha1 ml ms = Inr (mi, bs, warm)"
  shows "\<exists>raw. sha1 raw = ml_info_hash ml \<and> 0 < length raw \<and> length raw \<le> unat MAX_METADATA_SIZE
    \<and> from_info_bytes raw (ml_info_hash ml) (ml_trackers ml) = Inr mi
    \<and> torrent_bytes_from_info raw (ml_trackers ml) = Inr bs"
  using assms
  by (auto simp: magnet_finish_def size_fact.holds_def mb_verify_def sized_def mb_inv_def
      split: magnet_phase.splits option.splits sum.splits if_splits)

lemma next_keeps_size: "size_fact.holds ms \<Longrightarrow> size_fact.holds (fst (magnet_next lightspeed t ms))"
  by (cases t) (simp_all add: size_fact_event)

lemma fetch_sound:
  "size_fact.holds ms \<Longrightarrow> fetch_metadata sha1 ml lightspeed ms ts = Some (Inr (mi, bs, warm)) \<Longrightarrow>
    \<exists>raw. sha1 raw = ml_info_hash ml \<and> 0 < length raw \<and> length raw \<le> unat MAX_METADATA_SIZE
    \<and> from_info_bytes raw (ml_info_hash ml) (ml_trackers ml) = Inr mi
    \<and> torrent_bytes_from_info raw (ml_trackers ml) = Inr bs"
proof (induction ts arbitrary: ms)
  case (Cons t ts)
  obtain ms1 f where t: "magnet_next lightspeed t ms = (ms1, f)" by fastforce
  have ok: "size_fact.holds ms1" using next_keeps_size [OF Cons.prems(1), of lightspeed t] by (simp add: t)
  show ?case
    using Cons.IH [OF ok] Cons.prems(2) finish_sound [OF ok] t by (cases f) (auto split: if_splits)
qed simp

lemma from_info_ok: "from_info_bytes raw h trs = Inr mi \<Longrightarrow> info_ok (mi_info mi) \<and> mi_info_hash mi = h"
  using parse_info_ok bdecode_ok [of raw]
  by (fastforce simp: from_info_bytes_def split: sum.splits)

section \<open>Requests and their answers\<close>

text \<open>
  What the command channels hold. The channels change only by what is sent and by what the tasks of the
  connections take.
\<close>

type_synonym channels = "sock_addr \<Rightarrow> cmd_channel option"

definition channels :: "peer_manager \<Rightarrow> channels" where
  "channels pm = (\<lambda>a. map_option cmd_tx (map_of (pm_peers pm) a))"

definition requests :: "peer_command list \<Rightarrow> nat list" where
  "requests q = List.map_filter (\<lambda>c. case c of SendMetadataRequest _ p \<Rightarrow> Some (unat p) | _ \<Rightarrow> None) q"

definition others :: "peer_command list \<Rightarrow> nat" where
  "others q = length (filter (\<lambda>c. case c of SendMetadataRequest _ _ \<Rightarrow> False | _ \<Rightarrow> True) q)"

lemma requests_simps [simp]: "requests [] = []" "requests (q @ q') = requests q @ requests q'"
    "requests (c # q) = (case c of SendMetadataRequest _ p \<Rightarrow> unat p # requests q | _ \<Rightarrow> requests q)"
  by (simp_all add: requests_def List.map_filter_def split: peer_command.splits)

lemma others_simps [simp]: "others [] = 0" "others (q @ q') = others q + others q'"
    "others (c # q) = (case c of SendMetadataRequest _ p \<Rightarrow> others q | _ \<Rightarrow> Suc (others q))"
  by (simp_all add: others_def split: peer_command.splits)

lemma requests_others: "length (requests q) + others q = length q"
  by (induction q) (auto split: peer_command.splits)

text \<open>The requests queued or on their way, \<open>fl\<close> being those a task has taken and no data has answered.\<close>

definition asked :: "(sock_addr \<times> nat) set \<Rightarrow> channels \<Rightarrow> (sock_addr \<times> nat) set" where
  "asked fl ch = fl \<union> {(a, i). \<exists>c. ch a = Some c \<and> i \<in> set (requests (ch_queue c))}"

definition pool_ok :: "channels \<Rightarrow> bool" where
  "pool_ok ch \<longleftrightarrow> (\<forall>a c. ch a = Some c \<longrightarrow> \<not> ch_closed c \<and> others (ch_queue c) \<le> 2)"

text \<open>Addresses are pairs; their parts never matter here.\<close>

declare split_paired_All [simp del] split_paired_Ex [simp del]

lemma channels_recv: "channels (task_recv a pm) = (case channels pm a of None \<Rightarrow> channels pm
    | Some c \<Rightarrow> (channels pm)(a \<mapsto> c\<lparr>ch_queue := tl (ch_queue c)\<rparr>))"
  by (auto simp: task_recv_def channels_def peer_update_def fun_eq_iff split: option.splits)

lemma channels_send: "send_command a cmd pm = (pm', ok) \<Longrightarrow> (case channels pm a of None \<Rightarrow> pm' = pm \<and> \<not> ok
    | Some c \<Rightarrow> channels pm' = (channels pm)(a \<mapsto> fst (try_send cmd c)) \<and> ok = snd (try_send cmd c))"
  by (auto simp: send_command_def channels_def split: option.splits prod.splits)

lemma channels_event: "channels (handle_event a ev pm) = (case ev of EvDisconnected _ \<Rightarrow> (channels pm)(a := None) | _ \<Rightarrow> channels pm)"
  by (cases ev) (auto simp: channels_def peer_update_def fun_eq_iff split: option.splits)

lemma channels_add: "channels (add_peers as pm) = channels pm"
  by (induction "as" pm rule: add_peers.induct) (auto simp: channels_def)

lemma channels_connect:
  "channels (connect_pending pm) a = channels pm a
   \<or> channels pm a = None \<and> channels (connect_pending pm) a = Some \<lparr>ch_queue = [], ch_closed = False\<rparr>"
proof (induction pm rule: connect_pending.induct)
  case (1 pm)
  show ?case
  proof (cases "length (pm_peers pm) + length (connecting pm) < max_peers pm \<and> length (connecting pm) < HALF_OPEN_LIMIT
      \<and> pending_peers pm \<noteq> []")
    case True
    then obtain b rest where c: "length (pm_peers pm) + length (connecting pm) < max_peers pm \<and> length (connecting pm) < HALF_OPEN_LIMIT"
      and p: "pending_peers pm = b # rest" by (auto simp: neq_Nil_conv)
    let ?pm = "pm\<lparr>pending_peers := rest\<rparr>"
    have same: "channels ?pm = channels pm" by (simp add: channels_def)
    show ?thesis
    proof (cases "b \<in> fst ` set (pm_peers ?pm) \<or> b \<in> set (connecting ?pm)")
      case True
      then have "connect_pending pm = connect_pending ?pm" using c p by (simp add: connect_pending.simps [of pm] Let_def)
      then show ?thesis using "1.IH"(1) [OF c p refl True] same by simp
    next
      case False
      then have step: "connect_pending pm = connect_pending (spawn_connection b ?pm)"
        using c p by (simp add: connect_pending.simps [of pm] Let_def)
      have "channels (spawn_connection b ?pm) = (channels pm)(b \<mapsto> \<lparr>ch_queue = [], ch_closed = False\<rparr>)"
        by (auto simp: channels_def spawn_connection_def new_peer_state_def)
      moreover have "channels pm b = None" using False by (simp add: channels_def map_of_eq_None_iff)
      ultimately show ?thesis using "1.IH"(2) [OF c p refl False] step by (auto split: if_splits)
    qed
  next
    case False
    then have "connect_pending pm = pm" by (subst connect_pending.simps) (auto split: list.splits)
    then show ?thesis by simp
  qed
qed

lemma connect_same: "asked fl (channels (connect_pending pm)) = asked fl (channels pm)"
proof -
  have "(\<exists>c. channels (connect_pending pm) a = Some c \<and> i \<in> set (requests (ch_queue c)))
    \<longleftrightarrow> (\<exists>c. channels pm a = Some c \<and> i \<in> set (requests (ch_queue c)))" for a i
    using channels_connect [of pm a] by (elim disjE) simp_all
  then show ?thesis by (simp add: asked_def)
qed

lemma connect_pool: "pool_ok (channels pm) \<Longrightarrow> pool_ok (channels (connect_pending pm))"
  unfolding pool_ok_def
proof (intro allI impI)
  fix a c assume ok: "\<forall>a c. channels pm a = Some c \<longrightarrow> \<not> ch_closed c \<and> others (ch_queue c) \<le> 2"
    and c: "channels (connect_pending pm) a = Some c"
  from channels_connect [of pm a] c ok show "\<not> ch_closed c \<and> others (ch_queue c) \<le> 2" by auto
qed

lemma connect_dom: "dom (channels pm) \<subseteq> dom (channels (connect_pending pm))"
  using channels_connect [of pm] by (auto simp: dom_def) (metis option.distinct(1))

text \<open>The loop of requests to one peer: it puts every free piece on order, unless the channel is full,
  and then requests are queued.\<close>

definition free :: "sock_addr metadata_buffer \<Rightarrow> nat set" where
  "free b = {i. i < mb_pieces b \<and> \<not> mb_received b ! i \<and> mb_assigned b ! i = None}"

lemma next_free:
  "next_request a b = (b1, None) \<Longrightarrow> b1 = b \<and> free b = {}"
  "next_request a b = (b1, Some p) \<Longrightarrow> \<exists>i \<in> free b. p = as_u32 i \<and> b1 = b\<lparr>mb_assigned := (mb_assigned b)[i := Some a]\<rparr>"
  using first_free_None [of "mb_received b" "mb_assigned b" "[0..<mb_pieces b]"]
    first_free_Some [of "mb_received b" "mb_assigned b" "[0..<mb_pieces b]"]
  by (auto simp: next_request_def free_def split: option.splits)

text \<open>What the loop leaves: the buffer, the commands \<open>q\<close> that it sent, and why it stopped.\<close>

definition requested :: "sock_addr \<Rightarrow> sock_addr metadata_buffer \<Rightarrow> sock_addr metadata_buffer \<Rightarrow> peer_command list \<Rightarrow> bool" where
  "requested a b b1 q \<longleftrightarrow> mb_received b1 = mb_received b \<and> mb_pieces b1 = mb_pieces b \<and> mb_received_count b1 = mb_received_count b
     \<and> others q = 0 \<and> (\<forall>j a'. j < mb_pieces b \<longrightarrow> mb_assigned b1 ! j = Some a' \<longrightarrow>
         mb_assigned b ! j = Some a' \<or> a' = a \<and> j \<in> set (requests q))"

lemma requested_none: "requested a b b []"
  by (simp add: requested_def)

lemma request_loop:
  "request_pieces n a e b pm = (b1, pm1) \<Longrightarrow> channels pm a = Some c \<Longrightarrow> pool_ok (channels pm) \<Longrightarrow>
    length (mb_assigned b) = mb_pieces b \<Longrightarrow> mb_pieces b < 2 ^ 32 \<Longrightarrow> card (free b) \<le> n \<Longrightarrow>
    \<exists>q. channels pm1 = (channels pm)(a \<mapsto> c\<lparr>ch_queue := ch_queue c @ q\<rparr>) \<and> requested a b b1 q
      \<and> (free b1 = {} \<or> requests (ch_queue c @ q) \<noteq> [])"
proof (induction n arbitrary: b pm c)
  case 0
  have "finite (free b)" by (simp add: free_def)
  with 0 have "free b = {}" by simp
  with 0 show ?case by (intro exI [of _ "[]"]) (auto simp: requested_none fun_eq_iff)
next
  case (Suc n)
  obtain b' r where next_b: "next_request a b = (b', r)" by fastforce
  have ok: "\<not> ch_closed c" "others (ch_queue c) \<le> 2" using Suc.prems(2,3) by (auto simp: pool_ok_def)
  show ?case
  proof (cases r)
    case None
    then show ?thesis
      using Suc.prems(1,2) next_b next_free(1) [of a b b']
      by (intro exI [of _ "[]"]) (auto simp: requested_none fun_eq_iff)
  next
    case (Some p)
    then obtain i where i: "i \<in> free b" "p = as_u32 i" and b': "b' = b\<lparr>mb_assigned := (mb_assigned b)[i := Some a]\<rparr>"
      using next_b next_free(2) [of a b b' p] by auto
    have small: "p = i" "i < 2 ^ 32" "i < mb_pieces b" "mb_assigned b ! i = None"
      using i Suc.prems(5) by (auto simp: free_def)
    let ?cmd = "SendMetadataRequest e (of_nat p)"
    obtain pm' sent where s: "send_command a ?cmd pm = (pm', sent)" by fastforce
    have send: "channels pm' = (channels pm)(a \<mapsto> fst (try_send ?cmd c))" "sent = snd (try_send ?cmd c)"
      using channels_send [OF s] Suc.prems(2) by auto
    show ?thesis
    proof (cases sent)
      case False
      then have full: "CHANNEL_CAPACITY \<le> length (ch_queue c)" and same: "channels pm' = channels pm"
        using send ok Suc.prems(2) by (auto simp: try_send_def fun_eq_iff split: if_splits)
      have "requests (ch_queue c) \<noteq> []"
        using requests_others [of "ch_queue c"] full ok(2) by (auto simp: CHANNEL_CAPACITY_def)
      moreover have "on_reject p b' = b"
        using small Suc.prems(4) by (simp add: b' on_reject_def list_update_same_conv)
      then have "b1 = b" "pm1 = pm'" using Suc.prems(1) next_b Some s False by auto
      ultimately show ?thesis
        using same Suc.prems(2) by (intro exI [of _ "[]"]) (auto simp: requested_none fun_eq_iff)
    next
      case True
      then have grown: "channels pm' = (channels pm)(a \<mapsto> c\<lparr>ch_queue := ch_queue c @ [?cmd]\<rparr>)"
        using send by (auto simp: try_send_def split: if_splits)
      have rest: "request_pieces n a e b' pm' = (b1, pm1)" using Suc.prems(1) next_b Some s True by auto
      have "free b' = free b - {i}" using small Suc.prems(4) by (auto simp: free_def b' nth_list_update)
      then have "card (free b') \<le> n" using Suc.prems(6) i(1) by (simp add: card_Diff_singleton_if)
      moreover have "pool_ok (channels pm')" using grown Suc.prems(3) ok by (auto simp: pool_ok_def)
      moreover define c2 where "c2 = c\<lparr>ch_queue := ch_queue c @ [?cmd]\<rparr>"
      then have "channels pm' a = Some c2" using grown by simp
      ultimately have "\<exists>q. channels pm1 = (channels pm')(a \<mapsto> c2\<lparr>ch_queue := ch_queue c2 @ q\<rparr>) \<and> requested a b' b1 q
          \<and> (free b1 = {} \<or> requests (ch_queue c2 @ q) \<noteq> [])"
        using Suc.prems(4,5) by (intro Suc.IH [OF rest]) (simp_all add: b')
      then obtain q where q: "channels pm1 = (channels pm')(a \<mapsto> c2\<lparr>ch_queue := ch_queue c2 @ q\<rparr>)" "requested a b' b1 q"
        by blast
      have num: "unat (of_nat p :: u32) = i" using small by (simp add: unat_of_nat take_bit_eq_mod)
      have "requested a b b1 (?cmd # q)"
        using q(2) small Suc.prems(4) num by (auto simp: requested_def b' nth_list_update split: if_splits)
      then show ?thesis using q(1) grown by (intro exI [of _ "?cmd # q"]) (auto simp: c2_def)
    qed
  qed
qed

section \<open>Peers that answer\<close>

text \<open>
  What the peers do in a run that is served: they are in the pool, a connection reports that it is up
  before anything is sent to it, the size and the data are those of \<open>c\<close>, nothing is refused, and nobody
  leaves while something is asked of it.
\<close>

fun honest_turn :: "bytes \<Rightarrow> (sock_addr \<times> nat) set \<Rightarrow> peer_manager \<Rightarrow> magnet_turn \<Rightarrow> bool" where
  "honest_turn c fl pm (MPeer a ev) =
     (case channels pm a of None \<Rightarrow> False | Some ch \<Rightarrow> (case ev of
        EvConnected _ _ _ \<Rightarrow> ch_queue ch = []
      | EvExtHandshake hs \<Rightarrow> (case eh_metadata_size hs of None \<Rightarrow> True | Some sz \<Rightarrow> unat sz = length c)
      | EvMetadata (MetaData p _ d) \<Rightarrow> d = take METADATA_PIECE_SIZE (drop (unat p * METADATA_PIECE_SIZE) c)
      | EvMetadata (MetaReject _) \<Rightarrow> False
      | EvDisconnected _ \<Rightarrow> a \<notin> fst ` fl \<and> requests (ch_queue ch) = []
      | _ \<Rightarrow> True))"
| "honest_turn c fl pm t = (case t of MCancelled \<Rightarrow> False | MEnds _ \<Rightarrow> False | _ \<Rightarrow> True)"

text \<open>The requests on their way to a peer or its answer to us, after a turn.\<close>

fun on_the_way :: "(sock_addr \<times> nat) set \<Rightarrow> peer_manager \<Rightarrow> magnet_turn \<Rightarrow> (sock_addr \<times> nat) set" where
  "on_the_way fl pm (MTakes a) = (case channels pm a of None \<Rightarrow> fl
     | Some ch \<Rightarrow> fl \<union> (\<lambda>i. (a, i)) ` set (requests (take 1 (ch_queue ch))))"
| "on_the_way fl pm (MPeer a (EvMetadata (MetaData p _ _))) = fl - {(a, unat p)}"
| "on_the_way fl pm t = fl"

text \<open>A run in which at the end, unless the loop is over, every request has been taken and answered.\<close>

fun served :: "bytes \<Rightarrow> bool \<Rightarrow> (sock_addr \<times> nat) set \<Rightarrow> magnet_state \<Rightarrow> magnet_turn list \<Rightarrow> bool" where
  "served c lightspeed fl ms [] \<longleftrightarrow> fl = {} \<and> list_all (\<lambda>(a, s). requests (ch_queue (cmd_tx s)) = []) (pm_peers (mf_peers ms))"
| "served c lightspeed fl ms (t # ts) \<longleftrightarrow> honest_turn c fl (mf_peers ms) t
     \<and> (case magnet_next lightspeed t ms of (ms1, over) \<Rightarrow>
          over \<or> served c lightspeed (on_the_way fl (mf_peers ms) t) ms1 ts)"

text \<open>A turn in which a peer offers the metadata.\<close>

fun offers :: "magnet_turn \<Rightarrow> bool" where
  "offers (MPeer _ (EvExtHandshake hs)) \<longleftrightarrow>
     extension_id hs (ascii ''ut_metadata'') \<noteq> None \<and> eh_metadata_size hs \<noteq> None"
| "offers _ \<longleftrightarrow> False"

section \<open>Nothing is forgotten\<close>

text \<open>
  While the loop runs, a piece that has not arrived is on order with a peer that was asked for it and has
  yet to answer, or it is free and some other answer is still to come, after which it will be asked for.
\<close>

definition ordered :: "(sock_addr \<times> nat) set \<Rightarrow> sock_addr metadata_buffer \<Rightarrow> bool" where
  "ordered out b \<longleftrightarrow> (\<forall>i < mb_pieces b. \<forall>a. \<not> mb_received b ! i \<longrightarrow> mb_assigned b ! i = Some a \<longrightarrow> (a, i) \<in> out)"

definition live :: "bytes \<Rightarrow> (sock_addr \<times> nat) set \<Rightarrow> magnet_state \<Rightarrow> bool" where
  "live c fl ms \<longleftrightarrow> (let ch = channels (mf_peers ms); out = asked fl ch in
     pool_ok ch \<and> fst ` set (mf_ext ms) \<subseteq> dom ch \<and> fst ` out \<subseteq> fst ` set (mf_ext ms)
     \<and> (case mf_phase ms of AwaitingSize \<Rightarrow> mf_ext ms = []
        | Fetching b \<Rightarrow> mb_holds c b \<and> \<not> mb_is_complete b \<and> ordered out b \<and> (free b \<noteq> {} \<longrightarrow> out \<noteq> {})))"

lemma live_start: "live c {} (magnet_start limit)"
  by (auto simp: live_def magnet_start_def channels_def pm_new_def pool_ok_def asked_def)

lemma live_channels:
  assumes "live c fl ms" and "pool_ok (channels pm)" and "dom (channels (mf_peers ms)) \<subseteq> dom (channels pm)"
    and "asked fl' (channels pm) = asked fl (channels (mf_peers ms))"
  shows "live c fl' (ms\<lparr>mf_peers := pm\<rparr>)"
proof -
  have "fst ` set (mf_ext ms) \<subseteq> dom (channels pm)"
    using assms(1,3) unfolding live_def Let_def by (blast intro: subset_trans)
  with assms(1,2,4) show ?thesis by (simp add: live_def Let_def split: magnet_phase.splits)
qed

lemma live_end: "live c {} ms \<Longrightarrow> list_all (\<lambda>(a, s). requests (ch_queue (cmd_tx s)) = []) (pm_peers (mf_peers ms)) \<Longrightarrow>
    mf_phase ms = AwaitingSize"
proof (rule ccontr)
  assume l: "live c {} ms" and q: "list_all (\<lambda>(a, s). requests (ch_queue (cmd_tx s)) = []) (pm_peers (mf_peers ms))"
    and "mf_phase ms \<noteq> AwaitingSize"
  then obtain b where b: "mf_phase ms = Fetching b" by (cases "mf_phase ms") auto
  have "asked {} (channels (mf_peers ms)) = {}"
    using q by (auto simp: asked_def channels_def list_all_iff dest!: map_of_SomeD)
  then have inv: "mb_inv b" "\<not> mb_is_complete b" and "ordered {} b" "free b = {}"
    using l b by (auto simp: live_def mb_holds_def Let_def)
  then have "\<forall>i < mb_pieces b. mb_received b ! i"
    by (auto simp: ordered_def free_def) (metis not_None_eq)
  then show False using inv all_received by blast
qed

text \<open>Asking a peer that is in the table makes the state live again.\<close>

lemma request_live:
  assumes "pool_ok (channels (mf_peers ms))" and "fst ` set (mf_ext ms) \<subseteq> dom (channels (mf_peers ms))"
    and "fst ` asked fl (channels (mf_peers ms)) \<subseteq> fst ` set (mf_ext ms)" and "a \<in> fst ` set (mf_ext ms)"
    and "mf_phase ms = Fetching b" and "mb_holds c b" and "\<not> mb_is_complete b"
    and "ordered (asked fl (channels (mf_peers ms))) b" and "length c \<le> 10 * 1024 * 1024"
  shows "live c fl (request_metadata_pieces a ms) \<and> mf_phase (request_metadata_pieces a ms) \<noteq> AwaitingSize"
proof -
  obtain e where e: "map_of (mf_ext ms) a = Some e" using assms(4) by (metis map_of_eq_None_iff not_None_eq)
  obtain ch where ch: "channels (mf_peers ms) a = Some ch" using assms(2,4) by auto
  obtain b1 pm1 where r: "request_pieces (mb_pieces b) a e b (mf_peers ms) = (b1, pm1)" by fastforce
  have inv: "mb_inv b" "mb_total b = length c" using assms(6) by (auto simp: mb_holds_def)
  have "mb_pieces b \<le> mb_total b" using inv(1)
    by (auto simp: mb_inv_def div_ceil_def METADATA_PIECE_SIZE_def)
  then have pieces: "mb_pieces b < 2 ^ 32" using inv(2) assms(9) by simp
  have "card (free b) \<le> card {..<mb_pieces b}" by (rule card_mono) (auto simp: free_def)
  then obtain q where q: "channels pm1 = (channels (mf_peers ms))(a \<mapsto> ch\<lparr>ch_queue := ch_queue ch @ q\<rparr>)"
    "requested a b b1 q" "free b1 = {} \<or> requests (ch_queue ch @ q) \<noteq> []"
    using request_loop [OF r ch assms(1)] pieces inv(1) by (auto simp: mb_inv_def)
  have ms1: "request_metadata_pieces a ms = ms\<lparr>mf_phase := Fetching b1, mf_peers := pm1\<rparr>"
    by (simp add: request_metadata_pieces_def assms(5) e r)
  have out: "asked fl (channels pm1) = asked fl (channels (mf_peers ms)) \<union> (\<lambda>i. (a, i)) ` set (requests q)"
    using ch by (auto simp: asked_def q(1) split: if_splits)
  have "mb_holds c b1"
    using content_fact.request [of c ms a] assms(5,6) by (simp add: content_fact.holds_def ms1)
  moreover have "pool_ok (channels pm1)"
    using assms(1) ch q(2) by (auto simp: pool_ok_def q(1) requested_def)
  moreover have "fst ` asked fl (channels pm1) \<subseteq> insert a (fst ` asked fl (channels (mf_peers ms)))"
    unfolding out by auto
  then have "fst ` asked fl (channels pm1) \<subseteq> fst ` set (mf_ext ms)" using assms(3,4) by blast
  moreover have "fst ` set (mf_ext ms) \<subseteq> dom (channels pm1)" using assms(2) by (auto simp: q(1))
  moreover have "ordered (asked fl (channels pm1)) b1"
    using q(2) assms(8) unfolding ordered_def requested_def out by (metis Un_iff image_eqI)
  moreover have "free b1 \<noteq> {} \<Longrightarrow> asked fl (channels pm1) \<noteq> {}"
  proof -
    assume "free b1 \<noteq> {}"
    then have "requests (ch_queue ch @ q) \<noteq> []" using q(3) by blast
    then obtain i where "i \<in> set (requests (ch_queue ch @ q))" by (metis list.set_intros(1) neq_Nil_conv)
    then have "(a, i) \<in> asked fl (channels pm1)" by (auto simp: asked_def q(1))
    then show ?thesis by blast
  qed
  moreover have "\<not> mb_is_complete b1" using assms(7) q(2) by (simp add: mb_is_complete_def requested_def)
  ultimately show ?thesis by (simp add: ms1 live_def Let_def)
qed

lemma on_data_progress:
  assumes "mb_inv b" and "\<not> mb_is_complete b" and "on_data i d b = (b0, g)" and "length d \<le> METADATA_PIECE_SIZE"
  shows "g = mb_is_complete b0 \<and> mb_pieces b0 = mb_pieces b \<and> (i < mb_pieces b \<longrightarrow> mb_received b0 ! i)
    \<and> (\<forall>j. j \<noteq> i \<longrightarrow> mb_received b0 ! j = mb_received b ! j \<and> mb_assigned b0 ! j = mb_assigned b ! j)"
proof (cases "i < mb_pieces b \<and> \<not> mb_received b ! i")
  case True
  have b0: "b0 = fst (on_data i d b)" using assms(3) by simp
  have "length (mb_received b) = mb_pieces b" using assms(1) by (simp add: mb_inv_def)
  moreover have "g = mb_is_complete b0"
    using assms(3,4) True on_data_accept(1) [OF assms(1) _ _ assms(4), of i]
    by (auto simp: on_data_def Let_def split: if_splits)
  ultimately show ?thesis
    using on_data_accept(2) [OF assms(1) _ _ assms(4), of i] True by (auto simp: b0)
next
  case False
  then have "on_data i d b = (b, False)" by (intro on_data_reject) auto
  then show ?thesis using assms(2,3) False by auto
qed

lemma liveD:
  assumes "live c fl ms"
  shows "pool_ok (channels (mf_peers ms))" and "fst ` set (mf_ext ms) \<subseteq> dom (channels (mf_peers ms))"
    and "fst ` asked fl (channels (mf_peers ms)) \<subseteq> fst ` set (mf_ext ms)"
    and "mf_phase ms = AwaitingSize \<Longrightarrow> mf_ext ms = []"
    and "mf_phase ms = Fetching b \<Longrightarrow> mb_holds c b \<and> \<not> mb_is_complete b
      \<and> ordered (asked fl (channels (mf_peers ms))) b \<and> (free b \<noteq> {} \<longrightarrow> asked fl (channels (mf_peers ms)) \<noteq> {})"
  using assms by (auto simp: live_def Let_def)

lemma data_live:
  assumes "live c fl ms" and "mf_phase ms = Fetching b" and "length c \<le> 10 * 1024 * 1024"
    and "on_data (unat p) d b = (b0, False)"
    and "d = take METADATA_PIECE_SIZE (drop (unat p * METADATA_PIECE_SIZE) c)"
  defines "ms0 \<equiv> ms\<lparr>mf_phase := Fetching b0\<rparr>"
  shows "live c (fl - {(a, unat p)}) (request_metadata_pieces a ms0) \<and> mf_phase (request_metadata_pieces a ms0) \<noteq> AwaitingSize"
proof -
  let ?ch = "channels (mf_peers ms)" and ?fl = "fl - {(a, unat p)}"
  note l = liveD(1-3) [OF assms(1)] liveD(5) [OF assms(1,2)]
  have "length d \<le> METADATA_PIECE_SIZE" using assms(5) by simp
  from on_data_progress [OF _ _ assms(4) this] l(4)
  have b0: "\<not> mb_is_complete b0" "mb_pieces b0 = mb_pieces b" "unat p < mb_pieces b \<Longrightarrow> mb_received b0 ! unat p"
    "\<And>j. j \<noteq> unat p \<Longrightarrow> mb_received b0 ! j = mb_received b ! j \<and> mb_assigned b0 ! j = mb_assigned b ! j"
    by (auto simp: mb_holds_def)
  have held: "mb_holds c b0" using mb_holds_data [of c b d "unat p"] l(4) assms(4,5) by simp
  have left: "asked fl ?ch \<subseteq> insert (a, unat p) (asked ?fl ?ch)" "asked ?fl ?ch \<subseteq> asked fl ?ch"
    by (auto simp: asked_def)
  have other: "i \<noteq> unat p" if "i < mb_pieces b0" "\<not> mb_received b0 ! i" for i using that b0(2,3) by auto
  have ord: "ordered (asked ?fl ?ch) b0"
    unfolding ordered_def
  proof (intro allI impI)
    fix i x assume i: "i < mb_pieces b0" "\<not> mb_received b0 ! i" "mb_assigned b0 ! i = Some x"
    then have "(x, i) \<in> asked fl ?ch" using l(4) b0(2,4) other [OF i(1,2)] by (auto simp: ordered_def)
    then show "(x, i) \<in> asked ?fl ?ch" using left(1) other [OF i(1,2)] by auto
  qed
  show ?thesis
  proof (cases "a \<in> fst ` set (mf_ext ms)")
    case True
    have "fst ` asked ?fl ?ch \<subseteq> fst ` set (mf_ext ms)" using l(3) left(2) by blast
    with True show ?thesis
      using request_live [of ms0 ?fl a b0 c] l(1,2) held b0(1) ord assms(3) by (simp add: ms0_def)
  next
    case False
    then have "(a, unat p) \<notin> fl" using l(3) by (force simp: asked_def)
    then have "?fl = fl" by blast
    moreover have "free b0 \<subseteq> free b"
      using b0(2,4) other by (auto simp: free_def)
    moreover have "map_of (mf_ext ms) a = None" using False by (simp add: map_of_eq_None_iff)
    then have "request_metadata_pieces a ms0 = ms0" by (simp add: request_metadata_pieces_def ms0_def)
    ultimately show ?thesis
      using l held b0(1) ord by (auto simp: live_def Let_def ms0_def)
  qed
qed

lemma size_live:
  assumes "live c fl ms" and "c \<noteq> []" and "length c \<le> 10 * 1024 * 1024" and "unat sz = length c"
    and "a \<in> dom (channels (mf_peers ms))"
  shows "live c fl (on_size a e sz ms) \<and> mf_phase (on_size a e sz ms) \<noteq> AwaitingSize"
proof -
  note l = liveD [OF assms(1)]
  have ok: "sz \<noteq> 0" "\<not> MAX_METADATA_SIZE < sz"
    using assms(2-4) by (auto simp: word_less_nat_alt MAX_METADATA_SIZE_def)
  let ?ms = "ms\<lparr>mf_ext := hm_insert a e (mf_ext ms)\<rparr>"
  show ?thesis
  proof (cases "mf_phase ms")
    case AwaitingSize
    let ?b = "mb_new (length c) :: sock_addr metadata_buffer"
    have "0 * METADATA_PIECE_SIZE < length c" using assms(2) by simp
    then have "0 < div_ceil (length c) METADATA_PIECE_SIZE" using div_ceil_less [of METADATA_PIECE_SIZE 0 "length c"] by simp
    then have "\<not> mb_is_complete ?b" by (simp add: mb_is_complete_def mb_new_def Let_def)
    moreover have "ordered (asked fl (channels (mf_peers ms))) ?b" by (auto simp: ordered_def mb_new_def Let_def)
    moreover have "on_size a e sz ms = request_metadata_pieces a (?ms\<lparr>mf_phase := Fetching ?b\<rparr>)"
      using ok AwaitingSize assms(4) by (simp add: on_size_def)
    ultimately show ?thesis
      using request_live [of "?ms\<lparr>mf_phase := Fetching ?b\<rparr>" fl a ?b c] l(1-3) l(4) [OF AwaitingSize] mb_new_holds [of c] assms(3,5)
      by auto
  next
    case (Fetching b)
    have "on_size a e sz ms = request_metadata_pieces a ?ms" using ok Fetching by (simp add: on_size_def)
    moreover have "fst ` asked fl (channels (mf_peers ms)) \<subseteq> insert a (fst ` set (mf_ext ms))" using l(3) by blast
    ultimately show ?thesis
      using request_live [of ?ms fl a b c] l(1,2) l(5) [OF Fetching] Fetching assms(3,5) by auto
  qed
qed

lemma lost_live:
  assumes "live c fl ms" and "channels (mf_peers ms) a = Some ch" and "a \<notin> fst ` fl" and "requests (ch_queue ch) = []"
    and "channels pm = (channels (mf_peers ms))(a := None)"
  shows "live c fl (fst (magnet_event lightspeed a (EvDisconnected err) (ms\<lparr>mf_peers := pm\<rparr>)))
    \<and> (mf_phase ms \<noteq> AwaitingSize \<longrightarrow> mf_phase (fst (magnet_event lightspeed a (EvDisconnected err) (ms\<lparr>mf_peers := pm\<rparr>))) \<noteq> AwaitingSize)"
proof -
  let ?ch = "channels (mf_peers ms)"
  note l = liveD [OF assms(1)]
  have out: "asked fl (channels pm) = asked fl ?ch" using assms(2,4) by (auto simp: asked_def assms(5) split: if_splits)
  have clear: "(a, i) \<notin> asked fl ?ch" for i using assms(2-4) by (force simp: asked_def)
  have pool: "pool_ok (channels pm)" "fst ` set (hm_remove a (mf_ext ms)) \<subseteq> dom (channels pm)"
    "fst ` asked fl (channels pm) \<subseteq> fst ` set (hm_remove a (mf_ext ms))"
    using l(1-3) clear unfolding out by (auto simp: pool_ok_def assms(5) split: if_splits)
  show ?thesis
  proof (cases "mf_phase ms")
    case AwaitingSize
    then show ?thesis using pool l(4) by (simp add: live_def Let_def hm_remove_def)
  next
    case (Fetching b)
    let ?b = "on_peer_lost a b"
    note f = l(5) [OF Fetching]
    have len: "length (mb_assigned b) = mb_pieces b" using f by (simp add: mb_holds_def mb_inv_def)
    have "mb_holds c ?b" using f content_fact.on_lost by simp
    moreover have "ordered (asked fl ?ch) ?b"
      using f len by (auto simp: ordered_def on_peer_lost_def split: if_splits)
    moreover have "mb_assigned b ! i \<noteq> Some a" if "i < mb_pieces b" "\<not> mb_received b ! i" for i
      using f clear that by (auto simp: ordered_def)
    then have "free ?b = free b" using len by (auto simp: free_def on_peer_lost_def split: if_splits)
    moreover have "\<not> mb_is_complete ?b" using f by (simp add: mb_is_complete_def on_peer_lost_def)
    ultimately show ?thesis using Fetching pool f by (simp add: live_def Let_def out)
  qed
qed

lemma connected_live:
  assumes "live c fl ms" and "channels (mf_peers ms) a = Some ch" and "ch_queue ch = []"
    and "channels pm = channels (mf_peers ms)"
  shows "live c fl (fst (magnet_event lightspeed a (EvConnected i r ext) (ms\<lparr>mf_peers := pm\<rparr>)))"
proof (cases ext)
  case True
  obtain pm1 o1 where s1: "send_command a SendInterested pm = (pm1, o1)" by fastforce
  obtain pm2 o2 where s2: "send_command a (SendExtendedHandshake (ours None lightspeed)) pm1 = (pm2, o2)" by fastforce
  have up: "\<not> ch_closed ch" using liveD(1) [OF assms(1)] assms(2) by (auto simp: pool_ok_def)
  have "channels pm1 = (channels (mf_peers ms))(a \<mapsto> ch\<lparr>ch_queue := [SendInterested]\<rparr>)"
    using channels_send [OF s1] assms(2-4) up by (auto simp: try_send_def CHANNEL_CAPACITY_def)
  then have two: "channels pm2 = (channels (mf_peers ms))(a \<mapsto> ch\<lparr>ch_queue := [SendInterested, SendExtendedHandshake (ours None lightspeed)]\<rparr>)"
    using channels_send [OF s2] up by (auto simp: try_send_def CHANNEL_CAPACITY_def)
  have "asked fl (channels pm2) = asked fl (channels (mf_peers ms))"
    using assms(2,3) by (auto simp: asked_def two split: if_splits)
  moreover have "pool_ok (channels pm2)" using liveD(1) [OF assms(1)] up by (auto simp: pool_ok_def two)
  ultimately have "live c fl (ms\<lparr>mf_peers := pm2\<rparr>)"
    using assms(2) by (intro live_channels [OF assms(1)]) (auto simp: two)
  then show ?thesis using True s1 s2 by simp
next
  case False
  then show ?thesis using live_channels [OF assms(1), of pm fl] liveD(1) [OF assms(1)] assms(4) by simp
qed

lemma peer_live:
  assumes "live c fl ms" and "honest_turn c fl (mf_peers ms) (MPeer a ev)" and "c \<noteq> []" and "length c \<le> 10 * 1024 * 1024"
    and "magnet_next lightspeed (MPeer a ev) ms = (ms1, False)"
  shows "live c (on_the_way fl (mf_peers ms) (MPeer a ev)) ms1
    \<and> (mf_phase ms \<noteq> AwaitingSize \<or> offers (MPeer a ev) \<longrightarrow> mf_phase ms1 \<noteq> AwaitingSize)"
proof -
  let ?pm = "handle_event a ev (mf_peers ms)"
  obtain ch where ch: "channels (mf_peers ms) a = Some ch" using assms(2) by (auto split: option.splits)
  have ms1: "magnet_event lightspeed a ev (ms\<lparr>mf_peers := ?pm\<rparr>) = (ms1, False)" using assms(5) by simp
  have same: "live c fl (ms\<lparr>mf_peers := ?pm\<rparr>)" if "\<And>e. ev \<noteq> EvDisconnected e"
  proof -
    have "channels ?pm = channels (mf_peers ms)" using that by (simp add: channels_event split: peer_event.splits)
    then show ?thesis using live_channels [OF assms(1), of ?pm fl] liveD(1) [OF assms(1)] by simp
  qed
  show ?thesis
  proof (cases ev)
    case (EvConnected i r ext)
    then have q: "ch_queue ch = []" "channels ?pm = channels (mf_peers ms)"
      using assms(2) ch by (simp_all only: channels_event peer_event.case honest_turn.simps option.case)
    have "fst (magnet_event lightspeed a (EvConnected i r ext) (ms\<lparr>mf_peers := ?pm\<rparr>)) = ms1"
      using ms1 by (simp only: EvConnected fst_conv)
    then have "live c fl ms1" using connected_live [OF assms(1) ch q, of lightspeed i r ext] by (simp only:)
    moreover have "mf_phase ms1 = mf_phase ms" using ms1 by (auto simp: EvConnected split: if_splits)
    ultimately show ?thesis by (simp add: EvConnected)
  next
    case (EvExtHandshake hs)
    show ?thesis
    proof (cases "offers (MPeer a ev)")
      case True
      then obtain e sz where hs: "extension_id hs (ascii ''ut_metadata'') = Some e" "eh_metadata_size hs = Some sz"
        by (auto simp: EvExtHandshake)
      then have "unat sz = length c" using assms(2) ch by (simp add: EvExtHandshake)
      moreover have "a \<in> dom (channels (mf_peers (ms\<lparr>mf_peers := ?pm\<rparr>)))"
        using ch by (auto simp: EvExtHandshake channels_event simp del: handle_event.simps)
      moreover have "on_size a e sz (ms\<lparr>mf_peers := ?pm\<rparr>) = ms1"
        using ms1 hs by (simp add: EvExtHandshake del: handle_event.simps)
      moreover have "live c fl (ms\<lparr>mf_peers := ?pm\<rparr>)" using same by (simp add: EvExtHandshake)
      ultimately have "live c fl ms1 \<and> mf_phase ms1 \<noteq> AwaitingSize" using size_live [OF _ assms(3,4)] by metis
      then show ?thesis by (simp add: EvExtHandshake)
    next
      case False
      then have "ms1 = ms\<lparr>mf_peers := ?pm\<rparr>" using ms1 by (auto simp: EvExtHandshake split: option.splits)
      with False same show ?thesis by (auto simp: EvExtHandshake)
    qed
  next
    case (EvMetadata mm)
    show ?thesis
    proof (cases mm)
      case (MetaData p t d)
      show ?thesis
      proof (cases "mf_phase ms")
        case AwaitingSize
        then have "fl = {}" using liveD(3,4) [OF assms(1)] by (auto simp: asked_def)
        then show ?thesis
          using AwaitingSize same ms1 by (auto simp: EvMetadata MetaData request_metadata_pieces_def)
      next
        case (Fetching b)
        obtain b0 g where d: "on_data (unat p) d b = (b0, g)" by fastforce
        have "\<not> g" using ms1 d Fetching by (auto simp: EvMetadata MetaData split: bool.splits)
        moreover have "d = take METADATA_PIECE_SIZE (drop (unat p * METADATA_PIECE_SIZE) c)"
          using assms(2) ch by (simp add: EvMetadata MetaData)
        ultimately show ?thesis
          using data_live [OF same _ assms(4), of b p d b0 a] d ms1 Fetching by (simp add: EvMetadata MetaData)
      qed
    qed (use same ms1 assms(2) ch in \<open>auto simp: EvMetadata\<close>)
  next
    case (EvDisconnected err)
    then have q: "a \<notin> fst ` fl" "requests (ch_queue ch) = []" "channels ?pm = (channels (mf_peers ms))(a := None)"
      using assms(2) ch by (simp_all add: channels_event del: handle_event.simps)
    have "fst (magnet_event lightspeed a (EvDisconnected err) (ms\<lparr>mf_peers := ?pm\<rparr>)) = ms1"
      using ms1 by (simp only: EvDisconnected fst_conv)
    then show ?thesis using lost_live [OF assms(1) ch q, of lightspeed err] by (simp add: EvDisconnected)
  qed (use same ms1 in auto)
qed

lemma turn_live:
  assumes "live c fl ms" and "honest_turn c fl (mf_peers ms) t" and "c \<noteq> []" and "length c \<le> 10 * 1024 * 1024"
    and "magnet_next lightspeed t ms = (ms1, False)"
  shows "live c (on_the_way fl (mf_peers ms) t) ms1 \<and> (mf_phase ms \<noteq> AwaitingSize \<or> offers t \<longrightarrow> mf_phase ms1 \<noteq> AwaitingSize)"
proof (cases t)
  case (MPeer a ev)
  then show ?thesis using peer_live [OF assms(1) _ assms(3,4)] assms(2,5) by simp
next
  case (MNewPeers addrs)
  let ?pm = "connect_pending (add_peers addrs (mf_peers ms))"
  have "live c fl (ms\<lparr>mf_peers := ?pm\<rparr>)"
    using live_channels [OF assms(1), of ?pm fl] connect_pool connect_dom connect_same liveD(1) [OF assms(1)]
    by (metis channels_add)
  then show ?thesis using assms(5) MNewPeers by auto
next
  case MTick
  have "live c fl (ms\<lparr>mf_peers := connect_pending (mf_peers ms)\<rparr>)"
    using live_channels [OF assms(1), of "connect_pending (mf_peers ms)" fl] connect_pool connect_dom connect_same liveD(1) [OF assms(1)]
    by blast
  then show ?thesis using assms(5) MTick by auto
next
  case (MTakes a)
  let ?fl = "on_the_way fl (mf_peers ms) t" and ?pm = "task_recv a (mf_peers ms)"
  have "asked ?fl (channels ?pm) = asked fl (channels (mf_peers ms)) \<and> pool_ok (channels ?pm)
    \<and> dom (channels (mf_peers ms)) \<subseteq> dom (channels ?pm)"
  proof (cases "channels (mf_peers ms) a")
    case None
    then show ?thesis using liveD(1) [OF assms(1)] by (simp add: MTakes channels_recv)
  next
    case (Some ch)
    have ok: "\<not> ch_closed ch" "others (ch_queue ch) \<le> 2" using liveD(1) [OF assms(1)] Some by (auto simp: pool_ok_def)
    have q: "set (requests (ch_queue ch)) = set (requests (take 1 (ch_queue ch))) \<union> set (requests (tl (ch_queue ch)))"
      "others (tl (ch_queue ch)) \<le> others (ch_queue ch)"
      by (cases "ch_queue ch"; auto split: peer_command.splits)+
    have "asked ?fl (channels ?pm) = asked fl (channels (mf_peers ms))"
      using Some q(1) by (auto simp: MTakes channels_recv asked_def split: if_splits)
    moreover have "others (tl (ch_queue ch)) \<le> 2" using ok(2) q(2) by linarith
    then have "pool_ok (channels ?pm)"
      using liveD(1) [OF assms(1)] Some ok(1) by (auto simp: channels_recv pool_ok_def)
    ultimately show ?thesis using Some by (auto simp: channels_recv)
  qed
  then have "live c ?fl (ms\<lparr>mf_peers := ?pm\<rparr>)" using live_channels [OF assms(1)] by blast
  then show ?thesis using assms(5) MTakes by auto
qed (use assms(2) in simp_all)

section \<open>The end of the loop\<close>

text \<open>The event that ends the loop leaves a complete buffer.\<close>

lemma event_done: "magnet_event lightspeed addr ev ms = (ms1, True) \<Longrightarrow>
    \<exists>b. mf_phase ms1 = Fetching b \<and> mb_is_complete b"
  by (cases "(lightspeed, addr, ev, ms)" rule: magnet_event.cases)
    (auto simp: on_data_def Let_def split: magnet_phase.splits option.splits if_splits prod.splits bool.splits)

definition good_result :: "metainfo \<Rightarrow> bytes \<Rightarrow> (fetch_error + metainfo \<times> bytes \<times> sock_addr list) option \<Rightarrow> bool" where
  "good_result mi bs r \<longleftrightarrow> (\<exists>warm. r = Some (Inr (mi, bs, warm)))"

definition names :: "(bytes \<Rightarrow> bytes) \<Rightarrow> magnet_link \<Rightarrow> bytes \<Rightarrow> metainfo \<Rightarrow> bytes \<Rightarrow> bool" where
  "names sha1 ml c mi bs \<longleftrightarrow> sha1 c = ml_info_hash ml
     \<and> from_info_bytes c (ml_info_hash ml) (ml_trackers ml) = Inr mi
     \<and> torrent_bytes_from_info c (ml_trackers ml) = Inr bs"

lemma finish_good:
  assumes "content_fact.holds c ms" and "mf_phase ms = Fetching b" and "mb_is_complete b" and "names sha1 ml c mi bs"
  shows "good_result mi bs (Some (magnet_finish sha1 ml ms))"
proof -
  have "mb_buffer b = c" using assms(1-3) complete_buffer by (simp add: content_fact.holds_def)
  then show ?thesis using assms(2,4) by (simp add: magnet_finish_def names_def mb_verify_def good_result_def)
qed

lemma over_good:
  assumes "live c fl ms" and "honest_turn c fl (mf_peers ms) t" and "names sha1 ml c mi bs"
    and "magnet_next lightspeed t ms = (ms1, True)"
  shows "good_result mi bs (Some (magnet_finish sha1 ml ms1))"
proof -
  obtain a ev where t: "t = MPeer a ev" using assms(4) by (cases t) auto
  let ?ms = "ms\<lparr>mf_peers := handle_event a ev (mf_peers ms)\<rparr>"
  obtain ch where ch: "channels (mf_peers ms) a = Some ch" using assms(2) t by (auto split: option.splits)
  have e: "magnet_event lightspeed a ev ?ms = (ms1, True)" using assms(4) t by simp
  have held: "content_fact.holds c ?ms"
    using assms(1) by (auto simp: live_def Let_def content_fact.holds_def split: magnet_phase.splits)
  have "content_fact.holds c (fst (magnet_event lightspeed a ev ?ms))"
  proof (rule content_fact.event [OF held])
    fix i sz d b assume "ev = EvMetadata (MetaData i sz d)" "mb_holds c b"
    then show "mb_holds c (fst (on_data (unat i) d b))" using assms(2) t ch by (simp add: mb_holds_data)
  next
    fix hs sz assume "ev = EvExtHandshake hs" "eh_metadata_size hs = Some sz"
    then show "mb_holds c (mb_new (unat sz))" using assms(2) t ch mb_new_holds [of c] by simp
  qed
  then show ?thesis using event_done [OF e] finish_good [OF _ _ _ assms(3)] e by auto
qed

lemma served_good:
  "live c fl ms \<Longrightarrow> served c lightspeed fl ms ts \<Longrightarrow> mf_phase ms \<noteq> AwaitingSize \<or> (\<exists>t \<in> set ts. offers t) \<Longrightarrow>
    names sha1 ml c mi bs \<Longrightarrow> c \<noteq> [] \<Longrightarrow> length c \<le> 10 * 1024 * 1024 \<Longrightarrow>
    good_result mi bs (fetch_metadata sha1 ml lightspeed ms ts)"
proof (induction ts arbitrary: fl ms)
  case Nil
  then show ?case using live_end [of c ms] by auto
next
  case (Cons t ts)
  obtain ms1 f where t: "magnet_next lightspeed t ms = (ms1, f)" by fastforce
  have turn: "honest_turn c fl (mf_peers ms) t" and go: "f \<or> served c lightspeed (on_the_way fl (mf_peers ms) t) ms1 ts"
    using Cons.prems(2) t by auto
  have run: "t \<noteq> MCancelled" using turn by auto
  show ?case
  proof (cases f)
    case True
    then show ?thesis using over_good [OF Cons.prems(1) turn Cons.prems(4)] t run by simp
  next
    case False
    have "live c (on_the_way fl (mf_peers ms) t) ms1 \<and> (mf_phase ms \<noteq> AwaitingSize \<or> offers t \<longrightarrow> mf_phase ms1 \<noteq> AwaitingSize)"
      using turn_live [OF Cons.prems(1) turn Cons.prems(5,6)] t False by simp
    then have "good_result mi bs (fetch_metadata sha1 ml lightspeed ms1 ts)"
      using Cons.IH [of "on_the_way fl (mf_peers ms) t" ms1] Cons.prems(3-6) go False by auto
    then show ?thesis using t False run by simp
  qed
qed

section \<open>Properties\<close>

definition example_link :: magnet_link where
  "example_link = \<lparr>ml_info_hash = take 20 (encode small_info), ml_display_name = None, ml_trackers = []\<rparr>"

text \<open>One peer is found and connected, offers the metadata, is asked for its only piece and sends it; a
  second one is found and leaves.\<close>

definition example_turns :: "magnet_turn list" where
  "example_turns = (let a = (IPv4 1 2 3 4, 6881); b = (IPv4 1 2 3 5, 6881) in
     [MTick, MNewPeers [a, b], MPeer a (EvConnected a None True), MPeer b (EvDisconnected None), MTakes a,
      MPeer a (EvExtHandshake (ours (Some (of_nat (length (encode small_info)))) False)),
      MTakes a, MTakes a, MPeer a EvUnchoked, MPeer a (EvMetadata (MetaData 0 0 (encode small_info)))])"

lemma example_facts: "\<exists>mi bs. names (take 20) example_link (encode small_info) mi bs"
  using parse_small decode_small(1)
  by (auto simp: names_def example_link_def from_info_bytes_def torrent_bytes_from_info_def)

lemma example_content: "encode small_info \<noteq> []" "length (encode small_info) \<le> 10 * 1024 * 1024"
proof -
  show "length (encode small_info) \<le> 10 * 1024 * 1024" using length_small by simp
  have "0 < length (encode small_info)" by code_simp
  then show "encode small_info \<noteq> []" by simp
qed

lemma example_served: "served (encode small_info) False {} (magnet_start 5) example_turns"
    "\<exists>t \<in> set example_turns. offers t"
  by code_simp+

lemma example_fetch:
  "names (take 20) example_link (encode small_info) mi bs \<Longrightarrow>
    good_result mi bs (fetch_metadata (take 20) example_link False (magnet_start 5) example_turns)"
  using served_good [OF live_start example_served(1)] example_served(2) example_content by blast

text \<open>
  C9. Whatever the peers of a magnet link send, a download of its metadata that succeeds returns the
  parsed form of bytes whose hash is the one of the link, consistent as the parser guarantees, together
  with a torrent file of exactly those bytes; and never more than 10 MiB were held for it. When the bytes
  are in the canonical form of bencoding, nested less deep than the parser allows, and the trackers are
  UTF-8, the torrent file is read back as the very same metainfo, so that a restart resumes this download.
  For other bytes that holds no more: the file is written from the parsed value and has another hash.
\<close>

theorem magnet_result_verified:
  assumes "fetch_metadata sha1 ml lightspeed (magnet_start limit) ts = Some (Inr (mi, bs, warm))"
  shows "mi_info_hash mi = ml_info_hash ml \<and> info_ok (mi_info mi)
    \<and> (\<exists>raw. sha1 raw = ml_info_hash ml \<and> length raw \<le> 10 * 1024 * 1024
        \<and> from_info_bytes raw (ml_info_hash ml) (ml_trackers ml) = Inr mi
        \<and> torrent_bytes_from_info raw (ml_trackers ml) = Inr bs
        \<and> (\<forall>v. raw = encode v \<and> bdecode raw = Inr v \<and> bv_ok 1 v
            \<and> list_all (\<lambda>t. utf8_valid t \<and> length t < usize_bound) (ml_trackers ml)
            \<and> length (ml_trackers ml) \<le> MAX_ELEMENTS \<and> length bs < usize_bound \<longrightarrow>
            metainfo_from_bytes sha1 bs = Inr mi))"
proof -
  have "size_fact.holds (magnet_start limit)" by (simp add: size_fact.holds_def magnet_start_def)
  from fetch_sound [OF this assms] obtain raw where raw: "sha1 raw = ml_info_hash ml"
    "length raw \<le> 10 * 1024 * 1024" "from_info_bytes raw (ml_info_hash ml) (ml_trackers ml) = Inr mi"
    "torrent_bytes_from_info raw (ml_trackers ml) = Inr bs"
    by (auto simp: MAX_METADATA_SIZE_def)
  have "metainfo_from_bytes sha1 bs = Inr mi"
    if v: "raw = encode v" "bdecode raw = Inr v" "bv_ok 1 v"
      "list_all (\<lambda>t. utf8_valid t \<and> length t < usize_bound) (ml_trackers ml)"
      "length (ml_trackers ml) \<le> MAX_ELEMENTS" "length bs < usize_bound" for v
    using stored_magnet_equivalent [OF v(2,3) _ _ v(5) raw(4) v(6), of sha1] raw(1,3) v(1,4)
    by (simp add: list_all_iff)
  with raw from_info_ok [OF raw(3)] show ?thesis by blast
qed

theorem magnet_result_verified_witness:
  "\<exists>mi bs warm. fetch_metadata (take 20) example_link False (magnet_start 5) example_turns = Some (Inr (mi, bs, warm))
    \<and> mi_info_hash mi = take 20 (encode small_info) \<and> info_ok (mi_info mi)"
proof -
  obtain mi bs warm where r: "fetch_metadata (take 20) example_link False (magnet_start 5) example_turns = Some (Inr (mi, bs, warm))"
    using example_facts example_fetch unfolding good_result_def by blast
  with magnet_result_verified [OF r] show ?thesis by (auto simp: example_link_def)
qed



end
