(* ===== verification/Tracker.thy ===== *)
theory Tracker
  imports Bencode_Correct Net
begin

text \<open>
  Trackers (\<open>src/src/tracker/\<close>): the guard against addresses that are not public, the HTTP
  announce and the reading of its response, the UDP announce of BEP 15, and the manager that
  announces to all trackers of a torrent. Name resolution, URL parsing, percent-encoding, the
  parsing of textual addresses and the exchange of messages are arguments.
\<close>

section \<open>Public addresses\<close>

definition global_ip4 :: "u8 \<Rightarrow> u8 \<Rightarrow> u8 \<Rightarrow> u8 \<Rightarrow> bool" where
  "global_ip4 a b c d \<longleftrightarrow> \<not> (a = 127
     \<or> (a = 10 \<or> (a = 172 \<and> 16 \<le> b \<and> b \<le> 31) \<or> (a = 192 \<and> b = 168))
     \<or> (a = 169 \<and> b = 254)
     \<or> (224 \<le> a \<and> a \<le> 239)
     \<or> (a = 0 \<and> b = 0 \<and> c = 0 \<and> d = 0)
     \<or> (a = 255 \<and> b = 255 \<and> c = 255 \<and> d = 255)
     \<or> ((a = 192 \<and> b = 0 \<and> c = 2) \<or> (a = 198 \<and> b = 51 \<and> c = 100) \<or> (a = 203 \<and> b = 0 \<and> c = 113))
     \<or> (a = 100 \<and> b AND 0xC0 = 64))"

fun is_global_ip :: "ip_addr \<Rightarrow> bool" where
  "is_global_ip (IPv4 a b c d) = global_ip4 a b c d"
| "is_global_ip (IPv6 s) =
     (if take 5 s = [0, 0, 0, 0, 0] \<and> s ! 5 = 0xFFFF
      then global_ip4 (ucast (drop_bit 8 (s ! 6))) (ucast (s ! 6)) (ucast (drop_bit 8 (s ! 7))) (ucast (s ! 7))
      else \<not> (s = [0, 0, 0, 0, 0, 0, 0, 1] \<or> (s ! 0) AND 0xFF00 = 0xFF00 \<or> s = [0, 0, 0, 0, 0, 0, 0, 0]
        \<or> (s ! 0) AND 0xFE00 = 0xFC00 \<or> (s ! 0) AND 0xFFC0 = 0xFE80))"

datatype tracker_error =
    HttpError
  | BencodeError
  | TrackerFailure bytes
  | InvalidResponse
  | ResponseTooLarge nat
  | TrackerTimeout

definition resolve_public_addr ::
  "(bytes \<Rightarrow> nat \<Rightarrow> sock_addr list option) \<Rightarrow> bytes \<Rightarrow> nat \<Rightarrow> tracker_error + sock_addr" where
  "resolve_public_addr lookup_host host port = (case lookup_host host port of
       None \<Rightarrow> Inl (TrackerFailure (ascii ''DNS resolution failed''))
     | Some addrs \<Rightarrow>
         if addrs = [] then Inl (TrackerFailure (ascii ''no addresses resolved''))
         else if list_ex (\<lambda>a. \<not> is_global_ip (fst a)) addrs
         then Inl (TrackerFailure (ascii ''tracker resolves to a non-public address (blocked)''))
         else Inr (hd addrs))"

section \<open>HTTP\<close>

record announce_response =
  ar_interval :: u32
  ar_min_interval :: "u32 option"
  ar_peers :: "sock_addr list"
  ar_seeders :: "u32 option"
  ar_leechers :: "u32 option"

record http_response =
  hr_success :: bool
  hr_content_length :: "nat option"
  hr_body :: "bytes option"

definition parse_compact_peers :: "bytes \<Rightarrow> sock_addr list" where
  "parse_compact_peers data = map sock4_of_bytes (chunks_exact 6 data)"

definition dict_peer :: "(bytes \<Rightarrow> ip_addr option) \<Rightarrow> bvalue \<Rightarrow> sock_addr option" where
  "dict_peer parse_ip p = (case Option.bind (get_str p ''ip'') as_str of
       None \<Rightarrow> None
     | Some ip_str \<Rightarrow> (case Option.bind (get_str p ''port'') as_int of
         None \<Rightarrow> None
       | Some port \<Rightarrow> map_option (\<lambda>ip. (ip, ucast port)) (parse_ip ip_str)))"

definition parse_dict_peers :: "(bytes \<Rightarrow> ip_addr option) \<Rightarrow> bvalue list \<Rightarrow> sock_addr list" where
  "parse_dict_peers parse_ip peers = List.map_filter (dict_peer parse_ip) peers"

definition MAX_RESPONSE_SIZE :: nat where "MAX_RESPONSE_SIZE = 1048576"

definition int_field :: "bvalue \<Rightarrow> string \<Rightarrow> u32 option" where
  "int_field val key = map_option ucast (Option.bind (get_str val key) as_int)"

text \<open>What is made of the tracker's answer, from its status line to its peers.\<close>

definition parse_announce ::
  "(bytes \<Rightarrow> ip_addr option) \<Rightarrow> http_response \<Rightarrow> tracker_error + announce_response" where
  "parse_announce parse_ip r =
     (case (case hr_content_length r of Some n \<Rightarrow> if MAX_RESPONSE_SIZE < n then Some n else None | None \<Rightarrow> None) of
        Some n \<Rightarrow> Inl (ResponseTooLarge n)
      | None \<Rightarrow> (case hr_body r of None \<Rightarrow> Inl HttpError | Some body \<Rightarrow>
        if MAX_RESPONSE_SIZE < length body then Inl (ResponseTooLarge (length body))
        else if \<not> hr_success r then Inl (TrackerFailure (ascii ''HTTP status''))
        else (case bdecode body of
            Inl e \<Rightarrow> Inl BencodeError
          | Inr val \<Rightarrow>
            (case Option.bind (get_str val ''failure reason'') as_str of
               Some reason \<Rightarrow> Inl (TrackerFailure reason)
             | None \<Rightarrow> Inr
               \<lparr>ar_interval = (case int_field val ''interval'' of None \<Rightarrow> 1800 | Some n \<Rightarrow> n),
                ar_min_interval = int_field val ''min interval'',
                ar_peers = (case get_str val ''peers'' of
                    None \<Rightarrow> []
                  | Some pv \<Rightarrow> (case as_bytes pv of
                      Some compact \<Rightarrow> parse_compact_peers compact
                    | None \<Rightarrow> (case as_list pv of
                        Some l \<Rightarrow> parse_dict_peers parse_ip l | None \<Rightarrow> []))),
                ar_seeders = int_field val ''complete'',
                ar_leechers = int_field val ''incomplete''\<rparr>))))"

record announce =
  an_info_hash :: bytes
  an_peer_id :: bytes
  an_port :: u16
  an_uploaded :: u64
  an_downloaded :: u64
  an_left :: u64

definition announce_query :: "(bytes \<Rightarrow> bytes) \<Rightarrow> bytes \<Rightarrow> announce \<Rightarrow> bytes option \<Rightarrow> bytes" where
  "announce_query percent_encode tracker_url an event =
     (if 0x3F \<in> set tracker_url then ascii ''&'' else ascii ''?'')
     @ ascii ''info_hash='' @ percent_encode (an_info_hash an)
     @ ascii ''&peer_id='' @ percent_encode (an_peer_id an)
     @ ascii ''&port='' @ dec_nat (unat (an_port an))
     @ ascii ''&uploaded='' @ dec_nat (unat (an_uploaded an))
     @ ascii ''&downloaded='' @ dec_nat (unat (an_downloaded an))
     @ ascii ''&left='' @ dec_nat (unat (an_left an)) @ ascii ''&compact=1&numwant=200''
     @ (case event of None \<Rightarrow> [] | Some e \<Rightarrow> ascii ''&event='' @ e)"

text \<open>The environment of an announce: a parsed URL is its host and its port, the known default
  of the scheme (none for \<open>udp\<close>) included.\<close>

record net_env =
  env_parse_url :: "bytes \<Rightarrow> (bytes option \<times> nat option) option"
  env_lookup_host :: "bytes \<Rightarrow> nat \<Rightarrow> sock_addr list option"
  env_percent_encode :: "bytes \<Rightarrow> bytes"
  env_parse_ip :: "bytes \<Rightarrow> ip_addr option"

definition http_announce ::
  "net_env \<Rightarrow> (sock_addr \<Rightarrow> bytes \<Rightarrow> http_response option) \<Rightarrow> bytes \<Rightarrow> announce \<Rightarrow> bytes option
    \<Rightarrow> tracker_error + announce_response" where
  "http_announce env fetch tracker_url an event = (case env_parse_url env tracker_url of
       None \<Rightarrow> Inl (TrackerFailure (ascii ''invalid tracker URL''))
     | Some (None, _) \<Rightarrow> Inl (TrackerFailure (ascii ''tracker URL missing host''))
     | Some (Some host, port) \<Rightarrow>
         (case resolve_public_addr (env_lookup_host env) host (case port of None \<Rightarrow> 80 | Some p \<Rightarrow> p) of
            Inl e \<Rightarrow> Inl e
          | Inr addr \<Rightarrow>
              (case fetch addr (tracker_url @ announce_query (env_percent_encode env) tracker_url an event) of
                 None \<Rightarrow> Inl HttpError
               | Some r \<Rightarrow> parse_announce (env_parse_ip env) r)))"

section \<open>UDP\<close>

definition PROTOCOL_ID :: u64 where "PROTOCOL_ID = 0x041727101980"
definition ACTION_CONNECT :: u32 where "ACTION_CONNECT = 0"
definition ACTION_ANNOUNCE :: u32 where "ACTION_ANNOUNCE = 1"

text \<open>What one attempt brings: the send fails, a datagram, an error, or no answer in time.\<close>

datatype attempt = SendError | Datagram bytes | RecvError | NoAnswer

definition read32 :: "bytes \<Rightarrow> nat \<Rightarrow> u32" where
  "read32 b i = of_be32 (b ! i) (b ! (i + 1)) (b ! (i + 2)) (b ! (i + 3))"

definition read64 :: "bytes \<Rightarrow> nat \<Rightarrow> u64" where
  "read64 b i = of_be64 (read32 b i) (read32 b (i + 4))"

definition connect_request :: "u32 \<Rightarrow> bytes" where
  "connect_request txn = be64 PROTOCOL_ID @ be32 ACTION_CONNECT @ be32 txn"

text \<open>The attempts of \<open>for attempt in 0..4\<close>, each with a receive buffer of \<open>cap\<close> bytes.\<close>

fun udp_attempts ::
  "nat \<Rightarrow> nat \<Rightarrow> (bytes \<Rightarrow> 'r option) \<Rightarrow> attempt list \<Rightarrow> tracker_error + 'r" where
  "udp_attempts cap least parse [] = Inl TrackerTimeout"
| "udp_attempts cap least parse (SendError # as) = Inl BencodeError"
| "udp_attempts cap least parse (RecvError # as) = Inl BencodeError"
| "udp_attempts cap least parse (NoAnswer # as) = udp_attempts cap least parse as"
| "udp_attempts cap least parse (Datagram d # as) =
     (let buf = take cap d in
      if length buf < least then udp_attempts cap least parse as
      else (case parse buf of Some r \<Rightarrow> Inr r | None \<Rightarrow> udp_attempts cap least parse as))"

definition parse_connect :: "u32 \<Rightarrow> bytes \<Rightarrow> u64 option" where
  "parse_connect txn buf =
     (if read32 buf 0 \<noteq> ACTION_CONNECT \<or> read32 buf 4 \<noteq> txn then None else Some (read64 buf 8))"

definition udp_connect :: "u32 \<Rightarrow> attempt list \<Rightarrow> tracker_error + u64" where
  "udp_connect txn as = udp_attempts 16 16 (parse_connect txn) (take 4 as)"

definition announce_request :: "u64 \<Rightarrow> u32 \<Rightarrow> u32 \<Rightarrow> announce \<Rightarrow> u32 \<Rightarrow> bytes" where
  "announce_request connection_id txn key an event =
     be64 connection_id @ be32 ACTION_ANNOUNCE @ be32 txn @ an_info_hash an @ an_peer_id an
     @ be64 (an_downloaded an) @ be64 (an_left an) @ be64 (an_uploaded an) @ be32 event
     @ be32 0 @ be32 key @ be32 (- 1) @ be16 (an_port an)"

definition parse_udp_announce :: "u32 \<Rightarrow> bytes \<Rightarrow> announce_response option" where
  "parse_udp_announce txn buf =
     (if read32 buf 0 \<noteq> ACTION_ANNOUNCE \<or> read32 buf 4 \<noteq> txn then None
      else Some \<lparr>ar_interval = read32 buf 8, ar_min_interval = None,
        ar_peers = parse_compact_peers (drop 20 buf),
        ar_seeders = Some (read32 buf 16), ar_leechers = Some (read32 buf 12)\<rparr>)"

definition udp_announce_request :: "u32 \<Rightarrow> attempt list \<Rightarrow> tracker_error + announce_response" where
  "udp_announce_request txn as = udp_attempts 2048 20 (parse_udp_announce txn) (take 4 as)"

text \<open>
  \<open>exchange\<close> is the connected socket: the attempts that follow a request to an address. The
  transaction numbers and the key are random.
\<close>

definition udp_announce ::
  "net_env \<Rightarrow> (sock_addr \<Rightarrow> bytes \<Rightarrow> attempt list) \<Rightarrow> u32 \<times> u32 \<times> u32 \<Rightarrow> bytes \<Rightarrow> announce \<Rightarrow> u32
    \<Rightarrow> tracker_error + announce_response" where
  "udp_announce env exchange rnd tracker_url an event = (case rnd of (txn1, txn2, key) \<Rightarrow>
     (case env_parse_url env tracker_url of
       None \<Rightarrow> Inl BencodeError
     | Some (None, _) \<Rightarrow> Inl BencodeError
     | Some (Some host, port) \<Rightarrow>
         (case env_lookup_host env host (case port of None \<Rightarrow> 80 | Some p \<Rightarrow> p) of
            None \<Rightarrow> Inl BencodeError
          | Some [] \<Rightarrow> Inl BencodeError
          | Some (addr # _) \<Rightarrow>
              if \<not> is_global_ip (fst addr)
              then Inl (TrackerFailure (ascii ''tracker resolves to a non-public address (blocked)''))
              else (case udp_connect txn1 (exchange addr (connect_request txn1)) of
                  Inl e \<Rightarrow> Inl e
                | Inr conn \<Rightarrow>
                    udp_announce_request txn2 (exchange addr (announce_request conn txn2 key an event))))))"

section \<open>The manager\<close>

record net =
  net_fetch :: "sock_addr \<Rightarrow> bytes \<Rightarrow> http_response option"
  net_exchange :: "sock_addr \<Rightarrow> bytes \<Rightarrow> attempt list"
  net_random :: "u32 \<times> u32 \<times> u32"

datatype announce_event = Started | Completed | Stopped

fun event_name :: "announce_event \<Rightarrow> bytes" where
  "event_name Started = ascii ''started''"
| "event_name Completed = ascii ''completed''"
| "event_name Stopped = ascii ''stopped''"

fun event_code :: "announce_event option \<Rightarrow> u32" where
  "event_code (Some Started) = 2"
| "event_code (Some Completed) = 1"
| "event_code (Some Stopped) = 3"
| "event_code None = 0"

definition announce_single ::
  "net_env \<Rightarrow> net \<Rightarrow> announce \<Rightarrow> bytes \<Rightarrow> announce_event option \<Rightarrow> tracker_error + announce_response" where
  "announce_single env net an url event =
     (if starts_with url (ascii ''udp://'')
      then udp_announce env (net_exchange net) (net_random net) url an (event_code event)
      else http_announce env (net_fetch net) url an (map_option event_name event))"

text \<open>
  The manager's run as a sequence of turns: what each announce brings is a function of the turn.
  Its effects are the announces made and the batches of peers sent.
\<close>

datatype tracker_turn = TrackerTick | TrackerCancelled
datatype tracker_effect = Announced bytes "announce_event option" | PeersFound "sock_addr list"

definition peers_effect :: "tracker_error + announce_response \<Rightarrow> tracker_effect list" where
  "peers_effect r = (case r of Inl e \<Rightarrow> []
     | Inr resp \<Rightarrow> if ar_peers resp \<noteq> [] then [PeersFound (ar_peers resp)] else [])"

definition next_interval :: "tracker_error + announce_response \<Rightarrow> u32 \<Rightarrow> u32" where
  "next_interval r reannounce = (case r of
       Inl e \<Rightarrow> reannounce
     | Inr resp \<Rightarrow> min reannounce (case ar_min_interval resp of Some m \<Rightarrow> m | None \<Rightarrow> ar_interval resp))"

fun announce_all ::
  "(bytes \<Rightarrow> tracker_error + announce_response) \<Rightarrow> announce_event option \<Rightarrow> bytes list \<Rightarrow> tracker_effect list"
where
  "announce_all ann event [] = []"
| "announce_all ann event (url # urls) =
     Announced url event # peers_effect (ann url) @ announce_all ann event urls"

fun tracker_loop ::
  "(nat \<Rightarrow> bytes \<Rightarrow> announce_event option \<Rightarrow> tracker_error + announce_response) \<Rightarrow> bytes list \<Rightarrow> nat
    \<Rightarrow> tracker_turn list \<Rightarrow> tracker_effect list" where
  "tracker_loop ann urls n [] = []"
| "tracker_loop ann urls n (TrackerTick # ts) =
     announce_all (\<lambda>u. ann n u None) None urls @ tracker_loop ann urls (Suc n) ts"
| "tracker_loop ann urls n (TrackerCancelled # ts) = map (\<lambda>u. Announced u (Some Stopped)) urls"

text \<open>The interval in seconds and the effects of the whole run.\<close>

definition tracker_run ::
  "(nat \<Rightarrow> bytes \<Rightarrow> announce_event option \<Rightarrow> tracker_error + announce_response) \<Rightarrow> bytes list
    \<Rightarrow> tracker_turn list \<Rightarrow> (u32 \<times> tracker_effect list) option" where
  "tracker_run ann urls ts =
     (if urls = [] then None
      else Some (max (fold (\<lambda>u. next_interval (ann 0 u (Some Started))) urls 1800) 60,
        announce_all (\<lambda>u. ann 0 u (Some Started)) (Some Started) urls @ tracker_loop ann urls 1 ts))"

end
