(* ===== verification/Tracker_Correct.thy ===== *)
theory Tracker_Correct
  imports Tracker
begin

text \<open>
  Properties of the tracker client: no announce contacts an address of the private and special
  blocks, the UDP messages are laid out and read as BEP 15 says, and the announce cycle keeps
  its order and its interval within bounds.
\<close>

section \<open>Address blocks\<close>

text \<open>The guard's reference: network blocks in prefix notation on the address as a number.\<close>

definition ip4_value :: "nat \<Rightarrow> nat \<Rightarrow> nat \<Rightarrow> nat \<Rightarrow> nat" where
  "ip4_value a b c d = a * 2 ^ 24 + b * 2 ^ 16 + c * 2 ^ 8 + d"

definition in_block :: "nat \<Rightarrow> nat \<times> nat \<Rightarrow> bool" where
  "in_block v = (\<lambda>(net, len). v div 2 ^ (32 - len) = net div 2 ^ (32 - len))"

definition special_blocks :: "(nat \<times> nat) list" where
  "special_blocks = [(ip4_value 0 0 0 0, 32), (ip4_value 10 0 0 0, 8), (ip4_value 100 64 0 0, 10),
     (ip4_value 127 0 0 0, 8), (ip4_value 169 254 0 0, 16), (ip4_value 172 16 0 0, 12),
     (ip4_value 192 0 2 0, 24), (ip4_value 192 168 0 0, 16), (ip4_value 198 51 100 0, 24),
     (ip4_value 203 0 113 0, 24), (ip4_value 224 0 0 0, 4), (ip4_value 255 255 255 255, 32)]"

lemma and_high_bits:
  "w AND NOT (mask k) = N AND NOT (mask k) \<longleftrightarrow> drop_bit k w = drop_bit k (N :: 'a::len word)"
proof
  assume a: "w AND NOT (mask k) = N AND NOT (mask k)"
  show "drop_bit k w = drop_bit k N"
  proof (rule bit_word_eqI)
    fix n assume "n < LENGTH('a)"
    have "bit (w AND NOT (mask k)) (k + n) = bit (N AND NOT (mask k)) (k + n)" by (simp only: a)
    then show "bit (drop_bit k w) n = bit (drop_bit k N) n"
      by (cases "k + n < LENGTH('a)") (auto simp: bit_simps dest: bit_imp_le_length)
  qed
next
  assume a: "drop_bit k w = drop_bit k N"
  show "w AND NOT (mask k) = N AND NOT (mask k)"
  proof (rule bit_word_eqI)
    fix n assume "n < LENGTH('a)"
    have "bit (drop_bit k w) (n - k) = bit (drop_bit k N) (n - k)" by (simp only: a)
    then show "bit (w AND NOT (mask k)) n = bit (N AND NOT (mask k)) n"
      by (cases "k \<le> n") (auto simp: bit_simps)
  qed
qed

lemma and_high_unat:
  "w AND NOT (mask k) = N AND NOT (mask k) \<longleftrightarrow> unat w div 2 ^ k = unat N div 2 ^ k" for w :: "'a::len word"
  unfolding and_high_bits
  unfolding word_eq_iff_unsigned [where ?'a = nat] unat_drop_bit_eq
  unfolding drop_bit_eq_div ..

lemma ip4_divs:
  assumes "a < 256" "b < 256" "c < 256" "d < (256 :: nat)"
  shows "ip4_value a b c d div 16777216 = a" "ip4_value a b c d div 65536 = a * 256 + b"
    "ip4_value a b c d div 256 = a * 65536 + b * 256 + c"
    "ip4_value a b c d div 1048576 = a * 16 + b div 16" "ip4_value a b c d div 4194304 = a * 4 + b div 64"
    "ip4_value a b c d div 268435456 = a div 16"
  using assms by (simp_all add: ip4_value_def)

lemma digit: "y < m \<Longrightarrow> y' < m \<Longrightarrow> a * m + y = x * m + y' \<longleftrightarrow> a = x \<and> y = (y' :: nat)"
proof
  assume m: "y < m" "y' < m" and e: "a * m + y = x * m + y'"
  have "(a * m + y) div m = a" "(x * m + y') div m = x" using m by simp_all
  with e have "a = x" by simp
  with e show "a = x \<and> y = y'" by simp
qed simp

lemma ip4_value_inject:
  assumes "a < 256" "b < 256" "c < 256" "d < 256" and "x < 256" "y < 256" "z < 256" "w < 256"
  shows "ip4_value a b c d = ip4_value x y z w \<longleftrightarrow> a = x \<and> b = y \<and> c = z \<and> d = w"
proof
  assume e: "ip4_value a b c d = ip4_value x y z w"
  have a: "a = x" using ip4_divs(1) [OF assms(1-4)] ip4_divs(1) [OF assms(5-8)] e by simp
  have b: "b = y" using ip4_divs(2) [OF assms(1-4)] ip4_divs(2) [OF assms(5-8)] e a by simp
  have "c = z" using ip4_divs(3) [OF assms(1-4)] ip4_divs(3) [OF assms(5-8)] e a b by simp
  with e a b show "a = x \<and> b = y \<and> c = z \<and> d = w" by (simp add: ip4_value_def)
qed simp

text \<open>The test of the code, octet by octet, on numbers.\<close>

definition special_octets :: "nat \<Rightarrow> nat \<Rightarrow> nat \<Rightarrow> nat \<Rightarrow> bool" where
  "special_octets a b c d \<longleftrightarrow> a = 127 \<or> a = 10 \<or> (a = 172 \<and> b div 16 = 1) \<or> (a = 192 \<and> b = 168)
     \<or> (a = 169 \<and> b = 254) \<or> a div 16 = 14 \<or> (a = 0 \<and> b = 0 \<and> c = 0 \<and> d = 0)
     \<or> (a = 255 \<and> b = 255 \<and> c = 255 \<and> d = 255) \<or> (a = 192 \<and> b = 0 \<and> c = 2)
     \<or> (a = 198 \<and> b = 51 \<and> c = 100) \<or> (a = 203 \<and> b = 0 \<and> c = 113) \<or> (a = 100 \<and> b div 64 = 1)"

lemma special_octets_blocks:
  assumes "a < 256" "b < 256" "c < 256" "d < 256"
  shows "special_octets a b c d \<longleftrightarrow> list_ex (in_block (ip4_value a b c d)) special_blocks"
proof -
  note d = ip4_divs [OF assms]
  have v: "ip4_value a b c d = ip4_value 0 0 0 0 \<longleftrightarrow> a = 0 \<and> b = 0 \<and> c = 0 \<and> d = 0"
    "ip4_value a b c d = ip4_value 255 255 255 255 \<longleftrightarrow> a = 255 \<and> b = 255 \<and> c = 255 \<and> d = 255"
    by (rule ip4_value_inject; use assms in simp)+
  have pair: "a * 4 + b div 64 = 401 \<longleftrightarrow> a = 100 \<and> b div 64 = 1"
    "a * 16 + b div 16 = 2753 \<longleftrightarrow> a = 172 \<and> b div 16 = 1"
    "a * 256 + b = 43518 \<longleftrightarrow> a = 169 \<and> b = 254" "a * 256 + b = 49320 \<longleftrightarrow> a = 192 \<and> b = 168"
    using digit [of "b div 64" 4 1 a 100] digit [of "b div 16" 16 1 a 172]
      digit [of b 256 254 a 169] digit [of b 256 168 a 192] assms by simp_all
  have triple: "a * 65536 + b * 256 + c = 12582914 \<longleftrightarrow> a = 192 \<and> b = 0 \<and> c = 2"
    "a * 65536 + b * 256 + c = 12989284 \<longleftrightarrow> a = 198 \<and> b = 51 \<and> c = 100"
    "a * 65536 + b * 256 + c = 13303921 \<longleftrightarrow> a = 203 \<and> b = 0 \<and> c = 113"
    using digit [of c 256 2 "a * 256 + b" 49152] digit [of b 256 0 a 192]
      digit [of c 256 100 "a * 256 + b" 50739] digit [of b 256 51 a 198]
      digit [of c 256 113 "a * 256 + b" 51968] digit [of b 256 0 a 203] assms
    by (simp_all add: mult.commute)
  have "list_ex (in_block (ip4_value a b c d)) special_blocks \<longleftrightarrow>
      ip4_value a b c d = ip4_value 0 0 0 0 \<or> a = 10 \<or> a * 4 + b div 64 = 401 \<or> a = 127 \<or> a * 256 + b = 43518
      \<or> a * 16 + b div 16 = 2753 \<or> a * 65536 + b * 256 + c = 12582914 \<or> a * 256 + b = 49320
      \<or> a * 65536 + b * 256 + c = 12989284 \<or> a * 65536 + b * 256 + c = 13303921
      \<or> a div 16 = 14 \<or> ip4_value a b c d = ip4_value 255 255 255 255"
    by (simp add: special_blocks_def in_block_def d ip4_divs)
  also have "\<dots> \<longleftrightarrow> special_octets a b c d"
    by (simp only: special_octets_def v pair triple disj_ac conj_ac)
  finally show ?thesis by simp
qed

lemma masks:
  "NOT (mask 6) = (0xC0 :: u8)" "NOT (mask 9) = (0xFE00 :: u16)" "NOT (mask 8) = (0xFF00 :: u16)"
  "NOT (mask 6) = (0xFFC0 :: u16)"
  by (simp_all add: mask_eq_exp_minus_1)

lemma global_ip4_blocks:
  "global_ip4 a b c d \<longleftrightarrow> \<not> list_ex (in_block (ip4_value (unat a) (unat b) (unat c) (unat d))) special_blocks"
proof -
  have u: "unat w < 256" for w :: u8 using unsigned_less [of w] by simp
  have num: "w = x \<longleftrightarrow> unat w = unat x" for w x :: u8
    by (rule word_eq_iff_unsigned)
  have "b AND 0xC0 = 64 \<longleftrightarrow> unat b div 64 = 1"
    using and_high_unat [of b 6 64] unfolding masks by simp
  moreover have "16 \<le> b \<and> b \<le> 31 \<longleftrightarrow> unat b div 16 = 1"
    unfolding word_le_nat_alt by simp presburger
  moreover have "224 \<le> a \<and> a \<le> 239 \<longleftrightarrow> unat a div 16 = 14"
    unfolding word_le_nat_alt by simp presburger
  ultimately have "global_ip4 a b c d \<longleftrightarrow> \<not> special_octets (unat a) (unat b) (unat c) (unat d)"
    unfolding global_ip4_def special_octets_def num [of a] num [of b 168] num [of b 254] num [of b 0]
      num [of b 255] num [of b 51] num [of c] num [of d]
    by (simp add: disj_ac conj_ac)
  then show ?thesis using special_octets_blocks [OF u u u u] by simp
qed

text \<open>IPv6: the address as a number, with IPv4 addresses mapped into it.\<close>

definition ip6_value :: "u16 list \<Rightarrow> nat" where
  "ip6_value s = foldl (\<lambda>v w. v * 65536 + unat w) 0 s"

fun public_addr :: "ip_addr \<Rightarrow> bool" where
  "public_addr (IPv4 a b c d) =
     (\<not> list_ex (in_block (ip4_value (unat a) (unat b) (unat c) (unat d))) special_blocks)"
| "public_addr (IPv6 s) = (let v = ip6_value s in
     if v div 2 ^ 32 = 0xFFFF then \<not> list_ex (in_block (v mod 2 ^ 32)) special_blocks
     else v \<noteq> 0 \<and> v \<noteq> 1 \<and> v div 2 ^ 120 \<noteq> 0xFF \<and> v div 2 ^ 121 \<noteq> 0xFC div 2 \<and> v div 2 ^ 118 \<noteq> 0xFE80 div 2 ^ 6)"

lemma ip6_snoc: "ip6_value (s @ [w]) = ip6_value s * 65536 + unat w"
  by (simp add: ip6_value_def)

lemma u16_bound: "unat (w :: u16) < 65536"
  using unsigned_less [of w] by simp

lemma ip6_value_bound: "ip6_value s < 65536 ^ length s"
proof (induction s rule: rev_induct)
  case (snoc w s)
  then have "ip6_value s * 65536 + 65536 \<le> 65536 ^ length s * 65536"
    by (metis Suc_leI add.commute mult_Suc mult_le_mono1)
  then show ?case using u16_bound [of w] by (simp add: ip6_snoc)
qed (simp add: ip6_value_def)

lemma ip6_value_append: "ip6_value (s @ t) = ip6_value s * 65536 ^ length t + ip6_value t"
proof (induction t rule: rev_induct)
  case (snoc w t)
  then show ?case by (simp add: ip6_snoc algebra_simps flip: append_assoc)
qed (simp add: ip6_value_def)

lemma ip6_value_Cons: "ip6_value (w # t) = unat w * 65536 ^ length t + ip6_value t"
  using ip6_value_append [of "[w]" t] by (simp add: ip6_value_def)

lemma ip6_value_inject: "length s = length t \<Longrightarrow> ip6_value s = ip6_value t \<longleftrightarrow> s = t"
proof (induction s t rule: list_induct2)
  case (Cons x xs y ys)
  have "unat x = unat y \<longleftrightarrow> x = y" by (simp add: word_eq_iff_unsigned [where ?'a = nat])
  with Cons digit [OF ip6_value_bound, of "ip6_value ys" ys "unat x" "unat y"] ip6_value_bound [of xs]
    ip6_value_bound [of ys] digit [of "ip6_value xs" "65536 ^ length ys" "ip6_value ys" "unat x" "unat y"]
  show ?case by (simp add: ip6_value_Cons)
qed simp

lemma ip6_head:
  assumes "length t = 7"
  shows "ip6_value (w # t) div 2 ^ 120 = unat w div 256" "ip6_value (w # t) div 2 ^ 121 = unat w div 512"
    "ip6_value (w # t) div 2 ^ 118 = unat w div 64"
proof -
  have "ip6_value t < 2 ^ 112" using ip6_value_bound [of t] assms by simp
  then have d: "ip6_value (w # t) div 2 ^ 112 = unat w" using assms by (simp add: ip6_value_Cons)
  have e: "v div 2 ^ (112 + k) = v div 2 ^ 112 div 2 ^ k" for v k :: nat
    by (simp only: power_add div_mult2_eq)
  show "ip6_value (w # t) div 2 ^ 120 = unat w div 256" using e [of "ip6_value (w # t)" 8] unfolding d by simp
  show "ip6_value (w # t) div 2 ^ 121 = unat w div 512" using e [of "ip6_value (w # t)" 9] unfolding d by simp
  show "ip6_value (w # t) div 2 ^ 118 = unat w div 64" using e [of "ip6_value (w # t)" 6] unfolding d by simp
qed

lemma seg_octets:
  "ip4_value (unat (ucast (drop_bit 8 (x :: u16)) :: u8)) (unat (ucast x :: u8))
     (unat (ucast (drop_bit 8 y) :: u8)) (unat (ucast y :: u8)) = unat x * 65536 + unat (y :: u16)"
proof -
  have o: "unat (ucast w :: u8) = unat w mod 256" "unat (drop_bit 8 w) = unat w div 256"
    "unat w div 256 mod 256 = unat w div 256" for w :: u16
    unfolding unsigned_ucast_eq unat_drop_bit_eq unfolding drop_bit_eq_div take_bit_eq_mod
    using u16_bound [of w] by simp_all
  define a b c d where "a = unat x div 256" and "b = unat x mod 256" and "c = unat y div 256" and "d = unat y mod 256"
  have e: "unat x = a * 256 + b" "unat y = c * 256 + d" by (simp_all add: a_def b_def c_def d_def)
  have m: "a mod 256 = a" "c mod 256 = c" unfolding a_def c_def by (rule o(3))+
  show ?thesis unfolding o ip4_value_def a_def [symmetric] b_def [symmetric] c_def [symmetric] d_def [symmetric]
    unfolding e by (simp add: m)
qed

lemma length_2: "length xs = 2 \<Longrightarrow> \<exists>x y. xs = [x, y]"
  by (auto simp: length_Suc_conv numeral_2_eq_2)

lemma global_ip_public:
  assumes "\<And>s. ip = IPv6 s \<Longrightarrow> length s = 8"
  shows "is_global_ip ip \<longleftrightarrow> public_addr ip"
proof (cases ip)
  case (IPv4 a b c d)
  then show ?thesis by (simp add: global_ip4_blocks)
next
  case (IPv6 s)
  with assms have l: "length s = 8" by simp
  then have "length (drop 6 s) = 2" by simp
  then obtain x y where "drop 6 s = [x, y]" using length_2 by blast
  then have "s = take 6 s @ [x, y]" by (metis append_take_drop_id)
  moreover have "length (take 6 s) = 6" using l by simp
  ultimately obtain h where s: "s = h @ [x, y]" and h: "length h = 6" by blast
  obtain w t where wt: "s = w # t" "length t = 7" using l by (cases s) auto
  have v: "ip6_value s = ip6_value h * 2 ^ 32 + (unat x * 65536 + unat y)" and "unat x * 65536 + unat y < 2 ^ 32"
    using u16_bound [of x] u16_bound [of y] by (simp_all add: s ip6_value_append) (simp add: ip6_value_def)
  then have dm: "ip6_value s div 2 ^ 32 = ip6_value h" "ip6_value s mod 2 ^ 32 = unat x * 65536 + unat y"
    by simp_all
  have "h = take 5 s @ [s ! 5]"
    using h take_Suc_conv_app_nth [of 5 h] by (simp add: s nth_append)
  then have m: "take 5 s = [0, 0, 0, 0, 0] \<and> s ! 5 = 0xFFFF \<longleftrightarrow> ip6_value h = 0xFFFF"
    using ip6_value_inject [of h "[0, 0, 0, 0, 0, 0xFFFF]"] h by (auto simp: ip6_value_def)
  have z: "s = [0, 0, 0, 0, 0, 0, 0, 0] \<longleftrightarrow> ip6_value s = 0" "s = [0, 0, 0, 0, 0, 0, 0, 1] \<longleftrightarrow> ip6_value s = 1"
    using ip6_value_inject [of s "[0, 0, 0, 0, 0, 0, 0, 0]"] ip6_value_inject [of s "[0, 0, 0, 0, 0, 0, 0, 1]"] l
    by (simp_all add: ip6_value_def)
  have p: "w AND 0xFF00 = 0xFF00 \<longleftrightarrow> unat w div 256 = 255" "w AND 0xFE00 = 0xFC00 \<longleftrightarrow> unat w div 512 = 126"
    "w AND 0xFFC0 = 0xFE80 \<longleftrightarrow> unat w div 64 = 1018"
    using and_high_unat [of w 8 "0xFF00"] and_high_unat [of w 9 "0xFC00"] and_high_unat [of w 6 "0xFE80"]
    unfolding masks by simp_all
  show ?thesis
  proof (cases "ip6_value h = 0xFFFF")
    case True
    then show ?thesis
      unfolding IPv6 is_global_ip.simps public_addr.simps Let_def dm m global_ip4_blocks
      using seg_octets [of x y] h by (simp add: s nth_append)
  next
    case False
    then show ?thesis
      unfolding IPv6 is_global_ip.simps public_addr.simps Let_def dm m z
      using ip6_head [OF wt(2), of w] p by (auto simp: wt(1))
  qed
qed

section \<open>UDP messages\<close>

lemma read32_be32: "read32 (be32 w @ r) 0 = w"
  by (simp add: read32_def be32_def)

lemma read32_skip: "length a = k \<Longrightarrow> read32 (a @ r) (k + i) = read32 r i"
  by (simp add: read32_def nth_append)

lemma read64_be64: "read64 (be64 w @ r) 0 = w"
proof -
  have "read64 (be64 w @ r) 0 = of_be64 (ucast (drop_bit 32 w)) (ucast w)"
    using read32_be32 [of "ucast (drop_bit 32 w)" "be32 (ucast w) @ r"] read32_be32 [of "ucast w" r]
      read32_skip [of "be32 (ucast (drop_bit 32 w))" 4 "be32 (ucast w) @ r" 0]
    by (simp add: read64_def be64_def)
  then show ?thesis by simp
qed

lemma read64_skip: "length a = k \<Longrightarrow> read64 (a @ r) (k + i) = read64 r i"
  using read32_skip [of a k r i] read32_skip [of a k r "i + 4"] by (simp add: read64_def add.assoc)

lemma read_tail:
  "read32 (be32 a @ be32 b @ be32 c @ be32 d @ be16 p) 0 = a"
  "read32 (be32 a @ be32 b @ be32 c @ be32 d @ be16 p) 4 = b"
  "read32 (be32 a @ be32 b @ be32 c @ be32 d @ be16 p) 8 = c"
  "read32 (be32 a @ be32 b @ be32 c @ be32 d @ be16 p) 12 = d"
  "of_be16 ((be32 a @ be32 b @ be32 c @ be32 d @ be16 p) ! 16) ((be32 a @ be32 b @ be32 c @ be32 d @ be16 p) ! 17) = p"
  by (simp_all add: read32_def be32_def be16_def nth_append)

text \<open>An attempt that does not end the loop: no answer, or a datagram that is too short or not
  accepted.\<close>

definition passed :: "nat \<Rightarrow> nat \<Rightarrow> (bytes \<Rightarrow> 'r option) \<Rightarrow> attempt \<Rightarrow> bool" where
  "passed cap least parse a \<longleftrightarrow> (case a of NoAnswer \<Rightarrow> True
     | Datagram d \<Rightarrow> length (take cap d) < least \<or> parse (take cap d) = None | _ \<Rightarrow> False)"

lemma udp_attempts_passed:
  "list_all (passed cap least parse) as \<Longrightarrow>
     udp_attempts cap least parse (as @ bs) = udp_attempts cap least parse bs"
  by (induction as) (auto simp: passed_def Let_def split: attempt.splits option.splits)

lemma udp_attempts_result:
  "udp_attempts cap least parse as = Inr r \<Longrightarrow>
     \<exists>d. Datagram d \<in> set as \<and> least \<le> length (take cap d) \<and> parse (take cap d) = Some r"
  by (induction cap least parse as rule: udp_attempts.induct)
    (auto simp: Let_def split: if_splits option.splits)

text \<open>The answer of a tracker, as BEP 15 lays it out.\<close>

definition tracker_reply :: "u32 \<Rightarrow> u32 \<Rightarrow> u32 \<Rightarrow> u32 \<Rightarrow> sock_addr list \<Rightarrow> bytes" where
  "tracker_reply txn interval leechers seeders peers =
     be32 1 @ be32 txn @ be32 interval @ be32 leechers @ be32 seeders @ concat (map sock4_to_bytes peers)"

lemma parse_tracker_reply:
  assumes "list_all v4_sock peers"
  shows "parse_udp_announce txn (tracker_reply txn interval leechers seeders peers) =
    Some \<lparr>ar_interval = interval, ar_min_interval = None, ar_peers = peers,
      ar_seeders = Some seeders, ar_leechers = Some leechers\<rparr>"
proof -
  let ?ps = "concat (map sock4_to_bytes peers)"
  have r: "read32 (tracker_reply txn interval leechers seeders peers) 0 = 1"
    "read32 (tracker_reply txn interval leechers seeders peers) 4 = txn"
    "read32 (tracker_reply txn interval leechers seeders peers) 8 = interval"
    "read32 (tracker_reply txn interval leechers seeders peers) 12 = leechers"
    "read32 (tracker_reply txn interval leechers seeders peers) 16 = seeders"
    "drop 20 (tracker_reply txn interval leechers seeders peers) = ?ps"
    using of_be32_inverse [of 1] by (simp_all add: tracker_reply_def read32_def be32_def)
  show ?thesis
    using compact4.chunks_enc [OF assms, of "[]"]
    by (simp add: parse_udp_announce_def r ACTION_ANNOUNCE_def parse_compact_peers_def)
qed

section \<open>Properties\<close>

text \<open>C38. An announce contacts public addresses only: whatever URL a torrent names and whatever its
  host name resolves to, what it does and returns does not depend on any address outside the
  public ones, which are all but the special blocks (private, loopback, link-local, carrier
  NAT, documentation, multicast, unspecified, broadcast; for IPv6 also those mapped into it).\<close>

theorem only_public_contacted:
  assumes "\<And>a u. public_addr (fst a) \<Longrightarrow> net_fetch net a u = net_fetch net' a u"
    and "\<And>a u. public_addr (fst a) \<Longrightarrow> net_exchange net a u = net_exchange net' a u"
    and "net_random net = net_random net'"
    and "\<And>h p as s. env_lookup_host env h p = Some as \<Longrightarrow> IPv6 s \<in> fst ` set as \<Longrightarrow> length s = 8"
  shows "announce_single env net an url event = announce_single env net' an url event"
proof -
  have g: "public_addr (fst a)" if "is_global_ip (fst a)" "a \<in> set as" "env_lookup_host env h p = Some as" for a as h p
    using that assms(4) [of h p as] global_ip_public [of "fst a"] by (auto simp: rev_image_eqI)
  have f: "net_fetch net a u = net_fetch net' a u"
    if r: "resolve_public_addr (env_lookup_host env) h p = Inr a" for h p a u
  proof -
    obtain as where "env_lookup_host env h p = Some as" "a \<in> set as" "is_global_ip (fst a)"
      using r by (auto simp: resolve_public_addr_def list_ex_iff split: option.splits if_splits)
    then show ?thesis using assms(1) g by blast
  qed
  have "http_announce env (net_fetch net) url an e = http_announce env (net_fetch net') url an e" for e
    by (auto simp: http_announce_def f split: option.split sum.split)
  moreover have x: "net_exchange net a u = net_exchange net' a u"
    if "env_lookup_host env h p = Some (a # as)" "is_global_ip (fst a)" for h p a as u
  proof -
    have "public_addr (fst a)" using g [OF that(2) _ that(1)] by simp
    then show ?thesis by (rule assms(2))
  qed
  have "udp_announce env (net_exchange net) (net_random net) url an e =
      udp_announce env (net_exchange net') (net_random net') url an e" for e
    unfolding udp_announce_def assms(3) using x
    by (auto split: option.split prod.split list.split sum.split)
  ultimately show ?thesis by (simp add: announce_single_def)
qed

definition example_env :: net_env where
  "example_env = \<lparr>env_parse_url = (\<lambda>u. Some (Some u, None)),
     env_lookup_host = (\<lambda>h p. Some [(if starts_with h (ascii ''udp://'') then IPv4 169 254 169 254 else IPv4 1 1 1 1, 80)]),
     env_percent_encode = (\<lambda>b. b), env_parse_ip = (\<lambda>b. None)\<rparr>"

definition example_net :: "(sock_addr \<Rightarrow> bytes \<Rightarrow> attempt list) \<Rightarrow> net" where
  "example_net ex = \<lparr>net_fetch = (\<lambda>a u. None), net_exchange = ex, net_random = (1, 2, 3)\<rparr>"

definition example_announce :: announce where
  "example_announce = \<lparr>an_info_hash = replicate 20 1, an_peer_id = replicate 20 2, an_port = 6881,
     an_uploaded = 0, an_downloaded = 0, an_left = 5\<rparr>"

theorem only_public_contacted_witness:
  "announce_single example_env (example_net (\<lambda>a u. if fst a = IPv4 169 254 169 254 then [RecvError] else []))
      example_announce (ascii ''udp://h'') None =
   announce_single example_env (example_net (\<lambda>a u. [])) example_announce (ascii ''udp://h'') None"
proof (rule only_public_contacted)
  fix a :: sock_addr and u :: bytes
  assume "public_addr (fst a)"
  moreover have "\<not> public_addr (IPv4 169 254 169 254)"
    by (simp add: in_block_def special_blocks_def ip4_value_def)
  ultimately show "net_exchange (example_net (\<lambda>a u. if fst a = IPv4 169 254 169 254 then [RecvError] else [])) a u =
      net_exchange (example_net (\<lambda>a u. [])) a u"
    by (auto simp: example_net_def simp del: public_addr.simps)
qed (auto simp: example_env_def example_net_def split: if_splits)

text \<open>A UDP tracker reads the announce as it was meant: 98 bytes with every field of BEP 15 in its
  place, after the connection it granted.\<close>

theorem udp_request_layout:
  assumes "length (an_info_hash an) = 20" and "length (an_peer_id an) = 20"
    and "announce_request conn txn key an event = req"
  shows "length req = 98 \<and> read64 req 0 = conn \<and> read32 req 8 = 1 \<and> read32 req 12 = txn
    \<and> slice 16 36 req = an_info_hash an \<and> slice 36 56 req = an_peer_id an
    \<and> read64 req 56 = an_downloaded an \<and> read64 req 64 = an_left an \<and> read64 req 72 = an_uploaded an
    \<and> read32 req 80 = event \<and> read32 req 84 = 0 \<and> read32 req 88 = key \<and> read32 req 92 = - 1
    \<and> of_be16 (req ! 96) (req ! 97) = an_port an"
proof -
  define b6 where "b6 = be32 event @ be32 0 @ be32 key @ be32 (- 1) @ be16 (an_port an)"
  define b5 where "b5 = be64 (an_downloaded an) @ be64 (an_left an) @ be64 (an_uploaded an) @ b6"
  define h where "h = be64 conn @ be32 1 @ be32 txn"
  define i where "i = an_info_hash an @ an_peer_id an"
  have req: "req = h @ i @ b5"
    using assms(3) by (simp add: announce_request_def ACTION_ANNOUNCE_def h_def i_def b5_def b6_def)
  have lh: "length h = 16" and li: "length i = 40" and lhi: "length (h @ i) = 56"
    using assms(1,2) by (simp_all add: h_def i_def)
  have head: "read64 (h @ r) 0 = conn" "read32 (h @ r) 8 = 1" "read32 (h @ r) 12 = txn" for r
    using read64_be64 [of conn "be32 1 @ be32 txn @ r"]
      read32_skip [of "be64 conn" 8 "be32 1 @ be32 txn @ r" 0] read32_be32 [of 1 "be32 txn @ r"]
      read32_skip [of "be64 conn @ be32 1" 12 "be32 txn @ r" 0] read32_be32 [of txn r]
    by (simp_all add: h_def)
  have mid: "read64 b5 0 = an_downloaded an" "read64 b5 8 = an_left an" "read64 b5 16 = an_uploaded an"
    using read64_be64 [of "an_downloaded an"] read64_be64 [of "an_left an"] read64_be64 [of "an_uploaded an"]
      read64_skip [of "be64 (an_downloaded an)" 8 _ 0]
      read64_skip [of "be64 (an_downloaded an) @ be64 (an_left an)" 16 _ 0]
    by (simp_all add: b5_def)
  have b5: "read32 b5 (24 + k) = read32 b6 k" "b5 ! (24 + k) = b6 ! k" for k
    using read32_skip [of "be64 (an_downloaded an) @ be64 (an_left an) @ be64 (an_uploaded an)" 24 b6 k]
    by (simp_all add: b5_def nth_append)
  have tl6: "read32 b6 0 = event" "read32 b6 4 = 0" "read32 b6 8 = key" "read32 b6 12 = - 1"
    "of_be16 (b6 ! 16) (b6 ! 17) = an_port an"
    unfolding b6_def by (rule read_tail)+
  have off: "read64 req (56 + k) = read64 b5 k" "read32 req (56 + k) = read32 b5 k" "req ! (56 + k) = b5 ! k" for k
    using read64_skip [OF lhi, of b5 k] read32_skip [OF lhi, of b5 k] nth_append_length_plus [of "h @ i" b5 k] lhi
    by (simp_all add: req)
  have "length b5 = 42" by (simp add: b5_def b6_def)
  moreover have "slice 16 36 req = an_info_hash an" "slice 36 56 req = an_peer_id an"
    using assms(1,2) lh by (simp_all add: slice_def req i_def)
  ultimately show ?thesis
    using head [of "i @ b5"] mid tl6 off(1) [of 0] off(1) [of 8] off(1) [of 16] off(2) [of 24] off(2) [of 28]
      off(2) [of 32] off(2) [of 36] off(3) [of 40] off(3) [of 41] b5(1) [of 0] b5(1) [of 4] b5(1) [of 8]
      b5(1) [of 12] b5(2) [of 16] b5(2) [of 17] lh li
    by (simp add: req)
qed

theorem udp_request_layout_witness:
  "length (announce_request 7 8 9 example_announce 2) = 98 \<and> read64 (announce_request 7 8 9 example_announce 2) 64 = 5"
  using udp_request_layout [of example_announce 7 8 9 2] by (simp add: example_announce_def)

text \<open>A UDP announce returns what the tracker sent: the first datagram with the right action and
  transaction number within four attempts is read field by field, lost and foreign datagrams
  before it are passed over, and nothing else is ever accepted.\<close>

theorem udp_reply_exact:
  assumes "list_all v4_sock peers" and "20 + 6 * length peers \<le> 2048" and "length before < 4"
    and "list_all (passed 2048 20 (parse_udp_announce txn)) before"
  shows "udp_announce_request txn (before @ Datagram (tracker_reply txn interval leechers seeders peers) # later) =
      Inr \<lparr>ar_interval = interval, ar_min_interval = None, ar_peers = peers,
        ar_seeders = Some seeders, ar_leechers = Some leechers\<rparr>
    \<and> (udp_announce_request txn as = Inr r \<longrightarrow> (\<exists>d. Datagram d \<in> set (take 4 as) \<and> 20 \<le> length d
        \<and> read32 (take 2048 d) 0 = 1 \<and> read32 (take 2048 d) 4 = txn))"
proof
  let ?d = "tracker_reply txn interval leechers seeders peers"
  have l: "length ?d = 20 + 6 * length peers"
    using compact4.length_encs [OF assms(1)] by (simp add: tracker_reply_def)
  have "take 4 (before @ Datagram ?d # later) = before @ Datagram ?d # take (3 - length before) later"
  proof -
    have "4 - length before = Suc (3 - length before)" using assms(3) by simp
    then show ?thesis using assms(3) by simp
  qed
  then show "udp_announce_request txn (before @ Datagram ?d # later) =
      Inr \<lparr>ar_interval = interval, ar_min_interval = None, ar_peers = peers,
        ar_seeders = Some seeders, ar_leechers = Some leechers\<rparr>"
    using parse_tracker_reply [OF assms(1)] udp_attempts_passed [OF assms(4)] l assms(2)
    by (simp add: udp_announce_request_def Let_def)
next
  show "udp_announce_request txn as = Inr r \<longrightarrow> (\<exists>d. Datagram d \<in> set (take 4 as) \<and> 20 \<le> length d
      \<and> read32 (take 2048 d) 0 = 1 \<and> read32 (take 2048 d) 4 = txn)"
    using udp_attempts_result [of 2048 20 "parse_udp_announce txn" "take 4 as" r]
    by (auto simp: udp_announce_request_def parse_udp_announce_def ACTION_ANNOUNCE_def split: if_splits)
qed

theorem udp_reply_exact_witness:
  "udp_announce_request 7 [NoAnswer, Datagram [1, 2, 3], Datagram (tracker_reply 7 1800 2 3 [(IPv4 1 2 3 4, 6881)])] =
     Inr \<lparr>ar_interval = 1800, ar_min_interval = None, ar_peers = [(IPv4 1 2 3 4, 6881)],
       ar_seeders = Some 3, ar_leechers = Some 2\<rparr>"
  using udp_reply_exact [of "[(IPv4 1 2 3 4, 6881)]" "[NoAnswer, Datagram [1, 2, 3]]" 7 1800 2 3 "[]"]
  by (simp add: v4_sock_def passed_def)

definition announced :: "tracker_effect list \<Rightarrow> (bytes \<times> announce_event option) list" where
  "announced = List.map_filter (\<lambda>e. case e of Announced u ev \<Rightarrow> Some (u, ev) | PeersFound _ \<Rightarrow> None)"

lemma announced_simps [simp]:
  "announced [] = []" "announced (Announced u ev # es) = (u, ev) # announced es"
  "announced (PeersFound ps # es) = announced es" "announced (es @ fs) = announced es @ announced fs"
  by (induction es) (auto simp: announced_def map_filter_simps split: tracker_effect.splits)

lemma announced_peers [simp]: "announced (peers_effect r) = []"
  by (auto simp: peers_effect_def split: sum.split)

lemma announced_all [simp]: "announced (announce_all ann event urls) = map (\<lambda>u. (u, event)) urls"
  by (induction urls) auto

lemma announced_stop [simp]: "announced (map (\<lambda>u. Announced u e) urls) = map (\<lambda>u. (u, e)) urls"
  by (induction urls) auto

lemma announced_loop:
  "announced (tracker_loop ann urls k (replicate n TrackerTick @ TrackerCancelled # ts)) =
     concat (replicate n (map (\<lambda>u. (u, None)) urls)) @ map (\<lambda>u. (u, Some Stopped)) urls"
  by (induction n arbitrary: k) auto

lemma next_interval_le: "fold (\<lambda>u. next_interval (f u)) urls iv \<le> iv"
proof (induction urls arbitrary: iv)
  case (Cons u urls)
  have "next_interval (f u) iv \<le> iv" by (simp add: next_interval_def split: sum.split)
  with Cons [of "next_interval (f u) iv"] show ?case by simp
qed simp

text \<open>Whatever the trackers answer, every one of them is told once of the start, once per
  interval in between and once of the stop, nothing after that, and the interval is between one
  minute and half an hour.\<close>

theorem tracker_cycle:
  assumes "urls \<noteq> []"
  shows "\<exists>iv effs. tracker_run ann urls (replicate n TrackerTick @ TrackerCancelled # ts) = Some (iv, effs)
    \<and> 60 \<le> iv \<and> iv \<le> 1800
    \<and> announced effs = map (\<lambda>u. (u, Some Started)) urls @ concat (replicate n (map (\<lambda>u. (u, None)) urls))
        @ map (\<lambda>u. (u, Some Stopped)) urls"
proof -
  have "fold (\<lambda>u. next_interval (ann 0 u (Some Started))) urls 1800 \<le> (1800 :: u32)"
    by (rule next_interval_le)
  moreover have "(60 :: u32) \<le> 1800" by simp
  ultimately show ?thesis using assms by (simp add: tracker_run_def announced_loop)
qed

theorem tracker_cycle_witness:
  "\<exists>iv effs. tracker_run (\<lambda>n u e. Inl TrackerTimeout) [[1], [2]] [TrackerTick, TrackerCancelled, TrackerTick] = Some (iv, effs)
    \<and> announced effs = [([1], Some Started), ([2], Some Started), ([1], None), ([2], None), ([1], Some Stopped), ([2], Some Stopped)]"
  using tracker_cycle [of "[[1], [2]]" "\<lambda>n u e. Inl TrackerTimeout" 1 "[TrackerTick]"] by auto

end
