(* ===== verification/Session_Correct.thy ===== *)
theory Session_Correct
  imports Session
begin

text \<open>
  What a download session keeps and delivers. The session is a client of the picker: it relies on
  a few laws of the picker's operations (the locale \<open>picker_client\<close>) and keeps, around them, the
  pool of peers, the requests it has sent, and the ledger of verified pieces. The locale is
  interpreted twice: for peers that may send anything, and for peers that send the torrent's data.
\<close>

section \<open>What the picker operations leave alone\<close>

definition torrent_eq :: "picker \<Rightarrow> picker \<Rightarrow> bool" where
  "torrent_eq pk pk' \<longleftrightarrow> have_bf pk' = have_bf pk \<and> pk_pieces pk' = pk_pieces pk
     \<and> pk_piece_length pk' = pk_piece_length pk \<and> pk_total_length pk' = pk_total_length pk
     \<and> verified_count pk' = verified_count pk"

lemma torrent_eq_refl [simp, intro]: "torrent_eq pk pk"
  by (simp add: torrent_eq_def)

lemma torrent_eq_trans [trans]: "torrent_eq pk pk' \<Longrightarrow> torrent_eq pk' pk'' \<Longrightarrow> torrent_eq pk pk''"
  by (simp add: torrent_eq_def)

lemma torrent_eq_progress [simp]: "torrent_eq pk (pk\<lparr>in_progress := ip\<rparr>)"
  by (simp add: torrent_eq_def)

lemma torrent_eq_check [simp]: "torrent_eq pk (check_mode pk') = torrent_eq pk pk'"
  by (simp add: torrent_eq_def check_mode_def Let_def)

lemma torrent_eq_continue: "torrent_eq pk (fst (continue_pieces is pk))"
proof (induction "is" pk rule: continue_pieces.induct)
  case (2 i js pk)
  show ?case
  proof (cases "map_of (in_progress pk) i")
    case None
    with "2" show ?thesis by simp
  next
    case (Some p)
    obtain q bo where an: "assign_next_block p = (q, bo)" by fastforce
    show ?thesis
    proof (cases bo)
      case None
      have "torrent_eq pk (pk\<lparr>in_progress := hm_insert i q (in_progress pk)\<rparr>)" by simp
      also have "torrent_eq \<dots> (fst (continue_pieces js (pk\<lparr>in_progress := hm_insert i q (in_progress pk)\<rparr>)))"
        using "2.IH"(2) Some an None by simp
      finally show ?thesis using Some an None by simp
    qed (use Some an in \<open>simp add: Let_def\<close>)
  qed
qed simp

lemma torrent_eq_start: "torrent_eq pk (fst (start_piece i pk))"
  by (auto simp: start_piece_def Let_def split: option.splits prod.splits)

lemma torrent_eq_pick: "torrent_eq pk (fst (pick_block rand pk bf))"
proof -
  obtain pk' ro where c: "continue_pieces (candidates pk bf) pk = (pk', ro)" by fastforce
  then have "torrent_eq pk pk'" using torrent_eq_continue [of pk "candidates pk bf"] by simp
  with c show ?thesis
    using torrent_eq_trans [OF _ torrent_eq_start]
    by (auto simp: pick_block_def split: option.splits)
qed

lemma torrent_eq_unassign: "torrent_eq pk (unassign_block i off pk)"
  by (simp add: unassign_block_def split: option.splits)

lemma torrent_eq_bump: "torrent_eq pk (fold (bump f) is pk)"
proof (induction "is" arbitrary: pk)
  case (Cons i "is")
  have "torrent_eq pk (bump f i pk)" by (simp add: bump_def torrent_eq_def)
  then show ?case using torrent_eq_trans Cons.IH by simp
qed simp

lemma torrent_eq_peers:
  "torrent_eq pk (peer_has_bitfield bf pk)" "torrent_eq pk (peer_has_piece i pk)"
  "torrent_eq pk (peer_disconnected bf pk)" "torrent_eq pk (piece_failed i pk)"
  using torrent_eq_bump [of pk u16_inc "[i]"]
  by (simp_all add: peer_has_bitfield_def peer_has_piece_def peer_disconnected_def torrent_eq_bump
      piece_failed_def)

lemma torrent_eq_block: "torrent_eq pk (fst (block_received i off data pk))"
  by (auto simp: block_received_def Let_def split: option.splits prod.splits bool.splits)

lemma torrent_eq_release:
  "torrent_eq pk (fold (\<lambda>b. unassign_block (br_piece b) (br_offset b)) bs pk)"
proof (induction bs arbitrary: pk)
  case (Cons b bs)
  then show ?case using torrent_eq_trans [OF torrent_eq_unassign] by simp blast
qed simp

section \<open>What is true of every peer in the pool\<close>

definition peers_all :: "(peer_state \<Rightarrow> bool) \<Rightarrow> peer_manager \<Rightarrow> bool" where
  "peers_all P pm \<longleftrightarrow> (\<forall>(a, p) \<in> set (pm_peers pm). P p)"

lemma peers_all_at: "peers_all P pm \<Longrightarrow> map_of (pm_peers pm) a = Some p \<Longrightarrow> P p"
  by (auto simp: peers_all_def dest!: map_of_SomeD)

lemma peers_all_insert:
  "peers_all P pm \<Longrightarrow> P p \<Longrightarrow> peers_all P (pm\<lparr>pm_peers := hm_insert a p (pm_peers pm)\<rparr>)"
  using set_hm_insert [of a p "pm_peers pm"] by (auto simp: peers_all_def)

lemma peers_all_update:
  assumes "peers_all P pm" and "\<And>p. map_of (pm_peers pm) a = Some p \<Longrightarrow> P p \<Longrightarrow> P (f p)"
  shows "peers_all P (peer_update a f pm)"
  using assms peers_all_at [OF assms(1)]
  by (auto simp: peer_update_def intro!: peers_all_insert split: option.splits)

lemma peers_all_frame [simp]:
  "peers_all P (pm\<lparr>connecting := c\<rparr>) = peers_all P pm"
  "peers_all P (pm\<lparr>pending_peers := q\<rparr>) = peers_all P pm"
  "peers_all P (pm\<lparr>known_addrs := k\<rparr>) = peers_all P pm"
  by (simp_all add: peers_all_def)

lemma peers_all_add [simp]: "peers_all P (add_peers addrs pm) = peers_all P pm"
  by (induction addrs pm rule: add_peers.induct) auto

lemma peers_all_requeue [simp]: "peers_all P (requeue_peer addr pm) = peers_all P pm"
  by (simp add: requeue_peer_def)

lemma peers_all_connect: "P new_peer_state \<Longrightarrow> peers_all P pm \<Longrightarrow> peers_all P (connect_pending pm)"
proof (induction pm rule: connect_pending.induct)
  case (1 pm)
  have "peers_all P (spawn_connection addr (pm\<lparr>pending_peers := rest\<rparr>))" for addr rest
    using "1.prems" set_hm_insert [of addr new_peer_state "pm_peers pm"]
    by (auto simp: peers_all_def spawn_connection_def)
  with 1 show ?case by (subst connect_pending.simps) (auto simp: Let_def split: list.splits)
qed

text \<open>A predicate that survives the pool's own updates of a peer.\<close>

definition stable_peer :: "(peer_state \<Rightarrow> bool) \<Rightarrow> bool" where
  "stable_peer P \<longleftrightarrow> P new_peer_state
     \<and> (\<forall>p b. P p \<longrightarrow> P (p\<lparr>supports_extensions := b\<rparr>) \<and> P (p\<lparr>peer_choking := b\<rparr>))
     \<and> (\<forall>p k. P p \<longrightarrow> P (p\<lparr>bytes_downloaded := k\<rparr>))
     \<and> (\<forall>p h. P p \<longrightarrow> P (p\<lparr>remote_ext_handshake := h\<rparr>))"

lemma peers_all_event:
  assumes "peers_all P pm" and "stable_peer P"
  shows "peers_all P (handle_event addr ev pm)"
proof -
  have "peers_all P (pm\<lparr>pm_peers := hm_remove addr (pm_peers pm)\<rparr>)"
    using assms(1) by (auto simp: peers_all_def hm_remove_def)
  then have gone: "peers_all P
      (pm\<lparr>pm_peers := hm_remove addr (pm_peers pm), connecting := removeAll addr (connecting pm)\<rparr>)"
    by (simp add: peers_all_def)
  show ?thesis
    using assms gone by (cases ev) (auto simp: stable_peer_def intro!: peers_all_update)
qed

section \<open>Requests that make sense\<close>

definition request_cap :: "session_env \<Rightarrow> nat" where
  "request_cap env = (if se_lightspeed env then 256 else 64)"

text \<open>A request for a block of the torrent: aligned, not empty, not too long, inside its piece.\<close>

definition valid_request :: "info \<Rightarrow> nat \<Rightarrow> nat \<Rightarrow> nat \<Rightarrow> bool" where
  "valid_request i piece_index off len \<longleftrightarrow> piece_index < length (info_pieces i)
     \<and> off mod block_size = 0 \<and> 0 < len \<and> len \<le> block_size
     \<and> off + len \<le> piece_len i piece_index"

definition sendable :: "info \<Rightarrow> peer_command \<Rightarrow> bool" where
  "sendable i cmd = (case cmd of
       RequestBlock index off len \<Rightarrow> valid_request i (unat index) (unat off) (unat len)
     | _ \<Rightarrow> True)"

definition channel_ok :: "info \<Rightarrow> cmd_channel \<Rightarrow> bool" where
  "channel_ok i ch \<longleftrightarrow> length (ch_queue ch) \<le> CHANNEL_CAPACITY \<and> list_all (sendable i) (ch_queue ch)"

definition peer_ok :: "session_env \<Rightarrow> peer_state \<Rightarrow> bool" where
  "peer_ok env p \<longleftrightarrow> outstanding_requests p \<le> request_cap env \<and> channel_ok (se_info env) (cmd_tx p)"

definition torrent_of :: "info \<Rightarrow> picker \<Rightarrow> bool" where
  "torrent_of i pk \<longleftrightarrow> pk_pieces pk = length (info_pieces i)
     \<and> pk_piece_length pk = unat (info_piece_length i)
     \<and> pk_total_length pk = unat (info_total_length i)"

lemma torrent_of_eq: "torrent_eq pk pk' \<Longrightarrow> torrent_of i pk' = torrent_of i pk"
  by (simp add: torrent_eq_def torrent_of_def)

lemma torrent_piece_len:
  "torrent_of i pk \<Longrightarrow> index < pk_pieces pk \<Longrightarrow> actual_piece_length pk index = piece_len i index"
  by (auto simp: torrent_of_def actual_piece_length_def piece_len_def Let_def)

lemma piece_len_le: "actual_piece_length pk i \<le> pk_piece_length pk" if "0 < pk_piece_length pk"
proof -
  have "pk_total_length pk mod pk_piece_length pk \<le> pk_piece_length pk"
    using mod_less_divisor [OF that] by (simp add: less_imp_le)
  then show ?thesis by (simp add: actual_piece_length_def Let_def)
qed

lemma request_of_ok:
  assumes "picker_inv pk" and "torrent_of i pk" and "br_piece r < pk_pieces pk"
    and "br_offset r mod block_size = 0" and "0 < br_length r" and "br_length r \<le> block_size"
    and "br_offset r + br_length r \<le> actual_piece_length pk (br_piece r)"
  shows "sendable i (request_of r)"
proof -
  have "actual_piece_length pk (br_piece r) < 2 ^ 32"
    using piece_len_le [of pk "br_piece r"] assms(1) by (simp add: picker_inv_def)
  then have "br_offset r + br_length r < 2 ^ 32" using assms(7) by simp
  then have "unat (of_nat (br_piece r) :: u32) = br_piece r"
    "unat (of_nat (br_offset r) :: u32) = br_offset r"
    "unat (of_nat (br_length r) :: u32) = br_length r"
    using assms(3) picker_invD(2) [OF assms(1)] by (simp_all add: unat_of_nat take_bit_nat_eq_self)
  then show ?thesis
    using assms torrent_piece_len [OF assms(2,3)]
    by (simp add: sendable_def request_of_def valid_request_def) (simp add: torrent_of_def)
qed

lemma fresh_request_ok:
  "picker_inv pk \<Longrightarrow> torrent_of i pk \<Longrightarrow> fresh_request pk r \<Longrightarrow> sendable i (request_of r)"
  by (rule request_of_ok) (auto simp: fresh_request_def)

lemma endgame_requests_ok:
  assumes "picker_inv pk" and "torrent_of i pk" and "r \<in> set (endgame_requests pk bf)"
  shows "sendable i (request_of r)"
proof -
  obtain j p k where p: "(j, p) \<in> set (in_progress pk)" and k: "k < num_blocks p"
    and r: "r = \<lparr>br_piece = j, br_offset = k * block_size, br_length = block_length p k\<rparr>"
    using assms(3) by (auto simp: endgame_requests_def unreceived_blocks_def split: if_splits)
  have "map_of (in_progress pk) j = Some p"
    using p picker_invD(1) [OF assms(1)] by (simp add: hm_wf_def)
  then have ok: "piece_ok pk j p" by (rule picker_invD(7) [OF assms(1)])
  then have pinv: "pp_inv p" by (simp add: piece_ok_def)
  show ?thesis
    by (rule request_of_ok [OF assms(1,2)])
      (use r ok k block_length_bounds(1-3) [OF pinv k] in \<open>auto simp: piece_ok_def\<close>)
qed

lemma try_send_ok: "channel_ok i ch \<Longrightarrow> sendable i cmd \<Longrightarrow> channel_ok i (fst (try_send cmd ch))"
  by (auto simp: try_send_def channel_ok_def)

lemma peer_ok_stable: "stable_peer (peer_ok env)"
  by (auto simp: stable_peer_def peer_ok_def new_peer_state_def channel_ok_def)

lemma send_peers_ok:
  assumes "peers_all (peer_ok env) pm" and "sendable (se_info env) cmd"
  shows "peers_all (peer_ok env) (fst (send_command addr cmd pm))"
proof (cases "map_of (pm_peers pm) addr")
  case (Some p)
  obtain ch b where ts: "try_send cmd (cmd_tx p) = (ch, b)" by fastforce
  have "peer_ok env p" using assms(1) Some by (rule peers_all_at)
  then have "peer_ok env (p\<lparr>cmd_tx := ch\<rparr>)"
    using try_send_ok [of "se_info env" "cmd_tx p" cmd] assms(2) ts by (simp add: peer_ok_def)
  then show ?thesis
    using Some ts peers_all_insert [OF assms(1)] by (simp add: send_command_def)
qed (simp add: send_command_def assms)

lemma broadcast_peers_ok:
  "peers_all (peer_ok env) pm \<Longrightarrow> sendable (se_info env) cmd \<Longrightarrow> peers_all (peer_ok env) (broadcast cmd pm)"
  by (fastforce simp: peers_all_def broadcast_def peer_ok_def intro: try_send_ok)

lemma max_pipeline_cap: "max_pipeline fl (se_lightspeed env) t \<le> request_cap env"
  by (simp add: max_pipeline_def request_cap_def)

section \<open>The invariant of a session\<close>

definition tables_ok :: "session_env \<Rightarrow> session \<Rightarrow> bool" where
  "tables_ok env s \<longleftrightarrow> hm_wf (peer_bitfields s) \<and> hm_wf (peer_pending s)
     \<and> (\<forall>(a, bf) \<in> set (peer_bitfields s).
          bf_wf bf \<and> bf_pieces bf = length (info_pieces (se_info env)))"

text \<open>
  The ledger: the pieces held are those adopted from disk and those written since, each of them
  once, and every write is a whole piece with the right hash (and, when \<open>good\<close> says more about
  the data, that too). The displayed numbers are those of the ledger.
\<close>

definition write_ok :: "session_env \<Rightarrow> (nat \<Rightarrow> bytes \<Rightarrow> bool) \<Rightarrow> nat \<times> bytes \<Rightarrow> bool" where
  "write_ok env good w = (case w of (i, d) \<Rightarrow> i < length (info_pieces (se_info env))
     \<and> se_sha1 env d = info_pieces (se_info env) ! i \<and> length d = piece_len (se_info env) i
     \<and> good i d)"

definition ledger :: "session_env \<Rightarrow> (nat \<Rightarrow> bytes \<Rightarrow> bool) \<Rightarrow> nat set \<Rightarrow> session \<Rightarrow> bool" where
  "ledger env good adopted s \<longleftrightarrow>
     {i. has (have_bf (sn_picker s)) i} = adopted \<union> fst ` set (writes s)
     \<and> adopted \<inter> fst ` set (writes s) = {} \<and> distinct (map fst (writes s))
     \<and> list_all (write_ok env good) (writes s)
     \<and> st_pieces_done (local_status s) = verified_count (sn_picker s)"

definition session_inv ::
  "session_env \<Rightarrow> (picker \<Rightarrow> bool) \<Rightarrow> (nat \<Rightarrow> bytes \<Rightarrow> bool) \<Rightarrow> nat set \<Rightarrow> session \<Rightarrow> bool" where
  "session_inv env pinv good adopted s \<longleftrightarrow> pinv (sn_picker s) \<and> torrent_of (se_info env) (sn_picker s)
     \<and> pm_inv (sn_peers s) \<and> peers_all (peer_ok env) (sn_peers s) \<and> tables_ok env s
     \<and> ledger env good adopted s"

text \<open>What the environment may deliver: events come from connections the pool has opened.\<close>

definition turn_ok :: "(picker \<Rightarrow> picker_event \<Rightarrow> bool) \<Rightarrow> session \<Rightarrow> session_turn \<Rightarrow> bool" where
  "turn_ok may s t = (case t of
       EventTurn addr ev elapsed rand \<Rightarrow> addr \<in> set (pm_keys (sn_peers s))
         \<and> (case ev of EvBlock i off data \<Rightarrow> may (sn_picker s) (BlockIn (unat i) (unat off) data)
            | _ \<Rightarrow> True)
     | _ \<Rightarrow> True)"

fun turns_ok :: "(picker \<Rightarrow> picker_event \<Rightarrow> bool) \<Rightarrow> session_env \<Rightarrow> session_turn list \<Rightarrow> session \<Rightarrow> bool"
where
  "turns_ok may env [] s = True"
| "turns_ok may env (t # ts) s = (turn_ok may s t
     \<and> (case session_step env s t of Panic \<Rightarrow> True | Done s' \<Rightarrow> turns_ok may env ts s'))"

lemma session_inv_picker:
  assumes "session_inv env pinv good A s" and "pinv pk'" and "torrent_eq (sn_picker s) pk'"
  shows "session_inv env pinv good A (s\<lparr>sn_picker := pk'\<rparr>)"
  using assms torrent_of_eq [OF assms(3)]
  by (simp add: session_inv_def ledger_def tables_ok_def) (simp add: torrent_eq_def)

lemma session_inv_peers:
  assumes "session_inv env pinv good A s" and "pm_inv pm'" and "peers_all (peer_ok env) pm'"
  shows "session_inv env pinv good A (s\<lparr>sn_peers := pm'\<rparr>)"
  using assms by (simp add: session_inv_def ledger_def tables_ok_def)

lemma session_inv_pending:
  "session_inv env pinv good A s \<Longrightarrow> hm_wf pend \<Longrightarrow>
     session_inv env pinv good A (s\<lparr>peer_pending := pend\<rparr>)"
  by (simp add: session_inv_def ledger_def tables_ok_def)

lemma session_inv_bitfield:
  assumes "session_inv env pinv good A s" and "bf_wf bf"
    and "bf_pieces bf = length (info_pieces (se_info env))"
  shows "session_inv env pinv good A (s\<lparr>peer_bitfields := hm_insert addr bf (peer_bitfields s)\<rparr>)"
  using assms set_hm_insert [of addr bf "peer_bitfields s"]
  by (auto simp: session_inv_def ledger_def tables_ok_def)

lemma session_inv_bitfield_gone:
  "session_inv env pinv good A s \<Longrightarrow>
     session_inv env pinv good A (s\<lparr>peer_bitfields := hm_remove addr (peer_bitfields s)\<rparr>)"
  by (auto simp: session_inv_def ledger_def tables_ok_def hm_remove_wf) (auto simp: hm_remove_def)

lemma session_inv_counters [simp]:
  "session_inv env pinv good A (s\<lparr>bytes_new := b\<rparr>) = session_inv env pinv good A s"
  "session_inv env pinv good A (s\<lparr>last_sample_bytes := b\<rparr>) = session_inv env pinv good A s"
  "session_inv env pinv good A (s\<lparr>optimistic_counter := b\<rparr>) = session_inv env pinv good A s"
  "session_inv env pinv good A (s\<lparr>shared_status := st\<rparr>) = session_inv env pinv good A s"
  "session_inv env pinv good A (set_peer_count s) = session_inv env pinv good A s"
  "session_inv env pinv good A (s\<lparr>local_status := (local_status s)\<lparr>st_download_speed := v\<rparr>\<rparr>)
     = session_inv env pinv good A s"
  by (simp_all add: session_inv_def ledger_def tables_ok_def set_peer_count_def)

lemma session_invD:
  assumes "session_inv env pinv good A s"
  shows "pinv (sn_picker s)" "torrent_of (se_info env) (sn_picker s)" "pm_inv (sn_peers s)"
    "peers_all (peer_ok env) (sn_peers s)" "hm_wf (peer_bitfields s)" "hm_wf (peer_pending s)"
    "map_of (peer_bitfields s) a = Some bf \<Longrightarrow>
       bf_wf bf \<and> bf_pieces bf = length (info_pieces (se_info env))"
  using assms by (auto simp: session_inv_def tables_ok_def dest!: map_of_SomeD)

text \<open>Commands and updates of single peers.\<close>

lemma session_inv_send:
  assumes "session_inv env pinv good A s" and "sendable (se_info env) cmd"
  shows "session_inv env pinv good A (s\<lparr>sn_peers := fst (send_command addr cmd (sn_peers s))\<rparr>)"
  by (rule session_inv_peers [OF assms(1)])
    (use session_invD(3,4) [OF assms(1)] assms(2) in
      \<open>simp_all add: same_pool_inv [OF send_command_same] send_peers_ok\<close>)

lemma session_inv_update:
  assumes "session_inv env pinv good A s"
    and "\<And>p. map_of (pm_peers (sn_peers s)) addr = Some p \<Longrightarrow> peer_ok env p \<Longrightarrow> peer_ok env (f p)"
  shows "session_inv env pinv good A (s\<lparr>sn_peers := peer_update addr f (sn_peers s)\<rparr>)"
  by (rule session_inv_peers [OF assms(1)])
    (use session_invD(3,4) [OF assms(1)] assms(2) in
      \<open>auto simp: same_pool_inv [OF peer_update_same] intro!: peers_all_update\<close>)

lemma send_all_ok:
  assumes "pm_inv pm" and "peers_all (peer_ok env) pm"
    and "\<forall>(a, c) \<in> set cmds. sendable (se_info env) c"
  shows "pm_inv (send_all cmds pm) \<and> peers_all (peer_ok env) (send_all cmds pm)"
  using assms
proof (induction cmds arbitrary: pm)
  case (Cons c cmds)
  obtain a cmd where c: "c = (a, cmd)" by fastforce
  with Cons show ?case
    by (simp add: send_all_def same_pool_inv [OF send_command_same] send_peers_ok)
qed (simp add: send_all_def)

lemma session_inv_send_all:
  assumes "session_inv env pinv good A s" and "\<forall>(a, c) \<in> set cmds. sendable (se_info env) c"
  shows "session_inv env pinv good A (s\<lparr>sn_peers := send_all cmds (sn_peers s)\<rparr>)"
  using session_inv_peers [OF assms(1)] send_all_ok [OF session_invD(3,4) [OF assms(1)] assms(2)]
  by blast

lemma send_requests_ok:
  assumes "pm_inv pm" and "peers_all (peer_ok env) pm"
    and "\<forall>b \<in> set bs. sendable (se_info env) (request_of b)"
  shows "pm_inv (send_requests addr bs pm) \<and> peers_all (peer_ok env) (send_requests addr bs pm)"
  using assms
proof (induction bs arbitrary: pm)
  case (Cons b bs)
  obtain pm' ok where send: "send_command addr (request_of b) pm = (pm', ok)" by fastforce
  then have "pm' = fst (send_command addr (request_of b) pm)" by simp
  with Cons have "pm_inv pm'" "peers_all (peer_ok env) pm'"
    by (simp_all add: same_pool_inv [OF send_command_same] send_peers_ok)
  with Cons send show ?case by (cases ok) auto
qed simp

lemma other_sendable [simp]:
  "sendable i (CancelBlock a b c)" "sendable i SendInterested" "sendable i SendChoke"
  "sendable i SendUnchoke" "sendable i (SendHave a)" "sendable i (SendExtendedHandshake h)"
  by (simp_all add: sendable_def)

lemma fold_inv: "(\<And>x s. P s \<Longrightarrow> P (f x s)) \<Longrightarrow> P s \<Longrightarrow> P (fold f xs s)"
  by (induction xs arbitrary: s) auto

section \<open>A client of the picker\<close>

text \<open>
  What the session needs of the picker: an invariant \<open>pinv\<close> that implies the picker's own and
  that every call keeps; \<open>may\<close> restricts only the blocks that arrive, and every piece they
  complete is \<open>good\<close>.
\<close>

locale picker_client = machine may picker_step pinv
  for may :: "picker \<Rightarrow> picker_event \<Rightarrow> bool" and pinv :: "picker \<Rightarrow> bool" +
  fixes good :: "nat \<Rightarrow> bytes \<Rightarrow> bool"
  assumes pinv_picker: "pinv pk \<Longrightarrow> picker_inv pk"
    and may_calm: "(case e of BlockIn _ _ _ \<Rightarrow> False | Verified _ \<Rightarrow> False | _ \<Rightarrow> True) \<Longrightarrow> may pk e"
    and may_verified: "i < pk_pieces pk \<Longrightarrow> \<not> has (have_bf pk) i \<Longrightarrow> may pk (Verified i)"
    and completes: "pinv pk \<Longrightarrow> may pk (BlockIn i off data) \<Longrightarrow>
      block_received i off data pk = (pk', PieceComplete d) \<Longrightarrow> good i d"
begin

lemma pinv_calm:
  assumes "pinv pk"
  shows "pinv (fst (pick_block rand pk bf))" "pinv (peer_has_bitfield bf pk)"
    "pinv (peer_has_piece i pk)" "pinv (peer_disconnected bf pk)" "pinv (piece_failed i pk)"
    "pinv (unassign_block i off pk)"
  using step_inv [OF assms may_calm, of "Pick rand bf"] step_inv [OF assms may_calm, of "PeerBitfield bf"]
    step_inv [OF assms may_calm, of "PeerPiece i"] step_inv [OF assms may_calm, of "PeerGone bf"]
    step_inv [OF assms may_calm, of "Failed i"] step_inv [OF assms may_calm, of "Unassign i off"]
  by simp_all

abbreviation sinv :: "session_env \<Rightarrow> nat set \<Rightarrow> session \<Rightarrow> bool" where
  "sinv env A s \<equiv> session_inv env pinv good A s"

lemma fill_loop_inv:
  assumes "sinv env A s"
    and "\<And>p. map_of (pm_peers (sn_peers s)) addr = Some p \<Longrightarrow>
      outstanding_requests p + n \<le> request_cap env"
  shows "sinv env A (fill_loop rand addr bf n s)"
  using assms
proof (induction n arbitrary: s)
  case (Suc n)
  obtain pk' ro where pick: "pick_block (rand n) (sn_picker s) bf = (pk', ro)" by fastforce
  have p1: "pinv pk'" "torrent_eq (sn_picker s) pk'"
    using pinv_calm(1) [OF session_invD(1) [OF Suc.prems(1)], of "rand n" bf]
      torrent_eq_pick [of "sn_picker s" "rand n" bf] by (simp_all add: pick)
  have s1: "sinv env A (s\<lparr>sn_picker := pk'\<rparr>)" by (rule session_inv_picker [OF Suc.prems(1) p1])
  show ?case
  proof (cases ro)
    case None
    with pick s1 show ?thesis by (simp add: Let_def)
  next
    case (Some b)
    have "sendable (se_info env) (request_of b)"
      using fresh_request_ok pick_block_Some [OF pick [unfolded Some]] session_invD(1,2) [OF Suc.prems(1)]
        pinv_picker by blast
    then have s2: "sinv env A (s\<lparr>sn_picker := pk',
        sn_peers := fst (send_command addr (request_of b) (sn_peers s))\<rparr>)"
      using session_inv_send [OF s1] by simp
    obtain pm' ok where send: "send_command addr (request_of b) (sn_peers s) = (pm', ok)" by fastforce
    have out: "outstanding_requests p + Suc n \<le> request_cap env"
      if "map_of (pm_peers pm') addr = Some p" for p
      using that send Suc.prems(2) by (auto simp: send_command_def split: option.splits prod.splits)
    let ?s3 = "s\<lparr>sn_picker := pk', sn_peers := peer_update addr
        (\<lambda>p. p\<lparr>outstanding_requests := outstanding_requests p + 1\<rparr>) pm'\<rparr>"
    have "sinv env A (s\<lparr>sn_picker := pk', sn_peers := pm'\<rparr>)" using s2 send by simp
    then have "sinv env A ?s3"
      using session_inv_update [of env pinv good A "s\<lparr>sn_picker := pk', sn_peers := pm'\<rparr>" addr
          "\<lambda>p. p\<lparr>outstanding_requests := outstanding_requests p + 1\<rparr>"] out
      by (fastforce simp: peer_ok_def)
    then have s4: "sinv env A (?s3\<lparr>peer_pending :=
        hm_insert addr (pending_of s addr @ [b]) (peer_pending s)\<rparr>)"
      by (rule session_inv_pending) (simp add: session_invD(6) [OF Suc.prems(1)])
    have out4: "outstanding_requests p + n \<le> request_cap env"
      if "map_of (pm_peers (sn_peers ?s3)) addr = Some p" for p
      using that out by (fastforce simp: peer_update_def split: option.splits)
    have "sinv env A (fill_loop rand addr bf n (?s3\<lparr>peer_pending :=
        hm_insert addr (pending_of s addr @ [b]) (peer_pending s)\<rparr>))"
      by (rule Suc.IH [OF s4]) (use out4 in simp)
    with pick Some send s2 show ?thesis by (simp add: Let_def pending_of_def)
  qed
qed simp

lemma fill_pipeline_inv:
  assumes "sinv env A s"
  shows "sinv env A (fill_pipeline env rand addr s)"
proof (cases "peer_state_of (sn_peers s) addr")
  case (Some p)
  let ?d = "max_pipeline (se_floats env) (se_lightspeed env) (throughput_mibps p)"
  have "sinv env A (fill_loop rand addr bf (?d - outstanding_requests p) s)"
    if "outstanding_requests p < ?d" for bf
    by (rule fill_loop_inv [OF assms])
      (use Some that max_pipeline_cap [of "se_floats env" env "throughput_mibps p"] in
        \<open>simp add: peer_state_of_def\<close>)
  with Some assms show ?thesis
    by (simp add: fill_pipeline_def Let_def not_le split: option.splits)
qed (simp add: fill_pipeline_def assms)

lemma refill_inv: "sinv env A s \<Longrightarrow> sinv env A (refill_all_peers env rand s)"
  unfolding refill_all_peers_def by (rule fold_inv) (auto intro: fill_pipeline_inv)

lemma release_inv:
  assumes "sinv env A s"
  shows "sinv env A (release_peer_blocks addr s)"
proof (cases "map_of (peer_pending s) addr")
  case (Some bs)
  let ?pk = "fold (\<lambda>b. unassign_block (br_piece b) (br_offset b)) bs (sn_picker s)"
  have "pinv ?pk"
    by (rule fold_inv [of pinv]) (use pinv_calm(6) session_invD(1) [OF assms] in auto)
  then have "sinv env A (s\<lparr>sn_picker := ?pk\<rparr>)"
    by (rule session_inv_picker [OF assms _ torrent_eq_release])
  then show ?thesis
    using Some session_inv_pending [of env pinv good A "s\<lparr>sn_picker := ?pk\<rparr>"] session_invD(6) [OF assms]
    by (simp add: release_peer_blocks_def)
qed (simp add: release_peer_blocks_def assms)

lemma endgame_inv:
  assumes "sinv env A s"
  shows "sinv env A (endgame_all s)"
proof -
  have one: "sinv env A (endgame_peer addr s)" if "sinv env A s" for addr s
  proof -
    have "sinv env A (s\<lparr>sn_peers := send_requests addr (endgame_requests (sn_picker s) bf) (sn_peers s)\<rparr>)" for bf
      using session_inv_peers [OF that] send_requests_ok [OF session_invD(3,4) [OF that]]
        endgame_requests_ok [OF pinv_picker [OF session_invD(1) [OF that]] session_invD(2) [OF that]]
      by blast
    with that show ?thesis by (simp add: endgame_peer_def split: option.splits)
  qed
  show ?thesis
    using assms fold_inv [of "sinv env A" endgame_peer, OF one] by (simp add: endgame_all_def)
qed

lemma cancel_inv:
  assumes "sinv env A s"
  shows "sinv env A (cancel_block addr i off len s)" "sinv env A (cancel_piece addr i s)"
  using assms by (auto simp: cancel_block_def cancel_piece_def intro!: session_inv_send_all)

end

lemma cancel_picker [simp]:
  "sn_picker (cancel_block addr i off len s) = sn_picker s"
  "sn_picker (cancel_piece addr i s) = sn_picker s"
  by (simp_all add: cancel_block_def cancel_piece_def)

lemma note_block_picker [simp]: "sn_picker (note_block env addr i off len e s) = sn_picker s"
  by (simp add: note_block_def Let_def split: option.splits)

lemma sample_peer_ok: "peer_ok env (sample_throughput fl len e p) = peer_ok env p"
  by (simp add: sample_throughput_def peer_ok_def Let_def)

lemma full_bitfield_ok: "bf_wf (full_bitfield n)" "bf_pieces (full_bitfield n) = n"
proof -
  have "bf_wf (fold bf_set is bf) \<and> bf_pieces (fold bf_set is bf) = bf_pieces bf" if "bf_wf bf" for "is" bf
    using that by (induction "is" arbitrary: bf) auto
  from this [of "bf_new n" "[0..<n]"] show "bf_wf (full_bitfield n)" "bf_pieces (full_bitfield n) = n"
    by (simp_all add: full_bitfield_def)
qed

lemma release_frame [simp]:
  "release_peer_blocks addr (s\<lparr>sn_peers := pm'\<rparr>) = (release_peer_blocks addr s)\<lparr>sn_peers := pm'\<rparr>"
  "peer_bitfields (release_peer_blocks addr s) = peer_bitfields s"
  "local_status (release_peer_blocks addr s) = local_status s"
  "sn_peers (release_peer_blocks addr s) = sn_peers s"
  by (simp_all add: release_peer_blocks_def split: option.splits)

lemma speed_tick_fields [simp]:
  "sn_picker (speed_tick env dt s) = sn_picker s" "sn_peers (speed_tick env dt s) = sn_peers s"
  "peer_bitfields (speed_tick env dt s) = peer_bitfields s"
  "peer_pending (speed_tick env dt s) = peer_pending s" "writes (speed_tick env dt s) = writes s"
  "st_pieces_done (local_status (speed_tick env dt s)) = st_pieces_done (local_status s)"
  by (simp_all add: speed_tick_def Let_def)

lemma peer_count_requeue [simp]: "peer_count (requeue_peer addr pm) = peer_count pm"
  by (simp add: requeue_peer_def peer_count_def)

context picker_client
begin

lemma connected_inv:
  assumes "sinv env A s"
  shows "sinv env A (on_connected env addr ext s)"
proof -
  let ?s1 = "set_peer_count (s\<lparr>peer_bitfields := hm_insert addr (bf_new (length (info_pieces (se_info env))))
      (peer_bitfields s), peer_pending := hm_insert addr [] (peer_pending s)\<rparr>)"
  have "sinv env A (s\<lparr>peer_bitfields := hm_insert addr (bf_new (length (info_pieces (se_info env))))
      (peer_bitfields s)\<rparr>)"
    by (rule session_inv_bitfield [OF assms]) simp_all
  from session_inv_pending [OF this, of "hm_insert addr [] (peer_pending s)"]
  have s1: "sinv env A ?s1" using session_invD(6) [OF assms] by simp
  let ?pm1 = "peer_update addr (\<lambda>p. p\<lparr>am_interested := True\<rparr>)
      (fst (send_command addr SendInterested (sn_peers ?s1)))"
  have s2: "sinv env A (?s1\<lparr>sn_peers := ?pm1\<rparr>)"
    using session_inv_update [OF session_inv_send [OF s1, of SendInterested addr],
        of addr "\<lambda>p. p\<lparr>am_interested := True\<rparr>"]
    by (simp add: peer_ok_def)
  then show ?thesis
    using session_inv_send [OF s2, of "SendExtendedHandshake (ours None (se_lightspeed env))" addr]
    by (simp add: on_connected_def Let_def)
qed

lemma bitfield_inv:
  assumes "sinv env A s" and "bf_wf bf" and "bf_pieces bf = length (info_pieces (se_info env))"
  shows "sinv env A (on_bitfield env rand addr bf s)"
proof -
  have "sinv env A (s\<lparr>sn_picker := peer_has_bitfield bf (sn_picker s)\<rparr>)"
    by (rule session_inv_picker [OF assms(1) pinv_calm(2) [OF session_invD(1) [OF assms(1)]] torrent_eq_peers(1)])
  from session_inv_bitfield [OF this assms(2,3), of addr] show ?thesis
    by (simp add: on_bitfield_def fill_pipeline_inv)
qed

lemma have_inv:
  assumes "sinv env A s"
  shows "sinv env A (on_have env rand addr i s)"
proof -
  have s1: "sinv env A (s\<lparr>sn_picker := peer_has_piece (unat i) (sn_picker s)\<rparr>)"
    by (rule session_inv_picker [OF assms pinv_calm(3) [OF session_invD(1) [OF assms]] torrent_eq_peers(2)])
  have "sinv env A (s\<lparr>sn_picker := peer_has_piece (unat i) (sn_picker s),
      peer_bitfields := hm_insert addr (bf_set (unat i) bf) (peer_bitfields s)\<rparr>)"
    if "map_of (peer_bitfields s) addr = Some bf" for bf
    using session_inv_bitfield [OF s1, of "bf_set (unat i) bf" addr] session_invD(7) [OF assms that] by simp
  with s1 show ?thesis
    by (auto simp: on_have_def Let_def intro!: fill_pipeline_inv split: option.splits)
qed

lemma choked_inv:
  assumes "sinv env A s"
  shows "sinv env A (on_choked env rand addr s)"
  using session_inv_update [OF release_inv [OF assms], of addr addr "\<lambda>p. p\<lparr>outstanding_requests := 0\<rparr>"]
  by (simp add: on_choked_def Let_def refill_inv peer_ok_def)

lemma note_block_inv:
  assumes "sinv env A s"
  shows "sinv env A (note_block env addr i off len e s)"
proof -
  let ?s1 = "case map_of (peer_pending s) addr of None \<Rightarrow> s
    | Some pending \<Rightarrow> s\<lparr>peer_pending := hm_insert addr
        (filter (\<lambda>b. \<not> (br_piece b = unat i \<and> br_offset b = unat off)) pending) (peer_pending s)\<rparr>"
  have "sinv env A ?s1"
    using assms session_inv_pending [OF assms] session_invD(6) [OF assms]
    by (auto split: option.splits)
  then have "sinv env A (?s1\<lparr>sn_peers := peer_update addr
      (\<lambda>p. p\<lparr>outstanding_requests := outstanding_requests p - 1\<rparr>) (sn_peers ?s1)\<rparr>)"
    by (rule session_inv_update) (auto simp: peer_ok_def)
  from session_inv_update [OF this, of addr "sample_throughput (se_floats env) len e"]
  show ?thesis by (simp add: note_block_def Let_def sample_peer_ok)
qed

lemma piece_done_inv:
  assumes "sinv env A s" and "unat i < pk_pieces (sn_picker s)"
    and "\<not> has (have_bf (sn_picker s)) (unat i)"
    and "length d = actual_piece_length (sn_picker s) (unat i)" and "good (unat i) d"
  shows "sinv env A (piece_done env i d s)"
proof (cases "ps_verify (se_sha1 env) (info_pieces (se_info env)) (unat i) d")
  case False
  have "sinv env A (s\<lparr>sn_picker := piece_failed (unat i) (sn_picker s)\<rparr>)"
    by (rule session_inv_picker [OF assms(1) pinv_calm(5) [OF session_invD(1) [OF assms(1)]] torrent_eq_peers(4)])
  with False show ?thesis by (simp add: piece_done_def Let_def)
next
  case True
  note d = session_invD [OF assms(1)]
  let ?pk = "mark_verified (unat i) (sn_picker s)"
  have pk: "pinv ?pk" using step_inv [OF d(1) may_verified [OF assms(2,3)]] by simp
  have "picker_inv (sn_picker s)" using d(1) by (rule pinv_picker)
  then have has: "{j. has (have_bf ?pk) j} = insert (unat i) {j. has (have_bf (sn_picker s)) j}"
    using has_set [OF picker_invD(5), of "sn_picker s" "unat i"] assms(2) picker_invD(6)
    by (auto simp: mark_verified_have)
  have tor: "torrent_of (se_info env) ?pk"
    using d(2) by (simp add: torrent_of_def mark_verified_def check_mode_def Let_def)
  have new: "unat i \<notin> A" "unat i \<notin> fst ` set (writes s)"
    using assms(1,3) by (auto simp: session_inv_def ledger_def)
  have wr: "write_ok env good (unat i, d)"
    using True assms torrent_piece_len [OF d(2) assms(2)] d(2)
    by (simp add: write_ok_def ps_verify_def torrent_of_def not_le split: if_splits)
  have pool: "pm_inv (broadcast (SendHave i) (sn_peers s))"
    "peers_all (peer_ok env) (broadcast (SendHave i) (sn_peers s))"
    using d(3,4) by (simp_all add: same_pool_inv [OF broadcast_same] broadcast_peers_ok)
  have led: "ledger env good A s" and tab: "tables_ok env s" using assms(1) by (simp_all add: session_inv_def)
  show ?thesis
    using True pk tor pool led tab has new wr
    by (simp add: piece_done_def Let_def session_inv_def ledger_def tables_ok_def)
qed

lemma block_inv:
  assumes "sinv env A s" and "may (sn_picker s) (BlockIn (unat i) (unat off) data)"
  shows "sinv env A (on_block env rand addr i off data e s)"
proof -
  let ?s = "note_block env addr i off (length data) e s"
  obtain pk' result where br: "block_received (unat i) (unat off) data (sn_picker s) = (pk', result)"
    by fastforce
  note d = session_invD [OF assms(1)]
  have pk': "pinv pk'" "torrent_eq (sn_picker s) pk'"
    using step_inv [OF d(1) assms(2)] torrent_eq_block [of "sn_picker s" "unat i" "unat off" data]
    by (simp_all add: br)
  have s1: "sinv env A (?s\<lparr>sn_picker := pk'\<rparr>)"
    by (rule session_inv_picker [OF note_block_inv [OF assms(1)]]) (simp_all add: pk')
  have s2: "sinv env A (?s\<lparr>sn_picker := pk', bytes_new := b\<rparr>)" for b using s1 by simp
  have fin: "sinv env A (piece_done env i pd (cancel_piece addr i
      (?s\<lparr>sn_picker := pk', bytes_new := b\<rparr>)))" if "result = PieceComplete pd" for pd b
  proof -
    note f = complete_block_facts [OF pinv_picker [OF d(1)] br [unfolded that]]
    show ?thesis
      by (rule piece_done_inv [OF cancel_inv(2) [OF s2]])
        (use f completes [OF d(1) assms(2) br [unfolded that]] in \<open>simp_all add: actual_piece_length_def\<close>)
  qed
  show ?thesis
    unfolding on_block_def Let_def note_block_picker br prod.case
    by (intro endgame_inv fill_pipeline_inv)
      (use s1 s2 fin in \<open>auto intro!: cancel_inv split: block_result.splits\<close>)
qed

text \<open>
  A disconnect: between the removal of the peer and its return to the queue the pool is not
  consistent, but nothing in between looks at it.
\<close>

lemma disconnected_inv:
  assumes "sinv env A (s\<lparr>sn_peers := requeue_peer addr (sn_peers s)\<rparr>)"
  shows "sinv env A (on_disconnected env rand addr s)"
proof -
  let ?r = "s\<lparr>sn_peers := requeue_peer addr (sn_peers s)\<rparr>"
  let ?s1 = "release_peer_blocks addr ?r"
  let ?s2 = "?s1\<lparr>peer_pending := hm_remove addr (peer_pending ?s1)\<rparr>"
  let ?s3 = "case map_of (peer_bitfields ?s2) addr of None \<Rightarrow> ?s2
    | Some bf \<Rightarrow> ?s2\<lparr>peer_bitfields := hm_remove addr (peer_bitfields ?s2),
                   sn_picker := peer_disconnected bf (sn_picker ?s2)\<rparr>"
  have s2: "sinv env A ?s2"
    using session_inv_pending [OF release_inv [OF assms]] session_invD(6) [OF release_inv [OF assms]]
    by (simp add: hm_remove_wf)
  have "sinv env A (?s2\<lparr>peer_bitfields := hm_remove addr (peer_bitfields ?s2),
      sn_picker := peer_disconnected bf (sn_picker ?s2)\<rparr>)" for bf
    by (rule session_inv_picker [OF session_inv_bitfield_gone [OF s2]])
      (use pinv_calm(4) [OF session_invD(1) [OF s2]] in \<open>simp_all add: torrent_eq_peers\<close>)
  then have s3: "sinv env A ?s3" using s2 by (simp split: option.splits)
  have "on_disconnected env rand addr s = refill_all_peers env rand (set_peer_count ?s3)"
    by (cases "map_of (peer_bitfields s) addr"; cases "release_peer_blocks addr s")
      (use release_frame(2-4) [of addr s] in
        \<open>simp_all add: on_disconnected_def Let_def set_peer_count_def\<close>)
  with s3 show ?thesis by (simp add: refill_inv)
qed

lemma event_inv:
  assumes "sinv env A s" and "turn_ok may s (EventTurn addr ev elapsed rand)"
    and "session_step env s (EventTurn addr ev elapsed rand) = Done s'"
  shows "sinv env A s'"
proof -
  note d = session_invD [OF assms(1)]
  let ?s = "s\<lparr>sn_peers := handle_event addr ev (sn_peers s)\<rparr>"
  have peers: "peers_all (peer_ok env) (handle_event addr ev (sn_peers s))"
    by (rule peers_all_event [OF d(4) peer_ok_stable])
  show ?thesis
  proof (cases "\<exists>r. ev = EvDisconnected r")
    case True
    then obtain r where r: "ev = EvDisconnected r" ..
    have "pm_inv (requeue_peer addr (sn_peers ?s))"
      using gone_inv [OF d(3), of addr r] assms(2) r by (simp add: turn_ok_def)
    then have "sinv env A (?s\<lparr>sn_peers := requeue_peer addr (sn_peers ?s)\<rparr>)"
      using session_inv_peers [OF assms(1)] peers by simp
    from disconnected_inv [OF this] show ?thesis
      using assms(3) r by (auto simp del: handle_event.simps)
  next
    case False
    then have "sinv env A ?s"
      using session_inv_peers [OF assms(1)] handle_event_inv [OF d(3)] peers by blast
    note s = this
    have pex: "sinv env A (?s\<lparr>sn_peers := connect_pending (add_peers addrs (sn_peers ?s))\<rparr>)" for addrs
      by (rule session_inv_peers [OF s])
        (use session_invD(3,4) [OF s] peer_ok_stable in
          \<open>auto intro!: connect_pending_inv add_peers_inv peers_all_connect simp: stable_peer_def\<close>)
    show ?thesis
    proof (cases ev)
      case (EvBitfield bs)
      with assms(3) obtain bf where bf: "bf_from_bytes bs (length (info_pieces (se_info env))) = Done bf"
        and s': "s' = on_bitfield env (rand addr) addr bf ?s"
        by (cases "bf_from_bytes bs (length (info_pieces (se_info env)))") auto
      show ?thesis unfolding s' by (rule bitfield_inv [OF s]) (use bf_from_bytes_Done [OF bf] in auto)
    next
      case EvHaveAll
      with assms(3) s show ?thesis
        by (auto intro!: bitfield_inv simp: full_bitfield_ok)
    next
      case (EvBlock i off data)
      then have m: "may (sn_picker ?s) (BlockIn (unat i) (unat off) data)"
        using assms(2) by (simp add: turn_ok_def)
      have s': "s' = on_block env (rand addr) addr i off data elapsed ?s"
        using assms(3) EvBlock by (simp del: handle_event.simps)
      show ?thesis unfolding s' by (rule block_inv [OF s m])
    next
      case (EvPexPeers addrs)
      then have "s' = (if se_lightspeed env
          then ?s\<lparr>sn_peers := connect_pending (add_peers addrs (sn_peers ?s))\<rparr> else ?s)"
        using assms(3) by (simp split: if_splits)
      then show ?thesis using pex s by (simp del: handle_event.simps)
    qed (use assms(3) s False in \<open>auto intro: connected_inv have_inv fill_pipeline_inv choked_inv
        simp del: handle_event.simps\<close>)
  qed
qed

lemma step_session_inv:
  assumes "sinv env A s" and "turn_ok may s t" and "session_step env s t = Done s'"
  shows "sinv env A s'"
proof (cases t)
  case (EventTurn addr ev elapsed rand)
  with event_inv assms show ?thesis by blast
next
  case (PeersTurn addrs)
  note d = session_invD [OF assms(1)]
  have "sinv env A (s\<lparr>sn_peers := connect_pending (add_peers addrs (sn_peers s))\<rparr>)"
    by (rule session_inv_peers [OF assms(1)])
      (use d(3,4) peer_ok_stable in
        \<open>auto intro!: connect_pending_inv add_peers_inv peers_all_connect simp: stable_peer_def\<close>)
  then show ?thesis using PeersTurn assms(3) by simp
next
  case ConnectTick
  note d = session_invD [OF assms(1)]
  have "sinv env A (s\<lparr>sn_peers := connect_pending (sn_peers s)\<rparr>)"
    by (rule session_inv_peers [OF assms(1)])
      (use d(3,4) peer_ok_stable in
        \<open>auto intro!: connect_pending_inv peers_all_connect simp: stable_peer_def\<close>)
  then show ?thesis using ConnectTick assms(3) endgame_inv by auto
next
  case (ChokeTick r)
  have "\<forall>(a, c) \<in> set (run_choking_algorithm r b pm). sendable (se_info env) c" for b pm
    by (auto simp: run_choking_algorithm_def Let_def)
  then have "sinv env A ((s\<lparr>optimistic_counter := optimistic_counter s + 1\<rparr>)\<lparr>sn_peers :=
      send_all (run_choking_algorithm r b (sn_peers s)) (sn_peers s)\<rparr>)" for b
    using session_inv_send_all [of env pinv good A "s\<lparr>optimistic_counter := optimistic_counter s + 1\<rparr>"]
      assms(1) by simp
  then show ?thesis using ChokeTick assms(3) by (auto simp: choke_tick_def Let_def)
next
  case (TaskRecv addr)
  have q: "channel_ok i ch \<Longrightarrow> channel_ok i (ch\<lparr>ch_queue := tl (ch_queue ch)\<rparr>)" for i ch
    by (cases "ch_queue ch") (auto simp: channel_ok_def)
  have "sinv env A (s\<lparr>sn_peers := task_recv addr (sn_peers s)\<rparr>)"
    unfolding task_recv_def by (rule session_inv_update [OF assms(1)]) (simp add: peer_ok_def q)
  then show ?thesis using TaskRecv assms(3) by simp
next
  case (TaskEnd addr)
  have "sinv env A (s\<lparr>sn_peers := task_ended addr (sn_peers s)\<rparr>)"
    unfolding task_ended_def
    by (rule session_inv_update [OF assms(1)]) (simp add: peer_ok_def channel_ok_def)
  then show ?thesis using TaskEnd assms(3) by simp
next
  case (SpeedTick dt)
  then have s': "s' = speed_tick env dt s" using assms(3) by simp
  show ?thesis using assms(1) unfolding s' by (simp add: session_inv_def ledger_def tables_ok_def)
qed (use assms in auto)

lemma loop_session_inv:
  assumes "sinv env A s" and "turns_ok may env ts s" and "session_loop env ts s = Done (s', e)"
  shows "sinv env A s'"
  using assms
proof (induction ts arbitrary: s)
  case Nil
  then show ?case by (simp add: session_loop.simps split: if_splits)
next
  case (Cons t ts)
  show ?case
  proof (cases "pk_is_complete (sn_picker s) \<or> t = CancelTurn")
    case True
    with Cons.prems show ?thesis by (auto simp: session_loop.simps split: if_splits)
  next
    case False
    then have "session_loop env (t # ts) s = run_bind (session_step env s t) (session_loop env ts)"
      by (subst session_loop.simps) (cases t; simp)
    with Cons.prems(3) obtain s1 where "session_step env s t = Done s1"
      and "session_loop env ts s1 = Done (s', e)"
      by (cases "session_step env s t") auto
    with Cons show ?thesis using step_session_inv [of env A s t s1] by auto
  qed
qed

end

section \<open>The two kinds of peers\<close>

text \<open>Peers that may send anything.\<close>

interpretation any_peers: picker_client picker_may picker_inv "\<lambda>i d. True"
  by unfold_locales (auto split: picker_event.splits)

text \<open>Peers that send the torrent's data.\<close>

interpretation honest_peers: picker_client "honest_may content" "holds_content content" "\<lambda>i d. d = content i"
proof unfold_locales
  show "holds_content content pk \<Longrightarrow> honest_may content pk (BlockIn i off data) \<Longrightarrow>
      block_received i off data pk = (pk', PieceComplete d) \<Longrightarrow> d = content i" for pk i off data pk' d
    by (rule holds_complete) (auto simp: honest_may_def)
qed (auto simp: honest_may_def holds_content_def split: picker_event.splits)

section \<open>The first state\<close>

definition adopted_pieces ::
  "session_env \<Rightarrow> bool \<Rightarrow> (nat \<Rightarrow> nat \<Rightarrow> bytes option) \<Rightarrow> nat set" where
  "adopted_pieces env has_existing_data read = (if has_existing_data
     then {i. i < length (info_pieces (se_info env))
            \<and> good_piece (se_sha1 env) read (info_pieces (se_info env)) (se_info env) i}
     else {})"

lemma verify_step_frame:
  assumes "in_progress pk = [] \<and> torrent_of i pk"
  shows "in_progress (fst (verify_step sha1 read store i j (pk, v))) = []
    \<and> torrent_of i (fst (verify_step sha1 read store i j (pk, v)))"
  using assms
  by (auto simp: verify_step_def Let_def mark_verified_def check_mode_def torrent_of_def hm_remove_def
      split: option.splits)

lemma verify_frame:
  assumes "in_progress pk = [] \<and> torrent_of i pk"
  shows "in_progress (fst (verify_on_disk sha1 read store i pk)) = []
    \<and> torrent_of i (fst (verify_on_disk sha1 read store i pk))"
proof -
  have "in_progress (fst pv) = [] \<and> torrent_of i (fst pv) \<Longrightarrow>
      in_progress (fst (fold (verify_step sha1 read store i) js pv)) = []
      \<and> torrent_of i (fst (fold (verify_step sha1 read store i) js pv))" for js pv
  proof (induction js arbitrary: pv)
    case (Cons j js)
    obtain pk v where "pv = (pk, v)" by fastforce
    with Cons verify_step_frame [of pk i sha1 read store j v] show ?case by simp
  qed simp
  then show ?thesis using assms by (simp add: verify_on_disk_def)
qed

lemma peers_all_new: "peers_all P (pm_new limit)"
  by (simp add: peers_all_def pm_new_def)

lemma session_start_inv:
  assumes "length (info_pieces (se_info env)) < 2 ^ 32" and "0 < unat (info_piece_length (se_info env))"
    and "\<And>pk. picker_inv pk \<Longrightarrow> in_progress pk = [] \<Longrightarrow> pinv pk"
  shows "session_inv env pinv good (adopted_pieces env ex read)
    (session_start env limit warm ex read (initial_status sid h (se_info env) t0))"
proof -
  let ?i = "se_info env"
  let ?pk0 = "picker_new (length (info_pieces ?i)) (unat (info_piece_length ?i)) (unat (info_total_length ?i))"
  obtain pk v where ver: "(if ex then verify_on_disk (se_sha1 env) read (info_pieces ?i) ?i ?pk0 else (?pk0, 0))
      = (pk, v)" by fastforce
  have p0: "picker_inv ?pk0"
    using picker_new_inv [OF assms(1,2)] unsigned_less [of "info_piece_length ?i", where ?'a = nat] by simp
  have h0: "{j. has (have_bf ?pk0) j} = {}" and n0: "pk_pieces ?pk0 = length (info_pieces ?i)"
    and v0: "verified_count ?pk0 = 0"
    and f0: "in_progress ?pk0 = [] \<and> torrent_of ?i ?pk0"
    by (simp_all add: picker_new_def torrent_of_def)
  have pk: "picker_inv pk \<and> v = card {j. has (have_bf pk) j}
      \<and> {j. has (have_bf pk) j} = adopted_pieces env ex read"
  proof (cases ex)
    case True
    then have "fold (verify_step (se_sha1 env) read (info_pieces ?i) ?i) [0..<length (info_pieces ?i)] (?pk0, 0)
        = (pk, v)" using ver by (simp add: verify_on_disk_def)
    from verify_fold [OF p0 h0 _ this] True show ?thesis by (simp add: n0 adopted_pieces_def)
  next
    case False
    then have "pk = ?pk0" "v = 0" using ver by simp_all
    with p0 h0 False show ?thesis by (simp add: adopted_pieces_def)
  qed
  have fr: "in_progress pk = []" "torrent_of ?i pk"
    using ver f0 verify_frame [OF f0, of "se_sha1 env" read "info_pieces ?i"]
    by (cases ex; fastforce)+
  have vc: "verified_count pk = v"
    using pk by (simp add: picker_inv_def count_card)
  have sd: "st_pieces_done (local_status (session_start env limit warm ex read
      (initial_status sid h ?i t0))) = verified_count pk"
    using ver vc v0 by (auto simp: session_start_def Let_def initial_status_def split: if_splits)
  have fields: "sn_picker (session_start env limit warm ex read (initial_status sid h ?i t0)) = pk"
    "sn_peers (session_start env limit warm ex read (initial_status sid h ?i t0)) =
      (if warm \<noteq> [] then add_peers warm (pm_new limit) else pm_new limit)"
    "writes (session_start env limit warm ex read (initial_status sid h ?i t0)) = []"
    "peer_bitfields (session_start env limit warm ex read (initial_status sid h ?i t0)) = []"
    "peer_pending (session_start env limit warm ex read (initial_status sid h ?i t0)) = []"
    using ver by (simp_all add: session_start_def Let_def)
  show ?thesis
    unfolding session_inv_def ledger_def tables_ok_def fields sd
    using pk fr assms(3) add_peers_inv [OF pm_new_inv, of "{}" warm limit]
    by (simp add: peers_all_new)
qed

lemma complete_iff:
  assumes "picker_inv pk"
  shows "pk_is_complete pk \<longleftrightarrow> {i. has (have_bf pk) i} = {..<pk_pieces pk}"
proof -
  have wf: "bf_wf (have_bf pk)" "bf_pieces (have_bf pk) = pk_pieces pk"
    using assms by (auto simp: picker_inv_def)
  have sub: "{i. has (have_bf pk) i} \<subseteq> {..<pk_pieces pk}"
    using wf(2) by (auto simp: has_def split: if_splits)
  have "pk_is_complete pk \<longleftrightarrow> card {i. has (have_bf pk) i} = card {..<pk_pieces pk}"
    using wf by (simp add: pk_is_complete_def bf_is_complete_def count_card)
  also have "\<dots> \<longleftrightarrow> {i. has (have_bf pk) i} = {..<pk_pieces pk}"
  proof
    assume "card {i. has (have_bf pk) i} = card {..<pk_pieces pk}"
    then show "{i. has (have_bf pk) i} = {..<pk_pieces pk}" by (rule card_subset_eq [OF finite_lessThan sub])
  qed simp
  finally show ?thesis .
qed

lemma session_run_end:
  assumes "session_run env s0 ts now = Done (s, True)"
  obtains s1 where "session_loop env ts s0 = Done (s1, True)" and "s = session_finish now s1"
  using assms by (cases "session_loop env ts s0") (auto simp: session_run_def split: prod.splits if_splits)

lemma session_finish_fields [simp]:
  "sn_picker (session_finish now s) = sn_picker s" "writes (session_finish now s) = writes s"
  "sn_peers (session_finish now s) = sn_peers s"
  "st_state (shared_status (session_finish now s)) =
     (if pk_is_complete (sn_picker s) then Completed else Session.Cancelled)"
  by (simp_all add: session_finish_def Let_def)

text \<open>Every state of the loop satisfies the invariant, whatever the peers send.\<close>

lemma session_reachable_inv:
  assumes "length (info_pieces (se_info env)) < 2 ^ 32" and "0 < unat (info_piece_length (se_info env))"
    and "turns_ok picker_may env ts
      (session_start env limit warm ex read (initial_status sid h (se_info env) t0))"
    and "session_loop env ts
      (session_start env limit warm ex read (initial_status sid h (se_info env) t0)) = Done (s, e)"
  shows "session_inv env picker_inv (\<lambda>i d. True) (adopted_pieces env ex read) s"
  by (rule any_peers.loop_session_inv [OF session_start_inv [OF assms(1,2)] assms(3,4)])

lemma session_completed:
  assumes "session_inv env pinv good A s" and "picker_inv (sn_picker s)"
  shows "pk_is_complete (sn_picker s) \<longleftrightarrow>
    (\<forall>i < length (info_pieces (se_info env)). i \<in> A \<or> (\<exists>d. (i, d) \<in> set (writes s)))"
proof -
  have n: "pk_pieces (sn_picker s) = length (info_pieces (se_info env))"
    and set: "{i. has (have_bf (sn_picker s)) i} = A \<union> fst ` set (writes s)"
    using assms(1) by (simp_all add: session_inv_def torrent_of_def ledger_def)
  have sub: "{i. has (have_bf (sn_picker s)) i} \<subseteq> {..<pk_pieces (sn_picker s)}"
    using picker_invD(6) [OF assms(2)] by (auto simp: has_def split: if_splits)
  have "pk_is_complete (sn_picker s) \<longleftrightarrow> {..<pk_pieces (sn_picker s)} \<subseteq> A \<union> fst ` set (writes s)"
    using complete_iff [OF assms(2)] sub unfolding set by blast
  also have "\<dots> \<longleftrightarrow> (\<forall>i < length (info_pieces (se_info env)). i \<in> A \<or> (\<exists>d. (i, d) \<in> set (writes s)))"
    unfolding n by (auto simp: image_iff subset_iff Bex_def)
  finally show ?thesis .
qed

lemma ledger_write:
  assumes "ledger env good A s" and "(i, d) \<in> set (writes s)"
  shows "i < length (info_pieces (se_info env))" and "se_sha1 env d = info_pieces (se_info env) ! i"
    and "length d = piece_len (se_info env) i" and "good i d" and "i \<notin> A"
proof -
  have "write_ok env good (i, d)" using assms by (auto simp: ledger_def list_all_iff)
  then show "i < length (info_pieces (se_info env))" "se_sha1 env d = info_pieces (se_info env) ! i"
    "length d = piece_len (se_info env) i" "good i d"
    by (simp_all add: write_ok_def)
  have "i \<in> fst ` set (writes s)" using assms(2) by (force intro: rev_image_eqI)
  then show "i \<notin> A" using assms(1) by (auto simp: ledger_def)
qed

section \<open>Properties\<close>

text \<open>C4. The state of a session is well formed whenever control returns to its loop, whatever the
  peers send in whatever order: the picker and the connection pool are consistent, the counter of a
  peer's outstanding requests, by which the pipeline is filled, stays at 64 or below (256 in
  lightspeed mode), every command channel is within its capacity, and every request in one is for an
  aligned, non-empty block of at most 16 KiB inside a piece of this torrent, its 32-bit fields exact.
  The counter is not the number of requests a peer has yet to answer, which is not bounded here: the
  requests of the endgame do not raise it, and a block the session never asked for lowers it.\<close>

theorem session_state_ok:
  assumes "length (info_pieces (se_info env)) < 2 ^ 32" and "0 < unat (info_piece_length (se_info env))"
    and "turns_ok picker_may env ts
      (session_start env limit warm ex read (initial_status sid h (se_info env) t0))"
    and "session_loop env ts
      (session_start env limit warm ex read (initial_status sid h (se_info env) t0)) = Done (s, e)"
  shows "picker_inv (sn_picker s) \<and> pm_inv (sn_peers s) \<and> tables_ok env s
    \<and> (\<forall>(a, p) \<in> set (pm_peers (sn_peers s)).
         outstanding_requests p \<le> (if se_lightspeed env then 256 else 64)
         \<and> length (ch_queue (cmd_tx p)) \<le> 512
         \<and> (\<forall>i off len. RequestBlock i off len \<in> set (ch_queue (cmd_tx p)) \<longrightarrow>
              valid_request (se_info env) (unat i) (unat off) (unat len)))"
proof -
  note inv = session_reachable_inv [OF assms]
  have peer: "outstanding_requests p \<le> (if se_lightspeed env then 256 else 64)
      \<and> length (ch_queue (cmd_tx p)) \<le> 512
      \<and> (\<forall>i off len. RequestBlock i off len \<in> set (ch_queue (cmd_tx p)) \<longrightarrow>
           valid_request (se_info env) (unat i) (unat off) (unat len))" if "peer_ok env p" for p
    using that unfolding peer_ok_def channel_ok_def request_cap_def CHANNEL_CAPACITY_def list_all_iff
    by (fastforce simp: sendable_def)
  show ?thesis
    using inv peer unfolding session_inv_def peers_all_def by blast
qed

text \<open>C2. What a finished session has done, whatever the peers sent: it reports Completed exactly
  when every piece was adopted from disk or handed to the disk task, and everything it handed to
  the disk task is a piece of the torrent, of the right length, with the hash of the metainfo, not
  on disk already, and no piece twice.\<close>

theorem session_completes_verified:
  assumes "length (info_pieces (se_info env)) < 2 ^ 32" and "0 < unat (info_piece_length (se_info env))"
    and "turns_ok picker_may env ts
      (session_start env limit warm ex read (initial_status sid h (se_info env) t0))"
    and "session_run env
      (session_start env limit warm ex read (initial_status sid h (se_info env) t0)) ts now = Done (s, True)"
  shows "st_state (shared_status s) \<in> {Completed, Session.Cancelled}
    \<and> (st_state (shared_status s) = Completed \<longleftrightarrow>
        (\<forall>i < length (info_pieces (se_info env)).
           i \<in> adopted_pieces env ex read \<or> (\<exists>d. (i, d) \<in> set (writes s))))
    \<and> distinct (map fst (writes s))
    \<and> (\<forall>(i, d) \<in> set (writes s). i < length (info_pieces (se_info env))
         \<and> se_sha1 env d = info_pieces (se_info env) ! i \<and> length d = piece_len (se_info env) i
         \<and> i \<notin> adopted_pieces env ex read)"
proof -
  obtain s1 where loop: "session_loop env ts
      (session_start env limit warm ex read (initial_status sid h (se_info env) t0)) = Done (s1, True)"
    and s: "s = session_finish now s1"
    using session_run_end [OF assms(4)] .
  note inv = session_reachable_inv [OF assms(1-3) loop]
  have pi: "picker_inv (sn_picker s1)" using inv by (simp add: session_inv_def)
  have led: "ledger env (\<lambda>i d. True) (adopted_pieces env ex read) s1"
    using inv by (simp add: session_inv_def)
  have st: "st_state (shared_status s) = (if pk_is_complete (sn_picker s1) then Completed else Session.Cancelled)"
    by (simp add: s)
  have wr: "\<forall>(i, d) \<in> set (writes s1). i < length (info_pieces (se_info env))
      \<and> se_sha1 env d = info_pieces (se_info env) ! i \<and> length d = piece_len (se_info env) i
      \<and> i \<notin> adopted_pieces env ex read"
    using ledger_write [OF led] by blast
  have "distinct (map fst (writes s1))" using led by (simp add: ledger_def)
  then show ?thesis
    using st wr session_completed [OF inv pi] by (simp add: s)
qed

text \<open>C3. With peers that send the torrent's data, and its hashes in the metainfo, every piece the
  session hands to the disk task is that piece of the data, so a completed session has fetched
  exactly what was missing on disk.\<close>

theorem session_fetches_content:
  assumes "length (info_pieces (se_info env)) < 2 ^ 32" and "0 < unat (info_piece_length (se_info env))"
    and "turns_ok (honest_may content) env ts
      (session_start env limit warm ex read (initial_status sid h (se_info env) t0))"
    and "session_run env
      (session_start env limit warm ex read (initial_status sid h (se_info env) t0)) ts now = Done (s, True)"
    and "st_state (shared_status s) = Completed"
  shows "set (writes s) = (\<lambda>i. (i, content i)) `
    ({..<length (info_pieces (se_info env))} - adopted_pieces env ex read)"
proof -
  obtain s1 where loop: "session_loop env ts
      (session_start env limit warm ex read (initial_status sid h (se_info env) t0)) = Done (s1, True)"
    and s: "s = session_finish now s1"
    using session_run_end [OF assms(4)] .
  have "holds_content content pk" if "picker_inv pk" "in_progress pk = []" for pk
    using that by (simp add: holds_content_def)
  note inv = honest_peers.loop_session_inv [OF session_start_inv [OF assms(1,2) this] assms(3) loop]
  have pi: "picker_inv (sn_picker s1)" using inv by (simp add: session_inv_def holds_content_def)
  have led: "ledger env (\<lambda>i d. d = content i) (adopted_pieces env ex read) s1"
    using inv by (simp add: session_inv_def)
  have all: "\<forall>i < length (info_pieces (se_info env)).
      i \<in> adopted_pieces env ex read \<or> (\<exists>d. (i, d) \<in> set (writes s1))"
    using assms(5) session_completed [OF inv pi] by (simp add: s split: if_splits)
  have wr: "i < length (info_pieces (se_info env)) \<and> d = content i \<and> i \<notin> adopted_pieces env ex read"
    if "(i, d) \<in> set (writes s1)" for i d
    using ledger_write [OF led that] by blast
  show ?thesis
  proof (intro equalityI subsetI)
    fix x assume "x \<in> set (writes s)"
    then show "x \<in> (\<lambda>i. (i, content i)) ` ({..<length (info_pieces (se_info env))} - adopted_pieces env ex read)"
      using wr [of "fst x" "snd x"]
      by (intro image_eqI [of _ _ "fst x"]) (auto simp: s prod_eq_iff)
  next
    fix x assume "x \<in> (\<lambda>i. (i, content i)) ` ({..<length (info_pieces (se_info env))} - adopted_pieces env ex read)"
    then obtain i where "x = (i, content i)" "i < length (info_pieces (se_info env))"
      "i \<notin> adopted_pieces env ex read" by auto
    then show "x \<in> set (writes s)" using all wr by (auto simp: s)
  qed
qed

text \<open>A session that downloads two pieces from one peer.\<close>

definition example_env :: session_env where
  "example_env = \<lparr>se_info = example_info, se_lightspeed = False,
     se_sha1 = (\<lambda>d. take 20 (d @ replicate 20 0)),
     se_floats = \<lparr>f_adaptive = (\<lambda>t. 0), f_rate = (\<lambda>n t. 0), f_ratio = (\<lambda>a b. 0),
       f_sample_due = (\<lambda>t. False), f_tick_due = (\<lambda>t. False)\<rparr>\<rparr>"

definition from_peer :: "peer_event \<Rightarrow> session_turn" where
  "from_peer ev = EventTurn example_peer ev 0 (\<lambda>a n i. 0)"

definition example_session :: "session_turn list" where
  "example_session = [PeersTurn [example_peer], from_peer (EvConnected example_peer None False),
     from_peer EvHaveAll, from_peer EvUnchoked, from_peer (EvBlock 0 0 [0, 0, 0, 0]),
     TaskRecv example_peer, ChokeTick 0, from_peer (EvBlock 1 0 [0, 0])]"

definition example_start :: session where
  "example_start = session_start example_env 10 [] False (\<lambda>i n. None)
     (initial_status [] [] (se_info example_env) 0)"

definition example_content :: "nat \<Rightarrow> bytes" where
  "example_content i = replicate (if i = 0 then 4 else 2) 0"

lemma turns_ok_mono:
  "turns_ok may env ts s \<Longrightarrow> (\<And>pk e. may pk e \<Longrightarrow> may' pk e) \<Longrightarrow> turns_ok may' env ts s"
  by (induction ts arbitrary: s)
    (auto simp: turn_ok_def split: session_turn.splits peer_event.splits run.splits)

lemma example_honest: "turns_ok (honest_may example_content) example_env example_session example_start"
  and example_env_ok: "length (info_pieces (se_info example_env)) < 2 ^ 32"
    "0 < unat (info_piece_length (se_info example_env))"
  by code_simp+

lemma example_any: "turns_ok picker_may example_env example_session example_start"
  using example_honest by (rule turns_ok_mono) (simp add: honest_may_def)

lemma example_result:
  "case session_run example_env example_start example_session 0 of Panic \<Rightarrow> False
   | Done (s, e) \<Rightarrow> e \<and> st_state (shared_status s) = Completed
       \<and> writes s = [(0, [0, 0, 0, 0]), (1, [0, 0])]"
  by code_simp

lemma example_run:
  obtains s1 s where "session_loop example_env example_session example_start = Done (s1, True)"
    and "session_run example_env example_start example_session 0 = Done (s, True)"
    and "st_state (shared_status s) = Completed" and "writes s = [(0, [0, 0, 0, 0]), (1, [0, 0])]"
proof -
  obtain s where s: "session_run example_env example_start example_session 0 = Done (s, True)"
    and st: "st_state (shared_status s) = Completed" "writes s = [(0, [0, 0, 0, 0]), (1, [0, 0])]"
    using example_result by (auto split: run.splits prod.splits)
  obtain s1 where "session_loop example_env example_session example_start = Done (s1, True)"
    using session_run_end [OF s] .
  with s st show thesis by (intro that)
qed

theorem session_state_ok_witness:
  "\<exists>s. session_loop example_env example_session example_start = Done (s, True)
    \<and> picker_inv (sn_picker s) \<and> pm_inv (sn_peers s) \<and> tables_ok example_env s"
proof -
  obtain s where s: "session_loop example_env example_session example_start = Done (s, True)"
    using example_run by blast
  then show ?thesis
    using session_state_ok [OF example_env_ok example_any [unfolded example_start_def]
        s [unfolded example_start_def]] by blast
qed

theorem session_completes_verified_witness:
  "\<exists>s d. session_run example_env example_start example_session 0 = Done (s, True)
    \<and> (1, d) \<in> set (writes s) \<and> se_sha1 example_env d = info_pieces (se_info example_env) ! 1
    \<and> length d = 2"
proof -
  obtain s where s: "session_run example_env example_start example_session 0 = Done (s, True)"
    and st: "st_state (shared_status s) = Completed"
    using example_run by blast
  note c = session_completes_verified [OF example_env_ok example_any [unfolded example_start_def]
      s [unfolded example_start_def]]
  have "1 < length (info_pieces (se_info example_env))" and len: "piece_len (se_info example_env) 1 = 2"
    by code_simp+
  then obtain d where "(1, d) \<in> set (writes s)"
    using c st by (auto simp: adopted_pieces_def)
  with c s len show ?thesis by fastforce
qed

theorem session_fetches_content_witness:
  "\<exists>s. session_run example_env example_start example_session 0 = Done (s, True)
    \<and> writes s = [(0, [0, 0, 0, 0]), (1, [0, 0])]
    \<and> set (writes s) = (\<lambda>i. (i, example_content i)) `
        ({..<length (info_pieces (se_info example_env))} - adopted_pieces example_env False (\<lambda>i n. None))"
proof -
  obtain s where s: "session_run example_env example_start example_session 0 = Done (s, True)"
    and st: "st_state (shared_status s) = Completed" and w: "writes s = [(0, [0, 0, 0, 0]), (1, [0, 0])]"
    using example_run by blast
  from session_fetches_content [OF example_env_ok example_honest [unfolded example_start_def]
      s [unfolded example_start_def] st] s w
  show ?thesis by blast
qed

end
