(* ===== verification/Disk_Faults.thy ===== *)
theory Disk_Faults
  imports Disk_Correct
begin

text \<open>
  What the disk task guarantees on a device that fails: bytes are looked at one by one, since after a
  failed write a file may have any length. A write answered without an error has put all its bytes in
  place, and no write, failed or not, changes a byte outside its own spans.
\<close>

section \<open>Bytes on disk\<close>

definition cell :: "file_system \<Rightarrow> path \<Rightarrow> nat \<Rightarrow> u8 option" where
  "cell fs p k = (case fs p of None \<Rightarrow> None | Some c \<Rightarrow> if k < length c then Some (c ! k) else None)"

text \<open>The bytes of some spans are those of \<open>data\<close> from an offset on.\<close>

fun spans_hold :: "file_system \<Rightarrow> file_span list \<Rightarrow> bytes \<Rightarrow> nat \<Rightarrow> bool" where
  "spans_hold fs [] data off \<longleftrightarrow> True"
| "spans_hold fs (sp # sps) data off \<longleftrightarrow>
     (\<forall>k < sp_length sp. cell fs (sp_path sp) (sp_offset sp + k) = Some (data ! (off + k)))
     \<and> spans_hold fs sps data (off + sp_length sp)"

definition touches :: "file_span list \<Rightarrow> path \<Rightarrow> nat \<Rightarrow> bool" where
  "touches sps p k \<longleftrightarrow> (\<exists>sp \<in> set sps. sp_path sp = p \<and> sp_offset sp \<le> k \<and> k < sp_offset sp + sp_length sp)"

definition spans_size :: "file_span list \<Rightarrow> nat" where
  "spans_size sps = sum_list (map sp_length sps)"

lemma spans_size_simps [simp]: "spans_size [] = 0" "spans_size (sp # sps) = sp_length sp + spans_size sps"
  by (simp_all add: spans_size_def)

lemma touches_Cons: "touches (sp # sps) p k \<longleftrightarrow>
    sp_path sp = p \<and> sp_offset sp \<le> k \<and> k < sp_offset sp + sp_length sp \<or> touches sps p k"
  by (auto simp: touches_def)

lemma write_at_keeps: "k < length old \<Longrightarrow> k < off \<or> off + length new \<le> k \<Longrightarrow>
    k < length (write_at off new old) \<and> write_at off new old ! k = old ! k"
  by (auto simp: write_at_def overwrite_def nth_append)

lemma write_at_puts:
  assumes "k < length new"
  shows "off + k < length (write_at off new old) \<and> write_at off new old ! (off + k) = new ! k"
proof -
  let ?pad = "old @ replicate (off + length new - length old) 0"
  have "off + length new \<le> length ?pad" by simp
  with assms show ?thesis by (auto simp: write_at_def overwrite_nth overwrite_length simp del: append_assoc)
qed

section \<open>Writing and reading\<close>

lemma write_keeps:
  "write_spans dev fs sps data off = (fs', r) \<Longrightarrow> \<not> touches sps p k \<Longrightarrow> cell fs p k = Some v \<Longrightarrow> cell fs' p k = Some v"
proof (induction sps arbitrary: fs off)
  case (Cons sp sps)
  let ?old = "case fs (sp_path sp) of None \<Rightarrow> [] | Some c \<Rightarrow> c" and ?stop = "off + sp_length sp"
  let ?part = "slice off ?stop data"
  let ?n = "dv_written dev (sp_path sp) (sp_offset sp) (length ?part)"
  let ?fs2 = "fs(sp_path sp \<mapsto> write_at (sp_offset sp) (take ?n ?part) ?old)"
  have out: "\<not> touches sps p k" "sp_path sp = p \<longrightarrow> k < sp_offset sp \<or> sp_offset sp + sp_length sp \<le> k"
    using Cons.prems(2) by (auto simp: touches_Cons)
  have one: "cell (fs(sp_path sp \<mapsto> ?old)) p k = Some v" using Cons.prems(3) by (auto simp: cell_def split: option.splits)
  have "length (take ?n ?part) \<le> sp_length sp" by (simp add: slice_def)
  then have two: "cell ?fs2 p k = Some v"
    using Cons.prems(3) out(2) write_at_keeps [of k ?old "sp_offset sp" "take ?n ?part"]
    by (auto simp: cell_def split: option.splits if_splits)
  show ?case
  proof (cases "write_spans dev ?fs2 sps data ?stop = (fs', r)")
    case True
    then show ?thesis using Cons.IH [OF _ out(1) two] by blast
  next
    case False
    then have "fs' = fs \<or> fs' = fs(sp_path sp \<mapsto> ?old) \<or> fs' = ?fs2"
      using Cons.prems(1) by (auto simp: Let_def split: if_splits)
    then show ?thesis using one two Cons.prems(3) by (elim disjE) (simp_all del: fun_upd_apply)
  qed
qed simp

lemma write_ok_step:
  assumes "write_spans dev fs (sp # sps) data off = (fs', IoOk)"
  obtains fs2 where "dv_open dev (sp_path sp)" "off + sp_length sp \<le> length data"
    "\<forall>k < sp_length sp. cell fs2 (sp_path sp) (sp_offset sp + k) = Some (data ! (off + k))"
    "write_spans dev fs2 sps data (off + sp_length sp) = (fs', IoOk)"
proof -
  let ?old = "case fs (sp_path sp) of None \<Rightarrow> [] | Some c \<Rightarrow> c" and ?part = "slice off (off + sp_length sp) data"
  let ?fs2 = "fs(sp_path sp \<mapsto> write_at (sp_offset sp) ?part ?old)"
  have ok: "dv_open dev (sp_path sp)" "off + sp_length sp \<le> length data"
    "write_spans dev ?fs2 sps data (off + sp_length sp) = (fs', IoOk)"
    using assms by (auto simp: Let_def split: if_splits)
  have "cell ?fs2 (sp_path sp) (sp_offset sp + k) = Some (data ! (off + k))" if "k < sp_length sp" for k
    using write_at_puts [of k ?part "sp_offset sp" ?old] that ok(2) by (simp add: cell_def slice_def)
  with that [OF ok(1,2) _ ok(3)] show thesis by blast
qed

lemma write_puts:
  "write_spans dev fs sps data off = (fs', IoOk) \<Longrightarrow> distinct (map sp_path sps) \<Longrightarrow>
    spans_hold fs' sps data off \<and> (\<forall>sp \<in> set sps. dv_open dev (sp_path sp))"
proof (induction sps arbitrary: fs off)
  case (Cons sp sps)
  obtain fs2 where step: "dv_open dev (sp_path sp)" "off + sp_length sp \<le> length data"
    "\<forall>k < sp_length sp. cell fs2 (sp_path sp) (sp_offset sp + k) = Some (data ! (off + k))"
    "write_spans dev fs2 sps data (off + sp_length sp) = (fs', IoOk)"
    using write_ok_step [OF Cons.prems(1)] .
  have "\<not> touches sps (sp_path sp) k" for k using Cons.prems(2) by (force simp: touches_def image_iff)
  then have "\<forall>k < sp_length sp. cell fs' (sp_path sp) (sp_offset sp + k) = Some (data ! (off + k))"
    using write_keeps [OF step(4)] step(3) by blast
  with Cons.IH [OF step(4)] Cons.prems(2) step(1) show ?case by simp
qed simp

lemma write_sound:
  "sound_device dev \<Longrightarrow> off + spans_size sps \<le> length data \<Longrightarrow> snd (write_spans dev fs sps data off) = IoOk"
  by (induction sps arbitrary: fs off) (simp_all add: Let_def)

lemma spans_hold_keep:
  "spans_hold fs sps data off \<Longrightarrow> (\<And>p k v. touches sps p k \<Longrightarrow> cell fs p k = Some v \<Longrightarrow> cell fs' p k = Some v) \<Longrightarrow>
    spans_hold fs' sps data off"
proof (induction sps arbitrary: off)
  case (Cons sp sps)
  have "touches (sp # sps) (sp_path sp) (sp_offset sp + k)" if "k < sp_length sp" for k
    using that by (auto simp: touches_Cons)
  then have "\<forall>k < sp_length sp. cell fs' (sp_path sp) (sp_offset sp + k) = Some (data ! (off + k))"
    using Cons.prems by auto
  moreover have "spans_hold fs' sps data (off + sp_length sp)"
    using Cons.IH [of "off + sp_length sp"] Cons.prems by (auto simp: touches_Cons)
  ultimately show ?case by simp
qed simp

text \<open>A successful read gives the bytes of the spans, and reads of bytes that are there succeed.\<close>

lemma read_gives:
  "read_spans dev fs sps buf off = (IoOk, d) \<Longrightarrow>
    length d = length buf \<and> take off d = take off buf \<and> spans_hold fs sps d off
    \<and> (\<forall>sp \<in> set sps. dv_open dev (sp_path sp)) \<and> (\<forall>sp \<in> set sps. fs (sp_path sp) \<noteq> None)"
proof (induction sps arbitrary: buf off)
  case (Cons sp sps)
  obtain c where c: "fs (sp_path sp) = Some c" using Cons.prems by (cases "fs (sp_path sp)") auto
  let ?stop = "off + sp_length sp" and ?part = "slice (sp_offset sp) (sp_offset sp + sp_length sp) c"
  have ok: "dv_open dev (sp_path sp)" "?stop \<le> length buf" "0 < sp_length sp \<longrightarrow> sp_offset sp + sp_length sp \<le> length c"
    and rest: "read_spans dev fs sps (overwrite off ?part buf) ?stop = (IoOk, d)"
    using Cons.prems c by (auto simp: Let_def split: if_splits)
  have part: "length ?part = sp_length sp" using ok(3) by (cases "sp_length sp = 0") (simp_all add: slice_def)
  have len: "length (overwrite off ?part buf) = length buf" using ok(2) part by (simp add: overwrite_length)
  note IH = Cons.IH [OF rest]
  have "take ?stop d = take ?stop (overwrite off ?part buf)" using IH by simp
  then have same: "d ! k = overwrite off ?part buf ! k" if "k < ?stop" for k
    using that ok(2) len by (metis nth_take)
  have "take off d = take off buf"
  proof (rule nth_equalityI)
    show "length (take off d) = length (take off buf)" using IH len by simp
    fix k assume "k < length (take off d)"
    then show "take off d ! k = take off buf ! k" using same [of k] ok(2) part by (simp add: overwrite_nth)
  qed
  moreover have "cell fs (sp_path sp) (sp_offset sp + k) = Some (d ! (off + k))" if k: "k < sp_length sp" for k
  proof -
    have "sp_offset sp + sp_length sp \<le> length c" using ok(3) k by simp
    then have "k < length c - sp_offset sp" and "sp_offset sp + k < length c" using k by linarith+
    then show ?thesis using same [of "off + k"] ok(2) part k by (simp add: cell_def c overwrite_nth slice_def)
  qed
  ultimately show ?case using IH len ok(1) c by simp
qed simp

lemma read_succeeds:
  "spans_hold fs sps d off \<Longrightarrow> \<forall>sp \<in> set sps. dv_open dev (sp_path sp) \<and> fs (sp_path sp) \<noteq> None \<Longrightarrow>
    length d = length buf \<Longrightarrow> take off d = take off buf \<Longrightarrow> off + spans_size sps = length buf \<Longrightarrow>
    read_spans dev fs sps buf off = (IoOk, d)"
proof (induction sps arbitrary: buf off)
  case (Cons sp sps)
  obtain c where c: "fs (sp_path sp) = Some c" using Cons.prems(2) by auto
  let ?stop = "off + sp_length sp" and ?part = "slice (sp_offset sp) (sp_offset sp + sp_length sp) c"
  have cells: "k < sp_length sp \<Longrightarrow> sp_offset sp + k < length c \<and> c ! (sp_offset sp + k) = d ! (off + k)" for k
    using Cons.prems(1) c by (auto simp: cell_def split: if_splits)
  have long: "0 < sp_length sp \<longrightarrow> sp_offset sp + sp_length sp \<le> length c"
    using cells [of "sp_length sp - 1"] by auto
  have part: "length ?part = sp_length sp" using long by (cases "sp_length sp = 0") (simp_all add: slice_def)
  have fits: "?stop \<le> length buf" using Cons.prems(5) by simp
  let ?buf = "overwrite off ?part buf"
  have len: "length ?buf = length buf" using fits part by (simp add: overwrite_length)
  have "take ?stop d = take ?stop ?buf"
  proof (rule nth_equalityI)
    show "length (take ?stop d) = length (take ?stop ?buf)" using Cons.prems(3) len by simp
    fix k assume "k < length (take ?stop d)"
    then have k: "k < ?stop" "k < length buf" using Cons.prems(3) by simp_all
    show "take ?stop d ! k = take ?stop ?buf ! k"
    proof (cases "k < off")
      case True
      then have "d ! k = buf ! k" using Cons.prems(4) by (metis nth_take)
      with True k fits part show ?thesis by (simp add: overwrite_nth)
    next
      case False
      then have "k - off < sp_length sp" "off + (k - off) = k" using k by simp_all
      with cells [of "k - off"] False k fits part long show ?thesis
        by (simp add: overwrite_nth slice_def)
    qed
  qed
  then have "read_spans dev fs sps ?buf ?stop = (IoOk, d)"
    using Cons.IH [of ?stop ?buf] Cons.prems len by simp
  then show ?case using Cons.prems(2) c fits long by (auto simp: Let_def)
qed simp

section \<open>The spans of a piece\<close>

text \<open>The loop cuts a range of the array into non-empty spans of different files, and a byte of a
  span is a byte of the range.\<close>

lemma spans_loop_facts:
  "tiled o1 files \<Longrightarrow> o1 + span_total files < 2 ^ 64 \<Longrightarrow> distinct (map mf_path files) \<Longrightarrow>
    o1 \<le> cur \<Longrightarrow> 0 < rem \<Longrightarrow> cur + rem \<le> o1 + span_total files \<Longrightarrow> sps = spans_loop i files cur rem \<Longrightarrow>
    distinct (map sp_path sps) \<and> spans_size sps = rem
    \<and> (\<forall>sp \<in> set sps. 0 < sp_length sp \<and> (\<exists>f \<in> set files. sp_path sp = mf_path f
          \<and> cur \<le> mf_offset f + sp_offset sp \<and> mf_offset f + sp_offset sp + sp_length sp \<le> cur + rem))"
proof (induction files arbitrary: o1 cur rem i sps)
  case (Cons f files)
  let ?n = "mf_length f"
  have fo: "mf_offset f = o1" using Cons.prems(1) by simp
  have end_of: "u64_add (mf_offset f) ?n = o1 + ?n" using Cons.prems(2) fo by simp
  show ?case
  proof (cases "o1 + ?n \<le> cur")
    case True
    then have "sps = spans_loop (Suc i) files cur rem" using Cons.prems(7) end_of by simp
    with Cons.IH [of "o1 + ?n" cur rem sps "Suc i"] True Cons.prems show ?thesis by auto
  next
    case False
    define len where "len = min rem (o1 + ?n - cur)"
    define sp where "sp = \<lparr>sp_index = i, sp_path = mf_path f, sp_offset = cur - o1, sp_length = len\<rparr>"
    let ?rest = "spans_loop (Suc i) files (cur + len) (rem - len)"
    have loop: "sps = (if rem - len = 0 then [sp] else sp # ?rest)"
      unfolding Cons.prems(7)
      by (rule spans_loop_step [OF fo _ _ _ _ len_def sp_def]) (use Cons.prems False in auto)
    have len: "len \<le> rem" "0 < len" using False Cons.prems(5) by (auto simp: len_def)
    have one: "sp_path sp = mf_path f" "sp_length sp = len" "mf_offset f + sp_offset sp = cur"
      using fo Cons.prems(4) by (simp_all add: sp_def)
    show ?thesis
    proof (cases "rem - len = 0")
      case True
      then show ?thesis using loop one len by auto
    next
      case more: False
      then have "len = o1 + ?n - cur" by (auto simp: len_def)
      then have "cur + len = o1 + ?n" "cur + len + (rem - len) = cur + rem" using False len(1) by simp_all
      then have IH: "distinct (map sp_path ?rest) \<and> spans_size ?rest = rem - len
        \<and> (\<forall>sp \<in> set ?rest. 0 < sp_length sp \<and> (\<exists>f \<in> set files. sp_path sp = mf_path f
          \<and> cur + len \<le> mf_offset f + sp_offset sp \<and> mf_offset f + sp_offset sp + sp_length sp \<le> cur + rem))"
        using Cons.IH [of "o1 + ?n" "cur + len" "rem - len" ?rest "Suc i"] Cons.prems more by simp
      then have "mf_path f \<notin> sp_path ` set ?rest" using other_path [OF Cons.prems(3)] by fastforce
      with IH loop more one len show ?thesis by (fastforce dest: bspec)
    qed
  qed
qed simp

lemma piece_spans_facts:
  assumes "fm_ok fm" and "i * fm_piece_length fm < fm_total fm"
  shows "distinct (map sp_path (piece_spans fm i))" and "spans_size (piece_spans fm i) = piece_size fm i"
    and "\<forall>sp \<in> set (piece_spans fm i). 0 < sp_length sp"
    and "touches (piece_spans fm i) p k \<Longrightarrow> \<exists>f \<in> set (fm_files fm). mf_path f = p
      \<and> i * fm_piece_length fm \<le> mf_offset f + k \<and> mf_offset f + k < i * fm_piece_length fm + fm_piece_length fm"
proof -
  note f = spans_loop_facts [OF _ _ _ _ _ _ refl, of 0 "fm_files fm" "i * fm_piece_length fm" "piece_size fm i" 0,
      folded piece_spans_eq [OF assms]]
  have all: "distinct (map sp_path (piece_spans fm i)) \<and> spans_size (piece_spans fm i) = piece_size fm i
    \<and> (\<forall>sp \<in> set (piece_spans fm i). 0 < sp_length sp \<and> (\<exists>f \<in> set (fm_files fm). sp_path sp = mf_path f
          \<and> i * fm_piece_length fm \<le> mf_offset f + sp_offset sp
          \<and> mf_offset f + sp_offset sp + sp_length sp \<le> i * fm_piece_length fm + piece_size fm i))"
    by (rule f) (use assms piece_size_bounds [OF assms] in \<open>auto simp: fm_ok_def\<close>)
  then show "distinct (map sp_path (piece_spans fm i))" "spans_size (piece_spans fm i) = piece_size fm i"
    "\<forall>sp \<in> set (piece_spans fm i). 0 < sp_length sp" by simp_all
  have le: "piece_size fm i \<le> fm_piece_length fm" by (simp add: piece_size_def)
  assume "touches (piece_spans fm i) p k"
  then obtain sp where sp: "sp \<in> set (piece_spans fm i)" "sp_path sp = p" "sp_offset sp \<le> k"
    "k < sp_offset sp + sp_length sp" by (auto simp: touches_def)
  with all obtain f where "f \<in> set (fm_files fm)" "sp_path sp = mf_path f"
    "i * fm_piece_length fm \<le> mf_offset f + sp_offset sp"
    "mf_offset f + sp_offset sp + sp_length sp \<le> i * fm_piece_length fm + piece_size fm i" by blast
  with sp le show "\<exists>f \<in> set (fm_files fm). mf_path f = p
      \<and> i * fm_piece_length fm \<le> mf_offset f + k \<and> mf_offset f + k < i * fm_piece_length fm + fm_piece_length fm"
    by (intro bexI [of _ f]) auto
qed

text \<open>Different pieces have no byte in common.\<close>

lemma pieces_apart:
  assumes "fm_ok fm" and "i * fm_piece_length fm < fm_total fm" and "j * fm_piece_length fm < fm_total fm"
    and "i \<noteq> j" and "touches (piece_spans fm i) p k"
  shows "\<not> touches (piece_spans fm j) p k"
proof
  let ?n = "fm_piece_length fm"
  assume "touches (piece_spans fm j) p k"
  with piece_spans_facts(4) [OF assms(1,3)] obtain g where g: "g \<in> set (fm_files fm)" "mf_path g = p"
    "j * ?n \<le> mf_offset g + k" "mf_offset g + k < j * ?n + ?n" by blast
  from piece_spans_facts(4) [OF assms(1,2,5)] obtain f where f: "f \<in> set (fm_files fm)" "mf_path f = p"
    "i * ?n \<le> mf_offset f + k" "mf_offset f + k < i * ?n + ?n" by blast
  have "inj_on mf_path (set (fm_files fm))" using assms(1) by (simp add: fm_ok_def distinct_map)
  then have "f = g" using f g by (metis inj_onD)
  with f g have "i * ?n < (j + 1) * ?n" "j * ?n < (i + 1) * ?n" by auto
  then have "i < j + 1" "j < i + 1" by (simp_all only: mult_less_cancel2)
  with assms(4) show False by simp
qed

text \<open>What a whole-piece read gives, on any device.\<close>

lemma read_piece_iff:
  assumes "fm_ok fm" and "j * fm_piece_length fm < fm_total fm"
  shows "read_piece dev fm j (piece_size fm j) fs = Some d \<longleftrightarrow>
    length d = piece_size fm j \<and> spans_hold fs (piece_spans fm j) d 0
    \<and> (\<forall>sp \<in> set (piece_spans fm j). dv_open dev (sp_path sp))"
proof -
  note facts = piece_spans_facts [OF assms]
  have there: "fs (sp_path sp) \<noteq> None" if "spans_hold fs sps d off" "sp \<in> set sps" "\<forall>sp \<in> set sps. 0 < sp_length sp"
    for sp sps off
    using that by (induction sps arbitrary: off) (auto simp: cell_def split: option.splits)
  have "read_piece dev fm j (piece_size fm j) fs = Some d \<longleftrightarrow>
      read_spans dev fs (piece_spans fm j) (replicate (piece_size fm j) 0) 0 = (IoOk, d)"
    by (auto simp: read_piece_def process_command_def split: prod.splits io_result.splits)
  also have "\<dots> \<longleftrightarrow> length d = piece_size fm j \<and> spans_hold fs (piece_spans fm j) d 0
    \<and> (\<forall>sp \<in> set (piece_spans fm j). dv_open dev (sp_path sp))"
    using read_gives [of dev fs "piece_spans fm j" "replicate (piece_size fm j) 0" 0 d]
      read_succeeds [of fs "piece_spans fm j" d 0 dev "replicate (piece_size fm j) 0"] facts there
    by (metis length_replicate take0 add_0)
  finally show ?thesis .
qed

section \<open>Writes reaching the disk task\<close>

definition write_commands :: "(nat \<times> bytes) list \<Rightarrow> disk_command list" where
  "write_commands ws = map (\<lambda>(i, d). WritePiece i d) ws"

text \<open>One write of a whole piece: it is answered, with \<open>DiskOk\<close> only when the piece is on disk, and
  the other pieces stay as they are.\<close>

lemma write_command:
  assumes "fm_ok fm" and "i * fm_piece_length fm < fm_total fm" and "length d = piece_size fm i"
    and "process_command dev fm (WritePiece i d) fs = (fs1, r)"
  shows "r = Written (DiskOk i) \<and> read_piece dev fm i (piece_size fm i) fs1 = Some d \<or> r = Written (DiskError i)"
    and "sound_device dev \<Longrightarrow> r = Written (DiskOk i)"
    and "j \<noteq> i \<Longrightarrow> j * fm_piece_length fm < fm_total fm \<Longrightarrow>
      read_piece dev fm j (piece_size fm j) fs = Some e \<Longrightarrow> read_piece dev fm j (piece_size fm j) fs1 = Some e"
proof -
  obtain res where w: "write_spans dev fs (piece_spans fm i) d 0 = (fs1, res)"
    and r: "r = Written (if res = IoOk then DiskOk i else DiskError i)"
    using assms(4) by (auto simp: process_command_def split: prod.splits io_result.splits)
  note facts = piece_spans_facts [OF assms(1,2)]
  have "read_piece dev fm i (piece_size fm i) fs1 = Some d" if "res = IoOk"
    using write_puts [OF w [unfolded that] facts(1)] assms(3)
    by (simp add: read_piece_iff [OF assms(1,2)])
  then show "r = Written (DiskOk i) \<and> read_piece dev fm i (piece_size fm i) fs1 = Some d \<or> r = Written (DiskError i)"
    using r by simp
  show "r = Written (DiskOk i)" if "sound_device dev"
    using write_sound [OF that, of 0 "piece_spans fm i" d fs] facts(2) assms(3) w r by simp
  assume j: "j \<noteq> i" "j * fm_piece_length fm < fm_total fm" "read_piece dev fm j (piece_size fm j) fs = Some e"
  have "cell fs1 p k = Some v" if "touches (piece_spans fm j) p k" "cell fs p k = Some v" for p k v
    using write_keeps [OF w _ that(2)] pieces_apart [OF assms(1) j(2) assms(2) j(1) that(1)] by blast
  then show "read_piece dev fm j (piece_size fm j) fs1 = Some e"
    using j(3) spans_hold_keep unfolding read_piece_iff [OF assms(1) j(2)] by blast
qed

lemma drain_writes:
  assumes "fm_ok fm"
  shows "disk_drain dev fm (write_commands ws) fs = (fs', rs) \<Longrightarrow> distinct (map fst ws) \<Longrightarrow>
    \<forall>(i, d) \<in> set ws. i * fm_piece_length fm < fm_total fm \<and> length d = piece_size fm i \<Longrightarrow>
    list_all2 (\<lambda>(i, d) r. r = Written (DiskOk i) \<and> read_piece dev fm i (piece_size fm i) fs' = Some d
      \<or> r = Written (DiskError i)) ws rs
    \<and> (sound_device dev \<longrightarrow> rs = map (\<lambda>(i, d). Written (DiskOk i)) ws)
    \<and> (\<forall>j e. j \<notin> fst ` set ws \<and> j * fm_piece_length fm < fm_total fm \<and>
         read_piece dev fm j (piece_size fm j) fs = Some e \<longrightarrow> read_piece dev fm j (piece_size fm j) fs' = Some e)"
proof (induction ws arbitrary: fs rs)
  case (Cons w ws)
  obtain i d where w: "w = (i, d)" by fastforce
  have i: "i * fm_piece_length fm < fm_total fm" "length d = piece_size fm i" "i \<notin> fst ` set ws"
    using Cons.prems(2,3) w by auto
  obtain fs1 r rs1 where c: "process_command dev fm (WritePiece i d) fs = (fs1, r)"
    and dr: "disk_drain dev fm (write_commands ws) fs1 = (fs', rs1)" and rs: "rs = r # rs1"
    using Cons.prems(1) w by (auto simp: write_commands_def split: prod.splits)
  note one = write_command [OF assms i(1,2) c]
  have IH: "list_all2 (\<lambda>(i, d) r. r = Written (DiskOk i) \<and> read_piece dev fm i (piece_size fm i) fs' = Some d
      \<or> r = Written (DiskError i)) ws rs1"
    "sound_device dev \<longrightarrow> rs1 = map (\<lambda>(i, d). Written (DiskOk i)) ws"
    "\<And>j e. j \<notin> fst ` set ws \<Longrightarrow> j * fm_piece_length fm < fm_total fm \<Longrightarrow>
       read_piece dev fm j (piece_size fm j) fs1 = Some e \<Longrightarrow> read_piece dev fm j (piece_size fm j) fs' = Some e"
    using Cons.IH [OF dr] Cons.prems(2,3) by auto
  have "r = Written (DiskOk i) \<and> read_piece dev fm i (piece_size fm i) fs' = Some d \<or> r = Written (DiskError i)"
    using one(1) IH(3) [OF i(3,1)] by blast
  with IH(1,2) one(2) have "list_all2 (\<lambda>(i, d) r. r = Written (DiskOk i) \<and> read_piece dev fm i (piece_size fm i) fs' = Some d
      \<or> r = Written (DiskError i)) (w # ws) rs"
    "sound_device dev \<longrightarrow> rs = map (\<lambda>(i, d). Written (DiskOk i)) (w # ws)"
    by (simp_all add: w rs)
  moreover have "\<forall>j e. j \<notin> fst ` set (w # ws) \<and> j * fm_piece_length fm < fm_total fm \<and>
      read_piece dev fm j (piece_size fm j) fs = Some e \<longrightarrow> read_piece dev fm j (piece_size fm j) fs' = Some e"
    using one(3) IH(3) w by auto
  ultimately show ?case by blast
qed (simp add: write_commands_def)

end
