(* ===== verification/Download.thy ===== *)
theory Download
  imports Session_Correct Disk_Faults
begin

text \<open>
  The session and the disk task together: the pieces a session hands over reach the disk task as
  write commands, one spawned task each, so in any order, and the session does not look at what the
  disk task answers. What is on disk then, on a device that may fail.
\<close>

text \<open>What a write of the session was answered.\<close>

definition refused :: "disk_reply list \<Rightarrow> nat \<Rightarrow> bool" where
  "refused rs j \<longleftrightarrow> Written (DiskError j) \<in> set rs"

text \<open>
  After the writes every piece is good on disk, adopted before and not touched since or written now,
  or the write of just that piece was refused.
\<close>

lemma written_pieces_good:
  assumes "info_ok i" and "distinct (layout_paths (info_files i))"
    and "sum_list (map unat (layout_entries (info_files i))) + unat (info_piece_length i) < 2 ^ 64"
    and "disk_drain dev (mapping_new i dir) (write_commands ws) fs = (fs', rs)"
    and "distinct (map fst ws)"
    and "\<And>j d. (j, d) \<in> set ws \<Longrightarrow>
      j < length (info_pieces i) \<and> sha1 d = info_pieces i ! j \<and> length d = piece_len i j"
    and "\<And>j. j < length (info_pieces i) \<Longrightarrow>
      j \<in> fst ` set ws \<or> good_piece sha1 (\<lambda>j n. read_piece dev (mapping_new i dir) j n fs) (info_pieces i) i j"
  shows "list_all2 (\<lambda>(j, d) r. r = Written (DiskOk j) \<or> r = Written (DiskError j)) ws rs"
    and "sound_device dev \<Longrightarrow> rs = map (\<lambda>(j, d). Written (DiskOk j)) ws"
    and "\<And>j. j < length (info_pieces i) \<Longrightarrow>
      good_piece sha1 (\<lambda>j n. read_piece dev (mapping_new i dir) j n fs') (info_pieces i) i j \<or> refused rs j"
proof -
  let ?fm = "mapping_new i dir"
  have fm: "fm_ok ?fm" by (rule mapping_new_ok [OF assms(1-3)])
  note len = mapping_piece_len [OF assms(1), of _ dir]
  have "\<forall>(j, d) \<in> set ws. j * fm_piece_length ?fm < fm_total ?fm \<and> length d = piece_size ?fm j"
    using assms(6) len by fastforce
  from drain_writes [OF fm assms(4,5) this]
  have dr: "list_all2 (\<lambda>(j, d) r. r = Written (DiskOk j) \<and> read_piece dev ?fm j (piece_size ?fm j) fs' = Some d
      \<or> r = Written (DiskError j)) ws rs"
    and sound: "sound_device dev \<longrightarrow> rs = map (\<lambda>(j, d). Written (DiskOk j)) ws"
    and keep: "\<And>j e. j \<notin> fst ` set ws \<Longrightarrow> j * fm_piece_length ?fm < fm_total ?fm \<Longrightarrow>
      read_piece dev ?fm j (piece_size ?fm j) fs = Some e \<Longrightarrow> read_piece dev ?fm j (piece_size ?fm j) fs' = Some e"
    by auto
  show "list_all2 (\<lambda>(j, d) r. r = Written (DiskOk j) \<or> r = Written (DiskError j)) ws rs"
    using dr by (rule list_all2_mono) auto
  show "rs = map (\<lambda>(j, d). Written (DiskOk j)) ws" if "sound_device dev" using sound that by blast
  have short: "piece_len i j < 2 ^ 32" for j
  proof -
    have "unat (info_total_length i) mod unat (info_piece_length i) \<le> unat (info_piece_length i)"
      using assms(1) by (simp add: info_ok_def less_imp_le)
    moreover have "unat (info_piece_length i) \<le> 2 ^ 28" using assms(1) by (simp add: info_ok_def)
    ultimately show ?thesis by (simp add: piece_len_def Let_def)
  qed
  fix j assume j: "j < length (info_pieces i)"
  show "good_piece sha1 (\<lambda>j n. read_piece dev ?fm j n fs') (info_pieces i) i j \<or> refused rs j"
  proof (cases "j \<in> fst ` set ws")
    case True
    then obtain d k where k: "k < length ws" "ws ! k = (j, d)" by (force simp: in_set_conv_nth)
    then have "rs ! k \<in> set rs" "rs ! k = Written (DiskOk j) \<and> read_piece dev ?fm j (piece_size ?fm j) fs' = Some d
        \<or> rs ! k = Written (DiskError j)"
      using dr by (auto simp: list_all2_conv_all_nth)
    moreover have "(j, d) \<in> set ws" using k by (metis nth_mem)
    ultimately show ?thesis
      using assms(6) [of j d] short len(1) [OF j] by (auto simp: good_piece_def refused_def)
  next
    case False
    then obtain d where "read_piece dev ?fm j (piece_len i j) fs = Some d" "length d mod 2 ^ 32 = piece_len i j"
      "sha1 d = info_pieces i ! j"
      using assms(7) [OF j] by (auto simp: good_piece_def split: option.splits)
    then show ?thesis using keep [OF False, of d] len [OF j] j by (simp add: good_piece_def)
  qed
qed

text \<open>C1. A completed download is on disk, except for what the device refused. Whatever the peers sent,
  in whatever order the writes of a session that reports Completed reach the disk task, and whatever
  the device refuses (a file may be impossible to open, a write may stop half-way or fail to sync at any
  place, files may be missing or shorter than they should be), every write is answered, and afterwards each piece read back
  from the files has its length and the hash of the metainfo, so that a restart would adopt it, unless
  exactly its write was answered with an error; on a device that does not fail that is every piece. The
  files of the torrent have different paths, and their sizes do not wrap in 64 bits. The session itself
  does not read the answers, so it reports Completed in every case.\<close>

theorem completed_download_on_disk:
  assumes "info_ok (se_info env)" and "distinct (layout_paths (info_files (se_info env)))"
    and "sum_list (map unat (layout_entries (info_files (se_info env))))
      + unat (info_piece_length (se_info env)) < 2 ^ 64"
    and "length (info_pieces (se_info env)) < 2 ^ 32"
    and "s0 = session_start env limit warm ex
      (\<lambda>j n. read_piece dev (mapping_new (se_info env) dir) j n fs)
      (initial_status sid h (se_info env) t0)"
    and "turns_ok picker_may env ts s0" and "session_run env s0 ts now = Done (s, True)"
    and "st_state (shared_status s) = Completed" and "mset ws = mset (writes s)"
    and "disk_drain dev (mapping_new (se_info env) dir) (write_commands ws) fs = (fs', rs)"
  shows "list_all2 (\<lambda>(j, d) r. r = Written (DiskOk j) \<or> r = Written (DiskError j)) ws rs
    \<and> (\<forall>j < length (info_pieces (se_info env)). good_piece (se_sha1 env)
        (\<lambda>j n. read_piece dev (mapping_new (se_info env) dir) j n fs')
        (info_pieces (se_info env)) (se_info env) j \<or> refused rs j)
    \<and> (sound_device dev \<longrightarrow> rs = map (\<lambda>(j, d). Written (DiskOk j)) ws
        \<and> (\<forall>j < length (info_pieces (se_info env)). good_piece (se_sha1 env)
            (\<lambda>j n. read_piece dev (mapping_new (se_info env) dir) j n fs')
            (info_pieces (se_info env)) (se_info env) j))"
proof -
  let ?i = "se_info env" and ?read = "\<lambda>j n. read_piece dev (mapping_new (se_info env) dir) j n fs"
  have pl: "0 < unat (info_piece_length ?i)" using assms(1) by (simp add: info_ok_def)
  obtain s1 where loop: "session_loop env ts s0 = Done (s1, True)" and s: "s = session_finish now s1"
    using session_run_end [OF assms(7)] .
  note inv = session_reachable_inv [OF assms(4) pl assms(6) [unfolded assms(5)] loop [unfolded assms(5)]]
  have pi: "picker_inv (sn_picker s1)" using inv by (simp add: session_inv_def)
  have led: "ledger env (\<lambda>i d. True) (adopted_pieces env ex ?read) s1"
    using inv by (simp add: session_inv_def)
  have ws: "set ws = set (writes s1)" "distinct (map fst ws)"
    using assms(9) led by (auto simp: s ledger_def dest: mset_eq_setD)
      (metis mset_eq_imp_distinct_iff mset_map)
  have "\<forall>j < length (info_pieces ?i). j \<in> adopted_pieces env ex ?read \<or> (\<exists>d. (j, d) \<in> set ws)"
    using assms(8) session_completed [OF inv pi] ws(1) by (simp add: s split: if_splits)
  then have all: "j \<in> fst ` set ws \<or> good_piece (se_sha1 env) ?read (info_pieces ?i) ?i j"
    if "j < length (info_pieces ?i)" for j
    using that by (force simp: adopted_pieces_def split: if_splits)
  have each: "j < length (info_pieces ?i) \<and> se_sha1 env d = info_pieces ?i ! j \<and> length d = piece_len ?i j"
    if "(j, d) \<in> set ws" for j d
    using ledger_write [OF led] that ws(1) by blast
  note disk = written_pieces_good [OF assms(1-3,10) ws(2) each all]
  have answers: "rs = map (\<lambda>(j, d). Written (DiskOk j)) ws" if "sound_device dev" using disk(2) that by blast
  have sound: "\<not> refused rs j" if "sound_device dev" for j
    using answers that by (auto simp: refused_def)
  show ?thesis
  proof (intro conjI impI allI)
    show "list_all2 (\<lambda>(j, d) r. r = Written (DiskOk j) \<or> r = Written (DiskError j)) ws rs" using disk(1) by blast
    show "rs = map (\<lambda>(j, d). Written (DiskOk j)) ws" if "sound_device dev" by (rule answers [OF that])
  qed (use disk(3) sound in blast)+
qed

text \<open>The device of the example cannot sync the file's second half: the piece there is refused.\<close>

definition half_broken :: device where
  "half_broken = perfect\<lparr>dv_synced := \<lambda>p k. k = 0\<rparr>"

lemma half_broken_answers:
  "snd (disk_drain half_broken (mapping_new example_info []) (write_commands (rev [(0, [0, 0, 0, 0]), (1, [0, 0])])) Map.empty) =
    [Written (DiskError 1), Written (DiskOk 0)]"
  by code_simp

theorem completed_download_on_disk_witness:
  "\<exists>s fs1 fs2. session_run example_env example_start example_session 0 = Done (s, True)
    \<and> disk_drain perfect (mapping_new example_info []) (write_commands (rev (writes s))) Map.empty =
        (fs1, [Written (DiskOk 1), Written (DiskOk 0)])
    \<and> good_piece (se_sha1 example_env) (\<lambda>j n. read_piece perfect (mapping_new example_info []) j n fs1)
        (info_pieces example_info) example_info 1
    \<and> disk_drain half_broken (mapping_new example_info []) (write_commands (rev (writes s))) Map.empty =
        (fs2, [Written (DiskError 1), Written (DiskOk 0)])
    \<and> good_piece (se_sha1 example_env) (\<lambda>j n. read_piece half_broken (mapping_new example_info []) j n fs2)
        (info_pieces example_info) example_info 0"
proof -
  have i: "se_info example_env = example_info" by (simp add: example_env_def)
  obtain s where s: "session_run example_env example_start example_session 0 = Done (s, True)"
    and st: "st_state (shared_status s) = Completed" and w: "writes s = [(0, [0, 0, 0, 0]), (1, [0, 0])]"
    using example_run by blast
  have s0: "example_start = session_start example_env 10 [] False
    (\<lambda>j n. read_piece dev (mapping_new (se_info example_env) []) j n Map.empty)
    (initial_status [] [] (se_info example_env) 0)" for dev
    by (simp add: example_start_def session_start_def)
  have cond: "info_ok (se_info example_env)" "distinct (layout_paths (info_files (se_info example_env)))"
    "sum_list (map unat (layout_entries (info_files (se_info example_env))))
      + unat (info_piece_length (se_info example_env)) < 2 ^ 64"
    "length (info_pieces (se_info example_env)) < 2 ^ 32"
    by (simp_all add: i example_info_ok) (simp_all add: example_info_def layout_paths_def layout_entries_def)
  note main = completed_download_on_disk [OF cond s0 example_any s st, where ws = "rev (writes s)", unfolded i]
  obtain fs1 r1 where d1: "disk_drain perfect (mapping_new example_info []) (write_commands (rev (writes s))) Map.empty = (fs1, r1)"
    by fastforce
  obtain fs2 where d2: "disk_drain half_broken (mapping_new example_info []) (write_commands (rev (writes s))) Map.empty =
      (fs2, [Written (DiskError 1), Written (DiskOk 0)])"
    using half_broken_answers unfolding w by (metis prod.collapse append.simps rev.simps)
  have "length (info_pieces example_info) = 2" by (simp add: example_info_def)
  then show ?thesis
    using main [OF mset_rev d1] main [OF mset_rev d2] s d1 d2 by (auto simp: w refused_def less_2_cases_iff)
qed

end
