(* ===== verification/Pipeline.thy ===== *)
theory Pipeline
  imports Session_Correct
begin

text \<open>
  The request pipeline of a session exactly: what filling it sends and records, that it keeps every
  unchoked peer busy, and what happens to the blocks of a peer that chokes us or is gone.
\<close>

section \<open>Filling\<close>

definition queue_commands :: "peer_command list \<Rightarrow> peer_state \<Rightarrow> peer_state" where
  "queue_commands cs p = p\<lparr>cmd_tx := (cmd_tx p)\<lparr>ch_queue := ch_queue (cmd_tx p) @ cs\<rparr>\<rparr>"

text \<open>No block is left that the peer has, we miss, and nobody was asked for.\<close>

definition nothing_to_request :: "picker \<Rightarrow> bitfield \<Rightarrow> bool" where
  "nothing_to_request pk bf \<longleftrightarrow> (\<forall>i b. i < pk_pieces pk \<longrightarrow> has bf i \<longrightarrow> \<not> has (have_bf pk) i \<longrightarrow>
     b < block_count pk i \<longrightarrow> block_assigned pk i b)"

lemma send_open:
  assumes "map_of (pm_peers pm) addr = Some p" and "\<not> ch_closed (cmd_tx p)"
    and "length (ch_queue (cmd_tx p)) < CHANNEL_CAPACITY"
  shows "send_command addr cmd pm =
    (pm\<lparr>pm_peers := hm_insert addr (queue_commands [cmd] p) (pm_peers pm)\<rparr>, True)"
  using assms by (simp add: send_command_def try_send_def queue_commands_def)

lemma pick_none_saturated:
  assumes "pick_block rand pk bf = (pk', None)" and "picker_inv pk"
  shows "nothing_to_request pk' bf"
proof -
  note p = pick_block_None_full [OF assms]
  then have "pk_pieces pk' = pk_pieces pk" "have_bf pk' = have_bf pk" "block_count pk' = block_count pk"
    by (metis block_count_frame picker.select_convs picker.surjective picker.update_convs(4))+
  with p show ?thesis by (simp add: nothing_to_request_def)
qed

text \<open>What one filling of the pipeline with \<open>n\<close> free slots does.\<close>

definition filled :: "sock_addr \<Rightarrow> bitfield \<Rightarrow> nat \<Rightarrow> session \<Rightarrow> session \<Rightarrow> block_request list \<Rightarrow> bool" where
  "filled addr bf n s s' bs \<longleftrightarrow> length bs \<le> n \<and> pending_of s' addr = pending_of s addr @ bs
     \<and> map_of (pm_peers (sn_peers s')) addr =
         map_option (\<lambda>p. (queue_commands (map request_of bs) p)\<lparr>outstanding_requests :=
           outstanding_requests p + length bs\<rparr>) (map_of (pm_peers (sn_peers s)) addr)
     \<and> (\<forall>a. a \<noteq> addr \<longrightarrow> map_of (pm_peers (sn_peers s')) a = map_of (pm_peers (sn_peers s)) a
          \<and> pending_of s' a = pending_of s a)
     \<and> (\<forall>b \<in> set bs. has bf (br_piece b) \<and> \<not> has (have_bf (sn_picker s)) (br_piece b))
     \<and> (length bs = n \<or> nothing_to_request (sn_picker s') bf)
     \<and> torrent_eq (sn_picker s) (sn_picker s')"

lemma filledI:
  assumes "map_of (pm_peers (sn_peers s)) addr = Some p"
    and "map_of (pm_peers (sn_peers s')) addr = Some ((queue_commands (map request_of bs) p)
      \<lparr>outstanding_requests := outstanding_requests p + length bs\<rparr>)"
    and "length bs \<le> n" and "pending_of s' addr = pending_of s addr @ bs"
    and "\<And>a. a \<noteq> addr \<Longrightarrow> map_of (pm_peers (sn_peers s')) a = map_of (pm_peers (sn_peers s)) a
      \<and> pending_of s' a = pending_of s a"
    and "\<forall>b \<in> set bs. has bf (br_piece b) \<and> \<not> has (have_bf (sn_picker s)) (br_piece b)"
    and "length bs = n \<or> nothing_to_request (sn_picker s') bf"
    and "torrent_eq (sn_picker s) (sn_picker s')"
  shows "filled addr bf n s s' bs"
  using assms unfolding filled_def by (simp only: option.map) blast

lemma fill_loop_filled:
  assumes "picker_inv (sn_picker s)" and "map_of (pm_peers (sn_peers s)) addr = Some p"
    and "\<not> ch_closed (cmd_tx p)" and "length (ch_queue (cmd_tx p)) + n \<le> CHANNEL_CAPACITY"
  shows "\<exists>bs. filled addr bf n s (fill_loop rand addr bf n s) bs"
  using assms
proof (induction n arbitrary: s p)
  case 0
  then show ?case
    by (intro exI [of _ "[]"]) (auto simp: filled_def queue_commands_def)
next
  case (Suc n)
  obtain pk' ro where pick: "pick_block (rand n) (sn_picker s) bf = (pk', ro)" by fastforce
  have te: "torrent_eq (sn_picker s) pk'"
    using torrent_eq_pick [of "sn_picker s" "rand n" bf] by (simp add: pick)
  show ?case
  proof (cases ro)
    case None
    then have "filled addr bf (Suc n) s (fill_loop rand addr bf (Suc n) s) []"
      using pick te pick_none_saturated [OF pick [unfolded None] Suc.prems(1)] Suc.prems(2)
      by (auto simp: filled_def queue_commands_def pending_of_def Let_def)
    then show ?thesis by blast
  next
    case (Some b)
    note ps = pick_block_Some [OF pick [unfolded Some] Suc.prems(1)]
    let ?p1 = "(queue_commands [request_of b] p)\<lparr>outstanding_requests := outstanding_requests p + 1\<rparr>"
    let ?pm1 = "peer_update addr (\<lambda>p. p\<lparr>outstanding_requests := outstanding_requests p + 1\<rparr>)
      (fst (send_command addr (request_of b) (sn_peers s)))"
    let ?s1 = "s\<lparr>sn_picker := pk', sn_peers := ?pm1,
      peer_pending := hm_insert addr (pending_of s addr @ [b]) (peer_pending s)\<rparr>"
    have send: "send_command addr (request_of b) (sn_peers s) =
        ((sn_peers s)\<lparr>pm_peers := hm_insert addr (queue_commands [request_of b] p) (pm_peers (sn_peers s))\<rparr>, True)"
      by (rule send_open) (use Suc.prems in simp_all)
    have p1: "map_of (pm_peers ?pm1) a = ((map_of (pm_peers (sn_peers s)))(addr \<mapsto> ?p1)) a" for a
      by (simp add: send peer_update_def queue_commands_def)
    have eq: "fill_loop rand addr bf (Suc n) s = fill_loop rand addr bf n ?s1"
      using pick Some send by (simp add: Let_def pending_of_def)
    obtain bs where bs: "filled addr bf n ?s1 (fill_loop rand addr bf n ?s1) bs"
      using Suc.IH [of ?s1 ?p1] ps p1 [of addr] Suc.prems by (auto simp: queue_commands_def)
    have "filled addr bf (Suc n) s s' (b # bs)" if step: "filled addr bf n ?s1 s' bs" for s'
    proof (rule filledI [where p = p])
      note st = step [unfolded filled_def]
      have hb: "have_bf pk' = have_bf (sn_picker s)" using te by (simp add: torrent_eq_def)
      have "has bf (br_piece b)" "\<not> has (have_bf (sn_picker s)) (br_piece b)"
        using ps by (auto simp: fresh_request_def)
      then show "\<forall>c \<in> set (b # bs). has bf (br_piece c) \<and> \<not> has (have_bf (sn_picker s)) (br_piece c)"
        using st by (simp add: hb)
      show "torrent_eq (sn_picker s) (sn_picker s')"
        using torrent_eq_trans [OF te] st by simp
      show "map_of (pm_peers (sn_peers s')) addr = Some ((queue_commands (map request_of (b # bs)) p)
          \<lparr>outstanding_requests := outstanding_requests p + length (b # bs)\<rparr>)"
        using st p1 [of addr] by (simp add: queue_commands_def)
      show "pending_of s' addr = pending_of s addr @ b # bs"
        using st by (simp add: pending_of_def)
      show "map_of (pm_peers (sn_peers s')) a = map_of (pm_peers (sn_peers s)) a
          \<and> pending_of s' a = pending_of s a" if a: "a \<noteq> addr" for a
      proof -
        have "map_of (pm_peers (sn_peers s')) a = map_of (pm_peers (sn_peers ?s1)) a
            \<and> pending_of s' a = pending_of ?s1 a"
          using st a by blast
        moreover have "pending_of ?s1 a = pending_of s a"
          using a by (simp add: pending_of_def del: split_paired_All)
        ultimately show ?thesis using p1 [of a] a by simp
      qed
      show "length (b # bs) \<le> Suc n" "length (b # bs) = Suc n \<or> nothing_to_request (sn_picker s') bf"
        using st by simp_all
      show "map_of (pm_peers (sn_peers s)) addr = Some p" by (rule Suc.prems(2))
    qed
    from this [OF bs] show ?thesis unfolding eq by (rule exI)
  qed
qed

lemma fill_loop_picker: "picker_inv (sn_picker s) \<Longrightarrow> picker_inv (sn_picker (fill_loop rand addr bf n s))"
proof (induction n arbitrary: s)
  case (Suc n)
  have "picker_inv (fst (pick_block (rand n) (sn_picker s) bf))"
    using Suc.prems by (rule pick_block_inv)
  then show ?case by (simp add: Let_def Suc.IH split: option.splits prod.splits)
qed simp

lemma fill_pipeline_inv_plain:
  "picker_inv (sn_picker s) \<Longrightarrow> picker_inv (sn_picker (fill_pipeline env rand addr s))"
  by (simp add: fill_pipeline_def fill_loop_picker Let_def split: option.splits)

section \<open>Releasing\<close>

definition block_got :: "picker \<Rightarrow> nat \<Rightarrow> nat \<Rightarrow> bool" where
  "block_got pk i b = (case map_of (in_progress pk) i of None \<Rightarrow> False
     | Some p \<Rightarrow> b < num_blocks p \<and> blocks_received p ! b)"

text \<open>Nobody is asked for the block any more: it is free, or it has arrived.\<close>

definition block_free :: "picker \<Rightarrow> nat \<Rightarrow> nat \<Rightarrow> bool" where
  "block_free pk i b \<longleftrightarrow> block_assigned pk i b \<longrightarrow> block_got pk i b"

lemma unassign_free:
  assumes "picker_inv pk"
  shows "block_free (unassign_block i off pk) i (off div block_size)"
proof (cases "map_of (in_progress pk) i")
  case (Some p)
  have "piece_ok pk i p" using assms Some by (rule picker_invD(7))
  then have "pp_inv p" by (simp add: piece_ok_def)
  with Some show ?thesis
    by (auto simp: block_free_def block_assigned_def block_got_def unassign_block_def
        mark_unassigned_def pp_inv_def split: if_splits)
qed (simp add: block_free_def block_assigned_def unassign_block_def)

lemma unassign_keeps_free:
  assumes "picker_inv pk" and "block_free pk j b"
  shows "block_free (unassign_block i off pk) j b"
proof (cases "map_of (in_progress pk) i")
  case (Some p)
  have "piece_ok pk i p" using assms(1) Some by (rule picker_invD(7))
  then have "pp_inv p" by (simp add: piece_ok_def)
  with Some assms(2) show ?thesis
    by (auto simp: block_free_def block_assigned_def block_got_def unassign_block_def
        mark_unassigned_def pp_inv_def nth_list_update split: if_splits option.splits)
qed (use assms in \<open>simp add: unassign_block_def\<close>)

lemma release_free:
  assumes "picker_inv pk" and "b \<in> set bs"
  shows "block_free (fold (\<lambda>b. unassign_block (br_piece b) (br_offset b)) bs pk)
    (br_piece b) (br_offset b div block_size)"
  using assms
proof (induction bs arbitrary: pk)
  case (Cons c bs)
  have keep: "picker_inv pk \<Longrightarrow> block_free pk j k \<Longrightarrow>
      block_free (fold (\<lambda>b. unassign_block (br_piece b) (br_offset b)) bs pk) j k" for pk j k
    by (induction bs arbitrary: pk) (auto intro: unassign_keeps_free unassign_block_inv)
  show ?case
  proof (cases "b \<in> set bs")
    case True
    with Cons show ?thesis by (simp add: unassign_block_inv)
  next
    case False
    then have "b = c" using Cons.prems(2) by simp
    with Cons.prems(1) show ?thesis
      by (simp add: keep unassign_block_inv unassign_free)
  qed
qed simp

section \<open>Properties\<close>

text \<open>
  C24. The pipeline of an unchoked peer is kept full. When the session knows the pieces of an unchoked
  peer whose channel is open and has room for the missing requests, \<open>fill_pipeline\<close> leaves the peer
  either with as many open requests as its depth or with nothing left to ask it for. Every request it
  adds is for a piece the peer has and we miss, is counted in the open requests, is remembered in the
  pending list and is queued as a request command, once each and in the same order.
\<close>

theorem fill_pipeline_saturates:
  assumes "picker_inv (sn_picker s)" and "peer_state_of (sn_peers s) addr = Some p"
    and "\<not> peer_choking p" and "map_of (peer_bitfields s) addr = Some bf" and "\<not> ch_closed (cmd_tx p)"
    and "length (ch_queue (cmd_tx p)) + (depth - outstanding_requests p) \<le> CHANNEL_CAPACITY"
    and "depth = max_pipeline (se_floats env) (se_lightspeed env) (throughput_mibps p)"
    and "s' = fill_pipeline env rand addr s"
  shows "\<exists>bs p'. peer_state_of (sn_peers s') addr = Some p'
    \<and> (depth \<le> outstanding_requests p' \<or> nothing_to_request (sn_picker s') bf)
    \<and> outstanding_requests p' = outstanding_requests p + length bs
    \<and> pending_of s' addr = pending_of s addr @ bs
    \<and> ch_queue (cmd_tx p') = ch_queue (cmd_tx p) @ map request_of bs
    \<and> (\<forall>b \<in> set bs. has bf (br_piece b) \<and> \<not> has (have_bf (sn_picker s)) (br_piece b))"
proof (cases "depth \<le> outstanding_requests p")
  case True
  then show ?thesis
    using assms by (intro exI [of _ "[]"] exI [of _ p]) (simp add: fill_pipeline_def)
next
  case False
  have p: "map_of (pm_peers (sn_peers s)) addr = Some p" using assms(2) by (simp add: peer_state_of_def)
  have s': "s' = fill_loop rand addr bf (depth - outstanding_requests p) s"
    using assms(2-4,7,8) False by (simp add: fill_pipeline_def)
  obtain bs where "filled addr bf (depth - outstanding_requests p) s s' bs"
    using fill_loop_filled [OF assms(1) p assms(5,6)] unfolding s' by blast
  note f = this [unfolded filled_def]
  let ?p' = "(queue_commands (map request_of bs) p)\<lparr>outstanding_requests :=
    outstanding_requests p + length bs\<rparr>"
  have "peer_state_of (sn_peers s') addr = Some ?p'" using f p by (simp add: peer_state_of_def)
  moreover have "depth \<le> outstanding_requests ?p' \<or> nothing_to_request (sn_picker s') bf"
    using f False by auto
  moreover have "ch_queue (cmd_tx ?p') = ch_queue (cmd_tx p) @ map request_of bs"
    by (simp add: queue_commands_def)
  ultimately show ?thesis
    using f by (intro exI [of _ bs] exI [of _ ?p']) simp
qed

text \<open>
  No block waits for a peer that is not going to send it. When a peer chokes us or its connection
  is gone, its pending list is emptied and every block in it is free again for the other peers,
  unless it has arrived in the meantime.
\<close>

theorem released_blocks_free:
  assumes "picker_inv (sn_picker s)" and "b \<in> set (pending_of s addr)"
  shows "block_free (sn_picker (release_peer_blocks addr s)) (br_piece b) (br_offset b div block_size)
    \<and> pending_of (release_peer_blocks addr s) addr = []"
  using assms release_free [of "sn_picker s" b "pending_of s addr"]
  by (auto simp: release_peer_blocks_def pending_of_def split: option.splits)

text \<open>The session of the example just after its peer has unchoked us, and after the reaction to it.\<close>

definition example_unchoked :: session where
  "example_unchoked = (case session_loop example_env (take 3 example_session) example_start of
       Panic \<Rightarrow> example_start
     | Done (s, _) \<Rightarrow> s\<lparr>sn_peers := handle_event example_peer EvUnchoked (sn_peers s)\<rparr>)"

definition example_requested :: session where
  "example_requested = fill_pipeline example_env (\<lambda>n i. 0) example_peer example_unchoked"

lemma example_unchoked_facts:
  "case peer_state_of (sn_peers example_unchoked) example_peer of None \<Rightarrow> False
   | Some p \<Rightarrow> \<not> peer_choking p \<and> \<not> ch_closed (cmd_tx p) \<and> outstanding_requests p = 0
       \<and> length (ch_queue (cmd_tx p)) + 64 \<le> CHANNEL_CAPACITY"
  "map_of (peer_bitfields example_unchoked) example_peer = Some (full_bitfield 2)"
  "pending_of example_unchoked example_peer = []"
  by code_simp+

lemma example_requested_facts:
  "pending_of example_requested example_peer = [\<lparr>br_piece = 1, br_offset = 0, br_length = 2\<rparr>,
     \<lparr>br_piece = 0, br_offset = 0, br_length = 4\<rparr>]"
  by code_simp

lemma example_unchoked_peer:
  obtains p where "peer_state_of (sn_peers example_unchoked) example_peer = Some p"
    and "\<not> peer_choking p" "\<not> ch_closed (cmd_tx p)" "outstanding_requests p = 0"
    and "length (ch_queue (cmd_tx p)) + 64 \<le> CHANNEL_CAPACITY"
  using example_unchoked_facts(1) by (auto split: option.splits)

lemma turns_ok_take: "turns_ok may env ts s \<Longrightarrow> turns_ok may env (take n ts) s"
proof (induction ts arbitrary: s n)
  case (Cons t ts)
  then show ?case by (cases n) (auto split: run.splits)
qed simp

lemma example_unchoked_inv: "picker_inv (sn_picker example_unchoked)"
proof (cases "session_loop example_env (take 3 example_session) example_start")
  case Panic
  have "case session_loop example_env (take 3 example_session) example_start of
      Panic \<Rightarrow> False | Done r \<Rightarrow> True" by code_simp
  with Panic show ?thesis by simp
next
  case (Done r)
  have "session_inv example_env picker_inv (\<lambda>i d. True)
      (adopted_pieces example_env False (\<lambda>i n. None)) (fst r)"
    by (rule session_reachable_inv [OF example_env_ok
          turns_ok_take [OF example_any, unfolded example_start_def], where e = "snd r"])
      (use Done in \<open>simp add: example_start_def\<close>)
  with Done show ?thesis
    by (simp add: example_unchoked_def session_inv_def split_beta)
qed

theorem fill_pipeline_saturates_witness:
  "\<exists>p'. peer_state_of (sn_peers example_requested) example_peer = Some p'
    \<and> nothing_to_request (sn_picker example_requested) (full_bitfield 2)
    \<and> ch_queue (cmd_tx p') \<noteq> [] \<and> outstanding_requests p' = 2"
proof -
  obtain p where p: "peer_state_of (sn_peers example_unchoked) example_peer = Some p"
    and po: "\<not> peer_choking p" "\<not> ch_closed (cmd_tx p)" "outstanding_requests p = 0"
    and room: "length (ch_queue (cmd_tx p)) + 64 \<le> CHANNEL_CAPACITY"
    by (rule example_unchoked_peer)
  have d: "max_pipeline (se_floats example_env) (se_lightspeed example_env) (throughput_mibps p) = 64"
    by (simp add: max_pipeline_def example_env_def)
  have "length (ch_queue (cmd_tx p)) + (64 - outstanding_requests p) \<le> CHANNEL_CAPACITY"
    using room po(3) by simp
  from fill_pipeline_saturates [OF example_unchoked_inv p po(1) example_unchoked_facts(2) po(2)
      this d [symmetric] example_requested_def]
  obtain bs p' where "peer_state_of (sn_peers example_requested) example_peer = Some p'"
    "64 \<le> outstanding_requests p' \<or> nothing_to_request (sn_picker example_requested) (full_bitfield 2)"
    "outstanding_requests p' = outstanding_requests p + length bs"
    "pending_of example_requested example_peer = pending_of example_unchoked example_peer @ bs"
    "ch_queue (cmd_tx p') = ch_queue (cmd_tx p) @ map request_of bs"
    by blast
  moreover from this have "bs = [\<lparr>br_piece = 1, br_offset = 0, br_length = 2\<rparr>,
      \<lparr>br_piece = 0, br_offset = 0, br_length = 4\<rparr>]"
    by (simp add: example_unchoked_facts(3) example_requested_facts)
  ultimately show ?thesis by (simp add: po(3))
qed

theorem released_blocks_free_witness:
  "block_free (sn_picker (release_peer_blocks example_peer example_requested)) 0 0
    \<and> block_assigned (sn_picker example_requested) 0 0"
proof -
  have "picker_inv (sn_picker example_requested)"
    using fill_pipeline_inv_plain [OF example_unchoked_inv] by (simp add: example_requested_def)
  from released_blocks_free [OF this, of "\<lparr>br_piece = 0, br_offset = 0, br_length = 4\<rparr>" example_peer]
  have "block_free (sn_picker (release_peer_blocks example_peer example_requested)) 0 0"
    by (simp add: example_requested_facts)
  moreover have "block_assigned (sn_picker example_requested) 0 0" by code_simp
  ultimately show ?thesis by blast
qed

end
